(* ===== verification/Prelude.thy ===== *)
theory Prelude
  imports Main "HOL-Library.Multiset"
begin

text \<open>
  Shared vocabulary of the development.

  \<^item> \<open>uuid\<close>: a UUID is a 128-bit number written in fixed-width lower-case hexadecimal, so
    comparing two of them as strings is comparing the numbers; identifiers are \<open>nat\<close>.
  \<^item> \<open>instant\<close>: a JavaScript \<open>Date\<close> or a \<open>timestamptz\<close>, as milliseconds since the epoch.
  \<^item> JavaScript numbers that count units are \<open>int\<close>; \<open>is_safe_integer\<close> is the magnitude half
    of \<open>Number.isSafeInteger\<close> (fractions and NaN, which the same guards reject, have no
    representative), and \<open>int4\<close> is the range of a PostgreSQL \<open>integer\<close> column.
  \<^item> A raised exception is \<open>Inl\<close> of an \<open>exn\<close>; \<open>bindR\<close> sequences computations that may
    raise, \<open>foldR\<close> runs a loop whose body may raise.
  \<^item> A JavaScript \<open>Set\<close> or \<open>Map\<close> iterates in insertion order: \<open>set_add\<close> and \<open>alist_put\<close>
    keep that order.
  \<^item> A table is the list of its rows; \<open>row_table\<close> is the interface of a table whose rows
    carry a primary key.
\<close>

named_theorems result_simps \<open>sequencing of computations that may raise\<close>
named_theorems table_simps \<open>reading a table after a write\<close>

text \<open>Keys are tuples; a statement about every key should not be split into its components.\<close>

declare split_paired_All [simp del]

section \<open>Identifiers, instants and numbers\<close>

type_synonym uuid = nat
type_synonym instant = int

definition is_safe_integer :: "int \<Rightarrow> bool" where
  "is_safe_integer n \<longleftrightarrow> \<bar>n\<bar> \<le> 9007199254740991"

definition int4 :: "int \<Rightarrow> bool" where
  "int4 n \<longleftrightarrow> - 2147483648 \<le> n \<and> n \<le> 2147483647"

lemma int4_safe: "int4 n \<Longrightarrow> is_safe_integer n"
  by (auto simp: int4_def is_safe_integer_def)

section \<open>Exceptions\<close>

text \<open>
  What a call can throw: a constraint of the database refusing a statement (named, as
  PostgreSQL reports it), a value outside its column's range, a domain fault of
  \<^verbatim>\<open>packages/domain/src/errors.ts\<close>, or a plain \<open>Error\<close>.
\<close>

datatype domain_fault =
    NotWholeNonNegative string int
  | NotWholePositive string int
  | DuplicateLocation uuid
  | EmptyRecipe
  | DuplicateComponent uuid
  | EmptyAllocation

datatype exn =
    UniqueViolation string
  | CheckViolation string
  | ForeignKeyViolation string
  | NumericValueOutOfRange
  | DomainError domain_fault
  | PlainError string

fun bindR :: "'e + 'a \<Rightarrow> ('a \<Rightarrow> 'e + 'b) \<Rightarrow> 'e + 'b" where
  "bindR (Inl e) f = Inl e"
| "bindR (Inr x) f = f x"

fun foldR :: "('a \<Rightarrow> 's \<Rightarrow> 'e + 's) \<Rightarrow> 'a list \<Rightarrow> 's \<Rightarrow> 'e + 's" where
  "foldR f [] s = Inr s"
| "foldR f (x # xs) s = bindR (f x s) (foldR f xs)"

definition guardR :: "bool \<Rightarrow> 'e \<Rightarrow> 'e + unit" where
  "guardR b e = (if b then Inr () else Inl e)"

lemma bindR_Inr [result_simps]: "bindR m f = Inr y \<longleftrightarrow> (\<exists>x. m = Inr x \<and> f x = Inr y)"
  by (cases m) auto

lemma bindR_Inl [result_simps]:
  "bindR m f = Inl e \<longleftrightarrow> m = Inl e \<or> (\<exists>x. m = Inr x \<and> f x = Inl e)"
  by (cases m) auto

lemma guardR_simps [simp]:
  "guardR True e = Inr ()" "guardR False e = Inl e"
  "guardR b e = Inr u \<longleftrightarrow> b" "guardR b e = Inl e' \<longleftrightarrow> \<not> b \<and> e' = e"
  by (auto simp: guardR_def)

lemma bindR_cong [fundef_cong]:
  "m = m' \<Longrightarrow> (\<And>x. m' = Inr x \<Longrightarrow> f x = g x) \<Longrightarrow> bindR m f = bindR m' g"
  by (cases m) auto

text \<open>A property of the state that every iteration keeps holds after the loop.\<close>

lemma foldR_invariant:
  assumes "foldR f xs s = Inr t" and "P s"
    and "\<And>x s t. x \<in> set xs \<Longrightarrow> P s \<Longrightarrow> f x s = Inr t \<Longrightarrow> P t"
  shows "P t"
  using assms
proof (induction xs arbitrary: s)
  case Nil
  then show ?case by simp
next
  case (Cons x xs)
  from Cons.prems(1) obtain u where u: "f x s = Inr u" and t: "foldR f xs u = Inr t"
    by (auto simp: result_simps)
  have "P u" using Cons.prems(2,3) u by auto
  with t Cons.prems(3) show ?case by (intro Cons.IH [of u]) auto
qed

lemma foldR_frame:
  assumes "foldR f xs s = Inr t" and "\<And>x s t. x \<in> set xs \<Longrightarrow> f x s = Inr t \<Longrightarrow> g t = g s"
  shows "g t = g s"
  using foldR_invariant [of f xs s t "\<lambda>u. g u = g s"] assms by auto

section \<open>Insertion-ordered sets and maps\<close>

definition set_add :: "'a \<Rightarrow> 'a list \<Rightarrow> 'a list" where
  "set_add x xs = (if x \<in> set xs then xs else xs @ [x])"

definition set_of :: "'a list \<Rightarrow> 'a list" where
  "set_of xs = fold set_add xs []"

lemma set_set_add [simp]: "set (set_add x xs) = insert x (set xs)"
  by (auto simp: set_add_def)

lemma distinct_set_add [simp]: "distinct (set_add x xs) = distinct xs"
  by (auto simp: set_add_def)

lemma fold_set_add:
  "set (fold set_add ys xs) = set xs \<union> set ys"
  "distinct (fold set_add ys xs) = distinct xs"
  by (induction ys arbitrary: xs) auto

lemma set_of [simp]: "set (set_of xs) = set xs" "distinct (set_of xs)"
  by (simp_all add: set_of_def fold_set_add)

fun alist_put :: "'k \<Rightarrow> 'v \<Rightarrow> ('k \<times> 'v) list \<Rightarrow> ('k \<times> 'v) list" where
  "alist_put k v [] = [(k, v)]"
| "alist_put k v ((k', v') # m) = (if k' = k then (k, v) # m else (k', v') # alist_put k v m)"

lemma map_of_alist_put [simp]: "map_of (alist_put k v m) = (map_of m)(k \<mapsto> v)"
  by (induction m) auto

lemma keys_alist_put [simp]: "fst ` set (alist_put k v m) = insert k (fst ` set m)"
proof (induction m)
  case (Cons p m)
  then show ?case by (cases p) auto
qed simp

lemma distinct_alist_put [simp]:
  "distinct (map fst m) \<Longrightarrow> distinct (map fst (alist_put k v m))"
proof (induction m)
  case (Cons p m)
  obtain k' v' where p: "p = (k', v')" by (cases p)
  show ?case
    using Cons keys_alist_put [of k v m] by (auto simp: p)
qed simp

section \<open>Numbers in messages\<close>

text \<open>\<open>String(n)\<close> of a whole number.\<close>

fun digits :: "nat \<Rightarrow> string" where
  "digits n = (if n < 10 then [] else digits (n div 10)) @ [char_of (48 + n mod 10)]"

declare digits.simps [simp del]

definition number_text :: "int \<Rightarrow> string" where
  "number_text n = (if n < 0 then CHR ''-'' # digits (nat (- n)) else digits (nat n))"

section \<open>Strings\<close>

text \<open>
  A string is the list of its UTF-16 code units below 256. \<open>trim\<close> strips the white space of
  \<open>String.prototype.trim\<close> in that range: TAB, LF, VT, FF, CR, SPACE and NO-BREAK SPACE.
\<close>

definition js_space :: "char \<Rightarrow> bool" where
  "js_space c \<longleftrightarrow> (let n = (of_char c :: nat) in n \<in> {9, 10, 11, 12, 13, 32, 160})"

definition trim :: "string \<Rightarrow> string" where
  "trim s = rev (dropWhile js_space (rev (dropWhile js_space s)))"

definition lower_char :: "char \<Rightarrow> char" where
  "lower_char c = (let n = (of_char c :: nat) in if 65 \<le> n \<and> n \<le> 90 then char_of (n + 32) else c)"

definition upper_char :: "char \<Rightarrow> char" where
  "upper_char c = (let n = (of_char c :: nat) in if 97 \<le> n \<and> n \<le> 122 then char_of (n - 32) else c)"

lemma dropWhile_idem: "dropWhile P (dropWhile P xs) = dropWhile P xs"
  by (induction xs) auto

lemma hd_dropWhile_append:
  "dropWhile P xs = xs \<Longrightarrow> dropWhile P (rev (dropWhile P (rev xs))) = rev (dropWhile P (rev xs))"
proof (cases xs)
  case (Cons x ys)
  assume a: "dropWhile P xs = xs"
  have nP: "\<not> P x"
  proof
    assume "P x"
    then have "dropWhile P xs = dropWhile P ys" using Cons by simp
    moreover have "length (dropWhile P ys) \<le> length ys" by (rule length_dropWhile_le)
    ultimately show False using a Cons by simp
  qed
  have "dropWhile P (rev ys @ [x]) = dropWhile P (rev ys) @ [x]"
    using nP by (induction "rev ys" arbitrary: ys) (auto simp: dropWhile_append3 dropWhile_append)
  then show ?thesis using nP Cons by simp
qed simp

lemma trim_trim [simp]: "trim (trim s) = trim s"
proof -
  let ?d = "dropWhile js_space s"
  have "dropWhile js_space (trim s) = trim s"
    unfolding trim_def by (rule hd_dropWhile_append) (simp add: dropWhile_idem)
  then show ?thesis by (simp add: trim_def dropWhile_idem)
qed

text \<open>Byte order on strings, as an \<open>order by\<close> on a text column compares them.\<close>

fun str_le :: "string \<Rightarrow> string \<Rightarrow> bool" where
  "str_le [] t = True"
| "str_le (c # s) [] = False"
| "str_le (c # s) (c' # t) =
     (if c = c' then str_le s t else (of_char c :: nat) < of_char c')"

lemma str_le_total: "str_le s t \<or> str_le t s"
proof (induction s t rule: str_le.induct)
  case (3 c s c' t)
  have "c = c' \<or> (of_char c :: nat) < of_char c' \<or> (of_char c' :: nat) < of_char c"
    by (metis nat_neq_iff of_char_eq_iff)
  with 3 show ?case by auto
qed auto

lemma str_le_trans: "str_le s t \<Longrightarrow> str_le t u \<Longrightarrow> str_le s u"
proof (induction s t arbitrary: u rule: str_le.induct)
  case (2 c s)
  then show ?case by simp
next
  case (3 c s c' t)
  then show ?case by (cases u) (auto split: if_splits)
qed simp

lemma str_le_refl [simp]: "str_le s s"
  using str_le_total [of s s] by simp

section \<open>Ordered results\<close>

text \<open>\<open>order by\<close>: a stable insertion sort under a comparison.\<close>

fun insert_by :: "('a \<Rightarrow> 'a \<Rightarrow> bool) \<Rightarrow> 'a \<Rightarrow> 'a list \<Rightarrow> 'a list" where
  "insert_by le x [] = [x]"
| "insert_by le x (y # ys) = (if le x y then x # y # ys else y # insert_by le x ys)"

definition sort_by :: "('a \<Rightarrow> 'a \<Rightarrow> bool) \<Rightarrow> 'a list \<Rightarrow> 'a list" where
  "sort_by le xs = foldr (insert_by le) xs []"

lemma sort_by_simps [simp]:
  "sort_by le [] = []" "sort_by le (x # xs) = insert_by le x (sort_by le xs)"
  by (simp_all add: sort_by_def)

lemma set_insert_by [simp]: "set (insert_by le x ys) = insert x (set ys)"
  by (induction ys) auto

lemma set_sort_by [simp]: "set (sort_by le xs) = set xs"
  by (induction xs) auto

lemma length_insert_by [simp]: "length (insert_by le x ys) = Suc (length ys)"
  by (induction ys) auto

lemma length_sort_by [simp]: "length (sort_by le xs) = length xs"
  by (induction xs) auto

lemma distinct_map_insert_by:
  "distinct (map f (insert_by le x ys)) \<longleftrightarrow> f x \<notin> f ` set ys \<and> distinct (map f ys)"
  by (induction ys) auto

lemma distinct_map_sort_by [simp]: "distinct (map f (sort_by le xs)) = distinct (map f xs)"
  by (induction xs) (simp_all add: distinct_map_insert_by)

text \<open>The interface of a comparison an \<open>order by\<close> may use: a total preorder.\<close>

locale row_order =
  fixes le :: "'a \<Rightarrow> 'a \<Rightarrow> bool"
  assumes le_total: "le x y \<or> le y x" and le_trans: "le x y \<Longrightarrow> le y z \<Longrightarrow> le x z"
begin

lemma sorted_insert_by: "sorted_wrt le ys \<Longrightarrow> sorted_wrt le (insert_by le x ys)"
proof (induction ys)
  case (Cons y ys)
  show ?case
  proof (cases "le x y")
    case True
    then have "\<forall>z \<in> set ys. le x z" using Cons.prems le_trans by auto
    with True Cons.prems show ?thesis by simp
  next
    case False
    then have "le y x" using le_total by blast
    with False Cons show ?thesis by simp
  qed
qed simp

lemma sorted_sort_by: "sorted_wrt le (sort_by le xs)"
  by (induction xs) (auto intro: sorted_insert_by)

end

text \<open>Ties apart, the order of the rows read does not matter.\<close>

lemma mset_insert_by [simp]: "mset (insert_by le x ys) = add_mset x (mset ys)"
  by (induction ys) auto

lemma mset_sort_by [simp]: "mset (sort_by le xs) = mset xs"
  by (induction xs) auto

lemma sorted_wrt_unique:
  assumes "sorted_wrt le xs" and "sorted_wrt le ys" and "mset xs = mset ys"
    and "\<And>x y. x \<in> set xs \<Longrightarrow> y \<in> set xs \<Longrightarrow> le x y \<Longrightarrow> le y x \<Longrightarrow> x = y"
  shows "xs = ys"
  using assms
proof (induction xs arbitrary: ys)
  case (Cons x xs)
  then obtain y ys' where ys: "ys = y # ys'" by (cases ys) auto
  have same: "set (x # xs) = set ys" using Cons.prems(3) by (metis set_mset_mset)
  have "x = y"
  proof (rule ccontr)
    assume "x \<noteq> y"
    with same ys have "x \<in> set ys'" "y \<in> set xs" by auto
    with Cons.prems(1,2) ys have "le x y" "le y x" by auto
    with Cons.prems(4) \<open>y \<in> set xs\<close> have "x = y" by simp
    with \<open>x \<noteq> y\<close> show False by simp
  qed
  with Cons.prems ys have "xs = ys'" by (intro Cons.IH) auto
  with \<open>x = y\<close> ys show ?case by simp
qed simp

section \<open>Tables\<close>

text \<open>\<open>update ... where\<close> as a function on the rows of a table.\<close>

lemma fold_max_start: "m \<le> fold max xs (m :: int)"
  by (induction xs arbitrary: m) (auto intro: order_trans [OF max.cobounded2])

lemma fold_max_upper: "x \<in> set xs \<Longrightarrow> x \<le> fold max xs (m :: int)"
  by (induction xs arbitrary: m) (auto intro: order_trans [OF max.cobounded1 fold_max_start])

lemma same_row: "distinct (map f xs) \<Longrightarrow> x \<in> set xs \<Longrightarrow> y \<in> set xs \<Longrightarrow> f x = f y \<Longrightarrow> x = y"
  by (simp add: distinct_map inj_on_def)

definition update_where :: "('r \<Rightarrow> bool) \<Rightarrow> ('r \<Rightarrow> 'r) \<Rightarrow> 'r list \<Rightarrow> 'r list" where
  "update_where p f rows = map (\<lambda>r. if p r then f r else r) rows"

lemma update_where_simps [simp]:
  "update_where p f [] = []"
  "update_where p f (r # rs) = (if p r then f r else r) # update_where p f rs"
  "update_where p f (rs @ rs') = update_where p f rs @ update_where p f rs'"
  "length (update_where p f rs) = length rs"
  by (simp_all add: update_where_def)

lemma set_update_where: "set (update_where p f rs) = (\<lambda>r. if p r then f r else r) ` set rs"
  by (simp add: update_where_def)

lemma update_where_id: "(\<And>r. r \<in> set rs \<Longrightarrow> \<not> p r) \<Longrightarrow> update_where p f rs = rs"
  by (induction rs) auto

lemma map_update_where:
  "(\<And>r. r \<in> set rs \<Longrightarrow> p r \<Longrightarrow> g (f r) = g r) \<Longrightarrow> map g (update_where p f rs) = map g rs"
  by (induction rs) auto

text \<open>
  The interface of a table with a primary key: \<open>key\<close> reads the key of a row, and the table
  keeps its keys distinct. Lookup is the first row with the key.
\<close>

definition lookup_by :: "('r \<Rightarrow> 'k) \<Rightarrow> 'k \<Rightarrow> 'r list \<Rightarrow> 'r option" where
  "lookup_by key k rows = List.find (\<lambda>r. key r = k) rows"

lemma lookup_by_Nil [simp]: "lookup_by key k [] = None"
  by (simp add: lookup_by_def)

lemma lookup_by_Cons [simp]:
  "lookup_by key k (r # rs) = (if key r = k then Some r else lookup_by key k rs)"
  by (simp add: lookup_by_def)

locale row_table =
  fixes key :: "'r \<Rightarrow> 'k"
begin

lemma lookup_key: "lookup_by key k rows = Some r \<Longrightarrow> key r = k \<and> r \<in> set rows"
  by (induction rows) (auto split: if_splits)

lemma lookup_None: "lookup_by key k rows = None \<longleftrightarrow> k \<notin> key ` set rows"
  by (induction rows) auto

lemma lookup_member:
  "distinct (map key rows) \<Longrightarrow> r \<in> set rows \<Longrightarrow> lookup_by key (key r) rows = Some r"
  by (induction rows) (auto simp: image_iff)

lemma lookup_append:
  "lookup_by key k (rows @ rows') =
     (case lookup_by key k rows of None \<Rightarrow> lookup_by key k rows' | Some r \<Rightarrow> Some r)"
  by (induction rows) auto

lemma lookup_update:
  assumes "\<And>r. key (f r) = key r"
  shows "lookup_by key k (update_where (\<lambda>r. key r = k') f rows) =
    (if k = k' then map_option f (lookup_by key k rows) else lookup_by key k rows)"
  by (induction rows) (auto simp: assms)

lemma keys_update:
  assumes "\<And>r. key (f r) = key r"
  shows "map key (update_where p f rows) = map key rows"
  by (rule map_update_where) (rule assms)

lemma lookup_filter_distinct:
  assumes "distinct (map key rows)"
  shows "filter (\<lambda>r. key r = k) rows = (case lookup_by key k rows of None \<Rightarrow> [] | Some r \<Rightarrow> [r])"
  using assms
proof (induction rows)
  case (Cons r rs)
  have "key r = k \<Longrightarrow> filter (\<lambda>r. key r = k) rs = []"
    using Cons.prems by (auto simp: filter_empty_conv image_iff)
  with Cons show ?case by auto
qed simp

end

text \<open>
  A partial unique index: \<open>idx\<close> gives the indexed value of a row, or none when the row is
  outside the index.
\<close>

fun index_values :: "('r \<Rightarrow> 'k option) \<Rightarrow> 'r list \<Rightarrow> 'k list" where
  "index_values idx [] = []"
| "index_values idx (r # rs) =
     (case idx r of None \<Rightarrow> index_values idx rs | Some k \<Rightarrow> k # index_values idx rs)"

definition unique_on :: "('r \<Rightarrow> 'k option) \<Rightarrow> 'r list \<Rightarrow> bool" where
  "unique_on idx rows \<longleftrightarrow> distinct (index_values idx rows)"

lemma set_index_values: "k \<in> set (index_values idx rows) \<longleftrightarrow> Some k \<in> idx ` set rows"
  by (induction rows) (auto split: option.splits)

lemma index_values_append [simp]:
  "index_values idx (rows @ rows') = index_values idx rows @ index_values idx rows'"
  by (induction rows) (auto split: option.splits)

lemma unique_on_append:
  "unique_on idx (rows @ [r]) \<longleftrightarrow> unique_on idx rows \<and> (idx r \<noteq> None \<longrightarrow> idx r \<notin> idx ` set rows)"
  by (auto simp: unique_on_def set_index_values split: option.splits)

lemma unique_on_row:
  "unique_on idx rows \<Longrightarrow> x \<in> set rows \<Longrightarrow> y \<in> set rows \<Longrightarrow> idx x = Some k \<Longrightarrow> idx y = Some k \<Longrightarrow> x = y"
proof (induction rows)
  case (Cons r rows)
  have "idx r = Some k \<Longrightarrow> idx z = Some k \<Longrightarrow> z \<notin> set rows" for z
    using Cons.prems(1) by (force simp: unique_on_def set_index_values)
  moreover have "unique_on idx rows" using Cons.prems(1)
    by (auto simp: unique_on_def split: option.splits)
  ultimately show ?case using Cons by (metis set_ConsD)
qed simp

text \<open>An update that takes rows out of the index, or leaves their value alone, keeps it unique.\<close>

lemma unique_on_update:
  assumes "unique_on idx rows" and "\<And>r. r \<in> set rows \<Longrightarrow> p r \<Longrightarrow> idx (f r) = idx r \<or> idx (f r) = None"
  shows "unique_on idx (update_where p f rows)"
proof -
  have sub: "set (index_values idx (update_where p f rs)) \<subseteq> set (index_values idx rs)"
    if "set rs \<subseteq> set rows" for rs
    using that
  proof (induction rs)
    case (Cons r rs)
    then show ?case using assms(2) [of r] by (auto split: option.splits)
  qed simp
  have "set rs \<subseteq> set rows \<Longrightarrow> unique_on idx rs \<Longrightarrow> unique_on idx (update_where p f rs)" for rs
  proof (induction rs)
    case (Cons r rs)
    then show ?case using assms(2) [of r] sub [of rs]
      by (auto simp: unique_on_def split: option.splits)
  qed simp
  with assms(1) show ?thesis by blast
qed

text \<open>
  An update of the one row with a key may move its indexed value to one no other row has.
\<close>

lemma unique_on_move:
  assumes "unique_on idx rows" and "distinct (map key rows)"
    and "\<And>r r'. r \<in> set rows \<Longrightarrow> p r \<Longrightarrow> r' \<in> set rows \<Longrightarrow> key r' \<noteq> key r \<Longrightarrow> idx (f r) \<noteq> None
           \<Longrightarrow> idx r' \<noteq> idx (f r)"
    and "\<And>r r'. r \<in> set rows \<Longrightarrow> r' \<in> set rows \<Longrightarrow> p r \<Longrightarrow> p r' \<Longrightarrow> key r = key r'"
  shows "unique_on idx (update_where p f rows)"
  using assms
proof (induction rows)
  case Nil
  show ?case by (simp add: unique_on_def)
next
  case (Cons r rs)
  have rest: "unique_on idx rs" using Cons.prems(1) by (auto simp: unique_on_def split: option.splits)
  have here: "idx r = Some k \<Longrightarrow> Some k \<notin> idx ` set rs" for k
    using Cons.prems(1) by (auto simp: unique_on_def set_index_values)
  have keys: "r' \<in> set rs \<Longrightarrow> key r' \<noteq> key r" for r' using Cons.prems(2) by (auto simp: image_iff)
  show ?case
  proof (cases "p r")
    case True
    then have "update_where p f rs = rs"
      using Cons.prems(4) keys by (intro update_where_id) (metis list.set_intros(1,2))
    moreover have "idx (f r) = Some k \<Longrightarrow> Some k \<notin> idx ` set rs" for k
      using Cons.prems(3) [of r] True keys by force
    ultimately show ?thesis using True rest
      by (auto simp: unique_on_def set_index_values split: option.splits)
  next
    case False
    have "unique_on idx (update_where p f rs)"
    proof (rule Cons.IH [OF rest])
      show "distinct (map key rs)" using Cons.prems(2) by simp
      show "\<And>r r'. r \<in> set rs \<Longrightarrow> p r \<Longrightarrow> r' \<in> set rs \<Longrightarrow> key r' \<noteq> key r \<Longrightarrow> idx (f r) \<noteq> None
          \<Longrightarrow> idx r' \<noteq> idx (f r)" by (rule Cons.prems(3)) simp_all
      show "\<And>r r'. r \<in> set rs \<Longrightarrow> r' \<in> set rs \<Longrightarrow> p r \<Longrightarrow> p r' \<Longrightarrow> key r = key r'"
        by (rule Cons.prems(4)) simp_all
    qed
    moreover have "idx r = Some k \<Longrightarrow> Some k \<notin> idx ` set (update_where p f rs)" for k
    proof
      assume k: "idx r = Some k" and "Some k \<in> idx ` set (update_where p f rs)"
      then obtain x where x: "x \<in> set rs" "idx (if p x then f x else x) = Some k"
        by (auto simp: set_update_where)
      with here [OF k] have "p x" "idx (f x) = Some k" by (auto simp: image_iff split: if_splits)
      with Cons.prems(3) [of x r] keys [OF x(1)] x(1) k show False by force
    qed
    ultimately show ?thesis using False
      by (auto simp: unique_on_def set_index_values split: option.splits)
  qed
qed

text \<open>Reading a list of rows through a computation that may raise.\<close>

fun mapR :: "('a \<Rightarrow> 'e + 'b) \<Rightarrow> 'a list \<Rightarrow> 'e + 'b list" where
  "mapR f [] = Inr []"
| "mapR f (x # xs) = bindR (f x) (\<lambda>y. bindR (mapR f xs) (\<lambda>ys. Inr (y # ys)))"

lemma mapR_total:
  "(\<And>x. x \<in> set xs \<Longrightarrow> f x = Inr (g x)) \<Longrightarrow> mapR f xs = Inr (map g xs)"
  by (induction xs) auto

lemma mapR_Inr: "mapR f xs = Inr ys \<longleftrightarrow> list_all2 (\<lambda>x y. f x = Inr y) xs ys"
  by (induction xs arbitrary: ys) (auto simp: result_simps list_all2_Cons1)

end
