(* ===== verification/Availability.thy ===== *)
theory Availability
  imports Prelude
begin

text \<open>
  \<^verbatim>\<open>packages/domain/src/errors.ts\<close>, \<^verbatim>\<open>safety-stock.ts\<close> and \<^verbatim>\<open>availability.ts\<close>: the pure
  arithmetic of what may be sold. A location's availability, the sum over locations, the
  quantity one channel advertises, the WooCommerce suppression rule, and the number of kits
  that can be assembled, pooled or per location. Each assertion of the source is an \<open>Inl\<close>
  branch. \<open>Number.POSITIVE_INFINITY\<close>, the start of each running minimum, is \<open>None\<close>.
\<close>

section \<open>Assertions\<close>

definition assertWholeNonNegative :: "int \<Rightarrow> string \<Rightarrow> exn + unit" where
  "assertWholeNonNegative value label =
     guardR (\<not> value < 0) (DomainError (NotWholeNonNegative label value))"

definition assertWholePositive :: "int \<Rightarrow> string \<Rightarrow> exn + unit" where
  "assertWholePositive value label =
     guardR (\<not> value < 1) (DomainError (NotWholePositive label value))"

section \<open>Safety stock\<close>

record safety_stock_levels =
  businessDefault :: int
  itemOverride :: "int option"
  locationOverride :: "int option"

definition effectiveSafetyStock :: "safety_stock_levels \<Rightarrow> exn + int" where
  "effectiveSafetyStock l =
     bindR (assertWholeNonNegative (businessDefault l) ''businessDefault'') (\<lambda>_.
     bindR (case itemOverride l of None \<Rightarrow> Inr ()
            | Some v \<Rightarrow> assertWholeNonNegative v ''itemOverride'') (\<lambda>_.
     bindR (case locationOverride l of None \<Rightarrow> Inr ()
            | Some v \<Rightarrow> assertWholeNonNegative v ''locationOverride'') (\<lambda>_.
     Inr (case locationOverride l of Some v \<Rightarrow> v
          | None \<Rightarrow> (case itemOverride l of Some v \<Rightarrow> v | None \<Rightarrow> businessDefault l)))))"

datatype safety_stock_source = FromLocation | FromItem | FromBusiness

definition safetyStockSource :: "safety_stock_levels \<Rightarrow> safety_stock_source" where
  "safetyStockSource l =
     (if locationOverride l \<noteq> None then FromLocation
      else if itemOverride l \<noteq> None then FromItem else FromBusiness)"

section \<open>Availability\<close>

record location_balance =
  locationId :: uuid
  onHand :: int
  reserved :: int
  safetyStock :: int

record channel_rules =
  channelBuffer :: int
  channelCap :: "int option"

definition availableToSellAtLocation :: "location_balance \<Rightarrow> exn + int" where
  "availableToSellAtLocation b =
     bindR (assertWholeNonNegative (onHand b) ''onHand'') (\<lambda>_.
     bindR (assertWholeNonNegative (reserved b) ''reserved'') (\<lambda>_.
     bindR (assertWholeNonNegative (safetyStock b) ''safetyStock'') (\<lambda>_.
     Inr (max 0 (onHand b - reserved b - safetyStock b)))))"

text \<open>The loop of \<open>availableToSellAcrossLocations\<close>, with \<open>seen\<close> and the running total as arguments.\<close>

fun across_loop :: "location_balance list \<Rightarrow> uuid list \<Rightarrow> int \<Rightarrow> exn + int" where
  "across_loop [] seen tot = Inr tot"
| "across_loop (b # bs) seen tot =
     (if locationId b \<in> set seen then Inl (DomainError (DuplicateLocation (locationId b)))
      else bindR (availableToSellAtLocation b)
             (\<lambda>here. across_loop bs (set_add (locationId b) seen) (tot + here)))"

definition availableToSellAcrossLocations :: "location_balance list \<Rightarrow> exn + int" where
  "availableToSellAcrossLocations balances = across_loop balances [] 0"

definition channelTarget :: "int \<Rightarrow> channel_rules \<Rightarrow> exn + int" where
  "channelTarget availableToSell rules =
     bindR (assertWholeNonNegative availableToSell ''availableToSell'') (\<lambda>_.
     bindR (assertWholeNonNegative (channelBuffer rules) ''channelBuffer'') (\<lambda>_.
     bindR (case channelCap rules of None \<Rightarrow> Inr ()
            | Some c \<Rightarrow> assertWholeNonNegative c ''channelCap'') (\<lambda>_.
     let afterBuffer = max 0 (availableToSell - channelBuffer rules)
     in Inr (case channelCap rules of None \<Rightarrow> afterBuffer | Some c \<Rightarrow> min afterBuffer c))))"

definition shouldSuppressWooCommerceQuantityWrite :: "int \<Rightarrow> int \<Rightarrow> bool \<Rightarrow> exn + bool" where
  "shouldSuppressWooCommerceQuantityWrite desiredTarget observedStoreStock backordersEnabled =
     bindR (assertWholeNonNegative desiredTarget ''desiredTarget'') (\<lambda>_.
     Inr (backordersEnabled \<and> desiredTarget = 0 \<and> observedStoreStock \<le> 0))"

section \<open>Kits\<close>

record kit_requirement =
  kitComponentId :: uuid
  requiredQuantity :: int

record kit_input =
  kitComponents :: "kit_requirement list"
  componentBalances :: "uuid \<rightharpoonup> location_balance list"
  kitSplit :: bool

text \<open>\<open>Math.min(capacity, n)\<close> where the capacity may still be infinite.\<close>

definition min_inf :: "int option \<Rightarrow> int \<Rightarrow> int option" where
  "min_inf capacity n = Some (case capacity of None \<Rightarrow> n | Some c \<Rightarrow> min c n)"

definition finite_or_zero :: "int option \<Rightarrow> int" where
  "finite_or_zero capacity = (case capacity of None \<Rightarrow> 0 | Some c \<Rightarrow> c)"

definition balances_of :: "kit_input \<Rightarrow> uuid \<Rightarrow> location_balance list" where
  "balances_of input c = (case componentBalances input c of None \<Rightarrow> [] | Some bs \<Rightarrow> bs)"

fun pooled_loop :: "kit_input \<Rightarrow> kit_requirement list \<Rightarrow> int option \<Rightarrow> exn + int option" where
  "pooled_loop input [] capacity = Inr capacity"
| "pooled_loop input (c # cs) capacity =
     bindR (availableToSellAcrossLocations (balances_of input (kitComponentId c))) (\<lambda>available.
     pooled_loop input cs (min_inf capacity (available div requiredQuantity c)))"

definition kitAvailabilityPooled :: "kit_input \<Rightarrow> exn + int" where
  "kitAvailabilityPooled input =
     bindR (pooled_loop input (kitComponents input) None) (\<lambda>c. Inr (finite_or_zero c))"

definition kit_location_ids :: "kit_input \<Rightarrow> uuid list" where
  "kit_location_ids input =
     set_of (concat (map (\<lambda>c. map locationId (balances_of input (kitComponentId c)))
       (kitComponents input)))"

definition available_here :: "kit_input \<Rightarrow> uuid \<Rightarrow> kit_requirement \<Rightarrow> exn + int" where
  "available_here input l c =
     (case List.find (\<lambda>b. locationId b = l) (balances_of input (kitComponentId c)) of
        None \<Rightarrow> Inr 0
      | Some b \<Rightarrow> availableToSellAtLocation b)"

fun capacity_here :: "kit_input \<Rightarrow> uuid \<Rightarrow> kit_requirement list \<Rightarrow> int option \<Rightarrow> exn + int option" where
  "capacity_here input l [] capacity = Inr capacity"
| "capacity_here input l (c # cs) capacity =
     bindR (available_here input l c) (\<lambda>available.
     capacity_here input l cs (min_inf capacity (available div requiredQuantity c)))"

fun per_location_loop :: "kit_input \<Rightarrow> uuid list \<Rightarrow> int \<Rightarrow> exn + int" where
  "per_location_loop input [] tot = Inr tot"
| "per_location_loop input (l # ls) tot =
     bindR (capacity_here input l (kitComponents input) None) (\<lambda>c.
     per_location_loop input ls (tot + finite_or_zero c))"

definition kitAvailabilityPerLocation :: "kit_input \<Rightarrow> exn + int" where
  "kitAvailabilityPerLocation input = per_location_loop input (kit_location_ids input) 0"

fun check_recipe :: "kit_requirement list \<Rightarrow> uuid list \<Rightarrow> exn + unit" where
  "check_recipe [] seen = Inr ()"
| "check_recipe (c # cs) seen =
     bindR (assertWholePositive (requiredQuantity c) ''requiredQuantity'') (\<lambda>_.
     if kitComponentId c \<in> set seen then Inl (DomainError (DuplicateComponent (kitComponentId c)))
     else check_recipe cs (set_add (kitComponentId c) seen))"

definition kitAvailability :: "kit_input \<Rightarrow> exn + int" where
  "kitAvailability input =
     (if kitComponents input = [] then Inl (DomainError EmptyRecipe)
      else bindR (check_recipe (kitComponents input) []) (\<lambda>_.
        if kitSplit input then kitAvailabilityPooled input
        else kitAvailabilityPerLocation input))"

section \<open>Safety stock and channel targets\<close>

lemmas assert_defs = assertWholeNonNegative_def assertWholePositive_def

lemma assert_Inr [simp]:
  "assertWholeNonNegative v s = Inr u \<longleftrightarrow> 0 \<le> v"
  "assertWholePositive v s = Inr u \<longleftrightarrow> 1 \<le> v"
  by (auto simp: assert_defs)

definition levels_ok :: "safety_stock_levels \<Rightarrow> bool" where
  "levels_ok l \<longleftrightarrow> 0 \<le> businessDefault l
     \<and> (case itemOverride l of None \<Rightarrow> True | Some v \<Rightarrow> 0 \<le> v)
     \<and> (case locationOverride l of None \<Rightarrow> True | Some v \<Rightarrow> 0 \<le> v)"

definition level_of :: "safety_stock_levels \<Rightarrow> int" where
  "level_of l = (case locationOverride l of Some v \<Rightarrow> v
     | None \<Rightarrow> (case itemOverride l of Some v \<Rightarrow> v | None \<Rightarrow> businessDefault l))"

lemma effectiveSafetyStock_Inr:
  "effectiveSafetyStock l = Inr s \<longleftrightarrow> levels_ok l \<and> s = level_of l"
  by (auto simp: effectiveSafetyStock_def levels_ok_def level_of_def result_simps
      split: option.splits)

lemma level_of_nonneg: "levels_ok l \<Longrightarrow> 0 \<le> level_of l"
  by (auto simp: levels_ok_def level_of_def split: option.splits)

section \<open>Availability at and across locations\<close>

definition balance_nonneg :: "location_balance \<Rightarrow> bool" where
  "balance_nonneg b \<longleftrightarrow> 0 \<le> onHand b \<and> 0 \<le> reserved b \<and> 0 \<le> safetyStock b"

definition sellable :: "location_balance \<Rightarrow> int" where
  "sellable b = max 0 (onHand b - reserved b - safetyStock b)"

lemma sellable_nonneg [simp]: "0 \<le> sellable b"
  by (simp add: sellable_def)

lemma availableToSellAtLocation_Inr:
  "availableToSellAtLocation b = Inr n \<longleftrightarrow> balance_nonneg b \<and> n = sellable b"
  by (auto simp: availableToSellAtLocation_def balance_nonneg_def sellable_def result_simps)

lemma across_loop_Inr:
  "across_loop bs seen t = Inr n \<longleftrightarrow>
     distinct (map locationId bs) \<and> locationId ` set bs \<inter> set seen = {}
     \<and> (\<forall>b \<in> set bs. balance_nonneg b) \<and> n = t + sum_list (map sellable bs)"
  by (induction bs arbitrary: seen t)
    (auto simp: result_simps availableToSellAtLocation_Inr)

lemma across_Inr:
  "availableToSellAcrossLocations bs = Inr n \<longleftrightarrow>
     distinct (map locationId bs) \<and> (\<forall>b \<in> set bs. balance_nonneg b)
     \<and> n = sum_list (map sellable bs)"
  by (auto simp: availableToSellAcrossLocations_def across_loop_Inr)

lemma sum_sellable_nonneg [simp]: "0 \<le> sum_list (map sellable bs)"
  by (induction bs) auto

section \<open>Kit capacity as a greatest feasible number\<close>

text \<open>
  Both kit calculations take a running minimum of \<open>available div required\<close>. The minimum is
  the greatest \<open>k\<close> for which every component can supply \<open>k\<close> kits, which is how the two are
  compared below.
\<close>

definition kit_units :: "('c \<Rightarrow> int) \<Rightarrow> ('c \<Rightarrow> int) \<Rightarrow> 'c list \<Rightarrow> int option \<Rightarrow> int option" where
  "kit_units r f cs cap = fold (\<lambda>c cap. min_inf cap (f c div r c)) cs cap"

lemma kit_units_simps [simp]:
  "kit_units r f [] cap = cap"
  "kit_units r f (c # cs) cap = kit_units r f cs (min_inf cap (f c div r c))"
  by (simp_all add: kit_units_def)

lemma le_div_iff: "(0::int) < r \<Longrightarrow> k \<le> a div r \<longleftrightarrow> k * r \<le> a"
proof
  assume r: "0 < r" and k: "k \<le> a div r"
  have "k * r \<le> (a div r) * r" using k r by (simp add: mult_right_mono)
  also have "\<dots> \<le> a" using r by (simp add: minus_mod_eq_div_mult [symmetric])
  finally show "k * r \<le> a" .
next
  assume r: "0 < r" and k: "k * r \<le> a"
  have "k * r div r \<le> a div r" using k r by (rule zdiv_mono1)
  then show "k \<le> a div r" using r by simp
qed

lemma kit_units_le:
  assumes "\<forall>c \<in> set cs. 1 \<le> r c" and "kit_units r f cs cap = Some n"
  shows "k \<le> n \<longleftrightarrow> (case cap of None \<Rightarrow> True | Some m \<Rightarrow> k \<le> m)
    \<and> (\<forall>c \<in> set cs. k * r c \<le> f c)"
  using assms
proof (induction cs arbitrary: cap)
  case (Cons c cs)
  then have "k \<le> n \<longleftrightarrow> (case min_inf cap (f c div r c) of None \<Rightarrow> True | Some m \<Rightarrow> k \<le> m)
      \<and> (\<forall>c \<in> set cs. k * r c \<le> f c)"
    by (intro Cons.IH) auto
  with Cons.prems show ?case
    by (cases cap) (auto simp: min_inf_def le_div_iff)
qed simp

lemma kit_units_Some: "cs \<noteq> [] \<or> cap \<noteq> None \<Longrightarrow> \<exists>n. kit_units r f cs cap = Some n"
  by (induction cs arbitrary: cap) (auto simp: min_inf_def)

text \<open>The greatest number of kits that \<open>f\<close> units of each component supply.\<close>

lemma kit_units_greatest:
  assumes "cs \<noteq> []" and "\<forall>c \<in> set cs. 1 \<le> r c"
  shows "k \<le> finite_or_zero (kit_units r f cs None)
    \<longleftrightarrow> (\<forall>c \<in> set cs. k * r c \<le> f c)"
proof -
  obtain n where n: "kit_units r f cs None = Some n"
    using kit_units_Some assms(1) by blast
  show ?thesis using kit_units_le [OF assms(2) n, of k] n by (simp add: finite_or_zero_def)
qed

lemma check_recipe_Inr:
  "check_recipe cs seen = Inr u \<longleftrightarrow>
     (\<forall>c \<in> set cs. 1 \<le> requiredQuantity c) \<and> distinct (map kitComponentId cs)
     \<and> kitComponentId ` set cs \<inter> set seen = {}"
  by (induction cs arbitrary: seen) (auto simp: result_simps split: if_splits)

definition pool :: "kit_input \<Rightarrow> kit_requirement \<Rightarrow> int" where
  "pool input c = sum_list (map sellable (balances_of input (kitComponentId c)))"

definition at_location :: "kit_input \<Rightarrow> uuid \<Rightarrow> kit_requirement \<Rightarrow> int" where
  "at_location input l c =
     (case List.find (\<lambda>b. locationId b = l) (balances_of input (kitComponentId c)) of
        None \<Rightarrow> 0 | Some b \<Rightarrow> sellable b)"

lemma pooled_loop_Inr:
  "pooled_loop input cs cap = Inr r \<Longrightarrow> r = kit_units requiredQuantity (pool input) cs cap"
  by (induction cs arbitrary: cap) (auto simp: result_simps across_Inr pool_def)

lemma capacity_here_Inr:
  "capacity_here input l cs cap = Inr r \<Longrightarrow> r = kit_units requiredQuantity (at_location input l) cs cap"
  by (induction cs arbitrary: cap)
    (auto simp: result_simps available_here_def at_location_def availableToSellAtLocation_Inr
      split: option.splits)

lemma per_location_loop_Inr:
  "per_location_loop input ls t = Inr r \<Longrightarrow>
     r = t + sum_list (map (\<lambda>l. finite_or_zero
           (kit_units requiredQuantity (at_location input l) (kitComponents input) None)) ls)"
proof (induction ls arbitrary: t)
  case (Cons l ls)
  then obtain c where c: "capacity_here input l (kitComponents input) None = Inr c"
    and rest: "per_location_loop input ls (t + finite_or_zero c) = Inr r"
    by (auto simp: result_simps)
  from Cons.IH [OF rest] capacity_here_Inr [OF c] show ?case by simp
qed simp

lemma at_location_nonneg: "0 \<le> at_location input l c"
  by (simp add: at_location_def split: option.splits)

text \<open>One unit at one location is counted at most once over distinct locations.\<close>

lemma sum_at_most_one:
  fixes g :: "'a \<Rightarrow> int"
  assumes "distinct ls" and "0 \<le> s" and "\<And>l. 0 \<le> g l"
  shows "sum_list (map (\<lambda>l. if l0 = l then s else g l) ls) \<le> s + sum_list (map g ls)"
  using assms(1)
proof (induction ls)
  case (Cons l ls)
  show ?case
  proof (cases "l0 = l")
    case True
    then have "sum_list (map (\<lambda>l. if l0 = l then s else g l) ls) = sum_list (map g ls)"
      using Cons.prems by (intro arg_cong [where f = sum_list] map_cong) auto
    then show ?thesis using True assms(3) [of l] by simp
  next
    case False
    then show ?thesis using Cons by simp
  qed
qed (simp add: assms(2))

lemma sum_at_locations:
  assumes "distinct ls"
  shows "sum_list (map (\<lambda>l. at_location input l c) ls) \<le> pool input c"
proof -
  have "sum_list (map (\<lambda>l. case List.find (\<lambda>b. locationId b = l) bs of None \<Rightarrow> 0 | Some b \<Rightarrow> sellable b) ls)
      \<le> sum_list (map sellable bs)" for bs
  proof (induction bs)
    case (Cons b bs)
    let ?g = "\<lambda>l. case List.find (\<lambda>b. locationId b = l) bs of None \<Rightarrow> 0 | Some b \<Rightarrow> sellable b"
    have "(\<lambda>l. case List.find (\<lambda>b. locationId b = l) (b # bs) of None \<Rightarrow> 0 | Some b \<Rightarrow> sellable b)
        = (\<lambda>l. if locationId b = l then sellable b else ?g l)" by auto
    moreover have "sum_list (map (\<lambda>l. if locationId b = l then sellable b else ?g l) ls)
        \<le> sellable b + sum_list (map ?g ls)"
      using assms by (rule sum_at_most_one) (auto split: option.splits)
    ultimately show ?case using Cons.IH by simp
  qed (simp add: sum_list_0)
  then show ?thesis by (simp add: at_location_def pool_def)
qed

lemma kitAvailability_Inr:
  assumes "kitAvailability input = Inr n"
  shows "kitComponents input \<noteq> []"
    and "\<forall>c \<in> set (kitComponents input). 1 \<le> requiredQuantity c"
    and "kitSplit input \<Longrightarrow> n = finite_or_zero (kit_units requiredQuantity (pool input) (kitComponents input) None)"
    and "\<not> kitSplit input \<Longrightarrow> n = sum_list (map (\<lambda>l. finite_or_zero
      (kit_units requiredQuantity (at_location input l) (kitComponents input) None)) (kit_location_ids input))"
  using assms
  by (auto simp: kitAvailability_def result_simps check_recipe_Inr kitAvailabilityPooled_def
      kitAvailabilityPerLocation_def dest!: pooled_loop_Inr per_location_loop_Inr split: if_splits)

section \<open>Properties\<close>

lemma sum_kit_units_le:
  assumes "kitComponents input \<noteq> []" and r: "\<forall>c \<in> set (kitComponents input). 1 \<le> requiredQuantity c"
    and "distinct ls"
  shows "sum_list (map (\<lambda>l. finite_or_zero (kit_units requiredQuantity (at_location input l) (kitComponents input) None)) ls)
    \<le> finite_or_zero (kit_units requiredQuantity (pool input) (kitComponents input) None)"
  unfolding kit_units_greatest [OF assms(1,2)]
proof
  fix c assume c: "c \<in> set (kitComponents input)"
  let ?u = "\<lambda>l. finite_or_zero (kit_units requiredQuantity (at_location input l) (kitComponents input) None)"
  have "?u l * requiredQuantity c \<le> at_location input l c" for l
    using kit_units_greatest [OF assms(1,2), of "?u l" "at_location input l"] c by simp
  then have "sum_list (map (\<lambda>l. ?u l * requiredQuantity c) ls)
      \<le> sum_list (map (\<lambda>l. at_location input l c) ls)"
    by (rule sum_list_mono)
  also have "\<dots> \<le> pool input c" using assms(3) by (rule sum_at_locations)
  finally show "sum_list (map ?u ls) * requiredQuantity c \<le> pool input c"
    by (simp add: sum_list_mult_const)
qed

text \<open>
  Satisfying each kit from one location is never more generous than pooling components
  over locations: whatever the recipe and the balances, the capacity computed with split
  fulfilment disabled is at most the capacity computed with it enabled.
\<close>

theorem kit_per_location_conservative:
  assumes "kitAvailability (input\<lparr>kitSplit := False\<rparr>) = Inr n"
    and "kitAvailability (input\<lparr>kitSplit := True\<rparr>) = Inr m"
  shows "n \<le> m"
proof -
  let ?i = "input\<lparr>kitSplit := False\<rparr>" and ?j = "input\<lparr>kitSplit := True\<rparr>"
  have same: "pool ?i = pool ?j" "at_location ?i = at_location ?j"
    by (simp_all add: fun_eq_iff pool_def at_location_def balances_of_def)
  have "n = sum_list (map (\<lambda>l. finite_or_zero
      (kit_units requiredQuantity (at_location ?i l) (kitComponents ?i) None)) (kit_location_ids ?i))"
    using kitAvailability_Inr(4) [OF assms(1)] by simp
  also have "\<dots> \<le> finite_or_zero (kit_units requiredQuantity (pool ?i) (kitComponents ?i) None)"
    using kitAvailability_Inr(1,2) [OF assms(1)]
    by (intro sum_kit_units_le) (simp_all add: kit_location_ids_def)
  also have "\<dots> = m"
    using kitAvailability_Inr(3) [OF assms(2)] by (simp add: same)
  finally show ?thesis .
qed

definition example_kit :: kit_input where
  "example_kit = \<lparr>
     kitComponents = [\<lparr>kitComponentId = 1, requiredQuantity = 2\<rparr>,
                      \<lparr>kitComponentId = 2, requiredQuantity = 1\<rparr>],
     componentBalances = [
       1 \<mapsto> [\<lparr>locationId = 10, onHand = 8, reserved = 1, safetyStock = 1\<rparr>,
            \<lparr>locationId = 11, onHand = 2, reserved = 0, safetyStock = 0\<rparr>],
       2 \<mapsto> [\<lparr>locationId = 11, onHand = 5, reserved = 0, safetyStock = 1\<rparr>]],
     kitSplit = False\<rparr>"

lemmas kit_eval = example_kit_def kitAvailability_def kitAvailabilityPooled_def
  kitAvailabilityPerLocation_def kit_location_ids_def balances_of_def set_of_def set_add_def
  available_here_def availableToSellAtLocation_def availableToSellAcrossLocations_def
  min_inf_def finite_or_zero_def assertWholeNonNegative_def assertWholePositive_def

theorem kit_per_location_conservative_witness:
  "kitAvailability (example_kit\<lparr>kitSplit := False\<rparr>) = Inr 1
   \<and> kitAvailability (example_kit\<lparr>kitSplit := True\<rparr>) = Inr 4 \<and> (1::int) \<le> 4"
proof -
  have one: "kitAvailability (example_kit\<lparr>kitSplit := False\<rparr>) = Inr 1"
    by (simp add: kit_eval)
  have two: "kitAvailability (example_kit\<lparr>kitSplit := True\<rparr>) = Inr 4"
    by (simp add: kit_eval)
  from kit_per_location_conservative [OF one two] one two show ?thesis by simp
qed

lemma kit_pooled_greatest_pool:
  assumes "kitAvailability input = Inr n" and "kitSplit input"
  shows "k \<le> n \<longleftrightarrow> (\<forall>c \<in> set (kitComponents input). k * requiredQuantity c \<le> pool input c)"
    and "0 \<le> n"
proof -
  note facts = kitAvailability_Inr [OF assms(1)]
  show iff: "k \<le> n \<longleftrightarrow> (\<forall>c \<in> set (kitComponents input). k * requiredQuantity c \<le> pool input c)" for k
    using kit_units_greatest [OF facts(1,2)] facts(3) [OF assms(2)] by simp
  show "0 \<le> n" unfolding iff by (simp add: pool_def)
qed

text \<open>
  With split fulfilment, the kit capacity is exactly the greatest number of kits the
  components can build: \<open>k\<close> kits fit if and only if every component's availability, summed
  over locations after each location's safety stock, covers \<open>k\<close> times what one kit takes.
\<close>

theorem kit_pooled_greatest:
  assumes "kitAvailability input = Inr n" and "kitSplit input"
  shows "0 \<le> n \<and> (\<forall>k. k \<le> n \<longleftrightarrow> (\<forall>c \<in> set (kitComponents input).
    k * requiredQuantity c
      \<le> sum_list (map (\<lambda>b. max 0 (onHand b - reserved b - safetyStock b))
          (balances_of input (kitComponentId c)))))"
  using kit_pooled_greatest_pool [OF assms] by (simp add: pool_def sellable_def [abs_def])

theorem kit_pooled_greatest_witness:
  "kitAvailability (example_kit\<lparr>kitSplit := True\<rparr>) = Inr 4
   \<and> \<not> (\<forall>c \<in> set (kitComponents example_kit). 5 * requiredQuantity c
         \<le> sum_list (map (\<lambda>b. max 0 (onHand b - reserved b - safetyStock b))
             (balances_of (example_kit\<lparr>kitSplit := True\<rparr>) (kitComponentId c))))"
proof -
  have two: "kitAvailability (example_kit\<lparr>kitSplit := True\<rparr>) = Inr 4"
    by (simp add: kit_eval)
  from kit_pooled_greatest [OF two] two show ?thesis
    by (auto dest: spec [where x = 5])
qed

text \<open>
  What a channel advertises is never more than the unreserved physical stock of the
  selected locations. If every balance keeps its reserved units inside its on-hand units, the
  target computed from the sum over locations is between zero and the units on hand less the
  units reserved, and within the channel's cap.
\<close>

theorem channel_target_never_oversells:
  assumes "availableToSellAcrossLocations balances = Inr available"
    and "channelTarget available rules = Inr target"
    and "\<forall>b \<in> set balances. reserved b \<le> onHand b"
  shows "0 \<le> target \<and> target \<le> sum_list (map (\<lambda>b. onHand b - reserved b) balances)
    \<and> (\<forall>cap. channelCap rules = Some cap \<longrightarrow> target \<le> cap)
    \<and> (target > 0 \<longrightarrow> target + channelBuffer rules \<le> available)"
proof -
  from assms(1) have available: "available = sum_list (map sellable balances)"
    and pos: "\<forall>b \<in> set balances. balance_nonneg b" by (auto simp: across_Inr)
  have le: "sum_list (map sellable balances) \<le> sum_list (map (\<lambda>b. onHand b - reserved b) balances)"
    using assms(3) pos by (intro sum_list_mono) (auto simp: sellable_def balance_nonneg_def)
  moreover have "0 \<le> sum_list (map (\<lambda>b. onHand b - reserved b) balances)"
    using sum_sellable_nonneg le by (rule order_trans)
  ultimately show ?thesis using assms(2) available
    by (auto simp: channelTarget_def result_simps Let_def split: option.splits)
qed

theorem channel_target_never_oversells_witness:
  "availableToSellAcrossLocations
      [\<lparr>locationId = 1, onHand = 5, reserved = 2, safetyStock = 1\<rparr>,
       \<lparr>locationId = 2, onHand = 4, reserved = 4, safetyStock = 1\<rparr>] = Inr 2
   \<and> channelTarget 2 \<lparr>channelBuffer = 1, channelCap = Some 3\<rparr> = Inr 1 \<and> (1::int) \<le> 3"
proof -
  let ?bs = "[\<lparr>locationId = 1, onHand = 5, reserved = 2, safetyStock = 1\<rparr>,
       \<lparr>locationId = 2, onHand = 4, reserved = 4, safetyStock = 1\<rparr>]"
  have a: "availableToSellAcrossLocations ?bs = Inr 2"
    by (simp add: kit_eval)
  have t: "channelTarget 2 \<lparr>channelBuffer = 1, channelCap = Some 3\<rparr> = Inr 1"
    by (simp add: channelTarget_def assert_defs)
  from channel_target_never_oversells [OF a t] a t show ?thesis by simp
qed

end
