(* ===== verification/Allocation.thy ===== *)
theory Allocation
  imports Availability
begin

text \<open>
  \<^verbatim>\<open>packages/domain/src/allocation.ts\<close>: deciding where an order's units come from. A location's
  capacity in ordered units, the single-location plan (first location that fills the line,
  otherwise the best one with the shortage written down), and the split plan (walk the priority
  list taking what each location can give).
\<close>

record allocation_component =
  acItem :: uuid
  unitsPerOrderedUnit :: int

record allocation_input =
  aiQuantity :: int
  aiComponents :: "allocation_component list"
  locationOrder :: "uuid list"
  aiAvailable :: "uuid \<rightharpoonup> (uuid \<rightharpoonup> int)"
  splitFulfillment :: bool

record allocation_take =
  takeItem :: uuid
  takeLocation :: uuid
  takeQuantity :: int

record allocation_plan =
  allocated :: int
  shortage :: int
  splitBlocked :: bool
  takes :: "allocation_take list"

definition here_of :: "allocation_input \<Rightarrow> uuid \<Rightarrow> allocation_component \<Rightarrow> int" where
  "here_of input l c =
     (case aiAvailable input (acItem c) of None \<Rightarrow> 0
      | Some m \<Rightarrow> (case m l of None \<Rightarrow> 0 | Some n \<Rightarrow> n))"

fun capacity_loop :: "allocation_input \<Rightarrow> uuid \<Rightarrow> allocation_component list \<Rightarrow> int option
    \<Rightarrow> exn + int option" where
  "capacity_loop input l [] capacity = Inr capacity"
| "capacity_loop input l (c # cs) capacity =
     bindR (assertWholeNonNegative (here_of input l c) ''available'') (\<lambda>_.
     capacity_loop input l cs (min_inf capacity (here_of input l c div unitsPerOrderedUnit c)))"

definition capacityAt :: "allocation_input \<Rightarrow> uuid \<Rightarrow> exn + int" where
  "capacityAt input l =
     bindR (capacity_loop input l (aiComponents input) None) (\<lambda>c. Inr (finite_or_zero c))"

definition add_capacity :: "allocation_input \<Rightarrow> uuid \<Rightarrow> (uuid \<rightharpoonup> int) \<Rightarrow> exn + (uuid \<rightharpoonup> int)" where
  "add_capacity input l capacities = bindR (capacityAt input l) (\<lambda>n. Inr (capacities(l \<mapsto> n)))"

definition capacity_of :: "(uuid \<rightharpoonup> int) \<Rightarrow> uuid \<Rightarrow> int" where
  "capacity_of capacities l = (case capacities l of None \<Rightarrow> 0 | Some n \<Rightarrow> n)"

definition takesFor :: "allocation_input \<Rightarrow> uuid \<Rightarrow> int \<Rightarrow> allocation_take list" where
  "takesFor input l orderedUnits =
     map (\<lambda>c. \<lparr>takeItem = acItem c, takeLocation = l,
              takeQuantity = orderedUnits * unitsPerOrderedUnit c\<rparr>) (aiComponents input)"

text \<open>The fallback loop: the best location, its capacity and the running total.\<close>

fun best_loop :: "(uuid \<rightharpoonup> int) \<Rightarrow> uuid list \<Rightarrow> uuid option \<times> int \<times> int \<Rightarrow> uuid option \<times> int \<times> int" where
  "best_loop capacities [] acc = acc"
| "best_loop capacities (l # ls) (best, bestCapacity, running) =
     (let capacity = capacity_of capacities l; running' = running + capacity
      in if capacity > bestCapacity then best_loop capacities ls (Some l, capacity, running')
         else best_loop capacities ls (best, bestCapacity, running'))"

definition singleLocationPlan :: "allocation_input \<Rightarrow> (uuid \<rightharpoonup> int) \<Rightarrow> allocation_plan" where
  "singleLocationPlan input capacities =
     (case List.find (\<lambda>l. capacity_of capacities l \<ge> aiQuantity input) (locationOrder input) of
        Some l \<Rightarrow> \<lparr>allocated = aiQuantity input, shortage = 0, splitBlocked = False,
                   takes = takesFor input l (aiQuantity input)\<rparr>
      | None \<Rightarrow>
          (let start = (case locationOrder input of [] \<Rightarrow> None | l # _ \<Rightarrow> Some l);
               (best, bestCapacity, running) = best_loop capacities (locationOrder input) (start, 0, 0)
           in \<lparr>allocated = bestCapacity,
               shortage = aiQuantity input - bestCapacity,
               splitBlocked = (running \<ge> aiQuantity input \<and> bestCapacity < aiQuantity input),
               takes = (case best of None \<Rightarrow> []
                        | Some l \<Rightarrow> if bestCapacity = 0 then [] else takesFor input l bestCapacity)\<rparr>))"

fun split_loop :: "allocation_input \<Rightarrow> (uuid \<rightharpoonup> int) \<Rightarrow> uuid list \<Rightarrow> int \<Rightarrow> allocation_take list
    \<Rightarrow> int \<times> allocation_take list" where
  "split_loop input capacities [] remaining ts = (remaining, ts)"
| "split_loop input capacities (l # ls) remaining ts =
     (if remaining = 0 then (remaining, ts)
      else let take = min remaining (capacity_of capacities l)
           in if take > 0
              then split_loop input capacities ls (remaining - take) (ts @ takesFor input l take)
              else split_loop input capacities ls remaining ts)"

definition splitPlan :: "allocation_input \<Rightarrow> (uuid \<rightharpoonup> int) \<Rightarrow> allocation_plan" where
  "splitPlan input capacities =
     (let (remaining, ts) = split_loop input capacities (locationOrder input) (aiQuantity input) []
      in \<lparr>allocated = aiQuantity input - remaining, shortage = remaining,
          splitBlocked = False, takes = ts\<rparr>)"

fun assert_units :: "allocation_component list \<Rightarrow> exn + unit" where
  "assert_units [] = Inr ()"
| "assert_units (c # cs) =
     bindR (assertWholePositive (unitsPerOrderedUnit c) ''unitsPerOrderedUnit'') (\<lambda>_. assert_units cs)"

definition planAllocation :: "allocation_input \<Rightarrow> exn + allocation_plan" where
  "planAllocation input =
     bindR (assertWholePositive (aiQuantity input) ''quantity'') (\<lambda>_.
     if aiComponents input = [] then Inl (DomainError EmptyAllocation)
     else bindR (assert_units (aiComponents input)) (\<lambda>_.
     bindR (foldR (add_capacity input) (locationOrder input) Map.empty) (\<lambda>capacities.
     Inr (if splitFulfillment input then splitPlan input capacities
          else singleLocationPlan input capacities))))"

section \<open>Capacities\<close>

text \<open>The number of complete ordered units one location supplies on its own.\<close>

definition capacity_at :: "allocation_input \<Rightarrow> uuid \<Rightarrow> int" where
  "capacity_at input l =
     finite_or_zero (kit_units unitsPerOrderedUnit (here_of input l) (aiComponents input) None)"

definition total_capacity :: "allocation_input \<Rightarrow> int" where
  "total_capacity input = sum_list (map (capacity_at input) (locationOrder input))"

definition input_ok :: "allocation_input \<Rightarrow> bool" where
  "input_ok input \<longleftrightarrow> 1 \<le> aiQuantity input \<and> aiComponents input \<noteq> []
     \<and> (\<forall>c \<in> set (aiComponents input). 1 \<le> unitsPerOrderedUnit c)
     \<and> (\<forall>l \<in> set (locationOrder input). \<forall>c \<in> set (aiComponents input). 0 \<le> here_of input l c)"

lemma capacity_loop_Inr:
  "capacity_loop input l cs cap = Inr r \<longleftrightarrow>
     (\<forall>c \<in> set cs. 0 \<le> here_of input l c)
     \<and> r = kit_units unitsPerOrderedUnit (here_of input l) cs cap"
  by (induction cs arbitrary: cap) (auto simp: result_simps)

lemma capacityAt_Inr:
  "capacityAt input l = Inr n \<longleftrightarrow>
     (\<forall>c \<in> set (aiComponents input). 0 \<le> here_of input l c) \<and> n = capacity_at input l"
  by (auto simp: capacityAt_def capacity_at_def result_simps capacity_loop_Inr)

lemma assert_units_Inr:
  "assert_units cs = Inr u \<longleftrightarrow> (\<forall>c \<in> set cs. 1 \<le> unitsPerOrderedUnit c)"
  by (induction cs) (auto simp: result_simps)

lemma capacities_loop:
  "foldR (add_capacity input) ls m = Inr m'
   \<longleftrightarrow> (\<forall>l \<in> set ls. \<forall>c \<in> set (aiComponents input). 0 \<le> here_of input l c)
     \<and> m' = (\<lambda>l. if l \<in> set ls then Some (capacity_at input l) else m l)"
proof (induction ls arbitrary: m)
  case (Cons a ls)
  have "foldR (add_capacity input) (a # ls) m = Inr m' \<longleftrightarrow>
      (\<forall>c \<in> set (aiComponents input). 0 \<le> here_of input a c)
      \<and> foldR (add_capacity input) ls (m(a \<mapsto> capacity_at input a)) = Inr m'"
    by (auto simp: result_simps add_capacity_def capacityAt_Inr)
  then show ?case unfolding Cons.IH by (auto simp: fun_eq_iff)
qed auto

lemma capacity_at_nonneg:
  assumes "input_ok input" and "l \<in> set (locationOrder input)"
  shows "0 \<le> capacity_at input l"
  using assms kit_units_greatest [of "aiComponents input" unitsPerOrderedUnit 0 "here_of input l"]
  by (simp add: capacity_at_def input_ok_def)

lemma capacity_at_fits:
  assumes "input_ok input" and "c \<in> set (aiComponents input)"
  shows "capacity_at input l * unitsPerOrderedUnit c \<le> here_of input l c"
  using assms kit_units_greatest [of "aiComponents input" unitsPerOrderedUnit
      "capacity_at input l" "here_of input l"]
  by (simp add: capacity_at_def input_ok_def)

text \<open>The plan functions only look at the capacities of the listed locations.\<close>

definition caps :: "allocation_input \<Rightarrow> uuid \<rightharpoonup> int" where
  "caps input = (\<lambda>l. if l \<in> set (locationOrder input) then Some (capacity_at input l) else None)"

lemma capacity_of_caps [simp]:
  "l \<in> set (locationOrder input) \<Longrightarrow> capacity_of (caps input) l = capacity_at input l"
  by (simp add: capacity_of_def caps_def)

lemma planAllocation_Inr:
  "planAllocation input = Inr plan \<longleftrightarrow> input_ok input
     \<and> plan = (if splitFulfillment input then splitPlan input (caps input)
               else singleLocationPlan input (caps input))"
  by (auto simp: planAllocation_def result_simps assert_units_Inr capacities_loop input_ok_def
      caps_def split: if_splits)

section \<open>What a plan takes\<close>

text \<open>
  Either plan is a list of parts, a location with a number of ordered units, and its takes are
  the components of each part.
\<close>

definition takes_of_parts :: "allocation_input \<Rightarrow> (uuid \<times> int) list \<Rightarrow> allocation_take list" where
  "takes_of_parts input parts = concat (map (\<lambda>(l, n). takesFor input l n) parts)"

definition parts_ok :: "allocation_input \<Rightarrow> uuid list \<Rightarrow> (uuid \<times> int) list \<Rightarrow> bool" where
  "parts_ok input ls parts \<longleftrightarrow> distinct (map fst parts) \<and> fst ` set parts \<subseteq> set ls
     \<and> (\<forall>(l, n) \<in> set parts. 0 < n \<and> n \<le> capacity_at input l)"

lemma takes_of_parts_simps [simp]:
  "takes_of_parts input [] = []"
  "takes_of_parts input ((l, n) # ps) = takesFor input l n @ takes_of_parts input ps"
  by (simp_all add: takes_of_parts_def)

lemma best_loop_result:
  assumes "best_loop m ls (b, c, s) = (b', c', s')"
  shows "s' = s + sum_list (map (capacity_of m) ls)"
    and "c \<le> c'" and "\<forall>l \<in> set ls. capacity_of m l \<le> c'"
    and "(b', c') = (b, c) \<or> (\<exists>l \<in> set ls. b' = Some l \<and> capacity_of m l = c')"
  using assms
proof (induction ls arbitrary: b c s)
  case (Cons l ls)
  let ?k = "capacity_of m l"
  {
    case 1
    then show ?case using Cons.IH(1) by (fastforce simp: Let_def split: if_splits)
  next
    case 2
    then show ?case using Cons.IH(2) by (fastforce simp: Let_def split: if_splits)
  next
    case 3
    then show ?case using Cons.IH(2,3) by (fastforce simp: Let_def split: if_splits)
  next
    case 4
    then show ?case using Cons.IH(4) by (fastforce simp: Let_def split: if_splits)
  }
qed auto

lemma split_loop_result:
  assumes "split_loop input m ls rem ts = (rem', ts')" and "0 \<le> rem" and "distinct ls"
    and "\<And>l. l \<in> set ls \<Longrightarrow> capacity_of m l = capacity_at input l \<and> 0 \<le> capacity_at input l"
  shows "rem' = max 0 (rem - sum_list (map (capacity_at input) ls))
    \<and> (\<exists>parts. parts_ok input ls parts \<and> ts' = ts @ takes_of_parts input parts
        \<and> sum_list (map snd parts) = rem - rem')"
  using assms
proof (induction ls arbitrary: rem ts)
  case Nil
  then show ?case by (auto simp: parts_ok_def intro!: exI [of _ "[]"])
next
  case (Cons l ls)
  let ?k = "capacity_at input l" and ?sum = "sum_list (map (capacity_at input) ls)"
  have k: "capacity_of m l = ?k" "0 \<le> ?k" using Cons.prems(4) by auto
  have sum: "0 \<le> ?sum" using Cons.prems(4) by (intro sum_list_nonneg) auto
  show ?case
  proof (cases "rem = 0 \<or> ?k = 0")
    case True
    then consider "rem = 0" | "rem \<noteq> 0" "?k = 0" by auto
    then show ?thesis
    proof cases
      case 1
      with Cons.prems(1) k sum show ?thesis
        by (auto simp: parts_ok_def intro!: exI [of _ "[]"])
    next
      case 2
      then have "split_loop input m ls rem ts = (rem', ts')" using Cons.prems(1,2) k by auto
      from Cons.IH [OF this] Cons.prems 2 show ?thesis by (fastforce simp: parts_ok_def)
    qed
  next
    case False
    let ?t = "min rem ?k"
    have t: "0 < ?t" using False k Cons.prems(2) by auto
    then have step: "split_loop input m ls (rem - ?t) (ts @ takesFor input l ?t) = (rem', ts')"
      using Cons.prems(1) False k by (auto simp: Let_def)
    have "0 \<le> rem - ?t" by simp
    from Cons.IH [OF step this] Cons.prems obtain parts
      where rem': "rem' = max 0 (rem - ?t - ?sum)" and parts: "parts_ok input ls parts"
        and ts': "ts' = ts @ takesFor input l ?t @ takes_of_parts input parts"
        and units: "sum_list (map snd parts) = rem - ?t - rem'" by auto
    have "parts_ok input (l # ls) ((l, ?t) # parts)"
      using parts t Cons.prems(3) by (auto simp: parts_ok_def)
    moreover have "rem' = max 0 (rem - sum_list (map (capacity_at input) (l # ls)))"
      using rem' sum by auto
    ultimately show ?thesis using ts' units
      by (intro conjI exI [of _ "(l, ?t) # parts"]) auto
  qed
qed

lemma caps_facts:
  assumes "input_ok input" and "l \<in> set (locationOrder input)"
  shows "capacity_of (caps input) l = capacity_at input l \<and> 0 \<le> capacity_at input l"
  using capacity_at_nonneg [OF assms] assms(2) by simp

lemma map_caps:
  "map (capacity_of (caps input)) (locationOrder input) = map (capacity_at input) (locationOrder input)"
  by simp

lemma splitPlan_parts:
  assumes "input_ok input" and "distinct (locationOrder input)"
  shows "allocated (splitPlan input (caps input)) = min (aiQuantity input) (total_capacity input)"
    and "shortage (splitPlan input (caps input)) = aiQuantity input - allocated (splitPlan input (caps input))"
    and "\<exists>parts. parts_ok input (locationOrder input) parts
      \<and> takes (splitPlan input (caps input)) = takes_of_parts input parts
      \<and> sum_list (map snd parts) = allocated (splitPlan input (caps input))"
proof -
  obtain rem ts where loop:
    "split_loop input (caps input) (locationOrder input) (aiQuantity input) [] = (rem, ts)"
    by fastforce
  have q: "0 \<le> aiQuantity input" using assms(1) by (simp add: input_ok_def)
  from split_loop_result [OF loop q assms(2)] caps_facts [OF assms(1)]
  obtain parts where rem: "rem = max 0 (aiQuantity input - total_capacity input)"
    and parts: "parts_ok input (locationOrder input) parts" "ts = takes_of_parts input parts"
      "sum_list (map snd parts) = aiQuantity input - rem"
    by (auto simp: total_capacity_def)
  have tc: "0 \<le> total_capacity input" unfolding total_capacity_def
    using caps_facts [OF assms(1)] by (intro sum_list_nonneg) auto
  show "allocated (splitPlan input (caps input)) = min (aiQuantity input) (total_capacity input)"
    using rem q tc by (auto simp: splitPlan_def loop)
  show "shortage (splitPlan input (caps input)) = aiQuantity input - allocated (splitPlan input (caps input))"
    by (simp add: splitPlan_def loop)
  show "\<exists>parts. parts_ok input (locationOrder input) parts
      \<and> takes (splitPlan input (caps input)) = takes_of_parts input parts
      \<and> sum_list (map snd parts) = allocated (splitPlan input (caps input))"
    using parts by (auto simp: splitPlan_def loop)
qed

definition fills :: "allocation_input \<Rightarrow> uuid \<Rightarrow> bool" where
  "fills input l \<longleftrightarrow> aiQuantity input \<le> capacity_at input l"

lemma find_fills:
  "List.find (\<lambda>l. aiQuantity input \<le> capacity_of (caps input) l) (locationOrder input)
     = List.find (fills input) (locationOrder input)"
  by (rule find_cong) (auto simp: fills_def)

lemma singleLocationPlan_found:
  assumes "input_ok input" and "List.find (fills input) (locationOrder input) = Some l"
  shows "singleLocationPlan input (caps input) =
      \<lparr>allocated = aiQuantity input, shortage = 0, splitBlocked = False,
       takes = takes_of_parts input [(l, aiQuantity input)]\<rparr>"
    and "parts_ok input (locationOrder input) [(l, aiQuantity input)]"
proof -
  show "singleLocationPlan input (caps input) =
      \<lparr>allocated = aiQuantity input, shortage = 0, splitBlocked = False,
       takes = takes_of_parts input [(l, aiQuantity input)]\<rparr>"
    by (simp add: singleLocationPlan_def find_fills assms(2))
  have "fills input l" "l \<in> set (locationOrder input)"
    using assms(2) by (auto simp: find_Some_iff)
  then show "parts_ok input (locationOrder input) [(l, aiQuantity input)]"
    using assms(1) by (simp add: parts_ok_def fills_def input_ok_def)
qed

text \<open>No location fills the line: the best one is emptied and the rest is a shortage.\<close>

lemma singleLocationPlan_best:
  assumes "input_ok input" and "List.find (fills input) (locationOrder input) = None"
  obtains parts k where "parts_ok input (locationOrder input) parts" "length parts \<le> 1"
    "sum_list (map snd parts) = k" "0 \<le> k" "k < aiQuantity input"
    "\<forall>l \<in> set (locationOrder input). capacity_at input l \<le> k"
    "singleLocationPlan input (caps input) =
      \<lparr>allocated = k, shortage = aiQuantity input - k,
       splitBlocked = (aiQuantity input \<le> total_capacity input \<and> k < aiQuantity input),
       takes = takes_of_parts input parts\<rparr>"
proof -
  define start where "start = (case locationOrder input of [] \<Rightarrow> None | l # _ \<Rightarrow> Some l)"
  obtain best k s where loop: "best_loop (caps input) (locationOrder input) (start, 0, 0) = (best, k, s)"
    by (metis prod_cases3)
  note facts = best_loop_result [OF loop]
  have s: "s = total_capacity input" by (simp only: facts(1) map_caps total_capacity_def add_0)
  have all: "\<forall>l \<in> set (locationOrder input). capacity_at input l \<le> k" using facts(3) by auto
  have q: "1 \<le> aiQuantity input" using assms(1) by (simp add: input_ok_def)
  have small: "\<forall>l \<in> set (locationOrder input). capacity_at input l < aiQuantity input"
    using assms(2) by (auto simp: find_None_iff fills_def)
  define parts where "parts = (case best of None \<Rightarrow> [] | Some l \<Rightarrow> if k = 0 then [] else [(l, k)])"
  have parts: "parts_ok input (locationOrder input) parts" "sum_list (map snd parts) = k"
    "k < aiQuantity input"
    using facts(2,4) small q by (auto simp: parts_ok_def parts_def split: option.splits)
  have plan: "singleLocationPlan input (caps input) =
      \<lparr>allocated = k, shortage = aiQuantity input - k,
       splitBlocked = (aiQuantity input \<le> total_capacity input \<and> k < aiQuantity input),
       takes = takes_of_parts input parts\<rparr>"
    using assms(2)
    by (auto simp: singleLocationPlan_def find_fills Let_def start_def [symmetric] loop s parts_def
        split: option.splits)
  show thesis
    by (rule that [OF parts(1) _ parts(2) facts(2) parts(3) all plan])
      (auto simp: parts_def split: option.splits)
qed

lemma plan_parts:
  assumes "planAllocation input = Inr plan" and "distinct (locationOrder input)"
  obtains parts where "parts_ok input (locationOrder input) parts"
    "takes plan = takes_of_parts input parts" "sum_list (map snd parts) = allocated plan"
    "0 \<le> allocated plan" "allocated plan \<le> aiQuantity input"
    "shortage plan = aiQuantity input - allocated plan"
    "\<not> splitFulfillment input \<Longrightarrow> length parts \<le> 1"
proof -
  from assms(1) have ok: "input_ok input"
    and plan: "plan = (if splitFulfillment input then splitPlan input (caps input)
      else singleLocationPlan input (caps input))" by (auto simp: planAllocation_Inr)
  show thesis
  proof (cases "splitFulfillment input")
    case True
    have "0 \<le> total_capacity input" unfolding total_capacity_def
      using caps_facts [OF ok] by (intro sum_list_nonneg) auto
    moreover have "1 \<le> aiQuantity input" using ok by (simp add: input_ok_def)
    ultimately show thesis using splitPlan_parts [OF ok assms(2)] True plan that by auto
  next
    case False
    show thesis
    proof (cases "List.find (fills input) (locationOrder input)")
      case None
      from singleLocationPlan_best [OF ok None] show thesis
        using that False plan by (metis allocation_plan.select_convs(1,2,4) less_imp_le)
    next
      case (Some l)
      from singleLocationPlan_found [OF ok Some] ok show thesis
        using that [of "[(l, aiQuantity input)]"] False plan by (simp add: input_ok_def)
    qed
  qed
qed

section \<open>Units per item and per location\<close>

definition units_taken :: "allocation_take list \<Rightarrow> uuid \<Rightarrow> int" where
  "units_taken ts i = sum_list (map takeQuantity (filter (\<lambda>t. takeItem t = i) ts))"

definition units_taken_at :: "allocation_take list \<Rightarrow> uuid \<Rightarrow> uuid \<Rightarrow> int" where
  "units_taken_at ts i l =
     sum_list (map takeQuantity (filter (\<lambda>t. takeItem t = i \<and> takeLocation t = l) ts))"

lemma takesFor_item:
  assumes "distinct (map acItem (aiComponents input))" and "c \<in> set (aiComponents input)"
  shows "filter (\<lambda>t. takeItem t = acItem c) (takesFor input l n) =
    [\<lparr>takeItem = acItem c, takeLocation = l, takeQuantity = n * unitsPerOrderedUnit c\<rparr>]"
proof -
  have "filter (\<lambda>d. acItem d = acItem c) (aiComponents input) = [c]" if "distinct (map acItem (aiComponents input))"
    using row_table.lookup_filter_distinct [OF that, of "acItem c"]
      row_table.lookup_member [OF that assms(2)] by simp
  then show ?thesis using assms(1) by (simp add: takesFor_def filter_map o_def)
qed

lemma units_taken_parts:
  assumes "distinct (map acItem (aiComponents input))" and "c \<in> set (aiComponents input)"
  shows "units_taken (takes_of_parts input parts) (acItem c)
    = sum_list (map snd parts) * unitsPerOrderedUnit c"
proof (induction parts)
  case (Cons p parts)
  then show ?case
    by (cases p) (auto simp: units_taken_def takesFor_item [OF assms] algebra_simps)
qed (simp add: units_taken_def)

lemma units_taken_at_takesFor:
  assumes "distinct (map acItem (aiComponents input))" and "c \<in> set (aiComponents input)"
  shows "units_taken_at (takesFor input l n) (acItem c) l'
    = (if l = l' then n * unitsPerOrderedUnit c else 0)"
proof -
  have "filter (\<lambda>t. takeItem t = acItem c \<and> takeLocation t = l') (takesFor input l n)
      = filter (\<lambda>t. takeLocation t = l') (filter (\<lambda>t. takeItem t = acItem c) (takesFor input l n))"
    by (simp add: conj_commute)
  then show ?thesis by (simp add: units_taken_at_def takesFor_item [OF assms])
qed

lemma units_taken_at_parts:
  assumes "distinct (map acItem (aiComponents input))" and "c \<in> set (aiComponents input)"
    and "distinct (map fst parts)"
  shows "units_taken_at (takes_of_parts input parts) (acItem c) l
    = (case map_of parts l of None \<Rightarrow> 0 | Some n \<Rightarrow> n * unitsPerOrderedUnit c)"
  using assms(3)
proof (induction parts)
  case (Cons p parts)
  obtain l' n where p: "p = (l', n)" by (cases p)
  have "units_taken_at (takes_of_parts input (p # parts)) (acItem c) l
      = units_taken_at (takesFor input l' n) (acItem c) l
        + units_taken_at (takes_of_parts input parts) (acItem c) l"
    by (simp add: units_taken_at_def p)
  moreover have "l' = l \<Longrightarrow> map_of parts l = None"
    using Cons.prems by (auto simp: p map_of_eq_None_iff)
  ultimately show ?case using Cons by (auto simp: units_taken_at_takesFor [OF assms(1,2)] p)
qed (simp add: units_taken_at_def)

section \<open>Properties\<close>

lemma part_fits:
  assumes "input_ok input" and "parts_ok input ls parts" and "c \<in> set (aiComponents input)"
    and "map_of parts l = Some n"
  shows "n * unitsPerOrderedUnit c \<le> here_of input l c"
proof -
  have "n \<le> capacity_at input l" "1 \<le> unitsPerOrderedUnit c"
    using map_of_SomeD [OF assms(4)] assms(1-3) by (auto simp: parts_ok_def input_ok_def)
  then have "n * unitsPerOrderedUnit c \<le> capacity_at input l * unitsPerOrderedUnit c"
    by (simp add: mult_right_mono)
  also have "\<dots> \<le> here_of input l c" using assms(1,3) by (rule capacity_at_fits)
  finally show ?thesis .
qed

text \<open>
  C40: A plan accounts for the whole line and never takes what is not there. Over distinct
  locations and components, allocated and short units add up to the ordered quantity, neither
  is negative, every component is taken exactly as often as the allocated units need, and what
  is taken of a component at a location is within what that location has available.
\<close>

theorem plan_accounts_and_fits:
  assumes "planAllocation input = Inr plan" and "distinct (locationOrder input)"
    and "distinct (map acItem (aiComponents input))"
  shows "allocated plan + shortage plan = aiQuantity input
    \<and> 0 \<le> allocated plan \<and> 0 \<le> shortage plan
    \<and> (\<forall>c \<in> set (aiComponents input).
          units_taken (takes plan) (acItem c) = allocated plan * unitsPerOrderedUnit c
          \<and> (\<forall>l \<in> set (locationOrder input).
                units_taken_at (takes plan) (acItem c) l \<le> here_of input l c))"
proof -
  from assms(1) have ok: "input_ok input" by (auto simp: planAllocation_Inr)
  obtain parts where parts: "parts_ok input (locationOrder input) parts"
    and plan: "takes plan = takes_of_parts input parts" "sum_list (map snd parts) = allocated plan"
      "0 \<le> allocated plan" "allocated plan \<le> aiQuantity input"
      "shortage plan = aiQuantity input - allocated plan"
    using plan_parts [OF assms(1,2)] by metis
  have d: "distinct (map fst parts)" using parts by (simp add: parts_ok_def)
  have "units_taken (takes plan) (acItem c) = allocated plan * unitsPerOrderedUnit c"
    if "c \<in> set (aiComponents input)" for c
    using units_taken_parts [OF assms(3) that] plan by simp
  moreover have "units_taken_at (takes plan) (acItem c) l \<le> here_of input l c"
    if c: "c \<in> set (aiComponents input)" and l: "l \<in> set (locationOrder input)" for c l
    using units_taken_at_parts [OF assms(3) c d, of l] part_fits [OF ok parts c, of l] ok c l
    by (auto simp: plan input_ok_def split: option.splits)
  ultimately show ?thesis using plan by simp
qed

definition example_line :: allocation_input where
  "example_line = \<lparr>aiQuantity = 5,
     aiComponents = [\<lparr>acItem = 1, unitsPerOrderedUnit = 2\<rparr>, \<lparr>acItem = 2, unitsPerOrderedUnit = 1\<rparr>],
     locationOrder = [10, 11, 12],
     aiAvailable = [1 \<mapsto> [10 \<mapsto> 4, 11 \<mapsto> 7, 12 \<mapsto> 2], 2 \<mapsto> [10 \<mapsto> 9, 11 \<mapsto> 9]],
     splitFulfillment = False\<rparr>"

lemmas plan_eval = example_line_def planAllocation_def singleLocationPlan_def splitPlan_def
  add_capacity_def capacityAt_def here_of_def capacity_of_def takesFor_def assert_defs
  min_inf_def finite_or_zero_def Let_def units_taken_def units_taken_at_def

lemma example_line_single: "planAllocation example_line = Inr \<lparr>allocated = 3, shortage = 2,
    splitBlocked = True, takes = [\<lparr>takeItem = 1, takeLocation = 11, takeQuantity = 6\<rparr>,
      \<lparr>takeItem = 2, takeLocation = 11, takeQuantity = 3\<rparr>]\<rparr>"
  by (simp add: plan_eval)

lemma example_line_split: "planAllocation (example_line\<lparr>splitFulfillment := True\<rparr>) =
    Inr \<lparr>allocated = 5, shortage = 0, splitBlocked = False,
      takes = [\<lparr>takeItem = 1, takeLocation = 10, takeQuantity = 4\<rparr>,
        \<lparr>takeItem = 2, takeLocation = 10, takeQuantity = 2\<rparr>,
        \<lparr>takeItem = 1, takeLocation = 11, takeQuantity = 6\<rparr>,
        \<lparr>takeItem = 2, takeLocation = 11, takeQuantity = 3\<rparr>]\<rparr>"
  by (simp add: plan_eval)

theorem plan_accounts_and_fits_witness:
  "\<exists>plan. planAllocation (example_line\<lparr>splitFulfillment := True\<rparr>) = Inr plan
    \<and> allocated plan = 5 \<and> units_taken (takes plan) 1 = 10 \<and> units_taken_at (takes plan) 1 11 \<le> 7"
  using plan_accounts_and_fits [OF example_line_split] example_line_split
  by (fastforce simp: example_line_def here_of_def)

text \<open>
  The split-blocked flag says exactly what it promises. For one line planned with
  splitting disabled and again with it enabled, the flag is raised on the first plan if and
  only if that plan is short and the second is not; and splitting never supplies less.
\<close>

theorem split_blocked_iff_splitting_fills:
  assumes "planAllocation (input\<lparr>splitFulfillment := False\<rparr>) = Inr single"
    and "planAllocation (input\<lparr>splitFulfillment := True\<rparr>) = Inr split"
    and "distinct (locationOrder input)"
  shows "(splitBlocked single \<longleftrightarrow> 0 < shortage single \<and> shortage split = 0)
    \<and> allocated single \<le> allocated split"
proof -
  let ?i = "input\<lparr>splitFulfillment := False\<rparr>" and ?j = "input\<lparr>splitFulfillment := True\<rparr>"
  have "here_of ?j = here_of ?i" by (simp add: fun_eq_iff here_of_def)
  then have cap: "capacity_at ?j = capacity_at ?i" by (intro ext) (simp add: capacity_at_def)
  then have same: "total_capacity ?j = total_capacity ?i" by (simp add: total_capacity_def)
  have ok: "input_ok ?i" "input_ok ?j"
    and plans: "single = singleLocationPlan ?i (caps ?i)" "split = splitPlan ?j (caps ?j)"
    using assms(1,2) by (auto simp: planAllocation_Inr)
  have alloc: "allocated split = min (aiQuantity input) (total_capacity ?i)"
    and short: "shortage split = aiQuantity input - allocated split"
    using splitPlan_parts(1,2) [OF ok(2)] assms(3) plans(2) same by simp_all
  have member: "capacity_at ?i l \<le> total_capacity ?i" if "l \<in> set (locationOrder input)" for l
    unfolding total_capacity_def using that caps_facts [OF ok(1)]
    by (intro member_le_sum_list) (auto simp: image_iff)
  have q: "1 \<le> aiQuantity input" using ok(1) by (simp add: input_ok_def)
  show ?thesis
  proof (cases "List.find (fills ?i) (locationOrder ?i)")
    case (Some l)
    then have "fills ?i l" "l \<in> set (locationOrder input)"
      by (auto simp: find_Some_iff)
    with member [of l] singleLocationPlan_found(1) [OF ok(1) Some] alloc plans(1) show ?thesis
      by (auto simp: fills_def)
  next
    case None
    obtain parts k where k: "parts_ok ?i (locationOrder ?i) parts" "sum_list (map snd parts) = k"
      "length parts \<le> 1" "0 \<le> k" "k < aiQuantity ?i"
      and plan: "singleLocationPlan ?i (caps ?i) =
        \<lparr>allocated = k, shortage = aiQuantity ?i - k,
         splitBlocked = (aiQuantity ?i \<le> total_capacity ?i \<and> k < aiQuantity ?i),
         takes = takes_of_parts ?i parts\<rparr>"
      using singleLocationPlan_best [OF ok(1) None] by metis
    have "k \<le> total_capacity ?i"
    proof (cases parts)
      case Nil
      have "0 \<le> total_capacity ?i" unfolding total_capacity_def
        using caps_facts [OF ok(1)] by (intro sum_list_nonneg) auto
      then show ?thesis using k(2) Nil by simp
    next
      case (Cons p ps)
      then have "fst p \<in> set (locationOrder input)" "snd p = k" "k \<le> capacity_at ?i (fst p)"
        using k(1-3) by (auto simp: parts_ok_def)
      with member show ?thesis by fastforce
    qed
    then show ?thesis using plan plans(1) alloc short k by auto
  qed
qed

theorem split_blocked_iff_splitting_fills_witness:
  "\<exists>single split. planAllocation (example_line\<lparr>splitFulfillment := False\<rparr>) = Inr single
    \<and> planAllocation (example_line\<lparr>splitFulfillment := True\<rparr>) = Inr split
    \<and> splitBlocked single \<and> allocated single \<le> allocated split"
proof -
  have one: "example_line\<lparr>splitFulfillment := False\<rparr> = example_line"
    by (simp add: example_line_def)
  have d: "distinct (locationOrder example_line)" by (simp add: example_line_def)
  from split_blocked_iff_splitting_fills [of example_line, unfolded one,
      OF example_line_single example_line_split d]
    one example_line_single example_line_split show ?thesis by auto
qed

text \<open>
  With splitting disabled, a line is never spread over two locations. Every take of the
  plan is at one location; if some location can supply the whole line, it is the first such
  location in priority order; otherwise what is allocated is the best that any single location
  can supply.
\<close>

theorem single_location_plan_best:
  assumes "planAllocation input = Inr plan" and "\<not> splitFulfillment input"
    and "distinct (locationOrder input)"
  shows "\<exists>l. takeLocation ` set (takes plan) \<subseteq> {l}
    \<and> (\<forall>l' \<in> set (locationOrder input). min (aiQuantity input) (capacity_at input l') \<le> allocated plan)
    \<and> (shortage plan = 0 \<longrightarrow> List.find (\<lambda>l'. aiQuantity input \<le> capacity_at input l') (locationOrder input) = Some l)"
proof -
  from assms(1,2) have ok: "input_ok input" and plan: "plan = singleLocationPlan input (caps input)"
    by (auto simp: planAllocation_Inr)
  have fills: "fills input = (\<lambda>l'. aiQuantity input \<le> capacity_at input l')"
    by (auto simp: fun_eq_iff fills_def)
  show ?thesis
  proof (cases "List.find (fills input) (locationOrder input)")
    case (Some l)
    with singleLocationPlan_found(1) [OF ok Some] plan show ?thesis
      by (intro exI [of _ l]) (auto simp: fills takesFor_def)
  next
    case None
    obtain parts k where k: "length parts \<le> 1" "k < aiQuantity input"
      "\<forall>l \<in> set (locationOrder input). capacity_at input l \<le> k"
      and eq: "singleLocationPlan input (caps input) =
        \<lparr>allocated = k, shortage = aiQuantity input - k,
         splitBlocked = (aiQuantity input \<le> total_capacity input \<and> k < aiQuantity input),
         takes = takes_of_parts input parts\<rparr>"
      using singleLocationPlan_best [OF ok None] by metis
    have "takeLocation ` set (takes_of_parts input parts) \<subseteq> {fst (hd parts)}"
      using k(1) by (cases parts) (auto simp: takesFor_def)
    with k eq plan show ?thesis by (intro exI [of _ "fst (hd parts)"]) auto
  qed
qed

theorem single_location_plan_best_witness:
  "\<exists>plan l. planAllocation example_line = Inr plan \<and> takeLocation ` set (takes plan) \<subseteq> {l}
    \<and> 2 \<le> allocated plan"
proof -
  have "\<not> splitFulfillment example_line" "distinct (locationOrder example_line)"
    by (simp_all add: example_line_def)
  moreover have "capacity_at example_line 10 = 2" "10 \<in> set (locationOrder example_line)"
    by (simp_all add: capacity_at_def here_of_def example_line_def min_inf_def finite_or_zero_def)
  ultimately show ?thesis
    using single_location_plan_best [OF example_line_single] example_line_single
    by (fastforce simp: example_line_def)
qed

end
