(* ===== verification/Schema.thy ===== *)
theory Schema
  imports Prelude
begin

text \<open>
  The inventory tables of \<^verbatim>\<open>packages/db/src/schema\<close> (\<^verbatim>\<open>tenancy.ts\<close>, \<^verbatim>\<open>inventory.ts\<close>,
  \<^verbatim>\<open>kits.ts\<close>, \<^verbatim>\<open>reservations.ts\<close>), with the constraints the SQL migrations 0001, 0010, 0012
  and 0013 put on them. A table is the list of its rows in insertion order; a write is a function
  that either returns the new database or the constraint that refused it.

  The metadata columns \<open>created_at\<close> and \<open>updated_at\<close>, which no modelled operation reads, are
  left out. \<open>dbNextUuid\<close> is the supply behind \<open>gen_random_uuid()\<close>, which never repeats a
  value, and \<open>dbClock\<close> is what \<open>now()\<close> returns in the current transaction.
\<close>

section \<open>Rows\<close>

datatype consumption_mode = ReserveUntilFulfilled | ConsumeImmediately

datatype ledger_kind = Receipt | Shipment | Adjustment | TransferIn | TransferOut | Reversal
  | Reconciliation

datatype reservation_status = ReservationOpen | ReservationConsumed | ReservationReleased

datatype recipe_status = RecipeDraft | RecipeActive | RecipeSuperseded

datatype address_purpose = ShipFrom | ReturnTo

record item_row =
  itId :: uuid
  itBusiness :: uuid
  itSku :: string
  itName :: string
  itDescription :: "string option"
  itSafetyOverride :: "int option"
  itIsKit :: bool
  itIsActive :: bool
  itDeletedAt :: "instant option"

record location_row =
  loId :: uuid
  loBusiness :: uuid
  loCode :: string
  loName :: string
  loDescription :: "string option"
  loTimezone :: string
  loPriority :: int
  loIsActive :: bool
  loDeletedAt :: "instant option"

record balance_row =
  baBusiness :: uuid
  baItem :: uuid
  baLocation :: uuid
  baOnHand :: int
  baReserved :: int
  baSafetyStock :: "int option"
  baBin :: "string option"
  baNote :: "string option"

record ledger_row =
  leId :: uuid
  leBusiness :: uuid
  leItem :: uuid
  leLocation :: uuid
  leOccurredAt :: instant
  leRecordedAt :: instant
  leKind :: ledger_kind
  leDelta :: int
  leReversalOf :: "uuid option"
  leActor :: "uuid option"
  leReason :: "string option"
  leCorrelation :: "uuid option"

record settings_row =
  seBusiness :: uuid
  seSafetyStock :: int
  seMode :: consumption_mode
  seSplit :: bool

record reservation_row =
  rsId :: uuid
  rsBusiness :: uuid
  rsItem :: uuid
  rsQuantity :: int
  rsConnection :: uuid
  rsOrder :: string
  rsLine :: string
  rsMode :: consumption_mode
  rsRecipe :: "uuid option"
  rsStatus :: reservation_status
  rsShortage :: int
  rsSplitBlocked :: bool
  rsReleasedReason :: "string option"
  rsResolvedAt :: "instant option"

record allocation_row =
  alId :: uuid
  alBusiness :: uuid
  alReservation :: uuid
  alItem :: uuid
  alLocation :: uuid
  alQuantity :: int
  alEntry :: "uuid option"

record recipe_row =
  reId :: uuid
  reBusiness :: uuid
  reItem :: uuid
  reVersion :: int
  reStatus :: recipe_status
  reNotes :: "string option"
  reCreatedBy :: "uuid option"
  reApprovedBy :: "uuid option"
  reApprovedAt :: "instant option"

record component_row =
  rcBusiness :: uuid
  rcRecipe :: uuid
  rcKit :: uuid
  rcComponent :: uuid
  rcQuantity :: int

record address_values =
  avName :: "string option"
  avCompany :: "string option"
  avLine1 :: string
  avLine2 :: "string option"
  avCity :: string
  avRegion :: "string option"
  avPostalCode :: "string option"
  avCountryCode :: string
  avPhone :: "string option"
  avEmail :: "string option"

record address_row =
  adId :: uuid
  adBusiness :: uuid
  adLocation :: uuid
  adPurpose :: address_purpose
  adValues :: address_values

record link_row =
  liId :: uuid
  liBusiness :: uuid
  liLocation :: uuid
  liConnection :: uuid
  liExternal :: string

record db =
  dbBusinesses :: "uuid list"
  dbUsers :: "uuid list"
  dbConnections :: "(uuid \<times> uuid) list"
  dbItems :: "item_row list"
  dbLocations :: "location_row list"
  dbBalances :: "balance_row list"
  dbLedger :: "ledger_row list"
  dbSettings :: "settings_row list"
  dbReservations :: "reservation_row list"
  dbAllocations :: "allocation_row list"
  dbRecipes :: "recipe_row list"
  dbComponents :: "component_row list"
  dbAddresses :: "address_row list"
  dbLinks :: "link_row list"
  dbNextUuid :: uuid
  dbClock :: instant

definition empty_db :: db where
  "empty_db = \<lparr>dbBusinesses = [], dbUsers = [], dbConnections = [], dbItems = [], dbLocations = [],
     dbBalances = [], dbLedger = [], dbSettings = [], dbReservations = [], dbAllocations = [],
     dbRecipes = [], dbComponents = [], dbAddresses = [], dbLinks = [],
     dbNextUuid = 1000, dbClock = 0\<rparr>"

text \<open>\<open>gen_random_uuid()\<close>: the next unused identifier.\<close>

definition take_uuid :: "db \<Rightarrow> uuid \<times> db" where
  "take_uuid d = (dbNextUuid d, d\<lparr>dbNextUuid := Suc (dbNextUuid d)\<rparr>)"

section \<open>Checks and checked updates\<close>

fun check_all :: "(bool \<times> exn) list \<Rightarrow> exn + unit" where
  "check_all [] = Inr ()"
| "check_all ((ok, e) # cs) = (if ok then check_all cs else Inl e)"

lemma check_all_Inr [simp]: "check_all cs = Inr u \<longleftrightarrow> (\<forall>(ok, e) \<in> set cs. ok)"
  by (induction cs rule: check_all.induct) auto

lemma if_check_Inr [simp]:
  "(if ok then check_all cs else Inl e) = Inr u \<longleftrightarrow> ok \<and> check_all cs = Inr u"
  by simp

lemma check_all_eq: "check_all cs = Inr () \<longleftrightarrow> list_all fst cs"
  by (induction cs rule: check_all.induct) auto

fun update_checked :: "('r \<Rightarrow> bool) \<Rightarrow> ('r \<Rightarrow> 'r) \<Rightarrow> ('r \<Rightarrow> exn + unit) \<Rightarrow> 'r list \<Rightarrow> exn + 'r list" where
  "update_checked p f chk [] = Inr []"
| "update_checked p f chk (r # rs) =
     bindR (if p r then chk (f r) else Inr ()) (\<lambda>_.
     bindR (update_checked p f chk rs) (\<lambda>rs'. Inr ((if p r then f r else r) # rs')))"

lemma update_checked_Inr:
  "update_checked p f chk rows = Inr rows' \<longleftrightarrow>
     rows' = update_where p f rows \<and> (\<forall>r \<in> set rows. p r \<longrightarrow> chk (f r) = Inr ())"
  by (induction rows arbitrary: rows') (auto simp: result_simps)

definition text_within :: "string option \<Rightarrow> nat \<Rightarrow> bool" where
  "text_within t n = (case t of None \<Rightarrow> True | Some s \<Rightarrow> length s \<le> n)"

text \<open>PostgreSQL's \<open>btrim\<close> strips spaces only, and \<open>lower\<close> folds case.\<close>

definition btrim :: "string \<Rightarrow> string" where
  "btrim s = rev (dropWhile (\<lambda>c. c = CHR '' '') (rev (dropWhile (\<lambda>c. c = CHR '' '') s)))"

definition lower :: "string \<Rightarrow> string" where
  "lower s = map lower_char s"

section \<open>References\<close>

definition item_in :: "db \<Rightarrow> uuid \<Rightarrow> uuid \<Rightarrow> bool" where
  "item_in d b i = list_ex (\<lambda>r. itBusiness r = b \<and> itId r = i) (dbItems d)"

definition item_kind_in :: "db \<Rightarrow> uuid \<Rightarrow> uuid \<Rightarrow> bool \<Rightarrow> bool" where
  "item_kind_in d b i kit = list_ex (\<lambda>r. itBusiness r = b \<and> itId r = i \<and> itIsKit r = kit) (dbItems d)"

definition location_in :: "db \<Rightarrow> uuid \<Rightarrow> uuid \<Rightarrow> bool" where
  "location_in d b l = list_ex (\<lambda>r. loBusiness r = b \<and> loId r = l) (dbLocations d)"

definition connection_in :: "db \<Rightarrow> uuid \<Rightarrow> uuid \<Rightarrow> bool" where
  "connection_in d b c \<longleftrightarrow> (b, c) \<in> set (dbConnections d)"

definition opt_in :: "uuid option \<Rightarrow> uuid list \<Rightarrow> bool" where
  "opt_in x ids = (case x of None \<Rightarrow> True | Some i \<Rightarrow> i \<in> set ids)"

section \<open>location_balances\<close>

definition balance_key :: "balance_row \<Rightarrow> uuid \<times> uuid \<times> uuid" where
  "balance_key r = (baBusiness r, baItem r, baLocation r)"

definition balance_check :: "balance_row \<Rightarrow> exn + unit" where
  "balance_check r = check_all [
     (int4 (baOnHand r) \<and> int4 (baReserved r), NumericValueOutOfRange),
     (case baSafetyStock r of None \<Rightarrow> True | Some s \<Rightarrow> int4 s, NumericValueOutOfRange),
     (text_within (baBin r) 64, CheckViolation ''location_balances_bin_bounded''),
     (text_within (baNote r) 1000, CheckViolation ''location_balances_note_bounded''),
     (0 \<le> baOnHand r, CheckViolation ''location_balances_on_hand_nonnegative''),
     (0 \<le> baReserved r, CheckViolation ''location_balances_reserved_nonnegative''),
     (baReserved r \<le> baOnHand r, CheckViolation ''location_balances_reserved_within_on_hand''),
     (case baSafetyStock r of None \<Rightarrow> True | Some s \<Rightarrow> 0 \<le> s,
        CheckViolation ''location_balances_safety_stock_nonnegative'')]"

definition balance_refs :: "db \<Rightarrow> balance_row \<Rightarrow> exn + unit" where
  "balance_refs d r = check_all [
     (item_kind_in d (baBusiness r) (baItem r) False,
        ForeignKeyViolation ''location_balances_item_kind_fkey''),
     (location_in d (baBusiness r) (baLocation r),
        ForeignKeyViolation ''location_balances_location_fkey'')]"

definition insert_balance :: "balance_row \<Rightarrow> db \<Rightarrow> exn + db" where
  "insert_balance r d =
     bindR (balance_check r) (\<lambda>_.
     bindR (balance_refs d r) (\<lambda>_. Inr (d\<lparr>dbBalances := dbBalances d @ [r]\<rparr>)))"

definition update_balances :: "(balance_row \<Rightarrow> bool) \<Rightarrow> (balance_row \<Rightarrow> balance_row) \<Rightarrow> db \<Rightarrow> exn + db" where
  "update_balances p f d =
     bindR (update_checked p f balance_check (dbBalances d)) (\<lambda>rows. Inr (d\<lparr>dbBalances := rows\<rparr>))"

definition find_balance :: "db \<Rightarrow> uuid \<times> uuid \<times> uuid \<Rightarrow> balance_row option" where
  "find_balance d k = lookup_by balance_key k (dbBalances d)"

section \<open>inventory_ledger\<close>

text \<open>
  Rows are only ever appended: the trigger \<open>inventory_ledger_append_only\<close> refuses every update
  and delete, and no function of the model offers one.
\<close>

definition ledger_check :: "db \<Rightarrow> ledger_row \<Rightarrow> exn + unit" where
  "ledger_check d r = check_all [
     (int4 (leDelta r), NumericValueOutOfRange),
     (leDelta r \<noteq> 0, CheckViolation ''inventory_ledger_delta_nonzero''),
     (leReversalOf r \<noteq> Some (leId r), CheckViolation ''inventory_ledger_not_self_reversing''),
     ((leKind r = Reversal) = (leReversalOf r \<noteq> None),
        CheckViolation ''inventory_ledger_reversal_consistent''),
     (item_kind_in d (leBusiness r) (leItem r) False,
        ForeignKeyViolation ''inventory_ledger_item_kind_fkey''),
     (location_in d (leBusiness r) (leLocation r),
        ForeignKeyViolation ''inventory_ledger_location_fkey''),
     (opt_in (leReversalOf r) (map leId (dbLedger d)),
        ForeignKeyViolation ''inventory_ledger_reversal_of_id_fkey''),
     (opt_in (leActor r) (dbUsers d), ForeignKeyViolation ''inventory_ledger_actor_user_id_fkey'')]"

definition insert_ledger :: "ledger_row \<Rightarrow> db \<Rightarrow> exn + db" where
  "insert_ledger r d =
     bindR (ledger_check d r) (\<lambda>_. Inr (d\<lparr>dbLedger := dbLedger d @ [r]\<rparr>))"

section \<open>business_inventory_settings\<close>

definition settings_check :: "db \<Rightarrow> settings_row \<Rightarrow> exn + unit" where
  "settings_check d r = check_all [
     (int4 (seSafetyStock r), NumericValueOutOfRange),
     (0 \<le> seSafetyStock r,
        CheckViolation ''business_inventory_settings_default_safety_nonnegative''),
     (seBusiness r \<in> set (dbBusinesses d),
        ForeignKeyViolation ''business_inventory_settings_business_id_fkey'')]"

text \<open>\<open>insert ... on conflict (business_id) do update\<close>: \<open>f\<close> is the update of an existing row.\<close>

definition upsert_settings :: "settings_row \<Rightarrow> (settings_row \<Rightarrow> settings_row) \<Rightarrow> db \<Rightarrow> exn + db" where
  "upsert_settings r f d =
     (if list_ex (\<lambda>s. seBusiness s = seBusiness r) (dbSettings d)
      then bindR (update_checked (\<lambda>s. seBusiness s = seBusiness r) f (settings_check d) (dbSettings d))
             (\<lambda>rows. Inr (d\<lparr>dbSettings := rows\<rparr>))
      else bindR (settings_check d r) (\<lambda>_. Inr (d\<lparr>dbSettings := dbSettings d @ [r]\<rparr>)))"

section \<open>stock_reservations and reservation_allocations\<close>

definition reservation_line :: "reservation_row \<Rightarrow> uuid \<times> string \<times> string" where
  "reservation_line r = (rsConnection r, rsOrder r, rsLine r)"

definition reservation_row_check :: "reservation_row \<Rightarrow> exn + unit" where
  "reservation_row_check r = check_all [
     (int4 (rsQuantity r) \<and> int4 (rsShortage r), NumericValueOutOfRange),
     (1 \<le> rsQuantity r, CheckViolation ''stock_reservations_quantity_positive''),
     (rsStatus r \<noteq> ReservationReleased \<or> rsReleasedReason r \<noteq> None,
        CheckViolation ''stock_reservations_release_explained''),
     ((rsStatus r = ReservationOpen) = (rsResolvedAt r = None),
        CheckViolation ''stock_reservations_resolution_recorded''),
     (0 \<le> rsShortage r \<and> rsShortage r \<le> rsQuantity r,
        CheckViolation ''stock_reservations_shortage_bounded'')]"

definition insert_reservation :: "reservation_row \<Rightarrow> db \<Rightarrow> exn + db" where
  "insert_reservation r d =
     bindR (reservation_row_check r) (\<lambda>_.
     bindR (check_all [
       (reservation_line r \<notin> set (map reservation_line (dbReservations d)),
          UniqueViolation ''stock_reservations_line_unique''),
       (item_in d (rsBusiness r) (rsItem r), ForeignKeyViolation ''stock_reservations_item_fkey''),
       (connection_in d (rsBusiness r) (rsConnection r),
          ForeignKeyViolation ''stock_reservations_connection_fkey''),
       (opt_in (rsRecipe r) (map reId (dbRecipes d)),
          ForeignKeyViolation ''stock_reservations_kit_recipe_id_fkey'')]) (\<lambda>_.
     Inr (d\<lparr>dbReservations := dbReservations d @ [r]\<rparr>)))"

definition update_reservations ::
    "(reservation_row \<Rightarrow> bool) \<Rightarrow> (reservation_row \<Rightarrow> reservation_row) \<Rightarrow> db \<Rightarrow> exn + db" where
  "update_reservations p f d =
     bindR (update_checked p f reservation_row_check (dbReservations d))
       (\<lambda>rows. Inr (d\<lparr>dbReservations := rows\<rparr>))"

definition allocation_key :: "allocation_row \<Rightarrow> uuid \<times> uuid \<times> uuid" where
  "allocation_key r = (alReservation r, alItem r, alLocation r)"

definition insert_allocation :: "allocation_row \<Rightarrow> db \<Rightarrow> exn + db" where
  "insert_allocation r d =
     bindR (check_all [
       (int4 (alQuantity r), NumericValueOutOfRange),
       (1 \<le> alQuantity r, CheckViolation ''reservation_allocations_quantity_positive''),
       (allocation_key r \<notin> set (map allocation_key (dbAllocations d)),
          UniqueViolation ''reservation_allocations_unique''),
       (list_ex (\<lambda>s. rsBusiness s = alBusiness r \<and> rsId s = alReservation r) (dbReservations d),
          ForeignKeyViolation ''reservation_allocations_reservation_fkey''),
       (item_in d (alBusiness r) (alItem r),
          ForeignKeyViolation ''reservation_allocations_item_fkey''),
       (location_in d (alBusiness r) (alLocation r),
          ForeignKeyViolation ''reservation_allocations_location_fkey''),
       (opt_in (alEntry r) (map leId (dbLedger d)),
          ForeignKeyViolation ''reservation_allocations_ledger_entry_id_fkey'')]) (\<lambda>_.
     Inr (d\<lparr>dbAllocations := dbAllocations d @ [r]\<rparr>))"

definition update_allocations ::
    "(allocation_row \<Rightarrow> bool) \<Rightarrow> (allocation_row \<Rightarrow> allocation_row) \<Rightarrow> db \<Rightarrow> exn + db" where
  "update_allocations p f d =
     bindR (update_checked p f (\<lambda>r. check_all [(opt_in (alEntry r) (map leId (dbLedger d)),
              ForeignKeyViolation ''reservation_allocations_ledger_entry_id_fkey'')]) (dbAllocations d))
       (\<lambda>rows. Inr (d\<lparr>dbAllocations := rows\<rparr>))"

section \<open>Transactions\<close>

text \<open>
  \<open>transactionally\<close> of \<^verbatim>\<open>packages/inventory/src/ledger.ts\<close>: the work answers with a value and
  whether to keep what it wrote. An exception aborts the transaction, and a refusal rolls it
  back deliberately; either way the database is the one it started from. The identifiers a
  discarded attempt drew are simply never used.
\<close>

type_synonym 'v work = "db \<Rightarrow> exn + (bool \<times> 'v \<times> db)"

definition transactionally :: "'v work \<Rightarrow> db \<Rightarrow> exn + ('v \<times> db)" where
  "transactionally work d =
     (case work d of Inl e \<Rightarrow> Inl e
      | Inr (keep, v, d') \<Rightarrow> Inr (v, if keep then d' else d))"

lemma transactionally_Inr:
  "transactionally work d = Inr (v, d') \<longleftrightarrow>
     (\<exists>keep d''. work d = Inr (keep, v, d'') \<and> d' = (if keep then d'' else d))"
  by (cases "work d") (auto simp: transactionally_def split: prod.splits)

section \<open>Well-formed balances\<close>

interpretation balances: row_table balance_key
  by unfold_locales

interpretation settings: row_table seBusiness
  by unfold_locales

interpretation reservations: row_table rsId
  by unfold_locales

definition balances_ok :: "db \<Rightarrow> bool" where
  "balances_ok d \<longleftrightarrow> distinct (map balance_key (dbBalances d))
     \<and> (\<forall>r \<in> set (dbBalances d). balance_check r = Inr ())"

lemma balance_check_Inr:
  "balance_check r = Inr u \<longleftrightarrow> int4 (baOnHand r) \<and> int4 (baReserved r)
     \<and> (case baSafetyStock r of None \<Rightarrow> True | Some s \<Rightarrow> int4 s \<and> 0 \<le> s)
     \<and> text_within (baBin r) 64 \<and> text_within (baNote r) 1000
     \<and> 0 \<le> baOnHand r \<and> 0 \<le> baReserved r \<and> baReserved r \<le> baOnHand r"
  by (auto simp: balance_check_def split: option.splits)

text \<open>
  The two figures every other component reads: units on hand and units reserved, by business,
  item and location. An absent row is zero units of each.
\<close>

definition on_hand_at :: "db \<Rightarrow> uuid \<times> uuid \<times> uuid \<Rightarrow> int" where
  "on_hand_at d k = (case find_balance d k of None \<Rightarrow> 0 | Some r \<Rightarrow> baOnHand r)"

definition reserved_at :: "db \<Rightarrow> uuid \<times> uuid \<times> uuid \<Rightarrow> int" where
  "reserved_at d k = (case find_balance d k of None \<Rightarrow> 0 | Some r \<Rightarrow> baReserved r)"

lemma find_balance_check:
  "balances_ok d \<Longrightarrow> find_balance d k = Some r \<Longrightarrow> balance_check r = Inr ()"
  using balances.lookup_key by (fastforce simp: balances_ok_def find_balance_def)

lemma reserved_within_on_hand:
  assumes "balances_ok d"
  shows "0 \<le> reserved_at d k \<and> reserved_at d k \<le> on_hand_at d k"
  using find_balance_check [OF assms]
  by (auto simp: reserved_at_def on_hand_at_def balance_check_Inr split: option.splits)

text \<open>
  Updating one balance, by its key. \<open>f\<close> may not change the key; the check constraints hold of
  the row it produces.
\<close>

definition update_balance :: "uuid \<times> uuid \<times> uuid \<Rightarrow> (balance_row \<Rightarrow> balance_row) \<Rightarrow> db \<Rightarrow> exn + db" where
  "update_balance k f = update_balances (\<lambda>r. balance_key r = k) f"

lemma update_balance_Inr:
  assumes "update_balance k f d = Inr d'" and "\<And>r. balance_key (f r) = balance_key r"
  shows "d' = d\<lparr>dbBalances := dbBalances d'\<rparr>"
    and "find_balance d' k' = (if k' = k then map_option f (find_balance d k') else find_balance d k')"
    and "balances_ok d \<Longrightarrow> balances_ok d'"
proof -
  have d': "d' = d\<lparr>dbBalances := update_where (\<lambda>r. balance_key r = k) f (dbBalances d)\<rparr>"
    and chk: "\<forall>r \<in> set (dbBalances d). balance_key r = k \<longrightarrow> balance_check (f r) = Inr ()"
    using assms(1) by (auto simp: update_balance_def update_balances_def result_simps update_checked_Inr)
  show "d' = d\<lparr>dbBalances := dbBalances d'\<rparr>" by (simp add: d')
  show "find_balance d' k' = (if k' = k then map_option f (find_balance d k') else find_balance d k')"
    by (simp add: d' find_balance_def balances.lookup_update [OF assms(2)])
  show "balances_ok d'" if "balances_ok d"
    using that chk by (auto simp: balances_ok_def d' balances.keys_update [OF assms(2)] set_update_where)
qed

text \<open>The frame of a write that touches balances, ledger and identifiers only.\<close>

definition same_but_stock :: "db \<Rightarrow> db \<Rightarrow> bool" where
  "same_but_stock d d' \<longleftrightarrow>
     d' = d\<lparr>dbBalances := dbBalances d', dbLedger := dbLedger d', dbNextUuid := dbNextUuid d'\<rparr>"

lemma same_but_stock_refl [simp]: "same_but_stock d d"
  by (simp add: same_but_stock_def)

lemma same_but_stock_trans: "same_but_stock a b \<Longrightarrow> same_but_stock b c \<Longrightarrow> same_but_stock a c"
proof -
  assume b: "same_but_stock a b" and c: "same_but_stock b c"
  have "c = a\<lparr>dbBalances := dbBalances b, dbLedger := dbLedger b, dbNextUuid := dbNextUuid b,
      dbBalances := dbBalances c, dbLedger := dbLedger c, dbNextUuid := dbNextUuid c\<rparr>"
    using b c unfolding same_but_stock_def by metis
  then show "same_but_stock a c" unfolding same_but_stock_def by simp
qed

lemma same_but_stock_fields:
  assumes "same_but_stock d d'"
  shows "dbBusinesses d' = dbBusinesses d" "dbUsers d' = dbUsers d" "dbConnections d' = dbConnections d"
    "dbItems d' = dbItems d" "dbLocations d' = dbLocations d" "dbSettings d' = dbSettings d"
    "dbReservations d' = dbReservations d" "dbAllocations d' = dbAllocations d"
    "dbRecipes d' = dbRecipes d" "dbComponents d' = dbComponents d" "dbAddresses d' = dbAddresses d"
    "dbLinks d' = dbLinks d" "dbClock d' = dbClock d"
  by (subst assms [unfolded same_but_stock_def]; simp)+

section \<open>A sample database\<close>

text \<open>
  Business 1 with user 9 and connection 61; stocked items 21 and 22 and a kit 31 whose active
  recipe 71 takes two of 21 and one of 22; locations 41 (first in priority) and 42. Six units of
  21 and three of 22 at location 41, four of 21 at 42, each explained by a receipt. The default
  safety stock is none.
\<close>

definition shop :: db where
  "shop = empty_db\<lparr>dbBusinesses := [1], dbUsers := [9], dbConnections := [(1, 61)],
     dbItems := [
       \<lparr>itId = 21, itBusiness = 1, itSku = ''BOLT'', itName = ''Bolt'', itDescription = None,
        itSafetyOverride = None, itIsKit = False, itIsActive = True, itDeletedAt = None\<rparr>,
       \<lparr>itId = 22, itBusiness = 1, itSku = ''NUT'', itName = ''Nut'', itDescription = None,
        itSafetyOverride = None, itIsKit = False, itIsActive = True, itDeletedAt = None\<rparr>,
       \<lparr>itId = 31, itBusiness = 1, itSku = ''SET'', itName = ''Set'', itDescription = None,
        itSafetyOverride = None, itIsKit = True, itIsActive = True, itDeletedAt = None\<rparr>],
     dbLocations := [
       \<lparr>loId = 41, loBusiness = 1, loCode = ''A'', loName = ''Front'', loDescription = None,
        loTimezone = ''UTC'', loPriority = 10, loIsActive = True, loDeletedAt = None\<rparr>,
       \<lparr>loId = 42, loBusiness = 1, loCode = ''B'', loName = ''Back'', loDescription = None,
        loTimezone = ''UTC'', loPriority = 20, loIsActive = True, loDeletedAt = None\<rparr>],
     dbBalances := [
       \<lparr>baBusiness = 1, baItem = 21, baLocation = 41, baOnHand = 6, baReserved = 0,
        baSafetyStock = None, baBin = None, baNote = None\<rparr>,
       \<lparr>baBusiness = 1, baItem = 21, baLocation = 42, baOnHand = 4, baReserved = 0,
        baSafetyStock = None, baBin = None, baNote = None\<rparr>,
       \<lparr>baBusiness = 1, baItem = 22, baLocation = 41, baOnHand = 3, baReserved = 0,
        baSafetyStock = None, baBin = None, baNote = None\<rparr>],
     dbLedger := [
       \<lparr>leId = 101, leBusiness = 1, leItem = 21, leLocation = 41, leOccurredAt = 0,
        leRecordedAt = 0, leKind = Receipt, leDelta = 6, leReversalOf = None, leActor = Some 9,
        leReason = None, leCorrelation = None\<rparr>,
       \<lparr>leId = 102, leBusiness = 1, leItem = 21, leLocation = 42, leOccurredAt = 0,
        leRecordedAt = 0, leKind = Receipt, leDelta = 4, leReversalOf = None, leActor = Some 9,
        leReason = None, leCorrelation = None\<rparr>,
       \<lparr>leId = 103, leBusiness = 1, leItem = 22, leLocation = 41, leOccurredAt = 0,
        leRecordedAt = 0, leKind = Receipt, leDelta = 3, leReversalOf = None, leActor = Some 9,
        leReason = None, leCorrelation = None\<rparr>],
     dbSettings := [\<lparr>seBusiness = 1, seSafetyStock = 0, seMode = ReserveUntilFulfilled,
        seSplit = False\<rparr>],
     dbRecipes := [\<lparr>reId = 71, reBusiness = 1, reItem = 31, reVersion = 1, reStatus = RecipeActive,
        reNotes = None, reCreatedBy = None, reApprovedBy = Some 9, reApprovedAt = Some 0\<rparr>],
     dbComponents := [
       \<lparr>rcBusiness = 1, rcRecipe = 71, rcKit = 31, rcComponent = 21, rcQuantity = 2\<rparr>,
       \<lparr>rcBusiness = 1, rcRecipe = 71, rcKit = 31, rcComponent = 22, rcQuantity = 1\<rparr>]\<rparr>"

end
