(* ===== verification/Ledger.thy ===== *)
theory Ledger
  imports Schema
begin

text \<open>
  \<^verbatim>\<open>packages/inventory/src/ledger.ts\<close>: the append-only ledger and the balances it explains.
  \<open>postMovements\<close> applies a set of movements and records them, or does neither; \<open>lockOrder\<close> is
  the order in which every posting takes its row locks; \<open>readTimeline\<close> and \<open>readReversals\<close>
  are the two queries over the history.
\<close>

section \<open>Balance keys and their lock order\<close>

text \<open>
  A balance key of one business. The order is the comparison \<open>lockOrder\<close> sorts by: canonical
  item first, then location.
\<close>

datatype balance_target = BalanceTarget (tgItem: uuid) (tgLocation: uuid)

instantiation balance_target :: linorder
begin

definition less_eq_balance_target :: "balance_target \<Rightarrow> balance_target \<Rightarrow> bool" where
  "less_eq_balance_target a b \<longleftrightarrow>
     (if tgItem a = tgItem b then tgLocation a \<le> tgLocation b else tgItem a \<le> tgItem b)"

definition less_balance_target :: "balance_target \<Rightarrow> balance_target \<Rightarrow> bool" where
  "less_balance_target a b \<longleftrightarrow>
     (if tgItem a = tgItem b then tgLocation a < tgLocation b else tgItem a < tgItem b)"

instance
  by standard (auto simp: less_eq_balance_target_def less_balance_target_def
      intro: balance_target.expand split: if_splits)

end

record movement =
  mvItem :: uuid
  mvLocation :: uuid
  mvKind :: ledger_kind
  mvDelta :: int
  mvReason :: "string option"
  mvReversalOf :: "uuid option"

record posting_input =
  poBusiness :: uuid
  poMovements :: "movement list"
  poActor :: "uuid option"
  poCorrelation :: "uuid option"
  poOccurredAt :: "instant option"

record resulting_balance =
  rbItem :: uuid
  rbLocation :: uuid
  rbOnHand :: int
  rbReserved :: int

record shortfall =
  sfItem :: uuid
  sfLocation :: uuid
  sfOnHand :: int
  sfRequested :: int
  sfShort :: int

datatype posting_result =
    Posted "uuid list" "resulting_balance list"
  | Insufficient "shortfall list"
  | Invalid string

definition target_of :: "movement \<Rightarrow> balance_target" where
  "target_of m = BalanceTarget (mvItem m) (mvLocation m)"

definition lockOrder :: "balance_target list \<Rightarrow> balance_target list" where
  "lockOrder movements = sort (set_of movements)"

definition key_in :: "uuid \<Rightarrow> balance_target \<Rightarrow> uuid \<times> uuid \<times> uuid" where
  "key_in b t = (b, tgItem t, tgLocation t)"

section \<open>Posting\<close>

text \<open>The validation loop: the reason the first offending movement gives, if any.\<close>

fun check_movements :: "movement list \<Rightarrow> string option" where
  "check_movements [] = None"
| "check_movements (m # ms) =
     (if \<not> is_safe_integer (mvDelta m) \<or> mvDelta m = 0
      then Some ''a movement is a non-zero whole number of units''
      else if (mvKind m = Reversal) \<noteq> (mvReversalOf m \<noteq> None)
      then Some ''only a reversal names the entry it reverses, and every reversal must''
      else check_movements ms)"

text \<open>\<open>insert into location_balances ... on conflict do nothing\<close>, at zero units.\<close>

definition ensure_balance :: "uuid \<Rightarrow> balance_target \<Rightarrow> db \<Rightarrow> exn + db" where
  "ensure_balance b t d =
     (case find_balance d (key_in b t) of
        Some _ \<Rightarrow> Inr d
      | None \<Rightarrow> insert_balance \<lparr>baBusiness = b, baItem = tgItem t, baLocation = tgLocation t,
                  baOnHand = 0, baReserved = 0, baSafetyStock = None, baBin = None, baNote = None\<rparr> d)"

definition lock_one :: "db \<Rightarrow> uuid \<Rightarrow> balance_target
    \<Rightarrow> (balance_target \<rightharpoonup> int \<times> int) \<Rightarrow> (balance_target \<rightharpoonup> int \<times> int)" where
  "lock_one d b t held =
     (case find_balance d (key_in b t) of None \<Rightarrow> held
      | Some r \<Rightarrow> held(t \<mapsto> (baOnHand r, baReserved r)))"

definition lockBalances :: "db \<Rightarrow> uuid \<Rightarrow> balance_target list \<Rightarrow> (balance_target \<rightharpoonup> int \<times> int)" where
  "lockBalances d b targets = fold (lock_one d b) targets Map.empty"

definition add_net :: "movement \<Rightarrow> (balance_target \<rightharpoonup> int) \<Rightarrow> (balance_target \<rightharpoonup> int)" where
  "add_net m net =
     net(target_of m \<mapsto> (case net (target_of m) of None \<Rightarrow> 0 | Some n \<Rightarrow> n) + mvDelta m)"

definition net_by_key :: "movement list \<Rightarrow> (balance_target \<rightharpoonup> int)" where
  "net_by_key ms = fold add_net ms Map.empty"

text \<open>The loop over the targets: an early \<open>invalid\<close> is \<open>Inl\<close>.\<close>

fun scan_targets :: "(balance_target \<rightharpoonup> int \<times> int) \<Rightarrow> (balance_target \<rightharpoonup> int) \<Rightarrow> balance_target list
    \<Rightarrow> shortfall list \<Rightarrow> resulting_balance list \<Rightarrow> string + shortfall list \<times> resulting_balance list" where
  "scan_targets locked net [] shortfalls resulting = Inr (shortfalls, resulting)"
| "scan_targets locked net (t # ts) shortfalls resulting =
     (case locked t of
        None \<Rightarrow> Inl ''the item or location does not belong to this business''
      | Some (currentOnHand, currentReserved) \<Rightarrow>
          let n = (case net t of None \<Rightarrow> 0 | Some n \<Rightarrow> n);
              onHand = currentOnHand + n
          in if onHand < 0
             then scan_targets locked net ts
                    (shortfalls @ [\<lparr>sfItem = tgItem t, sfLocation = tgLocation t,
                       sfOnHand = currentOnHand, sfRequested = - n, sfShort = - onHand\<rparr>]) resulting
             else if onHand < currentReserved
             then Inl ''that movement would leave fewer units on hand than are reserved''
             else scan_targets locked net ts shortfalls
                    (resulting @ [\<lparr>rbItem = tgItem t, rbLocation = tgLocation t,
                       rbOnHand = onHand, rbReserved = currentReserved\<rparr>]))"

definition entry_of :: "posting_input \<Rightarrow> movement \<Rightarrow> uuid \<Rightarrow> instant \<Rightarrow> ledger_row" where
  "entry_of input m i now =
     \<lparr>leId = i, leBusiness = poBusiness input, leItem = mvItem m, leLocation = mvLocation m,
      leOccurredAt = (case poOccurredAt input of None \<Rightarrow> now | Some t \<Rightarrow> t), leRecordedAt = now,
      leKind = mvKind m, leDelta = mvDelta m, leReversalOf = mvReversalOf m,
      leActor = poActor input, leReason = mvReason m, leCorrelation = poCorrelation input\<rparr>"

definition post_entry :: "posting_input \<Rightarrow> movement \<Rightarrow> uuid list \<times> db \<Rightarrow> exn + uuid list \<times> db" where
  "post_entry input m s =
     (case s of (ids, d) \<Rightarrow>
        let (i, d1) = take_uuid d
        in bindR (insert_ledger (entry_of input m i (dbClock d)) d1) (\<lambda>d2. Inr (ids @ [i], d2)))"

definition set_on_hand :: "uuid \<Rightarrow> resulting_balance \<Rightarrow> db \<Rightarrow> exn + db" where
  "set_on_hand b rb =
     update_balance (b, rbItem rb, rbLocation rb) (\<lambda>r. r\<lparr>baOnHand := rbOnHand rb\<rparr>)"

definition postMovements :: "posting_input \<Rightarrow> db \<Rightarrow> exn + posting_result \<times> db" where
  "postMovements input d =
     (if poMovements input = []
      then Inr (Invalid ''a posting needs at least one movement'', d)
      else case check_movements (poMovements input) of
        Some reason \<Rightarrow> Inr (Invalid reason, d)
      | None \<Rightarrow>
          let targets = lockOrder (map target_of (poMovements input))
          in bindR (foldR (ensure_balance (poBusiness input)) targets d) (\<lambda>d1.
             let locked = lockBalances d1 (poBusiness input) targets;
                 net = net_by_key (poMovements input)
             in case scan_targets locked net targets [] [] of
                  Inl reason \<Rightarrow> Inr (Invalid reason, d1)
                | Inr (shortfalls, resulting) \<Rightarrow>
                    if shortfalls \<noteq> [] then Inr (Insufficient shortfalls, d1)
                    else bindR (foldR (post_entry input) (poMovements input) ([], d1)) (\<lambda>(ids, d2).
                         bindR (foldR (set_on_hand (poBusiness input)) resulting d2) (\<lambda>d3.
                         Inr (Posted ids resulting, d3)))))"

section \<open>Reading the history\<close>

definition later_entry :: "ledger_row \<Rightarrow> ledger_row \<Rightarrow> bool" where
  "later_entry a b \<longleftrightarrow>
     (if leOccurredAt a = leOccurredAt b then leRecordedAt a > leRecordedAt b
      else leOccurredAt a > leOccurredAt b)"

text \<open>\<open>order by occurred_at desc, recorded_at desc\<close>.\<close>

definition newest_first :: "ledger_row \<Rightarrow> ledger_row \<Rightarrow> bool" where
  "newest_first a b \<longleftrightarrow> \<not> later_entry b a"

interpretation timeline: row_order newest_first
  by unfold_locales (auto simp: newest_first_def later_entry_def split: if_splits)

definition readTimeline :: "db \<Rightarrow> uuid \<Rightarrow> uuid \<Rightarrow> nat option \<Rightarrow> ledger_row list" where
  "readTimeline d b i limit =
     take (case limit of None \<Rightarrow> 100 | Some n \<Rightarrow> n)
       (sort_by newest_first (filter (\<lambda>e. leBusiness e = b \<and> leItem e = i) (dbLedger d)))"

definition add_reversal :: "ledger_row \<Rightarrow> (uuid \<rightharpoonup> uuid) \<Rightarrow> (uuid \<rightharpoonup> uuid)" where
  "add_reversal e m = (case leReversalOf e of None \<Rightarrow> m | Some o' \<Rightarrow> m(o' \<mapsto> leId e))"

definition readReversals :: "db \<Rightarrow> uuid \<Rightarrow> uuid list \<Rightarrow> (uuid \<rightharpoonup> uuid)" where
  "readReversals d b entryIds =
     (if entryIds = [] then Map.empty
      else fold add_reversal
        (filter (\<lambda>e. leBusiness e = b
           \<and> (case leReversalOf e of None \<Rightarrow> False | Some o' \<Rightarrow> o' \<in> set entryIds)) (dbLedger d))
        Map.empty)"

section \<open>Lemmas: locking and netting\<close>

lemma lockOrder_facts:
  "sorted (lockOrder ts)" "distinct (lockOrder ts)" "set (lockOrder ts) = set ts"
  by (simp_all add: lockOrder_def)

lemma key_in_inject [simp]: "key_in b t = key_in b t' \<longleftrightarrow> t = t'"
  by (auto simp: key_in_def intro: balance_target.expand)

lemma fold_lock_one:
  "fold (lock_one d b) ts held t =
     (if t \<in> set ts \<and> find_balance d (key_in b t) \<noteq> None
      then map_option (\<lambda>r. (baOnHand r, baReserved r)) (find_balance d (key_in b t))
      else held t)"
  by (induction ts arbitrary: held) (auto simp: lock_one_def split: option.splits)

lemma lockBalances_at:
  "lockBalances d b ts t =
     (if t \<in> set ts then map_option (\<lambda>r. (baOnHand r, baReserved r)) (find_balance d (key_in b t))
      else None)"
  by (auto simp: lockBalances_def fold_lock_one)

text \<open>Units the movements move at one target.\<close>

definition net_of :: "movement list \<Rightarrow> balance_target \<Rightarrow> int" where
  "net_of ms t = sum_list (map mvDelta (filter (\<lambda>m. target_of m = t) ms))"

lemma net_of_simps [simp]:
  "net_of [] t = 0"
  "net_of (m # ms) t = (if target_of m = t then mvDelta m else 0) + net_of ms t"
  by (simp_all add: net_of_def)

lemma net_of_absent: "t \<notin> target_of ` set ms \<Longrightarrow> net_of ms t = 0"
  by (induction ms) auto

lemma fold_add_net:
  "(case fold add_net ms net t of None \<Rightarrow> 0 | Some n \<Rightarrow> n)
     = (case net t of None \<Rightarrow> 0 | Some n \<Rightarrow> n) + net_of ms t"
  by (induction ms arbitrary: net) (auto simp: add_net_def)

lemma net_by_key_at: "(case net_by_key ms t of None \<Rightarrow> 0 | Some n \<Rightarrow> n) = net_of ms t"
  by (simp add: net_by_key_def fold_add_net)

section \<open>Deadlock freedom of the lock order\<close>

text \<open>
  The discipline every module that locks balance rows shares: from a request (the balance keys
  of its movements) it takes the locks of \<open>order request\<close> one at a time, in that order. A
  transaction that holds its first \<open>n\<close> locks waits for another when the next lock it wants is
  one the other holds.
\<close>

locale ordered_locking =
  fixes order :: "'m \<Rightarrow> ('k :: linorder) list"
  assumes order_sorted: "sorted (order m)" and order_distinct: "distinct (order m)"
begin

definition waits :: "'m \<times> nat \<Rightarrow> 'm \<times> nat \<Rightarrow> bool" where
  "waits p q \<longleftrightarrow> snd p < length (order (fst p))
     \<and> order (fst p) ! snd p \<in> set (take (snd q) (order (fst q)))"

lemma next_above_held:
  assumes "n < length (order m)" and "k \<in> set (take n (order m))"
  shows "k < order m ! n"
proof -
  obtain j where j: "j < n" "k = order m ! j" using assms by (auto simp: in_set_conv_nth)
  have "order m ! j \<le> order m ! n" using j assms(1) order_sorted by (intro sorted_nth_mono) auto
  moreover have "order m ! j \<noteq> order m ! n"
    using j assms(1) order_distinct [of m] by (simp add: nth_eq_iff_index_eq)
  ultimately show ?thesis using j by simp
qed

lemma waits_chain:
  assumes "waits\<^sup>+\<^sup>+ p q" and "snd q < length (order (fst q))"
  shows "order (fst p) ! snd p < order (fst q) ! snd q"
  using assms
proof (induction rule: tranclp_induct)
  case (base q)
  then show ?case by (auto simp: waits_def intro: next_above_held)
next
  case (step q r)
  then have "order (fst p) ! snd p < order (fst q) ! snd q" by (simp add: waits_def)
  also have "\<dots> < order (fst r) ! snd r"
    using step by (auto simp: waits_def intro: next_above_held)
  finally show ?case .
qed

lemma waits_first: "waits\<^sup>+\<^sup>+ p q \<Longrightarrow> snd p < length (order (fst p))"
  by (induction rule: tranclp_induct) (auto simp: waits_def)

lemma no_cycle: "\<not> waits\<^sup>+\<^sup>+ p p"
  using waits_chain [of p p] waits_first [of p p] by auto

end

interpretation locks: ordered_locking lockOrder
  by unfold_locales (simp_all add: lockOrder_facts)

text \<open>One posting waits for another: each is the keys it names and how many locks it holds.\<close>

definition waits_for :: "balance_target list \<times> nat \<Rightarrow> balance_target list \<times> nat \<Rightarrow> bool" where
  "waits_for p q \<longleftrightarrow> snd p < length (lockOrder (fst p))
     \<and> lockOrder (fst p) ! snd p \<in> set (take (snd q) (lockOrder (fst q)))"

lemma waits_for_locks: "waits_for = locks.waits"
  by (simp add: fun_eq_iff waits_for_def locks.waits_def)

section \<open>Lemmas: the phases of a posting\<close>

lemma insert_balance_Inr:
  assumes "insert_balance r d = Inr d'"
  shows "d' = d\<lparr>dbBalances := dbBalances d @ [r]\<rparr>" "balance_check r = Inr ()" "balance_refs d r = Inr ()"
  using assms by (auto simp: insert_balance_def result_simps)

lemma find_balance_append:
  "find_balance (d\<lparr>dbBalances := dbBalances d @ [r]\<rparr>) k =
     (case find_balance d k of Some x \<Rightarrow> Some x
      | None \<Rightarrow> if balance_key r = k then Some r else None)"
  by (simp add: find_balance_def balances.lookup_append split: option.split)

text \<open>
  Creating the missing rows changes no figure: every key keeps its units on hand and reserved,
  the rows asked for exist afterwards, and no row disappears.
\<close>

definition ensured :: "db \<Rightarrow> db \<Rightarrow> bool" where
  "ensured d d' \<longleftrightarrow> d' = d\<lparr>dbBalances := dbBalances d'\<rparr>
     \<and> on_hand_at d' = on_hand_at d \<and> reserved_at d' = reserved_at d
     \<and> (\<forall>k. find_balance d k \<noteq> None \<longrightarrow> find_balance d' k = find_balance d k)
     \<and> (balances_ok d \<longrightarrow> balances_ok d')"

lemma ensured_fields:
  assumes "ensured d d'"
  shows "same_but_stock d d'" "dbLedger d' = dbLedger d" "dbNextUuid d' = dbNextUuid d"
    "item_kind_in d' = item_kind_in d" "location_in d' = location_in d"
proof -
  have d': "d' = d\<lparr>dbBalances := dbBalances d'\<rparr>" using assms by (simp add: ensured_def)
  show led: "dbLedger d' = dbLedger d" by (subst d') simp
  show nxt: "dbNextUuid d' = dbNextUuid d" by (subst d') simp
  show "item_kind_in d' = item_kind_in d" by (subst d') (simp add: item_kind_in_def fun_eq_iff)
  show "location_in d' = location_in d" by (subst d') (simp add: location_in_def fun_eq_iff)
  show "same_but_stock d d'" unfolding same_but_stock_def led nxt by (subst d') simp
qed

lemma ensured_trans: "ensured a b \<Longrightarrow> ensured b c \<Longrightarrow> ensured a c"
  unfolding ensured_def by (cases a; cases b; cases c) auto

lemma ensured_found: "ensured a b \<Longrightarrow> find_balance a k \<noteq> None \<Longrightarrow> find_balance b k = find_balance a k"
  unfolding ensured_def by blast

lemma ensure_balance_Inr:
  assumes "ensure_balance b t d = Inr d'"
  shows "ensured d d'" and "find_balance d' (key_in b t) \<noteq> None"
proof -
  let ?r = "\<lparr>baBusiness = b, baItem = tgItem t, baLocation = tgLocation t,
    baOnHand = 0, baReserved = 0, baSafetyStock = None, baBin = None, baNote = None\<rparr>"
  have key: "balance_key ?r = key_in b t" by (simp add: balance_key_def key_in_def)
  have "ensured d d' \<and> find_balance d' (key_in b t) \<noteq> None"
  proof (cases "find_balance d (key_in b t)")
    case None
    with assms have ins: "insert_balance ?r d = Inr d'" by (simp add: ensure_balance_def)
    note d' = insert_balance_Inr(1) [OF ins]
    have find: "find_balance d' k = (case find_balance d k of Some x \<Rightarrow> Some x
        | None \<Rightarrow> if key_in b t = k then Some ?r else None)" for k
      unfolding d' find_balance_append key ..
    have "on_hand_at d' k = on_hand_at d k \<and> reserved_at d' k = reserved_at d k" for k
      by (auto simp: on_hand_at_def reserved_at_def find split: option.splits)
    then have figures: "on_hand_at d' = on_hand_at d" "reserved_at d' = reserved_at d"
      by (simp_all add: fun_eq_iff)
    have "key_in b t \<notin> balance_key ` set (dbBalances d)"
      using None by (simp add: find_balance_def balances.lookup_None)
    then have "balances_ok d \<longrightarrow> balances_ok d'"
      using insert_balance_Inr(2) [OF ins] by (auto simp: balances_ok_def d' key)
    moreover have "d' = d\<lparr>dbBalances := dbBalances d'\<rparr>" by (simp add: d')
    ultimately show ?thesis using find None figures by (auto simp: ensured_def)
  qed (use assms in \<open>auto simp: ensure_balance_def ensured_def\<close>)
  then show "ensured d d'" and "find_balance d' (key_in b t) \<noteq> None" by auto
qed

lemma ensure_targets:
  assumes "foldR (ensure_balance b) ts d = Inr d'"
  shows "ensured d d' \<and> (\<forall>t \<in> set ts. find_balance d' (key_in b t) \<noteq> None)"
  using assms
proof (induction ts arbitrary: d)
  case Nil
  then show ?case by (simp add: ensured_def)
next
  case (Cons t ts)
  then obtain d1 where step: "ensure_balance b t d = Inr d1"
    and rest: "foldR (ensure_balance b) ts d1 = Inr d'" by (auto simp: result_simps)
  note first = ensure_balance_Inr [OF step] and tail = Cons.IH [OF rest]
  have "ensured d d'" using first(1) tail by (blast intro: ensured_trans)
  moreover have "find_balance d' (key_in b t) \<noteq> None"
    using first(2) tail ensured_found by metis
  ultimately show ?case using tail by simp
qed

text \<open>
  The scan: every target was found, so the only refusals are a shortfall and the reservation
  bound. On success the resulting balances are the targets with their new on-hand figures.
\<close>

definition scanned :: "(balance_target \<rightharpoonup> int \<times> int) \<Rightarrow> movement list \<Rightarrow> balance_target \<Rightarrow> resulting_balance" where
  "scanned locked ms t =
     \<lparr>rbItem = tgItem t, rbLocation = tgLocation t, rbOnHand = fst (the (locked t)) + net_of ms t,
      rbReserved = snd (the (locked t))\<rparr>"

definition short_at :: "(balance_target \<rightharpoonup> int \<times> int) \<Rightarrow> movement list \<Rightarrow> balance_target \<Rightarrow> bool" where
  "short_at locked ms t \<longleftrightarrow> fst (the (locked t)) + net_of ms t < 0"

definition shortfall_at :: "(balance_target \<rightharpoonup> int \<times> int) \<Rightarrow> movement list \<Rightarrow> balance_target \<Rightarrow> shortfall" where
  "shortfall_at locked ms t =
     \<lparr>sfItem = tgItem t, sfLocation = tgLocation t, sfOnHand = fst (the (locked t)),
      sfRequested = - net_of ms t, sfShort = - (fst (the (locked t)) + net_of ms t)\<rparr>"

lemma scan_targets_Inr:
  assumes "scan_targets locked (net_by_key ms) ts sf rs = Inr (sf', rs')"
  shows "sf' = sf @ map (shortfall_at locked ms) (filter (short_at locked ms) ts)
    \<and> rs' = rs @ map (scanned locked ms) (filter (\<lambda>t. \<not> short_at locked ms t) ts)
    \<and> (\<forall>t \<in> set ts. short_at locked ms t \<or> snd (the (locked t)) \<le> fst (the (locked t)) + net_of ms t)"
  using assms
proof (induction ts arbitrary: sf rs)
  case (Cons t ts)
  obtain h r where lt: "locked t = Some (h, r)"
    using Cons.prems by (cases "locked t") auto
  have n: "(case net_by_key ms t of None \<Rightarrow> 0 | Some n \<Rightarrow> n) = net_of ms t" by (rule net_by_key_at)
  show ?case
  proof (cases "h + net_of ms t < 0")
    case True
    with Cons.prems lt n show ?thesis
      by (auto simp: Let_def short_at_def shortfall_at_def dest!: Cons.IH)
  next
    case False
    with Cons.prems lt n have "r \<le> h + net_of ms t" by (auto simp: Let_def split: if_splits)
    with False Cons.prems lt n show ?thesis
      by (auto simp: Let_def short_at_def scanned_def dest!: Cons.IH)
  qed
qed auto

lemma scan_targets_Inl:
  assumes "scan_targets locked (net_by_key ms) ts sf rs = Inl reason" and "\<forall>t \<in> set ts. locked t \<noteq> None"
  shows "reason = ''that movement would leave fewer units on hand than are reserved''
    \<and> (\<exists>t \<in> set ts. 0 \<le> fst (the (locked t)) + net_of ms t
         \<and> fst (the (locked t)) + net_of ms t < snd (the (locked t)))"
  using assms
proof (induction ts arbitrary: sf rs)
  case (Cons t ts)
  obtain h r where lt: "locked t = Some (h, r)" using Cons.prems(2) by auto
  have n: "(case net_by_key ms t of None \<Rightarrow> 0 | Some n \<Rightarrow> n) = net_of ms t" by (rule net_by_key_at)
  show ?case using Cons lt n by (fastforce simp: Let_def split: if_splits)
qed simp

primrec entries_from :: "posting_input \<Rightarrow> movement list \<Rightarrow> uuid \<Rightarrow> instant \<Rightarrow> ledger_row list" where
  "entries_from input [] n now = []"
| "entries_from input (m # ms) n now = entry_of input m n now # entries_from input ms (Suc n) now"

lemma post_entry_Inr:
  "post_entry input m (ids, d) = Inr s \<Longrightarrow>
     s = (ids @ [dbNextUuid d], d\<lparr>dbNextUuid := Suc (dbNextUuid d),
            dbLedger := dbLedger d @ [entry_of input m (dbNextUuid d) (dbClock d)]\<rparr>)"
  by (auto simp: result_simps post_entry_def take_uuid_def insert_ledger_def)

lemma post_entries:
  assumes "foldR (post_entry input) ms (ids, d) = Inr (ids', d')"
  shows "ids' = ids @ [dbNextUuid d ..< dbNextUuid d + length ms]
    \<and> d' = d\<lparr>dbLedger := dbLedger d @ entries_from input ms (dbNextUuid d) (dbClock d),
                dbNextUuid := dbNextUuid d + length ms\<rparr>"
  using assms
proof (induction ms arbitrary: ids d)
  case (Cons m ms)
  let ?n = "dbNextUuid d"
  let ?d1 = "d\<lparr>dbNextUuid := Suc ?n, dbLedger := dbLedger d @ [entry_of input m ?n (dbClock d)]\<rparr>"
  have "foldR (post_entry input) ms (ids @ [?n], ?d1) = Inr (ids', d')"
    using Cons.prems by (auto simp: result_simps dest!: post_entry_Inr)
  from Cons.IH [OF this] show ?case by (simp add: upt_conv_Cons del: upt_Suc)
qed simp

lemma set_on_hand_step:
  assumes "set_on_hand b rb d = Inr d'"
  shows "d' = d\<lparr>dbBalances := dbBalances d'\<rparr>"
    and "find_balance d k \<noteq> None \<Longrightarrow> find_balance d' k \<noteq> None"
    and "balances_ok d \<Longrightarrow> balances_ok d'"
    and "reserved_at d' = reserved_at d"
    and "on_hand_at d' k = (if k = (b, rbItem rb, rbLocation rb) \<and> find_balance d k \<noteq> None
      then rbOnHand rb else on_hand_at d k)"
proof -
  let ?k = "(b, rbItem rb, rbLocation rb)" and ?f = "\<lambda>r. r\<lparr>baOnHand := rbOnHand rb\<rparr>"
  have u: "update_balance ?k ?f d = Inr d'" using assms by (simp add: set_on_hand_def)
  have key: "balance_key (?f r) = balance_key r" for r by (simp add: balance_key_def)
  note facts = update_balance_Inr [OF u key]
  show "d' = d\<lparr>dbBalances := dbBalances d'\<rparr>" by (rule facts(1))
  show "find_balance d k \<noteq> None \<Longrightarrow> find_balance d' k \<noteq> None" by (auto simp: facts(2))
  show "balances_ok d \<Longrightarrow> balances_ok d'" by (rule facts(3))
  have "reserved_at d' k = reserved_at d k" for k
    by (simp add: reserved_at_def facts(2) split: option.split)
  then show "reserved_at d' = reserved_at d" by (rule ext)
  show "on_hand_at d' k = (if k = (b, rbItem rb, rbLocation rb) \<and> find_balance d k \<noteq> None
      then rbOnHand rb else on_hand_at d k)"
    by (auto simp: on_hand_at_def facts(2) split: option.split)
qed

lemma set_on_hand_all:
  assumes "foldR (set_on_hand b) (map (scanned locked ms) ts) d = Inr d'"
    and "distinct ts" and "\<forall>t \<in> set ts. find_balance d (key_in b t) \<noteq> None"
  shows "d' = d\<lparr>dbBalances := dbBalances d'\<rparr>"
    and "balances_ok d \<Longrightarrow> balances_ok d'"
    and "reserved_at d' = reserved_at d"
    and "t \<in> set ts \<Longrightarrow> on_hand_at d' (key_in b t) = rbOnHand (scanned locked ms t)"
    and "(\<And>t. t \<in> set ts \<Longrightarrow> k \<noteq> key_in b t) \<Longrightarrow> on_hand_at d' k = on_hand_at d k"
proof -
  let ?goal = "\<lambda>ts d. d' = d\<lparr>dbBalances := dbBalances d'\<rparr>
    \<and> (balances_ok d \<longrightarrow> balances_ok d') \<and> reserved_at d' = reserved_at d
    \<and> (\<forall>t \<in> set ts. on_hand_at d' (key_in b t) = rbOnHand (scanned locked ms t))
    \<and> (\<forall>k. (\<forall>t \<in> set ts. k \<noteq> key_in b t) \<longrightarrow> on_hand_at d' k = on_hand_at d k)"
  have "?goal ts d" using assms
  proof (induction ts arbitrary: d)
    case (Cons t ts)
    then obtain d1 where step: "set_on_hand b (scanned locked ms t) d = Inr d1"
      and rest: "foldR (set_on_hand b) (map (scanned locked ms) ts) d1 = Inr d'"
      by (auto simp: result_simps)
    have key: "(b, rbItem (scanned locked ms t), rbLocation (scanned locked ms t)) = key_in b t"
      by (simp add: scanned_def key_in_def)
    note one = set_on_hand_step [OF step, unfolded key]
    have found: "\<forall>t \<in> set ts. find_balance d1 (key_in b t) \<noteq> None"
      using Cons.prems(3) one(2) by auto
    have IH: "?goal ts d1" using Cons.IH [OF rest _ found] Cons.prems(2) by simp
    have "\<forall>t' \<in> set ts. key_in b t \<noteq> key_in b t'" using Cons.prems(2) by auto
    then have here: "on_hand_at d' (key_in b t) = rbOnHand (scanned locked ms t)"
      using IH one(5) [of "key_in b t"] Cons.prems(3) by simp
    have "d' = d\<lparr>dbBalances := dbBalances d'\<rparr>"
      using IH one(1) by (cases d; cases d1; cases d') simp
    with IH one here show ?case by simp
  qed simp
  then show "d' = d\<lparr>dbBalances := dbBalances d'\<rparr>" "balances_ok d \<Longrightarrow> balances_ok d'"
    "reserved_at d' = reserved_at d"
    "t \<in> set ts \<Longrightarrow> on_hand_at d' (key_in b t) = rbOnHand (scanned locked ms t)"
    "(\<And>t. t \<in> set ts \<Longrightarrow> k \<noteq> key_in b t) \<Longrightarrow> on_hand_at d' k = on_hand_at d k" by blast+
qed

section \<open>What a posting does\<close>

text \<open>Units the movements of one posting move at a key of the whole database.\<close>

definition net_at :: "uuid \<Rightarrow> movement list \<Rightarrow> uuid \<times> uuid \<times> uuid \<Rightarrow> int" where
  "net_at b ms k = (case k of (b', i, l) \<Rightarrow> if b' = b then net_of ms (BalanceTarget i l) else 0)"

definition posted_effect :: "posting_input \<Rightarrow> uuid list \<Rightarrow> db \<Rightarrow> db \<Rightarrow> bool" where
  "posted_effect input ids d d' \<longleftrightarrow>
     (let n = dbNextUuid d; ms = poMovements input in
        ids = [n ..< n + length ms]
        \<and> dbLedger d' = dbLedger d @ entries_from input ms n (dbClock d)
        \<and> dbNextUuid d' = n + length ms
        \<and> (\<forall>k. on_hand_at d' k = on_hand_at d k + net_at (poBusiness input) ms k)
        \<and> reserved_at d' = reserved_at d
        \<and> same_but_stock d d'
        \<and> (balances_ok d \<longrightarrow> balances_ok d'))"

lemma net_at_key_in [simp]: "net_at b ms (key_in b t) = net_of ms t"
  by (simp add: net_at_def key_in_def)

lemma net_at_elsewhere:
  assumes "\<And>t. t \<in> target_of ` set ms \<Longrightarrow> k \<noteq> key_in b t"
  shows "net_at b ms k = 0"
proof -
  obtain b' i l where k: "k = (b', i, l)" by (cases k)
  have "b' = b \<Longrightarrow> BalanceTarget i l \<notin> target_of ` set ms"
    using assms [of "BalanceTarget i l"] by (auto simp: k key_in_def)
  then show ?thesis by (auto simp: net_at_def k net_of_absent)
qed

text \<open>The targets of a posting, and what the scan sees of them after the rows exist.\<close>

abbreviation targets :: "posting_input \<Rightarrow> balance_target list" where
  "targets input \<equiv> lockOrder (map target_of (poMovements input))"

lemma locked_figures:
  assumes "ensured d d1" and "find_balance d1 (key_in b t) \<noteq> None" and "t \<in> set ts"
  shows "lockBalances d1 b ts t = Some (on_hand_at d (key_in b t), reserved_at d (key_in b t))"
proof -
  obtain r where r: "find_balance d1 (key_in b t) = Some r" using assms(2) by auto
  have "on_hand_at d1 (key_in b t) = baOnHand r" "reserved_at d1 (key_in b t) = baReserved r"
    by (simp_all add: on_hand_at_def reserved_at_def r)
  with assms(1,3) r show ?thesis by (simp add: lockBalances_at ensured_def)
qed

text \<open>The outcomes of a posting that gets past validation, one case each.\<close>

lemma postMovements_cases:
  assumes "postMovements input d = Inr (res, d')"
  obtains
    (rejected) reason where "res = Invalid reason" "d' = d"
      "poMovements input = [] \<and> reason = ''a posting needs at least one movement''
        \<or> check_movements (poMovements input) = Some reason"
  | (too_few) sfs where "res = Insufficient sfs" "ensured d d'"
      "sfs = map (\<lambda>t. \<lparr>sfItem = tgItem t, sfLocation = tgLocation t,
          sfOnHand = on_hand_at d (key_in (poBusiness input) t),
          sfRequested = - net_of (poMovements input) t,
          sfShort = - (on_hand_at d (key_in (poBusiness input) t) + net_of (poMovements input) t)\<rparr>)
        (filter (\<lambda>t. on_hand_at d (key_in (poBusiness input) t) + net_of (poMovements input) t < 0)
          (targets input))" "sfs \<noteq> []"
  | (reserved) t where
      "res = Invalid ''that movement would leave fewer units on hand than are reserved''"
      "ensured d d'" "t \<in> set (targets input)"
      "0 \<le> on_hand_at d (key_in (poBusiness input) t) + net_of (poMovements input) t"
      "on_hand_at d (key_in (poBusiness input) t) + net_of (poMovements input) t
        < reserved_at d (key_in (poBusiness input) t)"
  | (posted) ids bals where "res = Posted ids bals" "posted_effect input ids d d'"
      "bals = map (\<lambda>t. \<lparr>rbItem = tgItem t, rbLocation = tgLocation t,
          rbOnHand = on_hand_at d' (key_in (poBusiness input) t),
          rbReserved = reserved_at d (key_in (poBusiness input) t)\<rparr>) (targets input)"
      "\<forall>t \<in> set (targets input). 0 \<le> on_hand_at d' (key_in (poBusiness input) t)
        \<and> reserved_at d (key_in (poBusiness input) t) \<le> on_hand_at d' (key_in (poBusiness input) t)"
proof (cases "poMovements input = [] \<or> check_movements (poMovements input) \<noteq> None")
  case True
  with assms rejected show thesis by (auto simp: postMovements_def split: if_splits option.splits)
next
  case False
  let ?b = "poBusiness input" and ?ms = "poMovements input" and ?ts = "targets input"
  from False assms obtain d1 where ens: "foldR (ensure_balance ?b) ?ts d = Inr d1"
    and main: "(case scan_targets (lockBalances d1 ?b ?ts) (net_by_key ?ms) ?ts [] [] of
        Inl reason \<Rightarrow> Inr (Invalid reason, d1)
      | Inr (shortfalls, resulting) \<Rightarrow>
          if shortfalls \<noteq> [] then Inr (Insufficient shortfalls, d1)
          else bindR (foldR (post_entry input) ?ms ([], d1)) (\<lambda>(ids, d2).
               bindR (foldR (set_on_hand ?b) resulting d2) (\<lambda>d3. Inr (Posted ids resulting, d3))))
      = (Inr (res, d') :: exn + posting_result \<times> db)"
    by (auto simp: postMovements_def result_simps Let_def)
  from ensure_targets [OF ens] have d1: "ensured d d1"
    and found: "\<forall>t \<in> set ?ts. find_balance d1 (key_in ?b t) \<noteq> None" by auto
  define locked where "locked = lockBalances d1 ?b ?ts"
  have at: "locked t = Some (on_hand_at d (key_in ?b t), reserved_at d (key_in ?b t))"
    if "t \<in> set ?ts" for t
    unfolding locked_def using locked_figures [OF d1 _ that] found that by blast
  show thesis
  proof (cases "scan_targets locked (net_by_key ?ms) ?ts [] []")
    case (Inl reason)
    have "\<forall>t \<in> set ?ts. locked t \<noteq> None" using at by auto
    from scan_targets_Inl [OF Inl this] main Inl obtain t where
      "res = Invalid ''that movement would leave fewer units on hand than are reserved''" "d' = d1"
      "t \<in> set ?ts" "0 \<le> fst (the (locked t)) + net_of ?ms t"
      "fst (the (locked t)) + net_of ?ms t < snd (the (locked t))"
      by (auto simp: locked_def)
    with d1 at show thesis by (intro reserved [of t]) auto
  next
    case (Inr p)
    obtain sfs rs where p: "p = (sfs, rs)" by (cases p)
    note scan = scan_targets_Inr [OF Inr [unfolded p]]
    show thesis
    proof (cases "sfs = []")
      case False
      with main Inr p have res: "res = Insufficient sfs" "d' = d1" by (auto simp: locked_def)
      have "filter (short_at locked ?ms) ?ts
          = filter (\<lambda>t. on_hand_at d (key_in ?b t) + net_of ?ms t < 0) ?ts"
        by (rule filter_cong) (auto simp: short_at_def at)
      with scan res d1 False show thesis
        by (intro too_few [of sfs]) (auto simp: shortfall_at_def at lockOrder_facts)
    next
      case True
      then have ok: "filter (\<lambda>t. \<not> short_at locked ?ms t) ?ts = ?ts"
        using scan by (auto simp: filter_empty_conv filter_id_conv)
      from main Inr p True obtain ids d2 where
        post: "foldR (post_entry input) ?ms ([], d1) = Inr (ids, d2)"
        and setr: "foldR (set_on_hand ?b) rs d2 = Inr d'" and res: "res = Posted ids rs"
        by (auto simp: locked_def result_simps)
      have rs: "rs = map (scanned locked ?ms) ?ts" using scan ok by simp
      note ledger = conjunct1 [OF post_entries [OF post]] conjunct2 [OF post_entries [OF post]]
      have same: "find_balance d2 = find_balance d1" "on_hand_at d2 = on_hand_at d1"
        "reserved_at d2 = reserved_at d1" "balances_ok d2 = balances_ok d1"
        by (simp_all add: ledger(2) fun_eq_iff find_balance_def on_hand_at_def reserved_at_def
            balances_ok_def)
      note sets = set_on_hand_all [OF setr [unfolded rs]]
      have "distinct ?ts" by (rule lockOrder_facts)
      note sets = sets [OF this, unfolded same, OF found]
      have onhand: "on_hand_at d' k = on_hand_at d k + net_at ?b ?ms k" for k
      proof (cases "\<exists>t \<in> set ?ts. k = key_in ?b t")
        case True
        with sets(4) at show ?thesis by (auto simp: scanned_def)
      next
        case False
        then have "net_at ?b ?ms k = 0" by (intro net_at_elsewhere) (auto simp: lockOrder_facts)
        with sets(5) [of k] False d1 show ?thesis by (auto simp: ensured_def)
      qed
      have frame: "same_but_stock d d'"
        using d1 ledger(2) sets(1) unfolding ensured_def same_but_stock_def
        by (cases d; cases d1; cases d2; cases d') simp
      have d1u: "dbNextUuid d1 = dbNextUuid d" "dbLedger d1 = dbLedger d" "dbClock d1 = dbClock d"
        using d1 unfolding ensured_def by (cases d; cases d1; simp)+
      have d'u: "dbNextUuid d' = dbNextUuid d2" "dbLedger d' = dbLedger d2"
        using sets(1) by (cases d2; cases d'; simp)+
      have "posted_effect input ids d d'"
        using ledger onhand sets(2,3) d1 frame d1u d'u
        by (simp add: posted_effect_def Let_def ensured_def)
      moreover have "rs = map (\<lambda>t. \<lparr>rbItem = tgItem t, rbLocation = tgLocation t,
          rbOnHand = on_hand_at d' (key_in ?b t), rbReserved = reserved_at d (key_in ?b t)\<rparr>) ?ts"
        unfolding rs by (intro map_cong refl) (simp add: scanned_def at onhand)
      moreover have "\<forall>t \<in> set ?ts. 0 \<le> on_hand_at d' (key_in ?b t)
          \<and> reserved_at d (key_in ?b t) \<le> on_hand_at d' (key_in ?b t)"
        using scan True by (auto simp: short_at_def at onhand filter_empty_conv)
      ultimately show thesis using res by (intro posted)
    qed
  qed
qed

definition posted_result :: "posting_result \<Rightarrow> bool" where
  "posted_result r = (case r of Posted _ _ \<Rightarrow> True | _ \<Rightarrow> False)"

lemma posted_result_simps [simp]:
  "posted_result (Posted ids bals)" "\<not> posted_result (Insufficient sfs)" "\<not> posted_result (Invalid reason)"
  by (simp_all add: posted_result_def)

text \<open>No posting removes a balance row, and an accepted one leaves a row at each of its targets.\<close>

lemma postMovements_rows:
  assumes "postMovements input d = Inr (res, d')"
  shows "find_balance d k \<noteq> None \<Longrightarrow> find_balance d' k \<noteq> None"
    and "res = Posted ids bals \<Longrightarrow> m \<in> set (poMovements input)
      \<Longrightarrow> find_balance d' (poBusiness input, mvItem m, mvLocation m) \<noteq> None"
proof -
  have keep: "find_balance d' k \<noteq> None" if "find_balance d k \<noteq> None" "ensured d d'" for k
    using that ensured_found by metis
  have "(find_balance d k \<noteq> None \<longrightarrow> find_balance d' k \<noteq> None)
    \<and> (res = Posted ids bals \<longrightarrow> m \<in> set (poMovements input)
        \<longrightarrow> find_balance d' (poBusiness input, mvItem m, mvLocation m) \<noteq> None)"
  proof (cases "posted_result res")
    case False
    have "ensured d d'"
      using assms False by (cases rule: postMovements_cases) (auto simp: ensured_def posted_result_def)
    with False keep show ?thesis by (auto simp: posted_result_def)
  next
    case True
    then obtain ids' bals' where res: "res = Posted ids' bals'" by (cases res) (auto simp: posted_result_def)
    let ?ts = "targets input"
    from assms res obtain d1 where ens: "foldR (ensure_balance (poBusiness input)) ?ts d = Inr d1"
      and main: "(case scan_targets (lockBalances d1 (poBusiness input) ?ts)
            (net_by_key (poMovements input)) ?ts [] [] of
          Inl reason \<Rightarrow> Inr (Invalid reason, d1)
        | Inr (shortfalls, resulting) \<Rightarrow>
            if shortfalls \<noteq> [] then Inr (Insufficient shortfalls, d1)
            else bindR (foldR (post_entry input) (poMovements input) ([], d1)) (\<lambda>(ids, d2).
                 bindR (foldR (set_on_hand (poBusiness input)) resulting d2) (\<lambda>d3. Inr (Posted ids resulting, d3))))
        = (Inr (Posted ids' bals', d') :: exn + posting_result \<times> db)"
      by (auto simp: postMovements_def result_simps Let_def split: if_splits option.splits)
    from main obtain d2 where
      entries: "foldR (post_entry input) (poMovements input) ([], d1) = Inr (ids', d2)"
      and set: "foldR (set_on_hand (poBusiness input)) bals' d2 = Inr d'"
      by (cases "scan_targets (lockBalances d1 (poBusiness input) ?ts)
            (net_by_key (poMovements input)) ?ts [] []") (auto simp: result_simps split: if_splits prod.splits)
    have e: "ensured d d1" "\<forall>t \<in> set ?ts. find_balance d1 (key_in (poBusiness input) t) \<noteq> None"
      using ensure_targets [OF ens] by auto
    have d2: "find_balance d2 k = find_balance d1 k" for k
      using post_entries [OF entries] by (simp add: find_balance_def)
    have tail: "find_balance d' k \<noteq> None" if "find_balance d2 k \<noteq> None" for k
      using set that by (rule foldR_invariant) (rule set_on_hand_step(2))
    have "target_of m \<in> set ?ts" if "m \<in> set (poMovements input)"
      using that by (simp add: lockOrder_facts)
    with e tail d2 ensured_found [OF e(1)] show ?thesis
      by (metis balance_target.sel(1,2) key_in_def target_of_def)
  qed
  then show "find_balance d k \<noteq> None \<Longrightarrow> find_balance d' k \<noteq> None"
    and "res = Posted ids bals \<Longrightarrow> m \<in> set (poMovements input)
      \<Longrightarrow> find_balance d' (poBusiness input, mvItem m, mvLocation m) \<noteq> None" by blast+
qed

section \<open>The ledger explains the balances\<close>

definition entry_key :: "ledger_row \<Rightarrow> uuid \<times> uuid \<times> uuid" where
  "entry_key e = (leBusiness e, leItem e, leLocation e)"

definition ledger_sum :: "ledger_row list \<Rightarrow> uuid \<times> uuid \<times> uuid \<Rightarrow> int" where
  "ledger_sum es k = sum_list (map leDelta (filter (\<lambda>e. entry_key e = k) es))"

definition explained :: "db \<Rightarrow> bool" where
  "explained d \<longleftrightarrow> (\<forall>k. on_hand_at d k = ledger_sum (dbLedger d) k)"

lemma ledger_sum_append: "ledger_sum (es @ es') k = ledger_sum es k + ledger_sum es' k"
  by (simp add: ledger_sum_def)

lemma ledger_sum_entries:
  "ledger_sum (entries_from input ms n now) k = net_at (poBusiness input) ms k"
proof (induction ms arbitrary: n)
  case (Cons m ms)
  obtain b i l where k: "k = (b, i, l)" by (cases k)
  show ?case using Cons [of "Suc n"]
    by (auto simp: k ledger_sum_def net_at_def entry_key_def entry_of_def target_of_def)
qed (simp add: ledger_sum_def net_at_def split: prod.split)

lemma posted_explained:
  "posted_effect input ids d d' \<Longrightarrow> explained d \<Longrightarrow> explained d'"
  by (simp add: posted_effect_def explained_def Let_def ledger_sum_append ledger_sum_entries)

lemma ensured_explained: "ensured d d' \<Longrightarrow> explained d \<Longrightarrow> explained d'"
  using ensured_fields(2) [of d d'] by (simp add: explained_def ensured_def)

section \<open>The contract its clients rely on\<close>

text \<open>
  What adjustments, transfers, reversals and reservations use of a posting: an accepted posting
  moves every figure by the net of its movements, a refused one moves none, reserved units are
  never touched, and the invariants of the stock survive either way.
\<close>

locale posting_service =
  fixes post :: "'input \<Rightarrow> 's \<Rightarrow> 'e + 'r \<times> 's"
    and accepted :: "'r \<Rightarrow> bool"
    and net :: "'input \<Rightarrow> 'k \<Rightarrow> int"
    and stock :: "'s \<Rightarrow> 'k \<Rightarrow> int"
    and held :: "'s \<Rightarrow> 'k \<Rightarrow> int"
    and good :: "'s \<Rightarrow> bool"
  assumes post_accepted: "post i s = Inr (r, s') \<Longrightarrow> accepted r \<Longrightarrow> stock s' k = stock s k + net i k"
    and post_refused: "post i s = Inr (r, s') \<Longrightarrow> \<not> accepted r \<Longrightarrow> stock s' = stock s"
    and post_held: "post i s = Inr (r, s') \<Longrightarrow> held s' = held s"
    and post_good: "post i s = Inr (r, s') \<Longrightarrow> good s \<Longrightarrow> good s'"
begin

text \<open>Movements that cancel out over a set of keys leave its total unchanged.\<close>

lemma conserved:
  assumes "post i s = Inr (r, s')" and "finite K" and "sum (net i) K = 0"
  shows "sum (stock s') K = sum (stock s) K"
proof (cases "accepted r")
  case True
  then have "sum (stock s') K = sum (\<lambda>k. stock s k + net i k) K"
    using post_accepted [OF assms(1)] by simp
  then show ?thesis using assms(3) by (simp add: sum.distrib)
next
  case False
  then show ?thesis using post_refused [OF assms(1)] by simp
qed

text \<open>A posting with the opposite net restores every figure.\<close>

lemma undone:
  assumes "post i s = Inr (r, s')" "accepted r" and "post j t = Inr (q, t')" "accepted q"
    and "stock t = stock s'" and "\<And>k. net j k = - net i k"
  shows "stock t' = stock s"
  using post_accepted [OF assms(1,2)] post_accepted [OF assms(3,4)] assms(5,6)
  by (simp add: fun_eq_iff)

end

definition input_net :: "posting_input \<Rightarrow> uuid \<times> uuid \<times> uuid \<Rightarrow> int" where
  "input_net input = net_at (poBusiness input) (poMovements input)"

definition stock_good :: "db \<Rightarrow> bool" where
  "stock_good d \<longleftrightarrow> balances_ok d \<and> explained d"

lemma postMovements_posted:
  "postMovements input d = Inr (Posted ids bals, d') \<Longrightarrow> posted_effect input ids d d'"
  by (erule postMovements_cases) auto

lemma posted_bounds:
  assumes "postMovements input d = Inr (Posted ids bals, d')" and "m \<in> set (poMovements input)"
  defines "k \<equiv> (poBusiness input, mvItem m, mvLocation m)"
  shows "0 \<le> on_hand_at d' k" and "reserved_at d k \<le> on_hand_at d' k"
proof -
  have "\<forall>t \<in> set (targets input). 0 \<le> on_hand_at d' (key_in (poBusiness input) t)
      \<and> reserved_at d (key_in (poBusiness input) t) \<le> on_hand_at d' (key_in (poBusiness input) t)"
    using assms(1) by (cases rule: postMovements_cases) auto
  moreover have "target_of m \<in> set (targets input)" using assms(2) by (simp add: lockOrder_facts)
  ultimately show "0 \<le> on_hand_at d' k" "reserved_at d k \<le> on_hand_at d' k"
    by (auto simp: k_def key_in_def target_of_def)
qed

lemma postMovements_refused:
  "postMovements input d = Inr (res, d') \<Longrightarrow> \<not> posted_result res \<Longrightarrow> ensured d d'"
  by (erule postMovements_cases) (auto simp: ensured_def)

lemma postMovements_stock:
  assumes "postMovements input d = Inr (res, d')"
  shows "posted_result res \<Longrightarrow> on_hand_at d' k = on_hand_at d k + input_net input k"
    and "\<not> posted_result res \<Longrightarrow> on_hand_at d' = on_hand_at d"
    and "reserved_at d' = reserved_at d"
    and "stock_good d \<Longrightarrow> stock_good d'"
    and "posted_result res \<Longrightarrow> \<exists>ids bals. res = Posted ids bals"
proof -
  have e: "ensured d d'" if "\<not> posted_result res"
    using postMovements_refused [OF assms that] .
  have p: "\<exists>ids. posted_effect input ids d d'" if "posted_result res"
  proof (cases res)
    case (Posted ids bals)
    then show ?thesis using assms postMovements_posted by blast
  qed (use that in auto)
  show "posted_result res \<Longrightarrow> on_hand_at d' k = on_hand_at d k + input_net input k"
    using p by (auto simp: posted_effect_def Let_def input_net_def)
  show "\<not> posted_result res \<Longrightarrow> on_hand_at d' = on_hand_at d"
    using e by (simp add: ensured_def)
  show "reserved_at d' = reserved_at d"
    using e p by (cases "posted_result res") (auto simp: ensured_def posted_effect_def Let_def)
  show "stock_good d'" if "stock_good d"
  proof (cases "posted_result res")
    case True
    then obtain ids where i: "posted_effect input ids d d'" using p by blast
    have "balances_ok d'" using that i by (simp add: posted_effect_def Let_def stock_good_def)
    with posted_explained [OF i] that show ?thesis by (simp add: stock_good_def)
  next
    case False
    with e ensured_explained [of d d'] that show ?thesis by (simp add: stock_good_def ensured_def)
  qed
  show "posted_result res \<Longrightarrow> \<exists>ids bals. res = Posted ids bals" by (cases res) auto
qed

interpretation stock: posting_service postMovements posted_result input_net on_hand_at reserved_at stock_good
  by unfold_locales (use postMovements_stock in blast)+

section \<open>A covered posting is accepted\<close>

definition movement_refs :: "db \<Rightarrow> posting_input \<Rightarrow> movement \<Rightarrow> bool" where
  "movement_refs d input m \<longleftrightarrow>
     item_kind_in d (poBusiness input) (mvItem m) False \<and> location_in d (poBusiness input) (mvLocation m)
     \<and> int4 (mvDelta m) \<and> opt_in (mvReversalOf m) (map leId (dbLedger d)) \<and> opt_in (poActor input) (dbUsers d)
     \<and> (case mvReversalOf m of None \<Rightarrow> True | Some e \<Rightarrow> e < dbNextUuid d)"

definition covered :: "db \<Rightarrow> posting_input \<Rightarrow> bool" where
  "covered d input \<longleftrightarrow> poMovements input \<noteq> [] \<and> check_movements (poMovements input) = None
     \<and> (\<forall>m \<in> set (poMovements input). movement_refs d input m)
     \<and> (\<forall>m \<in> set (poMovements input).
          let k = key_in (poBusiness input) (target_of m);
              n = on_hand_at d k + net_of (poMovements input) (target_of m)
          in reserved_at d k \<le> n \<and> n \<le> 2147483647)"

lemma ensure_succeeds:
  assumes "\<forall>t \<in> set ts. item_kind_in d b (tgItem t) False \<and> location_in d b (tgLocation t)"
  shows "\<exists>d'. foldR (ensure_balance b) ts d = Inr d'"
  using assms
proof (induction ts arbitrary: d)
  case (Cons t ts)
  obtain d1 where d1: "ensure_balance b t d = Inr d1"
  proof (cases "find_balance d (key_in b t)")
    case None
    let ?r = "\<lparr>baBusiness = b, baItem = tgItem t, baLocation = tgLocation t,
      baOnHand = 0, baReserved = 0, baSafetyStock = None, baBin = None, baNote = None\<rparr>"
    have "insert_balance ?r d = Inr (d\<lparr>dbBalances := dbBalances d @ [?r]\<rparr>)"
      using Cons.prems by (auto simp: insert_balance_def result_simps balance_check_Inr balance_refs_def
          int4_def text_within_def)
    then show thesis using None that by (simp add: ensure_balance_def)
  qed (use that in \<open>simp add: ensure_balance_def\<close>)
  with Cons ensured_fields(4,5) [OF ensure_balance_Inr(1) [OF d1]] show ?case
    by (simp add: result_simps)
qed simp

lemma entries_succeed:
  assumes "\<forall>m \<in> set ms. movement_refs d input m" and "check_movements ms = None"
  shows "\<exists>r. foldR (post_entry input) ms (ids, d) = Inr r"
  using assms
proof (induction ms arbitrary: ids d)
  case (Cons m ms)
  let ?e = "entry_of input m (dbNextUuid d) (dbClock d)"
  let ?d1 = "d\<lparr>dbNextUuid := Suc (dbNextUuid d), dbLedger := dbLedger d @ [?e]\<rparr>"
  have m: "mvDelta m \<noteq> 0" "(mvKind m = Reversal) = (mvReversalOf m \<noteq> None)"
    "check_movements ms = None" "movement_refs d input m"
    using Cons.prems by (auto split: if_splits)
  have "post_entry input m (ids, d) = Inr (ids @ [dbNextUuid d], ?d1)"
    using m by (auto simp: post_entry_def take_uuid_def insert_ledger_def result_simps ledger_check_def
        entry_of_def movement_refs_def item_kind_in_def location_in_def split: option.splits)
  moreover have "\<forall>m \<in> set ms. movement_refs ?d1 input m"
    using Cons.prems(1)
    by (auto simp: movement_refs_def item_kind_in_def location_in_def opt_in_def split: option.splits)
  ultimately show ?case using Cons.IH m(3) by simp
qed simp

lemma set_on_hand_succeeds:
  assumes "balances_ok d" and "distinct ts"
    and "\<forall>t \<in> set ts. reserved_at d (key_in b t) \<le> rbOnHand (scanned locked ms t)
      \<and> rbOnHand (scanned locked ms t) \<le> 2147483647"
  shows "\<exists>d'. foldR (set_on_hand b) (map (scanned locked ms) ts) d = Inr d'"
  using assms
proof (induction ts arbitrary: d)
  case (Cons t ts)
  let ?n = "rbOnHand (scanned locked ms t)"
  have key: "(b, rbItem (scanned locked ms t), rbLocation (scanned locked ms t)) = key_in b t"
    by (simp add: scanned_def key_in_def)
  have "balance_check (r\<lparr>baOnHand := ?n\<rparr>) = Inr ()"
    if r: "r \<in> set (dbBalances d)" "balance_key r = key_in b t" for r
  proof -
    have "find_balance d (key_in b t) = Some r"
      using balances.lookup_member [of "dbBalances d" r] Cons.prems(1) r
      by (simp add: find_balance_def balances_ok_def)
    then have "baReserved r \<le> ?n" using Cons.prems(3) by (auto simp: reserved_at_def)
    moreover have "balance_check r = Inr ()" using Cons.prems(1) r by (simp add: balances_ok_def)
    moreover have "?n \<le> 2147483647" using Cons.prems(3) by simp
    ultimately show ?thesis by (auto simp: balance_check_Inr int4_def)
  qed
  then obtain d1 where d1: "set_on_hand b (scanned locked ms t) d = Inr d1"
    by (auto simp: set_on_hand_def key update_balance_def update_balances_def result_simps update_checked_Inr)
  note step = set_on_hand_step [OF d1]
  have "\<exists>d'. foldR (set_on_hand b) (map (scanned locked ms) ts) d1 = Inr d'"
    using Cons.prems step(3,4) by (intro Cons.IH) auto
  with d1 show ?case by (simp add: result_simps)
qed simp

lemma covered_posted:
  assumes "balances_ok d" and "covered d input"
  shows "\<exists>ids bals d'. postMovements input d = Inr (Posted ids bals, d')"
proof -
  let ?b = "poBusiness input" and ?ms = "poMovements input" and ?ts = "targets input"
  have ms: "?ms \<noteq> []" "check_movements ?ms = None"
    and refs: "\<forall>m \<in> set ?ms. movement_refs d input m"
    and room: "\<forall>t \<in> set ?ts. reserved_at d (key_in ?b t) \<le> on_hand_at d (key_in ?b t) + net_of ?ms t
      \<and> on_hand_at d (key_in ?b t) + net_of ?ms t \<le> 2147483647"
    using assms(2) by (auto simp: covered_def Let_def lockOrder_facts)
  have "\<forall>t \<in> set ?ts. item_kind_in d ?b (tgItem t) False \<and> location_in d ?b (tgLocation t)"
    using refs by (auto simp: lockOrder_facts movement_refs_def target_of_def)
  then obtain d1 where ens: "foldR (ensure_balance ?b) ?ts d = Inr d1"
    using ensure_succeeds by blast
  from ensure_targets [OF ens] have d1: "ensured d d1"
    and found: "\<forall>t \<in> set ?ts. find_balance d1 (key_in ?b t) \<noteq> None" by auto
  define locked where "locked = lockBalances d1 ?b ?ts"
  have at: "locked t = Some (on_hand_at d (key_in ?b t), reserved_at d (key_in ?b t))"
    if "t \<in> set ?ts" for t
    unfolding locked_def using locked_figures [OF d1 _ that] found that by blast
  have low: "0 \<le> reserved_at d k" for k using reserved_within_on_hand [OF assms(1)] by simp
  obtain sfs rs where scan: "scan_targets locked (net_by_key ?ms) ?ts [] [] = Inr (sfs, rs)"
  proof (cases "scan_targets locked (net_by_key ?ms) ?ts [] []")
    case (Inl reason)
    have "\<forall>t \<in> set ?ts. locked t \<noteq> None" using at by auto
    from scan_targets_Inl [OF Inl this] at room show thesis by fastforce
  qed (use that in \<open>cases, auto\<close>)
  note res = scan_targets_Inr [OF scan]
  have none: "\<not> short_at locked ?ms t" if "t \<in> set ?ts" for t
    using at [OF that] room low [of "key_in ?b t"] that by (force simp: short_at_def)
  then have sfs: "sfs = []" and rs: "rs = map (scanned locked ?ms) ?ts"
    using res by (auto simp: filter_empty_conv filter_id_conv intro!: arg_cong [where f = "map _"])
  have refs1: "\<forall>m \<in> set ?ms. movement_refs d1 input m"
    using refs ensured_fields [OF d1] same_but_stock_fields(2) [OF ensured_fields(1) [OF d1]]
    by (auto simp: movement_refs_def split: option.splits)
  obtain ids d2 where post: "foldR (post_entry input) ?ms ([], d1) = Inr (ids, d2)"
    using entries_succeed [OF refs1 ms(2), of "[]"] by auto
  have d2: "balances_ok d2" "reserved_at d2 = reserved_at d"
    using post_entries [OF post] d1 assms(1)
    by (simp_all add: ensured_def balances_ok_def reserved_at_def [abs_def] find_balance_def)
  have "\<exists>d'. foldR (set_on_hand ?b) rs d2 = Inr d'"
    unfolding rs using d2 room at
    by (intro set_on_hand_succeeds) (auto simp: lockOrder_facts scanned_def)
  then obtain d3 where "foldR (set_on_hand ?b) rs d2 = Inr d3" by blast
  with ms ens scan post sfs show ?thesis
    by (auto simp: postMovements_def Let_def result_simps locked_def)
qed

section \<open>Evaluation\<close>

lemmas ledger_eval = postMovements_def lockOrder_def set_of_def set_add_def target_of_def key_in_def
  ensure_balance_def find_balance_def balance_key_def lockBalances_def lock_one_def net_by_key_def
  add_net_def post_entry_def take_uuid_def insert_ledger_def ledger_check_def entry_of_def
  set_on_hand_def update_balance_def update_balances_def balance_check_def is_safe_integer_def
  insert_balance_def balance_refs_def item_in_def item_kind_in_def location_in_def opt_in_def
  int4_def text_within_def less_eq_balance_target_def Let_def shop_def empty_db_def

definition move :: "uuid \<Rightarrow> uuid \<Rightarrow> ledger_kind \<Rightarrow> int \<Rightarrow> movement" where
  "move i l kind n = \<lparr>mvItem = i, mvLocation = l, mvKind = kind, mvDelta = n, mvReason = None,
     mvReversalOf = None\<rparr>"

definition posting :: "movement list \<Rightarrow> posting_input" where
  "posting ms = \<lparr>poBusiness = 1, poMovements = ms, poActor = Some 9, poCorrelation = None,
     poOccurredAt = None\<rparr>"

lemma shop_good: "stock_good shop"
proof -
  have "on_hand_at shop k = ledger_sum (dbLedger shop) k" for k
    by (cases k) (auto simp: on_hand_at_def find_balance_def balance_key_def ledger_sum_def entry_key_def
        shop_def empty_db_def)
  then show ?thesis
    by (simp add: stock_good_def explained_def)
      (simp add: balances_ok_def shop_def empty_db_def balance_key_def balance_check_def int4_def text_within_def)
qed

lemma sale_posts: "\<exists>bals d'. postMovements (posting [move 21 41 Shipment (-2), move 22 41 Shipment (-1)]) shop
    = Inr (Posted [1000, 1001] bals, d')"
  by (simp add: ledger_eval posting_def move_def)

lemma sale_short: "\<exists>sfs d'. postMovements (posting [move 21 41 Shipment (-7)]) shop
    = Inr (Insufficient sfs, d')"
  by (simp add: ledger_eval posting_def move_def)

section \<open>Properties\<close>

text \<open>
  C20: An accepted posting does exactly what its movements say. Every balance of the business
  moves by the sum of the movements at its item and location and no other balance moves, no
  reserved figure changes, the ledger grows at its end by one entry per movement with the
  movement's kind and quantity and the returned identifiers, and no other table is touched.
\<close>

theorem posting_exact:
  assumes "postMovements input d = Inr (Posted ids bals, d')"
  shows "(\<forall>b i l. on_hand_at d' (b, i, l) = on_hand_at d (b, i, l) + (if b = poBusiness input
      then \<Sum>m \<leftarrow> filter (\<lambda>m. mvItem m = i \<and> mvLocation m = l) (poMovements input). mvDelta m else 0))
    \<and> reserved_at d' = reserved_at d
    \<and> (\<exists>new. dbLedger d' = dbLedger d @ new \<and> map leId new = ids
      \<and> map (\<lambda>e. (leItem e, leLocation e, leKind e, leDelta e, leReversalOf e)) new
        = map (\<lambda>m. (mvItem m, mvLocation m, mvKind m, mvDelta m, mvReversalOf m)) (poMovements input))
    \<and> same_but_stock d d'"
proof (intro conjI allI)
  note e = postMovements_posted [OF assms, unfolded posted_effect_def Let_def]
  have "(target_of m = BalanceTarget i l) = (mvItem m = i \<and> mvLocation m = l)" for m i l
    by (simp add: target_of_def)
  with e show "on_hand_at d' (b, i, l) = on_hand_at d (b, i, l) + (if b = poBusiness input
      then \<Sum>m \<leftarrow> filter (\<lambda>m. mvItem m = i \<and> mvLocation m = l) (poMovements input). mvDelta m else 0)" for b i l
    by (simp add: net_at_def net_of_def)
  have ids: "map leId (entries_from input ms n now) = [n ..< n + length ms]"
    and cols: "map (\<lambda>e. (leItem e, leLocation e, leKind e, leDelta e, leReversalOf e)) (entries_from input ms n now)
        = map (\<lambda>m. (mvItem m, mvLocation m, mvKind m, mvDelta m, mvReversalOf m)) ms" for ms n now
    by (induction ms arbitrary: n) (auto simp: entry_of_def upt_conv_Cons simp del: upt_Suc)
  show "\<exists>new. dbLedger d' = dbLedger d @ new \<and> map leId new = ids
      \<and> map (\<lambda>e. (leItem e, leLocation e, leKind e, leDelta e, leReversalOf e)) new
        = map (\<lambda>m. (mvItem m, mvLocation m, mvKind m, mvDelta m, mvReversalOf m)) (poMovements input)"
    using e ids cols by blast
qed (use postMovements_posted [OF assms] in \<open>auto simp: posted_effect_def Let_def\<close>)

theorem posting_exact_witness:
  "\<exists>bals d'. postMovements (posting [move 21 41 Shipment (-2), move 22 41 Shipment (-1)]) shop
      = Inr (Posted [1000, 1001] bals, d')
    \<and> on_hand_at d' (1, 21, 41) = on_hand_at shop (1, 21, 41) - 2"
proof -
  obtain bals d' where p: "postMovements (posting [move 21 41 Shipment (-2), move 22 41 Shipment (-1)]) shop
      = Inr (Posted [1000, 1001] bals, d')" using sale_posts by blast
  from posting_exact [OF p] have "on_hand_at d' (1, 21, 41) = on_hand_at shop (1, 21, 41) - 2"
    by (auto simp: posting_def move_def)
  with p show ?thesis by blast
qed

text \<open>
  A posting that is not accepted moves nothing. Whatever the refusal, no figure on hand or
  reserved, no ledger entry and no other table differs afterwards; and if the transaction around
  it discards the attempt, the database is the one it started from.
\<close>

theorem posting_refused_moves_nothing:
  assumes "postMovements input d = Inr (res, d')" and "\<not> posted_result res"
  shows "on_hand_at d' = on_hand_at d \<and> reserved_at d' = reserved_at d
    \<and> dbLedger d' = dbLedger d \<and> same_but_stock d d'
    \<and> transactionally (\<lambda>s. bindR (postMovements input s) (\<lambda>(r, s'). Inr (posted_result r, r, s'))) d
      = Inr (res, d)"
proof (intro conjI)
  have e: "ensured d d'" using assms by (rule postMovements_refused)
  then show "on_hand_at d' = on_hand_at d" "reserved_at d' = reserved_at d" by (simp_all add: ensured_def)
  show "dbLedger d' = dbLedger d" "same_but_stock d d'" using ensured_fields [OF e] by simp_all
  show "transactionally (\<lambda>s. bindR (postMovements input s) (\<lambda>(r, s'). Inr (posted_result r, r, s'))) d
      = Inr (res, d)"
    using assms by (simp add: transactionally_def)
qed

theorem posting_refused_moves_nothing_witness:
  "\<exists>sfs d'. postMovements (posting [move 21 41 Shipment (-7)]) shop = Inr (Insufficient sfs, d')
    \<and> on_hand_at d' = on_hand_at shop \<and> dbLedger d' = dbLedger shop"
proof -
  obtain sfs d' where p: "postMovements (posting [move 21 41 Shipment (-7)]) shop = Inr (Insufficient sfs, d')"
    using sale_short by blast
  from p posting_refused_moves_nothing [OF p] show ?thesis by auto
qed

text \<open>
  A shortage is reported exactly. When a posting answers \<open>insufficient\<close>, the shortfalls
  are, once each and in lock order, the targets whose on-hand units would go below zero; each
  names what is there, what was asked for and the positive number of units missing.
\<close>

theorem insufficient_exact:
  assumes "postMovements input d = Inr (Insufficient sfs, d')"
  shows "sfs \<noteq> []
    \<and> map (\<lambda>s. BalanceTarget (sfItem s) (sfLocation s)) sfs
      = filter (\<lambda>t. on_hand_at d (poBusiness input, tgItem t, tgLocation t)
            + (\<Sum>m \<leftarrow> filter (\<lambda>m. target_of m = t) (poMovements input). mvDelta m) < 0)
          (lockOrder (map target_of (poMovements input)))
    \<and> (\<forall>s \<in> set sfs. 0 < sfShort s \<and> sfShort s = sfRequested s - sfOnHand s
      \<and> sfOnHand s = on_hand_at d (poBusiness input, sfItem s, sfLocation s))"
  using assms by (auto elim!: postMovements_cases simp: o_def key_in_def net_of_def)

theorem insufficient_exact_witness:
  "\<exists>sfs d'. postMovements (posting [move 21 41 Shipment (-7)]) shop = Inr (Insufficient sfs, d')
    \<and> sfs \<noteq> [] \<and> (\<forall>s \<in> set sfs. 0 < sfShort s)"
proof -
  obtain sfs d' where p: "postMovements (posting [move 21 41 Shipment (-7)]) shop = Inr (Insufficient sfs, d')"
    using sale_short by blast
  from p insufficient_exact [OF p] show ?thesis by auto
qed

text \<open>
  C21: Postings keep the stock sound. If every balance row satisfies its constraints and equals
  the sum of the ledger entries at its key, then so does every row after any posting, whatever
  it answered; in particular units on hand never go below the units reserved, nor below zero.
\<close>

theorem posting_keeps_stock_sound:
  assumes "postMovements input d = Inr (res, d')" and "stock_good d"
  shows "stock_good d' \<and> on_hand_at d' k = ledger_sum (dbLedger d') k
    \<and> 0 \<le> reserved_at d' k \<and> reserved_at d' k \<le> on_hand_at d' k"
proof -
  have good: "stock_good d'" using assms by (rule stock.post_good)
  moreover have "0 \<le> reserved_at d' k \<and> reserved_at d' k \<le> on_hand_at d' k"
    using good by (intro reserved_within_on_hand) (simp add: stock_good_def)
  ultimately show ?thesis by (simp add: stock_good_def explained_def)
qed

theorem posting_keeps_stock_sound_witness:
  "\<exists>res d'. postMovements (posting [move 21 41 Shipment (-2), move 22 41 Shipment (-1)]) shop = Inr (res, d')
    \<and> stock_good shop \<and> stock_good d'"
  using sale_posts shop_good posting_keeps_stock_sound by blast

text \<open>
  A covered posting is accepted. If the movements are valid, refer to stocked items and
  locations of the business, and leave at least the reserved units and at most the column's
  range at every target, then the posting returns, and it returns \<open>posted\<close>.
\<close>

theorem covered_posting_accepted:
  assumes "balances_ok d" and "covered d input"
  shows "\<exists>ids bals d'. postMovements input d = Inr (Posted ids bals, d') \<and> balances_ok d'
    \<and> length ids = length (poMovements input)"
  using covered_posted [OF assms] assms(1)
  by (fastforce dest: postMovements_posted simp: posted_effect_def Let_def)

theorem covered_posting_accepted_witness:
  "\<exists>ids bals d'. postMovements (posting [move 21 41 Shipment (-6)]) shop = Inr (Posted ids bals, d')
    \<and> balances_ok d'"
proof -
  have "covered shop (posting [move 21 41 Shipment (-6)])"
    by (simp add: covered_def movement_refs_def posting_def move_def is_safe_integer_def Let_def
        item_kind_in_def location_in_def int4_def opt_in_def shop_def empty_db_def key_in_def
        target_of_def on_hand_at_def reserved_at_def find_balance_def balance_key_def)
  with shop_good show ?thesis
    using covered_posting_accepted by (fastforce simp: stock_good_def)
qed

text \<open>
  The refusal "the item or location does not belong to this business" is never answered:
  by the time the locked rows are compared with the targets, either every target's row exists or
  creating it has already raised a foreign-key violation.
\<close>

theorem posting_never_answers_foreign:
  "postMovements input d \<noteq> Inr (Invalid ''the item or location does not belong to this business'', d')"
proof
  assume p: "postMovements input d = Inr (Invalid ''the item or location does not belong to this business'', d')"
  have "check_movements ms \<noteq> Some ''the item or location does not belong to this business''" for ms
    by (induction ms) auto
  with p show False
    by (cases rule: postMovements_cases) auto
qed

text \<open>
  Postings cannot deadlock on balance rows. However many transactions of one business lock
  the rows of their movements one at a time in \<open>lockOrder\<close>, and wherever each has got to, no
  chain of one waiting for a row the next one holds ever returns to where it started; and every
  row a posting names is locked, once.
\<close>

theorem lock_order_no_deadlock:
  "\<not> waits_for\<^sup>+\<^sup>+ p p \<and> set (lockOrder ts) = set ts \<and> distinct (lockOrder ts)"
  using locks.no_cycle by (simp_all add: waits_for_locks lockOrder_facts)

text \<open>
  The timeline is the newest history of one item. What \<open>readTimeline\<close> returns is ordered by
  the time of the event and then of its recording, newest first, holds only entries of that
  business and item, and is cut at the limit only: when it is shorter than the limit, no entry of
  the item is missing.
\<close>

theorem timeline_newest_first:
  "sorted_wrt (\<lambda>x y. leOccurredAt y < leOccurredAt x
      \<or> leOccurredAt y = leOccurredAt x \<and> leRecordedAt y \<le> leRecordedAt x) (readTimeline d b i limit)
  \<and> (\<forall>e \<in> set (readTimeline d b i limit). e \<in> set (dbLedger d) \<and> leBusiness e = b \<and> leItem e = i)
  \<and> (length (readTimeline d b i limit) < (case limit of None \<Rightarrow> 100 | Some n \<Rightarrow> n)
    \<longrightarrow> set (readTimeline d b i limit) = {e \<in> set (dbLedger d). leBusiness e = b \<and> leItem e = i})"
proof (intro conjI)
  have le: "newest_first = (\<lambda>x y. leOccurredAt y < leOccurredAt x
      \<or> leOccurredAt y = leOccurredAt x \<and> leRecordedAt y \<le> leRecordedAt x)"
    by (auto simp: fun_eq_iff newest_first_def later_entry_def)
  show "sorted_wrt (\<lambda>x y. leOccurredAt y < leOccurredAt x
      \<or> leOccurredAt y = leOccurredAt x \<and> leRecordedAt y \<le> leRecordedAt x) (readTimeline d b i limit)"
    unfolding le [symmetric] readTimeline_def by (intro sorted_wrt_take timeline.sorted_sort_by)
  show "\<forall>e \<in> set (readTimeline d b i limit). e \<in> set (dbLedger d) \<and> leBusiness e = b \<and> leItem e = i"
    by (auto simp: readTimeline_def dest!: in_set_takeD)
  show "length (readTimeline d b i limit) < (case limit of None \<Rightarrow> 100 | Some n \<Rightarrow> n)
    \<longrightarrow> set (readTimeline d b i limit) = {e \<in> set (dbLedger d). leBusiness e = b \<and> leItem e = i}"
    by (auto simp: readTimeline_def min_def not_le split: if_splits)
qed

theorem timeline_newest_first_witness:
  "length (readTimeline shop 1 21 None) = 2
    \<and> set (readTimeline shop 1 21 None) = {e \<in> set (dbLedger shop). leBusiness e = 1 \<and> leItem e = 21}"
proof -
  have two: "length (readTimeline shop 1 21 None) = 2" by code_simp
  then have "length (readTimeline shop 1 21 None) < (case None of None \<Rightarrow> 100 | Some n \<Rightarrow> n)"
    by (simp only: option.case)
  with two timeline_newest_first [of shop 1 21 None] show ?thesis by blast
qed

end
