(* ===== verification/Adjustments.thy ===== *)
theory Adjustments
  imports Ledger
begin

text \<open>
  \<^verbatim>\<open>packages/inventory/src/adjustments.ts\<close>: manual adjustments (an absolute figure or a signed
  change), transfers between two locations, and reversals of ledger entries. Each applies inside
  \<open>transactionally\<close>, so an answer that is not kept leaves the database as it was.
\<close>

datatype quantity_change = Absolute int | Delta int

record adjustment_input =
  ajBusiness :: uuid
  ajItem :: uuid
  ajLocation :: uuid
  ajChange :: quantity_change
  ajReason :: string
  ajActor :: "uuid option"
  ajOccurredAt :: "instant option"

record adjustment_preview =
  pvItem :: uuid
  pvSku :: string
  pvLocation :: uuid
  pvLocationCode :: string
  pvOnHand :: int
  pvReserved :: int
  pvResultingOnHand :: int
  pvDelta :: int
  pvUnchanged :: bool
  pvShortfall :: "int option"

datatype preview_result = Previewed adjustment_preview | PreviewNotFound | PreviewInvalid string

datatype adjustment_result =
    Adjusted uuid int
  | Unchanged int
  | AdjustmentInsufficient "shortfall list"
  | AdjustmentInvalid string

datatype transfer_result =
    Transferred "uuid list"
  | TransferInsufficient "shortfall list"
  | TransferInvalid string

datatype reversal_result =
    Reversed uuid int
  | AlreadyReversed uuid
  | ReversalInsufficient "shortfall list"
  | ReversalNotFound
  | ReversalInvalid string

fun validateChange :: "quantity_change \<Rightarrow> string option" where
  "validateChange (Absolute q) =
     (if is_safe_integer q \<and> q \<ge> 0 then None
      else Some ''an absolute quantity is a whole number of units, and never negative'')"
| "validateChange (Delta n) =
     (if is_safe_integer n then None else Some ''a signed change is a whole number of units'')"

fun deltaFor :: "quantity_change \<Rightarrow> int \<Rightarrow> int" where
  "deltaFor (Absolute q) onHand = q - onHand"
| "deltaFor (Delta n) onHand = n"

text \<open>The item and the location a preview joins: both of the business, neither deleted.\<close>

definition live_item :: "db \<Rightarrow> uuid \<Rightarrow> uuid \<Rightarrow> item_row option" where
  "live_item d b i =
     List.find (\<lambda>r. itBusiness r = b \<and> itId r = i \<and> itDeletedAt r = None) (dbItems d)"

definition live_location :: "db \<Rightarrow> uuid \<Rightarrow> uuid \<Rightarrow> location_row option" where
  "live_location d b l =
     List.find (\<lambda>r. loBusiness r = b \<and> loId r = l \<and> loDeletedAt r = None) (dbLocations d)"

definition previewAdjustment :: "adjustment_input \<Rightarrow> db \<Rightarrow> preview_result" where
  "previewAdjustment input d =
     (case validateChange (ajChange input) of
        Some reason \<Rightarrow> PreviewInvalid reason
      | None \<Rightarrow>
          (case (live_item d (ajBusiness input) (ajItem input),
                 live_location d (ajBusiness input) (ajLocation input)) of
             (Some item, Some loc) \<Rightarrow>
               let row = find_balance d (ajBusiness input, ajItem input, ajLocation input);
                   onHand = (case row of None \<Rightarrow> 0 | Some r \<Rightarrow> baOnHand r);
                   reserved = (case row of None \<Rightarrow> 0 | Some r \<Rightarrow> baReserved r);
                   delta = deltaFor (ajChange input) onHand;
                   resulting = onHand + delta
               in Previewed \<lparr>pvItem = ajItem input, pvSku = itSku item,
                    pvLocation = ajLocation input, pvLocationCode = loCode loc,
                    pvOnHand = onHand, pvReserved = reserved,
                    pvResultingOnHand = max 0 resulting, pvDelta = delta,
                    pvUnchanged = (delta = 0),
                    pvShortfall = (if resulting < 0 then Some (- resulting) else None)\<rparr>
           | _ \<Rightarrow> PreviewNotFound))"

text \<open>\<open>singleEntry\<close>: the one entry and balance of a posting that wrote exactly one.\<close>

fun singleEntry :: "uuid list \<Rightarrow> resulting_balance list \<Rightarrow> exn + uuid \<times> int" where
  "singleEntry (e # _) (b # _) = Inr (e, rbOnHand b)"
| "singleEntry _ _ = Inl (PlainError ''a single-movement posting returned no entry'')"

definition adjust_work :: "adjustment_input \<Rightarrow> adjustment_result work" where
  "adjust_work input d =
     (let target = BalanceTarget (ajItem input) (ajLocation input);
          existing = lockBalances d (ajBusiness input) [target];
          onHand = (case existing target of None \<Rightarrow> 0 | Some (h, _) \<Rightarrow> h);
          delta = deltaFor (ajChange input) onHand
      in if delta = 0 then Inr (False, Unchanged onHand, d)
         else bindR (postMovements \<lparr>poBusiness = ajBusiness input,
                poMovements = [\<lparr>mvItem = ajItem input, mvLocation = ajLocation input,
                  mvKind = Adjustment, mvDelta = delta, mvReason = Some (trim (ajReason input)),
                  mvReversalOf = None\<rparr>],
                poActor = ajActor input, poCorrelation = None,
                poOccurredAt = ajOccurredAt input\<rparr> d) (\<lambda>(posted, d').
              case posted of
                Posted ids bals \<Rightarrow>
                  bindR (singleEntry ids bals) (\<lambda>(e, h). Inr (True, Adjusted e h, d'))
              | Insufficient sfs \<Rightarrow> Inr (False, AdjustmentInsufficient sfs, d')
              | Invalid reason \<Rightarrow> Inr (False, AdjustmentInvalid reason, d')))"

definition applyAdjustment :: "adjustment_input \<Rightarrow> db \<Rightarrow> exn + adjustment_result \<times> db" where
  "applyAdjustment input d =
     (case validateChange (ajChange input) of
        Some reason \<Rightarrow> Inr (AdjustmentInvalid reason, d)
      | None \<Rightarrow>
          if trim (ajReason input) = []
          then Inr (AdjustmentInvalid ''an adjustment needs a stated reason'', d)
          else transactionally (adjust_work input) d)"

record transfer_input =
  trBusiness :: uuid
  trItem :: uuid
  trFrom :: uuid
  trTo :: uuid
  trQuantity :: int
  trReason :: "string option"
  trActor :: "uuid option"
  trOccurredAt :: "instant option"

definition transfer_posting :: "transfer_input \<Rightarrow> uuid \<Rightarrow> posting_input" where
  "transfer_posting input correlation =
     \<lparr>poBusiness = trBusiness input,
      poMovements = [
        \<lparr>mvItem = trItem input, mvLocation = trFrom input, mvKind = TransferOut,
         mvDelta = - trQuantity input, mvReason = map_option trim (trReason input),
         mvReversalOf = None\<rparr>,
        \<lparr>mvItem = trItem input, mvLocation = trTo input, mvKind = TransferIn,
         mvDelta = trQuantity input, mvReason = map_option trim (trReason input),
         mvReversalOf = None\<rparr>],
      poActor = trActor input, poCorrelation = Some correlation,
      poOccurredAt = trOccurredAt input\<rparr>"

definition transfer_work :: "transfer_input \<Rightarrow> transfer_result work" where
  "transfer_work input d =
     (let (correlation, d1) = take_uuid d
      in bindR (postMovements (transfer_posting input correlation) d1) (\<lambda>(posted, d').
         case posted of
           Posted ids bals \<Rightarrow> Inr (True, Transferred ids, d')
         | Insufficient sfs \<Rightarrow> Inr (False, TransferInsufficient sfs, d')
         | Invalid reason \<Rightarrow> Inr (False, TransferInvalid reason, d')))"

definition transferStock :: "transfer_input \<Rightarrow> db \<Rightarrow> exn + transfer_result \<times> db" where
  "transferStock input d =
     (if \<not> is_safe_integer (trQuantity input) \<or> trQuantity input \<le> 0
      then Inr (TransferInvalid ''a transfer moves a whole positive number of units'', d)
      else if trFrom input = trTo input
      then Inr (TransferInvalid ''a transfer needs two different locations'', d)
      else transactionally (transfer_work input) d)"

record reversal_input =
  rvBusiness :: uuid
  rvEntry :: uuid
  rvReason :: string
  rvActor :: "uuid option"
  rvOccurredAt :: "instant option"

definition find_entry :: "db \<Rightarrow> uuid \<Rightarrow> uuid \<Rightarrow> ledger_row option" where
  "find_entry d b e = List.find (\<lambda>r. leBusiness r = b \<and> leId r = e) (dbLedger d)"

definition find_reversal :: "db \<Rightarrow> uuid \<Rightarrow> uuid \<Rightarrow> ledger_row option" where
  "find_reversal d b e = List.find (\<lambda>r. leBusiness r = b \<and> leReversalOf r = Some e) (dbLedger d)"

definition reversal_posting :: "reversal_input \<Rightarrow> ledger_row \<Rightarrow> posting_input" where
  "reversal_posting input original =
     \<lparr>poBusiness = rvBusiness input,
      poMovements = [\<lparr>mvItem = leItem original, mvLocation = leLocation original,
        mvKind = Reversal, mvDelta = - leDelta original, mvReason = Some (trim (rvReason input)),
        mvReversalOf = Some (rvEntry input)\<rparr>],
      poActor = rvActor input, poCorrelation = None, poOccurredAt = rvOccurredAt input\<rparr>"

definition reverse_work :: "reversal_input \<Rightarrow> reversal_result work" where
  "reverse_work input d =
     (case find_entry d (rvBusiness input) (rvEntry input) of
        None \<Rightarrow> Inr (False, ReversalNotFound, d)
      | Some original \<Rightarrow>
          if leKind original = Reversal
          then Inr (False, ReversalInvalid
            ''a reversal is itself corrected by a new adjustment, not by another reversal'', d)
          else (case find_reversal d (rvBusiness input) (rvEntry input) of
            Some existing \<Rightarrow> Inr (False, AlreadyReversed (leId existing), d)
          | None \<Rightarrow>
              bindR (postMovements (reversal_posting input original) d) (\<lambda>(posted, d').
              case posted of
                Posted ids bals \<Rightarrow>
                  bindR (singleEntry ids bals) (\<lambda>(e, h). Inr (True, Reversed e h, d'))
              | Insufficient sfs \<Rightarrow> Inr (False, ReversalInsufficient sfs, d')
              | Invalid reason \<Rightarrow> Inr (False, ReversalInvalid reason, d'))))"

definition reverseEntry :: "reversal_input \<Rightarrow> db \<Rightarrow> exn + reversal_result \<times> db" where
  "reverseEntry input d =
     (if trim (rvReason input) = []
      then Inr (ReversalInvalid ''a reversal needs a stated reason'', d)
      else transactionally (reverse_work input) d)"

section \<open>Single-movement postings\<close>

lemma lockOrder_single [simp]: "lockOrder [t] = [t]"
  by (simp add: lockOrder_def set_of_def set_add_def)

lemma single_posted:
  assumes "postMovements input d = Inr (Posted ids bals, d')" and "poMovements input = [m]"
  shows "ids = [dbNextUuid d]"
    and "dbLedger d' = dbLedger d @ [entry_of input m (dbNextUuid d) (dbClock d)]"
    and "map rbOnHand bals = [on_hand_at d (poBusiness input, mvItem m, mvLocation m) + mvDelta m]"
    and "on_hand_at d' k = on_hand_at d k
      + (if k = (poBusiness input, mvItem m, mvLocation m) then mvDelta m else 0)"
proof -
  note e = postMovements_posted [OF assms(1), unfolded posted_effect_def Let_def assms(2)]
  show "ids = [dbNextUuid d]"
    "dbLedger d' = dbLedger d @ [entry_of input m (dbNextUuid d) (dbClock d)]" using e by simp_all
  show k: "on_hand_at d' k = on_hand_at d k
      + (if k = (poBusiness input, mvItem m, mvLocation m) then mvDelta m else 0)" for k
    using e by (cases k) (auto simp: net_at_def target_of_def)
  have "bals = map (\<lambda>t. \<lparr>rbItem = tgItem t, rbLocation = tgLocation t,
      rbOnHand = on_hand_at d' (key_in (poBusiness input) t),
      rbReserved = reserved_at d (key_in (poBusiness input) t)\<rparr>) [target_of m]"
    using assms by (auto elim!: postMovements_cases)
  then show "map rbOnHand bals = [on_hand_at d (poBusiness input, mvItem m, mvLocation m) + mvDelta m]"
    by (simp add: k key_in_def target_of_def)
qed

lemma single_short:
  assumes "postMovements input d = Inr (Insufficient sfs, d')" and "poMovements input = [m]"
  shows "map sfShort sfs = [- (on_hand_at d (poBusiness input, mvItem m, mvLocation m) + mvDelta m)]"
    and "on_hand_at d (poBusiness input, mvItem m, mvLocation m) + mvDelta m < 0"
  using assms by (auto elim!: postMovements_cases simp: key_in_def target_of_def split: if_splits)

lemma locked_on_hand:
  "(case lockBalances d b [BalanceTarget i l] (BalanceTarget i l) of None \<Rightarrow> 0 | Some (h, _) \<Rightarrow> h)
     = on_hand_at d (b, i, l)"
  by (auto simp: lockBalances_at on_hand_at_def key_in_def split: option.splits)

text \<open>The posting an adjustment asks for.\<close>

definition adjustment_posting :: "adjustment_input \<Rightarrow> db \<Rightarrow> posting_input" where
  "adjustment_posting input d =
     \<lparr>poBusiness = ajBusiness input,
      poMovements = [\<lparr>mvItem = ajItem input, mvLocation = ajLocation input, mvKind = Adjustment,
        mvDelta = deltaFor (ajChange input) (on_hand_at d (ajBusiness input, ajItem input, ajLocation input)),
        mvReason = Some (trim (ajReason input)), mvReversalOf = None\<rparr>],
      poActor = ajActor input, poCorrelation = None, poOccurredAt = ajOccurredAt input\<rparr>"

definition adjusted_answer :: "db \<Rightarrow> posting_result \<times> db \<Rightarrow> exn + bool \<times> adjustment_result \<times> db" where
  "adjusted_answer d p =
     (case p of (posted, d') \<Rightarrow> (case posted of
        Posted ids bals \<Rightarrow> bindR (singleEntry ids bals) (\<lambda>(e, h). Inr (True, Adjusted e h, d'))
      | Insufficient sfs \<Rightarrow> Inr (False, AdjustmentInsufficient sfs, d')
      | Invalid reason \<Rightarrow> Inr (False, AdjustmentInvalid reason, d')))"

lemma adjust_work_nothing:
  assumes "deltaFor (ajChange input) (on_hand_at d (ajBusiness input, ajItem input, ajLocation input)) = 0"
  shows "adjust_work input d
    = Inr (False, Unchanged (on_hand_at d (ajBusiness input, ajItem input, ajLocation input)), d)"
  using assms by (simp only: adjust_work_def Let_def locked_on_hand if_True simp_thms)

lemma adjust_work_posting:
  assumes "deltaFor (ajChange input) (on_hand_at d (ajBusiness input, ajItem input, ajLocation input)) \<noteq> 0"
  shows "adjust_work input d = bindR (postMovements (adjustment_posting input d) d) (adjusted_answer d)"
  using assms
  by (simp only: adjust_work_def Let_def locked_on_hand adjustment_posting_def adjusted_answer_def [abs_def]
      if_False simp_thms)

lemma applyAdjustment_cases:
  assumes "applyAdjustment input d = Inr (res, d')"
  obtains
    (invalid) reason where "res = AdjustmentInvalid reason" "d' = d"
  | (unchanged) "res = Unchanged (on_hand_at d (ajBusiness input, ajItem input, ajLocation input))"
      "deltaFor (ajChange input) (on_hand_at d (ajBusiness input, ajItem input, ajLocation input)) = 0"
      "d' = d"
  | (short) sfs s where "res = AdjustmentInsufficient sfs" "d' = d"
      "postMovements (adjustment_posting input d) d = Inr (Insufficient sfs, s)"
      "deltaFor (ajChange input) (on_hand_at d (ajBusiness input, ajItem input, ajLocation input)) \<noteq> 0"
  | (adjusted) e h bals where "res = Adjusted e h"
      "postMovements (adjustment_posting input d) d = Inr (Posted [e] bals, d')" "map rbOnHand bals = [h]"
      "deltaFor (ajChange input) (on_hand_at d (ajBusiness input, ajItem input, ajLocation input)) \<noteq> 0"
proof (cases "validateChange (ajChange input) \<noteq> None \<or> trim (ajReason input) = []")
  case True
  with assms invalid show thesis by (auto simp: applyAdjustment_def split: option.splits)
next
  case False
  let ?h = "on_hand_at d (ajBusiness input, ajItem input, ajLocation input)"
  from False assms have t: "transactionally (adjust_work input) d = Inr (res, d')"
    by (auto simp: applyAdjustment_def)
  show thesis
  proof (cases "deltaFor (ajChange input) ?h = 0")
    case True
    from t have "res = Unchanged ?h" "d' = d"
      by (auto simp: transactionally_def adjust_work_nothing [OF True])
    with True show thesis by (intro unchanged)
  next
    case False
    with t have "(case bindR (postMovements (adjustment_posting input d) d) (adjusted_answer d)
        of Inl e \<Rightarrow> Inl e | Inr (keep, v, s) \<Rightarrow> Inr (v, if keep then s else d)) = Inr (res, d')"
      by (simp add: transactionally_def adjust_work_posting)
    then obtain posted s where post: "postMovements (adjustment_posting input d) d = Inr (posted, s)"
      and rest: "(case adjusted_answer d (posted, s)
        of Inl e \<Rightarrow> Inl e | Inr (keep, v, s) \<Rightarrow> Inr (v, if keep then s else d)) = Inr (res, d')"
      by (cases "postMovements (adjustment_posting input d) d") auto
    show thesis
    proof (cases posted)
      case (Posted ids bals)
      have "poMovements (adjustment_posting input d) = [hd (poMovements (adjustment_posting input d))]"
        by (simp add: adjustment_posting_def)
      note one = single_posted [OF post [unfolded Posted] this]
      obtain b where b: "bals = [b]" using one(3) by (cases bals) auto
      with one(1) rest Posted have "res = Adjusted (dbNextUuid d) (rbOnHand b)" "d' = s"
        by (auto simp: adjusted_answer_def)
      with post Posted one(1) b False show thesis by (intro adjusted) auto
    qed (use rest invalid short post False in \<open>auto simp: adjusted_answer_def\<close>)
  qed
qed

section \<open>Properties\<close>

definition recount :: "uuid \<Rightarrow> uuid \<Rightarrow> quantity_change \<Rightarrow> adjustment_input" where
  "recount i l c = \<lparr>ajBusiness = 1, ajItem = i, ajLocation = l, ajChange = c, ajReason = ''count'',
     ajActor = Some 9, ajOccurredAt = None\<rparr>"

lemmas adjust_eval = ledger_eval applyAdjustment_def adjust_work_def transactionally_def recount_def
  trim_def js_space_def

lemma recount_adjusts: "\<exists>d'. applyAdjustment (recount 21 41 (Absolute 12)) shop = Inr (Adjusted 1000 12, d')"
  by (simp add: adjust_eval)

text \<open>
  An absolute adjustment leaves exactly the stated figure. When a count of \<open>q\<close> is applied,
  the location holds \<open>q\<close> units of the item afterwards whatever it held when the row was locked,
  no other balance moves, and the entry written is the difference; when the count is already the
  recorded figure, nothing at all is written.
\<close>

theorem absolute_adjustment_exact:
  assumes "applyAdjustment input d = Inr (res, d')" and "ajChange input = Absolute q"
  defines "k \<equiv> (ajBusiness input, ajItem input, ajLocation input)"
  shows "(\<forall>e h. res = Adjusted e h \<longrightarrow> h = q \<and> on_hand_at d' k = q
      \<and> (\<forall>k'. k' \<noteq> k \<longrightarrow> on_hand_at d' k' = on_hand_at d k')
      \<and> (\<exists>x. dbLedger d' = dbLedger d @ [x] \<and> leId x = e \<and> leDelta x = q - on_hand_at d k
            \<and> leReason x = Some (trim (ajReason input))))
    \<and> (\<forall>h. res = Unchanged h \<longrightarrow> h = q \<and> d' = d)"
proof (rule conjI; intro allI impI)
  let ?p = "adjustment_posting input d"
  have one: "poMovements ?p = [hd (poMovements ?p)]" by (simp add: adjustment_posting_def)
  show "h = q \<and> on_hand_at d' k = q
      \<and> (\<forall>k'. k' \<noteq> k \<longrightarrow> on_hand_at d' k' = on_hand_at d k')
      \<and> (\<exists>x. dbLedger d' = dbLedger d @ [x] \<and> leId x = e \<and> leDelta x = q - on_hand_at d k
            \<and> leReason x = Some (trim (ajReason input)))" if "res = Adjusted e h" for e h
    using assms(1)
  proof (cases rule: applyAdjustment_cases)
    case (adjusted e' h' bals)
    note s = single_posted [OF adjusted(2) one]
    from adjusted(3) s(3) s(1) that adjusted(1) assms(2) have "h = q" "e = dbNextUuid d"
      by (simp_all add: adjustment_posting_def)
    with s(2) s(4) assms(2) show ?thesis
      by (auto simp: adjustment_posting_def k_def entry_of_def)
  qed (use that in auto)
  show "h = q \<and> d' = d" if "res = Unchanged h" for h
    using assms(1) by (cases rule: applyAdjustment_cases) (use that assms(2) in auto)
qed

theorem absolute_adjustment_exact_witness:
  "\<exists>d'. applyAdjustment (recount 21 41 (Absolute 12)) shop = Inr (Adjusted 1000 12, d')
    \<and> on_hand_at d' (1, 21, 41) = 12"
proof -
  obtain d' where a: "applyAdjustment (recount 21 41 (Absolute 12)) shop = Inr (Adjusted 1000 12, d')"
    using recount_adjusts by blast
  have c: "ajChange (recount 21 41 (Absolute 12)) = Absolute 12" by (simp add: recount_def)
  from absolute_adjustment_exact [OF a c] have "on_hand_at d' (1, 21, 41) = 12"
    by (simp add: recount_def)
  with a show ?thesis by blast
qed

text \<open>
  The preview and the adjustment agree. Applied to the database the preview was computed
  from, an adjustment that is accepted ends at the previewed figure, one that writes nothing was
  previewed as unchanged, and one refused for want of stock is short by the previewed shortfall.
\<close>

theorem preview_agrees_with_apply:
  assumes "previewAdjustment input d = Previewed pv" and "applyAdjustment input d = Inr (res, d')"
  shows "(\<forall>e h. res = Adjusted e h \<longrightarrow> h = pvResultingOnHand pv \<and> pvShortfall pv = None \<and> \<not> pvUnchanged pv)
    \<and> (\<forall>h. res = Unchanged h \<longrightarrow> pvUnchanged pv \<and> h = pvOnHand pv)
    \<and> (\<forall>sfs. res = AdjustmentInsufficient sfs
          \<longrightarrow> map sfShort sfs = [the (pvShortfall pv)] \<and> pvShortfall pv \<noteq> None)"
proof (rule conjI; (rule conjI)?; intro allI impI)
  let ?k = "(ajBusiness input, ajItem input, ajLocation input)" and ?p = "adjustment_posting input d"
  let ?delta = "deltaFor (ajChange input) (on_hand_at d ?k)"
  have pv: "pvOnHand pv = on_hand_at d ?k" "pvResultingOnHand pv = max 0 (on_hand_at d ?k + ?delta)"
    "pvUnchanged pv = (?delta = 0)"
    "pvShortfall pv = (if on_hand_at d ?k + ?delta < 0 then Some (- (on_hand_at d ?k + ?delta)) else None)"
    using assms(1) by (auto simp: previewAdjustment_def on_hand_at_def Let_def split: option.splits)
  have one: "poMovements ?p = [hd (poMovements ?p)]" by (simp add: adjustment_posting_def)
  show "h = pvResultingOnHand pv \<and> pvShortfall pv = None \<and> \<not> pvUnchanged pv" if "res = Adjusted e h" for e h
    using assms(2)
  proof (cases rule: applyAdjustment_cases)
    case (adjusted e' h' bals)
    note s = single_posted [OF adjusted(2) one]
    have h: "h = on_hand_at d ?k + ?delta"
      using adjusted(1,3) s(3) that by (simp add: adjustment_posting_def)
    have "0 \<le> h"
      using posted_bounds(1) [OF adjusted(2), of "hd (poMovements ?p)"] s(4) h
      by (simp add: adjustment_posting_def)
    with h pv adjusted(4) show ?thesis by simp
  qed (use that in auto)
  show "pvUnchanged pv \<and> h = pvOnHand pv" if "res = Unchanged h" for h
    using assms(2) by (cases rule: applyAdjustment_cases) (use that pv in auto)
  show "map sfShort sfs = [the (pvShortfall pv)] \<and> pvShortfall pv \<noteq> None"
    if "res = AdjustmentInsufficient sfs" for sfs
    using assms(2)
  proof (cases rule: applyAdjustment_cases)
    case (short sfs' s)
    from single_short [OF short(3) one] short(1) that pv show ?thesis
      by (simp add: adjustment_posting_def)
  qed (use that in auto)
qed

theorem preview_agrees_with_apply_witness:
  "\<exists>pv d'. previewAdjustment (recount 21 41 (Absolute 12)) shop = Previewed pv
    \<and> applyAdjustment (recount 21 41 (Absolute 12)) shop = Inr (Adjusted 1000 12, d')
    \<and> pvResultingOnHand pv = 12"
proof -
  obtain d' where a: "applyAdjustment (recount 21 41 (Absolute 12)) shop = Inr (Adjusted 1000 12, d')"
    using recount_adjusts by blast
  obtain pv where pv: "previewAdjustment (recount 21 41 (Absolute 12)) shop = Previewed pv"
    by (simp add: previewAdjustment_def adjust_eval live_item_def live_location_def)
  from a pv preview_agrees_with_apply [OF pv a] show ?thesis by auto
qed

section \<open>Transfers\<close>

lemma transferStock_cases:
  assumes "transferStock input d = Inr (res, d')"
  obtains
    (refused) "\<forall>ids. res \<noteq> Transferred ids" "d' = d"
  | (moved) ids bals where "res = Transferred ids"
      "postMovements (transfer_posting input (dbNextUuid d)) (d\<lparr>dbNextUuid := Suc (dbNextUuid d)\<rparr>)
        = Inr (Posted ids bals, d')"
      "0 < trQuantity input" "trFrom input \<noteq> trTo input"
proof (cases "\<not> is_safe_integer (trQuantity input) \<or> trQuantity input \<le> 0 \<or> trFrom input = trTo input")
  case True
  with assms refused show thesis by (auto simp: transferStock_def split: if_splits)
next
  case False
  let ?d1 = "d\<lparr>dbNextUuid := Suc (dbNextUuid d)\<rparr>"
  from False assms obtain posted s where
    post: "postMovements (transfer_posting input (dbNextUuid d)) ?d1 = Inr (posted, s)"
    and rest: "(res, d') = (case posted of Posted ids bals \<Rightarrow> (Transferred ids, s)
      | Insufficient sfs \<Rightarrow> (TransferInsufficient sfs, d) | Invalid reason \<Rightarrow> (TransferInvalid reason, d))"
    by (cases "postMovements (transfer_posting input (dbNextUuid d)) ?d1")
      (auto simp: transferStock_def transactionally_def transfer_work_def take_uuid_def
        split: posting_result.splits)
  show thesis using post rest moved refused False by (cases posted) auto
qed

lemma on_hand_at_uuid [simp]: "on_hand_at (d\<lparr>dbNextUuid := n\<rparr>) = on_hand_at d"
  by (simp add: fun_eq_iff on_hand_at_def find_balance_def)

lemma stock_good_uuid [simp]: "stock_good (d\<lparr>dbNextUuid := n\<rparr>) = stock_good d"
  by (simp add: stock_good_def explained_def balances_ok_def)

text \<open>
  A transfer conserves stock. When units are transferred, the source loses exactly the
  quantity, the destination gains it, every other balance and so the item's total are unchanged,
  and the two entries written, one out and one in, carry one common correlation; when it is
  refused for any reason, the database is exactly what it was.
\<close>

theorem transfer_conserves:
  assumes "transferStock input d = Inr (res, d')"
  defines "from \<equiv> (trBusiness input, trItem input, trFrom input)"
    and "to \<equiv> (trBusiness input, trItem input, trTo input)"
  shows "(\<forall>ids. res = Transferred ids \<longrightarrow>
      on_hand_at d' from = on_hand_at d from - trQuantity input
      \<and> on_hand_at d' to = on_hand_at d to + trQuantity input
      \<and> on_hand_at d' from + on_hand_at d' to = on_hand_at d from + on_hand_at d to
      \<and> 0 \<le> on_hand_at d' from
      \<and> (\<forall>k. k \<noteq> from \<and> k \<noteq> to \<longrightarrow> on_hand_at d' k = on_hand_at d k)
      \<and> (\<exists>x y. dbLedger d' = dbLedger d @ [x, y] \<and> ids = [leId x, leId y]
            \<and> leKind x = TransferOut \<and> leKind y = TransferIn
            \<and> leCorrelation x = leCorrelation y \<and> leCorrelation x \<noteq> None))
    \<and> ((\<forall>ids. res \<noteq> Transferred ids) \<longrightarrow> d' = d)"
proof (intro conjI allI impI)
  show "d' = d" if "\<forall>ids. res \<noteq> Transferred ids"
    using assms(1) by (cases rule: transferStock_cases) (use that in auto)
  fix ids
  assume "res = Transferred ids"
  with assms(1) obtain bals where
    post: "postMovements (transfer_posting input (dbNextUuid d)) (d\<lparr>dbNextUuid := Suc (dbNextUuid d)\<rparr>)
        = Inr (Posted ids bals, d')" and ne: "trFrom input \<noteq> trTo input"
    by (auto elim!: transferStock_cases)
  note e = postMovements_posted [OF post, unfolded posted_effect_def Let_def]
  let ?n = "Suc (dbNextUuid d)"
  have k: "on_hand_at d' k = on_hand_at d k
      + (if k = from then - trQuantity input else if k = to then trQuantity input else 0)" for k
    using e ne by (cases k) (auto simp: net_at_def transfer_posting_def target_of_def from_def to_def)
  have "from \<noteq> to" using ne by (simp add: from_def to_def)
  moreover have "0 \<le> on_hand_at d' from"
    using posted_bounds(1) [OF post, of "hd (poMovements (transfer_posting input (dbNextUuid d)))"]
    by (simp add: transfer_posting_def from_def)
  moreover have "\<exists>x y. dbLedger d' = dbLedger d @ [x, y] \<and> ids = [leId x, leId y]
            \<and> leKind x = TransferOut \<and> leKind y = TransferIn
            \<and> leCorrelation x = leCorrelation y \<and> leCorrelation x \<noteq> None"
    using e by (auto simp: transfer_posting_def entry_of_def upt_conv_Cons)
  ultimately show "on_hand_at d' from = on_hand_at d from - trQuantity input"
    and "on_hand_at d' to = on_hand_at d to + trQuantity input"
    and "on_hand_at d' from + on_hand_at d' to = on_hand_at d from + on_hand_at d to"
    and "0 \<le> on_hand_at d' from"
    and "k \<noteq> from \<and> k \<noteq> to \<Longrightarrow> on_hand_at d' k = on_hand_at d k"
    and "\<exists>x y. dbLedger d' = dbLedger d @ [x, y] \<and> ids = [leId x, leId y]
            \<and> leKind x = TransferOut \<and> leKind y = TransferIn
            \<and> leCorrelation x = leCorrelation y \<and> leCorrelation x \<noteq> None" for k
    by (simp_all add: k)
qed

definition restock_back :: transfer_input where
  "restock_back = \<lparr>trBusiness = 1, trItem = 21, trFrom = 41, trTo = 42, trQuantity = 5,
     trReason = None, trActor = Some 9, trOccurredAt = None\<rparr>"

lemma restock_back_moves: "\<exists>d'. transferStock restock_back shop = Inr (Transferred [1001, 1002], d')"
  by (simp add: adjust_eval transferStock_def transfer_work_def restock_back_def transfer_posting_def)

theorem transfer_conserves_witness:
  "\<exists>d'. transferStock restock_back shop = Inr (Transferred [1001, 1002], d')
    \<and> on_hand_at d' (1, 21, 42) = on_hand_at shop (1, 21, 42) + 5"
proof -
  obtain d' where t: "transferStock restock_back shop = Inr (Transferred [1001, 1002], d')"
    using restock_back_moves by blast
  with transfer_conserves [OF t] show ?thesis by (simp add: restock_back_def)
qed

section \<open>Reversals\<close>

lemma reverseEntry_cases:
  assumes "reverseEntry input d = Inr (res, d')"
  obtains
    (refused) "\<forall>e h. res \<noteq> Reversed e h" "d' = d"
  | (reversed) e h bals original where "res = Reversed e h"
      "find_entry d (rvBusiness input) (rvEntry input) = Some original"
      "leKind original \<noteq> Reversal"
      "find_reversal d (rvBusiness input) (rvEntry input) = None"
      "postMovements (reversal_posting input original) d = Inr (Posted [e] bals, d')"
      "map rbOnHand bals = [h]" "trim (rvReason input) \<noteq> []"
proof (cases "trim (rvReason input) = []")
  case True
  with assms refused show thesis by (auto simp: reverseEntry_def)
next
  case False
  with assms have t: "transactionally (reverse_work input) d = Inr (res, d')"
    by (simp add: reverseEntry_def)
  show thesis
  proof (cases "find_entry d (rvBusiness input) (rvEntry input)")
    case None
    with t refused show thesis by (auto simp: transactionally_def reverse_work_def)
  next
    case (Some original)
    show thesis
    proof (cases "leKind original = Reversal
        \<or> find_reversal d (rvBusiness input) (rvEntry input) \<noteq> None")
      case True
      with t Some refused show thesis
        by (auto simp: transactionally_def reverse_work_def split: if_splits)
    next
      case no: False
      with t Some obtain posted s where
        post: "postMovements (reversal_posting input original) d = Inr (posted, s)"
        and rest: "(case (case posted of
                Posted ids bals \<Rightarrow>
                  bindR (singleEntry ids bals) (\<lambda>(e, h). Inr (True, Reversed e h, s))
              | Insufficient sfs \<Rightarrow> Inr (False, ReversalInsufficient sfs, s)
              | Invalid reason \<Rightarrow> Inr (False, ReversalInvalid reason, s))
        of Inl e \<Rightarrow> Inl e | Inr (keep, v, s) \<Rightarrow> Inr (v, if keep then s else d))
        = (Inr (res, d') :: exn + reversal_result \<times> db)"
        by (cases "postMovements (reversal_posting input original) d")
          (auto simp: transactionally_def reverse_work_def)
      show thesis
      proof (cases posted)
        case (Posted ids bals)
        have "poMovements (reversal_posting input original) = [hd (poMovements (reversal_posting input original))]"
          by (simp add: reversal_posting_def)
        note one = single_posted [OF post [unfolded Posted] this]
        obtain b where b: "bals = [b]" using one(3) by (cases bals) auto
        with one(1) rest Posted have "res = Reversed (dbNextUuid d) (rbOnHand b)" "d' = s" by auto
        with post Posted one(1) b no Some False show thesis by (intro reversed) auto
      qed (use rest refused in auto)
    qed
  qed
qed

text \<open>
  A reversal undoes one entry, once. A reversal that is accepted appends a single entry of
  kind reversal that names the original and carries the opposite quantity, so the balance at the
  original's key returns by exactly that much and no other balance moves; the original was not
  itself a reversal and had not been reversed; and reversing it again changes nothing and
  answers with the entry that already did.
\<close>

theorem reversal_undoes_once:
  assumes "reverseEntry input d = Inr (Reversed e h, d')"
  shows "(\<exists>original x. find_entry d (rvBusiness input) (rvEntry input) = Some original
      \<and> leKind original \<noteq> Reversal
      \<and> dbLedger d' = dbLedger d @ [x] \<and> leId x = e \<and> leKind x = Reversal
      \<and> leReversalOf x = Some (rvEntry input) \<and> leDelta x = - leDelta original
      \<and> entry_key x = entry_key original
      \<and> h = on_hand_at d' (entry_key original)
      \<and> (\<forall>k. on_hand_at d' k = on_hand_at d k
            - (if k = entry_key original then leDelta original else 0)))
    \<and> reverseEntry input d' = Inr (AlreadyReversed e, d')"
proof (intro conjI)
  from assms obtain bals original where
    o: "find_entry d (rvBusiness input) (rvEntry input) = Some original" "leKind original \<noteq> Reversal"
    and none: "find_reversal d (rvBusiness input) (rvEntry input) = None"
    and post: "postMovements (reversal_posting input original) d = Inr (Posted [e] bals, d')"
    and h: "map rbOnHand bals = [h]" and reason: "trim (rvReason input) \<noteq> []"
    by (cases rule: reverseEntry_cases) auto
  let ?p = "reversal_posting input original"
  have "poMovements ?p = [hd (poMovements ?p)]" by (simp add: reversal_posting_def)
  note s = single_posted [OF post this]
  have b: "leBusiness original = rvBusiness input"
    using o(1) by (auto simp: find_entry_def find_Some_iff)
  let ?x = "entry_of ?p (hd (poMovements ?p)) (dbNextUuid d) (dbClock d)"
  have x: "leId ?x = e" "leKind ?x = Reversal" "leReversalOf ?x = Some (rvEntry input)"
    "leDelta ?x = - leDelta original" "entry_key ?x = entry_key original" "leBusiness ?x = rvBusiness input"
    using s(1) b by (simp_all add: entry_of_def reversal_posting_def entry_key_def)
  have ledger: "dbLedger d' = dbLedger d @ [?x]" by (rule s(2))
  have k: "on_hand_at d' k = on_hand_at d k - (if k = entry_key original then leDelta original else 0)" for k
    using s(4) [of k] b by (simp add: reversal_posting_def entry_key_def)
  have "h = on_hand_at d' (entry_key original)"
    using s(3) h b by (simp add: k) (simp add: reversal_posting_def entry_key_def)
  with o x ledger k show "\<exists>original x. find_entry d (rvBusiness input) (rvEntry input) = Some original
      \<and> leKind original \<noteq> Reversal
      \<and> dbLedger d' = dbLedger d @ [x] \<and> leId x = e \<and> leKind x = Reversal
      \<and> leReversalOf x = Some (rvEntry input) \<and> leDelta x = - leDelta original
      \<and> entry_key x = entry_key original
      \<and> h = on_hand_at d' (entry_key original)
      \<and> (\<forall>k. on_hand_at d' k = on_hand_at d k
            - (if k = entry_key original then leDelta original else 0))"
    by (intro exI [of _ original] exI [of _ ?x]) auto
  have find: "List.find P (xs @ [y]) = (case List.find P xs of None \<Rightarrow> if P y then Some y else None | Some z \<Rightarrow> Some z)"
    for P :: "ledger_row \<Rightarrow> bool" and xs y by (induction xs) auto
  have "find_entry d' (rvBusiness input) (rvEntry input) = Some original"
    using o(1) by (simp add: find_entry_def ledger find)
  moreover have "find_reversal d' (rvBusiness input) (rvEntry input) = Some ?x"
    using none x by (simp add: find_reversal_def ledger find)
  ultimately show "reverseEntry input d' = Inr (AlreadyReversed e, d')"
    using o(2) x(1) reason by (simp add: reverseEntry_def transactionally_def reverse_work_def)
qed

definition undo_receipt :: reversal_input where
  "undo_receipt = \<lparr>rvBusiness = 1, rvEntry = 102, rvReason = ''miscounted'', rvActor = Some 9,
     rvOccurredAt = None\<rparr>"

lemma undo_receipt_reverses: "\<exists>d'. reverseEntry undo_receipt shop = Inr (Reversed 1000 0, d')"
  by (simp add: adjust_eval reverseEntry_def reverse_work_def undo_receipt_def find_entry_def
      find_reversal_def reversal_posting_def)

theorem reversal_undoes_once_witness:
  "\<exists>d'. reverseEntry undo_receipt shop = Inr (Reversed 1000 0, d')
    \<and> reverseEntry undo_receipt d' = Inr (AlreadyReversed 1000, d')"
  using undo_receipt_reverses reversal_undoes_once by blast

definition archived_shop :: db where
  "archived_shop = shop\<lparr>dbBalances := [hd (dbBalances shop)],
     dbLocations := map (\<lambda>l. if loId l = 42 then l\<lparr>loIsActive := False, loDeletedAt := Some 7\<rparr> else l)
       (dbLocations shop)\<rparr>"

text \<open>
  Nothing stops units from moving into an archived location. There is a database in which
  location 42 is archived, its preview answers \<open>not_found\<close>, and yet a transfer into it is
  accepted and leaves units there.
\<close>

theorem transfer_into_archived_location_accepted:
  "live_location archived_shop 1 42 = None
    \<and> previewAdjustment (recount 21 42 (Absolute 1)) archived_shop = PreviewNotFound
    \<and> on_hand_at archived_shop (1, 21, 42) = 0
    \<and> (case transferStock restock_back archived_shop of
         Inr (Transferred ids, d') \<Rightarrow> on_hand_at d' (1, 21, 42) = 5 | _ \<Rightarrow> False)"
  by code_simp

end
