(* ===== verification/Settings.thy ===== *)
theory Settings
  imports Schema
begin

text \<open>
  \<^verbatim>\<open>packages/inventory/src/settings.ts\<close>: the per-business inventory policy. A business with no
  row is on the defaults; \<open>updateSettings\<close> writes safety stock and splitting, and leaves the
  consumption mode alone.
\<close>

record inventory_settings =
  stBusiness :: uuid
  stSafetyStock :: int
  stMode :: consumption_mode
  stSplit :: bool
  stConfigured :: bool

definition DEFAULT_SAFETY_STOCK :: int where
  "DEFAULT_SAFETY_STOCK = 1"

definition DEFAULT_CONSUMPTION_MODE :: consumption_mode where
  "DEFAULT_CONSUMPTION_MODE = ReserveUntilFulfilled"

definition defaultSettings :: "uuid \<Rightarrow> inventory_settings" where
  "defaultSettings b = \<lparr>stBusiness = b, stSafetyStock = DEFAULT_SAFETY_STOCK,
     stMode = DEFAULT_CONSUMPTION_MODE, stSplit = False, stConfigured = False\<rparr>"

definition readSettings :: "db \<Rightarrow> uuid \<Rightarrow> inventory_settings" where
  "readSettings d b =
     (case lookup_by seBusiness b (dbSettings d) of
        None \<Rightarrow> defaultSettings b
      | Some r \<Rightarrow> \<lparr>stBusiness = b, stSafetyStock = seSafetyStock r, stMode = seMode r,
                   stSplit = seSplit r, stConfigured = True\<rparr>)"

record settings_change =
  scBusiness :: uuid
  scSafetyStock :: "int option"
  scSplit :: "bool option"

datatype settings_update_result = SettingsUpdated inventory_settings | SettingsInvalid string

definition isWholeNonNegative :: "int \<Rightarrow> bool" where
  "isWholeNonNegative n \<longleftrightarrow> is_safe_integer n \<and> n \<ge> 0"

definition updateSettings :: "settings_change \<Rightarrow> db \<Rightarrow> exn + settings_update_result \<times> db" where
  "updateSettings change d =
     (if (case scSafetyStock change of None \<Rightarrow> False | Some n \<Rightarrow> \<not> isWholeNonNegative n)
      then Inr (SettingsInvalid ''default safety stock must be a whole number of units'', d)
      else
        let current = readSettings d (scBusiness change);
            safety = (case scSafetyStock change of None \<Rightarrow> stSafetyStock current | Some n \<Rightarrow> n);
            split = (case scSplit change of None \<Rightarrow> stSplit current | Some b \<Rightarrow> b)
        in bindR (upsert_settings
               \<lparr>seBusiness = scBusiness change, seSafetyStock = safety, seMode = stMode current,
                seSplit = split\<rparr>
               (\<lambda>r. r\<lparr>seSafetyStock := safety, seSplit := split\<rparr>) d) (\<lambda>d'.
           Inr (SettingsUpdated \<lparr>stBusiness = scBusiness change, stSafetyStock = safety,
                  stMode = stMode current, stSplit = split, stConfigured = True\<rparr>, d')))"

section \<open>Reading after a write\<close>

lemma upsert_settings_lookup:
  assumes "upsert_settings r f d = Inr d'" and "\<And>s. seBusiness (f s) = seBusiness s"
  shows "lookup_by seBusiness b (dbSettings d') =
      (if b = seBusiness r
       then Some (case lookup_by seBusiness b (dbSettings d) of None \<Rightarrow> r | Some s \<Rightarrow> f s)
       else lookup_by seBusiness b (dbSettings d))"
    and "d' = d\<lparr>dbSettings := dbSettings d'\<rparr>"
proof -
  have "lookup_by seBusiness b (dbSettings d') =
      (if b = seBusiness r
       then Some (case lookup_by seBusiness b (dbSettings d) of None \<Rightarrow> r | Some s \<Rightarrow> f s)
       else lookup_by seBusiness b (dbSettings d)) \<and> d' = d\<lparr>dbSettings := dbSettings d'\<rparr>"
  proof (cases "list_ex (\<lambda>s. seBusiness s = seBusiness r) (dbSettings d)")
    case True
    then have "lookup_by seBusiness (seBusiness r) (dbSettings d) \<noteq> None"
      by (simp add: settings.lookup_None list_ex_iff image_iff) metis
    with True assms(1) show ?thesis
      by (auto simp: upsert_settings_def result_simps update_checked_Inr settings.lookup_update [OF assms(2)])
  next
    case False
    then have "lookup_by seBusiness (seBusiness r) (dbSettings d) = None"
      by (auto simp: settings.lookup_None list_ex_iff)
    with False assms(1) show ?thesis
      by (auto simp: upsert_settings_def result_simps settings.lookup_append split: option.splits)
  qed
  then show "lookup_by seBusiness b (dbSettings d') =
      (if b = seBusiness r
       then Some (case lookup_by seBusiness b (dbSettings d) of None \<Rightarrow> r | Some s \<Rightarrow> f s)
       else lookup_by seBusiness b (dbSettings d))" "d' = d\<lparr>dbSettings := dbSettings d'\<rparr>"
    by auto
qed

section \<open>Properties\<close>

text \<open>
  Settings read back as they were written. After an accepted update the business reads
  exactly the settings the update answered with: each figure the one given, or the previous one
  where none was given, and the consumption mode what it was; no other business reads anything
  different, and no other table changes.
\<close>

theorem settings_roundtrip:
  assumes "updateSettings change d = Inr (SettingsUpdated s, d')"
  shows "readSettings d' (scBusiness change) = s
    \<and> stSafetyStock s = (case scSafetyStock change of
          None \<Rightarrow> stSafetyStock (readSettings d (scBusiness change)) | Some n \<Rightarrow> n)
    \<and> stMode s = stMode (readSettings d (scBusiness change))
    \<and> (\<forall>b. b \<noteq> scBusiness change \<longrightarrow> readSettings d' b = readSettings d b)
    \<and> d' = d\<lparr>dbSettings := dbSettings d'\<rparr>"
proof (intro conjI allI impI)
  let ?b = "scBusiness change"
  let ?safety = "case scSafetyStock change of None \<Rightarrow> stSafetyStock (readSettings d ?b) | Some n \<Rightarrow> n"
  let ?split = "case scSplit change of None \<Rightarrow> stSplit (readSettings d ?b) | Some v \<Rightarrow> v"
  have up: "upsert_settings \<lparr>seBusiness = ?b, seSafetyStock = ?safety,
      seMode = stMode (readSettings d ?b), seSplit = ?split\<rparr>
      (\<lambda>r. r\<lparr>seSafetyStock := ?safety, seSplit := ?split\<rparr>) d = Inr d'"
    and s: "s = \<lparr>stBusiness = ?b, stSafetyStock = ?safety, stMode = stMode (readSettings d ?b),
      stSplit = ?split, stConfigured = True\<rparr>"
    using assms by (auto simp: updateSettings_def Let_def result_simps split: if_splits)
  note l = upsert_settings_lookup [OF up, simplified]
  show "readSettings d' ?b = s"
    by (simp add: s readSettings_def l(1) split: option.split)
  show "stSafetyStock s = ?safety" "stMode s = stMode (readSettings d ?b)" by (simp_all add: s)
  show "b \<noteq> ?b \<Longrightarrow> readSettings d' b = readSettings d b" for b by (simp add: readSettings_def l(1))
  show "d' = d\<lparr>dbSettings := dbSettings d'\<rparr>" by (rule l(2))
qed

theorem settings_roundtrip_witness:
  "\<exists>s d'. updateSettings \<lparr>scBusiness = 1, scSafetyStock = Some 2, scSplit = None\<rparr> shop
      = Inr (SettingsUpdated s, d')
    \<and> readSettings d' 1 = s \<and> stSafetyStock s = 2 \<and> readSettings d' 5 = readSettings shop 5"
proof -
  obtain s d' where u: "updateSettings \<lparr>scBusiness = 1, scSafetyStock = Some 2, scSplit = None\<rparr> shop
      = Inr (SettingsUpdated s, d')"
    by (simp add: updateSettings_def isWholeNonNegative_def is_safe_integer_def readSettings_def
        upsert_settings_def settings_check_def int4_def shop_def empty_db_def Let_def)
  from u settings_roundtrip [OF u] show ?thesis by auto
qed

end
