(* ===== verification/Locations.thy ===== *)
theory Locations
  imports Settings
begin

text \<open>
  \<^verbatim>\<open>packages/inventory/src/locations.ts\<close>: locations as inventory pools. Creating, changing and
  archiving a location, its two addresses, and the identifier a connection knows it by.
  \<open>lo_before\<close> is the allocation order every reader of locations uses: priority, then code.
\<close>

section \<open>Constraint-checked writes\<close>

definition location_check :: "location_row \<Rightarrow> exn + unit" where
  "location_check r = check_all [
     (int4 (loPriority r), NumericValueOutOfRange),
     (1 \<le> length (btrim (loCode r)) \<and> length (btrim (loCode r)) \<le> 64,
        CheckViolation ''locations_code_shaped''),
     (text_within (loDescription r) 2000, CheckViolation ''locations_description_bounded''),
     (0 \<le> loPriority r \<and> loPriority r \<le> 10000, CheckViolation ''locations_priority_bounded'')]"

definition code_taken :: "db \<Rightarrow> uuid \<Rightarrow> string \<Rightarrow> bool" where
  "code_taken d b code =
     list_ex (\<lambda>r. loBusiness r = b \<and> lower (loCode r) = lower code \<and> loDeletedAt r = None) (dbLocations d)"

definition insert_location :: "location_row \<Rightarrow> db \<Rightarrow> exn + db" where
  "insert_location r d =
     bindR (location_check r) (\<lambda>_.
     bindR (check_all [
       (\<not> code_taken d (loBusiness r) (loCode r), UniqueViolation ''locations_code_unique''),
       (loBusiness r \<in> set (dbBusinesses d), ForeignKeyViolation ''locations_business_id_fkey'')]) (\<lambda>_.
     Inr (d\<lparr>dbLocations := dbLocations d @ [r]\<rparr>)))"

section \<open>Listing\<close>

definition lo_before :: "location_row \<Rightarrow> location_row \<Rightarrow> bool" where
  "lo_before a b \<longleftrightarrow>
     (if loPriority a = loPriority b then str_le (loCode a) (loCode b) else loPriority a < loPriority b)"

interpretation location_order: row_order lo_before
proof
  fix x y show "lo_before x y \<or> lo_before y x"
    using str_le_total by (auto simp: lo_before_def)
next
  fix x y z show "lo_before x y \<Longrightarrow> lo_before y z \<Longrightarrow> lo_before x z"
    by (auto simp: lo_before_def intro: str_le_trans split: if_splits)
qed

definition listLocations :: "db \<Rightarrow> uuid \<Rightarrow> bool \<Rightarrow> location_row list" where
  "listLocations d b activeOnly =
     sort_by lo_before
       (filter (\<lambda>r. loBusiness r = b \<and> loDeletedAt r = None \<and> (activeOnly \<longrightarrow> loIsActive r))
         (dbLocations d))"

section \<open>Creating and changing\<close>

record create_location_input =
  clBusiness :: uuid
  clCode :: string
  clName :: string
  clDescription :: "string option"
  clTimezone :: "string option"
  clPriority :: "int option"

datatype create_location_result = LocationCreated uuid | LocationCodeTaken | LocationInvalid string

definition isPriority :: "int \<Rightarrow> bool" where
  "isPriority n \<longleftrightarrow> is_safe_integer n \<and> n \<ge> 0 \<and> n \<le> 10000"

definition bad_priority :: "int option \<Rightarrow> bool" where
  "bad_priority p = (case p of None \<Rightarrow> False | Some n \<Rightarrow> \<not> isPriority n)"

text \<open>The row \<open>createLocation\<close> inserts, the table's defaults filled in.\<close>

definition new_location :: "create_location_input \<Rightarrow> uuid \<Rightarrow> location_row" where
  "new_location input i =
     \<lparr>loId = i, loBusiness = clBusiness input, loCode = trim (clCode input),
      loName = trim (clName input), loDescription = clDescription input,
      loTimezone = (case clTimezone input of None \<Rightarrow> ''UTC'' | Some z \<Rightarrow> z),
      loPriority = (case clPriority input of None \<Rightarrow> 100 | Some n \<Rightarrow> n),
      loIsActive = True, loDeletedAt = None\<rparr>"

definition createLocation :: "create_location_input \<Rightarrow> db \<Rightarrow> exn + create_location_result \<times> db" where
  "createLocation input d =
     (let code = trim (clCode input); name = trim (clName input)
      in if code = [] \<or> length code > 64
         then Inr (LocationInvalid ''a location code is between 1 and 64 characters'', d)
         else if name = [] then Inr (LocationInvalid ''a location needs a name'', d)
         else if bad_priority (clPriority input)
         then Inr (LocationInvalid ''priority is a whole number between 0 and 10000'', d)
         else let (i, d1) = take_uuid d
              in case insert_location (new_location input i) d1 of
                   Inr d2 \<Rightarrow> Inr (LocationCreated i, d2)
                 | Inl e \<Rightarrow> if e = UniqueViolation ''locations_code_unique''
                           then Inr (LocationCodeTaken, d) else Inl e)"

text \<open>An omitted field is \<open>None\<close>; a description given as null is \<open>Some None\<close>.\<close>

record update_location_input =
  ulBusiness :: uuid
  ulLocation :: uuid
  ulName :: "string option"
  ulDescription :: "string option option"
  ulTimezone :: "string option"
  ulPriority :: "int option"
  ulIsActive :: "bool option"

datatype update_location_result = LocationUpdated | LocationNotFound | LocationUpdateInvalid string

definition given :: "'a option \<Rightarrow> 'a \<Rightarrow> 'a" where
  "given x old = (case x of None \<Rightarrow> old | Some v \<Rightarrow> v)"

definition is_live_location :: "uuid \<Rightarrow> uuid \<Rightarrow> location_row \<Rightarrow> bool" where
  "is_live_location b l r \<longleftrightarrow> loBusiness r = b \<and> loId r = l \<and> loDeletedAt r = None"

definition update_locations :: "(location_row \<Rightarrow> bool) \<Rightarrow> (location_row \<Rightarrow> location_row) \<Rightarrow> db \<Rightarrow> exn + db" where
  "update_locations p f d =
     bindR (update_checked p f location_check (dbLocations d)) (\<lambda>rows. Inr (d\<lparr>dbLocations := rows\<rparr>))"

text \<open>The query builder refuses an update that sets no column.\<close>

definition changes_location :: "update_location_input \<Rightarrow> bool" where
  "changes_location input \<longleftrightarrow> ulName input \<noteq> None \<or> ulDescription input \<noteq> None
     \<or> ulTimezone input \<noteq> None \<or> ulPriority input \<noteq> None \<or> ulIsActive input \<noteq> None"

definition updateLocation :: "update_location_input \<Rightarrow> db \<Rightarrow> exn + update_location_result \<times> db" where
  "updateLocation input d =
     (if bad_priority (ulPriority input)
      then Inr (LocationUpdateInvalid ''priority is a whole number between 0 and 10000'', d)
      else let name = map_option trim (ulName input)
      in if name = Some [] then Inr (LocationUpdateInvalid ''a location needs a name'', d)
         else if \<not> changes_location input then Inl (PlainError ''No values to set'')
         else bindR (update_locations (is_live_location (ulBusiness input) (ulLocation input))
                (\<lambda>r. r\<lparr>loName := given name (loName r),
                      loDescription := given (ulDescription input) (loDescription r),
                      loTimezone := given (ulTimezone input) (loTimezone r),
                      loPriority := given (ulPriority input) (loPriority r),
                      loIsActive := given (ulIsActive input) (loIsActive r)\<rparr>) d) (\<lambda>d'.
              Inr (if list_ex (is_live_location (ulBusiness input) (ulLocation input)) (dbLocations d)
                   then LocationUpdated else LocationNotFound, d')))"

datatype archive_location_result = LocationArchived | ArchiveNotFound | HoldsStock nat

definition held_at :: "db \<Rightarrow> uuid \<Rightarrow> uuid \<Rightarrow> balance_row list" where
  "held_at d b l =
     filter (\<lambda>r. baBusiness r = b \<and> baLocation r = l \<and> (baOnHand r > 0 \<or> baReserved r > 0)) (dbBalances d)"

definition archiveLocation :: "uuid \<Rightarrow> uuid \<Rightarrow> instant \<Rightarrow> db \<Rightarrow> exn + archive_location_result \<times> db" where
  "archiveLocation b l now d =
     (if held_at d b l \<noteq> [] then Inr (HoldsStock (length (held_at d b l)), d)
      else bindR (update_locations (is_live_location b l)
             (\<lambda>r. r\<lparr>loDeletedAt := Some now, loIsActive := False\<rparr>) d) (\<lambda>d'.
           Inr (if list_ex (is_live_location b l) (dbLocations d)
                then LocationArchived else ArchiveNotFound, d')))"

section \<open>Addresses\<close>

datatype set_address_result = AddressSaved | AddressNotFound | AddressInvalid string

definition country_shaped :: "string \<Rightarrow> bool" where
  "country_shaped s \<longleftrightarrow> length s = 2
     \<and> list_all (\<lambda>c. let n = (of_char c :: nat) in 65 \<le> n \<and> n \<le> 90) s"

definition address_check :: "address_values \<Rightarrow> exn + unit" where
  "address_check v = check_all [
     (0 < length (btrim (avCity v)), CheckViolation ''location_addresses_city_present''),
     (country_shaped (avCountryCode v), CheckViolation ''location_addresses_country_shaped''),
     (0 < length (btrim (avLine1 v)), CheckViolation ''location_addresses_line1_present'')]"

definition is_address :: "uuid \<Rightarrow> address_purpose \<Rightarrow> address_row \<Rightarrow> bool" where
  "is_address l purpose r \<longleftrightarrow> adLocation r = l \<and> adPurpose r = purpose"

definition setLocationAddress :: "uuid \<Rightarrow> uuid \<Rightarrow> address_purpose \<Rightarrow> address_values \<Rightarrow> db
    \<Rightarrow> exn + set_address_result \<times> db" where
  "setLocationAddress b l purpose address d =
     (let country = map upper_char (trim (avCountryCode address))
      in if \<not> country_shaped country
         then Inr (AddressInvalid ''country must be a two-letter ISO 3166-1 code'', d)
         else if trim (avLine1 address) = []
         then Inr (AddressInvalid ''an address needs a street line'', d)
         else if trim (avCity address) = []
         then Inr (AddressInvalid ''an address needs a city'', d)
         else if \<not> list_ex (is_live_location b l) (dbLocations d) then Inr (AddressNotFound, d)
         else let values = address\<lparr>avLine1 := trim (avLine1 address), avCity := trim (avCity address),
                  avCountryCode := country\<rparr>
         in bindR (address_check values) (\<lambda>_.
            if list_ex (is_address l purpose) (dbAddresses d)
            then Inr (AddressSaved, d\<lparr>dbAddresses :=
                   update_where (is_address l purpose) (\<lambda>r. r\<lparr>adValues := values\<rparr>) (dbAddresses d)\<rparr>)
            else let (i, d1) = take_uuid d
              in Inr (AddressSaved, d1\<lparr>dbAddresses := dbAddresses d1 @
                   [\<lparr>adId = i, adBusiness = b, adLocation = l, adPurpose = purpose, adValues = values\<rparr>]\<rparr>)))"

definition readLocationAddress :: "db \<Rightarrow> uuid \<Rightarrow> uuid \<Rightarrow> address_purpose \<Rightarrow> address_values option" where
  "readLocationAddress d b l purpose =
     map_option adValues
       (List.find (\<lambda>r. adBusiness r = b \<and> adLocation r = l \<and> adPurpose r = purpose) (dbAddresses d))"

section \<open>Channel links\<close>

datatype link_location_result = LocationLinked | ExternalIdTaken | LinkInvalid string

definition external_shaped :: "string \<Rightarrow> bool" where
  "external_shaped s \<longleftrightarrow> 1 \<le> length (btrim s) \<and> length (btrim s) \<le> 128"

definition is_link :: "uuid \<Rightarrow> uuid \<Rightarrow> link_row \<Rightarrow> bool" where
  "is_link c l r \<longleftrightarrow> liConnection r = c \<and> liLocation r = l"

text \<open>
  \<open>insert ... on conflict (connection_id, location_id) do update\<close>. The row's own constraints are
  checked first; then either the conflicting row is updated, or the new row is inserted and its
  references are checked. A duplicate external identifier is refused on both paths.
\<close>

definition upsert_link :: "uuid \<Rightarrow> uuid \<Rightarrow> uuid \<Rightarrow> string \<Rightarrow> db \<Rightarrow> exn + db" where
  "upsert_link b l c external d =
     bindR (check_all [(external_shaped external,
       CheckViolation ''location_channel_links_external_shaped'')]) (\<lambda>_.
     if list_ex (\<lambda>r. liConnection r = c \<and> liExternal r = external \<and> liLocation r \<noteq> l) (dbLinks d)
     then Inl (UniqueViolation ''location_channel_links_external_unique'')
     else if list_ex (is_link c l) (dbLinks d)
     then Inr (d\<lparr>dbLinks := update_where (is_link c l) (\<lambda>r. r\<lparr>liExternal := external\<rparr>) (dbLinks d)\<rparr>)
     else bindR (check_all [
            (location_in d b l, ForeignKeyViolation ''location_channel_links_location_fkey''),
            (connection_in d b c, ForeignKeyViolation ''location_channel_links_connection_fkey'')]) (\<lambda>_.
          let (i, d1) = take_uuid d
          in Inr (d1\<lparr>dbLinks := dbLinks d1 @ [\<lparr>liId = i, liBusiness = b, liLocation = l,
                 liConnection = c, liExternal = external\<rparr>]\<rparr>)))"

definition linkLocationToChannel :: "uuid \<Rightarrow> uuid \<Rightarrow> uuid \<Rightarrow> string \<Rightarrow> db
    \<Rightarrow> exn + link_location_result \<times> db" where
  "linkLocationToChannel b l c externalLocationId d =
     (let external = trim externalLocationId
      in if external = [] \<or> length external > 128
         then Inr (LinkInvalid ''a provider location identifier is 1 to 128 characters'', d)
         else case upsert_link b l c external d of
           Inr d' \<Rightarrow> Inr (LocationLinked, d')
         | Inl e \<Rightarrow> if e = UniqueViolation ''location_channel_links_external_unique''
                   then Inr (ExternalIdTaken, d) else Inl e)"

definition unlinkLocationFromChannel :: "uuid \<Rightarrow> uuid \<Rightarrow> uuid \<Rightarrow> db \<Rightarrow> bool \<times> db" where
  "unlinkLocationFromChannel b l c d =
     (let gone = (\<lambda>r. liBusiness r = b \<and> is_link c l r)
      in (list_ex gone (dbLinks d), d\<lparr>dbLinks := filter (\<lambda>r. \<not> gone r) (dbLinks d)\<rparr>))"


section \<open>What the operations keep\<close>

text \<open>
  Live locations of a business have codes that differ by more than case, and a location key
  names one row.
\<close>

definition live_code :: "location_row \<Rightarrow> (uuid \<times> string) option" where
  "live_code r = (if loDeletedAt r = None then Some (loBusiness r, lower (loCode r)) else None)"

definition codes_unique :: "location_row list \<Rightarrow> bool" where
  "codes_unique = unique_on live_code"

lemma code_taken_iff:
  "code_taken d b code \<longleftrightarrow> Some (b, lower code) \<in> live_code ` set (dbLocations d)"
proof
  assume "code_taken d b code"
  then obtain r where "r \<in> set (dbLocations d)" "live_code r = Some (b, lower code)"
    by (auto simp: code_taken_def live_code_def list_ex_iff)
  then show "Some (b, lower code) \<in> live_code ` set (dbLocations d)" by (metis image_eqI)
next
  assume "Some (b, lower code) \<in> live_code ` set (dbLocations d)"
  then show "code_taken d b code"
    by (auto simp: code_taken_def live_code_def list_ex_iff split: if_splits)
qed

lemma insert_location_cases:
  "insert_location r d = Inr d' \<longleftrightarrow> location_check r = Inr ()
     \<and> \<not> code_taken d (loBusiness r) (loCode r) \<and> loBusiness r \<in> set (dbBusinesses d)
     \<and> d' = d\<lparr>dbLocations := dbLocations d @ [r]\<rparr>"
  "insert_location r d = Inl (UniqueViolation c) \<Longrightarrow> code_taken d (loBusiness r) (loCode r)"
  by (auto simp: insert_location_def location_check_def result_simps split: if_splits)

lemma createLocation_cases:
  assumes "createLocation input d = Inr (result, d')"
  obtains (invalid) reason where "result = LocationInvalid reason" "d' = d"
  | (taken) "result = LocationCodeTaken" "d' = d" "code_taken d (clBusiness input) (trim (clCode input))"
  | (created) r where "result = LocationCreated (loId r)" "loId r = dbNextUuid d"
      "loBusiness r = clBusiness input" "loCode r = trim (clCode input)" "loDeletedAt r = None"
      "\<not> code_taken d (clBusiness input) (trim (clCode input))" "location_check r = Inr ()"
      "d' = d\<lparr>dbNextUuid := Suc (dbNextUuid d), dbLocations := dbLocations d @ [r]\<rparr>"
proof -
  define d1 where "d1 = d\<lparr>dbNextUuid := Suc (dbNextUuid d)\<rparr>"
  define r where "r = new_location input (dbNextUuid d)"
  have same: "code_taken d1 b c = code_taken d b c" for b c by (simp add: code_taken_def d1_def)
  have r: "loId r = dbNextUuid d" "loBusiness r = clBusiness input" "loCode r = trim (clCode input)"
    "loDeletedAt r = None" by (simp_all add: r_def new_location_def)
  consider (i) reason where "result = LocationInvalid reason" "d' = d"
    | (ins) "(case insert_location r d1 of Inr d2 \<Rightarrow> Inr (LocationCreated (dbNextUuid d), d2)
         | Inl e \<Rightarrow> if e = UniqueViolation ''locations_code_unique''
                   then Inr (LocationCodeTaken, d) else Inl e) = Inr (result, d')"
    using assms unfolding createLocation_def Let_def take_uuid_def prod.case r_def [symmetric]
      d1_def [symmetric]
    by (simp split: if_splits) blast+
  then show thesis
  proof cases
    case i then show ?thesis by (rule invalid)
  next
    case ins
    show ?thesis
    proof (cases "insert_location r d1")
      case (Inl e)
      with ins have "e = UniqueViolation ''locations_code_unique''" "result = LocationCodeTaken" "d' = d"
        by (simp_all split: if_splits)
      with Inl insert_location_cases(2) [of r d1] same r show ?thesis by (intro taken) auto
    next
      case (Inr d2)
      with ins have res: "result = LocationCreated (dbNextUuid d)" "d' = d2" by simp_all
      have i: "location_check r = Inr ()" "\<not> code_taken d (loBusiness r) (loCode r)"
        "d2 = d1\<lparr>dbLocations := dbLocations d1 @ [r]\<rparr>"
        using Inr [unfolded insert_location_cases(1) same] by blast+
      have d2: "d' = d\<lparr>dbNextUuid := Suc (dbNextUuid d), dbLocations := dbLocations d @ [r]\<rparr>"
        unfolding res(2) i(3) d1_def by simp
      show ?thesis by (rule created [of r, OF _ _ _ _ _ _ i(1) d2]) (use i(2) r res in simp_all)
    qed
  qed
qed

lemma updateLocation_cases:
  assumes "updateLocation input d = Inr (result, d')"
  obtains (same) "d' = d"
  | (updated) f where "\<And>r. live_code (f r) = live_code r" "\<And>r. loId (f r) = loId r"
      "d' = d\<lparr>dbLocations := update_where (is_live_location (ulBusiness input) (ulLocation input)) f (dbLocations d)\<rparr>"
proof -
  let ?p = "is_live_location (ulBusiness input) (ulLocation input)"
  define f where "f = (\<lambda>r :: location_row. r\<lparr>loName := given (map_option trim (ulName input)) (loName r),
    loDescription := given (ulDescription input) (loDescription r),
    loTimezone := given (ulTimezone input) (loTimezone r),
    loPriority := given (ulPriority input) (loPriority r),
    loIsActive := given (ulIsActive input) (loIsActive r)\<rparr>)"
  have upd: "bindR (update_locations ?p f d) (\<lambda>d'. Inr (x, d')) = Inr (result, d') \<Longrightarrow>
      d' = d\<lparr>dbLocations := update_where ?p f (dbLocations d)\<rparr>" for x
    by (auto simp: update_locations_def result_simps update_checked_Inr)
  have "d' = d \<or> d' = d\<lparr>dbLocations := update_where ?p f (dbLocations d)\<rparr>"
    using assms upd unfolding updateLocation_def Let_def f_def [symmetric] by (simp split: if_splits)
  moreover have "live_code (f r) = live_code r" "loId (f r) = loId r" for r
    by (simp_all add: live_code_def f_def)
  ultimately show thesis using same updated [of f] by blast
qed

lemma archiveLocation_cases:
  assumes "archiveLocation b l now d = Inr (result, d')"
  obtains (holds) "result = HoldsStock (length (held_at d b l))" "held_at d b l \<noteq> []" "d' = d"
  | (absent) "result = ArchiveNotFound" "d' = d"
  | (archived) "result = LocationArchived" "held_at d b l = []"
      "list_ex (is_live_location b l) (dbLocations d)"
      "d' = d\<lparr>dbLocations := update_where (is_live_location b l)
        (\<lambda>r. r\<lparr>loDeletedAt := Some now, loIsActive := False\<rparr>) (dbLocations d)\<rparr>"
proof (cases "held_at d b l = []")
  case False
  with assms have "result = HoldsStock (length (held_at d b l))" "d' = d"
    by (auto simp: archiveLocation_def)
  with False show thesis by (intro holds)
next
  case True
  define f where "f = (\<lambda>r :: location_row. r\<lparr>loDeletedAt := Some now, loIsActive := False\<rparr>)"
  have unmatched: "\<not> list_ex (is_live_location b l) (dbLocations d) \<Longrightarrow>
      update_where (is_live_location b l) f (dbLocations d) = dbLocations d"
    by (rule update_where_id) (auto simp: list_ex_iff)
  have "d' = d\<lparr>dbLocations := update_where (is_live_location b l) f (dbLocations d)\<rparr>"
    and "result = (if list_ex (is_live_location b l) (dbLocations d) then LocationArchived else ArchiveNotFound)"
    using assms True unfolding archiveLocation_def f_def [symmetric]
    by (auto simp: update_locations_def result_simps update_checked_Inr)
  note res = this
  show thesis
  proof (cases "list_ex (is_live_location b l) (dbLocations d)")
    case True
    with res \<open>held_at d b l = []\<close> show thesis by (intro archived) (simp_all add: f_def)
  next
    case False
    have "result = ArchiveNotFound" using res(2) False by simp
    moreover have "update_where (is_live_location b l) f (dbLocations d) = dbLocations d"
      by (rule unmatched [OF False])
    with res(1) have "d' = d" by simp
    ultimately show thesis by (rule absent)
  qed
qed


section \<open>Properties\<close>

lemma location_eval:
  "int4 100" "int4 0" "\<not> code_taken shop 1 ''C''" "code_taken shop 1 ''a''"
  by code_simp+

text \<open>
  Location codes stay unique up to case. If no two live locations of a business have codes
  equal up to case, then none do after \<open>createLocation\<close>, \<open>updateLocation\<close> or
  \<open>archiveLocation\<close>; and \<open>createLocation\<close> answers \<open>code_taken\<close>, changing nothing, only
  when a live location of the business has the trimmed code up to case, while a created location
  is the new last row with that code and no live location had it.
\<close>

theorem location_codes_stay_unique:
  assumes "codes_unique (dbLocations d)"
  shows "(createLocation ci d = Inr (cr, d1) \<longrightarrow> codes_unique (dbLocations d1)
      \<and> (cr = LocationCodeTaken \<longrightarrow> d1 = d \<and> code_taken d (clBusiness ci) (trim (clCode ci)))
      \<and> (\<forall>i. cr = LocationCreated i \<longrightarrow> \<not> code_taken d (clBusiness ci) (trim (clCode ci))
           \<and> (\<exists>r. dbLocations d1 = dbLocations d @ [r] \<and> loId r = i \<and> loBusiness r = clBusiness ci
                \<and> loCode r = trim (clCode ci) \<and> loDeletedAt r = None)))
    \<and> (updateLocation ui d = Inr (ur, d2) \<longrightarrow> codes_unique (dbLocations d2))
    \<and> (archiveLocation b l now d = Inr (ar, d3) \<longrightarrow> codes_unique (dbLocations d3))"
proof (intro conjI impI)
  assume c: "createLocation ci d = Inr (cr, d1)"
  from c show "codes_unique (dbLocations d1)"
  proof (cases rule: createLocation_cases)
    case (created r)
    then show ?thesis using assms
      by (simp add: codes_unique_def unique_on_append code_taken_iff live_code_def)
  qed (simp_all add: assms)
  from c show "d1 = d" "code_taken d (clBusiness ci) (trim (clCode ci))" if "cr = LocationCodeTaken"
    by (cases rule: createLocation_cases; simp add: that)+
  from c show "\<forall>i. cr = LocationCreated i \<longrightarrow> \<not> code_taken d (clBusiness ci) (trim (clCode ci))
      \<and> (\<exists>r. dbLocations d1 = dbLocations d @ [r] \<and> loId r = i \<and> loBusiness r = clBusiness ci
           \<and> loCode r = trim (clCode ci) \<and> loDeletedAt r = None)"
    by (cases rule: createLocation_cases; simp)
next
  assume "updateLocation ui d = Inr (ur, d2)"
  then show "codes_unique (dbLocations d2)"
    by (cases rule: updateLocation_cases) (simp_all add: assms [unfolded codes_unique_def] codes_unique_def unique_on_update)
next
  assume "archiveLocation b l now d = Inr (ar, d3)"
  then show "codes_unique (dbLocations d3)"
    by (cases rule: archiveLocation_cases)
      (simp_all add: assms [unfolded codes_unique_def] codes_unique_def unique_on_update live_code_def)
qed

theorem location_codes_stay_unique_witness:
  "codes_unique (dbLocations shop)
   \<and> (\<exists>d1. createLocation \<lparr>clBusiness = 1, clCode = '' C '', clName = ''Yard'', clDescription = None,
        clTimezone = None, clPriority = Some 5\<rparr> shop = Inr (LocationCreated 1000, d1)
        \<and> codes_unique (dbLocations d1))
   \<and> createLocation \<lparr>clBusiness = 1, clCode = ''a'', clName = ''Yard'', clDescription = None,
        clTimezone = None, clPriority = None\<rparr> shop = Inr (LocationCodeTaken, shop)"
proof -
  let ?c = "\<lparr>clBusiness = 1, clCode = '' C '', clName = ''Yard'', clDescription = None,
        clTimezone = None, clPriority = Some 5\<rparr>"
  have u: "codes_unique (dbLocations shop)" by code_simp
  have "case createLocation ?c shop of Inl e \<Rightarrow> False | Inr (r, d1) \<Rightarrow> r = LocationCreated 1000"
    by code_simp
  then obtain d1 where c: "createLocation ?c shop = Inr (LocationCreated 1000, d1)"
    by (auto split: sum.splits)
  have t: "createLocation \<lparr>clBusiness = 1, clCode = ''a'', clName = ''Yard'', clDescription = None,
        clTimezone = None, clPriority = None\<rparr> shop = Inr (LocationCodeTaken, shop)"
    by code_simp
  show ?thesis
    using u t c location_codes_stay_unique [OF u, of ?c "LocationCreated 1000" d1] by blast
qed

text \<open>
  Allocation order is determined by what the locations are, not by how the rows happen to
  lie in the table. When live codes are unique, \<open>listLocations\<close> returns exactly the live
  (and, on request, active) locations of the business, ordered by priority and then code, and any
  table with the same rows in any order gives the same list.
\<close>

theorem listing_deterministic:
  assumes "codes_unique (dbLocations d)" and "mset (dbLocations d') = mset (dbLocations d)"
  shows "listLocations d' b activeOnly = listLocations d b activeOnly
    \<and> sorted_wrt lo_before (listLocations d b activeOnly)
    \<and> set (listLocations d b activeOnly) = {r \<in> set (dbLocations d).
         loBusiness r = b \<and> loDeletedAt r = None \<and> (activeOnly \<longrightarrow> loIsActive r)}"
proof (intro conjI)
  let ?p = "\<lambda>r. loBusiness r = b \<and> loDeletedAt r = None \<and> (activeOnly \<longrightarrow> loIsActive r)"
  have str_antisym: "str_le s t \<Longrightarrow> str_le t s \<Longrightarrow> s = t" for s t
    by (induction s t rule: str_le.induct) (auto elim: str_le.elims split: if_splits)
  show "listLocations d' b activeOnly = listLocations d b activeOnly"
    unfolding listLocations_def
  proof (rule sorted_wrt_unique [OF location_order.sorted_sort_by location_order.sorted_sort_by])
    show "mset (sort_by lo_before (filter ?p (dbLocations d')))
        = mset (sort_by lo_before (filter ?p (dbLocations d)))"
      using assms(2) by simp
    fix x y
    assume "x \<in> set (sort_by lo_before (filter ?p (dbLocations d')))"
      and "y \<in> set (sort_by lo_before (filter ?p (dbLocations d')))"
    moreover have "set (dbLocations d') = set (dbLocations d)"
      using assms(2) by (metis set_mset_mset)
    ultimately have xy: "x \<in> set (dbLocations d)" "?p x" "y \<in> set (dbLocations d)" "?p y" by auto
    assume "lo_before x y" and "lo_before y x"
    then have "loCode x = loCode y" by (auto simp: lo_before_def intro: str_antisym split: if_splits)
    with xy have "live_code x = Some (b, lower (loCode x))" "live_code y = Some (b, lower (loCode x))"
      by (simp_all add: live_code_def)
    with unique_on_row [OF assms(1) [unfolded codes_unique_def]] xy show "x = y" by blast
  qed
qed (simp_all add: listLocations_def location_order.sorted_sort_by)

theorem listing_deterministic_witness:
  "codes_unique (dbLocations shop)
   \<and> listLocations (shop\<lparr>dbLocations := rev (dbLocations shop)\<rparr>) 1 True = dbLocations shop"
proof -
  have u: "codes_unique (dbLocations shop)" by code_simp
  have "listLocations shop 1 True = dbLocations shop" by code_simp
  with u listing_deterministic [OF u, of "shop\<lparr>dbLocations := rev (dbLocations shop)\<rparr>" 1 True]
  show ?thesis by simp
qed

text \<open>
  Archiving never strands stock. When \<open>archiveLocation\<close> answers \<open>archived\<close>, no item
  has a unit on hand or reserved at the location, the location leaves every listing, and balances
  and ledger are untouched; when it answers \<open>holds_stock\<close> it counts the items that do hold
  units there and changes nothing.
\<close>

theorem archiving_strands_nothing:
  assumes "archiveLocation b l now d = Inr (result, d')" and "balances_ok d"
  shows "(result = LocationArchived \<longrightarrow>
        (\<forall>i. on_hand_at d' (b, i, l) = 0 \<and> reserved_at d' (b, i, l) = 0)
        \<and> l \<notin> loId ` set (listLocations d' b activeOnly)
        \<and> dbBalances d' = dbBalances d \<and> dbLedger d' = dbLedger d)
    \<and> (\<forall>n. result = HoldsStock n \<longrightarrow> d' = d \<and> 0 < n
        \<and> n = card {i. 0 < on_hand_at d (b, i, l) \<or> 0 < reserved_at d (b, i, l)})"
  using assms(1)
proof (cases rule: archiveLocation_cases)
  case holds
  have dist: "distinct (map balance_key (dbBalances d))" using assms(2) by (simp add: balances_ok_def)
  have "inj_on baItem (set (held_at d b l))"
  proof (rule inj_onI)
    fix x y assume "x \<in> set (held_at d b l)" "y \<in> set (held_at d b l)" "baItem x = baItem y"
    then have "balance_key x = balance_key y" "x \<in> set (dbBalances d)" "y \<in> set (dbBalances d)"
      by (auto simp: held_at_def balance_key_def)
    with dist show "x = y" by (auto simp: distinct_map dest: inj_onD)
  qed
  moreover have "distinct (held_at d b l)" using dist by (simp add: held_at_def distinct_map)
  moreover have "baItem ` set (held_at d b l)
      = {i. 0 < on_hand_at d (b, i, l) \<or> 0 < reserved_at d (b, i, l)}"
  proof (intro set_eqI iffI)
    fix i assume "i \<in> baItem ` set (held_at d b l)"
    then obtain r where "r \<in> set (dbBalances d)" "balance_key r = (b, i, l)"
      "baOnHand r > 0 \<or> baReserved r > 0" by (auto simp: held_at_def balance_key_def)
    with balances.lookup_member [OF dist, of r]
    show "i \<in> {i. 0 < on_hand_at d (b, i, l) \<or> 0 < reserved_at d (b, i, l)}"
      by (auto simp: on_hand_at_def reserved_at_def find_balance_def)
  next
    fix i assume "i \<in> {i. 0 < on_hand_at d (b, i, l) \<or> 0 < reserved_at d (b, i, l)}"
    then obtain r where "find_balance d (b, i, l) = Some r" "baOnHand r > 0 \<or> baReserved r > 0"
      by (auto simp: on_hand_at_def reserved_at_def split: option.splits)
    with balances.lookup_key [of "(b, i, l)" "dbBalances d" r]
    show "i \<in> baItem ` set (held_at d b l)"
      by (auto simp: held_at_def find_balance_def balance_key_def)
  qed
  ultimately have "length (held_at d b l)
      = card {i. 0 < on_hand_at d (b, i, l) \<or> 0 < reserved_at d (b, i, l)}"
    by (metis card_image distinct_card)
  with holds show ?thesis by (metis archive_location_result.distinct(3) archive_location_result.inject
        length_greater_0_conv)
next
  case archived
  have none: "\<not> (0 < baOnHand r \<or> 0 < baReserved r)" if "find_balance d (b, i, l) = Some r" for i r
    using that archived(2) balances.lookup_key [of "(b, i, l)" "dbBalances d" r]
    by (auto simp: held_at_def find_balance_def balance_key_def filter_empty_conv)
  have "on_hand_at d (b, i, l) = 0 \<and> reserved_at d (b, i, l) = 0" for i
  proof (cases "find_balance d (b, i, l)")
    case (Some r)
    with none [OF Some] find_balance_check [OF assms(2) Some] show ?thesis
      by (simp add: on_hand_at_def reserved_at_def balance_check_Inr)
  qed (simp add: on_hand_at_def reserved_at_def)
  moreover have "on_hand_at d' k = on_hand_at d k" "reserved_at d' k = reserved_at d k" for k
    by (simp_all add: archived(4) on_hand_at_def reserved_at_def find_balance_def)
  moreover have "l \<notin> loId ` set (listLocations d' b activeOnly)"
  proof
    assume "l \<in> loId ` set (listLocations d' b activeOnly)"
    then obtain x where "x \<in> set (dbLocations d')" "loBusiness x = b" "loDeletedAt x = None" "loId x = l"
      by (auto simp: listLocations_def)
    moreover from this(1) have "is_live_location b l x \<longrightarrow> loDeletedAt x \<noteq> None"
      unfolding archived(4) by (auto simp: set_update_where split: if_splits)
    ultimately show False by (simp add: is_live_location_def)
  qed
  ultimately show ?thesis using archived(1) by (simp add: archived(4))
qed simp

definition bare_shop :: db where
  "bare_shop = shop\<lparr>dbBalances := filter (\<lambda>r. baLocation r = 42) (dbBalances shop)\<rparr>"

theorem archiving_strands_nothing_witness:
  "\<exists>d'. archiveLocation 1 41 5 bare_shop = Inr (LocationArchived, d')
     \<and> on_hand_at d' (1, 21, 41) = 0 \<and> 41 \<notin> loId ` set (listLocations d' 1 False)
     \<and> archiveLocation 1 42 5 bare_shop = Inr (HoldsStock 1, bare_shop)"
proof -
  have "case archiveLocation 1 41 5 bare_shop of Inl e \<Rightarrow> False | Inr (r, d') \<Rightarrow> r = LocationArchived"
    by code_simp
  then obtain d' where a: "archiveLocation 1 41 5 bare_shop = Inr (LocationArchived, d')"
    by (auto split: sum.splits)
  have h: "archiveLocation 1 42 5 bare_shop = Inr (HoldsStock 1, bare_shop)" by code_simp
  have "balances_ok bare_shop" by code_simp
  from a h archiving_strands_nothing [OF a this, of False] show ?thesis by blast
qed

definition addresses_ok :: "db \<Rightarrow> bool" where
  "addresses_ok d \<longleftrightarrow> distinct (map loId (dbLocations d))
     \<and> list_all (\<lambda>r. location_in d (adBusiness r) (adLocation r)) (dbAddresses d)"

lemma address_owner:
  assumes "addresses_ok d" and "list_ex (is_live_location b l) (dbLocations d)"
    and "r \<in> set (dbAddresses d)" and "adLocation r = l"
  shows "adBusiness r = b"
proof -
  from assms(1,3,4) obtain x where x: "x \<in> set (dbLocations d)" "loBusiness x = adBusiness r" "loId x = l"
    by (auto simp: addresses_ok_def list_all_iff location_in_def list_ex_iff)
  from assms(2) obtain y where y: "y \<in> set (dbLocations d)" "loBusiness y = b" "loId y = l"
    by (auto simp: list_ex_iff is_live_location_def)
  have "x = y" using assms(1) x y by (auto simp: addresses_ok_def distinct_map dest: inj_onD)
  with x y show ?thesis by simp
qed

definition normalised :: "address_values \<Rightarrow> address_values" where
  "normalised v = v\<lparr>avLine1 := trim (avLine1 v), avCity := trim (avCity v),
     avCountryCode := map upper_char (trim (avCountryCode v))\<rparr>"

lemma setLocationAddress_saved:
  assumes "setLocationAddress b l purpose v d = Inr (AddressSaved, d')"
  shows "list_ex (is_live_location b l) (dbLocations d)"
    and "dbAddresses d' = (if list_ex (is_address l purpose) (dbAddresses d)
      then update_where (is_address l purpose) (\<lambda>r. r\<lparr>adValues := normalised v\<rparr>) (dbAddresses d)
      else dbAddresses d @ [\<lparr>adId = dbNextUuid d, adBusiness = b, adLocation = l,
             adPurpose = purpose, adValues = normalised v\<rparr>])"
proof -
  have "list_ex (is_live_location b l) (dbLocations d) \<and>
    bindR (address_check (normalised v)) (\<lambda>_.
      if list_ex (is_address l purpose) (dbAddresses d)
      then Inr (AddressSaved, d\<lparr>dbAddresses :=
             update_where (is_address l purpose) (\<lambda>r. r\<lparr>adValues := normalised v\<rparr>) (dbAddresses d)\<rparr>)
      else Inr (AddressSaved, d\<lparr>dbNextUuid := Suc (dbNextUuid d), dbAddresses := dbAddresses d @
             [\<lparr>adId = dbNextUuid d, adBusiness = b, adLocation = l, adPurpose = purpose,
               adValues = normalised v\<rparr>]\<rparr>)) = Inr (AddressSaved, d')"
    using assms
    unfolding setLocationAddress_def Let_def take_uuid_def normalised_def [symmetric] prod.case
    by (simp split: if_splits)
  then show "list_ex (is_live_location b l) (dbLocations d)"
    and "dbAddresses d' = (if list_ex (is_address l purpose) (dbAddresses d)
      then update_where (is_address l purpose) (\<lambda>r. r\<lparr>adValues := normalised v\<rparr>) (dbAddresses d)
      else dbAddresses d @ [\<lparr>adId = dbNextUuid d, adBusiness = b, adLocation = l,
             adPurpose = purpose, adValues = normalised v\<rparr>])"
    by (auto simp: result_simps split: if_splits)
qed

text \<open>
  A stored address is read back. After \<open>setLocationAddress\<close> answers \<open>saved\<close>,
  \<open>readLocationAddress\<close> for the same location and purpose returns the address with its
  street line, city and country code normalised, and every other location's or purpose's address
  reads as before.
\<close>

theorem address_roundtrip:
  assumes "setLocationAddress b l purpose v d = Inr (AddressSaved, d')" and "addresses_ok d"
  shows "readLocationAddress d' b l purpose = Some (normalised v)
    \<and> ((b', l', purpose') \<noteq> (b, l, purpose) \<longrightarrow>
        readLocationAddress d' b' l' purpose' = readLocationAddress d b' l' purpose')"
proof -
  note saved = setLocationAddress_saved [OF assms(1)]
  have owned: "adBusiness r = b" if "r \<in> set (dbAddresses d)" "is_address l purpose r" for r
    using address_owner [OF assms(2) saved(1)] that by (simp add: is_address_def)
  let ?p = "\<lambda>b l purpose r. adBusiness r = b \<and> adLocation r = l \<and> adPurpose r = purpose"
  let ?u = "\<lambda>rows. update_where (is_address l purpose) (\<lambda>r. r\<lparr>adValues := normalised v\<rparr>) rows"
  have here: "list_ex (is_address l purpose) rows \<Longrightarrow>
      (\<forall>r \<in> set rows. is_address l purpose r \<longrightarrow> adBusiness r = b) \<Longrightarrow>
      map_option adValues (List.find (?p b l purpose) (?u rows)) = Some (normalised v)" for rows
    by (induction rows) (auto simp: is_address_def)
  have there: "(b', l', purpose') \<noteq> (b, l, purpose) \<Longrightarrow>
      (\<forall>r \<in> set rows. is_address l purpose r \<longrightarrow> adBusiness r = b) \<Longrightarrow>
      List.find (?p b' l' purpose') (?u rows) = List.find (?p b' l' purpose') rows" for rows
    by (induction rows) (auto simp: is_address_def)
  have find_app: "List.find q (xs @ ys) =
      (case List.find q xs of None \<Rightarrow> List.find q ys | Some r \<Rightarrow> Some r)" for q and xs ys :: "address_row list"
    by (induction xs) auto
  have absent: "\<not> list_ex (is_address l purpose) rows \<Longrightarrow> List.find (?p b l purpose) rows = None" for rows
    by (induction rows) (auto simp: is_address_def)
  show ?thesis
  proof (cases "list_ex (is_address l purpose) (dbAddresses d)")
    case True
    with here [OF True] there [of "dbAddresses d"] owned show ?thesis
      by (auto simp: readLocationAddress_def saved(2))
  next
    case False
    then show ?thesis
      by (auto simp: readLocationAddress_def saved(2) find_app absent split: option.splits)
  qed
qed

theorem address_roundtrip_witness:
  "\<exists>d'. setLocationAddress 1 41 ShipFrom
      \<lparr>avName = None, avCompany = None, avLine1 = '' 1 Main St '', avLine2 = None, avCity = ''Ames'',
       avRegion = Some ''IA'', avPostalCode = None, avCountryCode = ''us'', avPhone = None,
       avEmail = None\<rparr> shop = Inr (AddressSaved, d')
    \<and> map_option avLine1 (readLocationAddress d' 1 41 ShipFrom) = Some ''1 Main St''
    \<and> map_option avCountryCode (readLocationAddress d' 1 41 ShipFrom) = Some ''US''"
proof -
  let ?v = "\<lparr>avName = None, avCompany = None, avLine1 = '' 1 Main St '', avLine2 = None,
    avCity = ''Ames'', avRegion = Some ''IA'', avPostalCode = None, avCountryCode = ''us'',
    avPhone = None, avEmail = None\<rparr>"
  have "case setLocationAddress 1 41 ShipFrom ?v shop of Inl e \<Rightarrow> False
      | Inr (r, d') \<Rightarrow> r = AddressSaved" by code_simp
  then obtain d' where a: "setLocationAddress 1 41 ShipFrom ?v shop = Inr (AddressSaved, d')"
    by (auto split: sum.splits)
  have ok: "addresses_ok shop" by code_simp
  have "avLine1 (normalised ?v) = ''1 Main St''" "avCountryCode (normalised ?v) = ''US''"
    by code_simp+
  with a address_roundtrip [OF a ok] show ?thesis by simp
qed

text \<open>
  A channel link is rewritten for whoever asks. When some location already has an identifier
  on a connection, \<open>linkLocationToChannel\<close> for that pair of identifiers replaces it
  whatever business the call names, and answers \<open>linked\<close>: the conflict clause matches on
  connection and location alone, so the business identifier of the input, which \<open>unlink\<close>
  and every other operation filter on, is not consulted. The row keeps its owner.
\<close>

theorem link_update_ignores_business:
  assumes "r \<in> set (dbLinks d)" and "is_link c l r"
    and "trim external \<noteq> []" and "length (trim external) \<le> 128" and "external_shaped (trim external)"
    and "\<And>r'. r' \<in> set (dbLinks d) \<Longrightarrow> liConnection r' = c \<Longrightarrow> liLocation r' \<noteq> l
           \<Longrightarrow> liExternal r' \<noteq> trim external"
  shows "\<exists>d'. linkLocationToChannel b l c external d = Inr (LocationLinked, d')
    \<and> r\<lparr>liExternal := trim external\<rparr> \<in> set (dbLinks d')"
proof -
  have "\<not> list_ex (\<lambda>r. liConnection r = c \<and> liExternal r = trim external \<and> liLocation r \<noteq> l) (dbLinks d)"
    using assms(6) by (auto simp: list_ex_iff)
  moreover have "list_ex (is_link c l) (dbLinks d)" using assms(1,2) by (auto simp: list_ex_iff)
  ultimately show ?thesis
    using assms(1-5) by (auto simp: linkLocationToChannel_def upsert_link_def set_update_where)
qed

definition linked_shop :: db where
  "linked_shop = shop\<lparr>dbBusinesses := [1, 2],
     dbLinks := [\<lparr>liId = 91, liBusiness = 1, liLocation = 41, liConnection = 61, liExternal = ''WH1''\<rparr>]\<rparr>"

theorem link_update_ignores_business_witness:
  "\<exists>d'. linkLocationToChannel 2 41 61 ''WH9'' linked_shop = Inr (LocationLinked, d')
    \<and> \<lparr>liId = 91, liBusiness = 1, liLocation = 41, liConnection = 61, liExternal = ''WH9''\<rparr>
        \<in> set (dbLinks d')"
proof -
  have t: "trim ''WH9'' = ''WH9''" "external_shaped ''WH9''" by code_simp+
  have "is_link 61 41 (hd (dbLinks linked_shop))" by code_simp
  moreover have "hd (dbLinks linked_shop) \<in> set (dbLinks linked_shop)" by (simp add: linked_shop_def)
  ultimately show ?thesis
    using link_update_ignores_business [of "hd (dbLinks linked_shop)" linked_shop 61 41 "''WH9''" 2] t
    by (simp add: linked_shop_def)
qed

end
