(* ===== verification/Items.thy ===== *)
theory Items
  imports Settings Locations Availability Ledger
begin

text \<open>
  \<^verbatim>\<open>packages/inventory/src/items.ts\<close>: canonical items, whose identifier never changes and
  whose SKU and name may, and their settings at each location. \<open>readItemBalances\<close> resolves the
  three levels of safety stock for every place an item sits.
\<close>

section \<open>Constraint-checked writes\<close>

definition item_check :: "item_row \<Rightarrow> exn + unit" where
  "item_check r = check_all [
     (case itSafetyOverride r of None \<Rightarrow> True | Some s \<Rightarrow> int4 s, NumericValueOutOfRange),
     (text_within (itDescription r) 4000, CheckViolation ''canonical_items_description_bounded''),
     (case itSafetyOverride r of None \<Rightarrow> True | Some s \<Rightarrow> 0 \<le> s,
        CheckViolation ''canonical_items_safety_override_nonnegative''),
     (1 \<le> length (btrim (itSku r)) \<and> length (btrim (itSku r)) \<le> 128,
        CheckViolation ''canonical_items_sku_shaped'')]"

definition sku_taken :: "db \<Rightarrow> uuid \<Rightarrow> string \<Rightarrow> bool" where
  "sku_taken d b sku =
     list_ex (\<lambda>r. itBusiness r = b \<and> lower (itSku r) = lower sku \<and> itDeletedAt r = None) (dbItems d)"

definition insert_item :: "item_row \<Rightarrow> db \<Rightarrow> exn + db" where
  "insert_item r d =
     bindR (item_check r) (\<lambda>_.
     bindR (check_all [
       (\<not> sku_taken d (itBusiness r) (itSku r), UniqueViolation ''canonical_items_sku_unique''),
       (itBusiness r \<in> set (dbBusinesses d), ForeignKeyViolation ''canonical_items_business_id_fkey'')]) (\<lambda>_.
     Inr (d\<lparr>dbItems := dbItems d @ [r]\<rparr>)))"

text \<open>
  An update of the rows \<open>p\<close>: each new row against the row constraints, then against the SKU
  index, where the row it replaces does not count.
\<close>

definition sku_clash :: "item_row list \<Rightarrow> item_row \<Rightarrow> bool" where
  "sku_clash rows r \<longleftrightarrow> itDeletedAt r = None
     \<and> list_ex (\<lambda>x. itBusiness x = itBusiness r \<and> lower (itSku x) = lower (itSku r)
          \<and> itDeletedAt x = None \<and> itId x \<noteq> itId r) rows"

definition update_items :: "(item_row \<Rightarrow> bool) \<Rightarrow> (item_row \<Rightarrow> item_row) \<Rightarrow> db \<Rightarrow> exn + db" where
  "update_items p f d =
     bindR (update_checked p f (\<lambda>r. bindR (item_check r) (\<lambda>_.
       guardR (\<not> sku_clash (dbItems d) r) (UniqueViolation ''canonical_items_sku_unique''))) (dbItems d))
       (\<lambda>rows. Inr (d\<lparr>dbItems := rows\<rparr>))"

section \<open>Listing\<close>

definition it_before :: "item_row \<Rightarrow> item_row \<Rightarrow> bool" where
  "it_before a b = str_le (itSku a) (itSku b)"

interpretation item_order: row_order it_before
  by unfold_locales (unfold it_before_def, rule str_le_total, erule (1) str_le_trans)

definition listCanonicalItems :: "db \<Rightarrow> uuid \<Rightarrow> bool \<Rightarrow> item_row list" where
  "listCanonicalItems d b activeOnly =
     sort_by it_before
       (filter (\<lambda>r. itBusiness r = b \<and> itDeletedAt r = None \<and> (activeOnly \<longrightarrow> itIsActive r)) (dbItems d))"

section \<open>Creating and changing\<close>

text \<open>An omitted optional field is \<open>None\<close>; one given as null is \<open>Some None\<close>.\<close>

definition isOptionalWholeNonNegative :: "int option option \<Rightarrow> bool" where
  "isOptionalWholeNonNegative v =
     (case v of Some (Some n) \<Rightarrow> is_safe_integer n \<and> n \<ge> 0 | _ \<Rightarrow> True)"

record create_item_input =
  ciBusiness :: uuid
  ciSku :: string
  ciName :: string
  ciDescription :: "string option"
  ciSafetyOverride :: "int option"

datatype create_item_result = ItemCreated uuid | CreateSkuTaken | CreateItemInvalid string

definition new_item :: "create_item_input \<Rightarrow> uuid \<Rightarrow> item_row" where
  "new_item input i =
     \<lparr>itId = i, itBusiness = ciBusiness input, itSku = trim (ciSku input), itName = trim (ciName input),
      itDescription = ciDescription input, itSafetyOverride = ciSafetyOverride input,
      itIsKit = False, itIsActive = True, itDeletedAt = None\<rparr>"

definition createCanonicalItem :: "create_item_input \<Rightarrow> db \<Rightarrow> exn + create_item_result \<times> db" where
  "createCanonicalItem input d =
     (let sku = trim (ciSku input); name = trim (ciName input)
      in if sku = [] \<or> length sku > 128
         then Inr (CreateItemInvalid ''a SKU is between 1 and 128 characters'', d)
         else if name = [] then Inr (CreateItemInvalid ''an item needs a name'', d)
         else if \<not> isOptionalWholeNonNegative (Some (ciSafetyOverride input))
         then Inr (CreateItemInvalid ''safety stock must be a whole number of units'', d)
         else let (i, d1) = take_uuid d
              in case insert_item (new_item input i) d1 of
                   Inr d2 \<Rightarrow> Inr (ItemCreated i, d2)
                 | Inl e \<Rightarrow> if e = UniqueViolation ''canonical_items_sku_unique''
                           then Inr (CreateSkuTaken, d) else Inl e)"

record update_item_input =
  uiBusiness :: uuid
  uiItem :: uuid
  uiSku :: "string option"
  uiName :: "string option"
  uiDescription :: "string option option"
  uiSafetyOverride :: "int option option"
  uiIsActive :: "bool option"

datatype update_item_result = ItemUpdated | ItemNotFound | UpdateSkuTaken | UpdateItemInvalid string

definition changes_item :: "update_item_input \<Rightarrow> bool" where
  "changes_item input \<longleftrightarrow> uiSku input \<noteq> None \<or> uiName input \<noteq> None \<or> uiDescription input \<noteq> None
     \<or> uiSafetyOverride input \<noteq> None \<or> uiIsActive input \<noteq> None"

definition is_live_item :: "uuid \<Rightarrow> uuid \<Rightarrow> item_row \<Rightarrow> bool" where
  "is_live_item b i r \<longleftrightarrow> itBusiness r = b \<and> itId r = i \<and> itDeletedAt r = None"

definition apply_item_change :: "update_item_input \<Rightarrow> item_row \<Rightarrow> item_row" where
  "apply_item_change input r =
     r\<lparr>itSku := given (map_option trim (uiSku input)) (itSku r),
       itName := given (map_option trim (uiName input)) (itName r),
       itDescription := given (uiDescription input) (itDescription r),
       itSafetyOverride := given (uiSafetyOverride input) (itSafetyOverride r),
       itIsActive := given (uiIsActive input) (itIsActive r)\<rparr>"

definition updateCanonicalItem :: "update_item_input \<Rightarrow> db \<Rightarrow> exn + update_item_result \<times> db" where
  "updateCanonicalItem input d =
     (let sku = map_option trim (uiSku input); name = map_option trim (uiName input)
      in if (case sku of None \<Rightarrow> False | Some s \<Rightarrow> s = [] \<or> length s > 128)
         then Inr (UpdateItemInvalid ''a SKU is between 1 and 128 characters'', d)
         else if name = Some [] then Inr (UpdateItemInvalid ''an item needs a name'', d)
         else if \<not> isOptionalWholeNonNegative (uiSafetyOverride input)
         then Inr (UpdateItemInvalid ''safety stock must be a whole number of units'', d)
         else if \<not> changes_item input then Inl (PlainError ''No values to set'')
         else case update_items (is_live_item (uiBusiness input) (uiItem input))
                     (apply_item_change input) d of
                Inr d' \<Rightarrow> Inr (if list_ex (is_live_item (uiBusiness input) (uiItem input)) (dbItems d)
                               then ItemUpdated else ItemNotFound, d')
              | Inl e \<Rightarrow> if e = UniqueViolation ''canonical_items_sku_unique''
                        then Inr (UpdateSkuTaken, d) else Inl e)"

section \<open>Settings of an item at a location\<close>

record item_location_settings =
  isBusiness :: uuid
  isItem :: uuid
  isLocation :: uuid
  isSafetyStock :: "int option option"
  isBin :: "string option option"
  isNote :: "string option option"

datatype set_item_location_result = ItemLocationSaved | ItemLocationInvalid string

definition assign_settings :: "item_location_settings \<Rightarrow> balance_row \<Rightarrow> balance_row" where
  "assign_settings input r =
     r\<lparr>baSafetyStock := given (isSafetyStock input) (baSafetyStock r),
       baBin := given (isBin input) (baBin r), baNote := given (isNote input) (baNote r)\<rparr>"

definition settings_key :: "item_location_settings \<Rightarrow> uuid \<times> uuid \<times> uuid" where
  "settings_key input = (isBusiness input, isItem input, isLocation input)"

definition empty_balance :: "uuid \<times> uuid \<times> uuid \<Rightarrow> balance_row" where
  "empty_balance k = (case k of (b, i, l) \<Rightarrow>
     \<lparr>baBusiness = b, baItem = i, baLocation = l, baOnHand = 0, baReserved = 0,
      baSafetyStock = None, baBin = None, baNote = None\<rparr>)"

text \<open>
  The constraints of the proposed row are checked before the conflict is looked for, as
  PostgreSQL does for \<open>insert ... on conflict do update\<close>.
\<close>

definition setItemLocationSettings :: "item_location_settings \<Rightarrow> db
    \<Rightarrow> exn + set_item_location_result \<times> db" where
  "setItemLocationSettings input d =
     (if \<not> isOptionalWholeNonNegative (isSafetyStock input)
      then Inr (ItemLocationInvalid ''safety stock must be a whole number of units'', d)
      else let proposed = assign_settings input (empty_balance (settings_key input))
      in bindR (balance_check proposed) (\<lambda>_.
         bindR (if find_balance d (settings_key input) = None then insert_balance proposed d
                else update_balance (settings_key input) (assign_settings input) d) (\<lambda>d'.
         Inr (ItemLocationSaved, d'))))"

record resolved_item_location =
  rlLocation :: uuid
  rlCode :: string
  rlOnHand :: int
  rlReserved :: int
  rlSafetyStock :: int
  rlSafetyStockFrom :: safety_stock_source
  rlBin :: "string option"
  rlNote :: "string option"

definition location_of :: "db \<Rightarrow> uuid \<Rightarrow> location_row option" where
  "location_of d l = lookup_by loId l (dbLocations d)"

text \<open>Balance rows joined to their locations; each row names one location at most.\<close>

definition with_location :: "db \<Rightarrow> balance_row list \<Rightarrow> (balance_row \<times> location_row) list" where
  "with_location d rows =
     List.map_filter (\<lambda>r. map_option (Pair r) (location_of d (baLocation r))) rows"

definition pair_before :: "balance_row \<times> location_row \<Rightarrow> balance_row \<times> location_row \<Rightarrow> bool" where
  "pair_before x y = lo_before (snd x) (snd y)"

interpretation balance_order: row_order pair_before
  by unfold_locales (use location_order.le_total location_order.le_trans in \<open>auto simp: pair_before_def\<close>)

definition levels_at :: "inventory_settings \<Rightarrow> int option \<Rightarrow> balance_row \<Rightarrow> safety_stock_levels" where
  "levels_at s item r = \<lparr>businessDefault = stSafetyStock s, itemOverride = item,
     locationOverride = baSafetyStock r\<rparr>"

definition readItemBalances :: "db \<Rightarrow> uuid \<Rightarrow> uuid \<Rightarrow> exn + resolved_item_location list" where
  "readItemBalances d b i =
     (let settings = readSettings d b
      in case List.find (\<lambda>r. itBusiness r = b \<and> itId r = i) (dbItems d) of
           None \<Rightarrow> Inr []
         | Some item \<Rightarrow>
             mapR (\<lambda>(r, l). let levels = levels_at settings (itSafetyOverride item) r in
                 bindR (effectiveSafetyStock levels) (\<lambda>safety.
                 Inr \<lparr>rlLocation = baLocation r, rlCode = loCode l, rlOnHand = baOnHand r,
                      rlReserved = baReserved r, rlSafetyStock = safety,
                      rlSafetyStockFrom = safetyStockSource levels, rlBin = baBin r, rlNote = baNote r\<rparr>))
               (sort_by pair_before (filter (\<lambda>(r, l). loDeletedAt l = None)
                 (with_location d (filter (\<lambda>r. baBusiness r = b \<and> baItem r = i) (dbBalances d))))))"

section \<open>Uniqueness of the SKU\<close>

definition live_sku :: "item_row \<Rightarrow> (uuid \<times> string) option" where
  "live_sku r = (if itDeletedAt r = None then Some (itBusiness r, lower (itSku r)) else None)"

definition items_ok :: "db \<Rightarrow> bool" where
  "items_ok d \<longleftrightarrow> unique_on live_sku (dbItems d) \<and> distinct (map itId (dbItems d))
     \<and> list_all (\<lambda>r. itId r < dbNextUuid d) (dbItems d)"

lemma sku_taken_iff: "sku_taken d b sku \<longleftrightarrow> Some (b, lower sku) \<in> live_sku ` set (dbItems d)"
proof
  assume "sku_taken d b sku"
  then obtain r where "r \<in> set (dbItems d)" "live_sku r = Some (b, lower sku)"
    by (auto simp: sku_taken_def live_sku_def list_ex_iff)
  then show "Some (b, lower sku) \<in> live_sku ` set (dbItems d)" by (metis image_eqI)
next
  assume "Some (b, lower sku) \<in> live_sku ` set (dbItems d)"
  then show "sku_taken d b sku"
    by (auto simp: sku_taken_def live_sku_def list_ex_iff split: if_splits)
qed

lemma insert_item_Inr:
  "insert_item r d = Inr d' \<longleftrightarrow> item_check r = Inr ()
     \<and> \<not> sku_taken d (itBusiness r) (itSku r) \<and> itBusiness r \<in> set (dbBusinesses d)
     \<and> d' = d\<lparr>dbItems := dbItems d @ [r]\<rparr>"
  by (auto simp: insert_item_def item_check_def result_simps split: if_splits)

lemma createCanonicalItem_cases:
  assumes "createCanonicalItem input d = Inr (result, d')"
  obtains (refused) "\<And>i. result \<noteq> ItemCreated i" "d' = d"
  | (created) r where "result = ItemCreated (dbNextUuid d)" "r = new_item input (dbNextUuid d)"
      "\<not> sku_taken d (ciBusiness input) (trim (ciSku input))"
      "d' = d\<lparr>dbNextUuid := Suc (dbNextUuid d), dbItems := dbItems d @ [r]\<rparr>"
proof -
  define d1 where "d1 = d\<lparr>dbNextUuid := Suc (dbNextUuid d)\<rparr>"
  define r where "r = new_item input (dbNextUuid d)"
  have same: "sku_taken d1 b c = sku_taken d b c" for b c by (simp add: sku_taken_def d1_def)
  have r: "itBusiness r = ciBusiness input" "itSku r = trim (ciSku input)"
    by (simp_all add: r_def new_item_def)
  consider (i) "\<And>i. result \<noteq> ItemCreated i" "d' = d"
    | (ins) "(case insert_item r d1 of Inr d2 \<Rightarrow> Inr (ItemCreated (dbNextUuid d), d2)
         | Inl e \<Rightarrow> if e = UniqueViolation ''canonical_items_sku_unique''
                   then Inr (CreateSkuTaken, d) else Inl e) = Inr (result, d')"
    using assms unfolding createCanonicalItem_def Let_def take_uuid_def prod.case r_def [symmetric]
      d1_def [symmetric]
    by (simp split: if_splits) blast+
  then show thesis
  proof cases
    case i then show ?thesis by (rule refused)
  next
    case ins
    show ?thesis
    proof (cases "insert_item r d1")
      case (Inl e)
      with ins show ?thesis by (intro refused) (simp_all split: if_splits)
    next
      case (Inr d2)
      with ins have res: "result = ItemCreated (dbNextUuid d)" "d' = d2" by simp_all
      have i: "\<not> sku_taken d (itBusiness r) (itSku r)" "d2 = d1\<lparr>dbItems := dbItems d1 @ [r]\<rparr>"
        using Inr [unfolded insert_item_Inr same] by blast+
      have "d' = d\<lparr>dbNextUuid := Suc (dbNextUuid d), dbItems := dbItems d @ [r]\<rparr>"
        unfolding res(2) i(2) d1_def by simp
      with i(1) res(1) show ?thesis by (intro created [OF _ r_def]) (simp_all add: r)
    qed
  qed
qed

lemma updateCanonicalItem_cases:
  assumes "updateCanonicalItem input d = Inr (result, d')"
  obtains (refused) "result \<noteq> ItemUpdated" "d' = d"
  | (updated) "result = ItemUpdated"
      "\<And>r. r \<in> set (dbItems d) \<Longrightarrow> is_live_item (uiBusiness input) (uiItem input) r
         \<Longrightarrow> \<not> sku_clash (dbItems d) (apply_item_change input r)"
      "d' = d\<lparr>dbItems := update_where (is_live_item (uiBusiness input) (uiItem input))
                 (apply_item_change input) (dbItems d)\<rparr>"
proof -
  let ?p = "is_live_item (uiBusiness input) (uiItem input)"
  have upd: "update_items ?p (apply_item_change input) d = Inr x \<Longrightarrow>
      x = d\<lparr>dbItems := update_where ?p (apply_item_change input) (dbItems d)\<rparr>
      \<and> (\<forall>r \<in> set (dbItems d). ?p r \<longrightarrow> \<not> sku_clash (dbItems d) (apply_item_change input r))" for x
    by (auto simp: update_items_def result_simps update_checked_Inr)
  have id: "\<not> list_ex ?p (dbItems d) \<Longrightarrow>
      update_where ?p (apply_item_change input) (dbItems d) = dbItems d"
    by (rule update_where_id) (auto simp: list_ex_iff)
  consider (i) "result \<noteq> ItemUpdated" "d' = d"
    | (w) "update_items ?p (apply_item_change input) d = Inr d'"
        "result = (if list_ex ?p (dbItems d) then ItemUpdated else ItemNotFound)"
  proof (cases "update_items ?p (apply_item_change input) d")
    case (Inl e)
    with assms have "result \<noteq> ItemUpdated" "d' = d"
      unfolding updateCanonicalItem_def Let_def by (auto split: if_splits)
    then show ?thesis by (rule i)
  next
    case (Inr x)
    with assms have "result \<noteq> ItemUpdated \<and> d' = d
        \<or> x = d' \<and> result = (if list_ex ?p (dbItems d) then ItemUpdated else ItemNotFound)"
      unfolding updateCanonicalItem_def Let_def by (simp split: if_splits) blast+
    with Inr i w show ?thesis by blast
  qed
  then show thesis
  proof cases
    case i then show ?thesis by (rule refused)
  next
    case w
    show ?thesis
    proof (cases "list_ex ?p (dbItems d)")
      case True
      with w upd [OF w(1)] show ?thesis by (intro updated) simp_all
    next
      case False
      have "d' = d" using upd [OF w(1)] id [OF False] by simp
      with w(2) False show ?thesis by (intro refused) simp_all
    qed
  qed
qed

section \<open>Settings move no stock\<close>

lemma assign_settings_simps [simp]:
  "balance_key (assign_settings input r) = balance_key r"
  "baOnHand (assign_settings input r) = baOnHand r"
  "baReserved (assign_settings input r) = baReserved r"
  "balance_key (empty_balance k) = k"
  "baOnHand (empty_balance k) = 0" "baReserved (empty_balance k) = 0"
  by (simp_all add: assign_settings_def balance_key_def empty_balance_def split: prod.splits)

lemma setItemLocationSettings_saved:
  assumes "setItemLocationSettings input d = Inr (ItemLocationSaved, d')"
  defines "k \<equiv> settings_key input"
  shows "d' = d\<lparr>dbBalances := dbBalances d'\<rparr>"
    and "find_balance d' k' = (if k' = k then Some (assign_settings input
           (case find_balance d k of None \<Rightarrow> empty_balance k | Some r \<Rightarrow> r)) else find_balance d k')"
    and "balances_ok d \<Longrightarrow> balances_ok d'"
proof -
  let ?r = "assign_settings input (empty_balance k)"
  have w: "(if find_balance d k = None then insert_balance ?r d
      else update_balance k (assign_settings input) d) = Inr d'"
    using assms unfolding setItemLocationSettings_def Let_def
    by (auto simp: result_simps split: if_splits)
  have "d' = d\<lparr>dbBalances := dbBalances d'\<rparr> \<and>
    find_balance d' k' = (if k' = k then Some (assign_settings input
       (case find_balance d k of None \<Rightarrow> empty_balance k | Some r \<Rightarrow> r)) else find_balance d k')
    \<and> (balances_ok d \<longrightarrow> balances_ok d')"
  proof (cases "find_balance d k")
    case None
    with w have ins: "insert_balance ?r d = Inr d'" by simp
    note d' = insert_balance_Inr(1) [OF ins]
    have "find_balance d' k' = (if k' = k then Some ?r else find_balance d k')"
      unfolding d' find_balance_append using None by (simp split: option.splits)
    moreover have "k \<notin> balance_key ` set (dbBalances d)"
      using None by (simp add: find_balance_def balances.lookup_None)
    then have "balances_ok d \<longrightarrow> balances_ok d'"
      using insert_balance_Inr(2) [OF ins] by (auto simp: balances_ok_def d')
    ultimately show ?thesis using None by (simp add: d')
  next
    case (Some r)
    with w have u: "update_balance k (assign_settings input) d = Inr d'" by simp
    from update_balance_Inr [OF u, simplified] show ?thesis using Some by simp
  qed
  then show "d' = d\<lparr>dbBalances := dbBalances d'\<rparr>"
    and "find_balance d' k' = (if k' = k then Some (assign_settings input
           (case find_balance d k of None \<Rightarrow> empty_balance k | Some r \<Rightarrow> r)) else find_balance d k')"
    and "balances_ok d \<Longrightarrow> balances_ok d'" by blast+
qed

section \<open>Resolution\<close>

definition item_rows :: "db \<Rightarrow> uuid \<Rightarrow> uuid \<Rightarrow> (balance_row \<times> location_row) list" where
  "item_rows d b i = filter (\<lambda>(r, l). loDeletedAt l = None)
     (with_location d (filter (\<lambda>r. baBusiness r = b \<and> baItem r = i) (dbBalances d)))"

definition resolve_row :: "db \<Rightarrow> uuid \<Rightarrow> item_row \<Rightarrow> balance_row \<times> location_row \<Rightarrow> resolved_item_location" where
  "resolve_row d b item x = (let levels = levels_at (readSettings d b) (itSafetyOverride item) (fst x) in
     \<lparr>rlLocation = baLocation (fst x), rlCode = loCode (snd x), rlOnHand = baOnHand (fst x),
      rlReserved = baReserved (fst x), rlSafetyStock = level_of levels,
      rlSafetyStockFrom = safetyStockSource levels, rlBin = baBin (fst x), rlNote = baNote (fst x)\<rparr>)"

text \<open>Every stored safety stock is a number of units: the check constraints say so.\<close>

definition safety_ok :: "db \<Rightarrow> bool" where
  "safety_ok d \<longleftrightarrow> list_all (\<lambda>r. settings_check d r = Inr ()) (dbSettings d)
     \<and> list_all (\<lambda>r. item_check r = Inr ()) (dbItems d)"

lemma item_check_safety:
  "item_check r = Inr () \<Longrightarrow> itSafetyOverride r = Some v \<Longrightarrow> 0 \<le> v"
  by (simp add: item_check_def split: if_splits)

lemma levels_at_ok:
  assumes "balances_ok d" and "safety_ok d" and "r \<in> set (dbBalances d)" and "item \<in> set (dbItems d)"
  shows "levels_ok (levels_at (readSettings d b) (itSafetyOverride item) r)"
proof -
  have "0 \<le> stSafetyStock (readSettings d b)"
  proof (cases "lookup_by seBusiness b (dbSettings d)")
    case (Some r)
    then have "settings_check d r = Inr ()" using assms(2) settings.lookup_key [OF Some]
      by (simp add: safety_ok_def list_all_iff)
    then show ?thesis by (auto simp: readSettings_def Some settings_check_def split: if_splits)
  qed (simp add: readSettings_def defaultSettings_def DEFAULT_SAFETY_STOCK_def)
  moreover have "case itSafetyOverride item of None \<Rightarrow> True | Some v \<Rightarrow> 0 \<le> v"
    using assms(2,4) item_check_safety by (auto simp: safety_ok_def list_all_iff split: option.splits)
  moreover have "case baSafetyStock r of None \<Rightarrow> True | Some v \<Rightarrow> 0 \<le> v"
    using assms(1,3) by (auto simp: balances_ok_def balance_check_Inr split: option.splits)
  ultimately show ?thesis by (simp add: levels_ok_def levels_at_def)
qed

lemma with_location_simps [simp]:
  "with_location d [] = []"
  "with_location d (r # rows) = (case location_of d (baLocation r) of None \<Rightarrow> with_location d rows
     | Some l \<Rightarrow> (r, l) # with_location d rows)"
  by (simp_all add: with_location_def List.map_filter_simps split: option.splits)

lemma with_location_set:
  "x \<in> set (with_location d rows) \<longleftrightarrow> fst x \<in> set rows \<and> location_of d (baLocation (fst x)) = Some (snd x)"
proof (induction rows)
  case (Cons r rows)
  then show ?case
    by (cases x) (auto split: option.splits)
qed simp

lemma readItemBalances_rows:
  assumes "balances_ok d" and "safety_ok d"
    and "List.find (\<lambda>r. itBusiness r = b \<and> itId r = i) (dbItems d) = Some item"
  shows "readItemBalances d b i
    = Inr (map (resolve_row d b item) (sort_by pair_before (item_rows d b i)))"
proof -
  have item: "item \<in> set (dbItems d)" using assms(3) by (auto simp: find_Some_iff)
  let ?read = "\<lambda>(r, l). let levels = levels_at (readSettings d b) (itSafetyOverride item) r in
      bindR (effectiveSafetyStock levels) (\<lambda>safety.
      Inr \<lparr>rlLocation = baLocation r, rlCode = loCode l, rlOnHand = baOnHand r,
        rlReserved = baReserved r, rlSafetyStock = safety,
        rlSafetyStockFrom = safetyStockSource levels, rlBin = baBin r, rlNote = baNote r\<rparr>)"
  have "?read x = Inr (resolve_row d b item x)" if "x \<in> set (sort_by pair_before (item_rows d b i))" for x
  proof -
    obtain r l where x: "x = (r, l)" by (cases x)
    have "r \<in> set (dbBalances d)" using that by (auto simp: x item_rows_def with_location_set)
    then have "effectiveSafetyStock (levels_at (readSettings d b) (itSafetyOverride item) r)
        = Inr (level_of (levels_at (readSettings d b) (itSafetyOverride item) r))"
      using levels_at_ok [OF assms(1,2) _ item] by (simp add: effectiveSafetyStock_Inr)
    then show ?thesis by (simp add: x resolve_row_def Let_def)
  qed
  then have "mapR ?read (sort_by pair_before (item_rows d b i))
      = Inr (map (resolve_row d b item) (sort_by pair_before (item_rows d b i)))"
    by (rule mapR_total)
  then show ?thesis
    by (simp add: readItemBalances_def Let_def assms(3) item_rows_def)
qed

section \<open>Properties\<close>

text \<open>
  An item's identity outlives its SKU. Starting from unique SKUs and identifiers,
  \<open>createCanonicalItem\<close> and \<open>updateCanonicalItem\<close> keep them unique (SKUs up to case, among
  live items of a business); a created item has a fresh identifier and refuses no SKU that is
  free; and an update, renames included, leaves every identifier, kind, balance, ledger entry and
  reservation as it was.
\<close>

theorem item_identity_stable:
  assumes "items_ok d"
  shows "(createCanonicalItem ci d = Inr (cr, d1) \<longrightarrow> items_ok d1
        \<and> (\<forall>i. cr = ItemCreated i \<longrightarrow> i \<notin> itId ` set (dbItems d)
             \<and> \<not> sku_taken d (ciBusiness ci) (trim (ciSku ci))
             \<and> dbItems d1 = dbItems d @ [new_item ci i]))
    \<and> (updateCanonicalItem ui d = Inr (ur, d2) \<longrightarrow> items_ok d2
        \<and> map (\<lambda>r. (itId r, itBusiness r, itIsKit r)) (dbItems d2)
            = map (\<lambda>r. (itId r, itBusiness r, itIsKit r)) (dbItems d)
        \<and> dbBalances d2 = dbBalances d \<and> dbLedger d2 = dbLedger d
        \<and> dbReservations d2 = dbReservations d)"
proof (intro conjI impI)
  assume c: "createCanonicalItem ci d = Inr (cr, d1)"
  from c show "items_ok d1"
  proof (cases rule: createCanonicalItem_cases)
    case (created r)
    have "dbNextUuid d \<notin> itId ` set (dbItems d)" using assms by (auto simp: items_ok_def list_all_iff)
    with created assms show ?thesis
      by (auto simp: items_ok_def unique_on_append sku_taken_iff live_sku_def new_item_def list_all_iff)
  qed (simp add: assms)
  from c show "\<forall>i. cr = ItemCreated i \<longrightarrow> i \<notin> itId ` set (dbItems d)
             \<and> \<not> sku_taken d (ciBusiness ci) (trim (ciSku ci))
             \<and> dbItems d1 = dbItems d @ [new_item ci i]"
    using assms by (cases rule: createCanonicalItem_cases) (auto simp: items_ok_def list_all_iff)
next
  assume u: "updateCanonicalItem ui d = Inr (ur, d2)"
  let ?p = "is_live_item (uiBusiness ui) (uiItem ui)" and ?f = "apply_item_change ui"
  have f: "itId (?f r) = itId r" "itBusiness (?f r) = itBusiness r" "itIsKit (?f r) = itIsKit r"
    "itDeletedAt (?f r) = itDeletedAt r" for r by (simp_all add: apply_item_change_def)
  from u show "items_ok d2"
  proof (cases rule: updateCanonicalItem_cases)
    case updated
    have "unique_on live_sku (update_where ?p ?f (dbItems d))"
    proof (rule unique_on_move)
      show "unique_on live_sku (dbItems d)" "distinct (map itId (dbItems d))"
        using assms by (simp_all add: items_ok_def)
      fix r r'
      assume "r \<in> set (dbItems d)" "?p r" "r' \<in> set (dbItems d)" "itId r' \<noteq> itId r" "live_sku (?f r) \<noteq> None"
      with updated(2) [of r] show "live_sku r' \<noteq> live_sku (?f r)"
        by (auto simp: sku_clash_def live_sku_def list_ex_iff f split: if_splits)
    next
      fix r r' assume "?p r" "?p r'"
      then show "itId r = itId r'" by (simp add: is_live_item_def)
    qed
    moreover have "map itId (update_where ?p ?f (dbItems d)) = map itId (dbItems d)"
      by (rule map_update_where) (rule f)
    ultimately show ?thesis using assms
      by (auto simp: items_ok_def updated(3) list_all_iff set_update_where f)
  qed (simp add: assms)
  from u show "map (\<lambda>r. (itId r, itBusiness r, itIsKit r)) (dbItems d2)
      = map (\<lambda>r. (itId r, itBusiness r, itIsKit r)) (dbItems d)"
  proof (cases rule: updateCanonicalItem_cases)
    case updated
    then show ?thesis by (simp add: map_update_where f)
  qed simp
  from u show "dbBalances d2 = dbBalances d" "dbLedger d2 = dbLedger d" "dbReservations d2 = dbReservations d"
    by (cases rule: updateCanonicalItem_cases; simp)+
qed

definition rename_bolt :: update_item_input where
  "rename_bolt = \<lparr>uiBusiness = 1, uiItem = 21, uiSku = Some '' BOLT-2 '', uiName = None,
     uiDescription = None, uiSafetyOverride = Some (Some 3), uiIsActive = None\<rparr>"

theorem item_identity_stable_witness:
  "items_ok shop
   \<and> (\<exists>d2. updateCanonicalItem rename_bolt shop = Inr (ItemUpdated, d2) \<and> items_ok d2
        \<and> map itSku (dbItems d2) = [''BOLT-2'', ''NUT'', ''SET''])
   \<and> updateCanonicalItem (rename_bolt\<lparr>uiSku := Some ''nut''\<rparr>) shop = Inr (UpdateSkuTaken, shop)"
proof -
  have ok: "items_ok shop" by code_simp
  have "case updateCanonicalItem rename_bolt shop of Inl e \<Rightarrow> False
      | Inr (r, d2) \<Rightarrow> r = ItemUpdated \<and> map itSku (dbItems d2) = [''BOLT-2'', ''NUT'', ''SET'']"
    by code_simp
  then obtain d2 where u: "updateCanonicalItem rename_bolt shop = Inr (ItemUpdated, d2)"
    "map itSku (dbItems d2) = [''BOLT-2'', ''NUT'', ''SET'']" by (auto split: sum.splits)
  have t: "updateCanonicalItem (rename_bolt\<lparr>uiSku := Some ''nut''\<rparr>) shop = Inr (UpdateSkuTaken, shop)"
    by code_simp
  have "items_ok d2" using item_identity_stable [OF ok, THEN conjunct2, of rename_bolt ItemUpdated d2] u(1)
    by blast
  then show ?thesis by (intro conjI ok t exI [of _ d2] u)
qed

text \<open>
  Settings are not stock. When \<open>setItemLocationSettings\<close> answers \<open>saved\<close>, the row of
  that item and location exists with the given safety stock, bin and note (those not given
  kept), the units on hand and reserved of every item and location are what they were, no
  ledger entry is written, and balances that were sound and explained stay so.
\<close>

theorem item_settings_move_no_stock:
  assumes "setItemLocationSettings input d = Inr (ItemLocationSaved, d')"
  shows "on_hand_at d' = on_hand_at d \<and> reserved_at d' = reserved_at d \<and> dbLedger d' = dbLedger d
    \<and> (stock_good d \<longrightarrow> stock_good d')
    \<and> (\<exists>r. find_balance d' (settings_key input) = Some r
        \<and> (\<forall>v. isSafetyStock input = Some v \<longrightarrow> baSafetyStock r = v)
        \<and> (\<forall>v. isBin input = Some v \<longrightarrow> baBin r = v) \<and> (\<forall>v. isNote input = Some v \<longrightarrow> baNote r = v))"
proof -
  note saved = setItemLocationSettings_saved [OF assms]
  have led: "dbLedger d' = dbLedger d" by (subst saved(1)) simp
  have "on_hand_at d' k = on_hand_at d k \<and> reserved_at d' k = reserved_at d k" for k
    by (auto simp: on_hand_at_def reserved_at_def saved(2) split: option.splits)
  then have same: "on_hand_at d' = on_hand_at d" "reserved_at d' = reserved_at d" by auto
  with led saved(3) have "stock_good d \<longrightarrow> stock_good d'" by (simp add: stock_good_def explained_def)
  moreover obtain r where "find_balance d' (settings_key input) = Some (assign_settings input r)"
    using saved(2) [of "settings_key input"] by simp
  ultimately show ?thesis using same led by (auto simp: assign_settings_def given_def)
qed

definition shelve_nut :: item_location_settings where
  "shelve_nut = \<lparr>isBusiness = 1, isItem = 22, isLocation = 42, isSafetyStock = Some (Some 2),
     isBin = Some (Some ''B7''), isNote = None\<rparr>"

theorem item_settings_move_no_stock_witness:
  "\<exists>d'. setItemLocationSettings shelve_nut shop = Inr (ItemLocationSaved, d') \<and> stock_good d'
     \<and> on_hand_at d' (1, 22, 42) = 0 \<and> on_hand_at d' (1, 22, 41) = 3"
proof -
  have "case setItemLocationSettings shelve_nut shop of Inl e \<Rightarrow> False | Inr (r, d') \<Rightarrow> r = ItemLocationSaved"
    by code_simp
  then obtain d' where s: "setItemLocationSettings shelve_nut shop = Inr (ItemLocationSaved, d')"
    by (auto split: sum.splits)
  have "on_hand_at shop (1, 22, 42) = 0" "on_hand_at shop (1, 22, 41) = 3" by code_simp+
  with s item_settings_move_no_stock [OF s] shop_good show ?thesis by auto
qed

text \<open>
  Safety stock is resolved the same way everywhere an item sits. For an item of the
  business, over a database whose constraints hold, \<open>readItemBalances\<close> always answers, with one
  row per balance of the item at a live location, in allocation order; each row's safety stock is
  the location's override if set (zero included), else the item's, else the business default, and
  the row says which of the three it came from.
\<close>

theorem item_balances_resolved:
  assumes "balances_ok d" and "safety_ok d"
    and "List.find (\<lambda>r. itBusiness r = b \<and> itId r = i) (dbItems d) = Some item"
  shows "\<exists>rows. readItemBalances d b i = Inr (map (resolve_row d b item) rows)
    \<and> sorted_wrt (\<lambda>x y. lo_before (snd x) (snd y)) rows
    \<and> distinct (map (\<lambda>x. balance_key (fst x)) rows)
    \<and> set rows = {(r, l). r \<in> set (dbBalances d) \<and> baBusiness r = b \<and> baItem r = i
        \<and> location_of d (baLocation r) = Some l \<and> loDeletedAt l = None}
    \<and> (\<forall>x. (rlSafetyStock (resolve_row d b item x), rlSafetyStockFrom (resolve_row d b item x)) =
        (case baSafetyStock (fst x) of Some s \<Rightarrow> (s, FromLocation)
         | None \<Rightarrow> (case itSafetyOverride item of Some s \<Rightarrow> (s, FromItem)
           | None \<Rightarrow> (stSafetyStock (readSettings d b), FromBusiness))))"
proof (intro exI conjI)
  show "readItemBalances d b i = Inr (map (resolve_row d b item) (sort_by pair_before (item_rows d b i)))"
    by (rule readItemBalances_rows [OF assms])
  show "sorted_wrt (\<lambda>x y. lo_before (snd x) (snd y)) (sort_by pair_before (item_rows d b i))"
    using balance_order.sorted_sort_by [of "item_rows d b i"] by (simp add: pair_before_def [abs_def])
  have "distinct (map (\<lambda>x. balance_key (fst x)) (with_location d rows))"
    if "distinct (map balance_key rows)" for rows
    using that
  proof (induction rows)
    case (Cons r rs)
    then show ?case
      by (auto simp: with_location_set split: option.splits)
  qed simp
  then have "distinct (map (\<lambda>x. balance_key (fst x)) (item_rows d b i))"
    using assms(1) by (simp add: item_rows_def balances_ok_def distinct_map_filter)
  then show "distinct (map (\<lambda>x. balance_key (fst x)) (sort_by pair_before (item_rows d b i)))" by simp
  show "set (sort_by pair_before (item_rows d b i)) = {(r, l). r \<in> set (dbBalances d)
        \<and> baBusiness r = b \<and> baItem r = i \<and> location_of d (baLocation r) = Some l \<and> loDeletedAt l = None}"
    by (auto simp: item_rows_def with_location_set)
qed (simp add: resolve_row_def Let_def levels_at_def level_of_def safetyStockSource_def split: option.splits)

theorem item_balances_resolved_witness:
  "balances_ok shop \<and> safety_ok shop
   \<and> (\<exists>rows. readItemBalances shop 1 21 = Inr rows \<and> length rows = 2)"
proof -
  have b: "balances_ok shop" and s: "safety_ok shop" by code_simp+
  have i: "List.find (\<lambda>r. itBusiness r = 1 \<and> itId r = 21) (dbItems shop) = Some (hd (dbItems shop))"
    by (simp add: shop_def)
  obtain rows where r: "readItemBalances shop 1 21 = Inr (map (resolve_row shop 1 (hd (dbItems shop))) rows)"
    using item_balances_resolved [OF b s i] by blast
  have "case readItemBalances shop 1 21 of Inl e \<Rightarrow> False | Inr rows \<Rightarrow> length rows = 2" by code_simp
  with r b s show ?thesis by auto
qed

end
