(* ===== verification/Kits.thy ===== *)
theory Kits
  imports Items
begin

text \<open>
  \<^verbatim>\<open>packages/inventory/src/kits.ts\<close>: fixed-quantity kits. Declaring a kit, drafting and
  approving recipe versions, reading the recipe in force, the number of kits the components can
  make, and the overlaps between kits and their components.
\<close>

section \<open>Constraint-checked writes\<close>

text \<open>
  Changing \<open>is_kit\<close> is refused while a balance, a ledger entry or a recipe component still
  names the item as a stocked one: the composite foreign keys carry the flag.
\<close>

definition mark_kit :: "uuid \<Rightarrow> uuid \<Rightarrow> db \<Rightarrow> exn + db" where
  "mark_kit b i d =
     bindR (check_all [
       (\<not> list_ex (\<lambda>r. baBusiness r = b \<and> baItem r = i) (dbBalances d),
          ForeignKeyViolation ''location_balances_item_kind_fkey''),
       (\<not> list_ex (\<lambda>r. leBusiness r = b \<and> leItem r = i) (dbLedger d),
          ForeignKeyViolation ''inventory_ledger_item_kind_fkey''),
       (\<not> list_ex (\<lambda>r. rcBusiness r = b \<and> rcComponent r = i) (dbComponents d),
          ForeignKeyViolation ''kit_recipe_components_component_fkey'')]) (\<lambda>_.
     Inr (d\<lparr>dbItems := update_where (\<lambda>r. itId r = i) (\<lambda>r. r\<lparr>itIsKit := True\<rparr>) (dbItems d)\<rparr>))"

definition recipe_check :: "db \<Rightarrow> recipe_row \<Rightarrow> exn + unit" where
  "recipe_check d r = check_all [
     (int4 (reVersion r), NumericValueOutOfRange),
     (reStatus r = RecipeDraft \<or> reApprovedAt r \<noteq> None \<and> reApprovedBy r \<noteq> None,
        CheckViolation ''kit_recipes_approval_recorded''),
     (1 \<le> reVersion r, CheckViolation ''kit_recipes_version_positive'')]"

definition recipe_refs :: "db \<Rightarrow> recipe_row \<Rightarrow> exn + unit" where
  "recipe_refs d r = check_all [
     (opt_in (reCreatedBy r) (dbUsers d), ForeignKeyViolation ''kit_recipes_created_by_user_id_fkey''),
     (opt_in (reApprovedBy r) (dbUsers d), ForeignKeyViolation ''kit_recipes_approved_by_user_id_fkey''),
     (item_kind_in d (reBusiness r) (reItem r) True, ForeignKeyViolation ''kit_recipes_kit_fkey'')]"

definition active_of :: "recipe_row \<Rightarrow> uuid option" where
  "active_of r = (if reStatus r = RecipeActive then Some (reItem r) else None)"

definition insert_recipe :: "recipe_row \<Rightarrow> db \<Rightarrow> exn + db" where
  "insert_recipe r d =
     bindR (recipe_check d r) (\<lambda>_.
     bindR (check_all [
       (\<not> list_ex (\<lambda>x. reItem x = reItem r \<and> reVersion x = reVersion r) (dbRecipes d),
          UniqueViolation ''kit_recipes_version_unique''),
       (reStatus r = RecipeActive \<longrightarrow> Some (reItem r) \<notin> set (map active_of (dbRecipes d)),
          UniqueViolation ''kit_recipes_one_active'')]) (\<lambda>_.
     bindR (recipe_refs d r) (\<lambda>_. Inr (d\<lparr>dbRecipes := dbRecipes d @ [r]\<rparr>))))"

text \<open>
  An update checks each new row, then that no other row is active for the same kit.
\<close>

definition update_recipes :: "(recipe_row \<Rightarrow> bool) \<Rightarrow> (recipe_row \<Rightarrow> recipe_row) \<Rightarrow> db \<Rightarrow> exn + db" where
  "update_recipes p f d =
     bindR (update_checked p f (\<lambda>r. bindR (recipe_check d r) (\<lambda>_.
       guardR (\<not> (reStatus r = RecipeActive \<and> list_ex (\<lambda>x. reStatus x = RecipeActive
           \<and> reItem x = reItem r \<and> reId x \<noteq> reId r) (dbRecipes d)))
         (UniqueViolation ''kit_recipes_one_active''))) (dbRecipes d))
       (\<lambda>rows. Inr (d\<lparr>dbRecipes := rows\<rparr>))"

definition insert_component :: "component_row \<Rightarrow> db \<Rightarrow> exn + db" where
  "insert_component r d =
     bindR (check_all [
       (int4 (rcQuantity r), NumericValueOutOfRange),
       (rcComponent r \<noteq> rcKit r, CheckViolation ''kit_recipe_components_not_self''),
       (1 \<le> rcQuantity r, CheckViolation ''kit_recipe_components_quantity_positive''),
       (\<not> list_ex (\<lambda>x. rcRecipe x = rcRecipe r \<and> rcComponent x = rcComponent r) (dbComponents d),
          UniqueViolation ''kit_recipe_components_pkey''),
       (list_ex (\<lambda>x. reBusiness x = rcBusiness r \<and> reId x = rcRecipe r) (dbRecipes d),
          ForeignKeyViolation ''kit_recipe_components_recipe_fkey''),
       (item_kind_in d (rcBusiness r) (rcComponent r) False,
          ForeignKeyViolation ''kit_recipe_components_component_fkey'')]) (\<lambda>_.
     Inr (d\<lparr>dbComponents := dbComponents d @ [r]\<rparr>))"

section \<open>Declaring a kit\<close>

datatype declare_kit_result = KitDeclared | DeclareNotFound | DeclareHoldsStock

definition declareKit :: "uuid \<Rightarrow> uuid \<Rightarrow> db \<Rightarrow> exn + declare_kit_result \<times> db" where
  "declareKit b i = transactionally (\<lambda>d.
     case List.find (is_live_item b i) (dbItems d) of
       None \<Rightarrow> Inr (False, DeclareNotFound, d)
     | Some item \<Rightarrow>
         if itIsKit item then Inr (True, KitDeclared, d)
         else if list_ex (\<lambda>r. baBusiness r = b \<and> baItem r = i) (dbBalances d)
         then Inr (False, DeclareHoldsStock, d)
         else bindR (mark_kit b i d) (\<lambda>d'. Inr (True, KitDeclared, d')))"

section \<open>Drafting a recipe\<close>

datatype draft_recipe_result = Drafted uuid int | NotAKit | DraftInvalid string

record draft_input =
  drBusiness :: uuid
  drKit :: uuid
  drComponents :: "kit_requirement list"
  drNotes :: "string option"
  drCreatedBy :: "uuid option"

text \<open>The loop over the components: the reason for refusing one, or the identifiers seen.\<close>

fun scan_components :: "uuid \<Rightarrow> kit_requirement list \<Rightarrow> uuid list \<Rightarrow> string + uuid list" where
  "scan_components kit [] seen = Inr seen"
| "scan_components kit (c # cs) seen =
     (if \<not> is_safe_integer (requiredQuantity c) \<or> requiredQuantity c < 1
      then Inl ''each component consumes a whole positive number of units''
      else if kitComponentId c = kit then Inl ''a kit cannot contain itself''
      else if kitComponentId c \<in> set seen then Inl ''a component appears more than once in the recipe''
      else scan_components kit cs (set_add (kitComponentId c) seen))"

definition live_components :: "db \<Rightarrow> uuid \<Rightarrow> uuid list \<Rightarrow> item_row list" where
  "live_components d b ids =
     filter (\<lambda>r. itBusiness r = b \<and> itId r \<in> set ids \<and> itDeletedAt r = None) (dbItems d)"

definition latest_version :: "db \<Rightarrow> uuid \<Rightarrow> int" where
  "latest_version d kit =
     fold max (map reVersion (filter (\<lambda>r. reItem r = kit) (dbRecipes d))) 0"

definition component_of :: "draft_input \<Rightarrow> uuid \<Rightarrow> kit_requirement \<Rightarrow> component_row" where
  "component_of input recipe c =
     \<lparr>rcBusiness = drBusiness input, rcRecipe = recipe, rcKit = drKit input,
      rcComponent = kitComponentId c, rcQuantity = requiredQuantity c\<rparr>"

definition draft_row :: "draft_input \<Rightarrow> uuid \<Rightarrow> int \<Rightarrow> recipe_row" where
  "draft_row input i version =
     \<lparr>reId = i, reBusiness = drBusiness input, reItem = drKit input, reVersion = version,
      reStatus = RecipeDraft, reNotes = drNotes input, reCreatedBy = drCreatedBy input,
      reApprovedBy = None, reApprovedAt = None\<rparr>"

definition write_draft :: "draft_input \<Rightarrow> db \<Rightarrow> exn + (bool \<times> draft_recipe_result \<times> db)" where
  "write_draft input d =
     (let version = latest_version d (drKit input) + 1;
          (i, d1) = take_uuid d
      in bindR (insert_recipe (draft_row input i version) d1) (\<lambda>d2.
         bindR (foldR (\<lambda>c. insert_component (component_of input i c)) (drComponents input) d2) (\<lambda>d3.
         Inr (True, Drafted i version, d3))))"

definition draftRecipe :: "draft_input \<Rightarrow> db \<Rightarrow> exn + draft_recipe_result \<times> db" where
  "draftRecipe input d =
     (if drComponents input = [] then Inr (DraftInvalid ''a recipe needs at least one component'', d)
      else case scan_components (drKit input) (drComponents input) [] of
        Inl reason \<Rightarrow> Inr (DraftInvalid reason, d)
      | Inr seen \<Rightarrow> transactionally (\<lambda>d.
          case List.find (\<lambda>r. itBusiness r = drBusiness input \<and> itId r = drKit input) (dbItems d) of
            None \<Rightarrow> Inr (False, NotAKit, d)
          | Some kit \<Rightarrow>
              if \<not> itIsKit kit then Inr (False, NotAKit, d)
              else let components = live_components d (drBusiness input) seen
              in if length components \<noteq> length seen
                 then Inr (False, DraftInvalid ''every component must be an item of this business'', d)
                 else if list_ex itIsKit components
                 then Inr (False, DraftInvalid
                   ''a kit cannot be a component of another kit, having no stock of its own'', d)
                 else write_draft input d) d)"

section \<open>Approving a recipe\<close>

datatype approve_recipe_result = RecipeApproved "uuid option" | RecipeNotFound | NotDraft recipe_status

definition supersedes :: "uuid \<Rightarrow> recipe_row \<Rightarrow> bool" where
  "supersedes kit r \<longleftrightarrow> reItem r = kit \<and> reStatus r = RecipeActive"

definition superseded :: "recipe_row \<Rightarrow> recipe_row" where
  "superseded r = r\<lparr>reStatus := RecipeSuperseded\<rparr>"

definition put_in_force :: "uuid \<Rightarrow> instant \<Rightarrow> recipe_row \<Rightarrow> recipe_row" where
  "put_in_force user now r =
     r\<lparr>reStatus := RecipeActive, reApprovedAt := Some now, reApprovedBy := Some user\<rparr>"

definition approveRecipe :: "uuid \<Rightarrow> uuid \<Rightarrow> uuid \<Rightarrow> instant \<Rightarrow> db
    \<Rightarrow> exn + approve_recipe_result \<times> db" where
  "approveRecipe b recipeId approvedBy now = transactionally (\<lambda>d.
     case List.find (\<lambda>r. reBusiness r = b \<and> reId r = recipeId) (dbRecipes d) of
       None \<Rightarrow> Inr (False, RecipeNotFound, d)
     | Some recipe \<Rightarrow>
         if reStatus recipe \<noteq> RecipeDraft then Inr (False, NotDraft (reStatus recipe), d)
         else let gone = filter (supersedes (reItem recipe)) (dbRecipes d)
         in bindR (update_recipes (supersedes (reItem recipe)) superseded d) (\<lambda>d1.
            bindR (update_recipes (\<lambda>r. reId r = recipeId) (put_in_force approvedBy now) d1) (\<lambda>d2.
            bindR (guardR (approvedBy \<in> set (dbUsers d))
              (ForeignKeyViolation ''kit_recipes_approved_by_user_id_fkey'')) (\<lambda>_.
            Inr (True, RecipeApproved (case gone of [] \<Rightarrow> None | r # _ \<Rightarrow> Some (reId r)), d2)))))"

section \<open>Reading recipes\<close>

record recipe_component =
  cmItem :: uuid
  cmQuantity :: int
  cmSku :: string
  cmName :: string

record recipe_summary =
  smRecipe :: uuid
  smKit :: uuid
  smVersion :: int
  smStatus :: recipe_status
  smNotes :: "string option"
  smComponents :: "recipe_component list"

definition item_of :: "db \<Rightarrow> uuid \<Rightarrow> item_row option" where
  "item_of d i = lookup_by itId i (dbItems d)"

definition summary_component :: "db \<Rightarrow> component_row \<Rightarrow> recipe_component option" where
  "summary_component d r = map_option (\<lambda>i. \<lparr>cmItem = rcComponent r, cmQuantity = rcQuantity r,
     cmSku = itSku i, cmName = itName i\<rparr>) (item_of d (rcComponent r))"

definition cm_before :: "recipe_component \<Rightarrow> recipe_component \<Rightarrow> bool" where
  "cm_before a b = str_le (cmSku a) (cmSku b)"

interpretation component_order: row_order cm_before
  by unfold_locales (unfold cm_before_def, rule str_le_total, erule (1) str_le_trans)

definition readRecipeWhere :: "db \<Rightarrow> (recipe_row \<Rightarrow> bool) \<Rightarrow> recipe_summary option" where
  "readRecipeWhere d conditions =
     map_option (\<lambda>r. \<lparr>smRecipe = reId r, smKit = reItem r, smVersion = reVersion r,
         smStatus = reStatus r, smNotes = reNotes r,
         smComponents = sort_by cm_before (List.map_filter (summary_component d)
           (filter (\<lambda>c. rcRecipe c = reId r) (dbComponents d)))\<rparr>)
       (List.find conditions (dbRecipes d))"

definition readActiveRecipe :: "db \<Rightarrow> uuid \<Rightarrow> uuid \<Rightarrow> recipe_summary option" where
  "readActiveRecipe d b kit =
     readRecipeWhere d (\<lambda>r. reBusiness r = b \<and> reItem r = kit \<and> reStatus r = RecipeActive)"

definition readRecipe :: "db \<Rightarrow> uuid \<Rightarrow> uuid \<Rightarrow> recipe_summary option" where
  "readRecipe d b recipeId = readRecipeWhere d (\<lambda>r. reBusiness r = b \<and> reId r = recipeId)"

section \<open>Kit capacity\<close>

record kit_capacity =
  kcKit :: uuid
  kcRecipe :: uuid
  kcVersion :: int
  kcCapacity :: int
  kcSplit :: bool
  kcLimitedBy :: "(uuid \<times> string) list"

datatype kit_capacity_result = KitComputed kit_capacity | NoActiveRecipe

definition usable_location :: "db \<Rightarrow> uuid list option \<Rightarrow> uuid \<Rightarrow> bool" where
  "usable_location d locationIds l \<longleftrightarrow>
     (case location_of d l of None \<Rightarrow> False | Some x \<Rightarrow> loDeletedAt x = None \<and> loIsActive x)
     \<and> (case locationIds of None \<Rightarrow> True | Some ls \<Rightarrow> l \<in> set ls)"

definition component_rows :: "db \<Rightarrow> uuid \<Rightarrow> uuid list \<Rightarrow> uuid list option \<Rightarrow> balance_row list" where
  "component_rows d b items locationIds =
     filter (\<lambda>r. baBusiness r = b \<and> baItem r \<in> set items \<and> usable_location d locationIds (baLocation r)
        \<and> item_of d (baItem r) \<noteq> None) (dbBalances d)"

definition item_override :: "db \<Rightarrow> uuid \<Rightarrow> int option" where
  "item_override d i = Option.bind (item_of d i) itSafetyOverride"

text \<open>One iteration of the loop that groups the rows by component.\<close>

definition add_balance :: "db \<Rightarrow> inventory_settings \<Rightarrow> balance_row
    \<Rightarrow> (uuid \<times> location_balance list) list \<Rightarrow> exn + (uuid \<times> location_balance list) list" where
  "add_balance d s r m =
     bindR (effectiveSafetyStock (levels_at s (item_override d (baItem r)) r)) (\<lambda>safety.
     Inr (alist_put (baItem r)
       ((case map_of m (baItem r) of None \<Rightarrow> [] | Some bs \<Rightarrow> bs)
         @ [\<lparr>locationId = baLocation r, onHand = baOnHand r, reserved = baReserved r,
             safetyStock = safety\<rparr>]) m))"

definition requirement_of :: "recipe_component \<Rightarrow> kit_requirement" where
  "requirement_of c = \<lparr>kitComponentId = cmItem c, requiredQuantity = cmQuantity c\<rparr>"

definition capacity_input :: "inventory_settings \<Rightarrow> (uuid \<times> location_balance list) list
    \<Rightarrow> recipe_component list \<Rightarrow> kit_input" where
  "capacity_input s grouped cs = \<lparr>kitComponents = map requirement_of cs,
     componentBalances = map_of grouped, kitSplit = stSplit s\<rparr>"

definition kitCapacity :: "db \<Rightarrow> uuid \<Rightarrow> uuid \<Rightarrow> uuid list option \<Rightarrow> exn + kit_capacity_result" where
  "kitCapacity d b kit locationIds =
     (case readActiveRecipe d b kit of
        None \<Rightarrow> Inr NoActiveRecipe
      | Some recipe \<Rightarrow>
          let settings = readSettings d b;
              rows = component_rows d b (map cmItem (smComponents recipe)) locationIds
          in bindR (foldR (add_balance d settings) rows []) (\<lambda>grouped.
             bindR (kitAvailability (capacity_input settings grouped (smComponents recipe))) (\<lambda>capacity.
             bindR (mapR (\<lambda>c. kitAvailability (capacity_input settings grouped [c]))
                      (smComponents recipe)) (\<lambda>alone.
             Inr (KitComputed \<lparr>kcKit = kit, kcRecipe = smRecipe recipe,
               kcVersion = smVersion recipe, kcCapacity = capacity, kcSplit = stSplit settings,
               kcLimitedBy = map (\<lambda>(c, n). (cmItem c, cmSku c))
                 (filter (\<lambda>(c, n). n = capacity) (zip (smComponents recipe) alone))\<rparr>)))))"

section \<open>Overlaps\<close>

record kit_overlap =
  koKit :: uuid
  koSku :: string
  koShared :: "(uuid \<times> string) list"

text \<open>Components joined to the active recipes that name them, and to the kits of those.\<close>

definition active_uses :: "db \<Rightarrow> uuid \<Rightarrow> uuid list \<Rightarrow> (component_row \<times> recipe_row) list" where
  "active_uses d b ids =
     concat (map (\<lambda>c. map (Pair c) (filter (\<lambda>r. reId r = rcRecipe c \<and> reStatus r = RecipeActive) (dbRecipes d)))
       (filter (\<lambda>c. rcBusiness c = b \<and> rcComponent c \<in> set ids) (dbComponents d)))"

definition sku_in :: "db \<Rightarrow> uuid \<Rightarrow> uuid \<Rightarrow> string" where
  "sku_in d b i =
     (case List.find (\<lambda>r. itBusiness r = b \<and> itId r = i) (dbItems d) of None \<Rightarrow> [] | Some r \<Rightarrow> itSku r)"

definition add_overlap :: "db \<Rightarrow> uuid \<Rightarrow> component_row \<times> recipe_row
    \<Rightarrow> (uuid \<times> kit_overlap) list \<Rightarrow> (uuid \<times> kit_overlap) list" where
  "add_overlap d b x m =
     (case item_of d (reItem (snd x)) of
        None \<Rightarrow> m
      | Some kit \<Rightarrow>
          let existing = (case map_of m (itId kit) of
                Some o' \<Rightarrow> o' | None \<Rightarrow> \<lparr>koKit = itId kit, koSku = itSku kit, koShared = []\<rparr>)
          in alist_put (itId kit) (existing\<lparr>koShared := koShared existing
               @ [(rcComponent (fst x), sku_in d b (rcComponent (fst x)))]\<rparr>) m)"

text \<open>
  \<open>collate\<close> is \<open>String.prototype.localeCompare\<close>, whose order depends on the locale of the
  process: \<open>collate s t\<close> says that \<open>s\<close> does not come after \<open>t\<close>.
\<close>

definition describeOverlap :: "(string \<Rightarrow> string \<Rightarrow> bool) \<Rightarrow> db \<Rightarrow> uuid \<Rightarrow> uuid \<Rightarrow> kit_overlap list" where
  "describeOverlap collate d b i =
     (case List.find (\<lambda>r. itBusiness r = b \<and> itId r = i) (dbItems d) of
        None \<Rightarrow> []
      | Some item \<Rightarrow>
          let ids = (if itIsKit item
                then (case readActiveRecipe d b i of None \<Rightarrow> [] | Some r \<Rightarrow> map cmItem (smComponents r))
                else [i])
          in if ids = [] then []
             else sort_by (\<lambda>x y. collate (koSku x) (koSku y))
               (map snd (fold (add_overlap d b)
                 (filter (\<lambda>x. reItem (snd x) \<noteq> i) (active_uses d b ids)) [])))"

definition kitsUsingComponent :: "db \<Rightarrow> uuid \<Rightarrow> uuid \<Rightarrow> (uuid \<times> int) list" where
  "kitsUsingComponent d b i =
     map (\<lambda>(c, r). (reItem r, rcQuantity c)) (active_uses d b [i])"

section \<open>What approving and drafting do\<close>

definition recipes_ok :: "db \<Rightarrow> bool" where
  "recipes_ok d \<longleftrightarrow> unique_on active_of (dbRecipes d) \<and> distinct (map reId (dbRecipes d))
     \<and> distinct (map (\<lambda>r. (reItem r, reVersion r)) (dbRecipes d))
     \<and> list_all (\<lambda>i. i < dbNextUuid d) (map reId (dbRecipes d))
     \<and> list_all (\<lambda>c. rcRecipe c \<in> set (map reId (dbRecipes d))) (dbComponents d)"

lemma update_recipes_Inr:
  "update_recipes p f d = Inr d' \<Longrightarrow> d' = d\<lparr>dbRecipes := update_where p f (dbRecipes d)\<rparr>"
  "update_recipes p f d = Inr d' \<Longrightarrow> r \<in> set (dbRecipes d) \<Longrightarrow> p r \<Longrightarrow> reStatus (f r) = RecipeActive
     \<Longrightarrow> x \<in> set (dbRecipes d) \<Longrightarrow> reStatus x = RecipeActive \<Longrightarrow> reItem x = reItem (f r) \<Longrightarrow> reId x = reId (f r)"
  by (auto simp: update_recipes_def result_simps update_checked_Inr list_ex_iff)

lemma approveRecipe_cases:
  assumes "approveRecipe b rid user now d = Inr (result, d')"
  obtains (refused) "d' = d" "\<And>old. result \<noteq> RecipeApproved old"
  | (approved) r where "List.find (\<lambda>r. reBusiness r = b \<and> reId r = rid) (dbRecipes d) = Some r"
      "reStatus r = RecipeDraft" "user \<in> set (dbUsers d)"
      "result = RecipeApproved (case filter (supersedes (reItem r)) (dbRecipes d) of [] \<Rightarrow> None
         | x # _ \<Rightarrow> Some (reId x))"
      "d' = d\<lparr>dbRecipes := update_where (\<lambda>r. reId r = rid) (put_in_force user now)
              (update_where (supersedes (reItem r)) superseded (dbRecipes d))\<rparr>"
proof (cases "List.find (\<lambda>r. reBusiness r = b \<and> reId r = rid) (dbRecipes d)")
  case None
  with assms show thesis by (intro refused) (auto simp: approveRecipe_def transactionally_Inr)
next
  case (Some r)
  show thesis
  proof (cases "reStatus r = RecipeDraft")
    case False
    with assms Some show thesis
      by (intro refused) (auto simp: approveRecipe_def transactionally_Inr)
  next
    case True
    with assms Some obtain d1 d2 where
      d1: "update_recipes (supersedes (reItem r)) superseded d = Inr d1"
      and d2: "update_recipes (\<lambda>r. reId r = rid) (put_in_force user now) d1 = Inr d2"
      and u: "user \<in> set (dbUsers d)" "d' = d2"
      and result: "result = RecipeApproved (case filter (supersedes (reItem r)) (dbRecipes d) of [] \<Rightarrow> None
         | x # _ \<Rightarrow> Some (reId x))"
      by (auto simp: approveRecipe_def transactionally_Inr result_simps)
    show thesis
      using approved [OF Some True u(1) result] update_recipes_Inr(1) [OF d1]
        update_recipes_Inr(1) [OF d2] u(2) by simp
  qed
qed

lemma foldR_components:
  assumes "foldR (\<lambda>c. insert_component (component_of input i c)) cs d = Inr d'"
  shows "d' = d\<lparr>dbComponents := dbComponents d @ map (component_of input i) cs\<rparr>
    \<and> (\<forall>c \<in> set cs. int4 (requiredQuantity c) \<and> item_kind_in d (drBusiness input) (kitComponentId c) False)"
  using assms
proof (induction cs arbitrary: d)
  case (Cons c cs)
  then obtain d1 where d1: "insert_component (component_of input i c) d = Inr d1"
    and rest: "foldR (\<lambda>c. insert_component (component_of input i c)) cs d1 = Inr d'"
    by (auto simp: result_simps)
  have one: "d1 = d\<lparr>dbComponents := dbComponents d @ [component_of input i c]\<rparr>"
    "int4 (requiredQuantity c)" "item_kind_in d (drBusiness input) (kitComponentId c) False"
    using d1 by (auto simp: insert_component_def result_simps component_of_def)
  from Cons.IH [OF rest] one show ?case by (simp add: item_kind_in_def)
qed simp

lemma latest_version_ge:
  "r \<in> set (dbRecipes d) \<Longrightarrow> reItem r = kit \<Longrightarrow> reVersion r \<le> latest_version d kit"
  by (auto simp: latest_version_def intro: fold_max_upper)

lemma write_draft_keeps: "write_draft input d \<noteq> Inr (False, x)"
  by (auto simp: write_draft_def Let_def take_uuid_def result_simps)

lemma draftRecipe_drafted:
  assumes "draftRecipe input d = Inr (Drafted i v, d')"
  shows "i = dbNextUuid d" "v = latest_version d (drKit input) + 1" "1 \<le> v"
    and "d' = d\<lparr>dbNextUuid := Suc (dbNextUuid d), dbRecipes := dbRecipes d @ [draft_row input i v],
      dbComponents := dbComponents d @ map (component_of input i) (drComponents input)\<rparr>"
    and "\<forall>c \<in> set (drComponents input). item_kind_in d (drBusiness input) (kitComponentId c) False"
    and "item_kind_in d (drBusiness input) (drKit input) True"
proof -
  obtain d'' where w: "write_draft input d = Inr (True, Drafted i v, d'')" and d': "d' = d''"
    using assms unfolding draftRecipe_def transactionally_def Let_def
    by (auto simp: write_draft_keeps split: if_splits sum.splits option.splits prod.splits)
  obtain d2 where ins: "insert_recipe (draft_row input i v) (d\<lparr>dbNextUuid := Suc (dbNextUuid d)\<rparr>) = Inr d2"
    and rest: "foldR (\<lambda>c. insert_component (component_of input i c)) (drComponents input) d2 = Inr d''"
    and iv: "i = dbNextUuid d" "v = latest_version d (drKit input) + 1"
    using w by (auto simp: write_draft_def Let_def take_uuid_def result_simps)
  show "i = dbNextUuid d" "v = latest_version d (drKit input) + 1" by (rule iv)+
  have d2: "d2 = d\<lparr>dbNextUuid := Suc (dbNextUuid d), dbRecipes := dbRecipes d @ [draft_row input i v]\<rparr>"
    and v: "1 \<le> v" and k: "item_kind_in d (drBusiness input) (drKit input) True"
    using ins by (auto simp: insert_recipe_def result_simps recipe_check_def recipe_refs_def draft_row_def
        item_kind_in_def split: if_splits)
  show "1 \<le> v" by (rule v)
  show "item_kind_in d (drBusiness input) (drKit input) True" by (rule k)
  from foldR_components [OF rest] show "d' = d\<lparr>dbNextUuid := Suc (dbNextUuid d),
      dbRecipes := dbRecipes d @ [draft_row input i v],
      dbComponents := dbComponents d @ map (component_of input i) (drComponents input)\<rparr>"
    and "\<forall>c \<in> set (drComponents input). item_kind_in d (drBusiness input) (kitComponentId c) False"
    by (simp_all add: d2 d' item_kind_in_def)
qed

section \<open>Capacity\<close>

text \<open>\<open>feasible\<close>: what the arithmetic of \<open>kitAvailability\<close> promises, split or not.\<close>

lemma kitAvailability_feasible:
  assumes "kitAvailability input = Inr n"
  shows "0 \<le> n \<and> (\<forall>c \<in> set (kitComponents input). n * requiredQuantity c \<le> pool input c)"
proof (cases "kitSplit input")
  case True
  with kit_pooled_greatest_pool [OF assms True] show ?thesis by auto
next
  case False
  note facts = kitAvailability_Inr [OF assms]
  let ?u = "\<lambda>l. finite_or_zero (kit_units requiredQuantity (at_location input l) (kitComponents input) None)"
  have n: "n = sum_list (map ?u (kit_location_ids input))" by (rule facts(4) [OF False])
  have "0 \<le> ?u l" for l
    using kit_units_greatest [OF facts(1,2), of 0 "at_location input l"] at_location_nonneg by simp
  then have "0 \<le> n" unfolding n by (intro sum_list_nonneg) auto
  moreover have "n \<le> finite_or_zero (kit_units requiredQuantity (pool input) (kitComponents input) None)"
    unfolding n by (rule sum_kit_units_le [OF facts(1,2)]) (simp add: kit_location_ids_def)
  ultimately show ?thesis using kit_units_greatest [OF facts(1,2)] by blast
qed

definition balance_at :: "inventory_settings \<Rightarrow> db \<Rightarrow> balance_row \<Rightarrow> location_balance" where
  "balance_at s d r = \<lparr>locationId = baLocation r, onHand = baOnHand r, reserved = baReserved r,
     safetyStock = level_of (levels_at s (item_override d (baItem r)) r)\<rparr>"

definition grouped_at :: "(uuid \<times> location_balance list) list \<Rightarrow> uuid \<Rightarrow> location_balance list" where
  "grouped_at m i = (case map_of m i of None \<Rightarrow> [] | Some bs \<Rightarrow> bs)"

lemma add_balances:
  "foldR (add_balance d s) rows m = Inr m' \<Longrightarrow>
     grouped_at m' i = grouped_at m i @ map (balance_at s d) (filter (\<lambda>r. baItem r = i) rows)"
proof (induction rows arbitrary: m)
  case (Cons r rows)
  then obtain m1 where m1: "add_balance d s r m = Inr m1" and rest: "foldR (add_balance d s) rows m1 = Inr m'"
    by (auto simp: result_simps)
  have "grouped_at m1 i = grouped_at m i @ (if baItem r = i then [balance_at s d r] else [])"
    using m1 by (auto simp: add_balance_def result_simps effectiveSafetyStock_Inr grouped_at_def
        balance_at_def split: option.splits)
  with Cons.IH [OF rest] show ?case by simp
qed simp

text \<open>
  The units of one item the selected locations can spare: on hand less reserved less what is
  withheld there, never below zero, over live and active locations.
\<close>

definition spare_units :: "db \<Rightarrow> uuid \<Rightarrow> uuid list option \<Rightarrow> uuid \<Rightarrow> int" where
  "spare_units d b ls i =
     sum_list (map (\<lambda>r. max 0 (baOnHand r - baReserved r
          - level_of (levels_at (readSettings d b) (item_override d i) r)))
       (filter (\<lambda>r. baBusiness r = b \<and> baItem r = i \<and> usable_location d ls (baLocation r)) (dbBalances d)))"

lemma summary_items:
  assumes "readRecipeWhere d q = Some recipe" and "c \<in> set (smComponents recipe)"
  shows "item_of d (cmItem c) \<noteq> None"
  using assms by (auto simp: readRecipeWhere_def List.map_filter_def summary_component_def)

lemma kitCapacity_computed:
  assumes "kitCapacity d b kit ls = Inr (KitComputed k)"
  obtains recipe grouped alone where "readActiveRecipe d b kit = Some recipe"
    "\<And>cs c. c \<in> set (smComponents recipe) \<Longrightarrow>
       pool (capacity_input (readSettings d b) grouped cs) (requirement_of c) = spare_units d b ls (cmItem c)"
    "kitAvailability (capacity_input (readSettings d b) grouped (smComponents recipe)) = Inr (kcCapacity k)"
    "list_all2 (\<lambda>c n. kitAvailability (capacity_input (readSettings d b) grouped [c]) = Inr n)
        (smComponents recipe) alone"
    "kcLimitedBy k = map (\<lambda>(c, n). (cmItem c, cmSku c))
        (filter (\<lambda>(c, n). n = kcCapacity k) (zip (smComponents recipe) alone))"
    "kcSplit k = stSplit (readSettings d b)" "kcKit k = kit" "kcRecipe k = smRecipe recipe"
proof (cases "readActiveRecipe d b kit")
  case None
  with assms show thesis by (simp add: kitCapacity_def)
next
  case (Some recipe)
  let ?s = "readSettings d b"
  let ?rows = "component_rows d b (map cmItem (smComponents recipe)) ls"
  from assms Some obtain grouped alone where
    g: "foldR (add_balance d ?s) ?rows [] = Inr grouped"
    and c: "kitAvailability (capacity_input ?s grouped (smComponents recipe)) = Inr (kcCapacity k)"
    and a: "mapR (\<lambda>c. kitAvailability (capacity_input ?s grouped [c])) (smComponents recipe) = Inr alone"
    and k: "kcLimitedBy k = map (\<lambda>(c, n). (cmItem c, cmSku c))
        (filter (\<lambda>(c, n). n = kcCapacity k) (zip (smComponents recipe) alone))"
      "kcSplit k = stSplit (readSettings d b)" "kcKit k = kit" "kcRecipe k = smRecipe recipe"
    by (auto simp: kitCapacity_def Let_def result_simps)
  have p: "pool (capacity_input ?s grouped cs) (requirement_of x) = spare_units d b ls (cmItem x)"
    if "x \<in> set (smComponents recipe)" for cs x
  proof -
    let ?q = "\<lambda>r. baBusiness r = b \<and> baItem r = cmItem x \<and> usable_location d ls (baLocation r)"
    have "item_of d (cmItem x) \<noteq> None"
      using summary_items that Some unfolding readActiveRecipe_def by blast
    then have rows: "filter (\<lambda>r. baItem r = cmItem x) ?rows = filter ?q (dbBalances d)"
      using that by (auto simp: component_rows_def intro!: filter_cong)
    have "grouped_at grouped (cmItem x) = map (balance_at ?s d) (filter ?q (dbBalances d))"
      using add_balances [OF g, of "cmItem x"] unfolding rows by (simp add: grouped_at_def)
    then have "map sellable (grouped_at grouped (cmItem x))
        = map (\<lambda>r. max 0 (baOnHand r - baReserved r
          - level_of (levels_at ?s (item_override d (cmItem x)) r))) (filter ?q (dbBalances d))"
      by (simp add: sellable_def balance_at_def)
    then show ?thesis
      by (simp add: pool_def balances_of_def spare_units_def grouped_at_def [symmetric] requirement_of_def
          capacity_input_def)
  qed
  show thesis by (rule that [OF Some p c a [unfolded mapR_Inr] k])
qed

section \<open>Properties\<close>

lemma put_in_force_simps [simp]:
  "reId (put_in_force u n r) = reId r" "reItem (put_in_force u n r) = reItem r"
  "reVersion (put_in_force u n r) = reVersion r" "reStatus (put_in_force u n r) = RecipeActive"
  "reId (superseded r) = reId r" "reItem (superseded r) = reItem r"
  "reVersion (superseded r) = reVersion r" "reStatus (superseded r) = RecipeSuperseded"
  by (simp_all add: put_in_force_def superseded_def)

text \<open>
  Approving a recipe puts exactly that recipe in force. When \<open>approveRecipe\<close> answers
  \<open>approved\<close>, the recipe was a draft of the business, it is now the one active recipe of its
  kit and names its approver and the time; the recipe it replaced (the identifier in the answer)
  is kept as superseded; every other recipe and every component list is untouched, and versions
  and \<open>one active recipe per kit\<close> still hold.
\<close>

theorem approval_puts_one_in_force:
  assumes "approveRecipe b rid user now d = Inr (RecipeApproved old, d')" and "recipes_ok d"
  shows "recipes_ok d' \<and> dbComponents d' = dbComponents d
    \<and> (\<exists>r \<in> set (dbRecipes d). reId r = rid \<and> reBusiness r = b \<and> reStatus r = RecipeDraft
        \<and> {x \<in> set (dbRecipes d'). reItem x = reItem r \<and> reStatus x = RecipeActive} = {put_in_force user now r}
        \<and> {reId x |x. x \<in> set (dbRecipes d) \<and> reItem x = reItem r \<and> reStatus x = RecipeActive} = set_option old
        \<and> (\<forall>x \<in> set (dbRecipes d). reId x \<noteq> rid \<longrightarrow>
             (if Some (reId x) = old then superseded x else x) \<in> set (dbRecipes d')))"
  using assms(1)
proof (cases rule: approveRecipe_cases)
  case (approved r)
  have r: "r \<in> set (dbRecipes d)" "reId r = rid" "reBusiness r = b"
    using approved(1) by (auto simp: find_Some_iff)
  let ?mid = "update_where (supersedes (reItem r)) superseded (dbRecipes d)"
  have rows': "dbRecipes d' = update_where (\<lambda>r. reId r = rid) (put_in_force user now) ?mid"
    by (simp add: approved(5))
  have u: "unique_on active_of (dbRecipes d)" and ids: "distinct (map reId (dbRecipes d))"
    using assms(2) by (simp_all add: recipes_ok_def)
  have one: "x = y" if "x \<in> set (dbRecipes d)" "y \<in> set (dbRecipes d)" "supersedes (reItem r) x"
    "supersedes (reItem r) y" for x y
    using unique_on_row [OF u that(1,2), of "reItem r"] that(3,4) by (simp add: supersedes_def active_of_def)
  have same: "x = r" if "x \<in> set (dbRecipes d)" "reId x = rid" for x
    using ids r that by (auto simp: distinct_map dest: inj_onD)
  have rsup: "\<not> supersedes (reItem r) r" using approved(2) by (simp add: supersedes_def)
  have mem: "y \<in> set (dbRecipes d') \<longleftrightarrow> y = put_in_force user now r
      \<or> (\<exists>x \<in> set (dbRecipes d). reId x \<noteq> rid \<and> y = (if supersedes (reItem r) x then superseded x else x))" for y
    unfolding rows' set_update_where image_image using r(1,2) rsup same by (force simp: image_iff)
  have old: "supersedes (reItem r) x \<longleftrightarrow> Some (reId x) = old" if "x \<in> set (dbRecipes d)" for x
  proof (cases "filter (supersedes (reItem r)) (dbRecipes d)")
    case Nil
    with approved(4) that show ?thesis by (auto simp: filter_empty_conv)
  next
    case (Cons y ys)
    then have y: "y \<in> set (dbRecipes d)" "supersedes (reItem r) y"
      by (auto simp: filter_eq_Cons_iff)
    have "old = Some (reId y)" using approved(4) Cons by simp
    moreover have "reId x = reId y \<Longrightarrow> x = y" using ids that y(1) by (auto simp: distinct_map dest: inj_onD)
    ultimately show ?thesis using one [OF that y(1) _ y(2)] y(2) by auto
  qed
  have set_old: "{reId x |x. x \<in> set (dbRecipes d) \<and> reItem x = reItem r \<and> reStatus x = RecipeActive} = set_option old"
  proof (intro equalityI subsetI)
    fix i assume "i \<in> set_option old"
    then have o: "old = Some i" by simp
    with approved(4) obtain y ys where "filter (supersedes (reItem r)) (dbRecipes d) = y # ys" "i = reId y"
      by (auto split: list.splits)
    then show "i \<in> {reId x |x. x \<in> set (dbRecipes d) \<and> reItem x = reItem r \<and> reStatus x = RecipeActive}"
      by (auto simp: supersedes_def filter_eq_Cons_iff)
  qed (use old in \<open>auto simp: supersedes_def\<close>)
  have active: "{x \<in> set (dbRecipes d'). reItem x = reItem r \<and> reStatus x = RecipeActive} = {put_in_force user now r}"
  proof (intro equalityI subsetI)
    fix y assume "y \<in> {x \<in> set (dbRecipes d'). reItem x = reItem r \<and> reStatus x = RecipeActive}"
    then have y: "y \<in> set (dbRecipes d')" "reItem y = reItem r" "reStatus y = RecipeActive" by simp_all
    have "y \<noteq> (if supersedes (reItem r) x then superseded x else x)" for x
      using y(2,3) by (cases "supersedes (reItem r) x") (auto simp: supersedes_def)
    with y(1) mem show "y \<in> {put_in_force user now r}" by blast
  qed (simp add: mem)
  have u1: "unique_on active_of ?mid"
    by (rule unique_on_update [OF u]) (simp add: active_of_def)
  have "unique_on active_of (dbRecipes d')" unfolding rows'
  proof (rule unique_on_move [OF u1])
    show "distinct (map reId ?mid)" using ids by (simp add: map_update_where)
    fix x x' assume x: "x \<in> set ?mid" "reId x = rid" "x' \<in> set ?mid" "reId x' \<noteq> reId x"
    have "active_of x' \<noteq> Some (reItem r)"
      using x(3) by (auto simp: set_update_where active_of_def supersedes_def split: if_splits)
    moreover have "reItem x = reItem r" using x(1,2) same by (auto simp: set_update_where split: if_splits)
    ultimately show "active_of x' \<noteq> active_of (put_in_force user now x)" by (simp add: active_of_def)
  qed simp
  moreover have "map reId (dbRecipes d') = map reId (dbRecipes d)"
    "map (\<lambda>r. (reItem r, reVersion r)) (dbRecipes d') = map (\<lambda>r. (reItem r, reVersion r)) (dbRecipes d)"
    unfolding rows' by (simp_all add: map_update_where)
  moreover have "dbComponents d' = dbComponents d" "dbNextUuid d' = dbNextUuid d"
    by (simp_all add: approved(5))
  ultimately have ok: "recipes_ok d'" using assms(2) unfolding recipes_ok_def by metis
  have rest: "\<forall>x \<in> set (dbRecipes d). reId x \<noteq> rid \<longrightarrow>
      (if Some (reId x) = old then superseded x else x) \<in> set (dbRecipes d')"
    using mem old by auto
  show ?thesis using ok active set_old rest r approved(2) by (auto simp: approved(5))
next
  case refused
  then show ?thesis by blast
qed

definition set_draft :: draft_input where
  "set_draft = \<lparr>drBusiness = 1, drKit = 31,
     drComponents = [\<lparr>kitComponentId = 21, requiredQuantity = 3\<rparr>], drNotes = None, drCreatedBy = Some 9\<rparr>"

text \<open>The sample database with a second, drafted version of the kit's recipe.\<close>

definition drafted_shop :: db where
  "drafted_shop = shop\<lparr>dbNextUuid := 1001,
     dbRecipes := dbRecipes shop @ [draft_row set_draft 1000 2],
     dbComponents := dbComponents shop @ map (component_of set_draft 1000) (drComponents set_draft)\<rparr>"

lemma shop_drafts: "draftRecipe set_draft shop = Inr (Drafted 1000 2, drafted_shop)"
  by code_simp

lemma shop_recipes: "recipes_ok shop" "recipes_ok drafted_shop"
  by code_simp+

theorem approval_puts_one_in_force_witness:
  "\<exists>d'. approveRecipe 1 1000 9 7 drafted_shop = Inr (RecipeApproved (Some 71), d') \<and> recipes_ok d'
    \<and> dbComponents d' = dbComponents drafted_shop"
proof -
  have "case approveRecipe 1 1000 9 7 drafted_shop of Inl e \<Rightarrow> False
      | Inr (r, d') \<Rightarrow> r = RecipeApproved (Some 71)" by code_simp
  then obtain d' where a: "approveRecipe 1 1000 9 7 drafted_shop = Inr (RecipeApproved (Some 71), d')"
    by (auto split: sum.splits)
  from a approval_puts_one_in_force [OF a shop_recipes(2)] show ?thesis by blast
qed

text \<open>
  A draft is a new version and changes nothing that is in force. When \<open>draftRecipe\<close>
  answers \<open>drafted\<close>, the new recipe has a fresh identifier and a version one above every
  version of that kit, its components are the ones asked for, each a stocked item of the business
  and none the kit itself, all existing recipes and component lists are as they were, versions
  stay unique, and the recipe in force of every kit reads as before.
\<close>

theorem draft_is_a_new_version:
  assumes "draftRecipe input d = Inr (Drafted i v, d')" and "recipes_ok d"
  shows "recipes_ok d' \<and> i \<notin> reId ` set (dbRecipes d)
    \<and> dbRecipes d' = dbRecipes d @ [draft_row input i v]
    \<and> (\<forall>r \<in> set (dbRecipes d). reItem r = drKit input \<longrightarrow> reVersion r < v) \<and> 1 \<le> v
    \<and> filter (\<lambda>c. rcRecipe c = i) (dbComponents d') = map (component_of input i) (drComponents input)
    \<and> (\<forall>r \<in> set (dbRecipes d). filter (\<lambda>c. rcRecipe c = reId r) (dbComponents d')
          = filter (\<lambda>c. rcRecipe c = reId r) (dbComponents d))
    \<and> (\<forall>c \<in> set (drComponents input). item_kind_in d (drBusiness input) (kitComponentId c) False)
    \<and> readActiveRecipe d' = readActiveRecipe d"
proof -
  note drafted = draftRecipe_drafted [OF assms(1)]
  have d': "dbRecipes d' = dbRecipes d @ [draft_row input i v]"
    "dbComponents d' = dbComponents d @ map (component_of input i) (drComponents input)"
    "dbNextUuid d' = Suc i" "dbItems d' = dbItems d"
    by (simp_all add: drafted(4) drafted(1))
  have fresh: "i \<notin> reId ` set (dbRecipes d)"
    using assms(2) by (auto simp: recipes_ok_def drafted(1) list_all_iff)
  have newer: "reVersion r < v" if "r \<in> set (dbRecipes d)" "reItem r = drKit input" for r
    using latest_version_ge [OF that] by (simp add: drafted(2))
  have ids: "\<forall>j \<in> set (map reId (dbRecipes d)). j < i"
    using assms(2) by (simp add: recipes_ok_def drafted(1) list_all_iff)
  have none: "\<forall>c \<in> set (dbComponents d). rcRecipe c \<noteq> i"
    using assms(2) fresh by (auto simp: recipes_ok_def list_all_iff)
  have "(drKit input, v) \<notin> (\<lambda>r. (reItem r, reVersion r)) ` set (dbRecipes d)" using newer by force
  then have ok: "recipes_ok d'"
    using assms(2) ids fresh
    by (auto simp: recipes_ok_def d' unique_on_append active_of_def draft_row_def list_all_iff
        component_of_def)
  have others: "filter (\<lambda>c. rcRecipe c = reId r) (dbComponents d')
      = filter (\<lambda>c. rcRecipe c = reId r) (dbComponents d)" if "r \<in> set (dbRecipes d)" for r
    using fresh that by (auto simp: d' component_of_def filter_empty_conv)
  have mine: "filter (\<lambda>c. rcRecipe c = i) (dbComponents d') = map (component_of input i) (drComponents input)"
    using none by (simp add: d' filter_empty_conv component_of_def filter_map o_def)
  have find: "List.find q (xs @ [x]) = List.find q xs" if "\<not> q x" for q and xs :: "recipe_row list" and x
    using that by (induction xs) auto
  have "readActiveRecipe d' b kit = readActiveRecipe d b kit" for b kit
  proof -
    let ?q = "\<lambda>r. reBusiness r = b \<and> reItem r = kit \<and> reStatus r = RecipeActive"
    have f: "List.find ?q (dbRecipes d') = List.find ?q (dbRecipes d)"
      unfolding d'(1) by (rule find) (simp add: draft_row_def)
    have s: "summary_component d' = summary_component d"
      by (simp add: fun_eq_iff summary_component_def item_of_def d'(4))
    have "filter (\<lambda>c. rcRecipe c = reId r) (dbComponents d') = filter (\<lambda>c. rcRecipe c = reId r) (dbComponents d)"
      if "List.find ?q (dbRecipes d) = Some r" for r
      using that by (intro others) (auto simp: find_Some_iff)
    then show ?thesis unfolding readActiveRecipe_def readRecipeWhere_def f s
      by (cases "List.find ?q (dbRecipes d)") simp_all
  qed
  then have "readActiveRecipe d' = readActiveRecipe d" by (simp add: fun_eq_iff)
  with ok fresh d'(1) newer drafted(3,5) mine others show ?thesis by blast
qed

theorem draft_is_a_new_version_witness:
  "draftRecipe set_draft shop = Inr (Drafted 1000 2, drafted_shop) \<and> recipes_ok drafted_shop
    \<and> readActiveRecipe drafted_shop = readActiveRecipe shop"
  using draft_is_a_new_version [OF shop_drafts shop_recipes(1)] shop_drafts by blast

text \<open>
  A kit never promises units its components do not have. Whenever \<open>kitCapacity\<close> answers a
  number, that many kits need no more of any component than the selected, live and active
  locations can spare after reservations and resolved safety stock; with split fulfilment the
  number is the greatest with that property, and at least one component is named as limiting it.
\<close>

theorem kit_capacity_honest:
  assumes "kitCapacity d b kit ls = Inr (KitComputed k)"
  shows "\<exists>recipe. readActiveRecipe d b kit = Some recipe \<and> 0 \<le> kcCapacity k
    \<and> (\<forall>c \<in> set (smComponents recipe). kcCapacity k * cmQuantity c \<le> spare_units d b ls (cmItem c))
    \<and> (kcSplit k \<longrightarrow> kcLimitedBy k \<noteq> []
        \<and> (\<forall>n. (\<forall>c \<in> set (smComponents recipe). n * cmQuantity c \<le> spare_units d b ls (cmItem c))
              \<longrightarrow> n \<le> kcCapacity k))"
  using assms
proof (rule kitCapacity_computed)
  fix recipe grouped alone
  let ?in = "capacity_input (readSettings d b) grouped"
  assume r: "readActiveRecipe d b kit = Some recipe"
    and p: "\<And>cs c. c \<in> set (smComponents recipe) \<Longrightarrow> pool (?in cs) (requirement_of c) = spare_units d b ls (cmItem c)"
    and c: "kitAvailability (?in (smComponents recipe)) = Inr (kcCapacity k)"
    and a: "list_all2 (\<lambda>c n. kitAvailability (?in [c]) = Inr n) (smComponents recipe) alone"
    and lim: "kcLimitedBy k = map (\<lambda>(c, n). (cmItem c, cmSku c))
        (filter (\<lambda>(c, n). n = kcCapacity k) (zip (smComponents recipe) alone))"
    and split: "kcSplit k = stSplit (readSettings d b)"
  have comps: "kitComponents (?in cs) = map requirement_of cs" "kitSplit (?in cs) = kcSplit k" for cs
    by (simp_all add: capacity_input_def split)
  have q: "requiredQuantity (requirement_of x) = cmQuantity x" for x by (simp add: requirement_of_def)
  have feasible: "0 \<le> kcCapacity k \<and>
      (\<forall>c \<in> set (smComponents recipe). kcCapacity k * cmQuantity c \<le> spare_units d b ls (cmItem c))"
    using kitAvailability_feasible [OF c] p by (simp add: comps q)
  have greatest: "n \<le> kcCapacity k"
    if "kcSplit k" "\<forall>c \<in> set (smComponents recipe). n * cmQuantity c \<le> spare_units d b ls (cmItem c)" for n
    using kit_pooled_greatest_pool(1) [OF c, of n] that p by (simp add: comps q)
  have "kcLimitedBy k \<noteq> []" if s: "kcSplit k"
  proof
    assume "kcLimitedBy k = []"
    then have "\<forall>(x, n) \<in> set (zip (smComponents recipe) alone). n \<noteq> kcCapacity k"
      by (auto simp: lim filter_empty_conv)
    moreover have "kitAvailability (?in [x]) = Inr n" "x \<in> set (smComponents recipe)"
      if "(x, n) \<in> set (zip (smComponents recipe) alone)" for x n
      using a that by (auto simp: list_all2_iff dest: set_zip_leftD)
    moreover have "\<exists>n. (x, n) \<in> set (zip (smComponents recipe) alone)" if "x \<in> set (smComponents recipe)" for x
      using a that by (metis in_set_impl_in_set_zip1 list_all2_lengthD)
    ultimately have one: "\<exists>n. kitAvailability (?in [x]) = Inr n \<and> n \<noteq> kcCapacity k"
      if "x \<in> set (smComponents recipe)" for x using that by fast
    have "(kcCapacity k + 1) * cmQuantity x \<le> spare_units d b ls (cmItem x)"
      if x: "x \<in> set (smComponents recipe)" for x
    proof -
      obtain n where n: "kitAvailability (?in [x]) = Inr n" "n \<noteq> kcCapacity k" using one [OF x] by blast
      have "m \<le> n \<longleftrightarrow> m * cmQuantity x \<le> spare_units d b ls (cmItem x)" for m
        using kit_pooled_greatest_pool(1) [OF n(1), of m] s p [OF x] by (simp add: comps q)
      moreover have "kcCapacity k \<le> n" unfolding calculation using feasible x by blast
      ultimately show ?thesis using n(2) by (metis antisym_conv2 zless_imp_add1_zle)
    qed
    with greatest [OF s, of "kcCapacity k + 1"] show False by simp
  qed
  with r feasible greatest show ?thesis by blast
qed

theorem kit_capacity_honest_witness:
  "\<exists>k. kitCapacity (shop\<lparr>dbSettings := map (\<lambda>s. s\<lparr>seSplit := True\<rparr>) (dbSettings shop)\<rparr>) 1 31 None
      = Inr (KitComputed k) \<and> kcCapacity k = 3 \<and> kcLimitedBy k = [(22, ''NUT'')]"
proof -
  let ?d = "shop\<lparr>dbSettings := map (\<lambda>s. s\<lparr>seSplit := True\<rparr>) (dbSettings shop)\<rparr>"
  have "case kitCapacity ?d 1 31 None of Inr (KitComputed k) \<Rightarrow> kcCapacity k = 3 \<and> kcLimitedBy k = [(22, ''NUT'')]
      | _ \<Rightarrow> False" by code_simp
  then obtain k where k: "kitCapacity ?d 1 31 None = Inr (KitComputed k)" "kcCapacity k = 3"
    "kcLimitedBy k = [(22, ''NUT'')]" by (auto split: sum.splits kit_capacity_result.splits)
  from kit_capacity_honest [OF k(1)] k show ?thesis by blast
qed

definition parted_shop :: db where
  "parted_shop = shop\<lparr>dbBalances := filter (\<lambda>r. (baItem r, baLocation r) \<in> {(21, 42), (22, 41)}) (dbBalances shop)\<rparr>"

text \<open>
  Without split fulfilment the explanation can be missing. There is a sound database in
  which both components of a kit are in stock, at different locations, where \<open>kitCapacity\<close>
  answers zero kits and names no limiting component at all: one component taken alone is not
  held back by any location, so no single-component figure equals the capacity.
\<close>

theorem capacity_explanation_missing:
  "balances_ok parted_shop \<and> recipes_ok parted_shop \<and> items_ok parted_shop
   \<and> on_hand_at parted_shop (1, 21, 42) = 4 \<and> on_hand_at parted_shop (1, 22, 41) = 3
   \<and> (case kitCapacity parted_shop 1 31 None of
        Inr (KitComputed k) \<Rightarrow> kcCapacity k = 0 \<and> kcLimitedBy k = [] | _ \<Rightarrow> False)"
  by code_simp

section \<open>Declaring a kit\<close>

definition kits_hold_nothing :: "db \<Rightarrow> bool" where
  "kits_hold_nothing d \<longleftrightarrow> list_all (\<lambda>r. itIsKit r \<longrightarrow>
     \<not> list_ex (\<lambda>x. baBusiness x = itBusiness r \<and> baItem x = itId r) (dbBalances d)
     \<and> \<not> list_ex (\<lambda>x. leBusiness x = itBusiness r \<and> leItem x = itId r) (dbLedger d)) (dbItems d)"

lemma declareKit_cases:
  assumes "declareKit b i d = Inr (result, d')"
  obtains (same) "d' = d" "result = KitDeclared \<Longrightarrow> \<exists>r \<in> set (dbItems d). itBusiness r = b \<and> itId r = i \<and> itIsKit r"
  | (marked) r where "result = KitDeclared" "r \<in> set (dbItems d)" "itBusiness r = b" "itId r = i"
      "\<not> list_ex (\<lambda>r. baBusiness r = b \<and> baItem r = i) (dbBalances d)"
      "\<not> list_ex (\<lambda>r. leBusiness r = b \<and> leItem r = i) (dbLedger d)"
      "d' = d\<lparr>dbItems := update_where (\<lambda>r. itId r = i) (\<lambda>r. r\<lparr>itIsKit := True\<rparr>) (dbItems d)\<rparr>"
proof (cases "List.find (is_live_item b i) (dbItems d)")
  case None
  with assms show thesis by (intro same) (auto simp: declareKit_def transactionally_Inr)
next
  case (Some r)
  then have r: "r \<in> set (dbItems d)" "itBusiness r = b" "itId r = i"
    by (auto simp: find_Some_iff is_live_item_def)
  show thesis
  proof (cases "itIsKit r \<or> list_ex (\<lambda>r. baBusiness r = b \<and> baItem r = i) (dbBalances d)")
    case True
    with assms Some r show thesis
      by (intro same) (auto simp: declareKit_def transactionally_Inr split: if_splits)
  next
    case False
    with assms Some have res: "result = KitDeclared" and m: "mark_kit b i d = Inr d'"
      by (auto simp: declareKit_def transactionally_Inr result_simps)
    from m show thesis by (intro marked [OF res r]) (auto simp: mark_kit_def result_simps)
  qed
qed

text \<open>
  A kit has no stock of its own. When \<open>declareKit\<close> answers \<open>declared\<close>, the item is a kit
  and no balance row and no ledger entry of the business names it; no kit holding nothing starts
  to hold something by it; and the call touches neither balances nor ledger whatever it answers.
\<close>

theorem declared_kit_holds_nothing:
  assumes "declareKit b i d = Inr (result, d')" and "kits_hold_nothing d" and "distinct (map itId (dbItems d))"
  shows "kits_hold_nothing d' \<and> dbBalances d' = dbBalances d \<and> dbLedger d' = dbLedger d
    \<and> (result = KitDeclared \<longrightarrow> item_kind_in d' b i True
        \<and> (\<forall>x \<in> set (dbBalances d'). (baBusiness x, baItem x) \<noteq> (b, i))
        \<and> (\<forall>x \<in> set (dbLedger d'). (leBusiness x, leItem x) \<noteq> (b, i)))"
  using assms(1)
proof (cases rule: declareKit_cases)
  case same
  have "result = KitDeclared \<longrightarrow> item_kind_in d b i True
      \<and> (\<forall>x \<in> set (dbBalances d). (baBusiness x, baItem x) \<noteq> (b, i))
      \<and> (\<forall>x \<in> set (dbLedger d). (leBusiness x, leItem x) \<noteq> (b, i))"
  proof
    assume "result = KitDeclared"
    then obtain r where "r \<in> set (dbItems d)" "itBusiness r = b" "itId r = i" "itIsKit r" using same(2) by blast
    with assms(2) show "item_kind_in d b i True
      \<and> (\<forall>x \<in> set (dbBalances d). (baBusiness x, baItem x) \<noteq> (b, i))
      \<and> (\<forall>x \<in> set (dbLedger d). (leBusiness x, leItem x) \<noteq> (b, i))"
      by (auto simp: kits_hold_nothing_def list_all_iff list_ex_iff item_kind_in_def)
  qed
  with same(1) assms(2) show ?thesis by simp
next
  case (marked r)
  have owner: "itBusiness x = b" if "x \<in> set (dbItems d)" "itId x = i" for x
    using assms(3) marked(2-4) that by (metis distinct_map inj_onD)
  have "kits_hold_nothing d'"
    using assms(2) marked(5,6) owner
    by (auto simp: marked(7) kits_hold_nothing_def list_all_iff list_ex_iff set_update_where)
  moreover have "item_kind_in d' b i True"
  proof -
    have "r\<lparr>itIsKit := True\<rparr> \<in> set (dbItems d')"
      unfolding marked(7) using marked(2,4) by (auto simp: set_update_where intro: image_eqI [of _ _ r])
    then show ?thesis unfolding item_kind_in_def list_ex_iff using marked(3,4) by (intro bexI) auto
  qed
  ultimately show ?thesis using marked(5,6) by (auto simp: marked(7) list_ex_iff)
qed

text \<open>The sample database with a new item 33 that has never been counted.\<close>

definition boxed_shop :: db where
  "boxed_shop = shop\<lparr>dbItems := dbItems shop @
     [\<lparr>itId = 33, itBusiness = 1, itSku = ''BOX'', itName = ''Box'', itDescription = None,
       itSafetyOverride = None, itIsKit = False, itIsActive = True, itDeletedAt = None\<rparr>]\<rparr>"

theorem declared_kit_holds_nothing_witness:
  "\<exists>d'. declareKit 1 33 boxed_shop = Inr (KitDeclared, d') \<and> kits_hold_nothing d' \<and> item_kind_in d' 1 33 True
    \<and> declareKit 1 21 boxed_shop = Inr (DeclareHoldsStock, boxed_shop)"
proof -
  have "case declareKit 1 33 boxed_shop of Inl e \<Rightarrow> False | Inr (r, d') \<Rightarrow> r = KitDeclared" by code_simp
  then obtain d' where a: "declareKit 1 33 boxed_shop = Inr (KitDeclared, d')" by (auto split: sum.splits)
  have s: "declareKit 1 21 boxed_shop = Inr (DeclareHoldsStock, boxed_shop)" by code_simp
  have "kits_hold_nothing boxed_shop" "distinct (map itId (dbItems boxed_shop))" by code_simp+
  from a s declared_kit_holds_nothing [OF a this] show ?thesis by blast
qed

text \<open>
  The conversion guard looks at balances only. For a live stocked item with no balance row
  that a recipe names as a component, \<open>declareKit\<close> does not answer: the flag carried by the
  component's foreign key makes the database refuse the update, and the call raises that error
  although its three outcomes were meant to spare the operator one.
\<close>

theorem declaring_a_component_raises:
  assumes "List.find (is_live_item b i) (dbItems d) = Some item" and "\<not> itIsKit item"
    and "\<not> list_ex (\<lambda>r. baBusiness r = b \<and> baItem r = i) (dbBalances d)"
    and "\<not> list_ex (\<lambda>r. leBusiness r = b \<and> leItem r = i) (dbLedger d)"
    and "c \<in> set (dbComponents d)" and "rcBusiness c = b" and "rcComponent c = i"
  shows "declareKit b i d = Inl (ForeignKeyViolation ''kit_recipe_components_component_fkey'')"
proof -
  have "list_ex (\<lambda>r. rcBusiness r = b \<and> rcComponent r = i) (dbComponents d)"
    using assms(5-7) by (auto simp: list_ex_iff)
  then show ?thesis
    using assms(1-4) by (simp add: declareKit_def transactionally_def mark_kit_def)
qed

definition box_in_set :: db where
  "box_in_set = boxed_shop\<lparr>dbComponents := dbComponents shop @
     [\<lparr>rcBusiness = 1, rcRecipe = 71, rcKit = 31, rcComponent = 33, rcQuantity = 1\<rparr>]\<rparr>"

theorem declaring_a_component_raises_witness:
  "declareKit 1 33 box_in_set = Inl (ForeignKeyViolation ''kit_recipe_components_component_fkey'')"
proof (rule declaring_a_component_raises)
  show "List.find (is_live_item 1 33) (dbItems box_in_set) = Some (last (dbItems boxed_shop))" by code_simp
  show "\<not> itIsKit (last (dbItems boxed_shop))" by code_simp
  show "\<not> list_ex (\<lambda>r. baBusiness r = 1 \<and> baItem r = 33) (dbBalances box_in_set)" by code_simp
  show "\<not> list_ex (\<lambda>r. leBusiness r = 1 \<and> leItem r = 33) (dbLedger box_in_set)" by code_simp
  show "last (dbComponents box_in_set) \<in> set (dbComponents box_in_set)" by (simp add: box_in_set_def)
  show "rcBusiness (last (dbComponents box_in_set)) = 1" by code_simp
  show "rcComponent (last (dbComponents box_in_set)) = 33" by code_simp
qed

section \<open>Overlaps\<close>

definition overlaps_of :: "db \<Rightarrow> uuid \<Rightarrow> (component_row \<times> recipe_row) list \<Rightarrow> (uuid \<times> kit_overlap) list" where
  "overlaps_of d b xs = fold (add_overlap d b) xs []"

lemma fold_add_overlap:
  assumes "\<forall>x \<in> set xs. item_of d (reItem (snd x)) \<noteq> None"
    and "distinct (map fst m)" and "\<forall>(k, v) \<in> set m. koKit v = k \<and> koShared v \<noteq> [] \<and> set (koShared v) \<subseteq> S"
    and "\<forall>x \<in> set xs. (rcComponent (fst x), sku_in d b (rcComponent (fst x))) \<in> S"
  defines "m' \<equiv> fold (add_overlap d b) xs m"
  shows "distinct (map fst m')"
    and "fst ` set m' = fst ` set m \<union> (\<lambda>x. reItem (snd x)) ` set xs"
    and "\<forall>(k, v) \<in> set m'. koKit v = k \<and> koShared v \<noteq> [] \<and> set (koShared v) \<subseteq> S"
proof -
  have put: "\<forall>(k, v) \<in> set (alist_put k0 v0 m). Q k v"
    if "\<forall>(k, v) \<in> set m. Q k v" "Q k0 v0" for m :: "(uuid \<times> kit_overlap) list" and k0 v0 Q
    using that by (induction k0 v0 m rule: alist_put.induct) auto
  have "distinct (map fst m') \<and> fst ` set m' = fst ` set m \<union> (\<lambda>x. reItem (snd x)) ` set xs
    \<and> (\<forall>(k, v) \<in> set m'. koKit v = k \<and> koShared v \<noteq> [] \<and> set (koShared v) \<subseteq> S)"
    unfolding m'_def using assms(1-4)
  proof (induction xs arbitrary: m)
    case (Cons x xs)
    obtain kit where kit: "item_of d (reItem (snd x)) = Some kit" using Cons.prems(1) by auto
    have id: "itId kit = reItem (snd x)" using kit by (induction "dbItems d") (auto simp: item_of_def lookup_by_def find_Some_iff)
    define e where "e = (case map_of m (itId kit) of Some x \<Rightarrow> x
        | None \<Rightarrow> \<lparr>koKit = itId kit, koSku = itSku kit, koShared = []\<rparr>)"
    define n where "n = e\<lparr>koShared := koShared e @ [(rcComponent (fst x), sku_in d b (rcComponent (fst x)))]\<rparr>"
    have step: "add_overlap d b x m = alist_put (itId kit) n m"
      by (simp add: add_overlap_def kit e_def n_def Let_def)
    have "koKit e = itId kit \<and> set (koShared e) \<subseteq> S"
      using Cons.prems(3) by (auto simp: e_def split: option.splits dest: map_of_SomeD)
    then have "koKit n = itId kit \<and> koShared n \<noteq> [] \<and> set (koShared n) \<subseteq> S"
      using Cons.prems(4) by (simp add: n_def)
    then have inv: "\<forall>(k, v) \<in> set (alist_put (itId kit) n m). koKit v = k \<and> koShared v \<noteq> [] \<and> set (koShared v) \<subseteq> S"
      by (rule put [OF Cons.prems(3)])
    have d: "distinct (map fst (alist_put (itId kit) n m))" using Cons.prems(2) by simp
    from Cons.IH [OF _ d inv] Cons.prems(1,4) show ?case
      by (simp add: step id)
  qed simp
  then show "distinct (map fst m')"
    and "fst ` set m' = fst ` set m \<union> (\<lambda>x. reItem (snd x)) ` set xs"
    and "\<forall>(k, v) \<in> set m'. koKit v = k \<and> koShared v \<noteq> [] \<and> set (koShared v) \<subseteq> S" by blast+
qed

text \<open>
  The overlap warning and the recalculation list agree. For a stocked item whose users'
  kits exist, the kits \<open>describeOverlap\<close> warns of are exactly the kits
  \<open>kitsUsingComponent\<close> recalculates, each once, in the locale's order of their SKUs (any total
  order), and each names the item, with its SKU, as what is shared and nothing else.
\<close>

theorem overlap_names_every_kit:
  assumes "List.find (\<lambda>r. itBusiness r = b \<and> itId r = i) (dbItems d) = Some item" and "\<not> itIsKit item"
    and "\<forall>r \<in> set (dbRecipes d). item_of d (reItem r) \<noteq> None \<and> reItem r \<noteq> i"
    and "\<And>s t. collate s t \<or> collate t s" and "\<And>s t u. collate s t \<Longrightarrow> collate t u \<Longrightarrow> collate s u"
  shows "koKit ` set (describeOverlap collate d b i) = fst ` set (kitsUsingComponent d b i)
    \<and> distinct (map koKit (describeOverlap collate d b i))
    \<and> sorted_wrt (\<lambda>x y. collate (koSku x) (koSku y)) (describeOverlap collate d b i)
    \<and> (\<forall>x \<in> set (describeOverlap collate d b i). set (koShared x) = {(i, itSku item)})"
proof -
  let ?le = "\<lambda>x y. collate (koSku x) (koSku y)"
  let ?xs = "active_uses d b [i]"
  have keep: "filter (\<lambda>x. reItem (snd x) \<noteq> i) ?xs = ?xs"
    using assms(3) by (intro filter_True) (auto simp: active_uses_def)
  let ?m = "fold (add_overlap d b) ?xs []"
  have e: "describeOverlap collate d b i = sort_by ?le (map snd ?m)"
    using assms(1,2) keep by (simp add: describeOverlap_def)
  have items: "\<forall>x \<in> set ?xs. item_of d (reItem (snd x)) \<noteq> None"
    using assms(3) by (auto simp: active_uses_def)
  have shared: "\<forall>x \<in> set ?xs. (rcComponent (fst x), sku_in d b (rcComponent (fst x))) \<in> {(i, itSku item)}"
    using assms(1) by (auto simp: active_uses_def sku_in_def)
  note f = fold_add_overlap [OF items, of "[]" "{(i, itSku item)}", simplified, OF shared [simplified]]
  have keys: "map koKit (map snd ?m) = map fst ?m" using f(3) by auto
  have all: "\<forall>x \<in> set (map snd ?m). set (koShared x) = {(i, itSku item)}"
    using f(3) by (auto simp: subset_singleton_iff)
  have "koKit ` set (map snd ?m) = fst ` set ?m" using keys by (metis list.set_map)
  also have "\<dots> = fst ` set (kitsUsingComponent d b i)"
    unfolding f(2) by (force simp: kitsUsingComponent_def)
  finally have "koKit ` set (describeOverlap collate d b i) = fst ` set (kitsUsingComponent d b i)"
    by (simp add: e)
  moreover have "distinct (map koKit (describeOverlap collate d b i))"
    unfolding e distinct_map_sort_by keys by (rule f(1))
  moreover have "sorted_wrt ?le (sort_by ?le (map snd ?m))"
    by (rule row_order.sorted_sort_by) (unfold_locales, rule assms(4), erule (1) assms(5))
  ultimately show ?thesis using all by (simp add: e)
qed

theorem overlap_names_every_kit_witness:
  "map koKit (describeOverlap str_le shop 1 21) = [31] \<and> kitsUsingComponent shop 1 21 = [(31, 2)]
   \<and> map (set \<circ> koShared) (describeOverlap str_le shop 1 21) = [{(21, ''BOLT'')}]"
proof -
  have i: "List.find (\<lambda>r. itBusiness r = 1 \<and> itId r = 21) (dbItems shop) = Some (hd (dbItems shop))"
    by (simp add: shop_def)
  have k: "\<not> itIsKit (hd (dbItems shop))" "itSku (hd (dbItems shop)) = ''BOLT''" by code_simp+
  have r: "\<forall>r \<in> set (dbRecipes shop). item_of shop (reItem r) \<noteq> None \<and> reItem r \<noteq> 21" by code_simp
  have "map koKit (describeOverlap str_le shop 1 21) = [31]" "kitsUsingComponent shop 1 21 = [(31, 2)]"
    by code_simp+
  with overlap_names_every_kit [OF i k(1) r, of str_le] str_le_total str_le_trans k(2)
  show ?thesis by (auto simp: map_eq_Cons_conv)
qed

end
