(* ===== verification/Payload.thy ===== *)
theory Payload
  imports Prelude
begin

text \<open>
  Identifiers and small JSON objects as the program writes them into keys, payloads and details:
  \<open>uuid_text\<close> is the canonical text of a UUID, and a JSON object is the list of its fields. The
  fields the modelled code writes hold identifiers, numbers and text.
\<close>

section \<open>The text of an identifier\<close>

definition hex_char :: "nat \<Rightarrow> char" where
  "hex_char n = ''0123456789abcdef'' ! (n mod 16)"

fun hex_low :: "nat \<Rightarrow> nat \<Rightarrow> string" where
  "hex_low 0 i = []"
| "hex_low (Suc k) i = hex_char i # hex_low k (i div 16)"

definition dashed :: "string \<Rightarrow> string" where
  "dashed h = take 8 h @ ''-'' @ take 4 (drop 8 h) @ ''-'' @ take 4 (drop 12 h) @ ''-'' @ take 4 (drop 16 h)
     @ ''-'' @ drop 20 h"

definition uuid_text :: "uuid \<Rightarrow> string" where
  "uuid_text i = dashed (rev (hex_low 32 i))"

lemma undashed:
  assumes "length h = 32"
  shows "take 8 (dashed h) @ take 4 (drop 9 (dashed h)) @ take 4 (drop 14 (dashed h)) @ take 4 (drop 19 (dashed h))
    @ drop 24 (dashed h) = h"
proof -
  have "take 4 (drop 8 h) @ take 4 (drop 12 h) @ take 4 (drop 16 h) @ drop 20 h = drop 8 h"
  proof -
    have e: "take 4 (drop n h) @ drop (4 + n) h = drop n h" for n
      using append_take_drop_id [of 4 "drop n h"] by (simp only: drop_drop)
    from e [of 8] e [of 12] e [of 16] show ?thesis by simp
  qed
  then show ?thesis using assms by (simp add: dashed_def)
qed

lemma hex_char_inj: "hex_char m = hex_char n \<Longrightarrow> m mod 16 = n mod 16"
proof -
  have "distinct ''0123456789abcdef''" by simp
  then show "hex_char m = hex_char n \<Longrightarrow> m mod 16 = n mod 16"
    unfolding hex_char_def by (simp add: nth_eq_iff_index_eq)
qed

lemma length_hex_low [simp]: "length (hex_low k i) = k"
  by (induction k arbitrary: i) simp_all

lemma hex_low_inj: "hex_low k i = hex_low k j \<Longrightarrow> i mod 16 ^ k = j mod 16 ^ k"
proof (induction k arbitrary: i j)
  case (Suc k)
  from Suc.prems have c: "hex_char i = hex_char j" and r: "hex_low k (i div 16) = hex_low k (j div 16)" by simp_all
  have "i mod 16 = j mod 16" using hex_char_inj [OF c] .
  moreover have "(i div 16) mod 16 ^ k = (j div 16) mod 16 ^ k" using Suc.IH [OF r] .
  ultimately show ?case by (simp add: mod_mult2_eq)
qed simp

text \<open>Two identifiers of 128 bits with the same text are the same.\<close>

lemma uuid_text_inj:
  assumes "uuid_text i = uuid_text j" "i < 2 ^ 128" "j < 2 ^ 128"
  shows "i = j"
proof -
  let ?h = "rev (hex_low 32 i)" and ?g = "rev (hex_low 32 j)"
  have l: "length ?h = 32" "length ?g = 32" by simp_all
  from assms(1) have "dashed ?h = dashed ?g" by (simp add: uuid_text_def)
  with undashed [OF l(1)] undashed [OF l(2)] have "?h = ?g" by metis
  then have "hex_low 32 i = hex_low 32 j" by simp
  then have "i mod 16 ^ 32 = j mod 16 ^ 32" by (rule hex_low_inj)
  with assms(2,3) show ?thesis by simp
qed

section \<open>JSON objects\<close>

datatype json = JsonId uuid | JsonNumber int | JsonText string

type_synonym json_object = "(string \<times> json) list"

text \<open>\<open>asString\<close> of a field that holds an identifier, and \<open>asNumber\<close>.\<close>

definition json_id :: "json_object \<Rightarrow> string \<Rightarrow> uuid option" where
  "json_id p k = (case map_of p k of Some (JsonId i) \<Rightarrow> Some i | _ \<Rightarrow> None)"

definition json_number :: "json_object \<Rightarrow> string \<Rightarrow> int option" where
  "json_number p k = (case map_of p k of Some (JsonNumber n) \<Rightarrow> Some n | _ \<Rightarrow> None)"

lemmas json_simps [simp] = json_id_def json_number_def

section \<open>Numbers\<close>

text \<open>\<open>String(n)\<close> of two different whole numbers differs: the digits can be read back.\<close>

definition read_digits :: "string \<Rightarrow> nat" where
  "read_digits = foldl (\<lambda>n c. 10 * n + ((of_char c :: nat) - 48)) 0"

lemma read_digits_snoc: "read_digits (s @ [c]) = 10 * read_digits s + ((of_char c :: nat) - 48)"
  by (simp add: read_digits_def)

lemma read_digits [simp]: "read_digits (digits n) = n"
proof (induction n rule: digits.induct)
  case (1 n)
  have "(of_char (char_of (48 + n mod 10) :: char) :: nat) = 48 + n mod 10" by simp
  then show ?case using 1 by (subst digits.simps) (simp add: read_digits_snoc read_digits_def [of] split: if_splits)
qed

lemma number_text_inj: "0 \<le> m \<Longrightarrow> 0 \<le> n \<Longrightarrow> number_text m = number_text n \<longleftrightarrow> m = n"
  by (auto simp: number_text_def) (metis eq_nat_nat_iff read_digits)

end
