(* ===== verification/Reservations.thy ===== *)
theory Reservations
  imports Kits Allocation Adjustments Payload
begin

text \<open>
  \<^verbatim>\<open>packages/inventory/src/reservations.ts\<close>: committed demand. Reserving an order line,
  shipping it, releasing it, and switching the consumption mode of a business. Locking a balance
  changes no row, so a lock appears in the model only where what it returns is used; what
  \<open>readForResolution\<close> read before the locks is passed on explicitly.
\<close>

section \<open>What a line consumes, and where from\<close>

record reserve_input =
  rqBusiness :: uuid
  rqConnection :: uuid
  rqOrder :: string
  rqLine :: string
  rqItem :: uuid
  rqQuantity :: int
  rqLocationIds :: "uuid list option"
  rqActor :: "uuid option"
  rqNow :: "instant option"

record reservation_view =
  vwReservation :: uuid
  vwStatus :: reservation_status
  vwMode :: consumption_mode
  vwQuantity :: int
  vwAllocated :: int
  vwShortage :: int
  vwSplitBlocked :: bool
  vwAllocations :: "allocation_take list"

definition expand :: "db \<Rightarrow> uuid \<Rightarrow> uuid \<Rightarrow> (allocation_component list \<times> uuid option) option" where
  "expand d b i =
     (case List.find (is_live_item b i) (dbItems d) of
        None \<Rightarrow> None
      | Some item \<Rightarrow>
          if \<not> itIsKit item then Some ([\<lparr>acItem = i, unitsPerOrderedUnit = 1\<rparr>], None)
          else map_option (\<lambda>recipe.
              (map (\<lambda>c. \<lparr>acItem = rcComponent c, unitsPerOrderedUnit = rcQuantity c\<rparr>)
                 (filter (\<lambda>c. rcRecipe c = reId recipe) (dbComponents d)), Some (reId recipe)))
            (List.find (\<lambda>r. reBusiness r = b \<and> reItem r = i \<and> reStatus r = RecipeActive) (dbRecipes d)))"

definition eligibleLocations :: "db \<Rightarrow> uuid \<Rightarrow> uuid list option \<Rightarrow> uuid list" where
  "eligibleLocations d b locationIds =
     map loId (sort_by lo_before (filter (\<lambda>l. loBusiness l = b \<and> loIsActive l \<and> loDeletedAt l = None
        \<and> (case locationIds of None \<Rightarrow> True | Some ids \<Rightarrow> loId l \<in> set ids)) (dbLocations d)))"

definition add_available :: "db \<Rightarrow> inventory_settings \<Rightarrow> balance_row
    \<Rightarrow> (uuid \<rightharpoonup> (uuid \<rightharpoonup> int)) \<Rightarrow> exn + (uuid \<rightharpoonup> (uuid \<rightharpoonup> int))" where
  "add_available d s r available =
     (let byLocation = (case available (baItem r) of None \<Rightarrow> Map.empty | Some m \<Rightarrow> m)
      in bindR (effectiveSafetyStock (levels_at s (item_override d (baItem r)) r)) (\<lambda>safety.
         Inr (available(baItem r \<mapsto>
           byLocation(baLocation r \<mapsto> max 0 (baOnHand r - baReserved r - safety)))))) "

definition available_rows :: "db \<Rightarrow> uuid \<Rightarrow> uuid list \<Rightarrow> uuid list \<Rightarrow> balance_row list" where
  "available_rows d b items locs =
     filter (\<lambda>r. baBusiness r = b \<and> baItem r \<in> set items \<and> baLocation r \<in> set locs
        \<and> item_of d (baItem r) \<noteq> None) (dbBalances d)"

definition availableByItem :: "db \<Rightarrow> uuid \<Rightarrow> uuid list \<Rightarrow> uuid list \<Rightarrow> inventory_settings
    \<Rightarrow> exn + (uuid \<rightharpoonup> (uuid \<rightharpoonup> int))" where
  "availableByItem d b items locs s =
     (if items = [] \<or> locs = [] then Inr Map.empty
      else foldR (add_available d s) (available_rows d b items locs) Map.empty)"

section \<open>Reserved units\<close>

definition reserve_one :: "uuid \<Rightarrow> uuid \<times> uuid \<times> int \<Rightarrow> db \<Rightarrow> exn + db" where
  "reserve_one b x d = (case x of (i, l, q) \<Rightarrow>
     update_balance (b, i, l) (\<lambda>r. r\<lparr>baReserved := baReserved r + q\<rparr>) d)"

definition release_one :: "uuid \<Rightarrow> uuid \<times> uuid \<times> int \<Rightarrow> db \<Rightarrow> exn + db" where
  "release_one b x d = (case x of (i, l, q) \<Rightarrow>
     update_balance (b, i, l) (\<lambda>r. r\<lparr>baReserved := max 0 (baReserved r - q)\<rparr>) d)"

definition addReserved :: "uuid \<Rightarrow> (uuid \<times> uuid \<times> int) list \<Rightarrow> db \<Rightarrow> exn + db" where
  "addReserved b xs = foldR (reserve_one b) xs"

definition releaseReserved :: "uuid \<Rightarrow> (uuid \<times> uuid \<times> int) list \<Rightarrow> db \<Rightarrow> exn + db" where
  "releaseReserved b xs = foldR (release_one b) xs"

definition take_amount :: "allocation_take \<Rightarrow> uuid \<times> uuid \<times> int" where
  "take_amount t = (takeItem t, takeLocation t, takeQuantity t)"

definition row_amount :: "allocation_row \<Rightarrow> uuid \<times> uuid \<times> int" where
  "row_amount r = (alItem r, alLocation r, alQuantity r)"

section \<open>Reading reservations\<close>

definition row_take :: "allocation_row \<Rightarrow> allocation_take" where
  "row_take r = \<lparr>takeItem = alItem r, takeLocation = alLocation r, takeQuantity = alQuantity r\<rparr>"

definition allocations_of :: "db \<Rightarrow> uuid \<Rightarrow> allocation_row list" where
  "allocations_of d i = filter (\<lambda>a. alReservation a = i) (dbAllocations d)"

definition readReservation :: "db \<Rightarrow> uuid \<Rightarrow> uuid \<Rightarrow> reservation_view option" where
  "readReservation d b i =
     map_option (\<lambda>r. \<lparr>vwReservation = rsId r, vwStatus = rsStatus r, vwMode = rsMode r,
         vwQuantity = rsQuantity r, vwAllocated = rsQuantity r - rsShortage r,
         vwShortage = rsShortage r, vwSplitBlocked = rsSplitBlocked r,
         vwAllocations = map row_take (allocations_of d i)\<rparr>)
       (List.find (\<lambda>r. rsBusiness r = b \<and> rsId r = i) (dbReservations d))"

definition readReservationByLine :: "db \<Rightarrow> reserve_input \<Rightarrow> reservation_view option" where
  "readReservationByLine d input =
     (case List.find (\<lambda>r. reservation_line r = (rqConnection input, rqOrder input, rqLine input))
             (dbReservations d) of
        None \<Rightarrow> None
      | Some r \<Rightarrow> readReservation d (rqBusiness input) (rsId r))"

record held_reservation =
  hdStatus :: reservation_status
  hdMode :: consumption_mode
  hdAllocations :: "allocation_row list"

definition readForResolution :: "db \<Rightarrow> uuid \<Rightarrow> uuid \<Rightarrow> held_reservation option" where
  "readForResolution d b i =
     map_option (\<lambda>r. \<lparr>hdStatus = rsStatus r, hdMode = rsMode r, hdAllocations = allocations_of d i\<rparr>)
       (List.find (\<lambda>r. rsBusiness r = b \<and> rsId r = i) (dbReservations d))"

definition openReservationsForItem :: "db \<Rightarrow> uuid \<Rightarrow> uuid \<Rightarrow> (uuid \<times> int) list" where
  "openReservationsForItem d b i =
     List.map_filter (\<lambda>a. case lookup_by rsId (alReservation a) (dbReservations d) of
         Some r \<Rightarrow> if rsStatus r = ReservationOpen then Some (rsId r, alQuantity a) else None
       | None \<Rightarrow> None)
       (filter (\<lambda>a. alBusiness a = b \<and> alItem a = i) (dbAllocations d))"

section \<open>Reserving\<close>

datatype reserve_result =
    Reserved reservation_view
  | AlreadyRecorded reservation_view
  | ReserveNotFound
  | ReserveInvalid string

definition plan_input :: "reserve_input \<Rightarrow> inventory_settings \<Rightarrow> allocation_component list \<Rightarrow> uuid list
    \<Rightarrow> (uuid \<rightharpoonup> (uuid \<rightharpoonup> int)) \<Rightarrow> allocation_input" where
  "plan_input input s components order available =
     \<lparr>aiQuantity = rqQuantity input, aiComponents = components, locationOrder = order,
      aiAvailable = available, splitFulfillment = stSplit s\<rparr>"

definition new_reservation :: "reserve_input \<Rightarrow> inventory_settings \<Rightarrow> uuid option \<Rightarrow> allocation_plan
    \<Rightarrow> uuid \<Rightarrow> reservation_row" where
  "new_reservation input s recipe plan i =
     \<lparr>rsId = i, rsBusiness = rqBusiness input, rsItem = rqItem input, rsQuantity = rqQuantity input,
      rsConnection = rqConnection input, rsOrder = rqOrder input, rsLine = rqLine input,
      rsMode = stMode s, rsRecipe = recipe, rsStatus = ReservationOpen, rsShortage = shortage plan,
      rsSplitBlocked = splitBlocked plan, rsReleasedReason = None, rsResolvedAt = None\<rparr>"

definition order_reason :: "reserve_input \<Rightarrow> string" where
  "order_reason input = ''order '' @ rqOrder input @ '' line '' @ rqLine input"

definition take_shipment :: "string \<Rightarrow> uuid \<times> uuid \<times> int \<Rightarrow> movement" where
  "take_shipment reason x = (case x of (i, l, q) \<Rightarrow>
     \<lparr>mvItem = i, mvLocation = l, mvKind = Shipment, mvDelta = - q, mvReason = Some reason,
      mvReversalOf = None\<rparr>)"

definition posting_of :: "uuid \<Rightarrow> uuid option \<Rightarrow> instant option \<Rightarrow> movement list \<Rightarrow> posting_input" where
  "posting_of b actor now ms =
     \<lparr>poBusiness = b, poMovements = ms, poActor = actor, poCorrelation = None, poOccurredAt = now\<rparr>"

definition entry_by_take :: "allocation_take list \<Rightarrow> uuid list \<Rightarrow> (uuid \<times> uuid \<rightharpoonup> uuid)" where
  "entry_by_take ts ids =
     fold (\<lambda>(t, e) m. m((takeItem t, takeLocation t) \<mapsto> e)) (zip ts ids) Map.empty"

definition allocation_for :: "uuid \<Rightarrow> uuid \<Rightarrow> (uuid \<times> uuid \<rightharpoonup> uuid) \<Rightarrow> allocation_take \<Rightarrow> uuid \<Rightarrow> allocation_row" where
  "allocation_for b reservation entries t i =
     \<lparr>alId = i, alBusiness = b, alReservation = reservation, alItem = takeItem t,
      alLocation = takeLocation t, alQuantity = takeQuantity t,
      alEntry = entries (takeItem t, takeLocation t)\<rparr>"

definition record_take :: "uuid \<Rightarrow> uuid \<Rightarrow> (uuid \<times> uuid \<rightharpoonup> uuid) \<Rightarrow> allocation_take \<Rightarrow> db \<Rightarrow> exn + db" where
  "record_take b reservation entries t d =
     (let (i, d1) = take_uuid d in insert_allocation (allocation_for b reservation entries t i) d1)"

text \<open>Why a posting that was not accepted is reported as invalid.\<close>

definition posting_refusal :: "string \<Rightarrow> posting_result \<Rightarrow> string" where
  "posting_refusal short r = (case r of Invalid reason \<Rightarrow> reason | _ \<Rightarrow> short)"

text \<open>
  The takes of the plan, as stock: shipped at once or marked as reserved. The answer is the
  entry each take was consumed by, or the reason for giving up.
\<close>

definition commit_takes :: "reserve_input \<Rightarrow> consumption_mode \<Rightarrow> allocation_take list \<Rightarrow> db
    \<Rightarrow> exn + (string + (uuid \<times> uuid \<rightharpoonup> uuid)) \<times> db" where
  "commit_takes input mode ts d =
     (if mode = ConsumeImmediately \<and> ts \<noteq> [] then
        bindR (postMovements (posting_of (rqBusiness input) (rqActor input) (rqNow input)
                 (map (take_shipment (order_reason input) \<circ> take_amount) ts)) d) (\<lambda>(posted, d1).
        Inr (case posted of
               Posted ids _ \<Rightarrow> (Inr (entry_by_take ts ids), d1)
             | _ \<Rightarrow> (Inl (posting_refusal ''the units moved while the order was being recorded'' posted), d1)))
      else if ts \<noteq> [] then
        bindR (addReserved (rqBusiness input) (map take_amount ts) d) (\<lambda>d1. Inr (Inr Map.empty, d1))
      else Inr (Inr Map.empty, d))"

definition record_plan :: "reserve_input \<Rightarrow> inventory_settings \<Rightarrow> uuid option \<Rightarrow> allocation_plan
    \<Rightarrow> db \<Rightarrow> exn + (bool \<times> reserve_result \<times> db)" where
  "record_plan input s recipe plan d =
     (let (i, d1) = take_uuid d
      in bindR (insert_reservation (new_reservation input s recipe plan i) d1) (\<lambda>d2.
         bindR (commit_takes input (stMode s) (takes plan) d2) (\<lambda>(outcome, d3).
         case outcome of
           Inl reason \<Rightarrow> Inr (False, ReserveInvalid reason, d3)
         | Inr entries \<Rightarrow>
             bindR (foldR (record_take (rqBusiness input) i entries) (takes plan) d3) (\<lambda>d4.
             Inr (True, Reserved \<lparr>vwReservation = i, vwStatus = ReservationOpen, vwMode = stMode s,
                    vwQuantity = rqQuantity input, vwAllocated = allocated plan,
                    vwShortage = shortage plan, vwSplitBlocked = splitBlocked plan,
                    vwAllocations = takes plan\<rparr>, d4)))))"

definition reserve_work :: "reserve_input \<Rightarrow> reserve_result work" where
  "reserve_work input d =
     (let s = readSettings d (rqBusiness input)
      in case expand d (rqBusiness input) (rqItem input) of
           None \<Rightarrow> Inr (False, ReserveNotFound, d)
         | Some (components, recipe) \<Rightarrow>
             let order = eligibleLocations d (rqBusiness input) (rqLocationIds input)
             in bindR (availableByItem d (rqBusiness input) (map acItem components) order s) (\<lambda>available.
                bindR (planAllocation (plan_input input s components order available)) (\<lambda>plan.
                record_plan input s recipe plan d)))"

definition reserve :: "reserve_input \<Rightarrow> db \<Rightarrow> exn + reserve_result \<times> db" where
  "reserve input d =
     (if \<not> is_safe_integer (rqQuantity input) \<or> rqQuantity input < 1
      then Inr (ReserveInvalid ''an order line is a whole positive number of units'', d)
      else case readReservationByLine d input of
        Some existing \<Rightarrow> Inr (AlreadyRecorded existing, d)
      | None \<Rightarrow>
          case transactionally (reserve_work input) d of
            Inr r \<Rightarrow> Inr r
          | Inl e \<Rightarrow>
              if e = UniqueViolation ''stock_reservations_line_unique''
              then Inr (case readReservationByLine d input of
                          None \<Rightarrow> ReserveInvalid ''that order line is already recorded''
                        | Some recorded \<Rightarrow> AlreadyRecorded recorded, d)
              else Inl e)"

section \<open>Resolving\<close>

record resolve_input =
  rzBusiness :: uuid
  rzReservation :: uuid
  rzReason :: string
  rzActor :: "uuid option"
  rzNow :: "instant option"

text \<open>\<open>input.now ?? new Date()\<close>\<close>

definition resolved_at :: "resolve_input \<Rightarrow> db \<Rightarrow> instant" where
  "resolved_at input d = (case rzNow input of None \<Rightarrow> dbClock d | Some t \<Rightarrow> t)"

datatype fulfill_result =
    Fulfilled
  | FulfillNotFound
  | FulfillAlreadyResolved reservation_status
  | FulfillInvalid string

definition mark_consumed :: "resolve_input \<Rightarrow> db \<Rightarrow> exn + db" where
  "mark_consumed input d =
     update_reservations (\<lambda>r. rsId r = rzReservation input)
       (\<lambda>r. r\<lparr>rsStatus := ReservationConsumed, rsResolvedAt := Some (resolved_at input d)\<rparr>) d"

definition shipped_reason :: "uuid \<Rightarrow> string" where
  "shipped_reason i = ''shipped against reservation '' @ uuid_text i"

text \<open>What \<open>fulfillReservation\<close> does once it holds an open reservation.\<close>

definition fulfill_held :: "resolve_input \<Rightarrow> held_reservation \<Rightarrow> fulfill_result work" where
  "fulfill_held input held d =
     (if hdMode held = ReserveUntilFulfilled \<and> hdAllocations held \<noteq> [] then
        bindR (postMovements (posting_of (rzBusiness input) (rzActor input) (rzNow input)
                 (map (take_shipment (shipped_reason (rzReservation input)) \<circ> row_amount)
                   (hdAllocations held))) d) (\<lambda>(posted, d1).
        case posted of
          Posted ids bals \<Rightarrow>
            bindR (releaseReserved (rzBusiness input) (map row_amount (hdAllocations held)) d1) (\<lambda>d2.
            bindR (mark_consumed input d2) (\<lambda>d3. Inr (True, Fulfilled, d3)))
        | _ \<Rightarrow> Inr (False, FulfillInvalid
                 (posting_refusal ''the reserved units are no longer there'' posted), d1))
      else bindR (mark_consumed input d) (\<lambda>d1. Inr (True, Fulfilled, d1)))"

definition fulfillReservation :: "resolve_input \<Rightarrow> db \<Rightarrow> exn + fulfill_result \<times> db" where
  "fulfillReservation input = transactionally (\<lambda>d.
     case readForResolution d (rzBusiness input) (rzReservation input) of
       None \<Rightarrow> Inr (False, FulfillNotFound, d)
     | Some held \<Rightarrow>
         if hdStatus held \<noteq> ReservationOpen then Inr (False, FulfillAlreadyResolved (hdStatus held), d)
         else fulfill_held input held d)"

datatype release_result =
    Released int
  | ReleaseNotFound
  | ReleaseAlreadyResolved reservation_status
  | ReleaseInvalid string

definition restoring :: "string \<Rightarrow> allocation_row \<Rightarrow> movement" where
  "restoring reason a =
     \<lparr>mvItem = alItem a, mvLocation = alLocation a, mvKind = Reversal, mvDelta = alQuantity a,
      mvReason = Some reason, mvReversalOf = alEntry a\<rparr>"

definition reversible :: "allocation_row list \<Rightarrow> allocation_row list" where
  "reversible as = filter (\<lambda>a. alEntry a \<noteq> None) as"

definition mark_released :: "resolve_input \<Rightarrow> db \<Rightarrow> exn + db" where
  "mark_released input d =
     update_reservations (\<lambda>r. rsId r = rzReservation input)
       (\<lambda>r. r\<lparr>rsStatus := ReservationReleased, rsReleasedReason := Some (trim (rzReason input)),
              rsResolvedAt := Some (resolved_at input d)\<rparr>) d"

text \<open>
  Giving the units back: the reason for failing, or nothing. A posting of no movements is not
  attempted.
\<close>

definition give_back :: "uuid \<Rightarrow> uuid option \<Rightarrow> instant option \<Rightarrow> string \<Rightarrow> allocation_row list \<Rightarrow> db
    \<Rightarrow> exn + string option \<times> db" where
  "give_back b actor now reason as d =
     (if as = [] then Inr (None, d)
      else bindR (postMovements (posting_of b actor now (map (restoring reason) as)) d) (\<lambda>(posted, d1).
        Inr (case posted of Posted ids bals \<Rightarrow> (None, d1)
             | _ \<Rightarrow> (Some (posting_refusal ''the units could not be restored'' posted), d1))))"

definition units_of :: "allocation_row list \<Rightarrow> int" where
  "units_of as = sum_list (map alQuantity as)"

text \<open>What \<open>releaseReservation\<close> does once it holds an open reservation.\<close>

definition release_held :: "resolve_input \<Rightarrow> held_reservation \<Rightarrow> release_result work" where
  "release_held input held d =
     (if hdMode held = ConsumeImmediately then
        bindR (give_back (rzBusiness input) (rzActor input) (rzNow input) (trim (rzReason input))
                 (reversible (hdAllocations held)) d) (\<lambda>(failed, d1).
        case failed of
          Some reason \<Rightarrow> Inr (False, ReleaseInvalid reason, d1)
        | None \<Rightarrow> bindR (mark_released input d1) (\<lambda>d2.
                  Inr (True, Released (units_of (reversible (hdAllocations held))), d2)))
      else bindR (releaseReserved (rzBusiness input) (map row_amount (hdAllocations held)) d) (\<lambda>d1.
           bindR (mark_released input d1) (\<lambda>d2.
           Inr (True, Released (units_of (hdAllocations held)), d2))))"

definition releaseReservation :: "resolve_input \<Rightarrow> db \<Rightarrow> exn + release_result \<times> db" where
  "releaseReservation input d =
     (if trim (rzReason input) = []
      then Inr (ReleaseInvalid ''releasing a reservation needs a stated reason'', d)
      else transactionally (\<lambda>d.
        case readForResolution d (rzBusiness input) (rzReservation input) of
          None \<Rightarrow> Inr (False, ReleaseNotFound, d)
        | Some held \<Rightarrow>
            if hdStatus held \<noteq> ReservationOpen
            then Inr (False, ReleaseAlreadyResolved (hdStatus held), d)
            else release_held input held d) d)"

section \<open>Switching the consumption mode\<close>

record mode_switch_preview =
  mpFrom :: consumption_mode
  mpTo :: consumption_mode
  mpOpenReservations :: nat
  mpReservedUnits :: int

datatype mode_switch_result = Switched | ModeUnchanged | NeedsMigration mode_switch_preview

definition open_reservations :: "db \<Rightarrow> uuid \<Rightarrow> reservation_row list" where
  "open_reservations d b = filter (\<lambda>r. rsBusiness r = b \<and> rsStatus r = ReservationOpen) (dbReservations d)"

text \<open>The left join: a reservation without allocations is one row with no quantity.\<close>

definition preview_rows :: "db \<Rightarrow> uuid \<Rightarrow> (uuid \<times> int option) list" where
  "preview_rows d b =
     concat (map (\<lambda>r. case allocations_of d (rsId r) of [] \<Rightarrow> [(rsId r, None)]
         | as \<Rightarrow> map (\<lambda>a. (rsId r, Some (alQuantity a))) as) (open_reservations d b))"

definition previewModeSwitch :: "db \<Rightarrow> uuid \<Rightarrow> consumption_mode \<Rightarrow> mode_switch_preview" where
  "previewModeSwitch d b to =
     \<lparr>mpFrom = stMode (readSettings d b), mpTo = to,
      mpOpenReservations = length (set_of (map fst (preview_rows d b))),
      mpReservedUnits = sum_list (map (\<lambda>(i, q). case q of None \<Rightarrow> 0 | Some n \<Rightarrow> n) (preview_rows d b))\<rparr>"

definition set_mode :: "uuid \<Rightarrow> consumption_mode \<Rightarrow> db \<Rightarrow> exn + db" where
  "set_mode i to d = update_reservations (\<lambda>r. rsId r = i) (\<lambda>r. r\<lparr>rsMode := to\<rparr>) d"

definition name_entry :: "allocation_row \<times> uuid option \<Rightarrow> db \<Rightarrow> exn + db" where
  "name_entry x d = update_allocations (\<lambda>r. alId r = alId (fst x)) (\<lambda>r. r\<lparr>alEntry := snd x\<rparr>) d"

definition with_entries :: "allocation_row list \<Rightarrow> uuid list \<Rightarrow> (allocation_row \<times> uuid option) list" where
  "with_entries as ids = zip as (map Some ids @ replicate (length as) None)"

definition migration_reason :: "uuid \<Rightarrow> string" where
  "migration_reason i = ''consumption mode migration for reservation '' @ uuid_text i"

text \<open>Whether the reservation was moved: \<open>keep\<close> is the only thing the transaction answers.\<close>

definition migrate_held :: "uuid \<Rightarrow> uuid \<Rightarrow> consumption_mode \<Rightarrow> uuid option \<Rightarrow> instant option
    \<Rightarrow> allocation_row list \<Rightarrow> unit work" where
  "migrate_held b i to actor now as d =
     (if as = [] then bindR (set_mode i to d) (\<lambda>d1. Inr (True, (), d1))
      else if to = ConsumeImmediately then
        bindR (postMovements (posting_of b actor now
                 (map (take_shipment (migration_reason i) \<circ> row_amount) as)) d) (\<lambda>(posted, d1).
        case posted of
          Posted ids bals \<Rightarrow>
            bindR (releaseReserved b (map row_amount as) d1) (\<lambda>d2.
            bindR (foldR name_entry (with_entries as ids) d2) (\<lambda>d3.
            bindR (set_mode i to d3) (\<lambda>d4. Inr (True, (), d4))))
        | _ \<Rightarrow> Inr (False, (), d1))
      else
        bindR (give_back b actor now (migration_reason i) (reversible as) d) (\<lambda>(failed, d1).
        case failed of
          Some _ \<Rightarrow> Inr (False, (), d1)
        | None \<Rightarrow>
            bindR (addReserved b (map row_amount as) d1) (\<lambda>d2.
            bindR (update_allocations (\<lambda>r. alReservation r = i) (\<lambda>r. r\<lparr>alEntry := None\<rparr>) d2) (\<lambda>d3.
            bindR (set_mode i to d3) (\<lambda>d4. Inr (True, (), d4))))))"

definition migrateReservation :: "uuid \<Rightarrow> consumption_mode \<Rightarrow> uuid option \<Rightarrow> instant option \<Rightarrow> uuid
    \<Rightarrow> db \<Rightarrow> exn + unit \<times> db" where
  "migrateReservation b to actor now i = transactionally (\<lambda>d.
     case readForResolution d b i of
       None \<Rightarrow> Inr (False, (), d)
     | Some held \<Rightarrow>
         if hdStatus held = ReservationOpen \<and> hdMode held \<noteq> to
         then migrate_held b i to actor now (hdAllocations held) d
         else Inr (False, (), d))"

text \<open>
  The migrations run one transaction each: an exception leaves those already committed, so the
  database is returned beside the answer rather than inside it.
\<close>

fun migrate_all :: "uuid \<Rightarrow> consumption_mode \<Rightarrow> uuid option \<Rightarrow> instant option \<Rightarrow> uuid list \<Rightarrow> db
    \<Rightarrow> exn option \<times> db" where
  "migrate_all b to actor now [] d = (None, d)"
| "migrate_all b to actor now (i # is) d =
     (case migrateReservation b to actor now i d of
        Inl e \<Rightarrow> (Some e, d)
      | Inr (_, d') \<Rightarrow> migrate_all b to actor now is d')"

definition mode_row :: "uuid \<Rightarrow> consumption_mode \<Rightarrow> settings_row" where
  "mode_row b to = \<lparr>seBusiness = b, seSafetyStock = 1, seMode = to, seSplit = False\<rparr>"

record mode_switch_input =
  msBusiness :: uuid
  msTo :: consumption_mode
  msMigrate :: bool
  msActor :: "uuid option"
  msNow :: "instant option"

definition switchConsumptionMode :: "mode_switch_input \<Rightarrow> db \<Rightarrow> (exn + mode_switch_result) \<times> db" where
  "switchConsumptionMode input d =
     (let b = msBusiness input; to = msTo input; preview = previewModeSwitch d b to
      in if mpFrom preview = to then (Inr ModeUnchanged, d)
         else if mpOpenReservations preview > 0 \<and> \<not> msMigrate input
         then (Inr (NeedsMigration preview), d)
         else case migrate_all b to (msActor input) (msNow input) (map rsId (open_reservations d b)) d of
           (Some e, d1) \<Rightarrow> (Inl e, d1)
         | (None, d1) \<Rightarrow>
             (case upsert_settings (mode_row b to) (\<lambda>r. r\<lparr>seMode := to\<rparr>) d1 of
                Inl e \<Rightarrow> (Inl e, d1)
              | Inr d2 \<Rightarrow> (Inr Switched, d2)))"

section \<open>Moving the reserved figure\<close>

definition amount_at :: "uuid \<Rightarrow> (uuid \<times> uuid \<times> int) list \<Rightarrow> uuid \<times> uuid \<times> uuid \<Rightarrow> int" where
  "amount_at b xs k = sum_list (map (\<lambda>(i, l, q). if (b, i, l) = k then q else 0) xs)"

lemma amount_at_simps [simp]:
  "amount_at b [] k = 0"
  "amount_at b ((i, l, q) # xs) k = (if (b, i, l) = k then q else 0) + amount_at b xs k"
  "amount_at b (xs @ ys) k = amount_at b xs k + amount_at b ys k"
  by (simp_all add: amount_at_def)

lemma amount_at_nonneg: "\<forall>(i, l, q) \<in> set xs. 0 \<le> q \<Longrightarrow> 0 \<le> amount_at b xs k"
  by (auto simp: amount_at_def intro!: sum_list_nonneg split: prod.splits)

definition reserved_only :: "db \<Rightarrow> db \<Rightarrow> bool" where
  "reserved_only d d' \<longleftrightarrow> d' = d\<lparr>dbBalances := dbBalances d'\<rparr> \<and> on_hand_at d' = on_hand_at d
     \<and> (\<forall>k. find_balance d' k = None \<longleftrightarrow> find_balance d k = None) \<and> (balances_ok d \<longrightarrow> balances_ok d')"

lemma reserved_only_refl [simp]: "reserved_only d d"
  by (simp add: reserved_only_def)

lemma reserved_only_trans: "reserved_only a b \<Longrightarrow> reserved_only b c \<Longrightarrow> reserved_only a c"
proof -
  assume b: "reserved_only a b" and c: "reserved_only b c"
  have "c = b\<lparr>dbBalances := dbBalances c\<rparr>" "b = a\<lparr>dbBalances := dbBalances b\<rparr>"
    using b c by (simp_all add: reserved_only_def)
  moreover have "a\<lparr>dbBalances := x, dbBalances := y\<rparr> = a\<lparr>dbBalances := y\<rparr>" for x y by simp
  ultimately have "c = a\<lparr>dbBalances := dbBalances c\<rparr>" by metis
  moreover have "on_hand_at c = on_hand_at a" "\<forall>k. find_balance c k = None \<longleftrightarrow> find_balance a k = None"
    "balances_ok a \<longrightarrow> balances_ok c" using b c by (simp_all add: reserved_only_def)
  ultimately show ?thesis unfolding reserved_only_def by blast
qed

lemma reserved_update:
  assumes "update_balance key (\<lambda>r. r\<lparr>baReserved := g (baReserved r)\<rparr>) d = Inr d'"
  shows "reserved_only d d'"
    and "reserved_at d' k = (if k = key \<and> find_balance d k \<noteq> None then g (reserved_at d k) else reserved_at d k)"
proof -
  note u = update_balance_Inr [OF assms, simplified balance_key_def, simplified]
  have find: "find_balance d' k = (if k = key then map_option (\<lambda>r. r\<lparr>baReserved := g (baReserved r)\<rparr>)
      (find_balance d k) else find_balance d k)" for k
    by (rule update_balance_Inr(2) [OF assms]) (simp add: balance_key_def)
  have "on_hand_at d' k = on_hand_at d k" for k
    by (simp add: on_hand_at_def find split: option.splits)
  then show "reserved_only d d'" using u(1,3) by (simp add: reserved_only_def fun_eq_iff find)
  show "reserved_at d' k = (if k = key \<and> find_balance d k \<noteq> None then g (reserved_at d k) else reserved_at d k)"
    by (simp add: reserved_at_def find split: option.splits)
qed

lemma amount_one_simps [simp]:
  "reserve_one b (i, l, q) = update_balance (b, i, l) (\<lambda>r. r\<lparr>baReserved := baReserved r + q\<rparr>)"
  "release_one b (i, l, q) = update_balance (b, i, l) (\<lambda>r. r\<lparr>baReserved := max 0 (baReserved r - q)\<rparr>)"
  by (simp_all add: fun_eq_iff reserve_one_def release_one_def)

lemma addReserved_Inr:
  assumes "addReserved b xs d = Inr d'"
  shows "reserved_only d d' \<and> ((\<forall>(i, l, q) \<in> set xs. find_balance d (b, i, l) \<noteq> None) \<longrightarrow>
    (\<forall>k. reserved_at d' k = reserved_at d k + amount_at b xs k))"
  using assms unfolding addReserved_def
proof (induction xs arbitrary: d)
  case (Cons x xs)
  obtain i l q where x: "x = (i, l, q)" by (cases x)
  from Cons.prems obtain d1 where d1: "update_balance (b, i, l) (\<lambda>r. r\<lparr>baReserved := baReserved r + q\<rparr>) d = Inr d1"
    and rest: "foldR (reserve_one b) xs d1 = Inr d'"
    by (auto simp: result_simps x)
  note u = reserved_update [where g = "\<lambda>n. n + q", OF d1]
  have same: "find_balance d1 k = None \<longleftrightarrow> find_balance d k = None" for k
    using u(1) by (simp add: reserved_only_def)
  show ?case
  proof (intro conjI impI allI)
    show "reserved_only d d'" using u(1) Cons.IH [OF rest] reserved_only_trans by blast
    fix k assume rows: "\<forall>(i, l, q) \<in> set (x # xs). find_balance d (b, i, l) \<noteq> None"
    with Cons.IH [OF rest] same have "reserved_at d' k = reserved_at d1 k + amount_at b xs k" by auto
    with rows show "reserved_at d' k = reserved_at d k + amount_at b (x # xs) k"
      by (auto simp: u(2) x)
  qed
qed simp

lemma releaseReserved_Inr:
  assumes "releaseReserved b xs d = Inr d'"
  shows "reserved_only d d' \<and> ((\<forall>(i, l, q) \<in> set xs. 0 \<le> q) \<longrightarrow>
    (\<forall>k. amount_at b xs k \<le> reserved_at d k) \<longrightarrow>
    (\<forall>k. reserved_at d' k = reserved_at d k - amount_at b xs k))"
  using assms unfolding releaseReserved_def
proof (induction xs arbitrary: d)
  case (Cons x xs)
  obtain i l q where x: "x = (i, l, q)" by (cases x)
  from Cons.prems obtain d1 where
    d1: "update_balance (b, i, l) (\<lambda>r. r\<lparr>baReserved := max 0 (baReserved r - q)\<rparr>) d = Inr d1"
    and rest: "foldR (release_one b) xs d1 = Inr d'"
    by (auto simp: result_simps x)
  note u = reserved_update [where g = "\<lambda>n. max 0 (n - q)", OF d1]
  show ?case
  proof (intro conjI impI allI)
    show "reserved_only d d'" using u(1) Cons.IH [OF rest] reserved_only_trans by blast
    fix k
    assume pos: "\<forall>(i, l, q) \<in> set (x # xs). 0 \<le> q"
      and le: "\<forall>k. amount_at b (x # xs) k \<le> reserved_at d k"
    have q: "0 \<le> q" and tail: "0 \<le> amount_at b xs k" for k
      using pos amount_at_nonneg [of xs b k] by (simp_all add: x)
    have r1: "reserved_at d1 k = reserved_at d k - (if k = (b, i, l) then q else 0)" for k
    proof (cases "k = (b, i, l)")
      case True
      have "q + amount_at b xs k \<le> reserved_at d k" using le [rule_format, of k] by (simp add: x True)
      moreover have "find_balance d k = None \<Longrightarrow> reserved_at d k = 0" by (simp add: reserved_at_def)
      ultimately show ?thesis using q tail [of k] by (auto simp: u(2) True)
    qed (simp add: u(2))
    have "amount_at b xs k \<le> reserved_at d1 k" for k
      using le [rule_format, of k] by (simp add: r1 x split: if_splits)
    with Cons.IH [OF rest] pos have "reserved_at d' k = reserved_at d1 k - amount_at b xs k" by auto
    then show "reserved_at d' k = reserved_at d k - amount_at b (x # xs) k" by (auto simp: r1 x)
  qed
qed simp

end
