(* ===== verification/Books.thy ===== *)
theory Books
  imports Reservations
begin

text \<open>
  The invariant that ties the components together. \<open>books d\<close> says that every unit on hand is
  explained by the ledger, that no balance reserves more than it holds, and that the reserved
  figure of every item and location is exactly what open reservations in reserve mode have
  allocated there. Every operation of the inventory package keeps it.
\<close>

section \<open>The books: reserved units and open reservations\<close>

definition row_key :: "allocation_row \<Rightarrow> uuid \<times> uuid \<times> uuid" where
  "row_key a = (alBusiness a, alItem a, alLocation a)"

text \<open>Allocations under the reservations \<open>h\<close>, as units at one key.\<close>

definition units_under :: "(uuid \<Rightarrow> bool) \<Rightarrow> allocation_row list \<Rightarrow> uuid \<times> uuid \<times> uuid \<Rightarrow> int" where
  "units_under h as k =
     sum_list (map (\<lambda>a. if row_key a = k \<and> h (alReservation a) then alQuantity a else 0) as)"

definition holds_units :: "reservation_row list \<Rightarrow> uuid \<Rightarrow> bool" where
  "holds_units rows i = (case lookup_by rsId i rows of None \<Rightarrow> False
     | Some r \<Rightarrow> rsStatus r = ReservationOpen \<and> rsMode r = ReserveUntilFulfilled)"

definition committed :: "db \<Rightarrow> uuid \<times> uuid \<times> uuid \<Rightarrow> int" where
  "committed d = units_under (holds_units (dbReservations d)) (dbAllocations d)"

definition allocation_shape :: "allocation_row \<Rightarrow> (uuid \<times> uuid \<times> uuid) \<times> uuid \<times> int" where
  "allocation_shape a = (row_key a, alReservation a, alQuantity a)"

definition shape_ok :: "db \<Rightarrow> (uuid \<times> uuid \<times> uuid) \<times> uuid \<times> int \<Rightarrow> bool" where
  "shape_ok d s = (case s of (k, i, q) \<Rightarrow> 1 \<le> q \<and> find_balance d k \<noteq> None
     \<and> (\<exists>r \<in> set (dbReservations d). rsId r = i \<and> rsBusiness r = fst k))"

definition books :: "db \<Rightarrow> bool" where
  "books d \<longleftrightarrow> stock_good d \<and> distinct (map rsId (dbReservations d))
     \<and> (\<forall>i \<in> set (map rsId (dbReservations d)). i < dbNextUuid d)
     \<and> (\<forall>s \<in> set (map allocation_shape (dbAllocations d)). shape_ok d s)
     \<and> reserved_at d = committed d"

lemma units_under_simps [simp]:
  "units_under h [] k = 0"
  "units_under h (a # as) k = (if row_key a = k \<and> h (alReservation a) then alQuantity a else 0) + units_under h as k"
  "units_under h (as @ as') k = units_under h as k + units_under h as' k"
  by (simp_all add: units_under_def)

lemma units_under_shape:
  "map allocation_shape as = map allocation_shape as' \<Longrightarrow> units_under h as = units_under h as'"
proof (induction as arbitrary: as')
  case (Cons a as)
  then obtain a' as'' where as': "as' = a' # as''" "allocation_shape a = allocation_shape a'"
    "map allocation_shape as = map allocation_shape as''" by (cases as') auto
  with Cons.IH [OF as'(3)] show ?case by (simp add: fun_eq_iff allocation_shape_def)
qed simp

lemma units_under_cong:
  "(\<And>a. a \<in> set as \<Longrightarrow> h (alReservation a) = h' (alReservation a)) \<Longrightarrow> units_under h as = units_under h' as"
  by (induction as) (simp_all add: fun_eq_iff)

text \<open>One reservation's share of the units.\<close>

lemma units_under_split:
  "units_under h as k = units_under (\<lambda>j. j \<noteq> i \<and> h j) as k
     + (if h i then units_under (\<lambda>j. j = i) as k else 0)"
  by (induction as) auto

lemma units_under_amount:
  assumes "\<forall>a \<in> set as. alReservation a = i \<longrightarrow> alBusiness a = b"
  shows "units_under (\<lambda>j. j = i) as k
    = amount_at b (map row_amount (filter (\<lambda>a. alReservation a = i) as)) k"
  using assms by (induction as) (auto simp: row_key_def row_amount_def)

text \<open>Steps that touch neither reservations nor allocations nor a reserved figure keep the books.\<close>

definition apart :: "db \<Rightarrow> db \<Rightarrow> bool" where
  "apart d d' \<longleftrightarrow> dbReservations d' = dbReservations d \<and> dbAllocations d' = dbAllocations d
     \<and> reserved_at d' = reserved_at d \<and> (\<forall>k. find_balance d k \<noteq> None \<longrightarrow> find_balance d' k \<noteq> None)
     \<and> dbNextUuid d \<le> dbNextUuid d' \<and> (stock_good d \<longrightarrow> stock_good d')"

lemma apart_refl [simp]: "apart d d"
  by (simp add: apart_def)

lemma apart_trans: "apart a b \<Longrightarrow> apart b c \<Longrightarrow> apart a c"
  by (auto simp: apart_def)

lemma apart_books: "apart d d' \<Longrightarrow> books d \<Longrightarrow> books d'"
proof -
  assume a: "apart d d'" and b: "books d"
  have res: "dbReservations d' = dbReservations d" "dbAllocations d' = dbAllocations d"
    "reserved_at d' = reserved_at d" "dbNextUuid d \<le> dbNextUuid d'" "stock_good d'"
    using a b by (simp_all add: apart_def books_def)
  have "committed d' = committed d" by (simp add: committed_def res)
  moreover have "shape_ok d' s" if "shape_ok d s" for s
    using that a by (auto simp: shape_ok_def apart_def split: prod.splits)
  ultimately show "books d'" using b res by (auto simp: books_def)
qed

lemma posting_apart:
  assumes "postMovements input d = Inr (res, d')"
  shows "apart d d'"
proof -
  have "dbReservations d' = dbReservations d \<and> dbAllocations d' = dbAllocations d \<and> dbNextUuid d \<le> dbNextUuid d'"
    using assms
  proof (cases rule: postMovements_cases)
    case (posted ids bals)
    then have "same_but_stock d d'" "dbNextUuid d' = dbNextUuid d + length (poMovements input)"
      by (simp_all add: posted_effect_def Let_def)
    with same_but_stock_fields(7,8) show ?thesis by simp
  next
    case (too_few sfs)
    from ensured_fields(1,3) [OF too_few(2)] same_but_stock_fields(7,8) show ?thesis by simp
  next
    case (reserved t)
    from ensured_fields(1,3) [OF reserved(2)] same_but_stock_fields(7,8) show ?thesis by simp
  qed simp
  with postMovements_rows(1) [OF assms] postMovements_stock(3,4) [OF assms] show ?thesis
    by (simp add: apart_def)
qed

text \<open>
  Resolving or migrating one reservation: its row changes by \<open>f\<close>, its allocations keep their
  shape, and the reserved figures move by its units when it starts or stops holding them.
\<close>

lemma books_resolve:
  assumes b: "books d"
    and res: "dbReservations d' = update_where (\<lambda>r. rsId r = i) f (dbReservations d)"
    and f: "\<And>r. rsId (f r) = rsId r" "\<And>r. rsBusiness (f r) = rsBusiness r"
    and shapes: "map allocation_shape (dbAllocations d') = map allocation_shape (dbAllocations d)"
    and rows: "\<And>k. find_balance d k \<noteq> None \<Longrightarrow> find_balance d' k \<noteq> None"
    and nxt: "dbNextUuid d \<le> dbNextUuid d'" and good: "stock_good d'"
    and reserved: "\<And>k. reserved_at d' k = reserved_at d k
      + (if holds_units (dbReservations d') i then units_under (\<lambda>j. j = i) (dbAllocations d) k else 0)
      - (if holds_units (dbReservations d) i then units_under (\<lambda>j. j = i) (dbAllocations d) k else 0)"
  shows "books d'"
proof -
  have ids: "map rsId (dbReservations d') = map rsId (dbReservations d)"
    unfolding res by (rule map_update_where) (rule f(1))
  have other: "holds_units (dbReservations d') j = holds_units (dbReservations d) j" if "j \<noteq> i" for j
    unfolding holds_units_def res reservations.lookup_update [OF f(1)] using that by simp
  have "committed d' k = reserved_at d' k" for k
  proof -
    have "committed d' k = units_under (holds_units (dbReservations d')) (dbAllocations d) k"
      unfolding committed_def units_under_shape [OF shapes] ..
    also have "\<dots> = units_under (\<lambda>j. j \<noteq> i \<and> holds_units (dbReservations d) j) (dbAllocations d) k
        + (if holds_units (dbReservations d') i then units_under (\<lambda>j. j = i) (dbAllocations d) k else 0)"
      unfolding units_under_split [of "holds_units (dbReservations d')" _ _ i]
      using other units_under_cong [of "dbAllocations d" "\<lambda>j. j \<noteq> i \<and> holds_units (dbReservations d') j"
          "\<lambda>j. j \<noteq> i \<and> holds_units (dbReservations d) j"] by metis
    also have "\<dots> = reserved_at d' k"
      using reserved [of k] b units_under_split [of "holds_units (dbReservations d)" "dbAllocations d" k i]
      by (simp add: books_def committed_def)
    finally show ?thesis .
  qed
  moreover have "shape_ok d' s" if ok: "shape_ok d s" for s
  proof -
    obtain k j q where s: "s = (k, j, q)" by (cases s)
    obtain r where r: "r \<in> set (dbReservations d)" "rsId r = j" "rsBusiness r = fst k"
      using ok by (auto simp: shape_ok_def s)
    let ?r = "if rsId r = i then f r else r"
    have "?r \<in> set (dbReservations d')" unfolding res set_update_where using r(1) by (rule imageI)
    moreover have "rsId ?r = j" "rsBusiness ?r = fst k" using r(2,3) f by simp_all
    ultimately show ?thesis using ok rows unfolding shape_ok_def s prod.case by blast
  qed
  ultimately show ?thesis using b ids shapes nxt good
    by (auto simp: books_def fun_eq_iff)
qed

section \<open>Resolving keeps the books\<close>

lemma reserved_only_fields:
  assumes "reserved_only d d'"
  shows "dbReservations d' = dbReservations d" "dbAllocations d' = dbAllocations d"
    "dbNextUuid d' = dbNextUuid d" "dbLedger d' = dbLedger d" "dbUsers d' = dbUsers d"
    "stock_good d \<Longrightarrow> stock_good d'" "find_balance d k \<noteq> None \<Longrightarrow> find_balance d' k \<noteq> None"
    "on_hand_at d' = on_hand_at d" "dbSettings d' = dbSettings d"
proof -
  have d': "d' = d\<lparr>dbBalances := dbBalances d'\<rparr>" and h: "on_hand_at d' = on_hand_at d"
    and r: "\<forall>k. find_balance d' k = None \<longleftrightarrow> find_balance d k = None"
    and b: "balances_ok d \<longrightarrow> balances_ok d'" using assms by (simp_all add: reserved_only_def)
  show "dbReservations d' = dbReservations d" by (subst d') simp
  show "dbAllocations d' = dbAllocations d" by (subst d') simp
  show "dbNextUuid d' = dbNextUuid d" by (subst d') simp
  show "dbUsers d' = dbUsers d" by (subst d') simp
  show "dbSettings d' = dbSettings d" by (subst d') simp
  show l: "dbLedger d' = dbLedger d" by (subst d') simp
  show "on_hand_at d' = on_hand_at d" by (rule h)
  show "stock_good d'" if "stock_good d"
    using that b by (simp add: stock_good_def explained_def h l)
  show "find_balance d k \<noteq> None \<Longrightarrow> find_balance d' k \<noteq> None" using r by simp
qed

lemma update_reservations_Inr:
  "update_reservations p f d = Inr d' \<Longrightarrow> d' = d\<lparr>dbReservations := update_where p f (dbReservations d)\<rparr>"
  by (auto simp: update_reservations_def result_simps update_checked_Inr)

lemma figures_other_tables [simp]:
  "find_balance (d\<lparr>dbReservations := rs\<rparr>) = find_balance d"
  "find_balance (d\<lparr>dbAllocations := as\<rparr>) = find_balance d"
  "find_balance (d\<lparr>dbNextUuid := n\<rparr>) = find_balance d"
  "on_hand_at (d\<lparr>dbReservations := rs\<rparr>) = on_hand_at d"
  "on_hand_at (d\<lparr>dbAllocations := as\<rparr>) = on_hand_at d"
  "on_hand_at (d\<lparr>dbNextUuid := n\<rparr>) = on_hand_at d"
  "reserved_at (d\<lparr>dbReservations := rs\<rparr>) = reserved_at d"
  "reserved_at (d\<lparr>dbAllocations := as\<rparr>) = reserved_at d"
  "reserved_at (d\<lparr>dbNextUuid := n\<rparr>) = reserved_at d"
  "stock_good (d\<lparr>dbReservations := rs\<rparr>) = stock_good d"
  "stock_good (d\<lparr>dbAllocations := as\<rparr>) = stock_good d"
  "stock_good (d\<lparr>dbNextUuid := n\<rparr>) = stock_good d"
  by (simp_all add: fun_eq_iff find_balance_def on_hand_at_def reserved_at_def stock_good_def
      explained_def balances_ok_def)

lemma find_member: "List.find P xs = Some x \<Longrightarrow> x \<in> set xs \<and> P x"
  by (induction xs) (auto split: if_splits)

text \<open>What \<open>readForResolution\<close> found, when the books are in order.\<close>

lemma held_facts:
  assumes "readForResolution d b i = Some held" and "books d"
  shows "\<exists>r \<in> set (dbReservations d). rsId r = i \<and> rsBusiness r = b \<and> hdStatus held = rsStatus r \<and> hdMode held = rsMode r"
    and "hdAllocations held = allocations_of d i"
    and "holds_units (dbReservations d) i \<longleftrightarrow> hdStatus held = ReservationOpen \<and> hdMode held = ReserveUntilFulfilled"
    and "amount_at b (map row_amount (hdAllocations held)) k = units_under (\<lambda>j. j = i) (dbAllocations d) k"
    and "holds_units (dbReservations d) i \<Longrightarrow> units_under (\<lambda>j. j = i) (dbAllocations d) k \<le> reserved_at d k"
    and "\<forall>(l, m, q) \<in> set (map row_amount (hdAllocations held)). 0 \<le> q \<and> find_balance d (b, l, m) \<noteq> None"
    and "\<forall>a \<in> set (hdAllocations held). alBusiness a = b \<and> alReservation a = i"
proof -
  from assms(1) obtain r where r: "r \<in> set (dbReservations d)" "rsId r = i" "rsBusiness r = b"
    and held: "held = \<lparr>hdStatus = rsStatus r, hdMode = rsMode r, hdAllocations = allocations_of d i\<rparr>"
    by (auto simp: readForResolution_def dest: find_member)
  have dist: "distinct (map rsId (dbReservations d))" using assms(2) by (simp add: books_def)
  have look: "lookup_by rsId i (dbReservations d) = Some r"
    using reservations.lookup_member [OF dist r(1)] r(2) by simp
  show "\<exists>r \<in> set (dbReservations d). rsId r = i \<and> rsBusiness r = b \<and> hdStatus held = rsStatus r \<and> hdMode held = rsMode r"
    using r held by auto
  show as: "hdAllocations held = allocations_of d i" by (simp add: held)
  show "holds_units (dbReservations d) i \<longleftrightarrow> hdStatus held = ReservationOpen \<and> hdMode held = ReserveUntilFulfilled"
    by (simp add: holds_units_def look held)
  have shape: "shape_ok d (allocation_shape a)" if "a \<in> set (dbAllocations d)" for a
    using assms(2) that by (simp add: books_def)
  have own: "alBusiness a = b" if a: "a \<in> set (dbAllocations d)" "alReservation a = i" for a
  proof -
    obtain r' where r': "r' \<in> set (dbReservations d)" "rsId r' = i" "rsBusiness r' = alBusiness a"
      using shape [OF a(1)] a(2) by (auto simp: shape_ok_def allocation_shape_def row_key_def)
    have "r' = r" using dist r r' by (metis distinct_map inj_onD)
    with r r' show ?thesis by simp
  qed
  have "\<forall>a \<in> set (dbAllocations d). alReservation a = i \<longrightarrow> alBusiness a = b" using own by blast
  from units_under_amount [OF this] show
    "amount_at b (map row_amount (hdAllocations held)) k = units_under (\<lambda>j. j = i) (dbAllocations d) k"
    by (simp add: as allocations_of_def)
  have "0 \<le> alQuantity a" if "a \<in> set (dbAllocations d)" for a
    using shape [OF that] by (simp add: shape_ok_def allocation_shape_def)
  then have pos: "0 \<le> units_under h (dbAllocations d) k" for h
    unfolding units_under_def by (intro sum_list_nonneg) auto
  show "units_under (\<lambda>j. j = i) (dbAllocations d) k \<le> reserved_at d k" if "holds_units (dbReservations d) i"
    using assms(2) that pos [of "\<lambda>j. j \<noteq> i \<and> holds_units (dbReservations d) j"]
      units_under_split [of "holds_units (dbReservations d)" "dbAllocations d" k i]
    by (simp add: books_def committed_def)
  show "\<forall>a \<in> set (hdAllocations held). alBusiness a = b \<and> alReservation a = i"
    using own by (auto simp: as allocations_of_def)
  show "\<forall>(l, m, q) \<in> set (map row_amount (hdAllocations held)). 0 \<le> q \<and> find_balance d (b, l, m) \<noteq> None"
  proof -
    have "0 \<le> alQuantity a \<and> find_balance d (b, alItem a, alLocation a) \<noteq> None"
      if a: "a \<in> set (allocations_of d i)" for a
    proof -
      have m: "a \<in> set (dbAllocations d)" "alReservation a = i" using a by (auto simp: allocations_of_def)
      from shape [OF m(1)] own [OF m] show ?thesis
        by (simp add: shape_ok_def allocation_shape_def row_key_def)
    qed
    then show ?thesis by (auto simp: as row_amount_def)
  qed
qed

lemma fulfill_cases:
  assumes "fulfillReservation input d = Inr (res, d')"
  obtains (refused) "res \<noteq> Fulfilled" "d' = d"
  | (closed) held where "res = Fulfilled"
      "readForResolution d (rzBusiness input) (rzReservation input) = Some held"
      "hdStatus held = ReservationOpen"
      "hdMode held \<noteq> ReserveUntilFulfilled \<or> hdAllocations held = []" "mark_consumed input d = Inr d'"
  | (shipped) held ids bals d1 d2 where "res = Fulfilled"
      "readForResolution d (rzBusiness input) (rzReservation input) = Some held"
      "hdStatus held = ReservationOpen" "hdMode held = ReserveUntilFulfilled" "hdAllocations held \<noteq> []"
      "postMovements (posting_of (rzBusiness input) (rzActor input) (rzNow input)
         (map (take_shipment (shipped_reason (rzReservation input)) \<circ> row_amount) (hdAllocations held))) d
       = Inr (Posted ids bals, d1)"
      "releaseReserved (rzBusiness input) (map row_amount (hdAllocations held)) d1 = Inr d2"
      "mark_consumed input d2 = Inr d'"
proof (cases "readForResolution d (rzBusiness input) (rzReservation input)")
  case None
  with assms show thesis by (intro refused) (auto simp: fulfillReservation_def transactionally_Inr)
next
  case (Some held)
  show thesis
  proof (cases "hdStatus held = ReservationOpen")
    case False
    with assms Some show thesis by (intro refused) (auto simp: fulfillReservation_def transactionally_Inr)
  next
    case True
    from assms Some True obtain keep s where w: "fulfill_held input held d = Inr (keep, res, s)"
      and d': "d' = (if keep then s else d)"
      by (auto simp: fulfillReservation_def transactionally_Inr)
    show thesis
    proof (cases "hdMode held = ReserveUntilFulfilled \<and> hdAllocations held \<noteq> []")
      case False
      with w have "mark_consumed input d = Inr s" "res = Fulfilled" keep
        by (auto simp: fulfill_held_def result_simps)
      with closed [OF _ Some True] False d' show thesis by auto
    next
      case m: True
      from w m obtain posted d1 where p: "postMovements (posting_of (rzBusiness input) (rzActor input)
          (rzNow input) (map (take_shipment (shipped_reason (rzReservation input)) \<circ> row_amount)
          (hdAllocations held))) d = Inr (posted, d1)"
        and rest: "(case posted of Posted ids bals \<Rightarrow>
            bindR (releaseReserved (rzBusiness input) (map row_amount (hdAllocations held)) d1) (\<lambda>d2.
            bindR (mark_consumed input d2) (\<lambda>d3. Inr (True, Fulfilled, d3)))
          | _ \<Rightarrow> Inr (False, FulfillInvalid
                 (posting_refusal ''the reserved units are no longer there'' posted), d1)) = Inr (keep, res, s)"
        by (auto simp: fulfill_held_def result_simps)
      show thesis
      proof (cases posted)
        case (Posted ids bals)
        with rest obtain d2 where "releaseReserved (rzBusiness input) (map row_amount (hdAllocations held)) d1 = Inr d2"
          "mark_consumed input d2 = Inr s" "res = Fulfilled" keep by (auto simp: result_simps)
        with shipped [OF _ Some True _ _ p [unfolded Posted]] m d' show thesis by simp
      next
        case (Insufficient sfs)
        with rest d' show thesis by (intro refused) auto
      next
        case (Invalid reason)
        with rest d' show thesis by (intro refused) auto
      qed
    qed
  qed
qed

lemma mark_consumed_Inr:
  "mark_consumed input d = Inr d' \<Longrightarrow> d' = d\<lparr>dbReservations := update_where (\<lambda>r. rsId r = rzReservation input)
     (\<lambda>r. r\<lparr>rsStatus := ReservationConsumed, rsResolvedAt := Some (resolved_at input d)\<rparr>) (dbReservations d)\<rparr>"
  unfolding mark_consumed_def by (rule update_reservations_Inr)

lemma mark_released_Inr:
  "mark_released input d = Inr d' \<Longrightarrow> d' = d\<lparr>dbReservations := update_where (\<lambda>r. rsId r = rzReservation input)
     (\<lambda>r. r\<lparr>rsStatus := ReservationReleased, rsReleasedReason := Some (trim (rzReason input)),
        rsResolvedAt := Some (resolved_at input d)\<rparr>) (dbReservations d)\<rparr>"
  unfolding mark_released_def by (rule update_reservations_Inr)

text \<open>A resolved reservation holds nothing.\<close>

lemma holds_after:
  assumes "\<And>r. rsId (f r) = rsId r"
  shows "holds_units (update_where (\<lambda>r. rsId r = i) f rows) i
    = (case lookup_by rsId i rows of None \<Rightarrow> False
       | Some r \<Rightarrow> rsStatus (f r) = ReservationOpen \<and> rsMode (f r) = ReserveUntilFulfilled)"
  by (simp add: holds_units_def reservations.lookup_update [OF assms] split: option.splits)


text \<open>
  The common end of every resolution: the units held by the reservation, if any, were taken off
  the reserved figures of \<open>d\<close> on the way to \<open>d2\<close>, and then its row is rewritten to hold nothing.
\<close>

lemma resolved_books:
  assumes b: "books d" and held: "readForResolution d bus i = Some held"
    and res: "dbReservations d2 = dbReservations d" and alloc: "dbAllocations d2 = dbAllocations d"
    and nxt: "dbNextUuid d \<le> dbNextUuid d2" and good: "stock_good d2"
    and rows: "\<And>k. find_balance d k \<noteq> None \<Longrightarrow> find_balance d2 k \<noteq> None"
    and reserved: "\<And>k. reserved_at d2 k = reserved_at d k
      - (if holds_units (dbReservations d) i then units_under (\<lambda>j. j = i) (dbAllocations d) k else 0)"
    and d': "d' = d2\<lparr>dbReservations := update_where (\<lambda>r. rsId r = i) f (dbReservations d2)\<rparr>"
    and f: "\<And>r. rsId (f r) = rsId r" "\<And>r. rsBusiness (f r) = rsBusiness r"
    and closed: "\<And>r. \<not> (rsStatus (f r) = ReservationOpen \<and> rsMode (f r) = ReserveUntilFulfilled)"
  shows "books d'"
proof (rule books_resolve [OF b _ f])
  show "dbReservations d' = update_where (\<lambda>r. rsId r = i) f (dbReservations d)" by (simp add: d' res)
  show "map allocation_shape (dbAllocations d') = map allocation_shape (dbAllocations d)"
    by (simp add: d' alloc)
  show "find_balance d k \<noteq> None \<Longrightarrow> find_balance d' k \<noteq> None" for k using rows by (simp add: d')
  show "dbNextUuid d \<le> dbNextUuid d'" "stock_good d'" using nxt good by (simp_all add: d')
  have "\<not> holds_units (dbReservations d') i"
    using closed by (simp add: d' res holds_after [OF f(1)] split: option.splits)
  then show "reserved_at d' k = reserved_at d k
      + (if holds_units (dbReservations d') i then units_under (\<lambda>j. j = i) (dbAllocations d) k else 0)
      - (if holds_units (dbReservations d) i then units_under (\<lambda>j. j = i) (dbAllocations d) k else 0)" for k
    using reserved by (simp add: d')
qed

text \<open>Taking a held reservation's units off the reserved figures, in a state the books reach.\<close>

lemma release_units:
  assumes b: "books d" and held: "readForResolution d bus i = Some held"
    and is_open: "hdStatus held = ReservationOpen" "hdMode held = ReserveUntilFulfilled"
    and apart: "apart d d1"
    and rel: "releaseReserved bus (map row_amount (hdAllocations held)) d1 = Inr d2"
  shows "reserved_at d2 k = reserved_at d k - units_under (\<lambda>j. j = i) (dbAllocations d) k"
    and "dbReservations d2 = dbReservations d" "dbAllocations d2 = dbAllocations d"
    and "dbNextUuid d \<le> dbNextUuid d2" "stock_good d2"
    and "find_balance d k \<noteq> None \<Longrightarrow> find_balance d2 k \<noteq> None" "reserved_only d1 d2"
    and "holds_units (dbReservations d) i"
proof -
  note facts = held_facts [OF held b]
  from releaseReserved_Inr [OF rel] have ro: "reserved_only d1 d2"
    and eff: "(\<forall>(i, l, q) \<in> set (map row_amount (hdAllocations held)). 0 \<le> q) \<longrightarrow>
      (\<forall>k. amount_at bus (map row_amount (hdAllocations held)) k \<le> reserved_at d1 k) \<longrightarrow>
      (\<forall>k. reserved_at d2 k = reserved_at d1 k - amount_at bus (map row_amount (hdAllocations held)) k)"
    by blast+
  have same: "reserved_at d1 = reserved_at d" using apart by (simp add: apart_def)
  show h: "holds_units (dbReservations d) i" using facts(3) is_open by simp
  have le: "amount_at bus (map row_amount (hdAllocations held)) k \<le> reserved_at d1 k" for k
    using facts(5) [OF h] by (simp add: facts(4) same)
  have pos: "\<forall>(i, l, q) \<in> set (map row_amount (hdAllocations held)). 0 \<le> q" using facts(6) by auto
  show "reserved_at d2 k = reserved_at d k - units_under (\<lambda>j. j = i) (dbAllocations d) k"
    using eff pos le by (simp add: facts(4) same)
  show "dbReservations d2 = dbReservations d" "dbAllocations d2 = dbAllocations d"
    "dbNextUuid d \<le> dbNextUuid d2"
    using reserved_only_fields(1-3) [OF ro] apart by (simp_all add: apart_def)
  show "stock_good d2" using reserved_only_fields(6) [OF ro] apart b by (simp add: apart_def books_def)
  show "find_balance d k \<noteq> None \<Longrightarrow> find_balance d2 k \<noteq> None"
    using reserved_only_fields(7) [OF ro] apart unfolding apart_def by blast
  show "reserved_only d1 d2" by (rule ro)
qed

lemma fulfill_books:
  assumes "fulfillReservation input d = Inr (res, d')" and b: "books d"
  shows "books d'"
  using assms(1)
proof (cases rule: fulfill_cases)
  case (closed held)
  note facts = held_facts [OF closed(2) b]
  have zero: "holds_units (dbReservations d) (rzReservation input) \<Longrightarrow>
      units_under (\<lambda>j. j = rzReservation input) (dbAllocations d) k = 0" for k
    using closed(4) facts(3,4) by auto
  show ?thesis
    by (rule resolved_books [OF b closed(2) _ _ _ _ _ _ mark_consumed_Inr [OF closed(5)]])
      (use b zero in \<open>simp_all add: books_def\<close>)
next
  case (shipped held ids bals d1 d2)
  note r = release_units [OF b shipped(2-4) posting_apart [OF shipped(6)] shipped(7)]
  show ?thesis
    by (rule resolved_books [OF b shipped(2) r(2-5) r(6) _ mark_consumed_Inr [OF shipped(8)]])
      (simp_all add: r(1,8))
qed (simp add: b)

lemma give_back_cases:
  assumes "give_back b actor now reason as d = Inr (failed, d')"
  obtains (nothing) "as = []" "failed = None" "d' = d"
  | (given) ids bals where "as \<noteq> []" "failed = None"
      "postMovements (posting_of b actor now (map (restoring reason) as)) d = Inr (Posted ids bals, d')"
  | (failed) why where "failed = Some why" "apart d d'"
proof (cases "as = []")
  case True
  with assms have "failed = None" "d' = d" by (auto simp: give_back_def)
  with True show thesis by (rule nothing)
next
  case False
  with assms obtain posted d1 where
    p: "postMovements (posting_of b actor now (map (restoring reason) as)) d = Inr (posted, d1)"
    and f: "(failed, d') = (case posted of Posted ids bals \<Rightarrow> (None, d1)
      | _ \<Rightarrow> (Some (posting_refusal ''the units could not be restored'' posted), d1))"
    by (auto simp: give_back_def result_simps)
  show thesis using p f False given failed posting_apart [OF p] by (cases posted) auto
qed

lemma give_back_apart: "give_back b actor now reason as d = Inr (failed, d') \<Longrightarrow> apart d d'"
  by (erule give_back_cases) (auto dest: posting_apart)

lemma release_cases:
  assumes "releaseReservation input d = Inr (res, d')"
  obtains (refused) "\<And>n. res \<noteq> Released n" "d' = d"
  | (restored) held d1 where "res = Released (units_of (reversible (hdAllocations held)))"
      "readForResolution d (rzBusiness input) (rzReservation input) = Some held"
      "hdStatus held = ReservationOpen" "hdMode held = ConsumeImmediately"
      "give_back (rzBusiness input) (rzActor input) (rzNow input) (trim (rzReason input))
         (reversible (hdAllocations held)) d = Inr (None, d1)" "mark_released input d1 = Inr d'"
  | (unreserved) held d1 where "res = Released (units_of (hdAllocations held))"
      "readForResolution d (rzBusiness input) (rzReservation input) = Some held"
      "hdStatus held = ReservationOpen" "hdMode held = ReserveUntilFulfilled"
      "releaseReserved (rzBusiness input) (map row_amount (hdAllocations held)) d = Inr d1"
      "mark_released input d1 = Inr d'"
proof (cases "trim (rzReason input) = []")
  case True
  with assms show thesis by (intro refused) (auto simp: releaseReservation_def)
next
  case reason: False
  show thesis
  proof (cases "readForResolution d (rzBusiness input) (rzReservation input)")
    case None
    with assms reason show thesis by (intro refused) (auto simp: releaseReservation_def transactionally_Inr)
  next
    case (Some held)
    show thesis
    proof (cases "hdStatus held = ReservationOpen")
      case False
      with assms Some reason show thesis
        by (intro refused) (auto simp: releaseReservation_def transactionally_Inr)
    next
      case True
      from assms Some True reason obtain keep s where w: "release_held input held d = Inr (keep, res, s)"
        and d': "d' = (if keep then s else d)"
        by (auto simp: releaseReservation_def transactionally_Inr)
      show thesis
      proof (cases "hdMode held")
        case ReserveUntilFulfilled
        with w d' obtain d1 where
          "releaseReserved (rzBusiness input) (map row_amount (hdAllocations held)) d = Inr d1"
          "mark_released input d1 = Inr d'" "res = Released (units_of (hdAllocations held))"
          by (auto simp: release_held_def result_simps)
        with unreserved Some True ReserveUntilFulfilled show thesis by blast
      next
        case ConsumeImmediately
        with w obtain fl d1 where g: "give_back (rzBusiness input) (rzActor input) (rzNow input)
            (trim (rzReason input)) (reversible (hdAllocations held)) d = Inr (fl, d1)"
          and rest: "(case fl of Some reason \<Rightarrow> Inr (False, ReleaseInvalid reason, d1)
            | None \<Rightarrow> bindR (mark_released input d1) (\<lambda>d2.
                Inr (True, Released (units_of (reversible (hdAllocations held))), d2))) = Inr (keep, res, s)"
          by (auto simp: release_held_def result_simps)
        show thesis
        proof (cases fl)
          case None
          with rest have "mark_released input d1 = Inr s" keep
            "res = Released (units_of (reversible (hdAllocations held)))" by (auto simp: result_simps)
          with restored [OF _ Some True ConsumeImmediately] g None d' show thesis by simp
        next
          case (Some why)
          with rest d' show thesis by (intro refused) auto
        qed
      qed
    qed
  qed
qed

lemma release_books:
  assumes "releaseReservation input d = Inr (res, d')" and b: "books d"
  shows "books d'"
  using assms(1)
proof (cases rule: release_cases)
  case (restored held d1)
  have a: "apart d d1" by (rule give_back_apart [OF restored(5)])
  have h: "\<not> holds_units (dbReservations d) (rzReservation input)"
    using held_facts(3) [OF restored(2) b] restored(4) by simp
  show ?thesis
    by (rule resolved_books [OF b restored(2) _ _ _ _ _ _ mark_released_Inr [OF restored(6)]])
      (use a b h in \<open>simp_all add: apart_def books_def\<close>)
next
  case (unreserved held d1)
  note r = release_units [OF b unreserved(2-4) apart_refl unreserved(5)]
  show ?thesis
    by (rule resolved_books [OF b unreserved(2) r(2-5) r(6) _ mark_released_Inr [OF unreserved(6)]])
      (simp_all add: r(1,8))
qed (simp add: b)

section \<open>Migrating keeps the books\<close>

lemma update_entries_Inr:
  assumes "update_allocations p (\<lambda>r. r\<lparr>alEntry := e\<rparr>) d = Inr d'"
  shows "\<exists>A. d' = d\<lparr>dbAllocations := A\<rparr> \<and> map allocation_shape A = map allocation_shape (dbAllocations d)"
proof -
  have "d' = d\<lparr>dbAllocations := update_where p (\<lambda>r. r\<lparr>alEntry := e\<rparr>) (dbAllocations d)\<rparr>"
    using assms by (auto simp: update_allocations_def result_simps update_checked_Inr)
  moreover have "map allocation_shape (update_where p (\<lambda>r. r\<lparr>alEntry := e\<rparr>) (dbAllocations d))
      = map allocation_shape (dbAllocations d)"
    by (rule map_update_where) (simp add: allocation_shape_def row_key_def)
  ultimately show ?thesis by blast
qed

lemma name_entries_Inr:
  assumes "foldR name_entry xs d = Inr d'"
  shows "\<exists>A. d' = d\<lparr>dbAllocations := A\<rparr> \<and> map allocation_shape A = map allocation_shape (dbAllocations d)"
  using assms
proof (induction xs arbitrary: d)
  case Nil
  then show ?case by (intro exI [of _ "dbAllocations d"]) simp
next
  case (Cons x xs)
  then obtain d1 where d1: "name_entry x d = Inr d1" and rest: "foldR name_entry xs d1 = Inr d'"
    by (auto simp: result_simps)
  from update_entries_Inr [OF d1 [unfolded name_entry_def]] obtain A where
    A: "d1 = d\<lparr>dbAllocations := A\<rparr>" "map allocation_shape A = map allocation_shape (dbAllocations d)" by blast
  from Cons.IH [OF rest] obtain A' where
    A': "d' = d1\<lparr>dbAllocations := A'\<rparr>" "map allocation_shape A' = map allocation_shape (dbAllocations d1)" by blast
  show ?case by (intro exI [of _ A']) (use A A' in simp)
qed

lemma set_mode_Inr:
  "set_mode i to d = Inr d' \<Longrightarrow>
     d' = d\<lparr>dbReservations := update_where (\<lambda>r. rsId r = i) (\<lambda>r. r\<lparr>rsMode := to\<rparr>) (dbReservations d)\<rparr>"
  unfolding set_mode_def by (rule update_reservations_Inr)

text \<open>The ways a migration that is kept goes.\<close>

lemma migrate_cases:
  assumes "migrateReservation b to actor now i d = Inr (u, d')"
  obtains (same) "d' = d"
  | (empty) held where "readForResolution d b i = Some held" "hdStatus held = ReservationOpen"
      "hdMode held \<noteq> to" "hdAllocations held = []" "set_mode i to d = Inr d'"
  | (consumed) held ids bals d1 d2 d3 where "readForResolution d b i = Some held"
      "hdStatus held = ReservationOpen" "hdMode held = ReserveUntilFulfilled" "to = ConsumeImmediately"
      "postMovements (posting_of b actor now (map (take_shipment (migration_reason i) \<circ> row_amount)
         (hdAllocations held))) d = Inr (Posted ids bals, d1)"
      "releaseReserved b (map row_amount (hdAllocations held)) d1 = Inr d2"
      "foldR name_entry (with_entries (hdAllocations held) ids) d2 = Inr d3" "set_mode i to d3 = Inr d'"
  | (reserved) held d1 d2 d3 where "readForResolution d b i = Some held"
      "hdStatus held = ReservationOpen" "hdMode held = ConsumeImmediately" "to = ReserveUntilFulfilled"
      "give_back b actor now (migration_reason i) (reversible (hdAllocations held)) d = Inr (None, d1)"
      "addReserved b (map row_amount (hdAllocations held)) d1 = Inr d2"
      "update_allocations (\<lambda>r. alReservation r = i) (\<lambda>r. r\<lparr>alEntry := None\<rparr>) d2 = Inr d3"
      "set_mode i to d3 = Inr d'"
proof (cases "readForResolution d b i")
  case None
  with assms same show thesis by (auto simp: migrateReservation_def transactionally_Inr)
next
  case (Some held)
  let ?as = "hdAllocations held"
  show thesis
  proof (cases "hdStatus held = ReservationOpen \<and> hdMode held \<noteq> to")
    case False
    with assms Some same show thesis by (auto simp: migrateReservation_def transactionally_Inr)
  next
    case True
    from assms Some True obtain keep s where w: "migrate_held b i to actor now ?as d = Inr (keep, u, s)"
      and d': "d' = (if keep then s else d)"
      by (auto simp: migrateReservation_def transactionally_Inr)
    show thesis
    proof (cases "?as = []")
      case e: True
      with w have "set_mode i to d = Inr s" keep by (auto simp: migrate_held_def result_simps)
      with empty [OF Some] True e d' show thesis by simp
    next
      case ne: False
      show thesis
      proof (cases to)
        case ConsumeImmediately
        with True have m: "hdMode held = ReserveUntilFulfilled" by (cases "hdMode held") auto
        from w ne ConsumeImmediately obtain posted d1 where
          p: "postMovements (posting_of b actor now (map (take_shipment (migration_reason i) \<circ> row_amount) ?as)) d
            = Inr (posted, d1)"
          and rest: "(case posted of Posted ids bals \<Rightarrow>
              bindR (releaseReserved b (map row_amount ?as) d1) (\<lambda>d2.
              bindR (foldR name_entry (with_entries ?as ids) d2) (\<lambda>d3.
              bindR (set_mode i to d3) (\<lambda>d4. Inr (True, (), d4))))
            | _ \<Rightarrow> Inr (False, (), d1)) = Inr (keep, u, s)"
          by (auto simp: migrate_held_def result_simps)
        show thesis
        proof (cases posted)
          case (Posted ids bals)
          with rest obtain d2 d3 where r: "releaseReserved b (map row_amount ?as) d1 = Inr d2"
            "foldR name_entry (with_entries ?as ids) d2 = Inr d3" "set_mode i to d3 = Inr s" keep
            by (auto simp: result_simps)
          from r(4) d' have "d' = s" by simp
          with consumed [OF Some _ m ConsumeImmediately p [unfolded Posted] r(1,2)] r(3) True
          show thesis by simp
        next
          case (Insufficient sfs)
          with rest d' show thesis by (intro same) auto
        next
          case (Invalid reason)
          with rest d' show thesis by (intro same) auto
        qed
      next
        case ReserveUntilFulfilled
        with True have m: "hdMode held = ConsumeImmediately" by (cases "hdMode held") auto
        from w ne ReserveUntilFulfilled obtain fl d1 where
          g: "give_back b actor now (migration_reason i) (reversible ?as) d = Inr (fl, d1)"
          and rest: "(case fl of Some _ \<Rightarrow> Inr (False, (), d1)
            | None \<Rightarrow> bindR (addReserved b (map row_amount ?as) d1) (\<lambda>d2.
                bindR (update_allocations (\<lambda>r. alReservation r = i) (\<lambda>r. r\<lparr>alEntry := None\<rparr>) d2) (\<lambda>d3.
                bindR (set_mode i to d3) (\<lambda>d4. Inr (True, (), d4))))) = Inr (keep, u, s)"
          by (auto simp: migrate_held_def result_simps)
        show thesis
        proof (cases fl)
          case None
          with rest obtain d2 d3 where r: "addReserved b (map row_amount ?as) d1 = Inr d2"
            "update_allocations (\<lambda>r. alReservation r = i) (\<lambda>r. r\<lparr>alEntry := None\<rparr>) d2 = Inr d3"
            "set_mode i to d3 = Inr s" keep
            by (auto simp: result_simps)
          from r(4) d' have "d' = s" by simp
          with reserved [OF Some _ m ReserveUntilFulfilled g [unfolded None] r(1,2)] r(3) True
          show thesis by simp
        next
          case (Some why)
          with rest d' show thesis by (intro same) auto
        qed
      qed
    qed
  qed
qed

lemma migrate_books:
  assumes "migrateReservation b to actor now i d = Inr (u, d')" and ok: "books d"
  shows "books d'"
  using assms(1)
proof (cases rule: migrate_cases)
  case (empty held)
  have zero: "units_under (\<lambda>j. j = i) (dbAllocations d) k = 0" for k
    using held_facts(4) [OF empty(1) ok, of k] empty(4) by simp
  show ?thesis
    by (rule books_resolve [OF ok, where i = i and f = "\<lambda>r. r\<lparr>rsMode := to\<rparr>"])
      (use ok zero in \<open>simp_all add: set_mode_Inr [OF empty(5)] books_def\<close>)
next
  case (consumed held ids bals d1 d2 d3)
  note r = release_units [OF ok consumed(1-3) posting_apart [OF consumed(5)] consumed(6)]
  from name_entries_Inr [OF consumed(7)] obtain A where
    A: "d3 = d2\<lparr>dbAllocations := A\<rparr>" "map allocation_shape A = map allocation_shape (dbAllocations d2)" by blast
  have d': "d' = d2\<lparr>dbAllocations := A,
      dbReservations := update_where (\<lambda>r. rsId r = i) (\<lambda>r. r\<lparr>rsMode := to\<rparr>) (dbReservations d)\<rparr>"
    using set_mode_Inr [OF consumed(8)] by (simp add: A(1) r(2))
  have closed: "\<not> holds_units (dbReservations d') i"
    by (simp add: d' holds_after consumed(4) split: option.splits)
  show ?thesis
  proof (rule books_resolve [OF ok, where i = i and f = "\<lambda>r. r\<lparr>rsMode := to\<rparr>"])
    show "find_balance d k \<noteq> None \<Longrightarrow> find_balance d' k \<noteq> None" for k using r(6) by (simp add: d')
    show "reserved_at d' k = reserved_at d k
      + (if holds_units (dbReservations d') i then units_under (\<lambda>j. j = i) (dbAllocations d) k else 0)
      - (if holds_units (dbReservations d) i then units_under (\<lambda>j. j = i) (dbAllocations d) k else 0)" for k
      using closed r(8) by (simp add: d' r(1))
  qed (use A(2) r in \<open>simp_all add: d'\<close>)
next
  case (reserved held d1 d2 d3)
  note facts = held_facts [OF reserved(1) ok]
  have a: "apart d d1" by (rule give_back_apart [OF reserved(5)])
  have rows1: "\<forall>(l, m, q) \<in> set (map row_amount (hdAllocations held)). find_balance d1 (b, l, m) \<noteq> None"
    using facts(6) a by (auto simp: apart_def)
  from addReserved_Inr [OF reserved(6)] rows1 have ro: "reserved_only d1 d2"
    and add: "reserved_at d2 k = reserved_at d1 k + amount_at b (map row_amount (hdAllocations held)) k" for k
    by blast+
  from update_entries_Inr [OF reserved(7)] obtain A where
    A: "d3 = d2\<lparr>dbAllocations := A\<rparr>" "map allocation_shape A = map allocation_shape (dbAllocations d2)" by blast
  note f = reserved_only_fields [OF ro]
  have d': "d' = d2\<lparr>dbAllocations := A,
      dbReservations := update_where (\<lambda>r. rsId r = i) (\<lambda>r. r\<lparr>rsMode := to\<rparr>) (dbReservations d)\<rparr>"
    using set_mode_Inr [OF reserved(8)] a by (simp add: A(1) f(1) apart_def)
  obtain r where r: "r \<in> set (dbReservations d)" "rsId r = i" "rsStatus r = ReservationOpen"
    using facts(1) reserved(2) by auto
  have "lookup_by rsId i (dbReservations d) = Some r"
    using ok r(1,2) reservations.lookup_member [of "dbReservations d" r] by (simp add: books_def)
  then have opened: "holds_units (dbReservations d') i"
    using r(3) by (simp add: d' holds_after reserved(4))
  have before: "\<not> holds_units (dbReservations d) i" using facts(3) reserved(3) by simp
  show ?thesis
  proof (rule books_resolve [OF ok, where i = i and f = "\<lambda>r. r\<lparr>rsMode := to\<rparr>"])
    show "find_balance d k \<noteq> None \<Longrightarrow> find_balance d' k \<noteq> None" for k
      using f(7) a by (simp add: d' apart_def)
    show "reserved_at d' k = reserved_at d k
      + (if holds_units (dbReservations d') i then units_under (\<lambda>j. j = i) (dbAllocations d) k else 0)
      - (if holds_units (dbReservations d) i then units_under (\<lambda>j. j = i) (dbAllocations d) k else 0)" for k
      using opened before a add facts(4) by (simp add: d' apart_def)
    show "map allocation_shape (dbAllocations d') = map allocation_shape (dbAllocations d)"
      using A(2) f(2) a by (simp add: d' apart_def)
    show "dbNextUuid d \<le> dbNextUuid d'" "stock_good d'" using f(3,6) a ok by (simp_all add: d' apart_def books_def)
  qed (simp_all add: d')
qed (simp add: ok)

lemma migrate_all_books: "migrate_all b to actor now is d = (e, d') \<Longrightarrow> books d \<Longrightarrow> books d'"
proof (induction "is" arbitrary: d)
  case (Cons i "is")
  then show ?case by (auto split: sum.splits dest: migrate_books)
qed simp

lemma switch_books:
  assumes "switchConsumptionMode input d = (res, d')" and "books d"
  shows "books d'"
proof -
  have upsert: "apart d1 d2" if u: "upsert_settings r f d1 = Inr d2" "\<And>s. seBusiness (f s) = seBusiness s"
    for r f d1 d2
  proof -
    have d2: "d2 = d1\<lparr>dbSettings := dbSettings d2\<rparr>" by (rule upsert_settings_lookup(2) [OF u])
    have "find_balance (d1\<lparr>dbSettings := x\<rparr>) = find_balance d1" "on_hand_at (d1\<lparr>dbSettings := x\<rparr>) = on_hand_at d1"
      "reserved_at (d1\<lparr>dbSettings := x\<rparr>) = reserved_at d1" "stock_good (d1\<lparr>dbSettings := x\<rparr>) = stock_good d1" for x
      by (simp_all add: fun_eq_iff find_balance_def on_hand_at_def reserved_at_def stock_good_def
          explained_def balances_ok_def)
    then show ?thesis by (subst d2) (simp add: apart_def)
  qed
  show ?thesis
  proof (cases "mpFrom (previewModeSwitch d (msBusiness input) (msTo input)) = msTo input
      \<or> (mpOpenReservations (previewModeSwitch d (msBusiness input) (msTo input)) > 0 \<and> \<not> msMigrate input)")
    case True
    with assms show ?thesis by (auto simp: switchConsumptionMode_def Let_def split: if_splits)
  next
    case False
    obtain e d1 where m: "migrate_all (msBusiness input) (msTo input) (msActor input) (msNow input)
        (map rsId (open_reservations d (msBusiness input))) d = (e, d1)" by (rule prod.exhaust)
    have b1: "books d1" by (rule migrate_all_books [OF m assms(2)])
    show ?thesis
    proof (cases e)
      case (Some x)
      with assms(1) False m b1 show ?thesis by (auto simp: switchConsumptionMode_def Let_def)
    next
      case None
      show ?thesis
      proof (cases "upsert_settings (mode_row (msBusiness input) (msTo input)) (\<lambda>r. r\<lparr>seMode := msTo input\<rparr>) d1")
        case (Inl x)
        with assms(1) False m None b1 show ?thesis by (auto simp: switchConsumptionMode_def Let_def)
      next
        case (Inr d2)
        with assms(1) False m None have "d' = d2" by (auto simp: switchConsumptionMode_def Let_def)
        with apart_books [OF upsert [OF Inr]] b1 show ?thesis by simp
      qed
    qed
  qed
qed

section \<open>Reserving keeps the books\<close>

lemma split_loop_fits:
  assumes "split_loop input m ls rem ts = (rem', ts')"
    and "\<And>l. l \<in> set ls \<Longrightarrow> capacity_of m l = capacity_at input l"
    and "t \<in> set ts'" and "t \<notin> set ts"
  shows "\<exists>l \<in> set ls. \<exists>n. 0 < n \<and> n \<le> capacity_at input l \<and> t \<in> set (takesFor input l n)"
  using assms
proof (induction ls arbitrary: rem ts)
  case (Cons l ls)
  show ?case
  proof (cases "rem = 0")
    case True
    with Cons.prems show ?thesis by simp
  next
    case False
    let ?n = "min rem (capacity_of m l)"
    show ?thesis
    proof (cases "0 < ?n")
      case True
      with False Cons.prems(1) have r: "split_loop input m ls (rem - ?n) (ts @ takesFor input l ?n) = (rem', ts')"
        by (simp add: Let_def)
      show ?thesis
      proof (cases "t \<in> set (takesFor input l ?n)")
        case t: True
        have "?n \<le> capacity_at input l" using Cons.prems(2) [of l] by simp
        with t True show ?thesis by (intro bexI [of _ l] exI [of _ ?n]) simp_all
      next
        case f: False
        with Cons.IH [OF r] Cons.prems show ?thesis by auto
      qed
    next
      case f: False
      with False Cons.prems(1) have "split_loop input m ls rem ts = (rem', ts')"
        by (auto simp: Let_def split: if_splits)
      from Cons.IH [OF this] Cons.prems show ?thesis by auto
    qed
  qed
qed simp

text \<open>Every take of a plan is within what its location can give of that item.\<close>

lemma takes_fit:
  assumes "planAllocation input = Inr plan" and "t \<in> set (takes plan)"
  shows "takeLocation t \<in> set (locationOrder input)"
    and "\<exists>c \<in> set (aiComponents input). takeItem t = acItem c
      \<and> takeQuantity t \<le> here_of input (takeLocation t) c"
proof -
  have ok: "input_ok input" and plan: "plan = (if splitFulfillment input then splitPlan input (caps input)
      else singleLocationPlan input (caps input))"
    using assms(1) by (simp_all add: planAllocation_Inr)
  have "\<exists>l \<in> set (locationOrder input). \<exists>n. n \<le> capacity_at input l \<and> t \<in> set (takesFor input l n)"
  proof (cases "splitFulfillment input")
    case True
    obtain rem' ts' where s: "split_loop input (caps input) (locationOrder input) (aiQuantity input) [] = (rem', ts')"
      by (rule prod.exhaust)
    have "takes plan = ts'" using True plan s by (simp add: splitPlan_def Let_def)
    with split_loop_fits [OF s, of t] assms(2) show ?thesis by auto
  next
    case False
    then have plan: "plan = singleLocationPlan input (caps input)" using plan by simp
    show ?thesis
    proof (cases "List.find (\<lambda>l. capacity_of (caps input) l \<ge> aiQuantity input) (locationOrder input)")
      case (Some l)
      then have l: "l \<in> set (locationOrder input)" "aiQuantity input \<le> capacity_at input l"
        using find_member [OF Some] by auto
      have "takes plan = takesFor input l (aiQuantity input)"
        unfolding plan singleLocationPlan_def Some by simp
      with l assms(2) show ?thesis by auto
    next
      case None
      let ?s = "case locationOrder input of [] \<Rightarrow> None | l # _ \<Rightarrow> Some l"
      obtain b c tot where loop: "best_loop (caps input) (locationOrder input) (?s, 0, 0) = (b, c, tot)"
        by (metis prod_cases3)
      have ts: "takes plan = (case b of None \<Rightarrow> [] | Some l \<Rightarrow> if c = 0 then [] else takesFor input l c)"
        unfolding plan singleLocationPlan_def None Let_def loop by simp
      with assms(2) obtain l where l: "b = Some l" "c \<noteq> 0" "t \<in> set (takesFor input l c)"
        by (auto split: option.splits if_splits)
      with best_loop_result(4) [OF loop] have "l \<in> set (locationOrder input) \<and> capacity_of (caps input) l = c" by auto
      with l show ?thesis by (intro bexI [of _ l] exI [of _ c]) auto
    qed
  qed
  then obtain l n where l: "l \<in> set (locationOrder input)" "n \<le> capacity_at input l" "t \<in> set (takesFor input l n)"
    by blast
  then obtain c where c: "c \<in> set (aiComponents input)" "takeItem t = acItem c" "takeLocation t = l"
    "takeQuantity t = n * unitsPerOrderedUnit c" by (auto simp: takesFor_def)
  have "n * unitsPerOrderedUnit c \<le> capacity_at input l * unitsPerOrderedUnit c"
    using l(2) ok c(1) by (intro mult_right_mono) (auto simp: input_ok_def)
  with capacity_at_fits [OF ok c(1)] have "takeQuantity t \<le> here_of input l c" using c(4) by (metis order_trans)
  with l c show "takeLocation t \<in> set (locationOrder input)"
    and "\<exists>c \<in> set (aiComponents input). takeItem t = acItem c
      \<and> takeQuantity t \<le> here_of input (takeLocation t) c" by auto
qed

text \<open>What \<open>availableByItem\<close> reports is a balance row's on-hand, less reserved, less withheld.\<close>

lemma add_available_loop:
  assumes "foldR (add_available d s) rows m = Inr m'" and "m' i = Some f" and "f l = Some n"
  shows "(\<exists>g. m i = Some g \<and> g l = Some n) \<or> (\<exists>r \<in> set rows. baItem r = i \<and> baLocation r = l
      \<and> n = max 0 (baOnHand r - baReserved r - level_of (levels_at s (item_override d i) r)))"
  using assms
proof (induction rows arbitrary: m)
  case (Cons r rows)
  then obtain m1 where m1: "add_available d s r m = Inr m1" and rest: "foldR (add_available d s) rows m1 = Inr m'"
    by (auto simp: result_simps)
  let ?n = "max 0 (baOnHand r - baReserved r - level_of (levels_at s (item_override d (baItem r)) r))"
  have m1': "m1 = m(baItem r \<mapsto> (case m (baItem r) of None \<Rightarrow> Map.empty | Some g \<Rightarrow> g)(baLocation r \<mapsto> ?n))"
    using m1 by (auto simp: add_available_def Let_def result_simps effectiveSafetyStock_Inr)
  from Cons.IH [OF rest Cons.prems(2,3)] show ?case
  proof
    assume "\<exists>g. m1 i = Some g \<and> g l = Some n"
    then show ?thesis by (auto simp: m1' split: if_splits option.splits)
  qed auto
qed auto

lemma available_row:
  assumes "availableByItem d b items locs s = Inr available" and "0 < here_of (plan_input input s cs order available) l c"
  shows "\<exists>r. find_balance d (b, acItem c, l) \<noteq> None \<and> r \<in> set (dbBalances d) \<and> balance_key r = (b, acItem c, l)
    \<and> here_of (plan_input input s cs order available) l c
      = baOnHand r - baReserved r - level_of (levels_at s (item_override d (acItem c)) r)"
proof -
  let ?n = "here_of (plan_input input s cs order available) l c"
  obtain f where f: "available (acItem c) = Some f" "f l = Some ?n"
    using assms(2) by (auto simp: here_of_def plan_input_def split: option.splits)
  then have ne: "\<not> (items = [] \<or> locs = [])" using assms(1) by (auto simp: availableByItem_def)
  with assms(1) have "foldR (add_available d s) (available_rows d b items locs) Map.empty = Inr available"
    by (simp add: availableByItem_def)
  from add_available_loop [OF this f] obtain r where
    r: "r \<in> set (available_rows d b items locs)" "baItem r = acItem c" "baLocation r = l"
      "?n = max 0 (baOnHand r - baReserved r - level_of (levels_at s (item_override d (acItem c)) r))" by auto
  then have "r \<in> set (dbBalances d)" "balance_key r = (b, acItem c, l)"
    by (auto simp: available_rows_def balance_key_def)
  moreover from this have "find_balance d (b, acItem c, l) \<noteq> None"
    by (metis balances.lookup_None find_balance_def image_eqI)
  ultimately show ?thesis using r(4) assms(2) by auto
qed

lemma record_takes_Inr:
  assumes "foldR (record_take b i entries) ts d = Inr d'"
  shows "\<exists>as. d' = d\<lparr>dbNextUuid := dbNextUuid d + length ts, dbAllocations := dbAllocations d @ as\<rparr>
    \<and> map allocation_shape as = map (\<lambda>t. ((b, takeItem t, takeLocation t), i, takeQuantity t)) ts
    \<and> map row_take as = ts
    \<and> map alEntry as = map (\<lambda>t. entries (takeItem t, takeLocation t)) ts
    \<and> (\<forall>t \<in> set ts. 1 \<le> takeQuantity t)"
  using assms
proof (induction ts arbitrary: d)
  case (Cons t ts)
  then obtain d1 where d1: "record_take b i entries t d = Inr d1"
    and rest: "foldR (record_take b i entries) ts d1 = Inr d'" by (auto simp: result_simps)
  let ?a = "allocation_for b i entries t (dbNextUuid d)"
  have one: "d1 = d\<lparr>dbNextUuid := Suc (dbNextUuid d), dbAllocations := dbAllocations d @ [?a]\<rparr>"
    and q: "1 \<le> takeQuantity t"
    using d1 by (auto simp: record_take_def Let_def take_uuid_def insert_allocation_def result_simps
        allocation_for_def)
  from Cons.IH [OF rest] obtain as where
    as: "d' = d1\<lparr>dbNextUuid := dbNextUuid d1 + length ts, dbAllocations := dbAllocations d1 @ as\<rparr>"
      "map allocation_shape as = map (\<lambda>t. ((b, takeItem t, takeLocation t), i, takeQuantity t)) ts"
      "map row_take as = ts" "map alEntry as = map (\<lambda>t. entries (takeItem t, takeLocation t)) ts"
      "\<forall>t \<in> set ts. 1 \<le> takeQuantity t"
    by blast
  have a: "allocation_shape ?a = ((b, takeItem t, takeLocation t), i, takeQuantity t)"
    "row_take ?a = t" "alEntry ?a = entries (takeItem t, takeLocation t)"
    by (simp_all add: allocation_shape_def row_key_def allocation_for_def row_take_def)
  show ?case by (intro exI [of _ "?a # as"]) (use as q in \<open>simp add: one a\<close>)
qed simp

text \<open>The stages of a reservation that is made.\<close>

definition reserved_stages :: "reserve_input \<Rightarrow> reservation_view \<Rightarrow> db \<Rightarrow> db \<Rightarrow> allocation_component list
    \<Rightarrow> uuid option \<Rightarrow> (uuid \<rightharpoonup> (uuid \<rightharpoonup> int)) \<Rightarrow> allocation_plan \<Rightarrow> (uuid \<times> uuid \<rightharpoonup> uuid) \<Rightarrow> db \<Rightarrow> bool" where
  "reserved_stages input v d d' components recipe available plan entries d3 \<longleftrightarrow>
     (let s = readSettings d (rqBusiness input); i = dbNextUuid d;
          order = eligibleLocations d (rqBusiness input) (rqLocationIds input);
          r = new_reservation input s recipe plan i;
          d2 = d\<lparr>dbNextUuid := Suc i, dbReservations := dbReservations d @ [r]\<rparr>
      in expand d (rqBusiness input) (rqItem input) = Some (components, recipe)
       \<and> availableByItem d (rqBusiness input) (map acItem components) order s = Inr available
       \<and> planAllocation (plan_input input s components order available) = Inr plan
       \<and> reservation_line r \<notin> set (map reservation_line (dbReservations d))
       \<and> reservation_row_check r = Inr ()
       \<and> commit_takes input (stMode s) (takes plan) d2 = Inr (Inr entries, d3)
       \<and> foldR (record_take (rqBusiness input) i entries) (takes plan) d3 = Inr d'
       \<and> v = \<lparr>vwReservation = i, vwStatus = ReservationOpen, vwMode = stMode s,
              vwQuantity = rqQuantity input, vwAllocated = allocated plan, vwShortage = shortage plan,
              vwSplitBlocked = splitBlocked plan, vwAllocations = takes plan\<rparr>)"

lemma reserve_cases:
  assumes "reserve input d = Inr (res, d')"
  obtains (refused) "\<And>v. res \<noteq> Reserved v" "d' = d"
  | (reserved) v components recipe available plan entries d3 where "res = Reserved v"
      "readReservationByLine d input = None" "1 \<le> rqQuantity input"
      "reserved_stages input v d d' components recipe available plan entries d3"
proof (cases "\<not> is_safe_integer (rqQuantity input) \<or> rqQuantity input < 1 \<or> readReservationByLine d input \<noteq> None")
  case True
  with assms show thesis by (intro refused) (auto simp: reserve_def split: if_splits)
next
  case False
  then have new: "readReservationByLine d input = None" and q: "1 \<le> rqQuantity input" by auto
  show thesis
  proof (cases "transactionally (reserve_work input) d")
    case (Inl e)
    with assms False show thesis by (intro refused) (auto simp: reserve_def split: if_splits)
  next
    case (Inr x)
    with assms False have "transactionally (reserve_work input) d = Inr (res, d')"
      by (simp add: reserve_def)
    then obtain keep s where w: "reserve_work input d = Inr (keep, res, s)" and d': "d' = (if keep then s else d)"
      by (auto simp: transactionally_Inr)
    let ?s = "readSettings d (rqBusiness input)"
    let ?order = "eligibleLocations d (rqBusiness input) (rqLocationIds input)"
    show thesis
    proof (cases "expand d (rqBusiness input) (rqItem input)")
      case None
      with w d' show thesis by (intro refused) (auto simp: reserve_work_def Let_def)
    next
      case (Some x)
      obtain components recipe where x: "x = (components, recipe)" by (cases x)
      from w Some x obtain available plan where
        av: "availableByItem d (rqBusiness input) (map acItem components) ?order ?s = Inr available"
        and pl: "planAllocation (plan_input input ?s components ?order available) = Inr plan"
        and rp: "record_plan input ?s recipe plan d = Inr (keep, res, s)"
        by (auto simp: reserve_work_def Let_def result_simps)
      let ?i = "dbNextUuid d"
      let ?r = "new_reservation input ?s recipe plan ?i"
      from rp obtain d2 outcome d3 where
        ins: "insert_reservation ?r (d\<lparr>dbNextUuid := Suc ?i\<rparr>) = Inr d2"
        and ct: "commit_takes input (stMode ?s) (takes plan) d2 = Inr (outcome, d3)"
        and rest: "(case outcome of Inl reason \<Rightarrow> Inr (False, ReserveInvalid reason, d3)
          | Inr entries \<Rightarrow>
             bindR (foldR (record_take (rqBusiness input) ?i entries) (takes plan) d3) (\<lambda>d4.
             Inr (True, Reserved \<lparr>vwReservation = ?i, vwStatus = ReservationOpen, vwMode = stMode ?s,
                    vwQuantity = rqQuantity input, vwAllocated = allocated plan,
                    vwShortage = shortage plan, vwSplitBlocked = splitBlocked plan,
                    vwAllocations = takes plan\<rparr>, d4))) = Inr (keep, res, s)"
        by (auto simp: record_plan_def Let_def take_uuid_def result_simps)
      have d2: "d2 = d\<lparr>dbNextUuid := Suc ?i, dbReservations := dbReservations d @ [?r]\<rparr>"
        and line: "reservation_line ?r \<notin> set (map reservation_line (dbReservations d))"
          "reservation_row_check ?r = Inr ()"
        using ins by (auto simp: insert_reservation_def result_simps)
      show thesis
      proof (cases outcome)
        case (Inl reason)
        with rest d' show thesis by (intro refused) auto
      next
        case (Inr entries)
        with rest obtain v where
          f: "foldR (record_take (rqBusiness input) ?i entries) (takes plan) d3 = Inr s" and keep
          and res: "res = Reserved v" "v = \<lparr>vwReservation = ?i, vwStatus = ReservationOpen, vwMode = stMode ?s,
                    vwQuantity = rqQuantity input, vwAllocated = allocated plan,
                    vwShortage = shortage plan, vwSplitBlocked = splitBlocked plan,
                    vwAllocations = takes plan\<rparr>"
          by (auto simp: result_simps)
        have "reserved_stages input v d d' components recipe available plan entries d3"
          unfolding reserved_stages_def Let_def
          using Some x av pl line ct [unfolded d2 Inr] f d' \<open>keep\<close> res(2) by simp
        with reserved [OF res(1) new q] show thesis by blast
      qed
    qed
  qed
qed

lemma units_under_takes:
  assumes "map allocation_shape as = map (\<lambda>t. ((b, takeItem t, takeLocation t), i, takeQuantity t)) ts"
  shows "units_under h as k = (if h i then amount_at b (map take_amount ts) k else 0)"
  using assms
proof (induction ts arbitrary: as)
  case (Cons t ts)
  then obtain a as' where as: "as = a # as'" "allocation_shape a = ((b, takeItem t, takeLocation t), i, takeQuantity t)"
    "map allocation_shape as' = map (\<lambda>t. ((b, takeItem t, takeLocation t), i, takeQuantity t)) ts"
    by (cases as) auto
  have t: "take_amount t = (takeItem t, takeLocation t, takeQuantity t)" by (simp add: take_amount_def)
  from Cons.IH [OF as(3)] as(2) show ?case by (simp add: as(1) allocation_shape_def t)
qed simp

text \<open>Shipping amounts moves on-hand by exactly those amounts.\<close>

lemma net_at_shipments: "net_at b (map (take_shipment reason) xs) k = - amount_at b xs k"
proof (induction xs)
  case (Cons x xs)
  obtain b' i l where k: "k = (b', i, l)" by (cases k)
  obtain i' l' q where x: "x = (i', l', q)" by (cases x)
  from Cons show ?case
    by (auto simp: net_at_def k x take_shipment_def target_of_def)
qed (simp add: net_at_def split: prod.splits)

text \<open>What committing the takes does to the stock, whichever mode is in force.\<close>

lemma commit_takes_effect:
  assumes "commit_takes input mode ts d = Inr (Inr entries, d3)"
    and rows: "\<forall>t \<in> set ts. find_balance d (rqBusiness input, takeItem t, takeLocation t) \<noteq> None"
  shows "dbReservations d3 = dbReservations d" "dbAllocations d3 = dbAllocations d"
    "dbNextUuid d \<le> dbNextUuid d3" "stock_good d \<Longrightarrow> stock_good d3"
    "find_balance d k \<noteq> None \<Longrightarrow> find_balance d3 k \<noteq> None"
    "mode = ReserveUntilFulfilled \<Longrightarrow> on_hand_at d3 = on_hand_at d
      \<and> reserved_at d3 k = reserved_at d k + amount_at (rqBusiness input) (map take_amount ts) k"
    "mode = ConsumeImmediately \<Longrightarrow> reserved_at d3 = reserved_at d
      \<and> on_hand_at d3 k = on_hand_at d k - amount_at (rqBusiness input) (map take_amount ts) k"
proof -
  let ?b = "rqBusiness input"
  let ?goal = "dbReservations d3 = dbReservations d \<and> dbAllocations d3 = dbAllocations d
    \<and> dbNextUuid d \<le> dbNextUuid d3 \<and> (stock_good d \<longrightarrow> stock_good d3)
    \<and> (find_balance d k \<noteq> None \<longrightarrow> find_balance d3 k \<noteq> None)
    \<and> (mode = ReserveUntilFulfilled \<longrightarrow> on_hand_at d3 = on_hand_at d
      \<and> reserved_at d3 k = reserved_at d k + amount_at ?b (map take_amount ts) k)
    \<and> (mode = ConsumeImmediately \<longrightarrow> reserved_at d3 = reserved_at d
      \<and> on_hand_at d3 k = on_hand_at d k - amount_at ?b (map take_amount ts) k)"
  have ?goal
  proof (cases "ts = []")
    case True
    with assms(1) show ?thesis by (simp add: commit_takes_def)
  next
    case ne: False
    show ?thesis
    proof (cases mode)
      case ReserveUntilFulfilled
      with assms(1) ne have ar: "addReserved ?b (map take_amount ts) d = Inr d3"
        by (auto simp: commit_takes_def result_simps)
      have "\<forall>(i, l, q) \<in> set (map take_amount ts). find_balance d (?b, i, l) \<noteq> None"
        using rows by (auto simp: take_amount_def)
      with addReserved_Inr [OF ar] have ro: "reserved_only d d3"
        and add: "reserved_at d3 k = reserved_at d k + amount_at ?b (map take_amount ts) k" by blast+
      from reserved_only_fields [OF ro] add ReserveUntilFulfilled show ?thesis by simp
    next
      case ConsumeImmediately
      let ?ms = "map (take_shipment (order_reason input) \<circ> take_amount) ts"
      from assms(1) ne ConsumeImmediately obtain posted d1 where
        p: "postMovements (posting_of ?b (rqActor input) (rqNow input) ?ms) d = Inr (posted, d1)"
        and rest: "(case posted of Posted ids _ \<Rightarrow> (Inr (entry_by_take ts ids), d1)
          | _ \<Rightarrow> (Inl (posting_refusal ''the units moved while the order was being recorded'' posted), d1))
          = (Inr entries, d3)"
        by (auto simp: commit_takes_def result_simps)
      from rest obtain ids bals where posted: "posted = Posted ids bals" and d3: "d3 = d1"
        by (cases posted) auto
      have "net_at ?b ?ms k = - amount_at ?b (map take_amount ts) k"
        using net_at_shipments [of ?b "order_reason input" "map take_amount ts" k] by simp
      then have "on_hand_at d3 k = on_hand_at d k - amount_at ?b (map take_amount ts) k"
        using postMovements_stock(1) [OF p, of k] posted
        by (simp add: d3 input_net_def posting_of_def)
      with posting_apart [OF p] ConsumeImmediately show ?thesis unfolding d3 apart_def by blast
    qed
  qed
  then show "dbReservations d3 = dbReservations d" "dbAllocations d3 = dbAllocations d"
    "dbNextUuid d \<le> dbNextUuid d3" "stock_good d \<Longrightarrow> stock_good d3"
    "find_balance d k \<noteq> None \<Longrightarrow> find_balance d3 k \<noteq> None"
    "mode = ReserveUntilFulfilled \<Longrightarrow> on_hand_at d3 = on_hand_at d
      \<and> reserved_at d3 k = reserved_at d k + amount_at ?b (map take_amount ts) k"
    "mode = ConsumeImmediately \<Longrightarrow> reserved_at d3 = reserved_at d
      \<and> on_hand_at d3 k = on_hand_at d k - amount_at ?b (map take_amount ts) k" by blast+
qed

text \<open>A plan's takes name balance rows that exist: only what is there was offered.\<close>

lemma stage_rows:
  assumes st: "reserved_stages input v d d' components recipe available plan entries d3"
    and t: "t \<in> set (takes plan)"
  shows "find_balance d (rqBusiness input, takeItem t, takeLocation t) \<noteq> None"
    and "\<exists>r \<in> set (dbBalances d). balance_key r = (rqBusiness input, takeItem t, takeLocation t)
      \<and> takeQuantity t \<le> baOnHand r - baReserved r - level_of (levels_at
          (readSettings d (rqBusiness input)) (item_override d (takeItem t)) r)"
    and "1 \<le> takeQuantity t"
proof -
  let ?b = "rqBusiness input" and ?s = "readSettings d (rqBusiness input)"
  let ?order = "eligibleLocations d ?b (rqLocationIds input)"
  from st have av: "availableByItem d ?b (map acItem components) ?order ?s = Inr available"
    and pl: "planAllocation (plan_input input ?s components ?order available) = Inr plan"
    and rec: "foldR (record_take ?b (dbNextUuid d) entries) (takes plan) d3 = Inr d'"
    by (simp_all add: reserved_stages_def Let_def)
  from record_takes_Inr [OF rec] have "\<forall>t \<in> set (takes plan). 1 \<le> takeQuantity t" by blast
  with t show q: "1 \<le> takeQuantity t" by blast
  from takes_fit(2) [OF pl t] obtain c where c: "takeItem t = acItem c"
    "takeQuantity t \<le> here_of (plan_input input ?s components ?order available) (takeLocation t) c" by blast
  with q have "0 < here_of (plan_input input ?s components ?order available) (takeLocation t) c" by simp
  from available_row [OF av this] c
  show "find_balance d (?b, takeItem t, takeLocation t) \<noteq> None"
    and "\<exists>r \<in> set (dbBalances d). balance_key r = (?b, takeItem t, takeLocation t)
      \<and> takeQuantity t \<le> baOnHand r - baReserved r - level_of (levels_at ?s (item_override d (takeItem t)) r)"
    by auto
qed

lemma holds_append:
  assumes "\<forall>i \<in> set (map rsId rows). i < n" and "rsId r = n"
  shows "holds_units (rows @ [r]) j = (if j = n then rsStatus r = ReservationOpen \<and> rsMode r = ReserveUntilFulfilled
    else holds_units rows j)"
proof -
  have "n \<notin> rsId ` set rows" using assms(1) by auto
  then have "lookup_by rsId n rows = None" by (simp add: reservations.lookup_None)
  then show ?thesis
    by (auto simp: holds_units_def reservations.lookup_append assms(2) split: option.splits)
qed

text \<open>Everything a made reservation changes, in one place.\<close>

lemma reserved_effect:
  assumes st: "reserved_stages input v d d' components recipe available plan entries d3"
  defines "s \<equiv> readSettings d (rqBusiness input)"
  obtains as where
    "dbReservations d' = dbReservations d @ [new_reservation input s recipe plan (dbNextUuid d)]"
    "dbAllocations d' = dbAllocations d @ as"
    "map allocation_shape as
       = map (\<lambda>t. ((rqBusiness input, takeItem t, takeLocation t), dbNextUuid d, takeQuantity t)) (takes plan)"
    "map row_take as = takes plan"
    "map alEntry as = map (\<lambda>t. entries (takeItem t, takeLocation t)) (takes plan)"
    "dbNextUuid d < dbNextUuid d'" "stock_good d \<Longrightarrow> stock_good d'"
    "\<And>k. find_balance d k \<noteq> None \<Longrightarrow> find_balance d' k \<noteq> None"
    "\<And>k. stMode s = ReserveUntilFulfilled \<Longrightarrow> on_hand_at d' = on_hand_at d
       \<and> reserved_at d' k = reserved_at d k + amount_at (rqBusiness input) (map take_amount (takes plan)) k"
    "\<And>k. stMode s = ConsumeImmediately \<Longrightarrow> reserved_at d' = reserved_at d
       \<and> on_hand_at d' k = on_hand_at d k - amount_at (rqBusiness input) (map take_amount (takes plan)) k"
proof -
  let ?b = "rqBusiness input" and ?i = "dbNextUuid d"
  let ?d2 = "d\<lparr>dbNextUuid := Suc ?i, dbReservations := dbReservations d @ [new_reservation input s recipe plan ?i]\<rparr>"
  from st have ct: "commit_takes input (stMode s) (takes plan) ?d2 = Inr (Inr entries, d3)"
    and rec: "foldR (record_take ?b ?i entries) (takes plan) d3 = Inr d'"
    by (simp_all add: reserved_stages_def Let_def s_def)
  have "\<forall>t \<in> set (takes plan). find_balance ?d2 (?b, takeItem t, takeLocation t) \<noteq> None"
    using stage_rows(1) [OF st] by simp
  note c = commit_takes_effect [OF ct this]
  from record_takes_Inr [OF rec] obtain as where
    d': "d' = d3\<lparr>dbNextUuid := dbNextUuid d3 + length (takes plan), dbAllocations := dbAllocations d3 @ as\<rparr>"
    and as: "map allocation_shape as = map (\<lambda>t. ((?b, takeItem t, takeLocation t), ?i, takeQuantity t)) (takes plan)"
      "map row_take as = takes plan" "map alEntry as = map (\<lambda>t. entries (takeItem t, takeLocation t)) (takes plan)"
    by blast
  show thesis
    by (rule that [OF _ _ as]) (use c in \<open>auto simp: d'\<close>)
qed

lemma reserve_books:
  assumes "reserve input d = Inr (res, d')" and b: "books d"
  shows "books d'"
  using assms(1)
proof (cases rule: reserve_cases)
  case (reserved v components recipe available plan entries d3)
  let ?bus = "rqBusiness input" and ?i = "dbNextUuid d"
  let ?s = "readSettings d (rqBusiness input)"
  let ?r = "new_reservation input ?s recipe plan ?i"
  obtain as where
    res: "dbReservations d' = dbReservations d @ [?r]" and alloc: "dbAllocations d' = dbAllocations d @ as"
    and as: "map allocation_shape as = map (\<lambda>t. ((?bus, takeItem t, takeLocation t), ?i, takeQuantity t)) (takes plan)"
    and nxt: "?i < dbNextUuid d'" and good: "stock_good d \<Longrightarrow> stock_good d'"
    and rows: "\<And>k. find_balance d k \<noteq> None \<Longrightarrow> find_balance d' k \<noteq> None"
    and hold: "\<And>k. stMode ?s = ReserveUntilFulfilled \<Longrightarrow>
      reserved_at d' k = reserved_at d k + amount_at ?bus (map take_amount (takes plan)) k"
    and ship: "stMode ?s = ConsumeImmediately \<Longrightarrow> reserved_at d' = reserved_at d"
    by (rule reserved_effect [OF reserved(4)]) blast
  have r: "rsId ?r = ?i" "rsBusiness ?r = ?bus" "rsStatus ?r = ReservationOpen" "rsMode ?r = stMode ?s"
    by (simp_all add: new_reservation_def)
  have fresh: "\<forall>i \<in> set (map rsId (dbReservations d)). i < ?i" and b': "distinct (map rsId (dbReservations d))"
    "stock_good d" "\<forall>s \<in> set (map allocation_shape (dbAllocations d)). shape_ok d s" "reserved_at d = committed d"
    using b unfolding books_def by blast+
  have old: "alReservation a \<noteq> ?i" if "a \<in> set (dbAllocations d)" for a
  proof -
    have "shape_ok d (allocation_shape a)" using b'(3) that by simp
    then obtain x where "x \<in> set (dbReservations d)" "rsId x = alReservation a"
      by (auto simp: shape_ok_def allocation_shape_def)
    with fresh show ?thesis by force
  qed
  have keep: "shape_ok d' x" if "shape_ok d x" for x
    using that rows by (auto simp: shape_ok_def res split: prod.splits)
  have new: "shape_ok d' x" if "x \<in> set (map allocation_shape as)" for x
  proof -
    from that obtain t where t: "t \<in> set (takes plan)"
      "x = ((?bus, takeItem t, takeLocation t), ?i, takeQuantity t)" unfolding as by auto
    have "1 \<le> takeQuantity t" by (rule stage_rows(3) [OF reserved(4) t(1)])
    moreover have "find_balance d' (?bus, takeItem t, takeLocation t) \<noteq> None"
      by (rule rows) (rule stage_rows(1) [OF reserved(4) t(1)])
    moreover have "?r \<in> set (dbReservations d')" by (simp add: res)
    ultimately show ?thesis using r(1,2) unfolding t(2) shape_ok_def prod.case fst_conv by blast
  qed
  have "committed d' k = reserved_at d' k" for k
  proof -
    have h: "holds_units (dbReservations d') j = (if j = ?i then stMode ?s = ReserveUntilFulfilled
        else holds_units (dbReservations d) j)" for j
      unfolding res holds_append [OF fresh r(1)] r(3,4) by simp
    have "units_under (holds_units (dbReservations d')) (dbAllocations d) = committed d"
      unfolding committed_def by (rule units_under_cong) (use old h in auto)
    then have "committed d' k = reserved_at d k
        + (if stMode ?s = ReserveUntilFulfilled then amount_at ?bus (map take_amount (takes plan)) k else 0)"
      by (simp add: committed_def alloc units_under_takes [OF as] h b'(4) [symmetric] fun_eq_iff)
        (simp add: b'(4) committed_def)
    then show ?thesis using hold ship by (cases "stMode ?s") simp_all
  qed
  moreover have "distinct (map rsId (dbReservations d'))" using b'(1) fresh r(1) by (auto simp: res)
  moreover have "\<forall>i \<in> set (map rsId (dbReservations d')). i < dbNextUuid d'" using fresh r(1) nxt by (auto simp: res)
  moreover have "\<forall>x \<in> set (map allocation_shape (dbAllocations d')). shape_ok d' x"
    unfolding alloc map_append set_append using b'(3) keep new by blast
  ultimately show ?thesis using good b'(2) by (auto simp: books_def fun_eq_iff)
qed (simp add: b)

end
