(* ===== verification/Steps.thy ===== *)
theory Steps
  imports Books
begin

text \<open>
  The inventory package as a state machine: one step per call of an exported operation, with
  whatever arguments and whatever answer. The rules of \<open>inventory_step\<close> name every operation of
  the modelled files that can change the database, and the last two stand for the passage of
  time and for rows of the tables other packages own.
\<close>

section \<open>Steps that leave stock and demand alone\<close>

lemma apart_tables:
  assumes "dbBalances d' = dbBalances d" "dbLedger d' = dbLedger d"
    "dbReservations d' = dbReservations d" "dbAllocations d' = dbAllocations d"
    "dbNextUuid d \<le> dbNextUuid d'"
  shows "apart d d'"
proof -
  have "find_balance d' = find_balance d" "on_hand_at d' = on_hand_at d" "reserved_at d' = reserved_at d"
    by (simp_all add: fun_eq_iff find_balance_def on_hand_at_def reserved_at_def assms(1))
  moreover have "stock_good d' = stock_good d"
    by (simp add: stock_good_def explained_def balances_ok_def assms(1,2) calculation(2))
  ultimately show ?thesis using assms(3-5) by (simp add: apart_def)
qed

lemma apart_next: "apart d (d\<lparr>dbNextUuid := Suc (dbNextUuid d)\<rparr>)"
  by (rule apart_tables) simp_all

named_theorems step_apart \<open>operations that leave stock and demand alone, or only post movements\<close>

lemma adjustment_apart [step_apart]: "applyAdjustment input d = Inr (r, d') \<Longrightarrow> apart d d'"
  by (erule applyAdjustment_cases) (auto dest: posting_apart)

lemma transfer_apart [step_apart]: "transferStock input d = Inr (r, d') \<Longrightarrow> apart d d'"
  by (erule transferStock_cases) (auto dest!: posting_apart intro: apart_trans [OF apart_next])

lemma reverse_apart [step_apart]: "reverseEntry input d = Inr (r, d') \<Longrightarrow> apart d d'"
  by (erule reverseEntry_cases) (auto dest: posting_apart)

lemma create_item_apart [step_apart]: "createCanonicalItem input d = Inr (r, d') \<Longrightarrow> apart d d'"
  by (erule createCanonicalItem_cases) (simp_all add: apart_tables)

lemma update_item_apart [step_apart]: "updateCanonicalItem input d = Inr (r, d') \<Longrightarrow> apart d d'"
  by (erule updateCanonicalItem_cases) (simp_all add: apart_tables)

lemma create_location_apart [step_apart]: "createLocation input d = Inr (r, d') \<Longrightarrow> apart d d'"
  by (erule createLocation_cases) (simp_all add: apart_tables)

lemma update_location_apart [step_apart]: "updateLocation input d = Inr (r, d') \<Longrightarrow> apart d d'"
  by (erule updateLocation_cases) (simp_all add: apart_tables)

lemma archive_apart [step_apart]: "archiveLocation b l now d = Inr (r, d') \<Longrightarrow> apart d d'"
  by (erule archiveLocation_cases) (simp_all add: apart_tables)

lemma declare_apart [step_apart]: "declareKit b i d = Inr (r, d') \<Longrightarrow> apart d d'"
  by (erule declareKit_cases) (simp_all add: apart_tables)

lemma approve_apart [step_apart]: "approveRecipe b i u now d = Inr (r, d') \<Longrightarrow> apart d d'"
  by (erule approveRecipe_cases) (simp_all add: apart_tables)

lemma draft_apart [step_apart]:
  assumes "draftRecipe input d = Inr (r, d')"
  shows "apart d d'"
proof (cases "\<exists>i v. r = Drafted i v")
  case True
  with assms obtain i v where "draftRecipe input d = Inr (Drafted i v, d')" by blast
  from draftRecipe_drafted(4) [OF this] show ?thesis by (simp add: apart_tables)
next
  case False
  have "write_draft input x = Inr (keep, r, y) \<Longrightarrow> False" for x keep y
    using False by (auto simp: write_draft_def Let_def result_simps take_uuid_def)
  with assms have "d' = d"
    unfolding draftRecipe_def transactionally_def Let_def
    by (auto split: if_splits sum.splits option.splits prod.splits)
  then show ?thesis by simp
qed

lemma address_apart [step_apart]:
  assumes "setLocationAddress b l p v d = Inr (r, d')"
  shows "apart d d'"
proof -
  have "dbBalances d' = dbBalances d \<and> dbLedger d' = dbLedger d \<and> dbReservations d' = dbReservations d
    \<and> dbAllocations d' = dbAllocations d \<and> dbNextUuid d \<le> dbNextUuid d'"
    using assms unfolding setLocationAddress_def Let_def take_uuid_def
    by (auto simp: result_simps split: if_splits)
  then show ?thesis by (simp add: apart_tables)
qed

lemma upsert_link_tables:
  "upsert_link b l c e d = Inr d' \<Longrightarrow> dbBalances d' = dbBalances d \<and> dbLedger d' = dbLedger d
     \<and> dbReservations d' = dbReservations d \<and> dbAllocations d' = dbAllocations d
     \<and> dbNextUuid d \<le> dbNextUuid d'"
  unfolding upsert_link_def Let_def take_uuid_def by (auto simp: result_simps split: if_splits)

lemma link_apart [step_apart]:
  assumes "linkLocationToChannel b l c e d = Inr (r, d')"
  shows "apart d d'"
proof -
  have "d' = d \<or> upsert_link b l c (trim e) d = Inr d'"
    using assms unfolding linkLocationToChannel_def Let_def
    by (auto split: if_splits sum.splits)
  then show ?thesis by (auto dest!: upsert_link_tables intro: apart_tables)
qed

lemma unlink_apart [step_apart]: "unlinkLocationFromChannel b l c d = (r, d') \<Longrightarrow> apart d d'"
  by (auto simp: unlinkLocationFromChannel_def Let_def intro: apart_tables)

lemma upsert_settings_apart:
  assumes "upsert_settings r f d = Inr d'" and "\<And>s. seBusiness (f s) = seBusiness s"
  shows "apart d d'"
proof -
  have d': "d' = d\<lparr>dbSettings := dbSettings d'\<rparr>" by (rule upsert_settings_lookup(2) [OF assms])
  show ?thesis by (rule apart_tables; subst d'; simp)
qed

lemma settings_apart [step_apart]:
  assumes "updateSettings change d = Inr (r, d')"
  shows "apart d d'"
  using assms unfolding updateSettings_def Let_def
  by (auto simp: result_simps intro: upsert_settings_apart split: if_splits)

lemma item_location_apart [step_apart]:
  assumes "setItemLocationSettings input d = Inr (r, d')"
  shows "apart d d'"
proof (cases r)
  case ItemLocationSaved
  with assms have s: "setItemLocationSettings input d = Inr (ItemLocationSaved, d')" by simp
  note saved = setItemLocationSettings_saved [OF s]
  have tables: "dbLedger d' = dbLedger d" "dbReservations d' = dbReservations d"
    "dbAllocations d' = dbAllocations d" "dbNextUuid d' = dbNextUuid d"
    by (subst saved(1); simp)+
  have "on_hand_at d' k = on_hand_at d k \<and> reserved_at d' k = reserved_at d k" for k
    by (auto simp: on_hand_at_def reserved_at_def saved(2) split: option.splits)
  then have same: "on_hand_at d' = on_hand_at d" "reserved_at d' = reserved_at d" by auto
  with tables saved(3) have "stock_good d \<longrightarrow> stock_good d'" by (simp add: stock_good_def explained_def)
  with tables same show ?thesis by (simp add: apart_def saved(2))
next
  case (ItemLocationInvalid reason)
  with assms show ?thesis
    by (auto simp: setItemLocationSettings_def Let_def result_simps split: if_splits)
qed

section \<open>The step relation\<close>

inductive inventory_step :: "db \<Rightarrow> db \<Rightarrow> bool" where
  post: "postMovements posting_in d = Inr (r, d') \<Longrightarrow> inventory_step d d'"
| adjust: "applyAdjustment adjustment d = Inr (r, d') \<Longrightarrow> inventory_step d d'"
| transfer: "transferStock transfer_in d = Inr (r, d') \<Longrightarrow> inventory_step d d'"
| reverse: "reverseEntry reversal d = Inr (r, d') \<Longrightarrow> inventory_step d d'"
| settings: "updateSettings change d = Inr (r, d') \<Longrightarrow> inventory_step d d'"
| create_location: "createLocation new d = Inr (r, d') \<Longrightarrow> inventory_step d d'"
| update_location: "updateLocation update d = Inr (r, d') \<Longrightarrow> inventory_step d d'"
| archive: "archiveLocation b l now d = Inr (r, d') \<Longrightarrow> inventory_step d d'"
| address: "setLocationAddress b l purpose address d = Inr (r, d') \<Longrightarrow> inventory_step d d'"
| link: "linkLocationToChannel b l c external d = Inr (r, d') \<Longrightarrow> inventory_step d d'"
| unlink: "unlinkLocationFromChannel b l c d = (r, d') \<Longrightarrow> inventory_step d d'"
| create_item: "createCanonicalItem item d = Inr (r, d') \<Longrightarrow> inventory_step d d'"
| update_item: "updateCanonicalItem item_change d = Inr (r, d') \<Longrightarrow> inventory_step d d'"
| item_location: "setItemLocationSettings shelf d = Inr (r, d') \<Longrightarrow> inventory_step d d'"
| declare_kit: "declareKit b i d = Inr (r, d') \<Longrightarrow> inventory_step d d'"
| draft: "draftRecipe draft_in d = Inr (r, d') \<Longrightarrow> inventory_step d d'"
| approve: "approveRecipe b recipe user now d = Inr (r, d') \<Longrightarrow> inventory_step d d'"
| reserve: "reserve demand d = Inr (r, d') \<Longrightarrow> inventory_step d d'"
| fulfil: "fulfillReservation resolution d = Inr (r, d') \<Longrightarrow> inventory_step d d'"
| release: "releaseReservation resolution d = Inr (r, d') \<Longrightarrow> inventory_step d d'"
| switch_mode: "switchConsumptionMode switching d = (r, d') \<Longrightarrow> inventory_step d d'"
| clock: "inventory_step d (d\<lparr>dbClock := t\<rparr>)"
| other_tables: "inventory_step d (d\<lparr>dbBusinesses := bs, dbUsers := us, dbConnections := cs\<rparr>)"

lemma step_books: "inventory_step d d' \<Longrightarrow> books d \<Longrightarrow> books d'"
proof (induction rule: inventory_step.induct)
  case (clock d t)
  have "apart d (d\<lparr>dbClock := t\<rparr>)" by (rule apart_tables) simp_all
  with clock show ?case by (rule apart_books [rotated])
next
  case (other_tables d cs us bs)
  have "apart d (d\<lparr>dbBusinesses := bs, dbUsers := us, dbConnections := cs\<rparr>)"
    by (rule apart_tables) simp_all
  with other_tables show ?case by (rule apart_books [rotated])
qed (blast intro: apart_books posting_apart step_apart reserve_books fulfill_books release_books switch_books)+

lemma reachable_books: "inventory_step\<^sup>*\<^sup>* d d' \<Longrightarrow> books d \<Longrightarrow> books d'"
  by (induction rule: rtranclp_induct) (auto dest: step_books)

lemma shop_books: "books shop"
proof -
  have b: "distinct (map rsId (dbReservations shop))" "dbReservations shop = []" "dbAllocations shop = []"
    by code_simp+
  have "reserved_at shop k = 0" for k
    by (auto simp: reserved_at_def find_balance_def shop_def split: option.splits)
  with b shop_good show ?thesis
    by (simp add: books_def committed_def fun_eq_iff)
qed

end
