(* ===== verification/Resolved.thy ===== *)
theory Resolved
  imports Steps
begin

text \<open>
  The life of a reservation: open until it is consumed or released, and then for good. What each
  operation does to the rows of \<open>stock_reservations\<close>, that no sequence of operations changes the
  status of a resolved reservation, and that what was recorded of a reservation and its allocations
  stays as it was.
\<close>

definition status_in :: "reservation_row list \<Rightarrow> uuid \<Rightarrow> uuid \<Rightarrow> reservation_status option" where
  "status_in rows b i = map_option rsStatus (List.find (\<lambda>r. rsBusiness r = b \<and> rsId r = i) rows)"

definition resolved_as :: "db \<Rightarrow> uuid \<Rightarrow> uuid \<Rightarrow> reservation_status \<Rightarrow> bool" where
  "resolved_as d b i s \<longleftrightarrow> s \<noteq> ReservationOpen \<and> status_in (dbReservations d) b i = Some s"

lemma status_read:
  "readForResolution d b i = Some held \<Longrightarrow> status_in (dbReservations d) b i = Some (hdStatus held)"
  by (auto simp: readForResolution_def status_in_def)

lemma resolved_read:
  "resolved_as d b i s \<Longrightarrow> \<exists>held. readForResolution d b i = Some held \<and> hdStatus held = s"
  by (auto simp: resolved_as_def readForResolution_def status_in_def)

lemma find_update_where:
  assumes "\<And>r. P (f r) = P r"
  shows "List.find P (update_where q f rows) = map_option (\<lambda>r. if q r then f r else r) (List.find P rows)"
  by (induction rows) (auto simp: assms)

lemma status_append: "status_in rows b i = Some s \<Longrightarrow> status_in (rows @ rows') b i = Some s"
  by (induction rows) (auto simp: status_in_def)

lemma status_update:
  assumes "\<And>r. rsId (f r) = rsId r" and "\<And>r. rsBusiness (f r) = rsBusiness r"
  shows "status_in (update_where (\<lambda>r. rsId r = j) f rows) b i =
    map_option (\<lambda>r. rsStatus (if rsId r = j then f r else r)) (List.find (\<lambda>r. rsBusiness r = b \<and> rsId r = i) rows)"
  by (simp add: status_in_def find_update_where assms option.map_comp o_def)

text \<open>What resolving and migrating do to the rows.\<close>

lemma fulfill_rows:
  assumes "fulfillReservation input d = Inr (res, d')"
  obtains (refused) "res \<noteq> Fulfilled" "d' = d"
  | (fulfilled) held t where "res = Fulfilled"
      "readForResolution d (rzBusiness input) (rzReservation input) = Some held" "hdStatus held = ReservationOpen"
      "dbReservations d' = update_where (\<lambda>r. rsId r = rzReservation input)
         (\<lambda>r. r\<lparr>rsStatus := ReservationConsumed, rsResolvedAt := t\<rparr>) (dbReservations d)"
  using assms
proof (cases rule: fulfill_cases)
  case (closed held)
  then show thesis by (intro fulfilled) (auto dest: mark_consumed_Inr)
next
  case (shipped held ids bals d1 d2)
  have "dbReservations d1 = dbReservations d" using posting_apart [OF shipped(6)] by (simp add: apart_def)
  moreover have "dbReservations d2 = dbReservations d1"
    using releaseReserved_Inr [OF shipped(7)] reserved_only_fields(1) by blast
  ultimately show thesis using shipped by (intro fulfilled) (auto dest: mark_consumed_Inr)
qed (rule refused)

lemma release_rows:
  assumes "releaseReservation input d = Inr (res, d')"
  obtains (refused) "\<And>n. res \<noteq> Released n" "d' = d"
  | (released) n held w t where "res = Released n"
      "readForResolution d (rzBusiness input) (rzReservation input) = Some held" "hdStatus held = ReservationOpen"
      "dbReservations d' = update_where (\<lambda>r. rsId r = rzReservation input)
         (\<lambda>r. r\<lparr>rsStatus := ReservationReleased, rsReleasedReason := w, rsResolvedAt := t\<rparr>) (dbReservations d)"
  using assms
proof (cases rule: release_cases)
  case (restored held d1)
  have "dbReservations d1 = dbReservations d" using give_back_apart [OF restored(5)] by (simp add: apart_def)
  then show thesis using restored by (intro released) (auto dest: mark_released_Inr)
next
  case (unreserved held d1)
  have "dbReservations d1 = dbReservations d"
    using releaseReserved_Inr [OF unreserved(5)] reserved_only_fields(1) by blast
  then show thesis using unreserved by (intro released) (auto dest: mark_released_Inr)
qed (rule refused)

lemma migrate_rows:
  assumes "migrateReservation b to actor now i d = Inr (u, d')"
  shows "dbReservations d' = dbReservations d
    \<or> dbReservations d' = update_where (\<lambda>r. rsId r = i) (\<lambda>r. r\<lparr>rsMode := to\<rparr>) (dbReservations d)"
  using assms
proof (cases rule: migrate_cases)
  case (empty held)
  then show ?thesis by (auto dest: set_mode_Inr)
next
  case (consumed held ids bals d1 d2 d3)
  have "dbReservations d1 = dbReservations d" using posting_apart [OF consumed(5)] by (simp add: apart_def)
  moreover have "dbReservations d2 = dbReservations d1"
    using releaseReserved_Inr [OF consumed(6)] reserved_only_fields(1) by blast
  moreover have "dbReservations d3 = dbReservations d2" using name_entries_Inr [OF consumed(7)] by auto
  ultimately show ?thesis using set_mode_Inr [OF consumed(8)] by simp
next
  case (reserved held d1 d2 d3)
  have "dbReservations d1 = dbReservations d" using give_back_apart [OF reserved(5)] by (simp add: apart_def)
  moreover have "dbReservations d2 = dbReservations d1"
    using addReserved_Inr [OF reserved(6)] reserved_only_fields(1) by blast
  moreover have "dbReservations d3 = dbReservations d2" using update_entries_Inr [OF reserved(7)] by auto
  ultimately show ?thesis using set_mode_Inr [OF reserved(8)] by simp
qed simp

lemma migrate_status:
  "migrateReservation b to actor now j d = Inr (u, d')
    \<Longrightarrow> status_in (dbReservations d') b' i = status_in (dbReservations d) b' i"
  using migrate_rows [of b to actor now j d u d']
  by (auto simp: status_update) (auto simp: status_in_def intro: option.map_cong0)

lemma migrate_all_status:
  "migrate_all b to actor now is d = (e, d')
    \<Longrightarrow> status_in (dbReservations d') b' i = status_in (dbReservations d) b' i"
proof (induction "is" arbitrary: d)
  case (Cons j "is")
  then show ?case by (auto split: sum.splits dest!: migrate_status [where b' = b' and i = i])
qed simp

lemma switch_status:
  "switchConsumptionMode input d = (res, d')
    \<Longrightarrow> status_in (dbReservations d') b i = status_in (dbReservations d) b i"
  by (auto simp: switchConsumptionMode_def Let_def upsert_settings_def result_simps
      split: if_splits prod.splits option.splits sum.splits
      dest!: migrate_all_status [where b' = b and i = i])

text \<open>A reservation of another number, or an open one, is all these operations touch.\<close>

lemma resolving_keeps:
  assumes kept: "resolved_as d b i s" and b: "books d"
    and read: "readForResolution d b' j = Some held" "hdStatus held = ReservationOpen"
    and rows: "dbReservations d' = update_where (\<lambda>r. rsId r = j) f (dbReservations d)"
    and f: "\<And>r. rsId (f r) = rsId r" "\<And>r. rsBusiness (f r) = rsBusiness r"
  shows "resolved_as d' b i s"
proof -
  from kept obtain r where r: "List.find (\<lambda>r. rsBusiness r = b \<and> rsId r = i) (dbReservations d) = Some r"
    "rsStatus r = s" "s \<noteq> ReservationOpen" by (auto simp: resolved_as_def status_in_def)
  have "j \<noteq> i"
  proof
    assume "j = i"
    obtain r' where r': "r' \<in> set (dbReservations d)" "rsId r' = i" "rsStatus r' = ReservationOpen"
      using held_facts(1) [OF read(1) b] read(2) \<open>j = i\<close> by auto
    have "r = r'" using find_member [OF r(1)] r'(1,2) b by (auto simp: books_def distinct_map dest: inj_onD)
    with r r' show False by simp
  qed
  then have "rsId r \<noteq> j" using find_member [OF r(1)] by simp
  with r kept show ?thesis by (simp add: resolved_as_def rows status_update f)
qed

lemma step_resolved:
  assumes "inventory_step d d'" and b: "books d" and kept: "resolved_as d b i s"
  shows "resolved_as d' b i s"
proof -
  have apart: "resolved_as d' b i s" if "apart d d'" for d'
    using that kept by (simp add: apart_def resolved_as_def)
  from assms(1) show ?thesis
  proof cases
    case (reserve demand r)
    then show ?thesis
    proof (cases rule: reserve_cases [OF reserve])
      case (2 v components recipe available plan entries d3)
      then show ?thesis using kept
        by (elim reserved_effect) (auto simp: resolved_as_def intro: status_append)
    qed (use kept in simp)
  next
    case (fulfil resolution r)
    from this show ?thesis
    proof (cases rule: fulfill_rows)
      case (fulfilled held t)
      show ?thesis by (rule resolving_keeps [OF kept b fulfilled(2-4)]) simp_all
    qed (use kept in simp)
  next
    case (release resolution r)
    from this show ?thesis
    proof (cases rule: release_rows)
      case (released n held w t)
      show ?thesis by (rule resolving_keeps [OF kept b released(2-4)]) simp_all
    qed (use kept in simp)
  next
    case (switch_mode switching r)
    from switch_status [OF this] kept show ?thesis by (simp add: resolved_as_def)
  next
    case (clock t)
    then show ?thesis using kept by (simp add: resolved_as_def)
  next
    case (other_tables bs us cs)
    then show ?thesis using kept by (simp add: resolved_as_def)
  qed (blast intro: apart posting_apart step_apart)+
qed

lemma reachable_resolved:
  "inventory_step\<^sup>*\<^sup>* d d' \<Longrightarrow> books d \<Longrightarrow> resolved_as d b i s \<Longrightarrow> resolved_as d' b i s"
proof (induction rule: rtranclp_induct)
  case (step y z)
  then have "books y" by (blast intro: reachable_books)
  with step show ?case by (blast intro: step_resolved)
qed

lemma fulfilled_resolved:
  assumes "fulfillReservation input d = Inr (Fulfilled, d')"
  shows "resolved_as d' (rzBusiness input) (rzReservation input) ReservationConsumed"
  using assms
proof (cases rule: fulfill_rows)
  case (fulfilled held t)
  from status_read [OF fulfilled(2)] show ?thesis
    by (auto simp: resolved_as_def fulfilled(4) status_update dest: find_member)
      (auto simp: status_in_def dest: find_member)
qed simp

lemma released_resolved:
  assumes "releaseReservation input d = Inr (Released n, d')"
  shows "resolved_as d' (rzBusiness input) (rzReservation input) ReservationReleased"
  using assms
proof (cases rule: release_rows)
  case refused
  from refused(1) [of n] show ?thesis by simp
next
  case (released m held w t)
  from status_read [OF released(2)] show ?thesis
    by (auto simp: resolved_as_def released(4) status_update dest: find_member)
      (auto simp: status_in_def dest: find_member)
qed

section \<open>What is recorded stays recorded\<close>

text \<open>A reservation without what resolving or migrating it writes.\<close>

definition recorded :: "reservation_row \<Rightarrow> reservation_row" where
  "recorded r = r\<lparr>rsStatus := ReservationOpen, rsMode := ConsumeImmediately, rsReleasedReason := None, rsResolvedAt := None\<rparr>"

lemma recorded_fields:
  "recorded r = recorded r' \<Longrightarrow> rsId r = rsId r' \<and> rsQuantity r = rsQuantity r' \<and> rsShortage r = rsShortage r'
    \<and> rsSplitBlocked r = rsSplitBlocked r'"
  by (cases r, cases r') (simp add: recorded_def)

definition demand_same :: "db \<Rightarrow> db \<Rightarrow> bool" where
  "demand_same d d' \<longleftrightarrow> map recorded (dbReservations d') = map recorded (dbReservations d)
     \<and> map allocation_shape (dbAllocations d') = map allocation_shape (dbAllocations d)"

text \<open>Reservations and allocations are only added, and an allocation only with its reservation.\<close>

definition demand_kept :: "db \<Rightarrow> db \<Rightarrow> bool" where
  "demand_kept d d' \<longleftrightarrow> (\<exists>rs as. map recorded (dbReservations d') = map recorded (dbReservations d) @ rs
     \<and> map allocation_shape (dbAllocations d') = map allocation_shape (dbAllocations d) @ as
     \<and> (\<forall>s \<in> set as. fst (snd s) \<notin> rsId ` set (dbReservations d)))"

lemma demand_same_trans: "demand_same a b \<Longrightarrow> demand_same b c \<Longrightarrow> demand_same a c"
  by (simp add: demand_same_def)

lemma same_kept: "demand_same d d' \<Longrightarrow> demand_kept d d'"
  by (simp add: demand_same_def demand_kept_def)

lemma apart_same: "apart d d' \<Longrightarrow> demand_same d d'"
  by (simp add: apart_def demand_same_def)

lemma recorded_ids: "map recorded rows = map recorded rows' \<Longrightarrow> rsId ` set rows = rsId ` set rows'"
proof -
  assume "map recorded rows = map recorded rows'"
  then have "map rsId (map recorded rows) = map rsId (map recorded rows')" by simp
  then have "map rsId rows = map rsId rows'" by (simp add: o_def recorded_def)
  then show ?thesis by (metis list.set_map)
qed

lemma demand_kept_trans:
  assumes "demand_kept a b" "demand_kept b c"
  shows "demand_kept a c"
proof -
  from assms(1) obtain rs as where 1: "map recorded (dbReservations b) = map recorded (dbReservations a) @ rs"
    "map allocation_shape (dbAllocations b) = map allocation_shape (dbAllocations a) @ as"
    "\<forall>s \<in> set as. fst (snd s) \<notin> rsId ` set (dbReservations a)" by (auto simp: demand_kept_def)
  from assms(2) obtain rs' as' where 2: "map recorded (dbReservations c) = map recorded (dbReservations b) @ rs'"
    "map allocation_shape (dbAllocations c) = map allocation_shape (dbAllocations b) @ as'"
    "\<forall>s \<in> set as'. fst (snd s) \<notin> rsId ` set (dbReservations b)" by (auto simp: demand_kept_def)
  have "rsId ` recorded ` set (dbReservations a) \<subseteq> rsId ` recorded ` set (dbReservations b)"
    using arg_cong [OF 1(1), of set] by auto
  then have "rsId ` set (dbReservations a) \<subseteq> rsId ` set (dbReservations b)" by (simp add: image_image recorded_def)
  with 2(3) have "\<forall>s \<in> set as'. fst (snd s) \<notin> rsId ` set (dbReservations a)" by (meson subsetD)
  with 1 2(1,2) show ?thesis unfolding demand_kept_def
    by (intro exI [of _ "rs @ rs'"] exI [of _ "as @ as'"]) (simp add: ball_Un)
qed

lemma recorded_update:
  "(\<And>r. recorded (f r) = recorded r) \<Longrightarrow> map recorded (update_where p f rows) = map recorded rows"
  by (rule map_update_where)

lemma fulfill_same: "fulfillReservation input d = Inr (res, d') \<Longrightarrow> demand_same d d'"
proof (erule fulfill_cases)
  fix held assume "mark_consumed input d = Inr d'"
  then show ?thesis by (auto dest!: mark_consumed_Inr simp: demand_same_def recorded_def intro!: map_update_where)
next
  fix held ids bals d1 d2
  assume p: "postMovements (posting_of (rzBusiness input) (rzActor input) (rzNow input)
         (map (take_shipment (shipped_reason (rzReservation input)) \<circ> row_amount) (hdAllocations held))) d = Inr (Posted ids bals, d1)"
    and r: "releaseReserved (rzBusiness input) (map row_amount (hdAllocations held)) d1 = Inr d2"
    and m: "mark_consumed input d2 = Inr d'"
  have "demand_same d d1" by (rule apart_same [OF posting_apart [OF p]])
  moreover have "demand_same d1 d2"
    using reserved_only_fields(1,2) [of d1 d2] releaseReserved_Inr [OF r] by (simp add: demand_same_def)
  moreover have "demand_same d2 d'"
    using mark_consumed_Inr [OF m] by (auto simp: demand_same_def recorded_def intro!: map_update_where)
  ultimately show ?thesis by (blast intro: demand_same_trans)
qed (simp add: demand_same_def)

lemma release_same: "releaseReservation input d = Inr (res, d') \<Longrightarrow> demand_same d d'"
proof (erule release_cases)
  fix held d1
  assume g: "give_back (rzBusiness input) (rzActor input) (rzNow input) (trim (rzReason input))
         (reversible (hdAllocations held)) d = Inr (None, d1)" and m: "mark_released input d1 = Inr d'"
  have "demand_same d d1" by (rule apart_same [OF give_back_apart [OF g]])
  moreover have "demand_same d1 d'"
    using mark_released_Inr [OF m] by (auto simp: demand_same_def recorded_def intro!: map_update_where)
  ultimately show ?thesis by (rule demand_same_trans)
next
  fix held d1
  assume r: "releaseReserved (rzBusiness input) (map row_amount (hdAllocations held)) d = Inr d1"
    and m: "mark_released input d1 = Inr d'"
  have "demand_same d d1"
    using reserved_only_fields(1,2) [of d d1] releaseReserved_Inr [OF r] by (simp add: demand_same_def)
  moreover have "demand_same d1 d'"
    using mark_released_Inr [OF m] by (auto simp: demand_same_def recorded_def intro!: map_update_where)
  ultimately show ?thesis by (rule demand_same_trans)
qed (simp add: demand_same_def)

lemma set_mode_same: "set_mode i to d = Inr d' \<Longrightarrow> demand_same d d'"
  by (drule set_mode_Inr) (auto simp: demand_same_def recorded_def intro!: map_update_where)

lemma migrate_same:
  assumes "migrateReservation b to actor now i d = Inr (u, d')"
  shows "demand_same d d'"
  using assms
proof (cases rule: migrate_cases)
  case same
  then show ?thesis by (simp add: demand_same_def)
next
  case (empty held)
  then show ?thesis by (blast intro: set_mode_same)
next
  case (consumed held ids bals d1 d2 d3)
  have "demand_same d d1" by (rule apart_same [OF posting_apart [OF consumed(5)]])
  moreover have "demand_same d1 d2"
    using reserved_only_fields(1,2) [of d1 d2] releaseReserved_Inr [OF consumed(6)] by (simp add: demand_same_def)
  moreover have "demand_same d2 d3" using name_entries_Inr [OF consumed(7)] by (auto simp: demand_same_def)
  ultimately show ?thesis using set_mode_same [OF consumed(8)] by (blast intro: demand_same_trans)
next
  case (reserved held d1 d2 d3)
  have "demand_same d d1" by (rule apart_same [OF give_back_apart [OF reserved(5)]])
  moreover have "demand_same d1 d2"
    using reserved_only_fields(1,2) [of d1 d2] addReserved_Inr [OF reserved(6)] by (simp add: demand_same_def)
  moreover have "demand_same d2 d3" using update_entries_Inr [OF reserved(7)] by (auto simp: demand_same_def)
  ultimately show ?thesis using set_mode_same [OF reserved(8)] by (blast intro: demand_same_trans)
qed

lemma migrate_all_same: "migrate_all b to actor now is d = (e, d') \<Longrightarrow> demand_same d d'"
proof (induction "is" arbitrary: d)
  case (Cons j "is")
  then show ?case by (auto split: sum.splits intro: demand_same_trans dest: migrate_same simp: demand_same_def)
qed (simp add: demand_same_def)

lemma switch_same:
  assumes "switchConsumptionMode input d = (res, d')"
  shows "demand_same d d'"
proof -
  obtain e d1 where m: "migrate_all (msBusiness input) (msTo input) (msActor input) (msNow input)
      (map rsId (open_reservations d (msBusiness input))) d = (e, d1)" by (rule prod.exhaust)
  from assms m have "d' = d \<or> d' = d1
      \<or> upsert_settings (mode_row (msBusiness input) (msTo input)) (\<lambda>r. r\<lparr>seMode := msTo input\<rparr>) d1 = Inr d'"
    by (auto simp: switchConsumptionMode_def Let_def split: if_splits option.splits sum.splits)
  then show ?thesis
  proof (elim disjE)
    assume "upsert_settings (mode_row (msBusiness input) (msTo input)) (\<lambda>r. r\<lparr>seMode := msTo input\<rparr>) d1 = Inr d'"
    then have "apart d1 d'" by (rule upsert_settings_apart) simp
    with migrate_all_same [OF m] show ?thesis by (blast intro: demand_same_trans apart_same)
  qed (use migrate_all_same [OF m] in \<open>simp_all add: demand_same_def\<close>)
qed

lemma reserve_kept:
  assumes "reserve input d = Inr (res, d')" "books d"
  shows "demand_kept d d'"
  using assms(1)
proof (cases rule: reserve_cases)
  case refused
  then show ?thesis by (simp add: demand_kept_def)
next
  case (reserved v components recipe available plan entries d3)
  obtain as where as: "dbReservations d' = dbReservations d
      @ [new_reservation input (readSettings d (rqBusiness input)) recipe plan (dbNextUuid d)]"
    "dbAllocations d' = dbAllocations d @ as"
    "map allocation_shape as
       = map (\<lambda>t. ((rqBusiness input, takeItem t, takeLocation t), dbNextUuid d, takeQuantity t)) (takes plan)"
    by (rule reserved_effect [OF reserved(4)]) blast
  have "dbNextUuid d \<notin> rsId ` set (dbReservations d)" using assms(2) by (force simp: books_def)
  then have "\<forall>s \<in> set (map allocation_shape as). fst (snd s) \<notin> rsId ` set (dbReservations d)" unfolding as(3) by simp
  with as(1,2) show ?thesis unfolding demand_kept_def by simp
qed

lemma step_kept:
  assumes "inventory_step d d'" "books d"
  shows "demand_kept d d'"
  using assms(1)
proof cases
  case (reserve demand r)
  then show ?thesis using assms(2) by (rule reserve_kept)
next
  case (fulfil resolution r)
  then show ?thesis by (intro same_kept fulfill_same)
next
  case (release resolution r)
  then show ?thesis by (intro same_kept release_same)
next
  case (switch_mode switching r)
  then show ?thesis by (intro same_kept switch_same)
next
  case (clock t)
  then show ?thesis by (simp add: demand_kept_def)
next
  case (other_tables bs us cs)
  then show ?thesis by (simp add: demand_kept_def)
qed (blast intro: same_kept apart_same posting_apart step_apart)+

lemma reachable_kept: "inventory_step\<^sup>*\<^sup>* d d' \<Longrightarrow> books d \<Longrightarrow> demand_kept d d'"
proof (induction rule: rtranclp_induct)
  case (step y z)
  then have "books y" by (blast intro: reachable_books)
  with step show ?case by (blast intro: step_kept demand_kept_trans)
qed (simp add: demand_kept_def)

text \<open>What is recorded is found again by what identifies it.\<close>

lemma find_recorded:
  assumes "map recorded rows' = map recorded rows @ rs" "List.find P rows = Some r" "\<And>x. P (recorded x) = P x"
  shows "\<exists>r'. List.find P rows' = Some r' \<and> recorded r' = recorded r"
proof -
  have f: "map_option recorded (List.find P xs) = List.find P (map recorded xs)" for xs
    by (induction xs) (simp_all add: assms(3))
  have "List.find P (xs @ ys) = Some x" if "List.find P xs = Some x" for xs ys :: "reservation_row list" and x
    using that by (induction xs) auto
  moreover have "List.find P (map recorded rows) = Some (recorded r)" using f [of rows] assms(2) by simp
  ultimately have "List.find P (map recorded rows') = Some (recorded r)" by (simp add: assms(1))
  with f [of rows'] show ?thesis by auto
qed

lemma kept_line:
  assumes "demand_kept d d'" "List.find (\<lambda>r. reservation_line r = l) (dbReservations d) = Some r"
  shows "\<exists>r'. List.find (\<lambda>r. reservation_line r = l) (dbReservations d') = Some r' \<and> rsId r' = rsId r"
proof -
  from assms(1) obtain rs where "map recorded (dbReservations d') = map recorded (dbReservations d) @ rs"
    by (auto simp: demand_kept_def)
  from find_recorded [OF this assms(2)] obtain r' where
    "List.find (\<lambda>r. reservation_line r = l) (dbReservations d') = Some r'" "recorded r' = recorded r"
    by (auto simp: reservation_line_def recorded_def)
  with recorded_fields [of r' r] show ?thesis by blast
qed

definition shape_take :: "(uuid \<times> uuid \<times> uuid) \<times> uuid \<times> int \<Rightarrow> allocation_take" where
  "shape_take s = (case s of ((b, i, l), j, q) \<Rightarrow> \<lparr>takeItem = i, takeLocation = l, takeQuantity = q\<rparr>)"

lemma takes_of_shapes:
  "map row_take (filter (\<lambda>a. alReservation a = i) as)
    = map shape_take (filter (\<lambda>s. fst (snd s) = i) (map allocation_shape as))"
  by (induction as) (simp_all add: shape_take_def allocation_shape_def row_key_def row_take_def)

lemma kept_read:
  assumes "demand_kept d d'" "readReservation d b i = Some v"
  shows "\<exists>w. readReservation d' b i = Some w \<and> w = v\<lparr>vwStatus := vwStatus w, vwMode := vwMode w\<rparr>"
proof -
  from assms(1) obtain rs as where k: "map recorded (dbReservations d') = map recorded (dbReservations d) @ rs"
    "map allocation_shape (dbAllocations d') = map allocation_shape (dbAllocations d) @ as"
    "\<forall>s \<in> set as. fst (snd s) \<notin> rsId ` set (dbReservations d)" by (auto simp: demand_kept_def)
  from assms(2) obtain r where r: "List.find (\<lambda>r. rsBusiness r = b \<and> rsId r = i) (dbReservations d) = Some r"
    by (auto simp: readReservation_def)
  from find_recorded [OF k(1) r] obtain r' where
    r': "List.find (\<lambda>r. rsBusiness r = b \<and> rsId r = i) (dbReservations d') = Some r'" "recorded r' = recorded r"
    by (auto simp: recorded_def)
  have "i \<in> rsId ` set (dbReservations d)" using find_member [OF r] by auto
  with k(3) have "filter (\<lambda>s. fst (snd s) = i) as = []" by (auto simp: filter_empty_conv)
  then have "map row_take (allocations_of d' i) = map row_take (allocations_of d i)"
    unfolding allocations_of_def takes_of_shapes k(2) by simp
  with assms(2) r r' recorded_fields [OF r'(2)] show ?thesis by (auto simp: readReservation_def)
qed

end
