(* ===== verification/Demand.thy ===== *)
theory Demand
  imports Resolved
begin

text \<open>
  What the reservation operations promise their callers, and where they break the promise. The
  sample states below continue \<open>shop\<close>.
\<close>

section \<open>Sample states\<close>

definition db_after :: "exn + 'a \<times> db \<Rightarrow> db" where
  "db_after x = (case x of Inl e \<Rightarrow> empty_db | Inr (r, d) \<Rightarrow> d)"

definition order_line :: "string \<Rightarrow> uuid \<Rightarrow> int \<Rightarrow> reserve_input" where
  "order_line line item n =
     \<lparr>rqBusiness = 1, rqConnection = 61, rqOrder = ''O1'', rqLine = line, rqItem = item,
      rqQuantity = n, rqLocationIds = None, rqActor = Some 9, rqNow = Some 3\<rparr>"

definition resolution :: "uuid \<Rightarrow> resolve_input" where
  "resolution i = \<lparr>rzBusiness = 1, rzReservation = i, rzReason = ''cancelled'', rzActor = Some 9,
     rzNow = Some 4\<rparr>"

text \<open>Two nuts reserved of the three there are; then the same business consuming immediately.\<close>

definition nuts_reserved :: db where
  "nuts_reserved = db_after (reserve (order_line ''L1'' 22 2) shop)"

definition eager_shop :: db where
  "eager_shop = shop\<lparr>dbSettings := map (\<lambda>s. s\<lparr>seMode := ConsumeImmediately\<rparr>) (dbSettings shop)\<rparr>"

definition nuts_shipped :: db where
  "nuts_shipped = db_after (reserve (order_line ''L1'' 22 2) eager_shop)"

text \<open>Two lines reserving bolts at the front: two units and three.\<close>

definition bolts_reserved :: db where
  "bolts_reserved = db_after (reserve (order_line ''L2'' 21 3)
     (db_after (reserve (order_line ''L1'' 21 2) shop)))"

lemma nuts_reserved_run:
  "\<exists>v. reserve (order_line ''L1'' 22 2) shop = Inr (Reserved v, nuts_reserved)
     \<and> vwReservation v = 1000 \<and> vwAllocated v = 2 \<and> vwShortage v = 0"
proof -
  have "case reserve (order_line ''L1'' 22 2) shop of Inr (Reserved v, d) \<Rightarrow>
      vwReservation v = 1000 \<and> vwAllocated v = 2 \<and> vwShortage v = 0 | _ \<Rightarrow> False"
    by code_simp
  then show ?thesis
    by (auto simp: nuts_reserved_def db_after_def split: sum.splits reserve_result.splits)
qed

lemma nuts_shipped_run:
  "\<exists>v. reserve (order_line ''L1'' 22 2) eager_shop = Inr (Reserved v, nuts_shipped)
     \<and> vwReservation v = 1000 \<and> vwAllocated v = 2"
proof -
  have "case reserve (order_line ''L1'' 22 2) eager_shop of Inr (Reserved v, d) \<Rightarrow>
      vwReservation v = 1000 \<and> vwAllocated v = 2 | _ \<Rightarrow> False"
    by code_simp
  then show ?thesis
    by (auto simp: nuts_shipped_def db_after_def split: sum.splits reserve_result.splits)
qed

lemma nuts_released_run:
  "\<exists>d'. releaseReservation (resolution 1000) nuts_reserved = Inr (Released 2, d')"
proof -
  have "case releaseReservation (resolution 1000) nuts_reserved of Inr (Released n, d') \<Rightarrow> n = 2 | _ \<Rightarrow> False"
    by code_simp
  then show ?thesis by (auto split: sum.splits release_result.splits)
qed

lemma nuts_reserved_reachable: "inventory_step\<^sup>*\<^sup>* shop nuts_reserved"
  using nuts_reserved_run by (blast intro: inventory_step.reserve)

lemma nuts_reserved_books: "books nuts_reserved"
  using nuts_reserved_reachable shop_books by (rule reachable_books)

section \<open>The books, whatever happened before\<close>

text \<open>
  C22: The books always balance. Whatever sequence of operations the package performs from a
  database whose books are in order - postings, adjustments, transfers, reversals, reservations,
  shipments, releases, changes of mode, and every edit of items, kits, locations and settings -
  every balance afterwards equals the sum of its ledger entries, what it has reserved is exactly
  what the open reservations hold there, and that is never negative and never more than is on
  hand.
\<close>

theorem books_always_balance:
  assumes "inventory_step\<^sup>*\<^sup>* d d'" and "books d"
  shows "on_hand_at d' k = ledger_sum (dbLedger d') k \<and> reserved_at d' k = committed d' k
    \<and> 0 \<le> reserved_at d' k \<and> reserved_at d' k \<le> on_hand_at d' k"
proof -
  have "books d'" using assms by (rule reachable_books)
  then have b: "stock_good d'" "reserved_at d' = committed d'" by (simp_all add: books_def)
  have "0 \<le> reserved_at d' k \<and> reserved_at d' k \<le> on_hand_at d' k"
    using b(1) by (intro reserved_within_on_hand) (simp add: stock_good_def)
  with b show ?thesis by (simp add: stock_good_def explained_def)
qed

theorem books_always_balance_witness:
  "inventory_step\<^sup>*\<^sup>* shop nuts_reserved \<and> books shop
    \<and> reserved_at nuts_reserved (1, 22, 41) = 2 \<and> committed nuts_reserved (1, 22, 41) = 2
    \<and> on_hand_at nuts_reserved (1, 22, 41) = 3"
proof -
  have "reserved_at nuts_reserved (1, 22, 41) = 2" "on_hand_at nuts_reserved (1, 22, 41) = 3"
    by code_simp+
  with books_always_balance [OF nuts_reserved_reachable shop_books, of "(1, 22, 41)"]
    nuts_reserved_reachable shop_books show ?thesis by simp
qed

section \<open>Recording demand\<close>

lemma plan_sum: "planAllocation input = Inr plan \<Longrightarrow> allocated plan + shortage plan = aiQuantity input"
  by (auto simp: planAllocation_Inr splitPlan_def singleLocationPlan_def Let_def split: option.splits prod.splits)

lemma reserve_made:
  assumes "reserve input d = Inr (Reserved v, d')"
  obtains components recipe available plan entries d3 where
    "reserved_stages input v d d' components recipe available plan entries d3"
  using assms
proof (cases rule: reserve_cases)
  case refused
  then show thesis using refused(1) [of v] by simp
qed auto

text \<open>A recorded reservation, read back from the tables.\<close>

lemma reserved_reads:
  assumes st: "reserved_stages input v d d' components recipe available plan entries d3" and b: "books d"
  shows "readReservation d' (rqBusiness input) (vwReservation v) = Some v"
    and "List.find (\<lambda>r. reservation_line r = (rqConnection input, rqOrder input, rqLine input))
      (dbReservations d') = Some (new_reservation input (readSettings d (rqBusiness input)) recipe plan (dbNextUuid d))"
    and "allocations_of d (vwReservation v) = []" and "vwReservation v = dbNextUuid d"
    and "allocated plan = vwAllocated v" "vwAllocated v + vwShortage v = rqQuantity input"
proof -
  let ?r = "new_reservation input (readSettings d (rqBusiness input)) recipe plan (dbNextUuid d)"
  obtain as where res: "dbReservations d' = dbReservations d @ [?r]"
    and alloc: "dbAllocations d' = dbAllocations d @ as" and takes: "map row_take as = takes plan"
    and shape: "map allocation_shape as
       = map (\<lambda>t. ((rqBusiness input, takeItem t, takeLocation t), dbNextUuid d, takeQuantity t)) (takes plan)"
    by (rule reserved_effect [OF st]) blast
  from st have v: "v = \<lparr>vwReservation = dbNextUuid d, vwStatus = ReservationOpen,
      vwMode = stMode (readSettings d (rqBusiness input)), vwQuantity = rqQuantity input,
      vwAllocated = allocated plan, vwShortage = shortage plan, vwSplitBlocked = splitBlocked plan,
      vwAllocations = takes plan\<rparr>"
    and new: "reservation_line ?r \<notin> set (map reservation_line (dbReservations d))"
    and sum: "allocated plan + shortage plan = rqQuantity input"
    by (auto simp: reserved_stages_def Let_def plan_input_def dest!: plan_sum)
  show i: "vwReservation v = dbNextUuid d" "allocated plan = vwAllocated v"
    "vwAllocated v + vwShortage v = rqQuantity input" using sum by (simp_all add: v)
  have r: "reservation_line ?r = (rqConnection input, rqOrder input, rqLine input)"
    by (simp add: reservation_line_def new_reservation_def)
  have append: "List.find P (xs @ [x]) = (if \<exists>y \<in> set xs. P y then List.find P xs else if P x then Some x else None)"
    for P :: "reservation_row \<Rightarrow> bool" and xs x by (induction xs) auto
  show "List.find (\<lambda>r. reservation_line r = (rqConnection input, rqOrder input, rqLine input))
      (dbReservations d') = Some ?r"
  proof -
    have "\<forall>y \<in> set (dbReservations d). reservation_line y \<noteq> (rqConnection input, rqOrder input, rqLine input)"
      using new r by (metis image_eqI list.set_map)
    then show ?thesis using r by (simp add: res append)
  qed
  from b have fresh: "\<forall>x \<in> set (dbReservations d). rsId x \<noteq> dbNextUuid d" by (force simp: books_def)
  have old: "\<forall>a \<in> set (dbAllocations d). alReservation a \<noteq> dbNextUuid d"
    using b fresh by (force simp: books_def shape_ok_def allocation_shape_def)
  then show "allocations_of d (vwReservation v) = []" by (simp add: i(1) allocations_of_def)
  have "\<forall>a \<in> set as. alReservation a = dbNextUuid d"
  proof
    fix a assume "a \<in> set as"
    then have "allocation_shape a \<in> set (map allocation_shape as)" by simp
    then show "alReservation a = dbNextUuid d" unfolding shape by (auto simp: allocation_shape_def)
  qed
  then have "allocations_of d' (dbNextUuid d) = as"
    using old by (simp add: allocations_of_def alloc)
  moreover have "List.find (\<lambda>r. rsBusiness r = rqBusiness input \<and> rsId r = dbNextUuid d) (dbReservations d') = Some ?r"
    using fresh by (auto simp: res append new_reservation_def)
  ultimately show "readReservation d' (rqBusiness input) (vwReservation v) = Some v"
    using sum by (simp add: readReservation_def v takes) (simp add: new_reservation_def)
qed

text \<open>
  C24: A redelivered order line changes nothing. Once a line is recorded, every later call for the same
  business, connection, order and line - whatever item or quantity it now carries, and whatever the
  inventory package did in between, the reservation's own shipment or release included - leaves the
  database as it is. If its quantity is a safe integer of at least one, the answer is the reservation
  made the first time as it reads now: its quantity, shortage and allocations are the first call's,
  and only its status and mode can have moved on. A quantity that is neither is refused as it would be anywhere.
\<close>

theorem replayed_line_changes_nothing:
  assumes "reserve input d = Inr (Reserved v, d1)" and "books d" and "inventory_step\<^sup>*\<^sup>* d1 d2"
    and "rqBusiness again = rqBusiness input" and "rqConnection again = rqConnection input"
    and "rqOrder again = rqOrder input" and "rqLine again = rqLine input"
  shows "\<exists>w. readReservation d2 (rqBusiness input) (vwReservation v) = Some w
    \<and> w = v\<lparr>vwStatus := vwStatus w, vwMode := vwMode w\<rparr> \<and> (d2 = d1 \<longrightarrow> w = v)
    \<and> (if is_safe_integer (rqQuantity again) \<and> 1 \<le> rqQuantity again then reserve again d2 = Inr (AlreadyRecorded w, d2)
       else \<exists>reason. reserve again d2 = Inr (ReserveInvalid reason, d2))"
proof -
  obtain components recipe available plan entries d3 where
    st: "reserved_stages input v d d1 components recipe available plan entries d3"
    using assms(1) by (rule reserve_made)
  note f = reserved_reads [OF st assms(2)]
  have kept: "demand_kept d1 d2" using assms(3) reserve_books [OF assms(1,2)] by (rule reachable_kept)
  from kept_read [OF kept f(1)] obtain w where w: "readReservation d2 (rqBusiness input) (vwReservation v) = Some w"
    "w = v\<lparr>vwStatus := vwStatus w, vwMode := vwMode w\<rparr>" by blast
  from kept_line [OF kept f(2)] f(4) w(1) assms(4-7) have "readReservationByLine d2 again = Some w"
    by (auto simp: readReservationByLine_def new_reservation_def)
  with w f(1) show ?thesis by (intro exI [of _ w]) (auto simp: reserve_def)
qed

theorem replayed_line_changes_nothing_witness:
  "\<exists>v d2 w. reserve (order_line ''L1'' 22 2) shop = Inr (Reserved v, nuts_reserved)
    \<and> releaseReservation (resolution 1000) nuts_reserved = Inr (Released 2, d2)
    \<and> reserve (order_line ''L1'' 21 5) d2 = Inr (AlreadyRecorded w, d2) \<and> vwQuantity w = 2 \<and> vwAllocations w = vwAllocations v"
proof -
  obtain v where v: "reserve (order_line ''L1'' 22 2) shop = Inr (Reserved v, nuts_reserved)"
    using nuts_reserved_run by blast
  have q: "vwQuantity v = 2" using v by (rule reserve_made) (simp add: reserved_stages_def Let_def order_line_def)
  obtain d2 where r: "releaseReservation (resolution 1000) nuts_reserved = Inr (Released 2, d2)"
    using nuts_released_run by blast
  have run: "inventory_step\<^sup>*\<^sup>* nuts_reserved d2" using r by (blast intro: inventory_step.release)
  from replayed_line_changes_nothing [OF v shop_books run, of "order_line ''L1'' 21 5"]
  obtain w where w: "w = v\<lparr>vwStatus := vwStatus w, vwMode := vwMode w\<rparr>"
    "reserve (order_line ''L1'' 21 5) d2 = Inr (AlreadyRecorded w, d2)"
    by (auto simp: order_line_def is_safe_integer_def)
  have "vwQuantity w = vwQuantity v" "vwAllocations w = vwAllocations v" by (subst w(1), simp)+
  with v r q w(2) show ?thesis by auto
qed


text \<open>
  C23: What is promised to an order exists. A recorded line splits into allocated and short units
  that add up to the ordered quantity, neither negative; every take is of at least one unit and
  within what its shelf holds beyond the units already reserved and the safety stock that applies
  there; and the figures move by exactly the takes - on hand under immediate consumption,
  reserved otherwise, and never both.
\<close>

theorem reserved_units_exist:
  assumes "reserve input d = Inr (Reserved v, d')"
  shows "vwAllocated v + vwShortage v = rqQuantity input \<and> 0 \<le> vwAllocated v \<and> 0 \<le> vwShortage v
    \<and> (\<forall>t \<in> set (vwAllocations v). 1 \<le> takeQuantity t
        \<and> (\<exists>r \<in> set (dbBalances d). balance_key r = (rqBusiness input, takeItem t, takeLocation t)
             \<and> takeQuantity t \<le> baOnHand r - baReserved r - level_of (levels_at
                 (readSettings d (rqBusiness input)) (item_override d (takeItem t)) r)))
    \<and> (\<forall>k. on_hand_at d' k = on_hand_at d k - (if vwMode v = ConsumeImmediately
              then amount_at (rqBusiness input) (map take_amount (vwAllocations v)) k else 0)
         \<and> reserved_at d' k = reserved_at d k + (if vwMode v = ReserveUntilFulfilled
              then amount_at (rqBusiness input) (map take_amount (vwAllocations v)) k else 0))"
proof -
  obtain components recipe available plan entries d3 where
    st: "reserved_stages input v d d' components recipe available plan entries d3"
    using assms(1) by (rule reserve_made)
  then have v: "vwAllocations v = takes plan" "vwMode v = stMode (readSettings d (rqBusiness input))"
    "vwAllocated v = allocated plan" "vwShortage v = shortage plan"
    and sum: "allocated plan + shortage plan = rqQuantity input"
    and check: "0 \<le> shortage plan" "shortage plan \<le> rqQuantity input"
    by (auto simp: reserved_stages_def Let_def plan_input_def reservation_row_check_def new_reservation_def
        dest!: plan_sum)
  have figures: "on_hand_at d' k = on_hand_at d k - (if vwMode v = ConsumeImmediately
              then amount_at (rqBusiness input) (map take_amount (vwAllocations v)) k else 0)
         \<and> reserved_at d' k = reserved_at d k + (if vwMode v = ReserveUntilFulfilled
              then amount_at (rqBusiness input) (map take_amount (vwAllocations v)) k else 0)" for k
    by (rule reserved_effect [OF st], cases "vwMode v") (simp_all add: v)
  show ?thesis
    using sum check figures stage_rows(2,3) [OF st] unfolding v(1,3,4) by auto
qed

theorem reserved_units_exist_witness:
  "\<exists>v. reserve (order_line ''L1'' 22 2) shop = Inr (Reserved v, nuts_reserved)
    \<and> vwAllocated v + vwShortage v = 2 \<and> reserved_at nuts_reserved (1, 22, 41) = 2"
proof -
  obtain v where v: "reserve (order_line ''L1'' 22 2) shop = Inr (Reserved v, nuts_reserved)"
    using nuts_reserved_run by blast
  have "reserved_at nuts_reserved (1, 22, 41) = 2" by code_simp
  moreover from reserved_units_exist [OF v] have "vwAllocated v + vwShortage v = 2"
    by (simp add: order_line_def)
  ultimately show ?thesis using v by blast
qed

section \<open>Cancelling\<close>

lemma net_at_restoring:
  "net_at b (map (restoring reason) as) k = amount_at b (map row_amount as) k"
proof (induction as)
  case (Cons a as)
  obtain b' i l where k: "k = (b', i, l)" by (cases k)
  from Cons show ?case
    by (auto simp: net_at_def k restoring_def target_of_def row_amount_def)
qed (simp add: net_at_def split: prod.splits)

lemma entries_named:
  "length ids = length ts \<Longrightarrow> t \<in> set ts \<Longrightarrow> entry_by_take ts ids (takeItem t, takeLocation t) \<noteq> None"
proof -
  have keep: "fold (\<lambda>(t, e) m. m((takeItem t, takeLocation t) \<mapsto> e)) xs m x \<noteq> None"
    if "m x \<noteq> None \<or> x \<in> (\<lambda>(t, e). (takeItem t, takeLocation t)) ` set xs"
    for xs :: "(allocation_take \<times> uuid) list" and m x
    using that
  proof (induction xs arbitrary: m)
    case (Cons p xs)
    obtain t e where p: "p = (t, e)" by (cases p)
    have "fold (\<lambda>(t, e) m. m((takeItem t, takeLocation t) \<mapsto> e)) xs (m((takeItem t, takeLocation t) \<mapsto> e)) x \<noteq> None"
      by (rule Cons.IH) (use Cons.prems in \<open>auto simp: p\<close>)
    then show ?case unfolding p fold_Cons by (simp add: o_def del: fun_upd_apply)
  qed simp
  assume "length ids = length ts" "t \<in> set ts"
  then obtain e where "(t, e) \<in> set (zip ts ids)"
    by (metis in_set_conv_nth length_zip min.idem nth_zip)
  then show ?thesis unfolding entry_by_take_def by (intro keep disjI2) force
qed

text \<open>Under immediate consumption every take has its entry.\<close>

lemma consumed_entries:
  assumes "commit_takes input ConsumeImmediately ts d = Inr (Inr entries, d3)" and "t \<in> set ts"
  shows "entries (takeItem t, takeLocation t) \<noteq> None"
proof -
  have "ts \<noteq> []" using assms(2) by auto
  with assms(1) obtain posted e1 where
    run: "postMovements (posting_of (rqBusiness input) (rqActor input) (rqNow input)
      (map (take_shipment (order_reason input) \<circ> take_amount) ts)) d = Inr (posted, e1)"
    and answer: "(case posted of Posted ids _ \<Rightarrow> (Inr (entry_by_take ts ids), e1)
       | _ \<Rightarrow> (Inl (posting_refusal ''the units moved while the order was being recorded'' posted), e1))
      = (Inr entries, d3)"
    by (auto simp: commit_takes_def result_simps)
  then obtain ids bals where
    post: "postMovements (posting_of (rqBusiness input) (rqActor input) (rqNow input)
      (map (take_shipment (order_reason input) \<circ> take_amount) ts)) d = Inr (Posted ids bals, d3)"
    and e: "entries = entry_by_take ts ids"
    by (cases posted) auto
  have "length ids = length ts"
    using postMovements_posted [OF post] by (simp add: posted_effect_def Let_def posting_of_def)
  with assms(2) show ?thesis unfolding e by (intro entries_named)
qed

lemma row_amount_take: "row_amount a = take_amount (row_take a)"
  by (simp add: row_amount_def take_amount_def row_take_def)

lemma read_view:
  "readReservation d b i = Some v \<Longrightarrow> vwAllocations v = map row_take (allocations_of d i)
    \<and> (\<exists>r. List.find (\<lambda>r. rsBusiness r = b \<and> rsId r = i) (dbReservations d) = Some r \<and> vwMode v = rsMode r)"
  by (auto simp: readReservation_def)

text \<open>The allocations of a reservation just made are its takes.\<close>

lemma reserved_allocations:
  assumes st: "reserved_stages input v d d' components recipe available plan entries d3" and b: "books d"
  shows "map row_take (allocations_of d' (vwReservation v)) = vwAllocations v"
    and "vwMode v = ConsumeImmediately \<Longrightarrow> \<forall>a \<in> set (allocations_of d' (vwReservation v)). alEntry a \<noteq> None"
proof -
  note f = reserved_reads [OF st b]
  show takes: "map row_take (allocations_of d' (vwReservation v)) = vwAllocations v"
    using read_view [OF f(1)] by simp
  obtain as where alloc: "dbAllocations d' = dbAllocations d @ as"
    and shape: "map row_take as = takes plan"
      "map alEntry as = map (\<lambda>t. entries (takeItem t, takeLocation t)) (takes plan)"
    by (rule reserved_effect [OF st]) blast
  assume "vwMode v = ConsumeImmediately"
  with st obtain d2 where "commit_takes input ConsumeImmediately (takes plan) d2 = Inr (Inr entries, d3)"
    by (auto simp: reserved_stages_def Let_def)
  note named = consumed_entries [OF this]
  have "\<forall>e \<in> set (map alEntry as). e \<noteq> None" unfolding shape(2) using named by auto
  moreover have "set (allocations_of d' (vwReservation v)) \<subseteq> set as"
    using f(3) by (auto simp: allocations_of_def alloc filter_empty_conv)
  ultimately show "\<forall>a \<in> set (allocations_of d' (vwReservation v)). alEntry a \<noteq> None" by auto
qed

text \<open>
  C25: Cancelling an order leaves no trace in the stock. If a line is recorded and then released,
  every figure on hand and every figure reserved is what it was before, in either consumption
  mode, and the number of units reported as restored is the number that was allocated.
\<close>

theorem cancelling_restores_the_stock:
  assumes "reserve input d = Inr (Reserved v, d1)" and "books d"
    and "releaseReservation cancel d1 = Inr (Released n, d2)"
    and "rzBusiness cancel = rqBusiness input" and "rzReservation cancel = vwReservation v"
  shows "on_hand_at d2 = on_hand_at d \<and> reserved_at d2 = reserved_at d
    \<and> n = (\<Sum>t \<leftarrow> vwAllocations v. takeQuantity t)"
proof -
  let ?b = "rqBusiness input" and ?as = "allocations_of d1 (vwReservation v)"
  obtain components recipe available plan entries d3 where
    st: "reserved_stages input v d d1 components recipe available plan entries d3"
    using assms(1) by (rule reserve_made)
  note takes = reserved_allocations [OF st assms(2)]
  have v: "vwMode v = stMode (readSettings d ?b)" "vwAllocations v = takes plan"
    using st by (simp_all add: reserved_stages_def Let_def)
  have rows: "map row_amount ?as = map take_amount (vwAllocations v)"
    unfolding takes(1) [symmetric] by (simp add: row_amount_take o_def)
  have units: "units_of ?as = (\<Sum>t \<leftarrow> vwAllocations v. takeQuantity t)"
    unfolding takes(1) [symmetric] by (simp add: units_of_def row_take_def o_def)
  have b1: "books d1" using assms(1,2) by (rule reserve_books)
  have made: "stMode (readSettings d ?b) = ReserveUntilFulfilled \<Longrightarrow> on_hand_at d1 = on_hand_at d
      \<and> reserved_at d1 k = reserved_at d k + amount_at ?b (map row_amount ?as) k"
    "stMode (readSettings d ?b) = ConsumeImmediately \<Longrightarrow> reserved_at d1 = reserved_at d
      \<and> on_hand_at d1 k = on_hand_at d k - amount_at ?b (map row_amount ?as) k" for k
    by (rule reserved_effect [OF st], simp add: rows v(2))+
  have read: "hdAllocations held = ?as \<and> hdMode held = vwMode v"
    if h: "readForResolution d1 (rzBusiness cancel) (rzReservation cancel) = Some held" for held
  proof -
    have "hdAllocations held = ?as" using held_facts(2) [OF h b1] assms(5) by simp
    moreover have "hdMode held = vwMode v"
      using h read_view [OF reserved_reads(1) [OF st assms(2)]] assms(4,5)
      by (auto simp: readForResolution_def)
    ultimately show ?thesis by simp
  qed
  show ?thesis
    using assms(3)
  proof (cases rule: release_cases)
    case refused
    from refused(1) [of n] show ?thesis by simp
  next
    case (restored held e1)
    have m: "hdAllocations held = ?as" "stMode (readSettings d ?b) = ConsumeImmediately"
      "vwMode v = ConsumeImmediately" using read [OF restored(2)] restored(4) v(1) by simp_all
    have all: "reversible ?as = ?as" using takes(2) [OF m(3)] by (simp add: reversible_def)
    have "on_hand_at e1 k = on_hand_at d1 k + amount_at ?b (map row_amount ?as) k
        \<and> reserved_at e1 k = reserved_at d1 k" for k
      using restored(5) unfolding m(1) all
    proof (cases rule: give_back_cases)
      case (given ids bals)
      from postMovements_posted [OF given(3)] show ?thesis
        by (simp add: posted_effect_def Let_def posting_of_def net_at_restoring assms(4))
    qed simp_all
    with made(2) [OF m(2)] show ?thesis
      using restored(1) units by (simp add: mark_released_Inr [OF restored(6)] fun_eq_iff m(1) all)
  next
    case (unreserved held e1)
    have m: "hdAllocations held = ?as" "stMode (readSettings d ?b) = ReserveUntilFulfilled"
      using read [OF unreserved(2)] unreserved(4) v(1) by simp_all
    note r = release_units [OF b1 unreserved(2-4) apart_refl unreserved(5)]
    have "reserved_at e1 k = reserved_at d1 k - amount_at ?b (map row_amount ?as) k" for k
      using r(1) held_facts(4) [OF unreserved(2) b1] by (simp add: m(1) assms(4))
    moreover have "on_hand_at e1 = on_hand_at d1" using r(7) by (simp add: reserved_only_def)
    ultimately show ?thesis using made(1) [OF m(2)] unreserved(1) units
      by (simp add: mark_released_Inr [OF unreserved(6)] fun_eq_iff m(1))
  qed
qed

theorem cancelling_restores_the_stock_witness:
  "\<exists>v d2. reserve (order_line ''L1'' 22 2) shop = Inr (Reserved v, nuts_reserved)
    \<and> releaseReservation (resolution 1000) nuts_reserved = Inr (Released 2, d2)
    \<and> on_hand_at d2 = on_hand_at shop \<and> reserved_at d2 = reserved_at shop"
proof -
  obtain v where v: "reserve (order_line ''L1'' 22 2) shop = Inr (Reserved v, nuts_reserved)"
    "vwReservation v = 1000" using nuts_reserved_run by blast
  obtain d2 where r: "releaseReservation (resolution 1000) nuts_reserved = Inr (Released 2, d2)"
    using nuts_released_run by blast
  from cancelling_restores_the_stock [OF v(1) shop_books r] v r show ?thesis
    by (auto simp: order_line_def resolution_def)
qed

section \<open>Resolving demand\<close>

text \<open>
  A reservation is resolved once. After it has been shipped or released, and after anything
  else the package may have done since, shipping it or releasing it again changes nothing and
  answers with how it was resolved.
\<close>

theorem resolved_once:
  assumes "fulfillReservation input d = Inr (Fulfilled, d1) \<or> releaseReservation input d = Inr (Released n, d1)"
    and "books d" and "inventory_step\<^sup>*\<^sup>* d1 d2"
    and "rzBusiness again = rzBusiness input" and "rzReservation again = rzReservation input"
    and "trim (rzReason again) \<noteq> []"
  shows "\<exists>s. s \<noteq> ReservationOpen
    \<and> fulfillReservation again d2 = Inr (FulfillAlreadyResolved s, d2)
    \<and> releaseReservation again d2 = Inr (ReleaseAlreadyResolved s, d2)"
proof -
  obtain s where s: "resolved_as d1 (rzBusiness input) (rzReservation input) s"
    using assms(1) fulfilled_resolved released_resolved by blast
  have "books d1" using assms(1,2) fulfill_books release_books by blast
  then have kept: "resolved_as d2 (rzBusiness again) (rzReservation again) s"
    using reachable_resolved assms(3-5) s by simp
  then obtain held where held: "readForResolution d2 (rzBusiness again) (rzReservation again) = Some held"
    "hdStatus held = s" by (blast dest: resolved_read)
  have "s \<noteq> ReservationOpen" using kept by (simp add: resolved_as_def)
  with held assms(6) show ?thesis
    by (intro exI [of _ s]) (simp add: fulfillReservation_def releaseReservation_def transactionally_def)
qed

theorem resolved_once_witness:
  "\<exists>d1 s. releaseReservation (resolution 1000) nuts_reserved = Inr (Released 2, d1)
    \<and> fulfillReservation (resolution 1000) d1 = Inr (FulfillAlreadyResolved s, d1)"
proof -
  obtain d1 where r: "releaseReservation (resolution 1000) nuts_reserved = Inr (Released 2, d1)"
    using nuts_released_run by blast
  have t: "trim (rzReason (resolution 1000)) \<noteq> []" by code_simp
  from resolved_once [OF disjI2 [OF r] nuts_reserved_books rtranclp.rtrancl_refl refl refl t] r
  show ?thesis by blast
qed

text \<open>
  C26: Shipping waits for units it does not need. An open reservation is never shipped while the
  units on hand at one of its shelves are fewer than everything reserved there plus its own units
  once more: the posting is checked before the reservation is released, so its own units count
  twice. (The witness has three units on hand and two of them reserved by the order; shipping
  those two is refused.)
\<close>

theorem shipping_counts_its_units_twice:
  assumes "readForResolution d (rzBusiness input) (rzReservation input) = Some held"
    and "hdMode held = ReserveUntilFulfilled" and "a \<in> set (hdAllocations held)"
    and "on_hand_at d (rzBusiness input, alItem a, alLocation a)
      < reserved_at d (rzBusiness input, alItem a, alLocation a)
        + amount_at (rzBusiness input) (map row_amount (hdAllocations held))
            (rzBusiness input, alItem a, alLocation a)"
  shows "\<nexists>d'. fulfillReservation input d = Inr (Fulfilled, d')"
proof
  let ?k = "(rzBusiness input, alItem a, alLocation a)"
  assume "\<exists>d'. fulfillReservation input d = Inr (Fulfilled, d')"
  then obtain d' where "fulfillReservation input d = Inr (Fulfilled, d')" by blast
  then show False
  proof (cases rule: fulfill_cases)
    case (shipped held' ids bals d1 d2)
    have same: "held' = held" using shipped(2) assms(1) by simp
    let ?ms = "map (take_shipment (shipped_reason (rzReservation input)) \<circ> row_amount) (hdAllocations held)"
    note post = shipped(6) [unfolded same]
    have "take_shipment (shipped_reason (rzReservation input)) (row_amount a) \<in> set ?ms"
      using assms(3) by auto
    then have bound: "reserved_at d ?k \<le> on_hand_at d1 ?k"
      using posted_bounds(2) [OF post, of "take_shipment (shipped_reason (rzReservation input)) (row_amount a)"]
      by (simp add: posting_of_def) (simp add: take_shipment_def row_amount_def)
    have "on_hand_at d1 ?k = on_hand_at d ?k
        - amount_at (rzBusiness input) (map row_amount (hdAllocations held)) ?k"
      using postMovements_posted [OF post]
        net_at_shipments [of "rzBusiness input" "shipped_reason (rzReservation input)" "map row_amount (hdAllocations held)"]
      by (simp add: posted_effect_def Let_def posting_of_def)
    with bound assms(4) show False by simp
  next
    case (closed held')
    with assms(1-3) show False by auto
  qed simp
qed

theorem shipping_counts_its_units_twice_witness:
  "on_hand_at nuts_reserved (1, 22, 41) = 3 \<and> reserved_at nuts_reserved (1, 22, 41) = 2
    \<and> vwAllocated (the (readReservation nuts_reserved 1 1000)) = 2
    \<and> (\<nexists>d'. fulfillReservation (resolution 1000) nuts_reserved = Inr (Fulfilled, d'))"
proof -
  define held where "held = the (readForResolution nuts_reserved 1 1000)"
  have facts: "readForResolution nuts_reserved 1 1000 = Some held"
    "hdMode held = ReserveUntilFulfilled"
    "map alItem (hdAllocations held) = [22]" "map alLocation (hdAllocations held) = [41]"
    "amount_at 1 (map row_amount (hdAllocations held)) (1, 22, 41) = 2"
    unfolding held_def by code_simp+
  have figures: "on_hand_at nuts_reserved (1, 22, 41) = 3" "reserved_at nuts_reserved (1, 22, 41) = 2"
    "vwAllocated (the (readReservation nuts_reserved 1 1000)) = 2" by code_simp+
  obtain a where a: "hdAllocations held = [a]" "alItem a = 22" "alLocation a = 41"
    using facts(3,4) by (auto simp: map_eq_Cons_conv)
  have r: "rzBusiness (resolution 1000) = 1" "rzReservation (resolution 1000) = 1000"
    by (simp_all add: resolution_def)
  have "\<nexists>d'. fulfillReservation (resolution 1000) nuts_reserved = Inr (Fulfilled, d')"
    by (rule shipping_counts_its_units_twice [of _ _ held a])
      (use facts figures a in \<open>simp_all add: r\<close>)
  with figures show ?thesis by blast
qed

text \<open>
  A release can be performed twice. \<open>readForResolution\<close> reads the status before it takes
  any lock, so two calls for one reservation can both have read it as open. Acting on what they
  read, the second gives its two units back as well: five bolts are reserved for two orders, and
  after both calls one unit is reserved although the other order's open reservation holds three.
\<close>

theorem stale_release_frees_another_orders_units:
  "case readForResolution bolts_reserved 1 1000 of None \<Rightarrow> False
   | Some held \<Rightarrow>
       reserved_at bolts_reserved (1, 21, 41) = 5 \<and>
       (case transactionally (release_held (resolution 1000) held) bolts_reserved of
          Inr (Released n, d1) \<Rightarrow> n = 2 \<and> reserved_at d1 (1, 21, 41) = 3 \<and>
            (case transactionally (release_held (resolution 1000) held) d1 of
               Inr (Released m, d2) \<Rightarrow> m = 2 \<and> reserved_at d2 (1, 21, 41) = 1 \<and> committed d2 (1, 21, 41) = 3
             | _ \<Rightarrow> False)
        | _ \<Rightarrow> False)"
  by code_simp

text \<open>
  A change of mode can be announced without having happened. Where a migration is refused
  for want of spare units, \<open>switchConsumptionMode\<close> answers \<open>switched\<close> all the same: the business
  now consumes immediately and its open reservation is still held the old way.
\<close>

theorem switched_without_migrating:
  "case switchConsumptionMode \<lparr>msBusiness = 1, msTo = ConsumeImmediately, msMigrate = True,
       msActor = Some 9, msNow = Some 5\<rparr> nuts_reserved of
     (Inr Switched, d) \<Rightarrow> stMode (readSettings d 1) = ConsumeImmediately
       \<and> map (\<lambda>r. (rsId r, rsStatus r, rsMode r)) (dbReservations d)
         = [(1000, ReservationOpen, ReserveUntilFulfilled)]
       \<and> reserved_at d (1, 22, 41) = 2
   | _ \<Rightarrow> False"
  by code_simp

text \<open>
  One sale can be undone twice. Two of three nuts are sold to an order consumed immediately;
  the entry is reversed, and then the reservation is released, which reverses the same entry
  again without looking for an earlier reversal: five nuts are on hand where there were three.
\<close>

theorem consumed_sale_reversed_twice:
  "on_hand_at eager_shop (1, 22, 41) = 3 \<and> on_hand_at nuts_shipped (1, 22, 41) = 1 \<and>
   (case reverseEntry \<lparr>rvBusiness = 1, rvEntry = leId (last (dbLedger nuts_shipped)),
        rvReason = ''miscounted'', rvActor = Some 9, rvOccurredAt = None\<rparr> nuts_shipped of
      Inr (Reversed e h, d1) \<Rightarrow> h = 3 \<and>
        (case releaseReservation (resolution 1000) d1 of
           Inr (Released n, d2) \<Rightarrow> n = 2 \<and> on_hand_at d2 (1, 22, 41) = 5
         | _ \<Rightarrow> False)
    | _ \<Rightarrow> False)"
  by code_simp

end
