(* ===== verification/Retry.thy ===== *)
theory Retry
  imports Prelude
begin

text \<open>
  \<^verbatim>\<open>packages/jobs/src/retry.ts\<close>: when a failed job runs again, and when it stops. Instants and
  delays are milliseconds. A draw of the random source is a numerator over \<open>2^53\<close>, the grid of
  doubles in \<open>[0, 1)\<close>, so that \<open>Math.floor(random() * delay)\<close> is an integer division.
\<close>

definition FINAL_DELAY_MS :: int where
  "FINAL_DELAY_MS = 43200000"

definition RETRY_DELAYS_MS :: "int list" where
  "RETRY_DELAYS_MS = [5000, 15000, 60000, 300000, 900000, 3600000, 10800000, 21600000, FINAL_DELAY_MS]"

text \<open>The map from one-based attempt numbers to delays.\<close>

definition DELAY_BY_ATTEMPT :: "int \<rightharpoonup> int" where
  "DELAY_BY_ATTEMPT = map_of (zip (map int [1 ..< Suc (length RETRY_DELAYS_MS)]) RETRY_DELAYS_MS)"

definition MAX_ATTEMPTS :: int where
  "MAX_ATTEMPTS = 10"

definition DEAD_LETTER_WINDOW_MS :: int where
  "DEAD_LETTER_WINDOW_MS = 24 * 60 * 60 * 1000"

datatype dead_letter_reason =
    AttemptsExhausted
  | WindowElapsed
  | RetryAfterExceedsWindow
  | NotRetryable

datatype retry_decision =
    Retry instant int
  | DeadLetter dead_letter_reason

record retry_input =
  riAttempt :: int
  riMaxAttempts :: "int option"
  riNow :: instant
  riExpiresAt :: instant
  riRetryAfter :: "int option"
  riRetryable :: "bool option"
  riRandom :: int

definition nominalDelayMs :: "int \<Rightarrow> int" where
  "nominalDelayMs attempt = (case DELAY_BY_ATTEMPT attempt of None \<Rightarrow> FINAL_DELAY_MS | Some d \<Rightarrow> d)"

definition jitter :: "int \<Rightarrow> int \<Rightarrow> int" where
  "jitter delay random = random * delay div 2 ^ 53"

definition nextAttempt :: "retry_input \<Rightarrow> retry_decision" where
  "nextAttempt input =
     (let maxAttempts = (case riMaxAttempts input of None \<Rightarrow> MAX_ATTEMPTS | Some n \<Rightarrow> n)
      in if riRetryable input = Some False then DeadLetter NotRetryable
         else if riAttempt input \<ge> maxAttempts then DeadLetter AttemptsExhausted
         else if riNow input \<ge> riExpiresAt input then DeadLetter WindowElapsed
         else let delay = (case riRetryAfter input of
                             None \<Rightarrow> jitter (nominalDelayMs (riAttempt input)) (riRandom input)
                           | Some ms \<Rightarrow> max 0 ms);
                  runAt = riNow input + delay
              in if runAt > riExpiresAt input
                 then DeadLetter (if riRetryAfter input = None then WindowElapsed else RetryAfterExceedsWindow)
                 else Retry runAt delay)"

definition totalScheduleMs :: int where
  "totalScheduleMs = sum_list RETRY_DELAYS_MS"

section \<open>The schedule\<close>

lemma jitter_bounds:
  assumes "0 < delay" and "0 \<le> random" and "random < 2 ^ 53"
  shows "0 \<le> jitter delay random" and "jitter delay random < delay"
proof -
  show "0 \<le> jitter delay random"
    using assms(1,2) by (simp add: jitter_def pos_imp_zdiv_nonneg_iff)
  have "random * delay < delay * 2 ^ 53" using assms by (simp add: mult.commute)
  then show "jitter delay random < delay"
    unfolding jitter_def by (simp add: div_less_iff_less_mult)
qed

lemma delays: "DELAY_BY_ATTEMPT n =
    (if n = 1 then Some 5000 else if n = 2 then Some 15000 else if n = 3 then Some 60000
     else if n = 4 then Some 300000 else if n = 5 then Some 900000 else if n = 6 then Some 3600000
     else if n = 7 then Some 10800000 else if n = 8 then Some 21600000 else if n = 9 then Some 43200000
     else None)"
  by (simp add: DELAY_BY_ATTEMPT_def RETRY_DELAYS_MS_def FINAL_DELAY_MS_def upt_rec)

lemma nominalDelay_bounds: "0 < nominalDelayMs n" "nominalDelayMs n \<le> FINAL_DELAY_MS"
  by (auto simp: nominalDelayMs_def delays FINAL_DELAY_MS_def)

lemma nominalDelay_mono: "1 \<le> m \<Longrightarrow> m \<le> n \<Longrightarrow> nominalDelayMs m \<le> nominalDelayMs n"
  by (auto simp: nominalDelayMs_def delays FINAL_DELAY_MS_def)

lemma nextAttempt_Retry:
  "nextAttempt input = Retry runAt delay \<longleftrightarrow>
     riRetryable input \<noteq> Some False
     \<and> riAttempt input < (case riMaxAttempts input of None \<Rightarrow> MAX_ATTEMPTS | Some n \<Rightarrow> n)
     \<and> riNow input < riExpiresAt input
     \<and> delay = (case riRetryAfter input of
         None \<Rightarrow> jitter (nominalDelayMs (riAttempt input)) (riRandom input) | Some ms \<Rightarrow> max 0 ms)
     \<and> runAt = riNow input + delay \<and> runAt \<le> riExpiresAt input"
  by (auto simp: nextAttempt_def Let_def)

text \<open>
  A retry is scheduled within its limits. A retried attempt was allowed to be retried, was not
  the last one, and runs again neither in the past nor after the job's deadline; a provider's
  stated delay is taken literally, and otherwise the delay is drawn below the attempt's entry of
  the schedule, whose entries never decrease. The schedule's nine delays together fit the 24-hour
  window.
\<close>

theorem retry_within_limits:
  assumes "nextAttempt input = Retry runAt delay" and "0 \<le> riRandom input" and "riRandom input < 2 ^ 53"
  shows "riRetryable input \<noteq> Some False
    \<and> riAttempt input < (case riMaxAttempts input of None \<Rightarrow> MAX_ATTEMPTS | Some n \<Rightarrow> n)
    \<and> riNow input \<le> runAt \<and> runAt \<le> riExpiresAt input \<and> runAt = riNow input + delay
    \<and> (riRetryAfter input = None \<longrightarrow> 0 \<le> delay \<and> delay < nominalDelayMs (riAttempt input))
    \<and> (\<forall>ms. riRetryAfter input = Some ms \<longrightarrow> delay = max 0 ms)
    \<and> (\<forall>m n. 1 \<le> m \<and> m \<le> n \<longrightarrow> nominalDelayMs m \<le> nominalDelayMs n)
    \<and> totalScheduleMs < DEAD_LETTER_WINDOW_MS"
proof -
  have "0 \<le> delay"
    using assms jitter_bounds(1) [OF nominalDelay_bounds(1)]
    by (auto simp: nextAttempt_Retry split: option.splits)
  moreover have "riRetryAfter input = None \<Longrightarrow> delay < nominalDelayMs (riAttempt input)"
    using assms jitter_bounds(2) [OF nominalDelay_bounds(1)] by (auto simp: nextAttempt_Retry)
  moreover have "totalScheduleMs < DEAD_LETTER_WINDOW_MS" by code_simp
  ultimately show ?thesis
    using assms(1) nominalDelay_mono by (auto simp: nextAttempt_Retry)
qed

definition third_failure :: retry_input where
  "third_failure = \<lparr>riAttempt = 3, riMaxAttempts = None, riNow = 1000, riExpiresAt = 500000,
     riRetryAfter = None, riRetryable = Some True, riRandom = 2 ^ 52\<rparr>"

theorem retry_within_limits_witness:
  "nextAttempt third_failure = Retry 31000 30000 \<and> 30000 < nominalDelayMs 3"
proof -
  have n: "nextAttempt third_failure = Retry 31000 30000" by code_simp
  have r: "0 \<le> riRandom third_failure" "riRandom third_failure < 2 ^ 53" "riAttempt third_failure = 3" "riRetryAfter third_failure = None"
    by (simp_all add: third_failure_def)
  have "30000 < nominalDelayMs (riAttempt third_failure)"
    using retry_within_limits [OF n r(1,2)] r(4) by blast
  with n show ?thesis unfolding r(3) by blast
qed

text \<open>Why a job is given up, one reason for each way of not being retried.\<close>

lemma nextAttempt_DeadLetter:
  "nextAttempt input = DeadLetter reason \<longleftrightarrow>
    (let limit = (case riMaxAttempts input of None \<Rightarrow> MAX_ATTEMPTS | Some n \<Rightarrow> n);
         delay = (case riRetryAfter input of
           None \<Rightarrow> jitter (nominalDelayMs (riAttempt input)) (riRandom input) | Some ms \<Rightarrow> max 0 ms)
     in if riRetryable input = Some False then reason = NotRetryable
        else if limit \<le> riAttempt input then reason = AttemptsExhausted
        else if riExpiresAt input \<le> riNow input then reason = WindowElapsed
        else riExpiresAt input < riNow input + delay
          \<and> reason = (if riRetryAfter input = None then WindowElapsed else RetryAfterExceedsWindow))"
  by (auto simp: nextAttempt_def Let_def)

end
