(* ===== verification/Queue.thy ===== *)
theory Queue
  imports Schema Retry Payload
begin

text \<open>
  \<^verbatim>\<open>packages/jobs/src/queue.ts\<close>: the durable job queue. The state is the two tables and the
  database's clock, which every statement of a transaction reads; \<open>background_jobs\<close> carries two
  partial unique indexes, one running job per serialization key and one ready job per dedupe key
  (\<^verbatim>\<open>0014_jobs.sql\<close> as corrected by \<^verbatim>\<open>0015_channel_targets.sql\<close>).

  Claims contend. A claim reads which scopes are running before it takes its row, and skips the
  rows others have locked, so what it saw is an argument beside the state it writes, one for each
  of the claim's tries; the sweep of expired claims skips locked rows in the same way. The two
  statements of \<open>enqueue\<close> see the table at different moments; the second table is an argument too.
\<close>

section \<open>The tables\<close>

datatype job_status = JobReady | JobRunning | JobSucceeded | JobDead | JobCancelled

datatype attempt_outcome = AttemptSucceeded | AttemptFailed | AttemptSuperseded | AttemptReclaimed

record job =
  jbId :: uuid
  jbBusiness :: "uuid option"
  jbConnection :: "uuid option"
  jbKind :: string
  jbPriority :: int
  jbSerialization :: "string option"
  jbDedupe :: "string option"
  jbPayload :: json_object
  jbStatus :: job_status
  jbAttempts :: int
  jbMaxAttempts :: int
  jbRunAt :: instant
  jbExpiresAt :: instant
  jbClaimedBy :: "uuid option"
  jbClaimedAt :: "instant option"
  jbLease :: "instant option"
  jbFailureKind :: "string option"
  jbLastError :: "string option"
  jbCreatedAt :: instant
  jbFinishedAt :: "instant option"

record attempt =
  atId :: uuid
  atJob :: uuid
  atAttempt :: int
  atWorker :: "uuid option"
  atFinishedAt :: "instant option"
  atOutcome :: "attempt_outcome option"
  atFailureKind :: "string option"
  atDetail :: "string option"
  atRetryAfter :: "int option"
  atNextRunAt :: "instant option"

record queue =
  quNow :: instant
  quNextUuid :: uuid
  quBusinesses :: "uuid list"
  quConnections :: "(uuid \<times> uuid) list"
  quJobs :: "job list"
  quAttempts :: "attempt list"

definition running_key :: "job \<Rightarrow> string option" where
  "running_key j = (if jbStatus j = JobRunning then jbSerialization j else None)"

definition pending_key :: "job \<Rightarrow> string option" where
  "pending_key j = (if jbStatus j = JobReady then jbDedupe j else None)"

definition job_check :: "job \<Rightarrow> exn + unit" where
  "job_check j = check_all [
     (int4 (jbPriority j) \<and> int4 (jbAttempts j) \<and> int4 (jbMaxAttempts j), NumericValueOutOfRange),
     (0 \<le> jbAttempts j \<and> jbAttempts j \<le> jbMaxAttempts j, CheckViolation ''background_jobs_attempts_bounded''),
     (1 \<le> jbMaxAttempts j, CheckViolation ''background_jobs_max_attempts_positive''),
     ((jbStatus j = JobRunning) = (jbClaimedBy j \<noteq> None \<and> jbLease j \<noteq> None),
        CheckViolation ''background_jobs_running_is_held'')]"

definition job_refs :: "queue \<Rightarrow> job \<Rightarrow> exn + unit" where
  "job_refs q j = check_all [
     (opt_in (jbBusiness j) (quBusinesses q), ForeignKeyViolation ''background_jobs_business_id_fkey''),
     (case (jbBusiness j, jbConnection j) of (Some b, Some c) \<Rightarrow> (b, c) \<in> set (quConnections q) | _ \<Rightarrow> True,
        ForeignKeyViolation ''background_jobs_business_scoped_connection'')]"

definition index_check :: "job list \<Rightarrow> exn + unit" where
  "index_check rows = check_all [
     (unique_on running_key rows, UniqueViolation ''background_jobs_one_running_per_key''),
     (unique_on pending_key rows, UniqueViolation ''background_jobs_pending_dedupe'')]"

definition update_jobs :: "(job \<Rightarrow> bool) \<Rightarrow> (job \<Rightarrow> job) \<Rightarrow> queue \<Rightarrow> exn + queue" where
  "update_jobs p f q =
     bindR (update_checked p f job_check (quJobs q)) (\<lambda>rows.
     bindR (index_check rows) (\<lambda>_. Inr (q\<lparr>quJobs := rows\<rparr>)))"

definition update_attempts :: "(attempt \<Rightarrow> bool) \<Rightarrow> (attempt \<Rightarrow> attempt) \<Rightarrow> queue \<Rightarrow> queue" where
  "update_attempts p f q = q\<lparr>quAttempts := update_where p f (quAttempts q)\<rparr>"

text \<open>The columns every statement that ends a claim sets to null.\<close>

definition unclaimed :: "job \<Rightarrow> job" where
  "unclaimed j = j\<lparr>jbClaimedBy := None, jbClaimedAt := None, jbLease := None\<rparr>"

section \<open>Enqueuing\<close>

definition priority_orderIngestion :: int where "priority_orderIngestion = 10"
definition priority_protectiveWrite :: int where "priority_protectiveWrite = 20"
definition priority_inventoryWrite :: int where "priority_inventoryWrite = 30"
definition priority_verification :: int where "priority_verification = 40"
definition priority_reconciliation :: int where "priority_reconciliation = 50"
definition priority_imports :: int where "priority_imports = 60"
definition priority_reporting :: int where "priority_reporting = 70"

record enqueue_input =
  eqKind :: string
  eqBusiness :: "uuid option"
  eqConnection :: "uuid option"
  eqPriority :: "int option"
  eqSerialization :: "string option"
  eqDedupe :: "string option"
  eqPayload :: "json_object option"
  eqRunAt :: "instant option"
  eqMaxAttempts :: "int option"
  eqWindow :: "int option"

definition given_or :: "'a \<Rightarrow> 'a option \<Rightarrow> 'a" where
  "given_or x y = (case y of None \<Rightarrow> x | Some v \<Rightarrow> v)"

definition new_job :: "enqueue_input \<Rightarrow> instant \<Rightarrow> uuid \<Rightarrow> job" where
  "new_job input now i =
     (let runAt = given_or now (eqRunAt input)
      in \<lparr>jbId = i, jbBusiness = eqBusiness input, jbConnection = eqConnection input, jbKind = eqKind input,
          jbPriority = given_or priority_reconciliation (eqPriority input),
          jbSerialization = eqSerialization input, jbDedupe = eqDedupe input,
          jbPayload = given_or [] (eqPayload input), jbStatus = JobReady, jbAttempts = 0,
          jbMaxAttempts = given_or MAX_ATTEMPTS (eqMaxAttempts input), jbRunAt = runAt,
          jbExpiresAt = runAt + given_or DEAD_LETTER_WINDOW_MS (eqWindow input),
          jbClaimedBy = None, jbClaimedAt = None, jbLease = None, jbFailureKind = None,
          jbLastError = None, jbCreatedAt = now, jbFinishedAt = None\<rparr>)"

text \<open>The insert, swallowed when a ready job has its dedupe key.\<close>

definition insert_job :: "enqueue_input \<Rightarrow> queue \<Rightarrow> exn + job option \<times> queue" where
  "insert_job input q =
     (let j = new_job input (quNow q) (quNextUuid q)
      in bindR (job_check j) (\<lambda>_.
         if pending_key j \<noteq> None \<and> list_ex (\<lambda>r. pending_key r = pending_key j) (quJobs q) then Inr (None, q)
         else bindR (job_refs q j) (\<lambda>_.
              Inr (Some j, q\<lparr>quNextUuid := Suc (quNextUuid q), quJobs := quJobs q @ [j]\<rparr>))))"

definition pending_job :: "string option \<Rightarrow> queue \<Rightarrow> job option" where
  "pending_job key q = List.find (\<lambda>r. key \<noteq> None \<and> jbDedupe r = key \<and> jbStatus r = JobReady) (quJobs q)"

text \<open>
  \<open>later\<close> is the queue the second statement reads; without the dedupe key the insert cannot be
  swallowed, so the call that drops it makes no further one.
\<close>

definition enqueue :: "enqueue_input \<Rightarrow> (queue \<Rightarrow> queue) \<Rightarrow> queue \<Rightarrow> exn + (job \<times> bool) \<times> queue" where
  "enqueue input later q =
     bindR (insert_job input q) (\<lambda>(inserted, q1).
     case inserted of
       Some j \<Rightarrow> Inr ((j, False), q1)
     | None \<Rightarrow>
         let q2 = later q1
         in case pending_job (eqDedupe input) q2 of
              Some winner \<Rightarrow> Inr ((winner, True), q2)
            | None \<Rightarrow> bindR (insert_job (input\<lparr>eqDedupe := None\<rparr>) q2) (\<lambda>(again, q3).
                case again of Some j \<Rightarrow> Inr ((j, False), q3) | None \<Rightarrow> Inl (PlainError ''unreachable'')))"

section \<open>Claiming\<close>

record claim_options =
  coWorker :: uuid
  coLeaseMs :: int
  coKinds :: "string list"
  coMaxPriority :: "int option"

record claimed_job =
  cjJob :: job
  cjAttempt :: uuid
  cjWorker :: uuid

text \<open>What a claim sees of the others: the table when its statement began, and the rows locked since.\<close>

record claim_view =
  cvJobs :: "job list"
  cvLocked :: "uuid list"

definition scope_free :: "job list \<Rightarrow> job \<Rightarrow> bool" where
  "scope_free seen j \<longleftrightarrow> jbSerialization j = None
     \<or> \<not> list_ex (\<lambda>r. jbSerialization r = jbSerialization j \<and> jbStatus r = JobRunning) seen"

definition claimable :: "claim_options \<Rightarrow> claim_view \<Rightarrow> instant \<Rightarrow> job \<Rightarrow> bool" where
  "claimable options seen now j \<longleftrightarrow> jbStatus j = JobReady \<and> jbRunAt j \<le> now \<and> now < jbExpiresAt j
     \<and> jbAttempts j < jbMaxAttempts j \<and> (coKinds options = [] \<or> jbKind j \<in> set (coKinds options))
     \<and> (case coMaxPriority options of None \<Rightarrow> True | Some n \<Rightarrow> jbPriority j \<le> n)
     \<and> scope_free (cvJobs seen) j \<and> jbId j \<notin> set (cvLocked seen)"

text \<open>\<open>order by priority, run_at, created_at\<close>\<close>

definition more_urgent :: "job \<Rightarrow> job \<Rightarrow> bool" where
  "more_urgent a b \<longleftrightarrow> jbPriority a < jbPriority b \<or> jbPriority a = jbPriority b
     \<and> (jbRunAt a < jbRunAt b \<or> jbRunAt a = jbRunAt b \<and> jbCreatedAt a \<le> jbCreatedAt b)"

interpretation urgency: row_order more_urgent
  by unfold_locales (auto simp: more_urgent_def)

definition take_claim :: "claim_options \<Rightarrow> instant \<Rightarrow> job \<Rightarrow> job" where
  "take_claim options now j = j\<lparr>jbStatus := JobRunning, jbAttempts := jbAttempts j + 1,
     jbClaimedBy := Some (coWorker options), jbClaimedAt := Some now,
     jbLease := Some (now + coLeaseMs options)\<rparr>"

definition attempts_of :: "uuid \<Rightarrow> queue \<Rightarrow> attempt list" where
  "attempts_of i q = filter (\<lambda>a. atJob a = i) (quAttempts q)"

definition open_attempt :: "uuid \<Rightarrow> uuid \<Rightarrow> queue \<Rightarrow> uuid \<times> queue" where
  "open_attempt i worker q =
     (let n = quNextUuid q
      in (n, q\<lparr>quNextUuid := Suc n, quAttempts := quAttempts q @
            [\<lparr>atId = n, atJob = i, atAttempt = fold max (map atAttempt (attempts_of i q)) 0 + 1,
              atWorker = Some worker, atFinishedAt = None, atOutcome = None, atFailureKind = None,
              atDetail = None, atRetryAfter = None, atNextRunAt = None\<rparr>]\<rparr>))"

definition claimOnce :: "claim_options \<Rightarrow> claim_view \<Rightarrow> queue \<Rightarrow> exn + claimed_job option \<times> queue" where
  "claimOnce options seen q =
     (case sort_by more_urgent (filter (claimable options seen (quNow q)) (quJobs q)) of
        [] \<Rightarrow> Inr (None, q)
      | j # _ \<Rightarrow>
          bindR (update_jobs (\<lambda>r. jbId r = jbId j) (take_claim options (quNow q)) q) (\<lambda>q1.
          let (a, q2) = open_attempt (jbId j) (coWorker options) q1
          in Inr (Some \<lparr>cjJob = take_claim options (quNow q) j, cjAttempt = a, cjWorker = coWorker options\<rparr>, q2)))"

definition CLAIM_CONTEST_LIMIT :: nat where
  "CLAIM_CONTEST_LIMIT = 5"

text \<open>A try that loses the contest for a scope is rolled back and made again.\<close>

fun claim_tries :: "claim_options \<Rightarrow> claim_view list \<Rightarrow> queue \<Rightarrow> exn + claimed_job option \<times> queue" where
  "claim_tries options [] q = Inr (None, q)"
| "claim_tries options (seen # rest) q =
     (case claimOnce options seen q of
        Inr r \<Rightarrow> Inr r
      | Inl e \<Rightarrow> if e = UniqueViolation ''background_jobs_one_running_per_key'' then claim_tries options rest q
                 else Inl e)"

definition claim :: "claim_options \<Rightarrow> (nat \<Rightarrow> claim_view) \<Rightarrow> queue \<Rightarrow> exn + claimed_job option \<times> queue" where
  "claim options seen = claim_tries options (map seen [0 ..< CLAIM_CONTEST_LIMIT])"

section \<open>Holding and finishing\<close>

definition held_by :: "uuid \<Rightarrow> uuid \<Rightarrow> job \<Rightarrow> bool" where
  "held_by i worker r \<longleftrightarrow> jbId r = i \<and> jbStatus r = JobRunning \<and> jbClaimedBy r = Some worker"

definition heartbeat :: "uuid \<Rightarrow> uuid \<Rightarrow> int \<Rightarrow> queue \<Rightarrow> exn + bool \<times> queue" where
  "heartbeat i worker leaseMs q =
     bindR (update_jobs (held_by i worker) (\<lambda>r. r\<lparr>jbLease := Some (quNow q + leaseMs)\<rparr>) q) (\<lambda>q1.
     Inr (length (filter (held_by i worker) (quJobs q)) = 1, q1))"

definition succeed :: "uuid \<Rightarrow> uuid \<Rightarrow> queue \<Rightarrow> exn + queue" where
  "succeed i attempt q =
     bindR (update_jobs (\<lambda>r. jbId r = i) (\<lambda>r. (unclaimed r)\<lparr>jbStatus := JobSucceeded,
              jbFinishedAt := Some (quNow q), jbFailureKind := None, jbLastError := None\<rparr>) q) (\<lambda>q1.
     Inr (update_attempts (\<lambda>a. atId a = attempt)
            (\<lambda>a. a\<lparr>atOutcome := Some AttemptSucceeded, atFinishedAt := Some (quNow q)\<rparr>) q1))"

definition supersede :: "uuid \<Rightarrow> uuid option \<Rightarrow> string \<Rightarrow> queue \<Rightarrow> exn + queue" where
  "supersede i attempt detail q =
     bindR (update_jobs (\<lambda>r. jbId r = i \<and> jbStatus r \<in> {JobReady, JobRunning})
              (\<lambda>r. (unclaimed r)\<lparr>jbStatus := JobCancelled, jbFinishedAt := Some (quNow q),
                     jbLastError := Some detail\<rparr>) q) (\<lambda>q1.
     Inr (case attempt of None \<Rightarrow> q1
          | Some a \<Rightarrow> update_attempts (\<lambda>r. atId r = a)
              (\<lambda>r. r\<lparr>atOutcome := Some AttemptSuperseded, atFinishedAt := Some (quNow q),
                     atDetail := Some detail\<rparr>) q1))"

record failure_input =
  fiJob :: claimed_job
  fiKind :: string
  fiDetail :: string
  fiRetryable :: bool
  fiRetryAfter :: "int option"
  fiNow :: instant
  fiRandom :: int

datatype failure_outcome = WillRetry instant | DeadLettered dead_letter_reason

definition failure_decision :: "failure_input \<Rightarrow> retry_decision" where
  "failure_decision input = nextAttempt
     \<lparr>riAttempt = jbAttempts (cjJob (fiJob input)), riMaxAttempts = Some (jbMaxAttempts (cjJob (fiJob input))),
      riNow = fiNow input, riExpiresAt = jbExpiresAt (cjJob (fiJob input)),
      riRetryAfter = fiRetryAfter input, riRetryable = Some (fiRetryable input), riRandom = fiRandom input\<rparr>"

definition reason_text :: "dead_letter_reason \<Rightarrow> string" where
  "reason_text r = (case r of AttemptsExhausted \<Rightarrow> ''attempts_exhausted'' | WindowElapsed \<Rightarrow> ''window_elapsed''
     | RetryAfterExceedsWindow \<Rightarrow> ''retry_after_exceeds_window'' | NotRetryable \<Rightarrow> ''not_retryable'')"

definition fail :: "failure_input \<Rightarrow> queue \<Rightarrow> exn + failure_outcome \<times> queue" where
  "fail input q =
     (let i = jbId (cjJob (fiJob input)); a = cjAttempt (fiJob input);
          failed = (\<lambda>detail r. r\<lparr>atOutcome := Some AttemptFailed, atFinishedAt := Some (quNow q),
             atFailureKind := Some (fiKind input), atDetail := Some detail, atRetryAfter := fiRetryAfter input\<rparr>)
      in case failure_decision input of
           DeadLetter reason \<Rightarrow>
             bindR (update_jobs (\<lambda>r. jbId r = i) (\<lambda>r. (unclaimed r)\<lparr>jbStatus := JobDead,
                 jbFinishedAt := Some (quNow q), jbFailureKind := Some (fiKind input),
                 jbLastError := Some (fiDetail input)\<rparr>) q) (\<lambda>q1.
             Inr (DeadLettered reason, update_attempts (\<lambda>r. atId r = a)
               (failed (fiDetail input @ '' (dead-lettered: '' @ reason_text reason @ '')'')) q1))
         | Retry runAt delay \<Rightarrow>
             bindR (update_jobs (\<lambda>r. jbId r = i) (\<lambda>r. (unclaimed r)\<lparr>jbStatus := JobReady, jbRunAt := runAt,
                 jbFailureKind := Some (fiKind input), jbLastError := Some (fiDetail input)\<rparr>) q) (\<lambda>q1.
             Inr (WillRetry runAt, update_attempts (\<lambda>r. atId r = a)
               (\<lambda>r. (failed (fiDetail input) r)\<lparr>atNextRunAt := Some runAt\<rparr>) q1)))"

section \<open>Sweeps and the operator\<close>

definition lease_expired :: "instant \<Rightarrow> job \<Rightarrow> bool" where
  "lease_expired now r \<longleftrightarrow> jbStatus r = JobRunning \<and> (case jbLease r of None \<Rightarrow> False | Some t \<Rightarrow> t < now)"

definition reopened :: "instant \<Rightarrow> job \<Rightarrow> job" where
  "reopened now r =
     (let spent = jbAttempts r \<ge> jbMaxAttempts r
      in (unclaimed r)\<lparr>jbStatus := (if spent then JobDead else JobReady),
           jbFailureKind := Some ''worker_lost'',
           jbLastError := Some ''the worker holding this job stopped reporting'',
           jbFinishedAt := (if spent then Some now else None)\<rparr>)"

text \<open>
  One statement for every expired claim; the answer counts the attempt rows it closes.
\<close>

definition lost_claim :: "uuid list \<Rightarrow> instant \<Rightarrow> job \<Rightarrow> bool" where
  "lost_claim locked now r \<longleftrightarrow> lease_expired now r \<and> jbId r \<notin> set locked"

definition reclaimExpired :: "uuid list \<Rightarrow> queue \<Rightarrow> exn + nat \<times> queue" where
  "reclaimExpired locked q =
     (let lost = map jbId (filter (lost_claim locked (quNow q)) (quJobs q));
          closing = (\<lambda>a. atJob a \<in> set lost \<and> atOutcome a = None)
      in bindR (update_jobs (lost_claim locked (quNow q)) (reopened (quNow q)) q) (\<lambda>q1.
         Inr (length (filter closing (quAttempts q)), update_attempts closing
           (\<lambda>a. a\<lparr>atOutcome := Some AttemptReclaimed, atFinishedAt := Some (quNow q)\<rparr>) q1)))"

definition overdue :: "instant \<Rightarrow> job \<Rightarrow> bool" where
  "overdue now r \<longleftrightarrow> jbStatus r = JobReady \<and> jbExpiresAt r \<le> now"

definition expireOverdue :: "queue \<Rightarrow> exn + nat \<times> queue" where
  "expireOverdue q =
     bindR (update_jobs (overdue (quNow q)) (\<lambda>r. r\<lparr>jbStatus := JobDead, jbFinishedAt := Some (quNow q),
       jbFailureKind := Some ''window_elapsed'',
       jbLastError := Some ''the 24-hour window elapsed before this job could run''\<rparr>) q) (\<lambda>q1.
     Inr (length (filter (overdue (quNow q)) (quJobs q)), q1))"

definition release_claim :: "uuid \<Rightarrow> uuid \<Rightarrow> uuid \<Rightarrow> queue \<Rightarrow> exn + queue" where
  "release_claim i attempt worker q =
     bindR (update_jobs (held_by i worker) (\<lambda>r. (unclaimed r)\<lparr>jbStatus := JobReady,
              jbAttempts := max 0 (jbAttempts r - 1)\<rparr>) q) (\<lambda>q1.
     Inr (update_attempts (\<lambda>a. atId a = attempt) (\<lambda>a. a\<lparr>atOutcome := Some AttemptReclaimed,
            atFinishedAt := Some (quNow q), atDetail := Some ''released on shutdown''\<rparr>) q1))"

text \<open>\<open>order by finished_at desc\<close> puts nulls first.\<close>

definition finished_later :: "job \<Rightarrow> job \<Rightarrow> bool" where
  "finished_later a b = (case (jbFinishedAt a, jbFinishedAt b) of
     (None, _) \<Rightarrow> True | (Some _, None) \<Rightarrow> False | (Some s, Some t) \<Rightarrow> t \<le> s)"

interpretation dead_letters: row_order finished_later
  by unfold_locales (auto simp: finished_later_def split: option.splits)

definition listDeadLettered :: "uuid \<Rightarrow> nat option \<Rightarrow> queue \<Rightarrow> job list" where
  "listDeadLettered b limit q = take (given_or 50 limit)
     (sort_by finished_later (filter (\<lambda>r. jbBusiness r = Some b \<and> jbStatus r = JobDead) (quJobs q)))"

definition replay :: "uuid \<Rightarrow> int option \<Rightarrow> queue \<Rightarrow> exn + bool \<times> queue" where
  "replay i windowMs q =
     bindR (update_jobs (\<lambda>r. jbId r = i \<and> jbStatus r = JobDead) (\<lambda>r. r\<lparr>jbStatus := JobReady,
       jbAttempts := 0, jbRunAt := quNow q,
       jbExpiresAt := quNow q + given_or DEAD_LETTER_WINDOW_MS windowMs, jbFinishedAt := None\<rparr>) q) (\<lambda>q1.
     Inr (length (filter (\<lambda>r. jbId r = i \<and> jbStatus r = JobDead) (quJobs q)) = 1, q1))"

section \<open>What the statements do\<close>

lemma update_jobs_Inr:
  "update_jobs p f q = Inr q' \<longleftrightarrow>
     q' = q\<lparr>quJobs := update_where p f (quJobs q)\<rparr>
     \<and> (\<forall>r \<in> set (quJobs q). p r \<longrightarrow> job_check (f r) = Inr ())
     \<and> unique_on running_key (update_where p f (quJobs q))
     \<and> unique_on pending_key (update_where p f (quJobs q))"
  by (auto simp: update_jobs_def index_check_def result_simps update_checked_Inr)

lemma update_attempts_simps [simp]:
  "quJobs (update_attempts p f q) = quJobs q" "quNow (update_attempts p f q) = quNow q"
  "quNextUuid (update_attempts p f q) = quNextUuid q"
  "quAttempts (update_attempts p f q) = update_where p f (quAttempts q)"
  by (simp_all add: update_attempts_def)

lemma unclaimed_simps [simp]:
  "jbId (unclaimed r) = jbId r" "jbDedupe (unclaimed r) = jbDedupe r" "jbAttempts (unclaimed r) = jbAttempts r"
  "jbMaxAttempts (unclaimed r) = jbMaxAttempts r" "jbSerialization (unclaimed r) = jbSerialization r"
  "jbClaimedBy (unclaimed r) = None" "jbLease (unclaimed r) = None" "jbPriority (unclaimed r) = jbPriority r"
  "jbKind (unclaimed r) = jbKind r" "jbExpiresAt (unclaimed r) = jbExpiresAt r"
  by (simp_all add: unclaimed_def)

lemma open_attempt_simps [simp]:
  "quJobs (snd (open_attempt i w q)) = quJobs q" "quNow (snd (open_attempt i w q)) = quNow q"
  "quNextUuid (snd (open_attempt i w q)) = Suc (quNextUuid q)" "fst (open_attempt i w q) = quNextUuid q"
  by (simp_all add: open_attempt_def Let_def)

lemma claimOnce_cases:
  assumes "claimOnce options seen q = Inr (res, q')"
  obtains (nothing) "res = None" "q' = q" "filter (claimable options seen (quNow q)) (quJobs q) = []"
  | (taken) j q1 where
      "res = Some \<lparr>cjJob = take_claim options (quNow q) j, cjAttempt = quNextUuid q, cjWorker = coWorker options\<rparr>"
      "j \<in> set (quJobs q)" "claimable options seen (quNow q) j"
      "\<forall>k \<in> set (quJobs q). claimable options seen (quNow q) k \<longrightarrow> more_urgent j k"
      "update_jobs (\<lambda>r. jbId r = jbId j) (take_claim options (quNow q)) q = Inr q1"
      "q' = snd (open_attempt (jbId j) (coWorker options) q1)"
proof (cases "sort_by more_urgent (filter (claimable options seen (quNow q)) (quJobs q))")
  case Nil
  then have none: "filter (claimable options seen (quNow q)) (quJobs q) = []"
    by (metis set_sort_by set_empty)
  from assms Nil have "res = None" "q' = q" by (simp_all add: claimOnce_def)
  then show thesis using none by (rule nothing)
next
  case (Cons j js)
  have sorted: "sorted_wrt more_urgent (j # js)"
    using urgency.sorted_sort_by [of "filter (claimable options seen (quNow q)) (quJobs q)"] Cons by simp
  have members: "set (j # js) = set (filter (claimable options seen (quNow q)) (quJobs q))"
    by (metis Cons set_sort_by)
  have "more_urgent j j" by (simp add: more_urgent_def)
  with sorted have first: "\<forall>k \<in> set (j # js). more_urgent j k" by simp
  from assms Cons obtain q1 where u: "update_jobs (\<lambda>r. jbId r = jbId j) (take_claim options (quNow q)) q = Inr q1"
    and r: "(res, q') = (Some \<lparr>cjJob = take_claim options (quNow q) j, cjAttempt = fst (open_attempt (jbId j) (coWorker options) q1),
        cjWorker = coWorker options\<rparr>, snd (open_attempt (jbId j) (coWorker options) q1))"
    by (auto simp: claimOnce_def result_simps Let_def case_prod_beta)
  have "quNextUuid q1 = quNextUuid q" using u by (auto simp: update_jobs_Inr)
  with r u members first show thesis by (intro taken [of j q1]) auto
qed

lemma claim_tries_cases:
  assumes "claim_tries options seens q = Inr (res, q')"
  shows "(\<exists>seen \<in> set seens. claimOnce options seen q = Inr (res, q')) \<or> res = None \<and> q' = q"
  using assms
  by (induction seens) (auto split: sum.splits if_splits)

lemma claim_cases:
  assumes "claim options seen q = Inr (res, q')"
  shows "(\<exists>n < CLAIM_CONTEST_LIMIT. claimOnce options (seen n) q = Inr (res, q')) \<or> res = None \<and> q' = q"
  using claim_tries_cases [OF assms [unfolded claim_def]] by auto

end
