(* ===== verification/Jobs.thy ===== *)
theory Jobs
  imports Queue
begin

text \<open>
  The queue as a state machine: one step per statement or transaction of
  \<^verbatim>\<open>packages/jobs/src/queue.ts\<close>, labelled with what it does to a job's retry budget. The calls that
  end a claim are made with a claim that was issued, current or not; every snapshot, clock reading
  and random draw is allowed.
\<close>

section \<open>Steps\<close>

datatype job_event = Claimed uuid | Refunded uuid | Renewed uuid | Quiet

text \<open>A claim that some call of \<open>claim\<close> answered: its attempt row is on record.\<close>

definition issued :: "claimed_job \<Rightarrow> queue \<Rightarrow> bool" where
  "issued c q \<longleftrightarrow> list_ex (\<lambda>a. atId a = cjAttempt c \<and> atJob a = jbId (cjJob c) \<and> atWorker a = Some (cjWorker c))
     (quAttempts q)"

inductive queue_step :: "job_event \<Rightarrow> queue \<Rightarrow> queue \<Rightarrow> bool" where
  inserted: "insert_job input q = Inr (r, q') \<Longrightarrow> queue_step Quiet q q'"
| claimed: "claimOnce options seen q = Inr (Some c, q') \<Longrightarrow> queue_step (Claimed (jbId (cjJob c))) q q'"
| renewed_lease: "heartbeat i worker leaseMs q = Inr (ok, q') \<Longrightarrow> queue_step Quiet q q'"
| succeeded: "issued c q \<Longrightarrow> succeed (jbId (cjJob c)) (cjAttempt c) q = Inr q' \<Longrightarrow> queue_step Quiet q q'"
| superseded: "issued c q \<Longrightarrow> supersede (jbId (cjJob c)) (Some (cjAttempt c)) detail q = Inr q' \<Longrightarrow> queue_step Quiet q q'"
| withdrawn: "supersede i None detail q = Inr q' \<Longrightarrow> queue_step Quiet q q'"
| failed: "issued (fiJob input) q \<Longrightarrow> fail input q = Inr (r, q') \<Longrightarrow> queue_step Quiet q q'"
| reclaimed: "reclaimExpired locked q = Inr (n, q') \<Longrightarrow> queue_step Quiet q q'"
| expired: "expireOverdue q = Inr (n, q') \<Longrightarrow> queue_step Quiet q q'"
| released: "issued c q \<Longrightarrow> release_claim (jbId (cjJob c)) (cjAttempt c) (cjWorker c) q = Inr q' \<Longrightarrow>
    queue_step (Refunded (jbId (cjJob c))) q q'"
| replayed: "replay i windowMs q = Inr (ok, q') \<Longrightarrow> queue_step (Renewed i) q q'"
| elsewhere: "set (quBusinesses q) \<subseteq> set bs \<Longrightarrow> set (quConnections q) \<subseteq> set cs \<Longrightarrow>
    queue_step Quiet q (q\<lparr>quNow := t, quBusinesses := bs, quConnections := cs\<rparr>)"

inductive queue_path :: "job_event list \<Rightarrow> queue \<Rightarrow> queue \<Rightarrow> bool" where
  here: "queue_path [] q q"
| further: "queue_path es q q1 \<Longrightarrow> queue_step e q1 q2 \<Longrightarrow> queue_path (es @ [e]) q q2"

inductive_cases queue_pathE: "queue_path es q q'"

section \<open>The shape of a step\<close>

text \<open>
  Every step but an insert rewrites some job rows and some attempt rows, and a claim adds one
  attempt row.
\<close>

definition rewritten :: "(job \<Rightarrow> bool) \<Rightarrow> (job \<Rightarrow> job) \<Rightarrow> (attempt \<Rightarrow> bool) \<Rightarrow> (attempt \<Rightarrow> attempt) \<Rightarrow> queue \<Rightarrow> queue \<Rightarrow> bool" where
  "rewritten p f p' g q q' \<longleftrightarrow>
     (\<exists>q1. update_jobs p f q = Inr q1 \<and> q' = update_attempts p' g q1)
     \<and> (\<forall>r. jbId (f r) = jbId r \<and> jbMaxAttempts (f r) = jbMaxAttempts r)
     \<and> (\<forall>a. atId (g a) = atId a \<and> atJob (g a) = atJob a \<and> atAttempt (g a) = atAttempt a \<and> atWorker (g a) = atWorker a)"

lemma update_attempts_none [simp]: "update_attempts (\<lambda>a. False) g q = q"
  by (simp add: update_attempts_def update_where_id)

lemmas job_defs = heartbeat_def succeed_def supersede_def reclaimExpired_def expireOverdue_def
  release_claim_def replay_def

lemma heartbeat_rewrites:
  assumes "heartbeat i w ms q = Inr (ok, q')"
  shows "rewritten (held_by i w) (\<lambda>r. r\<lparr>jbLease := Some (quNow q + ms)\<rparr>) (\<lambda>a. False) id q q'"
  using assms by (auto simp: rewritten_def heartbeat_def result_simps)

lemma succeed_rewrites:
  assumes "succeed i a q = Inr q'"
  shows "rewritten (\<lambda>r. jbId r = i) (\<lambda>r. (unclaimed r)\<lparr>jbStatus := JobSucceeded,
       jbFinishedAt := Some (quNow q), jbFailureKind := None, jbLastError := None\<rparr>) (\<lambda>r. atId r = a)
     (\<lambda>r. r\<lparr>atOutcome := Some AttemptSucceeded, atFinishedAt := Some (quNow q)\<rparr>) q q'"
  using assms by (auto simp: rewritten_def succeed_def result_simps)

lemma supersede_rewrites:
  assumes "supersede i a detail q = Inr q'"
  shows "rewritten (\<lambda>r. jbId r = i \<and> jbStatus r \<in> {JobReady, JobRunning})
     (\<lambda>r. (unclaimed r)\<lparr>jbStatus := JobCancelled, jbFinishedAt := Some (quNow q), jbLastError := Some detail\<rparr>)
     (\<lambda>r. Some (atId r) = a)
     (\<lambda>r. r\<lparr>atOutcome := Some AttemptSuperseded, atFinishedAt := Some (quNow q), atDetail := Some detail\<rparr>) q q'"
proof (cases a)
  case None
  with assms show ?thesis by (auto simp: rewritten_def supersede_def result_simps)
next
  case (Some n)
  with assms show ?thesis by (auto simp: rewritten_def supersede_def result_simps)
qed

lemma fail_rewrites:
  assumes "fail input q = Inr (r, q')"
  obtains f g where "rewritten (\<lambda>r. jbId r = jbId (cjJob (fiJob input))) f (\<lambda>a. atId a = cjAttempt (fiJob input)) g q q'"
    "\<And>r. jbStatus (f r) \<in> {JobReady, JobDead}" "\<And>r. jbAttempts (f r) = jbAttempts r"
proof (cases "failure_decision input")
  case (Retry runAt delay)
  let ?f = "\<lambda>r. (unclaimed r)\<lparr>jbStatus := JobReady, jbRunAt := runAt,
     jbFailureKind := Some (fiKind input), jbLastError := Some (fiDetail input)\<rparr>"
  let ?g = "\<lambda>r. r\<lparr>atOutcome := Some AttemptFailed, atFinishedAt := Some (quNow q), atFailureKind := Some (fiKind input),
     atDetail := Some (fiDetail input), atRetryAfter := fiRetryAfter input, atNextRunAt := Some runAt\<rparr>"
  from assms Retry show thesis
    by (intro that [of ?f ?g]) (auto simp: rewritten_def fail_def result_simps Let_def)
next
  case (DeadLetter reason)
  let ?f = "\<lambda>r. (unclaimed r)\<lparr>jbStatus := JobDead, jbFinishedAt := Some (quNow q),
     jbFailureKind := Some (fiKind input), jbLastError := Some (fiDetail input)\<rparr>"
  let ?g = "\<lambda>r. r\<lparr>atOutcome := Some AttemptFailed, atFinishedAt := Some (quNow q), atFailureKind := Some (fiKind input),
     atDetail := Some (fiDetail input @ '' (dead-lettered: '' @ reason_text reason @ '')''), atRetryAfter := fiRetryAfter input\<rparr>"
  from assms DeadLetter show thesis
    by (intro that [of ?f ?g]) (auto simp: rewritten_def fail_def result_simps Let_def)
qed

lemma reclaim_rewrites:
  assumes "reclaimExpired locked q = Inr (n, q')"
  shows "rewritten (lost_claim locked (quNow q)) (reopened (quNow q))
     (\<lambda>a. atJob a \<in> jbId ` {r \<in> set (quJobs q). lost_claim locked (quNow q) r} \<and> atOutcome a = None)
     (\<lambda>a. a\<lparr>atOutcome := Some AttemptReclaimed, atFinishedAt := Some (quNow q)\<rparr>) q q'"
  using assms by (auto simp: rewritten_def reclaimExpired_def result_simps Let_def reopened_def image_def)

lemma expire_rewrites:
  assumes "expireOverdue q = Inr (n, q')"
  shows "rewritten (overdue (quNow q)) (\<lambda>r. r\<lparr>jbStatus := JobDead, jbFinishedAt := Some (quNow q),
       jbFailureKind := Some ''window_elapsed'',
       jbLastError := Some ''the 24-hour window elapsed before this job could run''\<rparr>) (\<lambda>a. False) id q q'"
  using assms by (auto simp: rewritten_def expireOverdue_def result_simps)

lemma release_rewrites:
  assumes "release_claim i a w q = Inr q'"
  shows "rewritten (held_by i w) (\<lambda>r. (unclaimed r)\<lparr>jbStatus := JobReady, jbAttempts := max 0 (jbAttempts r - 1)\<rparr>)
     (\<lambda>r. atId r = a) (\<lambda>a. a\<lparr>atOutcome := Some AttemptReclaimed, atFinishedAt := Some (quNow q),
        atDetail := Some ''released on shutdown''\<rparr>) q q'"
  using assms by (auto simp: rewritten_def release_claim_def result_simps)

lemma replay_rewrites:
  assumes "replay i ms q = Inr (ok, q')"
  shows "rewritten (\<lambda>r. jbId r = i \<and> jbStatus r = JobDead) (\<lambda>r. r\<lparr>jbStatus := JobReady, jbAttempts := 0,
       jbRunAt := quNow q, jbExpiresAt := quNow q + given_or DEAD_LETTER_WINDOW_MS ms, jbFinishedAt := None\<rparr>)
     (\<lambda>a. False) id q q'"
  using assms by (auto simp: rewritten_def replay_def result_simps)

section \<open>The invariant\<close>

text \<open>The claim a running job is running under is still on record and not closed.\<close>

definition open_claim :: "queue \<Rightarrow> job \<Rightarrow> attempt \<Rightarrow> bool" where
  "open_claim q j a \<longleftrightarrow> a \<in> set (quAttempts q) \<and> atJob a = jbId j \<and> atWorker a = jbClaimedBy j \<and> atOutcome a = None"

definition rows_good :: "queue \<Rightarrow> bool" where
  "rows_good q \<longleftrightarrow> distinct (map jbId (quJobs q)) \<and> (\<forall>j \<in> set (quJobs q). jbId j < quNextUuid q \<and> job_check j = Inr ())
     \<and> unique_on running_key (quJobs q) \<and> unique_on pending_key (quJobs q)"

definition history_good :: "queue \<Rightarrow> bool" where
  "history_good q \<longleftrightarrow> distinct (map atId (quAttempts q)) \<and> (\<forall>a \<in> set (quAttempts q). atId a < quNextUuid q)
     \<and> distinct (map (\<lambda>a. (atJob a, atAttempt a)) (quAttempts q))"

definition claims_good :: "queue \<Rightarrow> bool" where
  "claims_good q \<longleftrightarrow> (\<forall>j \<in> set (quJobs q). jbStatus j = JobRunning \<longrightarrow> (\<exists>a. open_claim q j a))"

definition queue_good :: "queue \<Rightarrow> bool" where
  "queue_good q \<longleftrightarrow> rows_good q \<and> history_good q \<and> claims_good q"

lemma updated_rows_good:
  assumes "update_jobs p f q = Inr q1" "rows_good q" "\<And>r. jbId (f r) = jbId r"
  shows "rows_good q1"
  using assms by (auto simp: rows_good_def update_jobs_Inr set_update_where map_update_where)

lemma rewritten_rows:
  assumes "rewritten p f p' g q q'"
  shows "quJobs q' = update_where p f (quJobs q)" "quAttempts q' = update_where p' g (quAttempts q)"
    "quNextUuid q' = quNextUuid q"
  using assms by (auto simp: rewritten_def update_jobs_Inr)

lemma rewritten_rows_good:
  assumes "rewritten p f p' g q q'" "rows_good q"
  shows "rows_good q'"
proof -
  from assms(1) obtain q1 where u: "update_jobs p f q = Inr q1" and "q' = update_attempts p' g q1"
    and "\<And>r. jbId (f r) = jbId r" by (auto simp: rewritten_def)
  with updated_rows_good [OF u assms(2)] show ?thesis by (simp add: rows_good_def)
qed

lemma rewritten_history_good:
  assumes "rewritten p f p' g q q'" "history_good q"
  shows "history_good q'"
proof -
  have g: "\<And>a. atId (g a) = atId a" "\<And>a. atJob (g a) = atJob a" "\<And>a. atAttempt (g a) = atAttempt a"
    using assms(1) by (simp_all add: rewritten_def)
  show ?thesis using assms(2)
    by (auto simp: history_good_def rewritten_rows [OF assms(1)] map_update_where g set_update_where)
qed

text \<open>
  A rewrite keeps the claims when every job it leaves running was running under the same holder
  and keeps an attempt that the rewrite does not touch.
\<close>

lemma rewritten_claims_good:
  assumes "rewritten p f p' g q q'" "claims_good q"
    and stay: "\<And>j. j \<in> set (quJobs q) \<Longrightarrow> p j \<Longrightarrow> jbStatus (f j) = JobRunning \<Longrightarrow>
      jbStatus j = JobRunning \<and> jbClaimedBy (f j) = jbClaimedBy j"
    and spare: "\<And>j a. j \<in> set (quJobs q) \<Longrightarrow> jbStatus (if p j then f j else j) = JobRunning \<Longrightarrow> open_claim q j a \<Longrightarrow> \<not> p' a"
  shows "claims_good q'"
  unfolding claims_good_def
proof (intro ballI impI)
  fix j' assume "j' \<in> set (quJobs q')" and run': "jbStatus j' = JobRunning"
  then obtain j where j: "j \<in> set (quJobs q)" and j': "j' = (if p j then f j else j)"
    by (auto simp: rewritten_rows [OF assms(1)] set_update_where)
  have same: "jbStatus j = JobRunning" "jbClaimedBy j' = jbClaimedBy j" "jbId j' = jbId j"
    using stay [OF j] run' j' assms(1) by (auto simp: rewritten_def split: if_splits)
  from assms(2) j same(1) obtain a where a: "open_claim q j a" by (auto simp: claims_good_def)
  with spare [OF j] run' j' have "\<not> p' a" by simp
  with a have "open_claim q' j' a"
    by (force simp: open_claim_def same rewritten_rows [OF assms(1)] set_update_where)
  then show "\<exists>a. open_claim q' j' a" ..
qed

lemma rewritten_good:
  assumes "rewritten p f p' g q q'" "queue_good q"
    and "\<And>j. j \<in> set (quJobs q) \<Longrightarrow> p j \<Longrightarrow> jbStatus (f j) = JobRunning \<Longrightarrow>
      jbStatus j = JobRunning \<and> jbClaimedBy (f j) = jbClaimedBy j"
    and "\<And>j a. j \<in> set (quJobs q) \<Longrightarrow> jbStatus (if p j then f j else j) = JobRunning \<Longrightarrow> open_claim q j a \<Longrightarrow> \<not> p' a"
  shows "queue_good q'"
proof -
  have "rows_good q'" using rewritten_rows_good [OF assms(1)] assms(2) by (simp add: queue_good_def)
  moreover have "history_good q'" using rewritten_history_good [OF assms(1)] assms(2) by (simp add: queue_good_def)
  moreover have "claims_good q'"
    by (rule rewritten_claims_good [OF assms(1)]) (use assms(2-4) in \<open>auto simp: queue_good_def\<close>)
  ultimately show ?thesis by (simp add: queue_good_def)
qed

lemma inserted_good:
  assumes "insert_job input q = Inr (r, q')" "queue_good q"
  shows "queue_good q'"
proof (cases r)
  case None
  with assms show ?thesis by (auto simp: insert_job_def result_simps Let_def split: if_splits)
next
  case (Some j)
  with assms(1) have q': "q' = q\<lparr>quNextUuid := Suc (quNextUuid q), quJobs := quJobs q @ [j]\<rparr>"
    and check: "job_check j = Inr ()" and j: "j = new_job input (quNow q) (quNextUuid q)"
    and fresh: "pending_key j = None \<or> \<not> list_ex (\<lambda>r. pending_key r = pending_key j) (quJobs q)"
    by (auto simp: insert_job_def result_simps Let_def split: if_splits)
  have row: "jbId j = quNextUuid q" "jbStatus j = JobReady" by (simp_all add: j new_job_def Let_def)
  then have "running_key j = None" by (simp add: running_key_def)
  with assms(2) row check fresh have "rows_good q'"
    by (auto simp: queue_good_def rows_good_def q' unique_on_append list_ex_iff)
  moreover have "history_good q'" using assms(2) by (auto simp: queue_good_def history_good_def q')
  moreover have "claims_good q'" using assms(2) row(2)
    by (auto simp: queue_good_def claims_good_def open_claim_def q')
  ultimately show ?thesis by (simp add: queue_good_def)
qed

lemma opened_history_good:
  assumes "history_good q"
  shows "history_good (snd (open_attempt i w q))"
proof -
  have "atAttempt a < fold max (map atAttempt (attempts_of i q)) 0 + 1" if "a \<in> set (quAttempts q)" "atJob a = i" for a
    using fold_max_upper [of "atAttempt a" "map atAttempt (attempts_of i q)" 0] that by (simp add: attempts_of_def)
  then show ?thesis using assms
    by (fastforce simp: history_good_def open_attempt_def Let_def)
qed

lemma opened_rows_good: "rows_good q \<Longrightarrow> rows_good (snd (open_attempt i w q))"
  by (auto simp: rows_good_def)

text \<open>A claim that answered: the row is taken as it stood, and one attempt row is opened.\<close>

lemma claimOnce_some:
  assumes "claimOnce options seen q = Inr (Some c, q')"
  obtains j q1 where "j \<in> set (quJobs q)" "claimable options seen (quNow q) j"
    "\<forall>k \<in> set (quJobs q). claimable options seen (quNow q) k \<longrightarrow> more_urgent j k"
    "update_jobs (\<lambda>r. jbId r = jbId j) (take_claim options (quNow q)) q = Inr q1"
    "q' = snd (open_attempt (jbId j) (coWorker options) q1)"
    "cjJob c = take_claim options (quNow q) j" "cjAttempt c = quNextUuid q" "cjWorker c = coWorker options"
  by (rule claimOnce_cases [OF assms]) (use that in auto)

lemma take_claim_simps [simp]:
  "jbId (take_claim options now j) = jbId j" "jbStatus (take_claim options now j) = JobRunning"
  "jbClaimedBy (take_claim options now j) = Some (coWorker options)"
  "jbAttempts (take_claim options now j) = jbAttempts j + 1"
  "jbMaxAttempts (take_claim options now j) = jbMaxAttempts j"
  by (simp_all add: take_claim_def)

lemma claimed_claims_good:
  assumes "claims_good q" "update_jobs (\<lambda>r. jbId r = i) (take_claim options (quNow q)) q = Inr q1"
  shows "claims_good (snd (open_attempt i (coWorker options) q1))"
  unfolding claims_good_def
proof (intro ballI impI)
  fix j' assume j': "j' \<in> set (quJobs (snd (open_attempt i (coWorker options) q1)))" and run: "jbStatus j' = JobRunning"
  from assms(2) have q1: "q1 = q\<lparr>quJobs := update_where (\<lambda>r. jbId r = i) (take_claim options (quNow q)) (quJobs q)\<rparr>"
    by (simp add: update_jobs_Inr)
  from j' obtain j where j: "j \<in> set (quJobs q)" and eq: "j' = (if jbId j = i then take_claim options (quNow q) j else j)"
    by (auto simp: q1 set_update_where)
  show "\<exists>a. open_claim (snd (open_attempt i (coWorker options) q1)) j' a"
  proof (cases "jbId j = i")
    case True
    let ?q = "snd (open_attempt i (coWorker options) q1)"
    have "open_claim ?q j' (last (quAttempts ?q))"
      using True eq by (simp add: open_claim_def open_attempt_def Let_def)
    then show ?thesis ..
  next
    case False
    with eq j run assms(1) obtain a where "open_claim q j a" by (auto simp: claims_good_def)
    with False eq have "open_claim (snd (open_attempt i (coWorker options) q1)) j' a"
      by (simp add: open_claim_def open_attempt_def Let_def q1)
    then show ?thesis ..
  qed
qed

lemma claimed_good:
  assumes "claimOnce options seen q = Inr (Some c, q')" "queue_good q"
  shows "queue_good q'"
proof -
  from assms(1) obtain j :: job and q1 where u: "update_jobs (\<lambda>r. jbId r = jbId j) (take_claim options (quNow q)) q = Inr q1"
    and q': "q' = snd (open_attempt (jbId j) (coWorker options) q1)" by (rule claimOnce_some) (rule that)
  have "rows_good q1" using updated_rows_good [OF u] assms(2) by (simp add: queue_good_def)
  moreover have "history_good q1" using u assms(2) by (auto simp: queue_good_def history_good_def update_jobs_Inr)
  moreover have "claims_good q'" using claimed_claims_good [OF _ u] assms(2) q' by (simp add: queue_good_def)
  ultimately show ?thesis by (simp add: queue_good_def q' opened_rows_good opened_history_good)
qed

text \<open>
  Ending a claim with one that was issued: either the job does not stay running, or its claim is
  a different one.
\<close>

lemma issued_closes_own:
  assumes "issued c q" "history_good q" "open_claim q j a" "atId a = cjAttempt c"
  shows "jbId j = jbId (cjJob c)" "jbClaimedBy j = Some (cjWorker c)"
proof -
  from assms(1) obtain b where b: "b \<in> set (quAttempts q)" "atId b = cjAttempt c" "atJob b = jbId (cjJob c)"
    "atWorker b = Some (cjWorker c)" by (auto simp: issued_def list_ex_iff)
  with assms(2-4) have "a = b" by (auto simp: history_good_def open_claim_def dest: same_row)
  with b assms(3) show "jbId j = jbId (cjJob c)" "jbClaimedBy j = Some (cjWorker c)" by (auto simp: open_claim_def)
qed

text \<open>No job but the one the claim is for can be running on the attempt it closes.\<close>

lemma ended_good:
  assumes "rewritten (\<lambda>r. jbId r = jbId (cjJob c) \<and> p r) f (\<lambda>a. atId a = cjAttempt c) g q q'"
    and "queue_good q" "issued c q" "\<And>r. p r \<Longrightarrow> jbStatus (f r) \<noteq> JobRunning"
    and "\<And>r. jbStatus r = JobRunning \<Longrightarrow> jbClaimedBy r = Some (cjWorker c) \<Longrightarrow> p r"
  shows "queue_good q'"
proof (rule rewritten_good [OF assms(1,2)])
  fix j assume "j \<in> set (quJobs q)" "jbId j = jbId (cjJob c) \<and> p j" "jbStatus (f j) = JobRunning"
  with assms(4) show "jbStatus j = JobRunning \<and> jbClaimedBy (f j) = jbClaimedBy j" by blast
next
  fix j a assume run: "jbStatus (if jbId j = jbId (cjJob c) \<and> p j then f j else j) = JobRunning"
    and a: "open_claim q j a"
  have "\<not> (jbId j = jbId (cjJob c) \<and> p j)" using run assms(4) by (auto split: if_splits)
  with run assms(5) have "jbId j = jbId (cjJob c) \<Longrightarrow> jbClaimedBy j \<noteq> Some (cjWorker c)" by auto
  with issued_closes_own [OF assms(3) _ a] assms(2) show "atId a \<noteq> cjAttempt c"
    by (auto simp: queue_good_def)
qed

lemmas finished_good = ended_good [where p = "\<lambda>r. True", simplified]

lemma reclaimed_good:
  assumes "reclaimExpired locked q = Inr (n, q')" "queue_good q"
  shows "queue_good q'"
proof (rule rewritten_good [OF reclaim_rewrites [OF assms(1)] assms(2)])
  fix j assume "jbStatus (reopened (quNow q) j) = JobRunning"
  then show "jbStatus j = JobRunning \<and> jbClaimedBy (reopened (quNow q) j) = jbClaimedBy j"
    by (simp add: reopened_def Let_def split: if_splits)
next
  fix j a
  assume j: "j \<in> set (quJobs q)" and a: "open_claim q j a"
    and run: "jbStatus (if lost_claim locked (quNow q) j then reopened (quNow q) j else j) = JobRunning"
  have "\<not> lost_claim locked (quNow q) j"
    using run by (auto simp: reopened_def Let_def split: if_splits)
  then have "jbId j \<notin> jbId ` {r \<in> set (quJobs q). lost_claim locked (quNow q) r}"
    using j assms(2) by (auto simp: queue_good_def rows_good_def dest: same_row)
  with a show "\<not> (atJob a \<in> jbId ` {r \<in> set (quJobs q). lost_claim locked (quNow q) r} \<and> atOutcome a = None)"
    by (simp add: open_claim_def)
qed

lemma step_good: "queue_step e q q' \<Longrightarrow> queue_good q \<Longrightarrow> queue_good q'"
proof (induction rule: queue_step.induct)
  case (inserted input q r q')
  then show ?case by (rule inserted_good)
next
  case (claimed options seen q c q')
  then show ?case by (rule claimed_good)
next
  case (renewed_lease i worker leaseMs q ok q')
  from rewritten_good [OF heartbeat_rewrites [OF this(1)] this(2)] show ?case by (simp add: held_by_def)
next
  case (succeeded c q q')
  show ?case by (rule finished_good [OF succeed_rewrites [OF succeeded(2)] succeeded(3,1)]) simp
next
  case (superseded c q detail q')
  show ?case
    by (rule ended_good [OF supersede_rewrites [OF superseded(2), unfolded option.inject] superseded(3,1)]) simp_all
next
  case (withdrawn i detail q q')
  from rewritten_good [OF supersede_rewrites [OF this(1)] this(2)] show ?case by simp
next
  case (failed input q r q')
  from failed(2) obtain f g where rw: "rewritten (\<lambda>r. jbId r = jbId (cjJob (fiJob input))) f
      (\<lambda>a. atId a = cjAttempt (fiJob input)) g q q'" and st: "\<And>r. jbStatus (f r) \<in> {JobReady, JobDead}"
    by (rule fail_rewrites) blast
  have "jbStatus (f r) \<noteq> JobRunning" for r using st [of r] by auto
  with rw show ?case by (rule finished_good [OF _ failed(3,1)])
next
  case (reclaimed locked q n q')
  then show ?case by (rule reclaimed_good)
next
  case (expired q n q')
  from rewritten_good [OF expire_rewrites [OF this(1)] this(2)] show ?case by simp
next
  case (released c q q')
  show ?case
    by (rule ended_good [OF release_rewrites [OF released(2), unfolded held_by_def [abs_def]] released(3,1)]) simp_all
next
  case (replayed i ms q ok q')
  from rewritten_good [OF replay_rewrites [OF this(1)] this(2)] show ?case by simp
next
  case (elsewhere q bs cs t)
  then show ?case
    by (simp add: queue_good_def rows_good_def history_good_def claims_good_def open_claim_def)
qed

lemma path_good: "queue_path es q q' \<Longrightarrow> queue_good q \<Longrightarrow> queue_good q'"
  by (induction rule: queue_path.induct) (auto intro: step_good)

section \<open>The retry budget\<close>

lemma rewritten_row:
  assumes "rewritten p f p' g q q'" "j \<in> set (quJobs q)"
  shows "(if p j then f j else j) \<in> set (quJobs q')"
  using assms(2) by (simp add: rewritten_rows [OF assms(1)] set_update_where)

text \<open>Followed over a step, a job keeps its row, its ceiling, and counts its claims.\<close>

definition spent :: "uuid \<Rightarrow> int \<Rightarrow> int \<Rightarrow> queue \<Rightarrow> bool" where
  "spent i limit n q \<longleftrightarrow> (\<exists>j \<in> set (quJobs q). jbId j = i \<and> jbMaxAttempts j = limit \<and> jbAttempts j = n)"

lemma rewritten_spent:
  assumes "rewritten p f p' g q q'" "spent i limit n q"
    and "\<And>j. j \<in> set (quJobs q) \<Longrightarrow> jbId j = i \<Longrightarrow> p j \<Longrightarrow> jbAttempts (f j) = jbAttempts j"
  shows "spent i limit n q'"
proof -
  from assms(2) obtain j where j: "j \<in> set (quJobs q)" "jbId j = i" "jbMaxAttempts j = limit" "jbAttempts j = n"
    by (auto simp: spent_def)
  then have "jbId (if p j then f j else j) = i" "jbMaxAttempts (if p j then f j else j) = limit"
    "jbAttempts (if p j then f j else j) = n"
    using assms(1,3) by (auto simp: rewritten_def)
  with rewritten_row [OF assms(1) j(1)] show ?thesis unfolding spent_def by blast
qed

lemma claimed_spent:
  assumes "claimOnce options seen q = Inr (Some c, q')" "spent i limit n q" "queue_good q"
  shows "spent i limit (n + (if jbId (cjJob c) = i then 1 else 0)) q'"
proof -
  from assms(1) obtain j :: job and q1 where j: "cjJob c = take_claim options (quNow q) j"
    and u: "update_jobs (\<lambda>r. jbId r = jbId j) (take_claim options (quNow q)) q = Inr q1"
    and q': "q' = snd (open_attempt (jbId j) (coWorker options) q1)" by (rule claimOnce_some) (rule that)
  have rows: "quJobs q' = update_where (\<lambda>r. jbId r = jbId j) (take_claim options (quNow q)) (quJobs q)"
    using u by (auto simp: q' update_jobs_Inr)
  from assms(2) obtain k where k: "k \<in> set (quJobs q)" "jbId k = i" "jbMaxAttempts k = limit" "jbAttempts k = n"
    by (auto simp: spent_def)
  then have "(if jbId k = jbId j then take_claim options (quNow q) k else k) \<in> set (quJobs q')"
    by (simp add: rows set_update_where)
  with k show ?thesis by (auto simp: spent_def j split: if_splits intro: bexI [rotated])
qed

lemma step_spent:
  assumes "queue_step e q q'" "queue_good q" "spent i limit n q" "e \<noteq> Refunded i" "e \<noteq> Renewed i"
  shows "spent i limit (n + (if e = Claimed i then 1 else 0)) q'"
  using assms
proof (induction rule: queue_step.induct)
  case (inserted input q r q')
  then show ?case by (auto simp: insert_job_def result_simps Let_def spent_def split: if_splits)
next
  case (claimed options seen q c q')
  then show ?case using claimed_spent by fastforce
next
  case (renewed_lease i' worker leaseMs q ok q')
  then show ?case using rewritten_spent [OF heartbeat_rewrites [OF renewed_lease(1)]] by simp
next
  case (succeeded c q q')
  then show ?case using rewritten_spent [OF succeed_rewrites [OF succeeded(2)]] by simp
next
  case (superseded c q detail q')
  then show ?case using rewritten_spent [OF supersede_rewrites [OF superseded(2)]] by simp
next
  case (withdrawn i' detail q q')
  then show ?case using rewritten_spent [OF supersede_rewrites [OF withdrawn(1)]] by simp
next
  case (failed input q r q')
  from failed(2) obtain f g where rw: "rewritten (\<lambda>r. jbId r = jbId (cjJob (fiJob input))) f
      (\<lambda>a. atId a = cjAttempt (fiJob input)) g q q'" and "\<And>r. jbAttempts (f r) = jbAttempts r"
    by (rule fail_rewrites) blast
  with failed rewritten_spent [OF rw] show ?case by simp
next
  case (reclaimed locked q n' q')
  then show ?case using rewritten_spent [OF reclaim_rewrites [OF reclaimed(1)]] by (simp add: reopened_def Let_def)
next
  case (expired q n' q')
  then show ?case using rewritten_spent [OF expire_rewrites [OF expired(1)]] by simp
next
  case (released c q q')
  then show ?case using rewritten_spent [OF release_rewrites [OF released(2)]] by (auto simp: held_by_def)
next
  case (replayed i' ms q ok q')
  then show ?case using rewritten_spent [OF replay_rewrites [OF replayed(1)]] by auto
next
  case (elsewhere q bs cs t)
  then show ?case by (simp add: spent_def)
qed

lemma path_spent:
  assumes "queue_path es q q'" "queue_good q" "spent i limit n q" "Refunded i \<notin> set es" "Renewed i \<notin> set es"
  shows "spent i limit (n + int (count_list es (Claimed i))) q'"
  using assms
proof (induction rule: queue_path.induct)
  case (further es q q1 e q2)
  then have "spent i limit (n + int (count_list es (Claimed i))) q1" "queue_good q1"
    by (auto intro: path_good)
  moreover have "e \<noteq> Refunded i" "e \<noteq> Renewed i" using further.prems(3,4) by auto
  ultimately have "spent i limit (n + int (count_list es (Claimed i)) + (if e = Claimed i then 1 else 0)) q2"
    by (intro step_spent [OF further(2)])
  then show ?case by (simp add: ac_simps split: if_splits)
qed simp

end
