(* ===== verification/Runner.thy ===== *)
theory Runner
  imports Jobs
begin

text \<open>
  \<^verbatim>\<open>packages/jobs/src/runner.ts\<close>: one pass of the worker loop. A handler answers a result or throws;
  while it runs the queue goes its own way, and so do the renewals of the lease on a timer, which
  is the argument \<open>meanwhile\<close>. The clock of the process and its random draw are arguments of the
  failure path, and \<open>message\<close> is what the driver says of a database error.
\<close>

section \<open>Running one job\<close>

datatype job_result =
    Finished
  | Superseded string
  | Failed string string bool "int option"

type_synonym job_handler = "claimed_job \<Rightarrow> string + job_result"

record runner_options =
  roWorker :: uuid
  roHandlers :: "(string \<times> job_handler) list"
  roLeaseMs :: "int option"
  roKinds :: "string list option"

definition DEFAULT_LEASE_MS :: int where
  "DEFAULT_LEASE_MS = 60000"

definition claim_options_of :: "runner_options \<Rightarrow> claim_options" where
  "claim_options_of options = \<lparr>coWorker = roWorker options,
     coLeaseMs = given_or DEFAULT_LEASE_MS (roLeaseMs options),
     coKinds = given_or (map fst (roHandlers options)) (roKinds options), coMaxPriority = None\<rparr>"

text \<open>The failure of a job, at the process's own time.\<close>

record process_clock =
  pcNow :: instant
  pcRandom :: int

definition failure_of :: "claimed_job \<Rightarrow> process_clock \<Rightarrow> string \<Rightarrow> string \<Rightarrow> bool \<Rightarrow> int option \<Rightarrow> failure_input" where
  "failure_of c clock kind detail retryable after = \<lparr>fiJob = c, fiKind = kind, fiDetail = detail,
     fiRetryable = retryable, fiRetryAfter = after, fiNow = pcNow clock, fiRandom = pcRandom clock\<rparr>"

definition settle :: "claimed_job \<Rightarrow> job_result \<Rightarrow> process_clock \<Rightarrow> queue \<Rightarrow> exn + queue" where
  "settle c result clock q = (case result of
     Finished \<Rightarrow> succeed (jbId (cjJob c)) (cjAttempt c) q
   | Superseded detail \<Rightarrow> supersede (jbId (cjJob c)) (Some (cjAttempt c)) detail q
   | Failed kind detail retryable after \<Rightarrow>
       bindR (fail (failure_of c clock kind detail retryable after) q) (\<lambda>(outcome, q1). Inr q1))"

definition threw :: "claimed_job \<Rightarrow> string \<Rightarrow> process_clock \<Rightarrow> queue \<Rightarrow> exn + queue" where
  "threw c what clock q =
     bindR (fail (failure_of c clock ''handler_threw'' what True None) q) (\<lambda>(outcome, q1). Inr q1)"

definition execute ::
    "(exn \<Rightarrow> string) \<Rightarrow> runner_options \<Rightarrow> claimed_job \<Rightarrow> (queue \<Rightarrow> queue) \<Rightarrow> process_clock \<Rightarrow> queue \<Rightarrow> exn + queue" where
  "execute message options c meanwhile clock q =
     (case map_of (roHandlers options) (jbKind (cjJob c)) of
        None \<Rightarrow> release_claim (jbId (cjJob c)) (cjAttempt c) (roWorker options) q
      | Some handler \<Rightarrow>
          let q1 = meanwhile q
          in case handler c of
               Inl what \<Rightarrow> threw c what clock q1
             | Inr result \<Rightarrow>
                 (case settle c result clock q1 of
                    Inr q2 \<Rightarrow> Inr q2
                  | Inl e \<Rightarrow> threw c (message e) clock q1))"

definition runOnce ::
    "(exn \<Rightarrow> string) \<Rightarrow> runner_options \<Rightarrow> (nat \<Rightarrow> claim_view) \<Rightarrow> (queue \<Rightarrow> queue) \<Rightarrow> process_clock \<Rightarrow> queue
     \<Rightarrow> exn + bool \<times> queue" where
  "runOnce message options seen meanwhile clock q =
     bindR (claim (claim_options_of options) seen q) (\<lambda>(c, q1).
     case c of
       None \<Rightarrow> Inr (False, q1)
     | Some job \<Rightarrow> bindR (execute message options job meanwhile clock q1) (\<lambda>q2. Inr (True, q2)))"

section \<open>What ends a claim is a path of the queue\<close>

lemma one_step: "queue_step e q q' \<Longrightarrow> queue_path [e] q q'"
  using queue_path.further [OF queue_path.here] by simp

lemma path_append: "queue_path es' q1 q2 \<Longrightarrow> queue_path es q q1 \<Longrightarrow> queue_path (es @ es') q q2"
  by (induction rule: queue_path.induct) (auto simp flip: append_assoc intro: queue_path.intros)

lemma failure_of_job [simp]: "fiJob (failure_of c clock kind detail retryable after) = c"
  by (simp add: failure_of_def)

lemma threw_step: "threw c what clock q = Inr q' \<Longrightarrow> issued c q \<Longrightarrow> queue_step Quiet q q'"
  by (auto simp: threw_def result_simps intro: queue_step.failed [rotated])

lemma settle_step: "settle c result clock q = Inr q' \<Longrightarrow> issued c q \<Longrightarrow> queue_step Quiet q q'"
  by (cases result)
    (auto simp: settle_def result_simps intro: queue_step.succeeded queue_step.superseded queue_step.failed [rotated])

lemma issued_attempts: "set (quAttempts q) \<subseteq> set (quAttempts q') \<Longrightarrow> issued c q \<Longrightarrow> issued c q'"
  by (auto simp: issued_def list_ex_iff)

lemma rewritten_issued:
  assumes "rewritten p f p' g q q'" "issued c q"
  shows "issued c q'"
proof -
  from assms(2) obtain a where a: "a \<in> set (quAttempts q)" "atId a = cjAttempt c" "atJob a = jbId (cjJob c)"
    "atWorker a = Some (cjWorker c)" by (auto simp: issued_def list_ex_iff)
  have "(if p' a then g a else a) \<in> set (quAttempts q')"
    using a(1) by (simp add: rewritten_rows [OF assms(1)] set_update_where)
  moreover have "atId (g a) = atId a" "atJob (g a) = atJob a" "atWorker (g a) = atWorker a"
    using assms(1) by (simp_all add: rewritten_def)
  ultimately show ?thesis using a(2-4) by (auto simp: issued_def list_ex_iff split: if_splits)
qed

lemma claimed_issued:
  assumes "claimOnce options seen q = Inr (Some c, q')"
  shows "issued c q'" "set (quAttempts q) \<subseteq> set (quAttempts q')" "cjWorker c = coWorker options"
proof -
  from assms obtain j :: job and q1 where u: "update_jobs (\<lambda>r. jbId r = jbId j) (take_claim options (quNow q)) q = Inr q1"
    and q': "q' = snd (open_attempt (jbId j) (coWorker options) q1)" "cjJob c = take_claim options (quNow q) j"
      "cjAttempt c = quNextUuid q" "cjWorker c = coWorker options" by (rule claimOnce_some) (rule that)
  from u have "quAttempts q1 = quAttempts q" "quNextUuid q1 = quNextUuid q" by (auto simp: update_jobs_Inr)
  with q' show "issued c q'" "set (quAttempts q) \<subseteq> set (quAttempts q')" "cjWorker c = coWorker options"
    by (auto simp: issued_def open_attempt_def Let_def)
qed

lemma step_issued:
  assumes "queue_step e q q'" "issued c q"
  shows "issued c q'"
  using assms
proof (induction rule: queue_step.induct)
  case (inserted input q r q')
  then show ?case by (auto simp: insert_job_def result_simps Let_def issued_def split: if_splits)
next
  case (claimed options seen q c' q')
  then show ?case by (blast intro: issued_attempts [OF claimed_issued(2)])
next
  case (failed input q r q')
  from failed(2) show ?case by (rule fail_rewrites) (use rewritten_issued failed(3) in blast)
next
  case (elsewhere q bs cs t)
  then show ?case by (simp add: issued_def)
qed (blast intro: rewritten_issued heartbeat_rewrites succeed_rewrites supersede_rewrites reclaim_rewrites
       expire_rewrites release_rewrites replay_rewrites)+

lemma path_issued: "queue_path es q q' \<Longrightarrow> issued c q \<Longrightarrow> issued c q'"
  by (induction rule: queue_path.induct) (auto intro: step_issued)

end
