(* ===== verification/Work.thy ===== *)
theory Work
  imports Runner
begin

text \<open>What the job queue and the runner promise, over every interleaving of their statements.\<close>

section \<open>A queue to look at\<close>

definition empty_queue :: "instant \<Rightarrow> uuid list \<Rightarrow> (uuid \<times> uuid) list \<Rightarrow> queue" where
  "empty_queue now bs cs = \<lparr>quNow = now, quNextUuid = 500, quBusinesses = bs, quConnections = cs,
     quJobs = [], quAttempts = []\<rparr>"

definition ingest :: enqueue_input where
  "ingest = \<lparr>eqKind = ''ingest_order'', eqBusiness = Some 1, eqConnection = Some 2,
     eqPriority = Some priority_orderIngestion, eqSerialization = Some ''order:2:7'',
     eqDedupe = Some ''order:2:7'', eqPayload = None, eqRunAt = None, eqMaxAttempts = None, eqWindow = None\<rparr>"

definition taking :: "uuid \<Rightarrow> claim_options" where
  "taking worker = \<lparr>coWorker = worker, coLeaseMs = 60000, coKinds = [''ingest_order''], coMaxPriority = None\<rparr>"

definition view_of :: "queue \<Rightarrow> claim_view" where
  "view_of q = \<lparr>cvJobs = quJobs q, cvLocked = []\<rparr>"

definition nobody :: claimed_job where
  "nobody = \<lparr>cjJob = new_job ingest 0 0, cjAttempt = 0, cjWorker = 0\<rparr>"

definition inserting :: "queue \<Rightarrow> queue" where
  "inserting q = snd (projr (insert_job ingest q))"

definition taken :: "uuid \<Rightarrow> queue \<Rightarrow> claimed_job" where
  "taken worker q = (case claimOnce (taking worker) (view_of q) q of Inr (Some c, q') \<Rightarrow> c | _ \<Rightarrow> nobody)"

definition after_taking :: "uuid \<Rightarrow> queue \<Rightarrow> queue" where
  "after_taking worker q = snd (projr (claimOnce (taking worker) (view_of q) q))"

definition waiting :: queue where
  "waiting = inserting (empty_queue 0 [1] [(1, 2)])"

definition worked :: queue where
  "worked = after_taking 101 waiting"

text \<open>The first worker falls silent and the second takes the job.\<close>

definition left_behind :: queue where
  "left_behind = snd (projr (reclaimExpired [] (worked\<lparr>quNow := 70000\<rparr>)))"

definition passed_on :: queue where
  "passed_on = after_taking 102 left_behind"

text \<open>Another wake-up for the same order comes while the first is worked on.\<close>

definition contested :: queue where
  "contested = (inserting worked)\<lparr>quNow := 70000\<rparr>"

lemma inserting_step: "\<not> isl (insert_job ingest q) \<Longrightarrow> queue_step Quiet q (inserting q)"
  unfolding inserting_def by (rule queue_step.inserted [where r = "fst (projr (insert_job ingest q))"]) simp

lemma taking_step:
  assumes "case claimOnce (taking worker) (view_of q) q of Inr (Some c, q') \<Rightarrow> True | _ \<Rightarrow> False"
  shows "queue_step (Claimed (jbId (cjJob (taken worker q)))) q (after_taking worker q)"
    "claimOnce (taking worker) (view_of q) q = Inr (Some (taken worker q), after_taking worker q)"
proof -
  show c: "claimOnce (taking worker) (view_of q) q = Inr (Some (taken worker q), after_taking worker q)"
    using assms by (auto simp: taken_def after_taking_def split: sum.splits option.splits)
  then show "queue_step (Claimed (jbId (cjJob (taken worker q)))) q (after_taking worker q)"
    by (rule queue_step.claimed)
qed

lemma passing_step: "queue_step Quiet q (q\<lparr>quNow := t\<rparr>)"
  using queue_step.elsewhere [of q "quBusinesses q" "quConnections q" t] by simp

lemma empty_good: "queue_good (empty_queue now bs cs)"
  by (simp add: empty_queue_def queue_good_def rows_good_def history_good_def claims_good_def unique_on_def)

lemma waiting_path: "queue_path [Quiet] (empty_queue 0 [1] [(1, 2)]) waiting"
  unfolding waiting_def by (rule one_step, rule inserting_step) code_simp

lemma worked_claim: "claimOnce (taking 101) (view_of waiting) waiting = Inr (Some (taken 101 waiting), worked)"
  unfolding worked_def by (rule taking_step) code_simp

lemma worked_path: "queue_path [Claimed 500] waiting worked"
proof -
  have "jbId (cjJob (taken 101 waiting)) = 500" by code_simp
  with one_step [OF queue_step.claimed [OF worked_claim]] show ?thesis by simp
qed

lemma passed_on_path: "queue_path [Quiet, Quiet, Claimed 500] worked passed_on"
proof -
  let ?late = "worked\<lparr>quNow := 70000\<rparr>"
  have "\<not> isl (reclaimExpired [] ?late)" by code_simp
  then have "reclaimExpired [] ?late = Inr (fst (projr (reclaimExpired [] ?late)), left_behind)"
    by (simp add: left_behind_def)
  then have "queue_step Quiet ?late left_behind" by (rule queue_step.reclaimed)
  moreover have "jbId (cjJob (taken 102 left_behind)) = 500" by code_simp
  moreover have "case claimOnce (taking 102) (view_of left_behind) left_behind of Inr (Some c, q') \<Rightarrow> True | _ \<Rightarrow> False"
    by code_simp
  then have "queue_step (Claimed (jbId (cjJob (taken 102 left_behind)))) left_behind passed_on"
    unfolding passed_on_def by (rule taking_step)
  ultimately show ?thesis
    using queue_path.further [OF queue_path.further [OF queue_path.further [OF queue_path.here passing_step]]] by simp
qed

lemma contested_path: "queue_path [Quiet, Quiet] worked contested"
proof -
  have "\<not> isl (insert_job ingest worked)" by code_simp
  then have "queue_path [Quiet] worked (inserting worked)" by (intro one_step inserting_step)
  from queue_path.further [OF this passing_step] show ?thesis by (simp add: contested_def)
qed

lemma example_good: "queue_good waiting" "queue_good worked" "queue_good passed_on" "queue_good contested"
proof -
  show w: "queue_good waiting" using waiting_path empty_good by (rule path_good)
  show "queue_good worked" using worked_path w by (rule path_good)
  then show "queue_good passed_on" "queue_good contested"
    using passed_on_path contested_path path_good by blast+
qed

section \<open>Claiming\<close>

text \<open>What a claim of the job \<open>j\<close> does: its row, and one attempt row numbered after the others.\<close>

definition claim_of :: "claim_options \<Rightarrow> job \<Rightarrow> queue \<Rightarrow> claimed_job \<Rightarrow> queue \<Rightarrow> bool" where
  "claim_of options j q c q' \<longleftrightarrow> cjJob c = take_claim options (quNow q) j \<and> cjWorker c = coWorker options
     \<and> quJobs q' = update_where (\<lambda>r. jbId r = jbId j) (take_claim options (quNow q)) (quJobs q)
     \<and> (\<exists>a. quAttempts q' = quAttempts q @ [a] \<and> atId a = cjAttempt c \<and> atJob a = jbId j
          \<and> atWorker a = Some (coWorker options) \<and> atOutcome a = None
          \<and> (\<forall>b \<in> set (attempts_of (jbId j) q). atAttempt b < atAttempt a))"

lemma claimOnce_claim_of:
  assumes "claimOnce options seen q = Inr (Some c, q')"
  shows "\<exists>j \<in> set (quJobs q). claimable options seen (quNow q) j
    \<and> (\<forall>k \<in> set (quJobs q). claimable options seen (quNow q) k \<longrightarrow> more_urgent j k) \<and> claim_of options j q c q'"
proof -
  from assms obtain j :: job and q1 where j: "j \<in> set (quJobs q)" "claimable options seen (quNow q) j"
      "\<forall>k \<in> set (quJobs q). claimable options seen (quNow q) k \<longrightarrow> more_urgent j k"
    and u: "update_jobs (\<lambda>r. jbId r = jbId j) (take_claim options (quNow q)) q = Inr q1"
    and q': "q' = snd (open_attempt (jbId j) (coWorker options) q1)" "cjJob c = take_claim options (quNow q) j"
      "cjAttempt c = quNextUuid q" "cjWorker c = coWorker options" by (rule claimOnce_some) (rule that)
  from u have q1: "quAttempts q1 = quAttempts q" "quNextUuid q1 = quNextUuid q"
    "quJobs q1 = update_where (\<lambda>r. jbId r = jbId j) (take_claim options (quNow q)) (quJobs q)"
    by (auto simp: update_jobs_Inr)
  have "atAttempt b < fold max (map atAttempt (attempts_of (jbId j) q1)) 0 + 1" if "b \<in> set (attempts_of (jbId j) q)" for b
    using that fold_max_upper [of "atAttempt b" "map atAttempt (attempts_of (jbId j) q1)" 0]
    by (auto simp: attempts_of_def q1)
  then have "claim_of options j q c q'"
    by (simp add: claim_of_def q' q1) (simp add: open_attempt_def Let_def q1)
  with j show ?thesis by blast
qed

lemma claim_tries_answers:
  assumes "claim_tries options seens q = Inr (r, q')"
  shows "case r of
      None \<Rightarrow> q' = q \<and> ((\<exists>seen \<in> set seens. \<forall>j \<in> set (quJobs q). \<not> claimable options seen (quNow q) j)
        \<or> (\<forall>seen \<in> set seens. claimOnce options seen q = Inl (UniqueViolation ''background_jobs_one_running_per_key'')))
    | Some c \<Rightarrow> \<exists>seen \<in> set seens. \<exists>j \<in> set (quJobs q). claimable options seen (quNow q) j
        \<and> (\<forall>k \<in> set (quJobs q). claimable options seen (quNow q) k \<longrightarrow> more_urgent j k) \<and> claim_of options j q c q'"
  using assms
proof (induction seens)
  case (Cons seen rest)
  show ?case
  proof (cases "claimOnce options seen q")
    case (Inl e)
    with Cons.prems have e: "e = UniqueViolation ''background_jobs_one_running_per_key''"
      and "claim_tries options rest q = Inr (r, q')" by (auto split: if_splits)
    with Cons.IH Inl show ?thesis by (auto split: option.splits)
  next
    case (Inr x)
    with Cons.prems have one: "claimOnce options seen q = Inr (r, q')" by simp
    show ?thesis
    proof (cases r)
      case None
      with one have "q' = q \<and> filter (claimable options seen (quNow q)) (quJobs q) = []"
        by (auto elim: claimOnce_cases)
      with None show ?thesis by (auto simp: filter_empty_conv)
    next
      case (Some c)
      with claimOnce_claim_of [of options seen q c q'] one show ?thesis by auto
    qed
  qed
qed simp

text \<open>
  C36: A claim answers a job that was claimable in what one of its five tries saw, no claimable job
  is more urgent (priority, then due time, then age), the row is taken as running under the
  worker with one more attempt, and one attempt row is opened, numbered after every earlier one
  of the job; no other row changes. When it answers nothing the queue is as it was, and either
  some try saw nothing claimable or all five lost the contest for a scope.
\<close>

theorem claim_takes_the_most_urgent:
  assumes "claim options seen q = Inr (answer, q')"
  shows "case answer of
      None \<Rightarrow> q' = q \<and> ((\<exists>n < 5. \<forall>j \<in> set (quJobs q). \<not> claimable options (seen n) (quNow q) j)
        \<or> (\<forall>n < 5. claimOnce options (seen n) q = Inl (UniqueViolation ''background_jobs_one_running_per_key'')))
    | Some c \<Rightarrow> \<exists>n < 5. \<exists>j \<in> set (quJobs q). claimable options (seen n) (quNow q) j
        \<and> (\<forall>k \<in> set (quJobs q). claimable options (seen n) (quNow q) k \<longrightarrow> more_urgent j k) \<and> claim_of options j q c q'"
  using claim_tries_answers [OF assms [unfolded claim_def]]
  by (cases answer) (auto simp: CLAIM_CONTEST_LIMIT_def)

theorem claim_takes_the_most_urgent_witness:
  "\<exists>c q'. claim (taking 101) (\<lambda>n. view_of waiting) waiting = Inr (Some c, q') \<and> claim_of (taking 101) (hd (quJobs waiting)) waiting c q'"
proof -
  have only: "quJobs waiting = [hd (quJobs waiting)]" by code_simp
  have "claim (taking 101) (\<lambda>n. view_of waiting) waiting = Inr (Some (taken 101 waiting), worked)"
    using worked_claim by (simp add: claim_def CLAIM_CONTEST_LIMIT_def upt_rec)
  moreover from claim_takes_the_most_urgent [OF this]
  obtain j where "j \<in> set (quJobs waiting)" "claim_of (taking 101) j waiting (taken 101 waiting) worked" by auto
  moreover from this only have "j = hd (quJobs waiting)" by (metis list.set_cases set_ConsD empty_iff list.set(1))
  ultimately show ?thesis by blast
qed

section \<open>The queue over time\<close>

text \<open>
  C34: However calls of the queue interleave, starting from an empty queue and with every claim
  that was ever issued still usable: job ids are distinct, no job has been attempted more often
  than it may, a job is running exactly when it has a holder and a lease and then the claim it
  runs under is on record and open, two jobs of one scope never run together, no two ready jobs
  share a dedupe key, and a job's attempt rows are numbered apart.
\<close>

theorem queue_stays_sound:
  assumes "queue_path es (empty_queue now bs cs) q"
  shows "distinct (map jbId (quJobs q))
    \<and> (\<forall>j \<in> set (quJobs q). 0 \<le> jbAttempts j \<and> jbAttempts j \<le> jbMaxAttempts j
         \<and> (jbStatus j = JobRunning) = (jbClaimedBy j \<noteq> None \<and> jbLease j \<noteq> None)
         \<and> (jbStatus j = JobRunning \<longrightarrow> (\<exists>a. open_claim q j a)))
    \<and> (\<forall>i \<in> set (quJobs q). \<forall>j \<in> set (quJobs q). jbStatus i = JobRunning \<and> jbStatus j = JobRunning
         \<and> jbSerialization i = jbSerialization j \<and> jbSerialization i \<noteq> None \<longrightarrow> i = j)
    \<and> (\<forall>i \<in> set (quJobs q). \<forall>j \<in> set (quJobs q). jbStatus i = JobReady \<and> jbStatus j = JobReady
         \<and> jbDedupe i = jbDedupe j \<and> jbDedupe i \<noteq> None \<longrightarrow> i = j)
    \<and> distinct (map (\<lambda>a. (atJob a, atAttempt a)) (quAttempts q))"
proof -
  have good: "queue_good q" using assms empty_good by (rule path_good)
  then have rows: "rows_good q" and h: "history_good q" "claims_good q" by (simp_all add: queue_good_def)
  have "i = j" if "i \<in> set (quJobs q)" "j \<in> set (quJobs q)" "jbStatus i = JobRunning" "jbStatus j = JobRunning"
      "jbSerialization i = jbSerialization j" "jbSerialization i \<noteq> None" for i j
    using unique_on_row [of running_key "quJobs q" i j] rows that by (auto simp: rows_good_def running_key_def)
  moreover have "i = j" if "i \<in> set (quJobs q)" "j \<in> set (quJobs q)" "jbStatus i = JobReady" "jbStatus j = JobReady"
      "jbDedupe i = jbDedupe j" "jbDedupe i \<noteq> None" for i j
    using unique_on_row [of pending_key "quJobs q" i j] rows that by (auto simp: rows_good_def pending_key_def)
  moreover have "0 \<le> jbAttempts j \<and> jbAttempts j \<le> jbMaxAttempts j
      \<and> (jbStatus j = JobRunning) = (jbClaimedBy j \<noteq> None \<and> jbLease j \<noteq> None)" if "j \<in> set (quJobs q)" for j
    using rows that by (auto simp: rows_good_def job_check_def)
  moreover have "distinct (map jbId (quJobs q))" "distinct (map (\<lambda>a. (atJob a, atAttempt a)) (quAttempts q))"
    "\<forall>j \<in> set (quJobs q). jbStatus j = JobRunning \<longrightarrow> (\<exists>a. open_claim q j a)"
    using rows h by (simp_all add: rows_good_def history_good_def claims_good_def)
  ultimately show ?thesis by blast
qed

theorem queue_stays_sound_witness:
  "queue_path [Quiet, Claimed 500, Quiet, Quiet, Claimed 500] (empty_queue 0 [1] [(1, 2)]) passed_on
    \<and> distinct (map jbId (quJobs passed_on))"
proof -
  have "queue_path ([Quiet] @ [Claimed 500] @ [Quiet, Quiet, Claimed 500]) (empty_queue 0 [1] [(1, 2)]) passed_on"
    using path_append [OF path_append [OF passed_on_path worked_path] waiting_path] by simp
  with queue_stays_sound [OF this] show ?thesis by simp
qed

text \<open>
  C35: A job stops. Along any run in which no claim of the job is handed back and no operator
  replays it, the claims of the job and the attempts it had spent before stay within its
  ceiling; that they make up its attempts at the end is what bounds them.
\<close>

theorem job_claims_are_bounded:
  assumes "queue_path es q q'" and "queue_good q" and "j \<in> set (quJobs q)"
    and "Refunded (jbId j) \<notin> set es" and "Renewed (jbId j) \<notin> set es"
  shows "jbAttempts j + int (count_list es (Claimed (jbId j))) \<le> jbMaxAttempts j
    \<and> (\<exists>j' \<in> set (quJobs q'). jbId j' = jbId j
         \<and> jbAttempts j' = jbAttempts j + int (count_list es (Claimed (jbId j))))"
proof -
  have "spent (jbId j) (jbMaxAttempts j) (jbAttempts j) q" using assms(3) by (auto simp: spent_def)
  from path_spent [OF assms(1,2) this assms(4,5)]
  obtain j' where j': "j' \<in> set (quJobs q')" "jbId j' = jbId j" "jbMaxAttempts j' = jbMaxAttempts j"
    "jbAttempts j' = jbAttempts j + int (count_list es (Claimed (jbId j)))" by (auto simp: spent_def)
  moreover from path_good [OF assms(1,2)] j'(1) have "jbAttempts j' \<le> jbMaxAttempts j'"
    by (auto simp: queue_good_def rows_good_def job_check_def)
  ultimately show ?thesis by auto
qed

theorem job_claims_are_bounded_witness:
  "\<exists>j' \<in> set (quJobs passed_on). jbId j' = 500 \<and> jbAttempts j' = 2"
proof -
  let ?j = "hd (quJobs worked)"
  have "?j \<in> set (quJobs worked)" "jbId ?j = 500" "jbAttempts ?j = 1" by code_simp+
  with job_claims_are_bounded [OF passed_on_path example_good(2), of ?j] show ?thesis by simp
qed

section \<open>Where the claims end badly\<close>

text \<open>A row that stops running passes the table's checks as the running row did.\<close>

lemma stopped_check:
  assumes "job_check r = Inr ()" "jbStatus r' \<noteq> JobRunning" "jbClaimedBy r' = None"
    "jbPriority r' = jbPriority r" "jbAttempts r' = jbAttempts r" "jbMaxAttempts r' = jbMaxAttempts r"
  shows "job_check r' = Inr ()"
  using assms by (simp add: job_check_def)

lemma update_jobs_none: "rows_good q \<Longrightarrow> (\<And>r. r \<in> set (quJobs q) \<Longrightarrow> \<not> p r) \<Longrightarrow> update_jobs p f q = Inr q"
  by (simp add: update_jobs_Inr update_where_id rows_good_def)

lemma succeed_returns:
  assumes "queue_good q"
  obtains q' where "succeed i a q = Inr q'"
proof -
  let ?f = "\<lambda>r. (unclaimed r)\<lparr>jbStatus := JobSucceeded, jbFinishedAt := Some (quNow q), jbFailureKind := None, jbLastError := None\<rparr>"
  have g: "rows_good q" using assms by (simp add: queue_good_def)
  have "unique_on running_key (update_where (\<lambda>r. jbId r = i) ?f (quJobs q))"
    "unique_on pending_key (update_where (\<lambda>r. jbId r = i) ?f (quJobs q))"
    by (rule unique_on_update; use g in \<open>simp add: rows_good_def running_key_def pending_key_def\<close>)+
  moreover have "job_check (?f r) = Inr ()" if "r \<in> set (quJobs q)" for r
    by (rule stopped_check [of r]) (use g that in \<open>simp_all add: rows_good_def\<close>)
  ultimately have "update_jobs (\<lambda>r. jbId r = i) ?f q = Inr (q\<lparr>quJobs := update_where (\<lambda>r. jbId r = i) ?f (quJobs q)\<rparr>)"
    by (simp add: update_jobs_Inr)
  then show thesis by (intro that) (simp add: succeed_def)
qed

text \<open>
  \<open>succeed\<close> looks at neither the holder nor the status of the job (\<open>heartbeat\<close> and \<open>release\<close> do).
  A worker that lost its claim and then finishes therefore ends the job that another worker is
  running: the call succeeds, the job is recorded as done while the second worker is at it, that
  worker's heartbeats are refused from then on, and its attempt stays open.
\<close>

theorem stale_worker_ends_a_live_claim:
  assumes "queue_good q" and "issued c q" and "j \<in> set (quJobs q)" and "jbId j = jbId (cjJob c)"
    and "jbStatus j = JobRunning" and "jbClaimedBy j = Some other" and "other \<noteq> cjWorker c"
  shows "\<exists>q'. succeed (jbId (cjJob c)) (cjAttempt c) q = Inr q'
    \<and> (\<exists>j' \<in> set (quJobs q'). jbId j' = jbId j \<and> jbStatus j' = JobSucceeded \<and> jbClaimedBy j' = None)
    \<and> heartbeat (jbId j) other ms q' = Inr (False, q')
    \<and> (\<exists>a \<in> set (quAttempts q'). atJob a = jbId j \<and> atWorker a = Some other \<and> atOutcome a = None)"
proof -
  from assms(1) obtain q' where s: "succeed (jbId (cjJob c)) (cjAttempt c) q = Inr q'" by (rule succeed_returns)
  note rw = succeed_rewrites [OF s]
  from assms(1,3,5) obtain a where a: "open_claim q j a" by (auto simp: queue_good_def claims_good_def)
  have "atId a \<noteq> cjAttempt c"
    using issued_closes_own(2) [OF assms(2) _ a] assms(1,6,7) by (auto simp: queue_good_def)
  with a assms(6) have "\<exists>a \<in> set (quAttempts q'). atJob a = jbId j \<and> atWorker a = Some other \<and> atOutcome a = None"
    by (force simp: open_claim_def rewritten_rows [OF rw] set_update_where)
  moreover have "\<exists>j' \<in> set (quJobs q'). jbId j' = jbId j \<and> jbStatus j' = JobSucceeded \<and> jbClaimedBy j' = None"
    by (rule bexI [OF _ rewritten_row [OF rw assms(3)]]) (simp add: assms(4))
  moreover have none: "\<not> held_by (jbId j) other r" if "r \<in> set (quJobs q')" for r
    using that assms(4) by (auto simp: rewritten_rows [OF rw] set_update_where held_by_def)
  have "queue_good q'" using queue_step.succeeded [OF assms(2) s] assms(1) by (rule step_good)
  with none have "heartbeat (jbId j) other ms q' = Inr (False, q')"
    by (simp add: heartbeat_def update_jobs_none queue_good_def filter_empty_conv [THEN iffD2])
  ultimately show ?thesis using s by blast
qed

theorem stale_worker_ends_a_live_claim_witness:
  "\<exists>q'. succeed 500 (cjAttempt (taken 101 waiting)) passed_on = Inr q' \<and> heartbeat 500 102 60000 q' = Inr (False, q')"
proof -
  let ?j = "hd (quJobs passed_on)" and ?c = "taken 101 waiting"
  have "issued ?c passed_on" "?j \<in> set (quJobs passed_on)" "jbId ?j = jbId (cjJob ?c)" "jbId (cjJob ?c) = 500"
    "jbStatus ?j = JobRunning" "jbClaimedBy ?j = Some 102" "102 \<noteq> cjWorker ?c" by code_simp+
  with stale_worker_ends_a_live_claim [OF example_good(3), of ?c ?j 102 60000] show ?thesis by auto
qed

text \<open>A write that would give two ready jobs one dedupe key is refused as a whole.\<close>

lemma contested_update:
  assumes "rows_good q" "j \<in> set (quJobs q)" "p j" "k \<in> set (quJobs q)" "\<not> p k"
    and "\<And>r. r \<in> set (quJobs q) \<Longrightarrow> p r \<Longrightarrow> job_check (f r) = Inr () \<and> jbId (f r) = jbId r \<and> running_key (f r) = None"
    and "pending_key (f j) = pending_key k" "pending_key k \<noteq> None"
  shows "update_jobs p f q = Inl (UniqueViolation ''background_jobs_pending_dedupe'')"
proof -
  let ?rows = "update_where p f (quJobs q)"
  have "update_checked p f job_check (quJobs q) = Inr ?rows" using assms(6) by (simp add: update_checked_Inr)
  moreover have "unique_on running_key ?rows"
    by (rule unique_on_update) (use assms(1,6) in \<open>auto simp: rows_good_def\<close>)
  moreover have "\<not> unique_on pending_key ?rows"
  proof
    assume u: "unique_on pending_key ?rows"
    have "f j \<in> set ?rows" "k \<in> set ?rows" using assms(2-5) by (auto simp: set_update_where)
    with unique_on_row [OF u] assms(7,8) have "f j = k" by auto
    with assms(2,3,6) have "jbId k = jbId j" by metis
    with assms(1-5) show False by (auto simp: rows_good_def dest: same_row)
  qed
  ultimately show ?thesis by (simp add: update_jobs_def index_check_def)
qed

text \<open>
  The index on dedupe keys covers ready jobs only, so a wake-up may be enqueued while the job
  for the same key runs. If that job's worker is then lost, the sweep that recovers expired
  claims would make a second ready job with the key: it raises a unique violation, and being one
  statement it recovers no other job either. When the two also share a scope, as the jobs of one
  order do, the waiting one cannot be claimed while the lost one counts as running.
\<close>

theorem contested_dedupe_key_blocks_recovery:
  assumes "queue_good q" and "j \<in> set (quJobs q)" and "lost_claim locked (quNow q) j"
    and "jbAttempts j < jbMaxAttempts j" and "k \<in> set (quJobs q)" and "jbStatus k = JobReady"
    and "jbDedupe k = jbDedupe j" and "jbDedupe j = Some key"
    and "jbSerialization k = jbSerialization j" and "jbSerialization j = Some scope"
  shows "reclaimExpired locked q = Inl (UniqueViolation ''background_jobs_pending_dedupe'')
    \<and> \<not> claimable options (view_of q) now k"
proof -
  have rows: "rows_good q" using assms(1) by (simp add: queue_good_def)
  have run: "jbStatus j = JobRunning" using assms(3) by (simp add: lost_claim_def lease_expired_def)
  have "update_jobs (lost_claim locked (quNow q)) (reopened (quNow q)) q
      = Inl (UniqueViolation ''background_jobs_pending_dedupe'')"
  proof (rule contested_update [where p = "lost_claim locked (quNow q)", OF rows assms(2,3,5)])
    show "\<not> lost_claim locked (quNow q) k" using assms(6) by (simp add: lost_claim_def lease_expired_def)
    show "pending_key (reopened (quNow q) j) = pending_key k" "pending_key k \<noteq> None"
      using assms(4,6-8) by (simp_all add: pending_key_def reopened_def)
    fix r assume "r \<in> set (quJobs q)"
    with rows have "job_check r = Inr ()" by (simp add: rows_good_def)
    then have "job_check (reopened (quNow q) r) = Inr ()"
      by (rule stopped_check) (simp_all add: reopened_def Let_def)
    then show "job_check (reopened (quNow q) r) = Inr () \<and> jbId (reopened (quNow q) r) = jbId r
        \<and> running_key (reopened (quNow q) r) = None"
      by (simp add: running_key_def reopened_def Let_def)
  qed
  moreover have "\<not> claimable options (view_of q) now k"
    using assms(2,9,10) run by (auto simp: claimable_def scope_free_def view_of_def list_ex_iff)
  ultimately show ?thesis by (simp add: reclaimExpired_def)
qed

theorem contested_dedupe_key_blocks_recovery_witness:
  "queue_path [Quiet, Quiet] worked contested
    \<and> reclaimExpired [] contested = Inl (UniqueViolation ''background_jobs_pending_dedupe'')"
proof -
  let ?j = "hd (quJobs contested)" and ?k = "last (quJobs contested)"
  have "?j \<in> set (quJobs contested)" "lost_claim [] (quNow contested) ?j" "jbAttempts ?j < jbMaxAttempts ?j"
    "?k \<in> set (quJobs contested)" "jbStatus ?k = JobReady" "jbDedupe ?k = jbDedupe ?j"
    "jbDedupe ?j = Some ''order:2:7''" "jbSerialization ?k = jbSerialization ?j" "jbSerialization ?j = Some ''order:2:7''"
    by code_simp+
  with contested_dedupe_key_blocks_recovery [OF example_good(4), of ?j "[]" ?k] contested_path show ?thesis by blast
qed

section \<open>Enqueuing\<close>

lemma pending_job_Some:
  assumes "pending_job key q = Some j"
  shows "j \<in> set (quJobs q) \<and> jbStatus j = JobReady \<and> jbDedupe j = key \<and> key \<noteq> None"
  using assms by (auto simp: pending_job_def find_Some_iff)

lemma pending_job_None:
  "pending_job key q = None \<longleftrightarrow> key = None \<or> (\<forall>r \<in> set (quJobs q). pending_key r \<noteq> key)"
  by (auto simp: pending_job_def find_None_iff pending_key_def split: if_splits)

lemma insert_job_pending:
  assumes "insert_job input q = Inr (r, q')"
  shows "case r of
      None \<Rightarrow> q' = q \<and> pending_job (eqDedupe input) q \<noteq> None
    | Some j \<Rightarrow> j = new_job input (quNow q) (quNextUuid q) \<and> pending_job (eqDedupe input) q = None
        \<and> q' = q\<lparr>quNextUuid := Suc (quNextUuid q), quJobs := quJobs q @ [j]\<rparr>"
proof -
  have "pending_key (new_job input (quNow q) (quNextUuid q)) = eqDedupe input"
    by (simp add: pending_key_def new_job_def Let_def)
  with assms show ?thesis
    by (auto simp: insert_job_def Let_def result_simps pending_job_None list_ex_iff split: if_splits)
qed

text \<open>
  With nothing happening between its statements, \<open>enqueue\<close> answers the job already waiting
  under the dedupe key and changes nothing, when there is one; otherwise it appends exactly one
  ready job whose deadline is its start plus the window, written once.
\<close>

theorem enqueue_coalesces:
  assumes "enqueue input id q = Inr ((j, deduplicated), q')"
  shows "if deduplicated
    then q' = q \<and> j \<in> set (quJobs q) \<and> jbStatus j = JobReady \<and> jbDedupe j = eqDedupe input \<and> eqDedupe input \<noteq> None
    else q' = q\<lparr>quNextUuid := Suc (quNextUuid q), quJobs := quJobs q @ [j]\<rparr> \<and> jbStatus j = JobReady
      \<and> jbDedupe j = eqDedupe input \<and> jbAttempts j = 0
      \<and> (eqDedupe input \<noteq> None \<longrightarrow> (\<forall>r \<in> set (quJobs q). \<not> (jbStatus r = JobReady \<and> jbDedupe r = eqDedupe input)))
      \<and> jbExpiresAt j = jbRunAt j + given_or DEAD_LETTER_WINDOW_MS (eqWindow input)"
proof -
  from assms obtain r q1 where i: "insert_job input q = Inr (r, q1)" by (auto simp: enqueue_def result_simps)
  note p = insert_job_pending [OF i]
  show ?thesis
  proof (cases r)
    case (Some j')
    with assms i have "j = j'" "\<not> deduplicated" "q' = q1" by (auto simp: enqueue_def)
    with p Some show ?thesis by (auto simp: new_job_def Let_def pending_job_None pending_key_def)
  next
    case None
    with p obtain winner where w: "pending_job (eqDedupe input) q = Some winner" and "q1 = q" by auto
    with None assms i have "j = winner" "deduplicated" "q' = q" by (auto simp: enqueue_def)
    with pending_job_Some [OF w] show ?thesis by auto
  qed
qed

theorem enqueue_coalesces_witness:
  "enqueue ingest id waiting = Inr ((hd (quJobs waiting), True), waiting) \<and> eqDedupe ingest \<noteq> None"
proof -
  have e: "enqueue ingest id waiting = Inr ((hd (quJobs waiting), True), waiting)" by code_simp
  with enqueue_coalesces [OF e] show ?thesis by simp
qed

section \<open>The runner\<close>

lemma execute_path:
  assumes "execute message options c meanwhile clock q = Inr q'" and "issued c q" and "cjWorker c = roWorker options"
    and "\<And>q. \<exists>es. queue_path es q (meanwhile q)"
  shows "\<exists>es. queue_path es q q'"
proof (cases "map_of (roHandlers options) (jbKind (cjJob c))")
  case None
  with assms(1,3) have "release_claim (jbId (cjJob c)) (cjAttempt c) (cjWorker c) q = Inr q'" by (simp add: execute_def)
  then show ?thesis using queue_step.released [OF assms(2)] one_step by blast
next
  case (Some handler)
  from assms(4) obtain es where es: "queue_path es q (meanwhile q)" by blast
  then have i: "issued c (meanwhile q)" using assms(2) by (rule path_issued)
  from assms(1) Some have "(\<exists>what. threw c what clock (meanwhile q) = Inr q')
      \<or> (\<exists>result. settle c result clock (meanwhile q) = Inr q')"
    by (auto simp: execute_def Let_def split: sum.splits)
  then have "queue_step Quiet (meanwhile q) q'" using i threw_step settle_step by blast
  from queue_path.further [OF es this] show ?thesis by blast
qed

text \<open>
  C39: Whatever a handler does and however the queue moves while it runs, one pass of the runner is
  a run of the queue's own steps; so the runner keeps everything those steps keep. When it finds
  nothing to do, it leaves the queue as it was.
\<close>

theorem runner_follows_the_queue:
  assumes "runOnce message options seen meanwhile clock q = Inr (busy, q')"
    and "\<And>q. \<exists>es. queue_path es q (meanwhile q)"
  shows "(\<exists>es. queue_path es q q') \<and> (\<not> busy \<longrightarrow> q' = q)"
proof -
  from assms(1) obtain c q1 where cl: "claim (claim_options_of options) seen q = Inr (c, q1)"
    by (auto simp: runOnce_def result_simps)
  show ?thesis
  proof (cases c)
    case None
    with claim_cases [OF cl] have "q1 = q" by (auto elim: claimOnce_cases)
    with None cl assms(1) show ?thesis by (auto simp: runOnce_def intro: queue_path.here)
  next
    case (Some c')
    with claim_cases [OF cl] obtain n where one: "claimOnce (claim_options_of options) (seen n) q = Inr (Some c', q1)" by auto
    from Some cl assms(1) have ex: "execute message options c' meanwhile clock q1 = Inr q'" and "busy"
      by (auto simp: runOnce_def result_simps)
    have "cjWorker c' = roWorker options" using claimed_issued(3) [OF one] by (simp add: claim_options_of_def)
    from execute_path [OF ex claimed_issued(1) [OF one] this assms(2)] obtain es where "queue_path es q1 q'" ..
    from path_append [OF this one_step [OF queue_step.claimed [OF one]]] \<open>busy\<close> show ?thesis by auto
  qed
qed

definition running_orders :: "job_handler \<Rightarrow> runner_options" where
  "running_orders handler = \<lparr>roWorker = 101, roHandlers = [(''ingest_order'', handler)], roLeaseMs = None, roKinds = None\<rparr>"

definition process_time :: process_clock where
  "process_time = \<lparr>pcNow = 70000, pcRandom = 0\<rparr>"

definition unspoken :: "exn \<Rightarrow> string" where
  "unspoken e = []"

theorem runner_follows_the_queue_witness:
  "\<exists>q'. runOnce unspoken (running_orders (\<lambda>c. Inr Finished)) (\<lambda>n. view_of waiting) id process_time waiting = Inr (True, q')
    \<and> (\<exists>es. queue_path es waiting q')"
proof -
  let ?run = "runOnce unspoken (running_orders (\<lambda>c. Inr Finished)) (\<lambda>n. view_of waiting) id process_time waiting"
  have "case ?run of Inr (True, q') \<Rightarrow> True | _ \<Rightarrow> False" by code_simp
  then obtain q' where r: "?run = Inr (True, q')" by (auto split: sum.splits bool.splits)
  moreover have "\<exists>es. queue_path es q (id q)" for q using queue_path.here by auto
  ultimately show ?thesis using runner_follows_the_queue [OF r] by blast
qed

text \<open>
  A job of a kind the runner has no handler for is claimed and handed straight back: its row
  loses only the columns of the claim, the attempt is refunded, and one more attempt row is all
  that remains. The pass still counts as work done, so the loop comes round without its idle
  pause; and since a runner with no handlers passes an empty list of kinds, which \<open>claim\<close> takes
  for any kind, it does this to every job there is.
\<close>

theorem unhandled_job_is_handed_back:
  assumes "queue_good q" and "claim (claim_options_of options) seen q = Inr (Some c, q1)"
    and "map_of (roHandlers options) (jbKind (cjJob c)) = None"
  shows "\<exists>q'. runOnce message options seen meanwhile clock q = Inr (True, q')
    \<and> quJobs q' = update_where (\<lambda>r. jbId r = jbId (cjJob c)) unclaimed (quJobs q)
    \<and> length (quAttempts q') = Suc (length (quAttempts q))
    \<and> (roHandlers options = [] \<and> roKinds options = None \<longrightarrow> coKinds (claim_options_of options) = [])"
proof -
  let ?o = "claim_options_of options" and ?i = "jbId (cjJob c)"
  let ?returned = "\<lambda>r. (unclaimed r)\<lparr>jbStatus := JobReady, jbAttempts := max 0 (jbAttempts r - 1)\<rparr>"
  from claim_cases [OF assms(2)] obtain n where one: "claimOnce ?o (seen n) q = Inr (Some c, q1)" by auto
  from claimOnce_claim_of [OF one] obtain j where j: "j \<in> set (quJobs q)" "claimable ?o (seen n) (quNow q) j"
    and of_j: "claim_of ?o j q c q1" by blast
  then have rows1: "quJobs q1 = update_where (\<lambda>r. jbId r = ?i) (take_claim ?o (quNow q)) (quJobs q)"
    and att: "length (quAttempts q1) = Suc (length (quAttempts q))" by (auto simp: claim_of_def)
  have good: "rows_good q" using assms(1) by (simp add: queue_good_def)
  have only: "r = j" if "r \<in> set (quJobs q)" "jbId r = ?i" for r
    using that good j(1) of_j by (auto simp: rows_good_def claim_of_def dest: same_row)
  have restored: "?returned (take_claim ?o (quNow q) j) = unclaimed j" and st: "jbStatus j = JobReady"
    using j good by (auto simp: take_claim_def unclaimed_def claimable_def rows_good_def job_check_def)
  have rows2: "update_where (held_by ?i (roWorker options)) ?returned (quJobs q1)
      = update_where (\<lambda>r. jbId r = ?i) unclaimed (quJobs q)"
    using only restored st by (auto simp: rows1 update_where_def held_by_def claim_options_of_def)
  have keys: "unique_on running_key (update_where (\<lambda>r. jbId r = ?i) unclaimed (quJobs q))"
    "unique_on pending_key (update_where (\<lambda>r. jbId r = ?i) unclaimed (quJobs q))"
    by (rule unique_on_update; use good in \<open>simp add: rows_good_def running_key_def pending_key_def unclaimed_def\<close>)+
  have "job_check (?returned r) = Inr ()" if r: "r \<in> set (quJobs q1)" "held_by ?i (roWorker options) r" for r
  proof -
    from r only have "r = take_claim ?o (quNow q) j \<or> r = j" by (auto simp: rows1 set_update_where held_by_def split: if_splits)
    with st r(2) restored have "?returned r = unclaimed j" by (auto simp: held_by_def)
    moreover have "job_check (unclaimed j) = Inr ()"
      by (rule stopped_check [of j]) (use good j(1) st in \<open>simp_all add: rows_good_def unclaimed_def\<close>)
    ultimately show ?thesis by simp
  qed
  with keys have "update_jobs (held_by ?i (roWorker options)) ?returned q1
      = Inr (q1\<lparr>quJobs := update_where (\<lambda>r. jbId r = ?i) unclaimed (quJobs q)\<rparr>)"
    by (simp add: update_jobs_Inr rows2)
  then obtain q' where "release_claim ?i (cjAttempt c) (roWorker options) q1 = Inr q'"
    and "quJobs q' = update_where (\<lambda>r. jbId r = ?i) unclaimed (quJobs q)" "length (quAttempts q') = length (quAttempts q1)"
    by (simp add: release_claim_def update_attempts_def)
  moreover have "runOnce message options seen meanwhile clock q = Inr (True, q')"
    using assms(2,3) calculation(1) by (simp add: runOnce_def execute_def)
  ultimately show ?thesis using att by (auto simp: claim_options_of_def given_or_def)
qed

theorem unhandled_job_is_handed_back_witness:
  "\<exists>c q1 q'. claim (claim_options_of ((running_orders (\<lambda>c. Inr Finished))\<lparr>roHandlers := []\<rparr>)) (\<lambda>n. view_of waiting) waiting = Inr (Some c, q1)
    \<and> runOnce unspoken ((running_orders (\<lambda>c. Inr Finished))\<lparr>roHandlers := []\<rparr>) (\<lambda>n. view_of waiting) id process_time waiting = Inr (True, q')
    \<and> length (quAttempts q') = Suc (length (quAttempts waiting))"
proof -
  let ?o = "(running_orders (\<lambda>c. Inr Finished))\<lparr>roHandlers := []\<rparr>"
  let ?claim = "claim (claim_options_of ?o) (\<lambda>n. view_of waiting) waiting"
  have "case ?claim of Inr (Some c, q1) \<Rightarrow> True | _ \<Rightarrow> False" by code_simp
  then obtain c q1 where c: "?claim = Inr (Some c, q1)" by (auto split: sum.splits option.splits)
  moreover have "map_of (roHandlers ?o) (jbKind (cjJob c)) = None" by (simp add: running_orders_def)
  ultimately show ?thesis using unhandled_job_is_handed_back [OF example_good(1) c] by blast
qed

lemma failing_retry_contested:
  assumes "rows_good q" and "failure_decision input = Retry runAt delay"
    and "j \<in> set (quJobs q)" and "jbId j = jbId (cjJob (fiJob input))"
    and "k \<in> set (quJobs q)" and "jbId k \<noteq> jbId j" and "jbStatus k = JobReady"
    and "jbDedupe k = jbDedupe j" and "jbDedupe j \<noteq> None"
  shows "fail input q = Inl (UniqueViolation ''background_jobs_pending_dedupe'')"
proof -
  let ?i = "jbId (cjJob (fiJob input))"
  let ?f = "\<lambda>r. (unclaimed r)\<lparr>jbStatus := JobReady, jbRunAt := runAt, jbFailureKind := Some (fiKind input),
     jbLastError := Some (fiDetail input)\<rparr>"
  have "update_jobs (\<lambda>r. jbId r = ?i) ?f q = Inl (UniqueViolation ''background_jobs_pending_dedupe'')"
  proof (rule contested_update [where j = j and k = k])
    fix r assume "r \<in> set (quJobs q)"
    with assms(1) have "job_check r = Inr ()" by (simp add: rows_good_def)
    then have "job_check (?f r) = Inr ()" by (rule stopped_check) simp_all
    then show "job_check (?f r) = Inr () \<and> jbId (?f r) = jbId r \<and> running_key (?f r) = None"
      by (simp add: running_key_def)
  qed (use assms in \<open>simp_all add: pending_key_def\<close>)
  then show ?thesis by (simp add: fail_def assms(2) Let_def)
qed

text \<open>
  When a job fails and would be retried while another wake-up with its dedupe key already
  waits, recording the failure raises, whether the handler answered the failure or threw; the
  runner's own fallback raises the same way, so nothing of the attempt is recorded and the job
  goes on counting as running under a worker that has let go of it.
\<close>

theorem contested_retry_is_never_recorded:
  assumes "queue_good (meanwhile q)" and "map_of (roHandlers options) (jbKind (cjJob c)) = Some handler"
    and "handler c = Inl what \<or> handler c = Inr (Failed kind detail True None)"
    and "failure_decision (failure_of c clock kind detail True None) = Retry runAt delay"
    and "j \<in> set (quJobs (meanwhile q))" and "jbId j = jbId (cjJob c)"
    and "k \<in> set (quJobs (meanwhile q))" and "jbId k \<noteq> jbId j" and "jbStatus k = JobReady"
    and "jbDedupe k = jbDedupe j" and "jbDedupe j \<noteq> None"
  shows "execute message options c meanwhile clock q = Inl (UniqueViolation ''background_jobs_pending_dedupe'')"
proof -
  have "fail (failure_of c clock kind' detail' True None) (meanwhile q)
      = Inl (UniqueViolation ''background_jobs_pending_dedupe'')" for kind' detail'
  proof (rule failing_retry_contested [where j = j and k = k])
    show "failure_decision (failure_of c clock kind' detail' True None) = Retry runAt delay"
      using assms(4) by (simp add: failure_decision_def failure_of_def)
  qed (use assms in \<open>auto simp: queue_good_def\<close>)
  with assms(2,3) show ?thesis
    by (auto simp: execute_def threw_def settle_def)
qed

theorem contested_retry_is_never_recorded_witness:
  "execute unspoken (running_orders (\<lambda>c. Inl ''socket closed'')) (taken 101 waiting) (\<lambda>q. contested) process_time worked
    = Inl (UniqueViolation ''background_jobs_pending_dedupe'')"
proof -
  let ?j = "hd (quJobs contested)" and ?k = "last (quJobs contested)" and ?c = "taken 101 waiting"
  let ?d = "failure_decision (failure_of ?c process_time [] [] True None)"
  have "case ?d of Retry runAt delay \<Rightarrow> True | _ \<Rightarrow> False" by code_simp
  then obtain runAt delay where "?d = Retry runAt delay" by (auto split: retry_decision.splits)
  moreover have "?j \<in> set (quJobs contested)" "jbId ?j = jbId (cjJob ?c)" "?k \<in> set (quJobs contested)"
    "jbId ?k \<noteq> jbId ?j" "jbStatus ?k = JobReady" "jbDedupe ?k = jbDedupe ?j" "jbDedupe ?j \<noteq> None"
    by code_simp+
  moreover have "jbKind (cjJob ?c) = ''ingest_order''" by code_simp
  then have "map_of (roHandlers (running_orders (\<lambda>c. Inl ''socket closed''))) (jbKind (cjJob ?c)) = Some (\<lambda>c. Inl ''socket closed'')"
    by (simp add: running_orders_def)
  ultimately show ?thesis
    using contested_retry_is_never_recorded [of "\<lambda>q. contested" worked "running_orders (\<lambda>c. Inl ''socket closed'')" ?c
        "\<lambda>c. Inl ''socket closed''" "''socket closed''" "[]" "[]" process_time runAt delay ?j ?k unspoken] example_good(4)
    by blast
qed

end
