(* ===== verification/Leases.thy ===== *)
theory Leases
  imports Schema
begin

text \<open>
  \<^verbatim>\<open>packages/db/src/leases.ts\<close>: the scheduler lease and the heartbeats of the worker processes. The
  tables and their checks are \<^verbatim>\<open>0002\<close>'s; the role is the primary key and only 'scheduler' is allowed,
  so the lease table is one optional row. Every operation is one statement, at the database's
  clock.
\<close>

section \<open>The tables\<close>

record lease_row =
  lrHolder :: uuid
  lrAcquired :: instant
  lrExpires :: instant
  lrHeartbeat :: instant
  lrVersion :: "string option"

datatype worker_role = RoleWorker | RoleScheduler

record heartbeat_row =
  hbWorker :: uuid
  hbRole :: worker_role
  hbStarted :: instant
  hbSeen :: instant
  hbVersion :: "string option"
  hbActive :: int

record lease_db =
  ldNow :: instant
  ldLease :: "lease_row option"
  ldHeartbeats :: "heartbeat_row list"

record lease_holder =
  lhId :: uuid
  lhVersion :: "string option"

definition lease_check :: "lease_row \<Rightarrow> exn + unit" where
  "lease_check r = check_all [(lrAcquired r < lrExpires r, CheckViolation ''scheduler_leases_expiry_after_acquisition'')]"

definition heartbeat_check :: "heartbeat_row \<Rightarrow> exn + unit" where
  "heartbeat_check r = check_all [
     (int4 (hbActive r), NumericValueOutOfRange),
     (0 \<le> hbActive r, CheckViolation ''worker_heartbeats_active_jobs_nonnegative'')]"

section \<open>The operations\<close>

definition put_lease :: "lease_row \<Rightarrow> lease_db \<Rightarrow> exn + lease_db" where
  "put_lease r d = bindR (lease_check r) (\<lambda>_. Inr (d\<lparr>ldLease := Some r\<rparr>))"

text \<open>
  The values to insert are checked before the conflict is looked for, as the table's checks are.
\<close>

definition acquireSchedulerLease :: "lease_holder \<Rightarrow> int \<Rightarrow> lease_db \<Rightarrow> exn + lease_row option \<times> lease_db" where
  "acquireSchedulerLease holder leaseDurationMs d =
     (let now = ldNow d;
          fresh = \<lparr>lrHolder = lhId holder, lrAcquired = now, lrExpires = now + leaseDurationMs,
                   lrHeartbeat = now, lrVersion = lhVersion holder\<rparr>
      in bindR (lease_check fresh) (\<lambda>_.
         case ldLease d of
           None \<Rightarrow> bindR (put_lease fresh d) (\<lambda>d1. Inr (Some fresh, d1))
         | Some r \<Rightarrow>
             if lrExpires r < now \<or> lrHolder r = lhId holder
             then let r' = fresh\<lparr>lrAcquired := (if lrHolder r = lhId holder then lrAcquired r else now)\<rparr>
                  in bindR (put_lease r' d) (\<lambda>d1. Inr (Some r', d1))
             else Inr (None, d)))"

definition renewSchedulerLease :: "lease_holder \<Rightarrow> int \<Rightarrow> lease_db \<Rightarrow> exn + bool \<times> lease_db" where
  "renewSchedulerLease holder leaseDurationMs d =
     (case ldLease d of
        None \<Rightarrow> Inr (False, d)
      | Some r \<Rightarrow>
          if lrHolder r = lhId holder \<and> ldNow d < lrExpires r
          then bindR (put_lease (r\<lparr>lrExpires := ldNow d + leaseDurationMs, lrHeartbeat := ldNow d\<rparr>) d) (\<lambda>d1. Inr (True, d1))
          else Inr (False, d))"

definition releaseSchedulerLease :: "lease_holder \<Rightarrow> lease_db \<Rightarrow> lease_db" where
  "releaseSchedulerLease holder d =
     (case ldLease d of
        None \<Rightarrow> d
      | Some r \<Rightarrow> if lrHolder r = lhId holder then d\<lparr>ldLease := None\<rparr> else d)"

definition readSchedulerLease :: "lease_db \<Rightarrow> lease_row option" where
  "readSchedulerLease d = ldLease d"

definition recordHeartbeat ::
    "uuid \<Rightarrow> worker_role \<Rightarrow> int \<Rightarrow> string option \<Rightarrow> lease_db \<Rightarrow> exn + lease_db" where
  "recordHeartbeat worker role activeJobs version d =
     (let fresh = \<lparr>hbWorker = worker, hbRole = role, hbStarted = ldNow d, hbSeen = ldNow d,
                   hbVersion = version, hbActive = activeJobs\<rparr>
      in bindR (heartbeat_check fresh) (\<lambda>_.
         if list_ex (\<lambda>r. hbWorker r = worker) (ldHeartbeats d)
         then Inr (d\<lparr>ldHeartbeats := update_where (\<lambda>r. hbWorker r = worker)
                (\<lambda>r. r\<lparr>hbSeen := ldNow d, hbRole := role, hbActive := activeJobs, hbVersion := version\<rparr>) (ldHeartbeats d)\<rparr>)
         else Inr (d\<lparr>ldHeartbeats := ldHeartbeats d @ [fresh]\<rparr>)))"

definition pruneHeartbeats :: "int \<Rightarrow> lease_db \<Rightarrow> nat \<times> lease_db" where
  "pruneHeartbeats olderThanMs d =
     (let stale = (\<lambda>r. hbSeen r < ldNow d - olderThanMs)
      in (length (filter stale (ldHeartbeats d)), d\<lparr>ldHeartbeats := filter (\<lambda>r. \<not> stale r) (ldHeartbeats d)\<rparr>))"

section \<open>Who holds the lease\<close>

text \<open>The lease is \<open>w\<close>'s and stays so while the clock is before \<open>t\<close>.\<close>

definition holds_until :: "uuid \<Rightarrow> instant \<Rightarrow> lease_db \<Rightarrow> bool" where
  "holds_until w t d \<longleftrightarrow> (\<exists>r. ldLease d = Some r \<and> lrHolder r = w \<and> t \<le> lrExpires r)"

lemma put_lease_Inr:
  "put_lease r d = Inr d' \<longleftrightarrow> lrAcquired r < lrExpires r \<and> d' = d\<lparr>ldLease := Some r\<rparr>"
  by (auto simp: put_lease_def lease_check_def result_simps)

lemma acquire_cases:
  assumes "acquireSchedulerLease h ms d = Inr (answer, d')"
  obtains (taken) r where "answer = Some r" "d' = d\<lparr>ldLease := Some r\<rparr>" "lrHolder r = lhId h" "lrExpires r = ldNow d + ms"
      "\<forall>old. ldLease d = Some old \<longrightarrow> lrExpires old < ldNow d \<or> lrHolder old = lhId h"
      "lrAcquired r = (case ldLease d of Some old \<Rightarrow> if lrHolder old = lhId h then lrAcquired old else ldNow d | None \<Rightarrow> ldNow d)"
  | (elsewhere) old where "answer = None" "d' = d" "ldLease d = Some old" "ldNow d \<le> lrExpires old" "lrHolder old \<noteq> lhId h"
proof (cases "ldLease d")
  case None
  let ?r = "\<lparr>lrHolder = lhId h, lrAcquired = ldNow d, lrExpires = ldNow d + ms, lrHeartbeat = ldNow d, lrVersion = lhVersion h\<rparr>"
  from None assms have "answer = Some ?r \<and> d' = d\<lparr>ldLease := Some ?r\<rparr>"
    by (auto simp: acquireSchedulerLease_def Let_def result_simps put_lease_Inr)
  then show thesis by (intro taken [of ?r]) (simp_all add: None)
next
  case (Some old)
  let ?r = "\<lparr>lrHolder = lhId h, lrAcquired = (if lrHolder old = lhId h then lrAcquired old else ldNow d),
    lrExpires = ldNow d + ms, lrHeartbeat = ldNow d, lrVersion = lhVersion h\<rparr>"
  show thesis
  proof (cases "lrExpires old < ldNow d \<or> lrHolder old = lhId h")
    case True
    with assms Some have "answer = Some ?r \<and> d' = d\<lparr>ldLease := Some ?r\<rparr>"
      by (auto simp: acquireSchedulerLease_def Let_def result_simps put_lease_Inr)
    then show thesis by (intro taken [of ?r]) (simp_all add: Some True)
  next
    case False
    with assms Some have "answer = None" "d' = d"
      by (auto simp: acquireSchedulerLease_def Let_def result_simps)
    moreover have "ldNow d \<le> lrExpires old" "lrHolder old \<noteq> lhId h" using False by auto
    ultimately show thesis using Some by (intro elsewhere)
  qed
qed

lemma renew_cases:
  assumes "renewSchedulerLease h ms d = Inr (ok, d')"
  obtains (renewed) r where "ok" "ldLease d = Some r" "lrHolder r = lhId h" "ldNow d < lrExpires r"
      "d' = d\<lparr>ldLease := Some (r\<lparr>lrExpires := ldNow d + ms, lrHeartbeat := ldNow d\<rparr>)\<rparr>"
  | (lost) "\<not> ok" "d' = d" "\<not> (\<exists>r. ldLease d = Some r \<and> lrHolder r = lhId h \<and> ldNow d < lrExpires r)"
proof (cases "\<exists>r. ldLease d = Some r \<and> lrHolder r = lhId h \<and> ldNow d < lrExpires r")
  case True
  then obtain r where r: "ldLease d = Some r" "lrHolder r = lhId h" "ldNow d < lrExpires r" by blast
  with assms have "ok" "d' = d\<lparr>ldLease := Some (r\<lparr>lrExpires := ldNow d + ms, lrHeartbeat := ldNow d\<rparr>)\<rparr>"
    by (auto simp: renewSchedulerLease_def result_simps put_lease_Inr)
  with r show thesis by (intro renewed [of r])
next
  case False
  with assms have "\<not> ok \<and> d' = d" by (auto simp: renewSchedulerLease_def split: option.splits if_splits)
  with False show thesis by (intro lost) simp_all
qed

text \<open>The lease of one holder outlives every call of another.\<close>

lemma acquire_keeps_other:
  assumes "acquireSchedulerLease h ms d = Inr (answer, d')" "lhId h \<noteq> w" "holds_until w t d"
  shows "holds_until w t d' \<or> t < ldNow d"
  using assms(1) by (cases rule: acquire_cases) (use assms(2,3) in \<open>auto simp: holds_until_def\<close>)

lemma renew_keeps_other:
  assumes "renewSchedulerLease h ms d = Inr (ok, d')" "lhId h \<noteq> w" "holds_until w t d"
  shows "holds_until w t d'"
  using assms(1) by (cases rule: renew_cases) (use assms(2,3) in \<open>auto simp: holds_until_def\<close>)

lemma release_keeps_other: "lhId h \<noteq> w \<Longrightarrow> holds_until w t d \<Longrightarrow> holds_until w t (releaseSchedulerLease h d)"
  by (auto simp: holds_until_def releaseSchedulerLease_def split: option.splits)

lemma heartbeat_lease: "recordHeartbeat w role n v d = Inr d' \<Longrightarrow> ldLease d' = ldLease d \<and> ldNow d' = ldNow d"
  by (auto simp: recordHeartbeat_def Let_def result_simps split: if_splits)

end
