(* ===== verification/Scheduler.thy ===== *)
theory Scheduler
  imports Leases
begin

text \<open>
  \<^verbatim>\<open>apps/worker/src/scheduler.ts\<close>: the loop every worker process runs, and the processes together,
  contending for one lease. A process reads its own clock twice in an iteration and the database
  runs its statements by its own; the readings of an iteration are arguments, as is whether the
  database could be reached. Logging and correlation ids are not modelled, and what a tick does is
  somebody else's.
\<close>

section \<open>One process\<close>

record scheduler_options =
  soHolder :: lease_holder
  soTickMs :: "int option"
  soLeaseMs :: "int option"
  soContendMs :: "int option"

definition DEFAULT_TICK_MS :: int where "DEFAULT_TICK_MS = 30000"
definition DEFAULT_LEASE_MS :: int where "DEFAULT_LEASE_MS = 90000"
definition DEFAULT_CONTEND_MS :: int where "DEFAULT_CONTEND_MS = 10000"

definition or_default :: "int \<Rightarrow> int option \<Rightarrow> int" where
  "or_default x y = (case y of None \<Rightarrow> x | Some v \<Rightarrow> v)"

definition tickIntervalMs :: "scheduler_options \<Rightarrow> int" where
  "tickIntervalMs options = or_default DEFAULT_TICK_MS (soTickMs options)"

definition leaseDurationMs :: "scheduler_options \<Rightarrow> int" where
  "leaseDurationMs options = or_default DEFAULT_LEASE_MS (soLeaseMs options)"

definition contendIntervalMs :: "scheduler_options \<Rightarrow> int" where
  "contendIntervalMs options = or_default DEFAULT_CONTEND_MS (soContendMs options)"

definition renewIntervalMs :: "scheduler_options \<Rightarrow> int" where
  "renewIntervalMs options = leaseDurationMs options div 3"

record process =
  scLeader :: bool
  scRunning :: bool
  scLastTick :: instant
  scLastRenew :: instant

definition created :: process where
  "created = \<lparr>scLeader = False, scRunning = False, scLastTick = 0, scLastRenew = 0\<rparr>"

definition start :: "process \<Rightarrow> process" where
  "start p = (if scRunning p then p else p\<lparr>scRunning := True\<rparr>)"

text \<open>
  What an iteration meets: the clock at its start and before the tick, and whether the database
  answers the lease statement and the heartbeat.
\<close>

record readings =
  rdStart :: instant
  rdTick :: instant
  rdLeaseUp :: bool
  rdBeatUp :: bool

definition when_up :: "bool \<Rightarrow> exn + 'a \<Rightarrow> exn + 'a" where
  "when_up up r = (if up then r else Inl (PlainError ''unreachable''))"

text \<open>The first half of \<open>step\<close>: whether this process goes on as the leader.\<close>

definition contend :: "scheduler_options \<Rightarrow> readings \<Rightarrow> process \<Rightarrow> lease_db \<Rightarrow> exn + bool \<times> process \<times> lease_db" where
  "contend options now p d =
     (if scLeader p
      then if rdStart now - scLastRenew p \<ge> renewIntervalMs options
           then bindR (when_up (rdLeaseUp now) (renewSchedulerLease (soHolder options) (leaseDurationMs options) d)) (\<lambda>(still, d1).
                Inr (still, p\<lparr>scLastRenew := rdStart now, scLeader := still\<rparr>, d1))
           else Inr (True, p, d)
      else bindR (when_up (rdLeaseUp now) (acquireSchedulerLease (soHolder options) (leaseDurationMs options) d)) (\<lambda>(lease, d1).
           if map_option lrHolder lease \<noteq> Some (lhId (soHolder options)) then Inr (False, p, d1)
           else Inr (True, p\<lparr>scLeader := True, scLastRenew := rdStart now, scLastTick := 0\<rparr>, d1)))"

definition step :: "scheduler_options \<Rightarrow> readings \<Rightarrow> process \<Rightarrow> lease_db \<Rightarrow> exn option \<times> bool \<times> process \<times> lease_db" where
  "step options now p d =
     (case contend options now p d of
        Inl e \<Rightarrow> (Some e, False, p, d)
      | Inr (False, p1, d1) \<Rightarrow> (None, False, p1, d1)
      | Inr (True, p1, d1) \<Rightarrow>
          (case when_up (rdBeatUp now)
                  (recordHeartbeat (lhId (soHolder options)) RoleScheduler 0 (lhVersion (soHolder options)) d1) of
             Inl e \<Rightarrow> (Some e, False, p1, d1)
           | Inr d2 \<Rightarrow>
               if rdTick now - scLastTick p1 \<ge> tickIntervalMs options
               then (None, True, p1\<lparr>scLastTick := rdTick now\<rparr>, d2)
               else (None, False, p1, d2)))"

text \<open>
  \<open>iterate\<close>: whether it ticked, and how long until the next one (\<open>None\<close> when the loop has been
  stopped).
\<close>

definition iterate :: "scheduler_options \<Rightarrow> readings \<Rightarrow> process \<Rightarrow> lease_db \<Rightarrow> (bool \<times> int option) \<times> process \<times> lease_db" where
  "iterate options now p d =
     (if \<not> scRunning p then ((False, None), p, d)
      else case step options now p d of (failure, ticked, p1, d1) \<Rightarrow>
        let p2 = (if failure = None then p1 else p1\<lparr>scLeader := False\<rparr>)
        in ((ticked, Some (if scLeader p2 then min (renewIntervalMs options) (tickIntervalMs options)
                           else contendIntervalMs options)), p2, d1))"

definition stop :: "scheduler_options \<Rightarrow> bool \<Rightarrow> process \<Rightarrow> lease_db \<Rightarrow> process \<times> lease_db" where
  "stop options up p d =
     (if scLeader p
      then (p\<lparr>scRunning := False, scLeader := False\<rparr>, if up then releaseSchedulerLease (soHolder options) d else d)
      else (p\<lparr>scRunning := False\<rparr>, d))"

section \<open>The processes together\<close>

record cluster =
  clDb :: lease_db
  clProcess :: "uuid \<Rightarrow> process"

text \<open>
  Each process has its own options under its holder id, and a clock of its own: \<open>clk w t\<close> is what the
  clock of \<open>w\<close> shows at the moment the database's shows \<open>t\<close>. Nothing is asked of these clocks here;
  they may be set wrong, run fast or slow, and jump. An iteration reads its clock once before its
  statements reach the database and once after. A tick lasts as long as nothing else of its process
  happens: \<open>iterate\<close> waits for it before it schedules the next iteration, and \<open>stop\<close> for the iteration.
\<close>

inductive cluster_step :: "(uuid \<Rightarrow> scheduler_options) \<Rightarrow> (uuid \<Rightarrow> instant \<Rightarrow> instant) \<Rightarrow> cluster \<Rightarrow> cluster \<Rightarrow> bool"
  for options :: "uuid \<Rightarrow> scheduler_options" and clk :: "uuid \<Rightarrow> instant \<Rightarrow> instant" where
  iterated: "rdStart now = clk w t0 \<Longrightarrow> t0 \<le> ldNow (clDb c) \<Longrightarrow> rdTick now = clk w t1 \<Longrightarrow> ldNow (clDb c) \<le> t1 \<Longrightarrow>
     iterate (options w) now (clProcess c w) (clDb c) = (r, p, d) \<Longrightarrow>
     cluster_step options clk c (c\<lparr>clDb := d, clProcess := (clProcess c)(w := p)\<rparr>)"
| started: "cluster_step options clk c (c\<lparr>clProcess := (clProcess c)(w := start (clProcess c w))\<rparr>)"
| stopped: "stop (options w) up (clProcess c w) (clDb c) = (p, d) \<Longrightarrow>
     cluster_step options clk c (c\<lparr>clDb := d, clProcess := (clProcess c)(w := p)\<rparr>)"
| replaced: "cluster_step options clk c (c\<lparr>clProcess := (clProcess c)(w := created)\<rparr>)"
| later: "ldNow (clDb c) \<le> t \<Longrightarrow> cluster_step options clk c (c\<lparr>clDb := (clDb c)\<lparr>ldNow := t\<rparr>\<rparr>)"
| reported: "recordHeartbeat w RoleWorker n v (clDb c) = Inr d \<Longrightarrow> cluster_step options clk c (c\<lparr>clDb := d\<rparr>)"

inductive_cases cluster_stepE: "cluster_step options clk c c'"

text \<open>
  A process that takes itself for the leader has the lease for its whole duration from the moment it
  read its clock for the last renewal, or that duration has passed.
\<close>

definition leads :: "scheduler_options \<Rightarrow> (instant \<Rightarrow> instant) \<Rightarrow> uuid \<Rightarrow> process \<Rightarrow> lease_db \<Rightarrow> bool" where
  "leads options clock w p d \<longleftrightarrow> (scLeader p \<longrightarrow> (\<exists>t0. scLastRenew p = clock t0
     \<and> (holds_until w (t0 + leaseDurationMs options) d \<or> t0 + leaseDurationMs options \<le> ldNow d)))"

definition election_good :: "(uuid \<Rightarrow> scheduler_options) \<Rightarrow> (uuid \<Rightarrow> instant \<Rightarrow> instant) \<Rightarrow> cluster \<Rightarrow> bool" where
  "election_good options clk c \<longleftrightarrow> (\<forall>w. leads (options w) (clk w) w (clProcess c w) (clDb c))"

lemma contend_now: "contend options now p d = Inr (go, p', d') \<Longrightarrow> ldNow d' = ldNow d"
  by (auto simp: contend_def when_up_def result_simps split: if_splits elim: renew_cases acquire_cases)

lemma contend_leads:
  assumes "contend options now p d = Inr (go, p', d')" "leads options clock w p d" "rdStart now = clock t0" "t0 \<le> ldNow d"
    "lhId (soHolder options) = w"
  shows "leads options clock w p' d'" "go \<longleftrightarrow> scLeader p'"
    "go \<Longrightarrow> holds_until w (t0 + leaseDurationMs options) d'
      \<or> p' = p \<and> d' = d \<and> rdStart now < scLastRenew p + renewIntervalMs options"
proof -
  have "leads options clock w p' d' \<and> (go \<longleftrightarrow> scLeader p') \<and> (go \<longrightarrow>
      holds_until w (t0 + leaseDurationMs options) d'
      \<or> p' = p \<and> d' = d \<and> rdStart now < scLastRenew p + renewIntervalMs options)"
  proof (cases "scLeader p")
    case leader: True
    show ?thesis
    proof (cases "rdStart now - scLastRenew p \<ge> renewIntervalMs options")
      case True
      with leader assms(1) have r: "renewSchedulerLease (soHolder options) (leaseDurationMs options) d = Inr (go, d')"
        and p': "p' = p\<lparr>scLastRenew := rdStart now, scLeader := go\<rparr>"
        by (auto simp: contend_def when_up_def result_simps split: if_splits)
      from r show ?thesis
      proof (cases rule: renew_cases)
        case (renewed r)
        then have "holds_until w (t0 + leaseDurationMs options) d'"
          using assms(4,5) by (auto simp: holds_until_def)
        with renewed(1) p' assms(3) show ?thesis unfolding leads_def by simp blast
      next
        case lost
        with p' show ?thesis by (simp add: leads_def)
      qed
    next
      case False
      with leader assms(1,2) show ?thesis by (simp add: contend_def)
    qed
  next
    case follower: False
    with assms(1) obtain lease where l: "acquireSchedulerLease (soHolder options) (leaseDurationMs options) d = Inr (lease, d')"
      and p': "if map_option lrHolder lease \<noteq> Some w then \<not> go \<and> p' = p
        else go \<and> p' = p\<lparr>scLeader := True, scLastRenew := rdStart now, scLastTick := 0\<rparr>"
      using assms(5) by (auto simp: contend_def when_up_def result_simps split: if_splits)
    from l show ?thesis
    proof (cases rule: acquire_cases)
      case (taken r)
      then have "holds_until w (t0 + leaseDurationMs options) d'"
        using assms(4,5) by (auto simp: holds_until_def)
      with taken(1,3) p' assms(3,5) show ?thesis unfolding leads_def by simp blast
    next
      case (elsewhere old)
      with p' follower show ?thesis by (simp add: leads_def)
    qed
  qed
  then show "leads options clock w p' d'" "go \<longleftrightarrow> scLeader p'"
    "go \<Longrightarrow> holds_until w (t0 + leaseDurationMs options) d'
      \<or> p' = p \<and> d' = d \<and> rdStart now < scLastRenew p + renewIntervalMs options" by blast+
qed

lemma contend_keeps_other:
  assumes "contend options now p d = Inr (go, p', d')" "lhId (soHolder options) \<noteq> w" "holds_until w t d"
  shows "holds_until w t d' \<or> t < ldNow d"
  using assms(1) acquire_keeps_other [OF _ assms(2,3)] renew_keeps_other [OF _ assms(2,3)] assms(3)
  by (auto simp: contend_def when_up_def result_simps split: if_splits)

lemma iterate_shape:
  assumes "iterate options now p d = ((ticked, delay), p', d')"
  shows "\<not> ticked \<and> (p' = p \<or> p' = p\<lparr>scLeader := False\<rparr>) \<and> d' = d
    \<or> (\<exists>go p1 d1. contend options now p d = Inr (go, p1, d1) \<and> ldLease d' = ldLease d1 \<and> ldNow d' = ldNow d1
        \<and> (scLeader p' \<longrightarrow> scLeader p1 \<and> scLastRenew p' = scLastRenew p1) \<and> (ticked \<longrightarrow> go))"
proof (cases "scRunning p")
  case running: True
  show ?thesis
  proof (cases "contend options now p d")
    case (Inl e)
    with running assms show ?thesis by (simp add: iterate_def step_def)
  next
    case (Inr x)
    then obtain go p1 d1 where c: "contend options now p d = Inr (go, p1, d1)" by (cases x) auto
    have "ldLease d' = ldLease d1 \<and> ldNow d' = ldNow d1 \<and> (scLeader p' \<longrightarrow> scLeader p1 \<and> scLastRenew p' = scLastRenew p1)
        \<and> (ticked \<longrightarrow> go)"
    proof (cases "go \<and> (\<exists>d2. when_up (rdBeatUp now) (recordHeartbeat (lhId (soHolder options)) RoleScheduler 0
        (lhVersion (soHolder options)) d1) = Inr d2)")
      case True
      then obtain d2 where up: "when_up (rdBeatUp now) (recordHeartbeat (lhId (soHolder options)) RoleScheduler 0
        (lhVersion (soHolder options)) d1) = Inr d2" and go by blast
      then have "ldLease d2 = ldLease d1 \<and> ldNow d2 = ldNow d1"
        by (auto simp: when_up_def dest: heartbeat_lease split: if_splits)
      with running assms c up \<open>go\<close> show ?thesis by (auto simp: iterate_def step_def Let_def split: if_splits)
    next
      case False
      with running assms c show ?thesis
        by (auto simp: iterate_def step_def Let_def split: bool.splits sum.splits if_splits)
    qed
    with c show ?thesis by blast
  qed
qed (use assms in \<open>simp add: iterate_def\<close>)

lemma leads_kept:
  assumes "leads options clock w p d" "ldNow d \<le> ldNow d'"
    and "\<And>t. holds_until w t d \<Longrightarrow> holds_until w t d' \<or> t < ldNow d"
  shows "leads options clock w p d'"
  unfolding leads_def
proof
  assume "scLeader p"
  with assms(1) obtain t0 where t0: "scLastRenew p = clock t0"
    "holds_until w (t0 + leaseDurationMs options) d \<or> t0 + leaseDurationMs options \<le> ldNow d" by (auto simp: leads_def)
  with assms(2) assms(3) [of "t0 + leaseDurationMs options"]
  have "holds_until w (t0 + leaseDurationMs options) d' \<or> t0 + leaseDurationMs options \<le> ldNow d'" by linarith
  with t0(1) show "\<exists>t0. scLastRenew p = clock t0
    \<and> (holds_until w (t0 + leaseDurationMs options) d' \<or> t0 + leaseDurationMs options \<le> ldNow d')" by blast
qed

lemma leads_given_up: "leads options clock w p d \<Longrightarrow> p' = p \<or> p' = p\<lparr>scLeader := False\<rparr> \<Longrightarrow> leads options clock w p' d"
  unfolding leads_def by (elim disjE) simp_all

lemma iterate_leads:
  assumes "iterate (options w) now (clProcess c w) (clDb c) = ((ticked, delay), p, d)" and "election_good options clk c"
    and "rdStart now = clk w t0" and "t0 \<le> ldNow (clDb c)" and "\<And>v. lhId (soHolder (options v)) = v"
  shows "election_good options clk (c\<lparr>clDb := d, clProcess := (clProcess c)(w := p)\<rparr>)"
  using iterate_shape [OF assms(1)]
proof (elim disjE)
  assume "\<not> ticked \<and> (p = clProcess c w \<or> p = (clProcess c w)\<lparr>scLeader := False\<rparr>) \<and> d = clDb c"
  with assms(2) show ?thesis using leads_given_up [of "options w" "clk w" w "clProcess c w" "clDb c" p]
    by (simp add: election_good_def)
next
  assume "\<exists>go p1 d1. contend (options w) now (clProcess c w) (clDb c) = Inr (go, p1, d1) \<and> ldLease d = ldLease d1
    \<and> ldNow d = ldNow d1 \<and> (scLeader p \<longrightarrow> scLeader p1 \<and> scLastRenew p = scLastRenew p1) \<and> (ticked \<longrightarrow> go)"
  then obtain go p1 d1 where con: "contend (options w) now (clProcess c w) (clDb c) = Inr (go, p1, d1)"
    and d: "ldLease d = ldLease d1" "ldNow d = ldNow d1" and p: "scLeader p \<Longrightarrow> scLeader p1 \<and> scLastRenew p = scLastRenew p1"
    by blast
  have same: "holds_until v t d = holds_until v t d1" for v t by (simp add: holds_until_def d(1))
  have "leads (options v) (clk v) v (((clProcess c)(w := p)) v) d" for v
  proof (cases "v = w")
    case True
    have "leads (options w) (clk w) w (clProcess c w) (clDb c)" using assms(2) by (simp add: election_good_def)
    then have "leads (options w) (clk w) w p1 d1"
      by (rule contend_leads(1) [where clock = "clk w", OF con _ assms(3,4,5)])
    with True p show ?thesis by (auto simp: leads_def same d(2))
  next
    case False
    have "holds_until v t (clDb c) \<Longrightarrow> holds_until v t d \<or> t < ldNow (clDb c)" for t
      using contend_keeps_other [OF con, of v] False assms(5) by (simp add: same)
    moreover have "ldNow (clDb c) \<le> ldNow d" using contend_now [OF con] d(2) by simp
    ultimately show ?thesis using leads_kept [of "options v" "clk v" v "clProcess c v" "clDb c" d] assms(2) False
      by (simp add: election_good_def)
  qed
  then show ?thesis by (simp add: election_good_def)
qed

lemma cluster_step_good:
  assumes "cluster_step options clk c c'" "election_good options clk c" "\<And>v. lhId (soHolder (options v)) = v"
  shows "election_good options clk c'"
  using assms(1,2)
proof (induction rule: cluster_step.induct)
  case (iterated now w t0 c t1 r p d)
  obtain ticked delay where "r = (ticked, delay)" by (cases r)
  with iterated show ?case using iterate_leads [where options = options and clk = clk] assms(3) by blast
next
  case (stopped w up c p d)
  have "leads (options v) (clk v) v (((clProcess c)(w := p)) v) d" for v
  proof (cases "v = w")
    case True
    with stopped(1) show ?thesis by (auto simp: stop_def leads_def split: if_splits)
  next
    case False
    have "holds_until v t (clDb c) \<Longrightarrow> holds_until v t d \<or> t < ldNow (clDb c)" for t
      using stopped(1) release_keeps_other [of "soHolder (options w)" v t "clDb c"] False assms(3)
      by (auto simp: stop_def split: if_splits)
    moreover have "ldNow (clDb c) \<le> ldNow d"
      using stopped(1) by (auto simp: stop_def releaseSchedulerLease_def split: if_splits option.splits)
    ultimately show ?thesis using leads_kept [of "options v" "clk v" v "clProcess c v" "clDb c" d] stopped(2) False
      by (simp add: election_good_def)
  qed
  then show ?case by (simp add: election_good_def)
next
  case (later c t)
  have "leads (options v) (clk v) v (clProcess c v) ((clDb c)\<lparr>ldNow := t\<rparr>)" for v
    using later leads_kept [of "options v" "clk v" v "clProcess c v" "clDb c" "(clDb c)\<lparr>ldNow := t\<rparr>"]
    by (simp add: election_good_def holds_until_def)
  then show ?case by (simp add: election_good_def)
next
  case (reported w n v c d)
  then show ?case using heartbeat_lease [OF reported(1)] by (simp add: election_good_def leads_def holds_until_def)
qed (auto simp: election_good_def leads_def start_def created_def)

lemma cluster_good:
  assumes "(cluster_step options clk)\<^sup>*\<^sup>* c c'" "election_good options clk c" "\<And>v. lhId (soHolder (options v)) = v"
  shows "election_good options clk c'"
  using assms(1,2) by (induction rule: rtranclp_induct) (blast intro: cluster_step_good assms(3))+

section \<open>Ticking and taking over\<close>

definition fresh_cluster :: "instant \<Rightarrow> cluster" where
  "fresh_cluster now = \<lparr>clDb = \<lparr>ldNow = now, ldLease = None, ldHeartbeats = []\<rparr>, clProcess = (\<lambda>w. created)\<rparr>"

lemma fresh_good: "election_good options clk (fresh_cluster now)"
  by (simp add: election_good_def leads_def fresh_cluster_def created_def)

text \<open>
  C37: However the processes start, stop, crash, lose the database and contend, and however wrong their
  clocks are set, a process that starts a tick holds the lease at that moment of the database's
  clock, on two conditions about itself alone: while the database's clock advances by a whole lease
  or more its own advances by at least a lease less \<open>lag\<close>, and between the two clock readings of
  the iteration no more passes on it than the lease exceeds the renewal interval and \<open>lag\<close> by. A
  clock that loses more than that, or jumps back, is not caught.
\<close>

theorem ticks_hold_the_lease:
  assumes "(cluster_step options clk)\<^sup>*\<^sup>* (fresh_cluster t) c" and "\<And>v. lhId (soHolder (options v)) = v"
    and "iterate (options w) now (clProcess c w) (clDb c) = ((True, delay), p, d)"
    and "rdStart now = clk w t0" and "t0 \<le> ldNow (clDb c)" and "rdTick now = clk w t1" and "ldNow (clDb c) \<le> t1"
    and "\<And>u u'. u + leaseDurationMs (options w) \<le> u' \<Longrightarrow> leaseDurationMs (options w) - lag \<le> clk w u' - clk w u"
    and "rdTick now - rdStart now < leaseDurationMs (options w) - renewIntervalMs (options w) - lag"
    and "0 \<le> leaseDurationMs (options w)"
  shows "\<exists>r. ldLease d = Some r \<and> lrHolder r = w \<and> t1 < lrExpires r \<and> scLeader p"
proof -
  have good: "election_good options clk c" using assms(1) fresh_good assms(2) by (rule cluster_good)
  then have leads: "leads (options w) (clk w) w (clProcess c w) (clDb c)" by (simp add: election_good_def)
  from iterate_shape [OF assms(3)] obtain p1 d1
    where con: "contend (options w) now (clProcess c w) (clDb c) = Inr (True, p1, d1)" and d: "ldLease d = ldLease d1"
    by auto
  note led = contend_leads [where clock = "clk w" and w = w, OF con leads assms(4,5,2)]
  have "scLeader p1" using led(2) by simp
  have lp: "scLeader p"
    using assms(3) con \<open>scLeader p1\<close> by (auto simp: iterate_def step_def Let_def split: sum.splits if_splits)
  have renew: "0 \<le> renewIntervalMs (options w)" using assms(10) by (simp add: renewIntervalMs_def)
  obtain u where "holds_until w (u + leaseDurationMs (options w)) d1" "t1 < u + leaseDurationMs (options w)"
  proof (cases "holds_until w (t0 + leaseDurationMs (options w)) d1")
    case True
    moreover have "t1 < t0 + leaseDurationMs (options w)" using assms(8) [of t0 t1] assms(4,6,9) renew by linarith
    ultimately show ?thesis by (rule that)
  next
    case False
    with led(3) have same: "p1 = clProcess c w" "d1 = clDb c"
      and start: "rdStart now < scLastRenew (clProcess c w) + renewIntervalMs (options w)" by auto
    from leads \<open>scLeader p1\<close> same obtain u where u: "scLastRenew (clProcess c w) = clk w u"
      "holds_until w (u + leaseDurationMs (options w)) d1 \<or> u + leaseDurationMs (options w) \<le> ldNow d1"
      by (auto simp: leads_def)
    moreover have "t1 < u + leaseDurationMs (options w)" using assms(8) [of u t1] assms(6,9) start u(1) by linarith
    moreover from this assms(7) same(2) have "\<not> u + leaseDurationMs (options w) \<le> ldNow d1" by simp
    ultimately show ?thesis using that by blast
  qed
  with lp show ?thesis by (auto simp: holds_until_def d)
qed

definition plain :: "uuid \<Rightarrow> scheduler_options" where
  "plain w = \<lparr>soHolder = \<lparr>lhId = w, lhVersion = None\<rparr>, soTickMs = None, soLeaseMs = None, soContendMs = None\<rparr>"

definition at_once :: "instant \<Rightarrow> readings" where
  "at_once t = \<lparr>rdStart = t, rdTick = t, rdLeaseUp = True, rdBeatUp = True\<rparr>"

definition one_started :: cluster where
  "one_started = (fresh_cluster 100000)\<lparr>clProcess := (clProcess (fresh_cluster 100000))(7 := start created)\<rparr>"

text \<open>A process whose clock is an hour ahead of the database's.\<close>

definition ahead :: "uuid \<Rightarrow> instant \<Rightarrow> instant" where
  "ahead w t = t + 3600000"

lemma one_started_reachable: "(cluster_step plain ahead)\<^sup>*\<^sup>* (fresh_cluster 100000) one_started"
proof -
  have "cluster_step plain ahead (fresh_cluster 100000) one_started"
    using cluster_step.started [of plain ahead "fresh_cluster 100000" 7] by (simp add: one_started_def fresh_cluster_def)
  then show ?thesis by blast
qed

theorem ticks_hold_the_lease_witness:
  "\<exists>delay p d r. iterate (plain 7) (at_once 3700000) (clProcess one_started 7) (clDb one_started) = ((True, delay), p, d)
    \<and> ldLease d = Some r \<and> lrHolder r = 7 \<and> 100000 < lrExpires r"
proof -
  let ?i = "iterate (plain 7) (at_once 3700000) (clProcess one_started 7) (clDb one_started)"
  have "fst (fst ?i)" by code_simp
  then obtain delay p d where i: "?i = ((True, delay), p, d)" by (cases ?i) auto
  have holder: "lhId (soHolder (plain v)) = v" for v by (simp add: plain_def)
  have clock: "leaseDurationMs (plain 7) - 0 \<le> ahead 7 u' - ahead 7 u" if "u + leaseDurationMs (plain 7) \<le> u'" for u u'
    using that by (simp add: ahead_def)
  have "rdStart (at_once 3700000) = ahead 7 100000" "100000 \<le> ldNow (clDb one_started)"
    "rdTick (at_once 3700000) = ahead 7 100000" "ldNow (clDb one_started) \<le> 100000"
    "rdTick (at_once 3700000) - rdStart (at_once 3700000) < leaseDurationMs (plain 7) - renewIntervalMs (plain 7) - 0"
    "0 \<le> leaseDurationMs (plain 7)" by code_simp+
  from ticks_hold_the_lease [OF one_started_reachable holder i this(1-4) clock this(5,6)] i show ?thesis by blast
qed

text \<open>
  C38: Nobody has to step in for a dead leader. Once its lease has run out, the first iteration of a
  running follower that reaches the database takes the lease for a full duration and ticks at once. A
  running process that still takes itself for the leader, its renewal due, fails to renew, does not
  tick, leaves the lease as it is and comes back as a follower after the contending interval.
\<close>

theorem follower_takes_over:
  assumes "scRunning p" and "\<forall>r. ldLease d = Some r \<longrightarrow> lrAcquired r < lrExpires r \<and> lrExpires r < ldNow d"
    and "rdLeaseUp now" and "rdBeatUp now" and "0 < leaseDurationMs options" and "tickIntervalMs options \<le> rdTick now"
  shows "(\<not> scLeader p \<longrightarrow> (\<exists>delay p' d' r. iterate options now p d = ((True, Some delay), p', d') \<and> scLeader p'
      \<and> ldLease d' = Some r \<and> lrHolder r = lhId (soHolder options) \<and> lrExpires r = ldNow d + leaseDurationMs options))
    \<and> (scLeader p \<and> renewIntervalMs options \<le> rdStart now - scLastRenew p \<longrightarrow>
      (\<exists>p'. iterate options now p d = ((False, Some (contendIntervalMs options)), p', d) \<and> scRunning p' \<and> \<not> scLeader p'))"
proof (intro conjI impI)
  assume follower: "\<not> scLeader p"
  have "\<exists>r d1. acquireSchedulerLease (soHolder options) (leaseDurationMs options) d = Inr (Some r, d1)"
    using assms(2,5) by (cases "ldLease d") (auto simp: acquireSchedulerLease_def Let_def lease_check_def put_lease_def)
  then obtain r d1 where a: "acquireSchedulerLease (soHolder options) (leaseDurationMs options) d = Inr (Some r, d1)"
    by blast
  then have r: "ldLease d1 = Some r" "lrHolder r = lhId (soHolder options)" "lrExpires r = ldNow d + leaseDurationMs options"
    by (cases rule: acquire_cases; simp)+
  let ?p = "p\<lparr>scLeader := True, scLastRenew := rdStart now, scLastTick := 0\<rparr>"
  have c: "contend options now p d = Inr (True, ?p, d1)"
    using follower assms(3) a r(2) by (simp add: contend_def when_up_def)
  have "heartbeat_check \<lparr>hbWorker = w, hbRole = RoleScheduler, hbStarted = s, hbSeen = s, hbVersion = v, hbActive = 0\<rparr> = Inr ()" for w s v
    by (simp add: heartbeat_check_def int4_def)
  then obtain d2 where b: "recordHeartbeat (lhId (soHolder options)) RoleScheduler 0 (lhVersion (soHolder options)) d1 = Inr d2"
    by (cases "list_ex (\<lambda>r. hbWorker r = lhId (soHolder options)) (ldHeartbeats d1)") (simp_all add: recordHeartbeat_def Let_def)
  with assms(1,4,6) c have "iterate options now p d = ((True, Some (min (renewIntervalMs options) (tickIntervalMs options))),
      ?p\<lparr>scLastTick := rdTick now\<rparr>, d2)"
    by (simp add: iterate_def step_def when_up_def)
  with r heartbeat_lease [OF b] show "\<exists>delay p' d' r. iterate options now p d = ((True, Some delay), p', d') \<and> scLeader p'
      \<and> ldLease d' = Some r \<and> lrHolder r = lhId (soHolder options) \<and> lrExpires r = ldNow d + leaseDurationMs options" by auto
next
  assume leader: "scLeader p \<and> renewIntervalMs options \<le> rdStart now - scLastRenew p"
  have "renewSchedulerLease (soHolder options) (leaseDurationMs options) d = Inr (False, d)"
    using assms(2) by (auto simp: renewSchedulerLease_def split: option.splits)
  with leader assms(1,3) show "\<exists>p'. iterate options now p d = ((False, Some (contendIntervalMs options)), p', d)
      \<and> scRunning p' \<and> \<not> scLeader p'"
    by (simp add: iterate_def step_def contend_def when_up_def Let_def)
qed

definition lapsed :: lease_db where
  "lapsed = \<lparr>ldNow = 200000, ldLease = Some \<lparr>lrHolder = 7, lrAcquired = 0, lrExpires = 190000, lrHeartbeat = 100000,
     lrVersion = None\<rparr>, ldHeartbeats = []\<rparr>"

definition was_leading :: process where
  "was_leading = \<lparr>scLeader = True, scRunning = True, scLastTick = 100000, scLastRenew = 100000\<rparr>"

theorem follower_takes_over_witness:
  "(\<exists>delay p' d' r. iterate (plain 8) (at_once 200000) (start created) lapsed = ((True, Some delay), p', d') \<and> scLeader p'
      \<and> ldLease d' = Some r \<and> lrHolder r = 8)
    \<and> (\<exists>p'. iterate (plain 7) (at_once 200000) was_leading lapsed = ((False, Some 10000), p', lapsed) \<and> \<not> scLeader p')"
proof -
  note defs = start_def created_def lapsed_def at_once_def plain_def leaseDurationMs_def tickIntervalMs_def was_leading_def
    contendIntervalMs_def renewIntervalMs_def or_default_def DEFAULT_LEASE_MS_def DEFAULT_TICK_MS_def DEFAULT_CONTEND_MS_def
  have "scRunning (start created)" "scRunning was_leading" "\<not> scLeader (start created)" "scLeader was_leading"
    "\<forall>r. ldLease lapsed = Some r \<longrightarrow> lrAcquired r < lrExpires r \<and> lrExpires r < ldNow lapsed"
    "rdLeaseUp (at_once 200000)" "rdBeatUp (at_once 200000)" "0 < leaseDurationMs (plain w)"
    "tickIntervalMs (plain w) \<le> rdTick (at_once 200000)" "lhId (soHolder (plain 8)) = 8" "contendIntervalMs (plain 7) = 10000"
    "renewIntervalMs (plain 7) \<le> rdStart (at_once 200000) - scLastRenew was_leading" for w
    by (simp_all add: defs)
  with follower_takes_over [of "start created" lapsed "at_once 200000" "plain 8"]
    follower_takes_over [of was_leading lapsed "at_once 200000" "plain 7"] show ?thesis by auto
qed

end
