(* ===== verification/Market.thy ===== *)
theory Market
  imports Kits
begin

text \<open>
  The tables between the stock and the channels: what a provider sells
  (\<^verbatim>\<open>db/src/schema/provider-mirror.ts\<close>) and which canonical item sells as it
  (\<^verbatim>\<open>db/src/schema/mappings.ts\<close>), with the constraints of migrations 0006 and 0011. The stock
  database is a component of the state; the provider of a connection never changes and is a
  function. Columns no modelled operation reads are left out.
\<close>

section \<open>Rows\<close>

datatype provider = Ebay | WooCommerce

datatype mapping_status = MappingDraft | MappingApproved | MappingActive | MappingPaused | MappingArchived

record provider_item =
  piId :: uuid
  piBusiness :: uuid
  piConnection :: uuid
  piExternal :: string
  piParent :: "string option"
  piSku :: "string option"
  piQuantity :: "int option"
  piBackorders :: bool
  piEligible :: bool
  piIneligible :: "string option"
  piMissing :: "instant option"

record mapping =
  mpId :: uuid
  mpBusiness :: uuid
  mpConnection :: uuid
  mpProviderItem :: uuid
  mpItem :: uuid
  mpStatus :: mapping_status
  mpPauseReason :: "string option"
  mpBuffer :: int
  mpCap :: "int option"
  mpVersion :: int
  mpCreatedBy :: "uuid option"
  mpApprovedBy :: "uuid option"
  mpApprovedAt :: "instant option"
  mpActivatedAt :: "instant option"
  mpArchivedAt :: "instant option"
  mpCreatedAt :: instant

record mapping_location =
  mlBusiness :: uuid
  mlMapping :: uuid
  mlLocation :: uuid

record mapping_version =
  hvBusiness :: uuid
  hvMapping :: uuid
  hvVersion :: int
  hvItem :: uuid
  hvBuffer :: int
  hvCap :: "int option"
  hvLocations :: "uuid list"
  hvStatus :: mapping_status
  hvReason :: "string option"
  hvBy :: "uuid option"
  hvCreatedAt :: instant

record market =
  mkStock :: db
  mkProvider :: "uuid \<Rightarrow> provider"
  mkItems :: "provider_item list"
  mkMappings :: "mapping list"
  mkSelected :: "mapping_location list"
  mkVersions :: "mapping_version list"

section \<open>channel_mappings\<close>

definition mapping_check :: "mapping \<Rightarrow> exn + unit" where
  "mapping_check r = check_all [
     (int4 (mpBuffer r) \<and> int4 (mpVersion r), NumericValueOutOfRange),
     (case mpCap r of None \<Rightarrow> True | Some n \<Rightarrow> int4 n, NumericValueOutOfRange),
     (0 \<le> mpBuffer r, CheckViolation ''channel_mappings_buffer_nonnegative''),
     (case mpCap r of None \<Rightarrow> True | Some n \<Rightarrow> 0 \<le> n, CheckViolation ''channel_mappings_cap_nonnegative''),
     (1 \<le> mpVersion r, CheckViolation ''channel_mappings_version_positive''),
     (mpStatus r \<in> {MappingApproved, MappingActive, MappingPaused} \<longrightarrow> mpApprovedAt r \<noteq> None,
        CheckViolation ''channel_mappings_approval_recorded''),
     (mpStatus r = MappingActive \<longrightarrow> mpActivatedAt r \<noteq> None,
        CheckViolation ''channel_mappings_activation_recorded''),
     ((mpStatus r = MappingArchived) = (mpArchivedAt r \<noteq> None),
        CheckViolation ''channel_mappings_archival_recorded''),
     ((mpStatus r = MappingPaused) = (mpPauseReason r \<noteq> None),
        CheckViolation ''channel_mappings_pause_explained'')]"

definition provider_item_in :: "market \<Rightarrow> uuid \<Rightarrow> uuid \<Rightarrow> bool" where
  "provider_item_in m b i = list_ex (\<lambda>r. piBusiness r = b \<and> piId r = i) (mkItems m)"

definition mapping_refs :: "market \<Rightarrow> mapping \<Rightarrow> exn + unit" where
  "mapping_refs m r = check_all [
     (item_in (mkStock m) (mpBusiness r) (mpItem r), ForeignKeyViolation ''channel_mappings_item_fkey''),
     (connection_in (mkStock m) (mpBusiness r) (mpConnection r),
        ForeignKeyViolation ''channel_mappings_connection_fkey''),
     (provider_item_in m (mpBusiness r) (mpProviderItem r),
        ForeignKeyViolation ''channel_mappings_provider_item_fkey''),
     (opt_in (mpCreatedBy r) (dbUsers (mkStock m)), ForeignKeyViolation ''channel_mappings_created_by_user_id_fkey''),
     (opt_in (mpApprovedBy r) (dbUsers (mkStock m)), ForeignKeyViolation ''channel_mappings_approved_by_user_id_fkey'')]"

text \<open>The partial unique index \<open>channel_mappings_one_live_per_entity\<close>.\<close>

definition live_entity :: "mapping \<Rightarrow> uuid option" where
  "live_entity r = (if mpStatus r = MappingArchived then None else Some (mpProviderItem r))"

definition insert_mapping :: "mapping \<Rightarrow> market \<Rightarrow> exn + market" where
  "insert_mapping r m =
     bindR (mapping_check r) (\<lambda>_.
     if live_entity r \<noteq> None \<and> list_ex (\<lambda>s. live_entity s = live_entity r) (mkMappings m)
     then Inl (UniqueViolation ''channel_mappings_one_live_per_entity'')
     else bindR (mapping_refs m r) (\<lambda>_. Inr (m\<lparr>mkMappings := mkMappings m @ [r]\<rparr>)))"

definition update_mappings :: "(mapping \<Rightarrow> bool) \<Rightarrow> (mapping \<Rightarrow> mapping) \<Rightarrow> market \<Rightarrow> exn + market" where
  "update_mappings p f m =
     bindR (update_checked p f (\<lambda>r. bindR (mapping_check r) (\<lambda>_. mapping_refs m r)) (mkMappings m)) (\<lambda>rows.
     if unique_on live_entity rows then Inr (m\<lparr>mkMappings := rows\<rparr>)
     else Inl (UniqueViolation ''channel_mappings_one_live_per_entity''))"

section \<open>channel_mapping_locations and channel_mapping_versions\<close>

definition mapping_in :: "market \<Rightarrow> uuid \<Rightarrow> uuid \<Rightarrow> bool" where
  "mapping_in m b i = list_ex (\<lambda>r. mpBusiness r = b \<and> mpId r = i) (mkMappings m)"

definition insert_selected :: "mapping_location \<Rightarrow> market \<Rightarrow> exn + market" where
  "insert_selected r m =
     bindR (check_all [
       ((mlMapping r, mlLocation r) \<notin> set (map (\<lambda>s. (mlMapping s, mlLocation s)) (mkSelected m)),
          UniqueViolation ''channel_mapping_locations_pkey''),
       (mapping_in m (mlBusiness r) (mlMapping r), ForeignKeyViolation ''channel_mapping_locations_mapping_fkey''),
       (location_in (mkStock m) (mlBusiness r) (mlLocation r),
          ForeignKeyViolation ''channel_mapping_locations_location_fkey'')]) (\<lambda>_.
     Inr (m\<lparr>mkSelected := mkSelected m @ [r]\<rparr>))"

definition delete_selected :: "uuid \<Rightarrow> market \<Rightarrow> market" where
  "delete_selected i m = m\<lparr>mkSelected := filter (\<lambda>r. mlMapping r \<noteq> i) (mkSelected m)\<rparr>"

definition selected_for :: "market \<Rightarrow> uuid \<Rightarrow> uuid list" where
  "selected_for m i = map mlLocation (filter (\<lambda>r. mlMapping r = i) (mkSelected m))"

definition insert_version :: "mapping_version \<Rightarrow> market \<Rightarrow> exn + market" where
  "insert_version r m =
     bindR (check_all [
       (int4 (hvVersion r) \<and> int4 (hvBuffer r), NumericValueOutOfRange),
       (1 \<le> hvVersion r, CheckViolation ''channel_mapping_versions_version_positive''),
       ((hvMapping r, hvVersion r) \<notin> set (map (\<lambda>s. (hvMapping s, hvVersion s)) (mkVersions m)),
          UniqueViolation ''channel_mapping_versions_unique''),
       (mapping_in m (hvBusiness r) (hvMapping r), ForeignKeyViolation ''channel_mapping_versions_mapping_fkey''),
       (opt_in (hvBy r) (dbUsers (mkStock m)), ForeignKeyViolation ''channel_mapping_versions_created_by_user_id_fkey'')]) (\<lambda>_.
     Inr (m\<lparr>mkVersions := mkVersions m @ [r]\<rparr>))"

section \<open>Reading\<close>

definition provider_item_of :: "market \<Rightarrow> mapping \<Rightarrow> provider_item option" where
  "provider_item_of m r = lookup_by piId (mpProviderItem r) (mkItems m)"

definition find_mapping :: "market \<Rightarrow> uuid \<Rightarrow> uuid \<Rightarrow> mapping option" where
  "find_mapping m b i = List.find (\<lambda>r. mpBusiness r = b \<and> mpId r = i) (mkMappings m)"

text \<open>Transactions over the market, as \<open>transactionally\<close> over the stock.\<close>

definition market_transaction :: "(market \<Rightarrow> exn + (bool \<times> 'v \<times> market)) \<Rightarrow> market \<Rightarrow> exn + ('v \<times> market)" where
  "market_transaction work m =
     (case work m of Inl e \<Rightarrow> Inl e | Inr (keep, v, m') \<Rightarrow> Inr (v, if keep then m' else m))"

lemma market_transaction_Inr:
  "market_transaction work m = Inr (v, m') \<longleftrightarrow>
     (\<exists>keep m''. work m = Inr (keep, v, m'') \<and> m' = (if keep then m'' else m))"
  by (cases "work m") (auto simp: market_transaction_def split: prod.splits)

lemma update_mappings_Inr:
  "update_mappings p f m = Inr m' \<longleftrightarrow>
     m' = m\<lparr>mkMappings := update_where p f (mkMappings m)\<rparr>
     \<and> (\<forall>r \<in> set (mkMappings m). p r \<longrightarrow> mapping_check (f r) = Inr () \<and> mapping_refs m (f r) = Inr ())
     \<and> unique_on live_entity (update_where p f (mkMappings m))"
  by (auto simp: update_mappings_def result_simps update_checked_Inr)

lemma insert_mapping_Inr:
  "insert_mapping r m = Inr m' \<longleftrightarrow>
     m' = m\<lparr>mkMappings := mkMappings m @ [r]\<rparr> \<and> mapping_check r = Inr () \<and> mapping_refs m r = Inr ()
     \<and> (live_entity r \<noteq> None \<longrightarrow> live_entity r \<notin> live_entity ` set (mkMappings m))"
  by (cases "live_entity r") (force simp: insert_mapping_def result_simps list_ex_iff split: if_splits)+

lemma insert_selected_Inr:
  "insert_selected r m = Inr m' \<longleftrightarrow> m' = m\<lparr>mkSelected := mkSelected m @ [r]\<rparr>
     \<and> (mlMapping r, mlLocation r) \<notin> (\<lambda>s. (mlMapping s, mlLocation s)) ` set (mkSelected m)
     \<and> mapping_in m (mlBusiness r) (mlMapping r) \<and> location_in (mkStock m) (mlBusiness r) (mlLocation r)"
  by (auto simp: insert_selected_def result_simps)

lemma insert_version_Inr:
  "insert_version r m = Inr m' \<longleftrightarrow> m' = m\<lparr>mkVersions := mkVersions m @ [r]\<rparr>
     \<and> int4 (hvVersion r) \<and> int4 (hvBuffer r) \<and> 1 \<le> hvVersion r
     \<and> (hvMapping r, hvVersion r) \<notin> (\<lambda>s. (hvMapping s, hvVersion s)) ` set (mkVersions m)
     \<and> mapping_in m (hvBusiness r) (hvMapping r) \<and> opt_in (hvBy r) (dbUsers (mkStock m))"
  by (auto simp: insert_version_def result_simps)

end
