(* ===== verification/Mappings.thy ===== *)
theory Mappings
  imports Market
begin

text \<open>
  \<^verbatim>\<open>packages/inventory/src/mappings.ts\<close>: proposing, approving, revising and archiving what a
  canonical item sells as. Every change writes a version row; the history is what explains an
  order later.
\<close>

section \<open>Proposing\<close>

record propose_input =
  prBusiness :: uuid
  prConnection :: uuid
  prProviderItem :: uuid
  prItem :: uuid
  prLocations :: "uuid list"
  prBuffer :: "int option"
  prCap :: "int option"
  prBy :: "uuid option"
  prReason :: "string option"

datatype propose_result = Proposed uuid | EntityAlreadyMapped "uuid option" | ProposeInvalid string

definition whole_units :: "int \<Rightarrow> bool" where
  "whole_units n \<longleftrightarrow> is_safe_integer n \<and> 0 \<le> n"

definition validateRules :: "int option \<Rightarrow> int option \<Rightarrow> string option" where
  "validateRules buffer cap =
     (if (case buffer of None \<Rightarrow> False | Some n \<Rightarrow> \<not> whole_units n)
      then Some ''a channel buffer is a whole number of units, and never negative''
      else if (case cap of None \<Rightarrow> False | Some n \<Rightarrow> \<not> whole_units n)
      then Some ''a channel cap is a whole number of units, and never negative''
      else None)"

definition eligible_locations :: "market \<Rightarrow> uuid \<Rightarrow> uuid list \<Rightarrow> location_row list" where
  "eligible_locations m b ids =
     filter (\<lambda>r. loBusiness r = b \<and> loId r \<in> set ids \<and> loIsActive r) (dbLocations (mkStock m))"

definition selectLocations :: "uuid \<Rightarrow> uuid \<Rightarrow> uuid list \<Rightarrow> market \<Rightarrow> exn + market" where
  "selectLocations b i = foldR (\<lambda>l. insert_selected \<lparr>mlBusiness = b, mlMapping = i, mlLocation = l\<rparr>)"

definition recordVersion :: "mapping \<Rightarrow> uuid list \<Rightarrow> string option \<Rightarrow> uuid option \<Rightarrow> market \<Rightarrow> exn + market" where
  "recordVersion r locationIds reason by m =
     insert_version \<lparr>hvBusiness = mpBusiness r, hvMapping = mpId r, hvVersion = mpVersion r, hvItem = mpItem r,
       hvBuffer = mpBuffer r, hvCap = mpCap r, hvLocations = locationIds, hvStatus = mpStatus r,
       hvReason = reason, hvBy = by, hvCreatedAt = dbClock (mkStock m)\<rparr> m"

definition proposed_row :: "propose_input \<Rightarrow> uuid \<Rightarrow> instant \<Rightarrow> mapping" where
  "proposed_row input i now = \<lparr>mpId = i, mpBusiness = prBusiness input, mpConnection = prConnection input,
     mpProviderItem = prProviderItem input, mpItem = prItem input, mpStatus = MappingDraft,
     mpPauseReason = None, mpBuffer = (case prBuffer input of None \<Rightarrow> 0 | Some n \<Rightarrow> n), mpCap = prCap input,
     mpVersion = 1, mpCreatedBy = prBy input, mpApprovedBy = None, mpApprovedAt = None,
     mpActivatedAt = None, mpArchivedAt = None, mpCreatedAt = now\<rparr>"

definition readLiveMappingForEntity :: "market \<Rightarrow> uuid \<Rightarrow> uuid \<Rightarrow> uuid option" where
  "readLiveMappingForEntity m b entity = map_option mpId
     (List.find (\<lambda>r. mpBusiness r = b \<and> mpProviderItem r = entity \<and> mpStatus r \<noteq> MappingArchived) (mkMappings m))"

text \<open>The transaction: a value, and the market it leaves.\<close>

definition propose_work :: "propose_input \<Rightarrow> uuid list \<Rightarrow> market \<Rightarrow> exn + propose_result \<times> market" where
  "propose_work input locationIds m =
     (if length (eligible_locations m (prBusiness input) locationIds) \<noteq> length locationIds
      then Inr (ProposeInvalid ''every selected location must be an active location of this business'', m)
      else let (i, d) = take_uuid (mkStock m);
               r = proposed_row input i (dbClock (mkStock m))
           in bindR (insert_mapping r (m\<lparr>mkStock := d\<rparr>)) (\<lambda>m1.
              bindR (selectLocations (prBusiness input) i locationIds m1) (\<lambda>m2.
              bindR (recordVersion r locationIds (prReason input) (prBy input) m2) (\<lambda>m3.
              Inr (Proposed i, m3)))))"

definition proposeMapping :: "propose_input \<Rightarrow> market \<Rightarrow> exn + propose_result \<times> market" where
  "proposeMapping input m =
     (case validateRules (prBuffer input) (prCap input) of
        Some reason \<Rightarrow> Inr (ProposeInvalid reason, m)
      | None \<Rightarrow>
          if prLocations input = [] then Inr (ProposeInvalid ''a mapping draws stock from at least one location'', m)
          else case propose_work input (set_of (prLocations input)) m of
                 Inr r \<Rightarrow> Inr r
               | Inl e \<Rightarrow>
                   if e = UniqueViolation ''channel_mappings_one_live_per_entity''
                   then Inr (EntityAlreadyMapped (readLiveMappingForEntity m (prBusiness input) (prProviderItem input)), m)
                   else Inl e)"

section \<open>Approving, revising, archiving\<close>

datatype approve_result = MappingApprovedAs int | ApproveNotFound | NotApprovable mapping_status

text \<open>\<open>readForUpdate\<close>: the row, locked, and the locations it draws on.\<close>

definition readForUpdate :: "market \<Rightarrow> uuid \<Rightarrow> uuid \<Rightarrow> (mapping \<times> uuid list) option" where
  "readForUpdate m b i = map_option (\<lambda>r. (r, selected_for m i)) (find_mapping m b i)"

text \<open>Writing a changed row and its version, as each of the operations does.\<close>

definition change_mapping ::
    "mapping \<Rightarrow> uuid list \<Rightarrow> string option \<Rightarrow> uuid option \<Rightarrow> market \<Rightarrow> exn + market" where
  "change_mapping r locationIds reason by m =
     bindR (update_mappings (\<lambda>s. mpId s = mpId r) (\<lambda>s. r) m) (recordVersion r locationIds reason by)"

record approve_input =
  amBusiness :: uuid
  amMapping :: uuid
  amBy :: "uuid option"
  amReason :: "string option"
  amNow :: instant

definition approveMapping :: "approve_input \<Rightarrow> market \<Rightarrow> exn + approve_result \<times> market" where
  "approveMapping input = market_transaction (\<lambda>m.
     case readForUpdate m (amBusiness input) (amMapping input) of
       None \<Rightarrow> Inr (False, ApproveNotFound, m)
     | Some (r, locationIds) \<Rightarrow>
         if mpStatus r \<noteq> MappingDraft then Inr (False, NotApprovable (mpStatus r), m)
         else let version = mpVersion r + 1;
                  r' = r\<lparr>mpStatus := MappingApproved, mpApprovedAt := Some (amNow input),
                         mpApprovedBy := amBy input, mpVersion := version\<rparr>
              in bindR (change_mapping r' locationIds (amReason input) (amBy input) m) (\<lambda>m1.
                 Inr (True, MappingApprovedAs version, m1)))"

text \<open>
  The fields of a revision: absent, or given; a cap may be given as none.
\<close>

record revise_input =
  rmBusiness :: uuid
  rmMapping :: uuid
  rmBuffer :: "int option"
  rmCap :: "int option option"
  rmLocations :: "uuid list option"
  rmItem :: "uuid option"
  rmReason :: string
  rmActor :: "uuid option"

datatype revise_result = Revised int mapping_status | ReviseNotFound | ReviseInvalid string

definition revised_status :: "mapping \<Rightarrow> bool \<Rightarrow> mapping_status" where
  "revised_status r reassigned =
     (if reassigned \<and> mpStatus r \<in> {MappingActive, MappingPaused} then MappingPaused else mpStatus r)"

definition revised_row :: "revise_input \<Rightarrow> mapping \<Rightarrow> mapping" where
  "revised_row input r =
     (let item = given (rmItem input) (mpItem r);
          reassigned = (item \<noteq> mpItem r);
          status = revised_status r reassigned
      in r\<lparr>mpItem := item, mpBuffer := given (rmBuffer input) (mpBuffer r),
           mpCap := given (rmCap input) (mpCap r), mpStatus := status,
           mpPauseReason := (if status = MappingPaused
             then if reassigned
                  then Some ''the mapping was repointed at a different canonical item and needs reactivating''
                  else mpPauseReason r
             else None),
           mpVersion := mpVersion r + 1\<rparr>)"

definition reselect :: "uuid \<Rightarrow> uuid \<Rightarrow> uuid list \<Rightarrow> market \<Rightarrow> exn + market" where
  "reselect b i ids m = selectLocations b i ids (delete_selected i m)"

definition revise_work :: "revise_input \<Rightarrow> market \<Rightarrow> exn + bool \<times> revise_result \<times> market" where
  "revise_work input m =
     (case readForUpdate m (rmBusiness input) (rmMapping input) of
        None \<Rightarrow> Inr (False, ReviseNotFound, m)
      | Some (r, current) \<Rightarrow>
          if mpStatus r = MappingArchived then Inr (False, ReviseNotFound, m)
          else let ids = (case rmLocations input of None \<Rightarrow> current | Some chosen \<Rightarrow> set_of chosen);
                   r' = revised_row input r
               in if rmLocations input \<noteq> None
                     \<and> length (eligible_locations m (rmBusiness input) ids) \<noteq> length ids
                  then Inr (False, ReviseInvalid ''every selected location must be an active location of this business'', m)
                  else bindR (if rmLocations input = None then Inr m
                              else reselect (rmBusiness input) (rmMapping input) ids m) (\<lambda>m1.
                       bindR (change_mapping r' ids (Some (trim (rmReason input))) (rmActor input) m1) (\<lambda>m2.
                       Inr (True, Revised (mpVersion r') (mpStatus r'), m2))))"

definition reviseMapping :: "revise_input \<Rightarrow> market \<Rightarrow> exn + revise_result \<times> market" where
  "reviseMapping input m =
     (case validateRules (rmBuffer input) (given (rmCap input) None) of
        Some reason \<Rightarrow> Inr (ReviseInvalid reason, m)
      | None \<Rightarrow>
          if trim (rmReason input) = [] then Inr (ReviseInvalid ''a mapping change needs a stated reason'', m)
          else if rmLocations input = Some []
          then Inr (ReviseInvalid ''a mapping draws stock from at least one location'', m)
          else market_transaction (revise_work input) m)"

datatype archive_result = ArchivedAs int | ArchiveMappingNotFound

record archive_input =
  acBusiness :: uuid
  acMapping :: uuid
  acReason :: "string option"
  acActor :: "uuid option"
  acNow :: instant

definition archiveMapping :: "archive_input \<Rightarrow> market \<Rightarrow> exn + archive_result \<times> market" where
  "archiveMapping input = market_transaction (\<lambda>m.
     case readForUpdate m (acBusiness input) (acMapping input) of
       None \<Rightarrow> Inr (False, ArchiveMappingNotFound, m)
     | Some (r, locationIds) \<Rightarrow>
         if mpStatus r = MappingArchived then Inr (False, ArchiveMappingNotFound, m)
         else let version = mpVersion r + 1;
                  r' = r\<lparr>mpStatus := MappingArchived, mpPauseReason := None,
                         mpArchivedAt := Some (acNow input), mpVersion := version\<rparr>
              in bindR (change_mapping r' locationIds (acReason input) (acActor input) m) (\<lambda>m1.
                 Inr (True, ArchivedAs version, m1)))"

section \<open>Reading\<close>

record mapping_summary =
  msMapping :: mapping
  msLocations :: "uuid list"
  msExternal :: string
  msEligible :: bool
  msIneligible :: "string option"

definition older_mapping :: "mapping \<Rightarrow> mapping \<Rightarrow> bool" where
  "older_mapping a b \<longleftrightarrow> mpCreatedAt a \<le> mpCreatedAt b"

interpretation mapping_age: row_order older_mapping
  by unfold_locales (auto simp: older_mapping_def)

definition readMappings :: "(mapping \<Rightarrow> bool) \<Rightarrow> market \<Rightarrow> mapping_summary list" where
  "readMappings p m = concat (map (\<lambda>r.
     case provider_item_of m r of
       None \<Rightarrow> []
     | Some e \<Rightarrow> [\<lparr>msMapping = r, msLocations = selected_for m (mpId r), msExternal = piExternal e,
                   msEligible = piEligible e, msIneligible = piIneligible e\<rparr>])
     (sort_by older_mapping (filter p (mkMappings m))))"

definition readMappingsForItem :: "uuid \<Rightarrow> uuid \<Rightarrow> market \<Rightarrow> mapping_summary list" where
  "readMappingsForItem b i = readMappings (\<lambda>r. mpBusiness r = b \<and> mpItem r = i)"

definition readLiveMappings :: "uuid \<Rightarrow> uuid \<Rightarrow> market \<Rightarrow> mapping_summary list" where
  "readLiveMappings b c = readMappings (\<lambda>r. mpBusiness r = b \<and> mpConnection r = c \<and> mpStatus r \<noteq> MappingArchived)"

definition readMapping :: "uuid \<Rightarrow> uuid \<Rightarrow> market \<Rightarrow> mapping_summary option" where
  "readMapping b i m = (case readMappings (\<lambda>r. mpBusiness r = b \<and> mpId r = i) m of [] \<Rightarrow> None | s # _ \<Rightarrow> Some s)"

definition newer_version :: "mapping_version \<Rightarrow> mapping_version \<Rightarrow> bool" where
  "newer_version a b \<longleftrightarrow> hvVersion b \<le> hvVersion a"

interpretation version_order: row_order newer_version
  by unfold_locales (auto simp: newer_version_def)

definition readMappingHistory :: "uuid \<Rightarrow> uuid \<Rightarrow> market \<Rightarrow> mapping_version list" where
  "readMappingHistory b i m = sort_by newer_version
     (filter (\<lambda>v. hvBusiness v = b \<and> hvMapping v = i) (mkVersions m))"

end
