(* ===== verification/Activation.thy ===== *)
theory Activation
  imports Mappings
begin

text \<open>
  \<^verbatim>\<open>packages/inventory/src/activation.ts\<close>: what must be seen before a mapping goes live, going live
  (with an opening quantity posted to the ledger when one is adopted), pausing, and
  \<open>resolveWriteTarget\<close>, which alone says whether a channel may be written to.
\<close>

section \<open>Previewing\<close>

datatype initialization = FromCanonical | FromChannel "uuid option" | FromExplicit int "uuid option"

definition initialization_name :: "initialization \<Rightarrow> string" where
  "initialization_name i = (case i of FromCanonical \<Rightarrow> ''canonical'' | FromChannel _ \<Rightarrow> ''channel'' | FromExplicit _ _ \<Rightarrow> ''explicit'')"

record shelf_preview =
  sfLocationId :: uuid
  sfCode :: string
  sfUnits :: int
  sfReserved :: int
  sfSafety :: int
  sfAvailable :: int

record variation_completeness =
  vcParent :: string
  vcTotal :: nat
  vcMapped :: nat
  vcUnmapped :: "(string \<times> string option) list"

record activation_preview =
  pvMapping :: uuid
  pvStatus :: mapping_status
  pvItem :: uuid
  pvSku :: string
  pvExternal :: string
  pvLocations :: "shelf_preview list"
  pvAvailable :: int
  pvBuffer :: int
  pvCap :: "int option"
  pvTarget :: int
  pvChannelQuantity :: "int option"
  pvIneligible :: "string option"
  pvMissing :: bool
  pvVariations :: "variation_completeness option"
  pvDisagree :: bool
  pvBlockers :: "string list"

definition unsupported_reason :: string where
  "unsupported_reason = ''this channel entity cannot be synchronized in version 1''"

definition rules_of :: "mapping \<Rightarrow> channel_rules" where
  "rules_of r = \<lparr>channelBuffer = mpBuffer r, channelCap = mpCap r\<rparr>"

text \<open>Channel entities beside the mappings that are not archived, one row per pair.\<close>

definition with_live_mappings :: "market \<Rightarrow> provider_item list \<Rightarrow> (provider_item \<times> mapping option) list" where
  "with_live_mappings m es = concat (map (\<lambda>e.
     case filter (\<lambda>r. mpProviderItem r = piId e \<and> mpStatus r \<noteq> MappingArchived) (mkMappings m) of
       [] \<Rightarrow> [(e, None)] | rs \<Rightarrow> map (\<lambda>r. (e, Some r)) rs) es)"

definition siblings_of :: "market \<Rightarrow> uuid \<Rightarrow> uuid \<Rightarrow> string \<Rightarrow> (provider_item \<times> mapping option) list" where
  "siblings_of m b c parent = with_live_mappings m
     (filter (\<lambda>e. piBusiness e = b \<and> piConnection e = c \<and> piParent e = Some parent \<and> piEligible e \<and> piMissing e = None)
       (mkItems m))"

definition assessVariationCompleteness :: "market \<Rightarrow> uuid \<Rightarrow> uuid \<Rightarrow> string \<Rightarrow> variation_completeness" where
  "assessVariationCompleteness m b c parent =
     (let siblings = siblings_of m b c parent;
          unmapped = filter (\<lambda>(e, r). r = None) siblings
      in \<lparr>vcParent = parent, vcTotal = length siblings, vcMapped = length siblings - length unmapped,
          vcUnmapped = map (\<lambda>(e, r). (piExternal e, piSku e)) unmapped\<rparr>)"

text \<open>A selected location with the balance the item has there, when it has one.\<close>

definition selected_shelves :: "market \<Rightarrow> mapping \<Rightarrow> (location_row \<times> balance_row option) list" where
  "selected_shelves m r = sort_by (\<lambda>x y. lo_before (fst x) (fst y))
     (concat (map (\<lambda>s. case List.find (\<lambda>l. loId l = mlLocation s) (dbLocations (mkStock m)) of
         None \<Rightarrow> []
       | Some l \<Rightarrow> [(l, find_balance (mkStock m) (mlBusiness s, mpItem r, mlLocation s))])
       (filter (\<lambda>s. mlMapping s = mpId r) (mkSelected m))))"

definition shelf_balance :: "int \<Rightarrow> int option \<Rightarrow> location_row \<times> balance_row option \<Rightarrow> exn + location_balance" where
  "shelf_balance usual override x =
     bindR (effectiveSafetyStock \<lparr>businessDefault = usual, itemOverride = override,
              locationOverride = Option.bind (snd x) baSafetyStock\<rparr>) (\<lambda>safety.
     Inr \<lparr>locationId = loId (fst x), onHand = (case snd x of None \<Rightarrow> 0 | Some b \<Rightarrow> baOnHand b),
          reserved = (case snd x of None \<Rightarrow> 0 | Some b \<Rightarrow> baReserved b), safetyStock = safety\<rparr>)"

definition shelf_of :: "(location_row \<times> balance_row option) \<times> location_balance \<Rightarrow> shelf_preview" where
  "shelf_of x = \<lparr>sfLocationId = locationId (snd x), sfCode = loCode (fst (fst x)), sfUnits = onHand (snd x),
     sfReserved = reserved (snd x), sfSafety = safetyStock (snd x),
     sfAvailable = max 0 (onHand (snd x) - reserved (snd x) - safetyStock (snd x))\<rparr>"

definition blockers_of ::
    "provider_item \<Rightarrow> variation_completeness option \<Rightarrow> bool \<Rightarrow> int \<Rightarrow> bool \<Rightarrow> string list" where
  "blockers_of e variations disagree outbound unselected =
     (if piEligible e then [] else [given (piIneligible e) unsupported_reason])
     @ (if piMissing e = None then [] else [''this channel entity was not found by the last complete catalog scan''])
     @ (case variations of
          None \<Rightarrow> []
        | Some v \<Rightarrow> if vcUnmapped v = [] then []
            else [number_text (int (length (vcUnmapped v))) @ '' of '' @ number_text (int (vcTotal v))
                  @ '' variations on this listing are not mapped, and section 7 synchronizes a variation listing only in full''])
     @ (if disagree
        then [''the store advertises '' @ (case piQuantity e of None \<Rightarrow> ''null'' | Some n \<Rightarrow> number_text n)
              @ '' and this ledger would advertise '' @ number_text outbound @ ''; choose which figure is authoritative'']
        else [])
     @ (if unselected then [''this mapping draws stock from no location''] else [])"

datatype activation_previewed = ActivationPreviewed activation_preview | ActivationPreviewNotFound

definition previewActivation :: "uuid \<Rightarrow> uuid \<Rightarrow> initialization option \<Rightarrow> market \<Rightarrow> exn + activation_previewed" where
  "previewActivation b i initialization m =
     (case find_mapping m b i of
        None \<Rightarrow> Inr ActivationPreviewNotFound
      | Some r \<Rightarrow>
          (case (item_of (mkStock m) (mpItem r), provider_item_of m r) of
             (Some item, Some e) \<Rightarrow>
               let settings = readSettings (mkStock m) b;
                   selected = selected_shelves m r
               in bindR (mapR (shelf_balance (stSafetyStock settings) (itSafetyOverride item)) selected) (\<lambda>balances.
                  bindR (availableToSellAcrossLocations balances) (\<lambda>available.
                  bindR (channelTarget available (rules_of r)) (\<lambda>outbound.
                  let variations = map_option (assessVariationCompleteness m b (mpConnection r)) (piParent e);
                      disagree = (initialization = None \<and> piQuantity e \<noteq> None \<and> piQuantity e \<noteq> Some outbound)
                  in Inr (ActivationPreviewed \<lparr>pvMapping = i, pvStatus = mpStatus r, pvItem = mpItem r, pvSku = itSku item,
                       pvExternal = piExternal e, pvLocations = map shelf_of (zip selected balances),
                       pvAvailable = available, pvBuffer = mpBuffer r, pvCap = mpCap r, pvTarget = outbound,
                       pvChannelQuantity = piQuantity e,
                       pvIneligible = (if piEligible e then None else piIneligible e),
                       pvMissing = (piMissing e \<noteq> None), pvVariations = variations, pvDisagree = disagree,
                       pvBlockers = blockers_of e variations disagree outbound (selected = [])\<rparr>))))
           | _ \<Rightarrow> Inr ActivationPreviewNotFound))"

section \<open>Activating\<close>

datatype activation_result =
    Activated int
  | ActivationNotFound
  | NotApproved mapping_status
  | Blocked "string list"
  | ActivationInvalid string

text \<open>\<open>adopt\<close>: the failure to report, or none, and the stock it leaves.\<close>

definition opening_movement :: "uuid \<Rightarrow> uuid \<Rightarrow> int \<Rightarrow> bool \<Rightarrow> movement" where
  "opening_movement item l delta from_channel = \<lparr>mvItem = item, mvLocation = l, mvKind = Adjustment, mvDelta = delta,
     mvReason = Some (if from_channel then ''starting quantity adopted from the channel at mapping activation''
                      else ''starting quantity entered by an operator at mapping activation''),
     mvReversalOf = None\<rparr>"

definition adopt ::
    "uuid \<Rightarrow> uuid \<Rightarrow> shelf_preview list \<Rightarrow> int \<Rightarrow> uuid option \<Rightarrow> uuid option \<Rightarrow> bool \<Rightarrow> db
     \<Rightarrow> exn + activation_result option \<times> db" where
  "adopt b item shelves quantity location actor from_channel d =
     (if \<not> whole_units quantity
      then Inr (Some (ActivationInvalid ''a starting quantity is a whole number of units''), d)
      else case (case location of Some l \<Rightarrow> Some l
                 | None \<Rightarrow> (case shelves of [s] \<Rightarrow> Some (sfLocationId s) | _ \<Rightarrow> None)) of
        None \<Rightarrow> Inr (Some (ActivationInvalid
          ''this mapping draws on more than one location, so say which one the starting quantity is at''), d)
      | Some l \<Rightarrow>
          if l \<notin> set (map sfLocationId shelves)
          then Inr (Some (ActivationInvalid ''that location is not one this mapping draws from''), d)
          else let delta = quantity - given (map_of (rev (map (\<lambda>s. (sfLocationId s, sfUnits s)) shelves)) l) 0
               in if delta = 0 then Inr (None, d)
                  else bindR (postMovements \<lparr>poBusiness = b, poMovements = [opening_movement item l delta from_channel],
                         poActor = actor, poCorrelation = None, poOccurredAt = None\<rparr> d) (\<lambda>(posted, d1).
                       Inr (case posted of
                              Posted _ _ \<Rightarrow> None
                            | Insufficient _ \<Rightarrow> Some (ActivationInvalid ''the starting quantity would take a location below zero'')
                            | Invalid reason \<Rightarrow> Some (ActivationInvalid reason), d1)))"

text \<open>\<open>bumpVersion\<close>: records the next version under a new status and answers its number.\<close>

definition bumpVersion ::
    "uuid \<Rightarrow> uuid \<Rightarrow> mapping_status \<Rightarrow> string option \<Rightarrow> uuid option \<Rightarrow> market \<Rightarrow> exn + int \<times> market" where
  "bumpVersion b i status reason by m =
     (case find_mapping m b i of
        None \<Rightarrow> Inl (PlainError ''the mapping disappeared while it was being changed'')
      | Some r \<Rightarrow>
          bindR (recordVersion (r\<lparr>mpVersion := mpVersion r + 1, mpStatus := status\<rparr>) (selected_for m i) reason by m) (\<lambda>m1.
          Inr (mpVersion r + 1, m1)))"

record activate_input =
  avBusiness :: uuid
  avMapping :: uuid
  avInitialization :: "initialization option"
  avActor :: "uuid option"
  avNow :: instant

definition adoption ::
    "activate_input \<Rightarrow> activation_preview \<Rightarrow> db \<Rightarrow> exn + activation_result option \<times> db" where
  "adoption input pv d =
     (case avInitialization input of
        Some (FromChannel l) \<Rightarrow>
          adopt (avBusiness input) (pvItem pv) (pvLocations pv) (given (pvChannelQuantity pv) 0) l (avActor input) True d
      | Some (FromExplicit n l) \<Rightarrow> adopt (avBusiness input) (pvItem pv) (pvLocations pv) n l (avActor input) False d
      | _ \<Rightarrow> Inr (None, d))"

definition activation_reason :: "initialization option \<Rightarrow> string" where
  "activation_reason i = (case i of None \<Rightarrow> ''activated''
     | Some x \<Rightarrow> ''activated, starting quantity from '' @ initialization_name x)"

definition activateMapping :: "activate_input \<Rightarrow> market \<Rightarrow> exn + activation_result \<times> market" where
  "activateMapping input = market_transaction (\<lambda>m.
     bindR (previewActivation (avBusiness input) (avMapping input) (avInitialization input) m) (\<lambda>previewed.
     case previewed of
       ActivationPreviewNotFound \<Rightarrow> Inr (False, ActivationNotFound, m)
     | ActivationPreviewed pv \<Rightarrow>
         if pvStatus pv \<noteq> MappingApproved \<and> pvStatus pv \<noteq> MappingPaused
         then Inr (False, NotApproved (pvStatus pv), m)
         else if pvBlockers pv \<noteq> [] then Inr (False, Blocked (pvBlockers pv), m)
         else bindR (adoption input pv (mkStock m)) (\<lambda>(adopted, d).
           case adopted of
             Some failure \<Rightarrow> Inr (False, failure, m)
           | None \<Rightarrow>
               bindR (bumpVersion (avBusiness input) (avMapping input) MappingActive
                        (Some (activation_reason (avInitialization input))) (avActor input) (m\<lparr>mkStock := d\<rparr>)) (\<lambda>(version, m1).
               bindR (update_mappings (\<lambda>r. mpId r = avMapping input)
                        (\<lambda>r. r\<lparr>mpStatus := MappingActive, mpPauseReason := None, mpActivatedAt := Some (avNow input),
                              mpVersion := version\<rparr>) m1) (\<lambda>m2.
               bindR (previewActivation (avBusiness input) (avMapping input) (Some FromCanonical) m2) (\<lambda>after.
               Inr (True, Activated (case after of ActivationPreviewed p \<Rightarrow> pvTarget p | ActivationPreviewNotFound \<Rightarrow> 0), m2)))))))"

section \<open>Pausing\<close>

datatype pause_result = Paused | PauseNotFound | NotActive mapping_status

definition pauseMapping :: "uuid \<Rightarrow> uuid \<Rightarrow> string \<Rightarrow> uuid option \<Rightarrow> market \<Rightarrow> exn + pause_result \<times> market" where
  "pauseMapping b i reason actor = market_transaction (\<lambda>m.
     case find_mapping m b i of
       None \<Rightarrow> Inr (False, PauseNotFound, m)
     | Some r \<Rightarrow>
         if mpStatus r \<noteq> MappingActive then Inr (False, NotActive (mpStatus r), m)
         else bindR (bumpVersion b i MappingPaused (Some reason) actor m) (\<lambda>(version, m1).
              bindR (update_mappings (\<lambda>s. mpId s = i)
                       (\<lambda>s. s\<lparr>mpStatus := MappingPaused, mpPauseReason := Some reason, mpVersion := version\<rparr>) m1) (\<lambda>m2.
              Inr (True, Paused, m2))))"

definition mapped_parents :: "market \<Rightarrow> uuid \<Rightarrow> uuid \<Rightarrow> string list" where
  "mapped_parents m b c = set_of (concat (map (\<lambda>e.
     case piParent e of
       None \<Rightarrow> []
     | Some parent \<Rightarrow>
         if piBusiness e = b \<and> piConnection e = c
         then map (\<lambda>r. parent) (filter (\<lambda>r. mpProviderItem r = piId e \<and> mpStatus r = MappingActive) (mkMappings m))
         else []) (mkItems m)))"

definition active_under :: "market \<Rightarrow> uuid \<Rightarrow> string \<Rightarrow> uuid list" where
  "active_under m b parent = map mpId (filter (\<lambda>r. mpBusiness r = b \<and> mpStatus r = MappingActive
     \<and> Option.bind (provider_item_of m r) piParent = Some parent) (mkMappings m))"

definition incomplete_reason :: "variation_completeness \<Rightarrow> string" where
  "incomplete_reason v = ''a variation of this listing is not mapped ('' @ number_text (int (length (vcUnmapped v)))
     @ '' of '' @ number_text (int (vcTotal v)) @ ''), and section 7 synchronizes a variation listing only in full''"

text \<open>
  The loops pause in transactions of their own: an exception leaves what was paused before it.
\<close>

fun pause_each :: "uuid \<Rightarrow> string \<Rightarrow> uuid list \<Rightarrow> market \<Rightarrow> uuid list \<Rightarrow> (exn + uuid list) \<times> market" where
  "pause_each b reason [] m paused = (Inr paused, m)"
| "pause_each b reason (i # is) m paused =
     (case pauseMapping b i reason None m of
        Inl e \<Rightarrow> (Inl e, m)
      | Inr (result, m1) \<Rightarrow> pause_each b reason is m1 (if result = Paused then paused @ [i] else paused))"

fun pause_listings :: "uuid \<Rightarrow> uuid \<Rightarrow> string list \<Rightarrow> market \<Rightarrow> uuid list \<Rightarrow> (exn + uuid list) \<times> market" where
  "pause_listings b c [] m paused = (Inr paused, m)"
| "pause_listings b c (parent # rest) m paused =
     (let v = assessVariationCompleteness m b c parent
      in if vcUnmapped v = [] then pause_listings b c rest m paused
         else case pause_each b (incomplete_reason v) (active_under m b parent) m paused of
                (Inl e, m1) \<Rightarrow> (Inl e, m1)
              | (Inr paused', m1) \<Rightarrow> pause_listings b c rest m1 paused')"

definition pauseIncompleteVariationListings :: "uuid \<Rightarrow> uuid \<Rightarrow> market \<Rightarrow> (exn + uuid list) \<times> market" where
  "pauseIncompleteVariationListings b c m = pause_listings b c (mapped_parents m b c) m []"

section \<open>Permission to write\<close>

record write_target =
  wtMapping :: uuid
  wtConnection :: uuid
  wtProviderItem :: uuid
  wtExternal :: string
  wtItem :: uuid
  wtBuffer :: int
  wtCap :: "int option"
  wtLocations :: "uuid list"

datatype write_target_result =
    Writable write_target
  | NoMapping
  | MappingNotActive mapping_status "string option"
  | Ineligible string
  | MissingEntity

definition resolveWriteTarget :: "market \<Rightarrow> uuid \<Rightarrow> uuid \<Rightarrow> write_target_result" where
  "resolveWriteTarget m b i =
     (case find_mapping m b i of
        None \<Rightarrow> NoMapping
      | Some r \<Rightarrow>
          (case provider_item_of m r of
             None \<Rightarrow> NoMapping
           | Some e \<Rightarrow>
               if mpStatus r \<noteq> MappingActive then MappingNotActive (mpStatus r) (mpPauseReason r)
               else if \<not> piEligible e then Ineligible (given (piIneligible e) unsupported_reason)
               else if piMissing e \<noteq> None then MissingEntity
               else Writable \<lparr>wtMapping = i, wtConnection = mpConnection r, wtProviderItem = mpProviderItem r,
                      wtExternal = piExternal e, wtItem = mpItem r, wtBuffer = mpBuffer r, wtCap = mpCap r,
                      wtLocations = selected_for m i\<rparr>))"

definition writableMappingsForItem :: "market \<Rightarrow> uuid \<Rightarrow> uuid \<Rightarrow> write_target list" where
  "writableMappingsForItem m b item = concat (map (\<lambda>r.
     case resolveWriteTarget m b (mpId r) of Writable t \<Rightarrow> [t] | _ \<Rightarrow> [])
     (filter (\<lambda>r. mpBusiness r = b \<and> mpItem r = item \<and> mpStatus r = MappingActive) (mkMappings m)))"

end
