(* ===== verification/Projection.thy ===== *)
theory Projection
  imports Activation
begin

text \<open>
  \<^verbatim>\<open>packages/inventory/src/projection.ts\<close>: what every channel would advertise for an item, and what
  a hypothetical movement would do to it. The same figures feed the confirmation screens and the
  targets that are written.
\<close>

section \<open>Locations\<close>

record location_projection =
  lpLocation :: uuid
  lpCode :: string
  lpOnHand :: int
  lpReserved :: int
  lpSafety :: int
  lpAvailable :: int
  lpProjectedOnHand :: int
  lpProjectedAvailable :: int

record channel_projection =
  cpMapping :: uuid
  cpConnection :: uuid
  cpProvider :: provider
  cpExternal :: string
  cpStatus :: mapping_status
  cpBuffer :: int
  cpCap :: "int option"
  cpQuantity :: "int option"
  cpCurrent :: int
  cpProjected :: int
  cpWritable :: bool
  cpBecause :: "string option"
  cpSuppressed :: bool

record kit_effect =
  keKit :: uuid
  keSku :: string
  keCurrent :: int
  keProjected :: int

record item_projection =
  ipItem :: uuid
  ipSku :: string
  ipName :: string
  ipIsKit :: bool
  ipLocations :: "location_projection list"
  ipAvailable :: int
  ipProjectedAvailable :: int
  ipKitCapacity :: "int option"
  ipChannels :: "channel_projection list"
  ipAffectedKits :: "kit_effect list"

type_synonym hypothetical = "(uuid \<times> int) list"

definition deltas_of :: "hypothetical \<Rightarrow> (uuid \<times> int) list" where
  "deltas_of changes = fold (\<lambda>(l, n) m. alist_put l (given (map_of m l) 0 + n) m) changes []"

text \<open>Balances of the item joined to the locations that are not deleted, in the shelves' order.\<close>

definition projected_rows :: "db \<Rightarrow> uuid \<Rightarrow> uuid \<Rightarrow> (location_row \<times> balance_row) list" where
  "projected_rows d b i = sort_by (\<lambda>x y. lo_before (fst x) (fst y))
     (concat (map (\<lambda>r. case List.find (\<lambda>l. loId l = baLocation r) (dbLocations d) of
         None \<Rightarrow> [] | Some l \<Rightarrow> if loDeletedAt l = None then [(l, r)] else [])
       (filter (\<lambda>r. baBusiness r = b \<and> baItem r = i) (dbBalances d))))"

definition project_location ::
    "inventory_settings \<Rightarrow> int option \<Rightarrow> (uuid \<times> int) list \<Rightarrow> location_row \<times> balance_row \<Rightarrow> exn + location_projection" where
  "project_location settings override deltas x =
     (let l = fst x; r = snd x
      in bindR (effectiveSafetyStock \<lparr>businessDefault = stSafetyStock settings, itemOverride = override,
                  locationOverride = baSafetyStock r\<rparr>) (\<lambda>safety.
         let projectedOnHand = max 0 (baOnHand r + given (map_of deltas (baLocation r)) 0)
         in Inr \<lparr>lpLocation = baLocation r, lpCode = loCode l, lpOnHand = baOnHand r, lpReserved = baReserved r,
              lpSafety = safety, lpAvailable = max 0 (baOnHand r - baReserved r - safety),
              lpProjectedOnHand = projectedOnHand,
              lpProjectedAvailable = max 0 (projectedOnHand - baReserved r - safety)\<rparr>))"

definition asBalances :: "location_projection list \<Rightarrow> bool \<Rightarrow> location_balance list" where
  "asBalances ps projected = map (\<lambda>p. \<lparr>locationId = lpLocation p,
     onHand = (if projected then lpProjectedOnHand p else lpOnHand p),
     reserved = lpReserved p, safetyStock = lpSafety p\<rparr>) ps"

section \<open>Channels\<close>

definition whyNot :: "mapping \<Rightarrow> provider_item \<Rightarrow> string option" where
  "whyNot r e =
     (if \<not> piEligible e then Some (given (piIneligible e) unsupported_reason)
      else if piMissing e \<noteq> None then Some ''the last complete catalog scan did not find this entity''
      else case mpStatus r of
             MappingActive \<Rightarrow> None
           | MappingPaused \<Rightarrow> Some (given (mpPauseReason r) ''this mapping is paused'')
           | MappingDraft \<Rightarrow> Some ''this mapping has not been approved''
           | MappingApproved \<Rightarrow> Some ''this mapping has been approved but not activated''
           | MappingArchived \<Rightarrow> Some ''this mapping has been archived'')"

definition capacityWithin :: "db \<Rightarrow> uuid \<Rightarrow> uuid \<Rightarrow> uuid list \<Rightarrow> exn + int" where
  "capacityWithin d b kit ls =
     bindR (kitCapacity d b kit (Some ls)) (\<lambda>c. Inr (case c of KitComputed k \<Rightarrow> kcCapacity k | NoActiveRecipe \<Rightarrow> 0))"

definition project_channel ::
    "market \<Rightarrow> uuid \<Rightarrow> item_row \<Rightarrow> location_projection list \<Rightarrow> mapping \<times> provider_item \<Rightarrow> exn + channel_projection" where
  "project_channel m b item ps x =
     (let r = fst x; e = snd x;
          selected = selected_for m (mpId r);
          chosen = filter (\<lambda>p. lpLocation p \<in> set selected) ps;
          provider = mkProvider m (mpConnection r)
      in bindR (if itIsKit item then capacityWithin (mkStock m) b (itId item) selected
                else availableToSellAcrossLocations (asBalances chosen False)) (\<lambda>available.
         bindR (channelTarget available (rules_of r)) (\<lambda>current.
         bindR (if itIsKit item then Inr current
                else bindR (availableToSellAcrossLocations (asBalances chosen True)) (\<lambda>n. channelTarget n (rules_of r))) (\<lambda>projected.
         bindR (if provider = WooCommerce
                then shouldSuppressWooCommerceQuantityWrite projected (given (piQuantity e) 0) (piBackorders e)
                else Inr False) (\<lambda>suppressed.
         Inr \<lparr>cpMapping = mpId r, cpConnection = mpConnection r, cpProvider = provider, cpExternal = piExternal e,
              cpStatus = mpStatus r, cpBuffer = mpBuffer r, cpCap = mpCap r, cpQuantity = piQuantity e,
              cpCurrent = current, cpProjected = projected,
              cpWritable = (mpStatus r = MappingActive \<and> piEligible e \<and> piMissing e = None),
              cpBecause = whyNot r e, cpSuppressed = suppressed\<rparr>)))))"

definition mapped_entities :: "market \<Rightarrow> uuid \<Rightarrow> uuid \<Rightarrow> (mapping \<times> provider_item) list" where
  "mapped_entities m b i = concat (map (\<lambda>r. case provider_item_of m r of None \<Rightarrow> [] | Some e \<Rightarrow> [(r, e)])
     (sort_by older_mapping (filter (\<lambda>r. mpBusiness r = b \<and> mpItem r = i) (mkMappings m))))"

section \<open>Kits\<close>

definition project_kit :: "db \<Rightarrow> uuid \<Rightarrow> uuid \<Rightarrow> exn + kit_effect list" where
  "project_kit d b kit =
     bindR (kitCapacity d b kit None) (\<lambda>c. Inr (case c of
         NoActiveRecipe \<Rightarrow> []
       | KitComputed k \<Rightarrow> [\<lparr>keKit = kit, keSku = (case item_of d kit of None \<Rightarrow> [] | Some r \<Rightarrow> itSku r),
           keCurrent = kcCapacity k, keProjected = kcCapacity k\<rparr>]))"

definition projectKits :: "db \<Rightarrow> uuid \<Rightarrow> uuid \<Rightarrow> bool \<Rightarrow> exn + kit_effect list" where
  "projectKits d b i isKit =
     (if isKit then Inr []
      else bindR (mapR (\<lambda>(kit, n). project_kit d b kit) (kitsUsingComponent d b i)) (\<lambda>es. Inr (concat es)))"

section \<open>The item\<close>

definition find_live_item :: "db \<Rightarrow> uuid \<Rightarrow> uuid \<Rightarrow> item_row option" where
  "find_live_item d b i = List.find (\<lambda>r. itBusiness r = b \<and> itId r = i \<and> itDeletedAt r = None) (dbItems d)"

definition own_capacity :: "db \<Rightarrow> uuid \<Rightarrow> item_row \<Rightarrow> exn + int option" where
  "own_capacity d b item =
     (if itIsKit item
      then bindR (kitCapacity d b (itId item) None) (\<lambda>c. Inr (case c of KitComputed k \<Rightarrow> Some (kcCapacity k) | NoActiveRecipe \<Rightarrow> None))
      else Inr None)"

definition projectItem :: "market \<Rightarrow> uuid \<Rightarrow> uuid \<Rightarrow> hypothetical \<Rightarrow> exn + item_projection option" where
  "projectItem m b i changes =
     (let d = mkStock m
      in case find_live_item d b i of
           None \<Rightarrow> Inr None
         | Some item \<Rightarrow>
             let settings = readSettings d b; deltas = deltas_of changes
             in bindR (mapR (project_location settings (itSafetyOverride item) deltas) (projected_rows d b i)) (\<lambda>ps.
                bindR (mapR (project_channel m b item ps)
                         (filter (\<lambda>(r, e). mpStatus r \<noteq> MappingArchived) (mapped_entities m b i))) (\<lambda>channels.
                bindR (projectKits d b i (itIsKit item)) (\<lambda>kits.
                bindR (own_capacity d b item) (\<lambda>capacity.
                bindR (availableToSellAcrossLocations (asBalances ps False)) (\<lambda>available.
                bindR (availableToSellAcrossLocations (asBalances ps True)) (\<lambda>projected.
                Inr (Some \<lparr>ipItem = i, ipSku = itSku item, ipName = itName item, ipIsKit = itIsKit item,
                  ipLocations = ps, ipAvailable = available, ipProjectedAvailable = projected,
                  ipKitCapacity = capacity, ipChannels = channels, ipAffectedKits = kits\<rparr>))))))))"

end
