(* ===== verification/Selling.thy ===== *)
theory Selling
  imports Projection Books
begin

text \<open>
  The life of a mapping. \<open>market_step\<close> is one of the operations of \<^verbatim>\<open>mappings.ts\<close> and
  \<^verbatim>\<open>activation.ts\<close>, or a change elsewhere (stock, a catalog scan). The invariant \<open>market_good\<close> says
  that a channel entity has at most one live mapping and that the version rows of a mapping are
  numbered from 1 without a gap, the last of them describing the row as it stands.
\<close>

section \<open>The invariant\<close>

definition describes :: "mapping_version \<Rightarrow> mapping \<Rightarrow> uuid list \<Rightarrow> bool" where
  "describes v r ls \<longleftrightarrow> hvBusiness v = mpBusiness r \<and> hvMapping v = mpId r \<and> hvVersion v = mpVersion r
     \<and> hvItem v = mpItem r \<and> hvBuffer v = mpBuffer r \<and> hvCap v = mpCap r \<and> hvStatus v = mpStatus r
     \<and> hvLocations v = ls"

definition history_of :: "market \<Rightarrow> uuid \<Rightarrow> mapping_version list" where
  "history_of m i = filter (\<lambda>v. hvMapping v = i) (mkVersions m)"

definition chronicled :: "market \<Rightarrow> mapping \<Rightarrow> bool" where
  "chronicled m r \<longleftrightarrow> map hvVersion (history_of m (mpId r)) = map int [1..<Suc (nat (mpVersion r))]
     \<and> list_all (\<lambda>v. hvBusiness v = mpBusiness r) (history_of m (mpId r))
     \<and> history_of m (mpId r) \<noteq> [] \<and> describes (last (history_of m (mpId r))) r (selected_for m (mpId r))"

definition next_id :: "market \<Rightarrow> uuid" where
  "next_id m = dbNextUuid (mkStock m)"

definition market_good :: "market \<Rightarrow> bool" where
  "market_good m \<longleftrightarrow> distinct (map mpId (mkMappings m)) \<and> unique_on live_entity (mkMappings m)
     \<and> (\<forall>i \<in> mpId ` set (mkMappings m) \<union> hvMapping ` set (mkVersions m) \<union> mlMapping ` set (mkSelected m). i < next_id m)
     \<and> (\<forall>r \<in> set (mkMappings m). mapping_check r = Inr () \<and> chronicled m r)"

text \<open>One row rewritten under its next version, the others untouched.\<close>

definition rewritten :: "market \<Rightarrow> mapping \<Rightarrow> mapping \<Rightarrow> market \<Rightarrow> bool" where
  "rewritten m r r' m' \<longleftrightarrow> r \<in> set (mkMappings m) \<and> mpId r' = mpId r \<and> mpBusiness r' = mpBusiness r
     \<and> mpVersion r' = mpVersion r + 1 \<and> mapping_check r' = Inr ()
     \<and> mkMappings m' = update_where (\<lambda>s. mpId s = mpId r) (\<lambda>s. r') (mkMappings m)
     \<and> unique_on live_entity (mkMappings m')
     \<and> (\<exists>v. mkVersions m' = mkVersions m @ [v] \<and> describes v r' (selected_for m' (mpId r)))
     \<and> (\<forall>i. i \<noteq> mpId r \<longrightarrow> selected_for m' i = selected_for m i)
     \<and> mlMapping ` set (mkSelected m') \<subseteq> insert (mpId r) (mlMapping ` set (mkSelected m))
     \<and> mkStock m' = mkStock m \<and> mkItems m' = mkItems m"

lemma mapping_check_version: "mapping_check r = Inr () \<Longrightarrow> 1 \<le> mpVersion r"
  by (simp add: mapping_check_def)

lemma rewrite_keeps_market:
  assumes "rewritten m r r' m'" "market_good m"
  shows "market_good m'"
proof -
  note rw = assms(1) [unfolded rewritten_def]
  note good = assms(2) [unfolded market_good_def]
  from rw obtain v where v: "mkVersions m' = mkVersions m @ [v]" "describes v r' (selected_for m' (mpId r))" by blast
  have rows: "mkMappings m' = update_where (\<lambda>s. mpId s = mpId r) (\<lambda>s. r') (mkMappings m)" using rw by blast
  have ids: "map mpId (mkMappings m') = map mpId (mkMappings m)"
    unfolding rows by (rule map_update_where) (use rw in simp)
  have hv: "hvMapping v = mpId r" using v(2) rw by (simp add: describes_def)
  have here: "chronicled m r" and pos: "1 \<le> mpVersion r" using good rw mapping_check_version by blast+
  have past: "history_of m' i = (if i = mpId r then history_of m i @ [v] else history_of m i)" for i
    using hv by (simp add: history_of_def v(1))
  have "chronicled m' r'"
    using here pos v(2) rw unfolding chronicled_def past
    by (simp add: describes_def nat_add_distrib) 
  moreover have "chronicled m' s" if "s \<in> set (mkMappings m)" "mpId s \<noteq> mpId r" for s
  proof -
    have "chronicled m s" using good that by blast
    moreover have "selected_for m' (mpId s) = selected_for m (mpId s)" using rw that(2) by blast
    ultimately show ?thesis using past that(2) by (simp add: chronicled_def)
  qed
  ultimately have "\<forall>s \<in> set (mkMappings m'). mapping_check s = Inr () \<and> chronicled m' s"
    using rw good by (auto simp: rows set_update_where)
  moreover have "\<forall>i \<in> mpId ` set (mkMappings m') \<union> hvMapping ` set (mkVersions m') \<union> mlMapping ` set (mkSelected m'). i < next_id m'"
  proof -
    have 1: "mpId ` set (mkMappings m') = mpId ` set (mkMappings m)" using ids by (metis list.set_map)
    have 2: "mpId r \<in> mpId ` set (mkMappings m)" using rw by simp
    have 3: "hvMapping ` set (mkVersions m') = insert (mpId r) (hvMapping ` set (mkVersions m))"
      using hv by (simp add: v(1))
    have 4: "mlMapping ` set (mkSelected m') \<subseteq> insert (mpId r) (mlMapping ` set (mkSelected m))" using rw by simp
    have sub: "mpId ` set (mkMappings m') \<union> hvMapping ` set (mkVersions m') \<union> mlMapping ` set (mkSelected m')
      \<subseteq> mpId ` set (mkMappings m) \<union> hvMapping ` set (mkVersions m) \<union> mlMapping ` set (mkSelected m)"
      unfolding 1 3 using 2 4 by (simp add: le_supI1 le_supI2 subset_insertI2) (auto simp: subset_iff)
    have "i < next_id m" if "i \<in> mpId ` set (mkMappings m') \<union> hvMapping ` set (mkVersions m') \<union> mlMapping ` set (mkSelected m')" for i
      using subsetD [OF sub that] good by blast
    moreover have "next_id m \<le> next_id m'" using rw by (simp add: next_id_def)
    ultimately show ?thesis by (meson order_less_le_trans)
  qed
  moreover have "distinct (map mpId (mkMappings m'))" using ids good by simp
  moreover have "unique_on live_entity (mkMappings m')" using rw by blast
  ultimately show ?thesis unfolding market_good_def by (intro conjI)
qed


lemma update_one:
  assumes "distinct (map mpId rows)" "r \<in> set rows"
  shows "update_where (\<lambda>s. mpId s = mpId r) f rows = update_where (\<lambda>s. mpId s = mpId r) (\<lambda>s. f r) rows"
  unfolding update_where_def
proof (rule map_cong [OF refl])
  fix s
  assume "s \<in> set rows"
  with assms show "(if mpId s = mpId r then f s else s) = (if mpId s = mpId r then f r else s)"
    using same_row [of mpId rows s r] by auto
qed

lemma find_mapping_Some:
  assumes "find_mapping m b i = Some r"
  shows "r \<in> set (mkMappings m)" "mpBusiness r = b" "mpId r = i"
  using assms by (auto simp: find_mapping_def find_Some_iff)

lemma selectLocations_Inr:
  assumes "selectLocations b i ls m = Inr m'"
  shows "m' = m\<lparr>mkSelected := mkSelected m @ map (\<lambda>l. \<lparr>mlBusiness = b, mlMapping = i, mlLocation = l\<rparr>) ls\<rparr>"
  using assms unfolding selectLocations_def
proof (induction ls arbitrary: m)
  case (Cons l ls)
  from Cons.prems obtain m1 where "insert_selected \<lparr>mlBusiness = b, mlMapping = i, mlLocation = l\<rparr> m = Inr m1"
    and "foldR (\<lambda>l. insert_selected \<lparr>mlBusiness = b, mlMapping = i, mlLocation = l\<rparr>) ls m1 = Inr m'"
    by (auto simp: result_simps)
  with Cons.IH [of m1] show ?case by (simp add: insert_selected_Inr)
qed simp

lemma selected_append:
  "selected_for (m\<lparr>mkSelected := mkSelected m @ map (\<lambda>l. \<lparr>mlBusiness = b, mlMapping = i, mlLocation = l\<rparr>) ls\<rparr>) j =
    selected_for m j @ (if j = i then ls else [])"
  by (simp add: selected_for_def o_def)

text \<open>The two ways the code writes a row and its version.\<close>

lemma change_rewritten:
  assumes "r \<in> set (mkMappings m)" "mpId r' = mpId r" "mpBusiness r' = mpBusiness r"
    and "mpVersion r' = mpVersion r + 1"
    and "change_mapping r' ls reason by m = Inr m'" and "selected_for m (mpId r) = ls"
  shows "rewritten m r r' m'"
proof -
  from assms(5) obtain m1 where u: "update_mappings (\<lambda>s. mpId s = mpId r') (\<lambda>s. r') m = Inr m1"
    and v: "recordVersion r' ls reason by m1 = Inr m'" by (auto simp: change_mapping_def result_simps)
  from u have m1: "m1 = m\<lparr>mkMappings := update_where (\<lambda>s. mpId s = mpId r) (\<lambda>s. r') (mkMappings m)\<rparr>"
    and c: "mapping_check r' = Inr ()" and q: "unique_on live_entity (mkMappings m1)"
    using assms(1,2) by (auto simp: update_mappings_Inr)
  from v have m': "\<exists>v. m' = m1\<lparr>mkVersions := mkVersions m1 @ [v]\<rparr> \<and> describes v r' ls"
    by (auto simp: recordVersion_def insert_version_Inr describes_def)
  with m1 assms(6) have "selected_for m' = selected_for m" "mkSelected m' = mkSelected m"
    "mkStock m' = mkStock m" "mkItems m' = mkItems m" "mkMappings m' = mkMappings m1" "mkVersions m1 = mkVersions m"
    by (auto simp: selected_for_def fun_eq_iff)
  moreover from this m' have "\<exists>v. mkVersions m' = mkVersions m @ [v] \<and> describes v r' ls" by auto
  ultimately show ?thesis using assms(1,2,3,4,6) c q m1 unfolding rewritten_def by auto
qed

lemma bump_rewritten:
  assumes "market_good m" "bumpVersion b i status reason by m = Inr (version, m1)"
    and "update_mappings (\<lambda>s. mpId s = i) f m1 = Inr m2"
    and "\<And>r. mpId r = i \<Longrightarrow> mpVersion r + 1 = version \<Longrightarrow> f r = change (r\<lparr>mpStatus := status, mpVersion := version\<rparr>)"
    and "\<And>r. mpId (change r) = mpId r" "\<And>r. mpBusiness (change r) = mpBusiness r" "\<And>r. mpVersion (change r) = mpVersion r"
    and "\<And>r. mpItem (change r) = mpItem r" "\<And>r. mpBuffer (change r) = mpBuffer r" "\<And>r. mpCap (change r) = mpCap r"
    and "\<And>r. mpStatus (change r) = mpStatus r"
  obtains r where "find_mapping m b i = Some r" "version = mpVersion r + 1"
    "rewritten m r (change (r\<lparr>mpStatus := status, mpVersion := version\<rparr>)) m2" "mkSelected m2 = mkSelected m"
proof -
  from assms(2) obtain r where r: "find_mapping m b i = Some r" and version: "version = mpVersion r + 1"
    and rec: "recordVersion (r\<lparr>mpVersion := mpVersion r + 1, mpStatus := status\<rparr>) (selected_for m i) reason by m = Inr m1"
    by (auto simp: bumpVersion_def result_simps split: option.splits)
  note row = find_mapping_Some [OF r]
  let ?r = "change (r\<lparr>mpStatus := status, mpVersion := version\<rparr>)"
  have d: "distinct (map mpId (mkMappings m))" using assms(1) by (simp add: market_good_def)
  from rec obtain v where v: "m1 = m\<lparr>mkVersions := mkVersions m @ [v]\<rparr>" "describes v ?r (selected_for m i)"
    by (auto simp: recordVersion_def insert_version_Inr describes_def version assms(5-))
  have f: "f r = ?r" using assms(4) row(3) version by blast
  from assms(3) v(1) have m2: "m2 = m1\<lparr>mkMappings := update_where (\<lambda>s. mpId s = i) f (mkMappings m)\<rparr>"
    and c: "mapping_check ?r = Inr ()" and q: "unique_on live_entity (mkMappings m2)"
    using row f by (auto simp: update_mappings_Inr)
  have "update_where (\<lambda>s. mpId s = i) f (mkMappings m) = update_where (\<lambda>s. mpId s = mpId r) (\<lambda>s. ?r) (mkMappings m)"
    using update_one [OF d row(1), of f] f row(3) by simp
  then have "rewritten m r ?r m2"
    using row v c q m2 unfolding rewritten_def
    by (auto simp: assms(5-7) version selected_for_def describes_def)
  moreover have "mkSelected m2 = mkSelected m" by (simp add: m2 v(1))
  ultimately show ?thesis using r version by (intro that)
qed


lemma rewritten_found:
  assumes "rewritten m r r' m'" "find_mapping m b i = Some r"
  shows "find_mapping m' b i = Some r'"
proof -
  have rows: "mkMappings m' = update_where (\<lambda>s. mpId s = mpId r) (\<lambda>s. r') (mkMappings m)"
    and same: "mpId r' = mpId r" "mpBusiness r' = mpBusiness r" using assms(1) by (auto simp: rewritten_def)
  let ?P = "\<lambda>s. mpBusiness s = b \<and> mpId s = i"
  have P: "?P r'" using find_mapping_Some [OF assms(2)] same by simp
  have "List.find ?P rows = Some r \<Longrightarrow> List.find ?P (update_where (\<lambda>s. mpId s = mpId r) (\<lambda>s. r') rows) = Some r'" for rows
    using P by (induction rows) (auto split: if_splits)
  with assms(2) show ?thesis by (simp add: find_mapping_def rows)
qed

section \<open>The operations\<close>

definition rewrites_row :: "market \<Rightarrow> market \<Rightarrow> bool" where
  "rewrites_row m m' \<longleftrightarrow> m' = m \<or> (\<exists>r r'. rewritten m r r' m')"

lemma rewrites_row_good: "rewrites_row m m' \<Longrightarrow> market_good m \<Longrightarrow> market_good m'"
  using rewrite_keeps_market by (auto simp: rewrites_row_def)

lemma changed_found:
  assumes "find_mapping m b i = Some r" "change_mapping r' (selected_for m i) reason by m = Inr m'"
    and "mpId r' = mpId r" "mpBusiness r' = mpBusiness r" "mpVersion r' = mpVersion r + 1"
  shows "rewritten m r r' m'"
  using find_mapping_Some [OF assms(1)] assms(2-) by (intro change_rewritten) auto

lemma approve_effect:
  assumes "approveMapping input m = Inr (res, m')" "m' \<noteq> m"
  obtains r where "find_mapping m (amBusiness input) (amMapping input) = Some r" "mpStatus r = MappingDraft"
    "res = MappingApprovedAs (mpVersion r + 1)"
    "rewritten m r (r\<lparr>mpStatus := MappingApproved, mpApprovedAt := Some (amNow input),
       mpApprovedBy := amBy input, mpVersion := mpVersion r + 1\<rparr>) m'"
proof -
  from assms obtain r where r: "find_mapping m (amBusiness input) (amMapping input) = Some r"
    "mpStatus r = MappingDraft" "res = MappingApprovedAs (mpVersion r + 1)"
    "change_mapping (r\<lparr>mpStatus := MappingApproved, mpApprovedAt := Some (amNow input),
       mpApprovedBy := amBy input, mpVersion := mpVersion r + 1\<rparr>) (selected_for m (amMapping input))
       (amReason input) (amBy input) m = Inr m'"
    unfolding approveMapping_def market_transaction_Inr readForUpdate_def Let_def
    by (auto simp: result_simps split: option.splits if_splits)
  show thesis by (rule that [OF r(1-3) changed_found [OF r(1,4)]]) simp_all
qed

lemma archive_effect:
  assumes "archiveMapping input m = Inr (res, m')" "m' \<noteq> m"
  obtains r where "find_mapping m (acBusiness input) (acMapping input) = Some r" "mpStatus r \<noteq> MappingArchived"
    "rewritten m r (r\<lparr>mpStatus := MappingArchived, mpPauseReason := None,
       mpArchivedAt := Some (acNow input), mpVersion := mpVersion r + 1\<rparr>) m'"
proof -
  from assms obtain r where r: "find_mapping m (acBusiness input) (acMapping input) = Some r"
    "mpStatus r \<noteq> MappingArchived"
    "change_mapping (r\<lparr>mpStatus := MappingArchived, mpPauseReason := None,
       mpArchivedAt := Some (acNow input), mpVersion := mpVersion r + 1\<rparr>) (selected_for m (acMapping input))
       (acReason input) (acActor input) m = Inr m'"
    unfolding archiveMapping_def market_transaction_Inr readForUpdate_def Let_def
    by (auto simp: result_simps split: option.splits if_splits)
  show thesis by (rule that [OF r(1,2) changed_found [OF r(1,3)]]) simp_all
qed

lemma pause_rewrites:
  assumes "pauseMapping b i reason actor m = Inr (res, m')" "market_good m"
  shows "rewrites_row m m'"
proof (cases "m' = m")
  case False
  with assms(1) obtain version m1 where
    "bumpVersion b i MappingPaused (Some reason) actor m = Inr (version, m1)"
    "update_mappings (\<lambda>s. mpId s = i)
       (\<lambda>s. s\<lparr>mpStatus := MappingPaused, mpPauseReason := Some reason, mpVersion := version\<rparr>) m1 = Inr m'"
    by (auto simp: pauseMapping_def market_transaction_Inr result_simps split: option.splits if_splits)
  then show ?thesis
    by (rule bump_rewritten [OF assms(2), where change = "mpPauseReason_update (\<lambda>_. Some reason)"])
      (auto simp: rewrites_row_def)
qed (simp add: rewrites_row_def)

lemma pause_each_good:
  assumes "pause_each b reason is m paused = (r, m')" "market_good m"
  shows "market_good m'"
  using assms
proof (induction b reason "is" m paused rule: pause_each.induct)
  case (2 b reason i "is" m paused)
  then show ?case using pause_rewrites rewrites_row_good by (auto split: sum.splits prod.splits) blast+
qed simp

lemma pause_listings_good:
  assumes "pause_listings b c ps m paused = (r, m')" "market_good m"
  shows "market_good m'"
  using assms
proof (induction ps arbitrary: m paused)
  case (Cons p ps)
  then show ?case by (auto simp: Let_def split: sum.splits prod.splits if_splits) (metis pause_each_good)+
qed simp


lemma revise_effect:
  assumes "reviseMapping input m = Inr (res, m')" "m' \<noteq> m \<or> (\<exists>n s. res = Revised n s)"
  obtains r where "find_mapping m (rmBusiness input) (rmMapping input) = Some r" "mpStatus r \<noteq> MappingArchived"
    "rewritten m r (revised_row input r) m'" "res = Revised (mpVersion r + 1) (mpStatus (revised_row input r))"
proof -
  let ?b = "rmBusiness input" and ?i = "rmMapping input"
  let ?ids = "case rmLocations input of None \<Rightarrow> selected_for m ?i | Some chosen \<Rightarrow> set_of chosen"
  have "market_transaction (revise_work input) m = Inr (res, m')"
    using assms unfolding reviseMapping_def by (auto split: option.splits if_splits)
  then obtain keep m2 where m2: "m' = (if keep then m2 else m)" and work: "revise_work input m = Inr (keep, res, m2)"
    unfolding market_transaction_Inr by blast
  have "keep"
  proof (rule ccontr)
    assume "\<not> keep"
    with work have "\<nexists>n s. res = Revised n s" unfolding revise_work_def
      by (cases "find_mapping m ?b ?i") (auto simp: readForUpdate_def Let_def result_simps split: if_splits)
    with m2 \<open>\<not> keep\<close> assms(2) show False by simp
  qed
  with m2 have keep: "keep" "m2 = m'" by simp_all
  from work keep obtain r where r: "find_mapping m ?b ?i = Some r" "mpStatus r \<noteq> MappingArchived"
    and rest: "bindR (if rmLocations input = None then Inr m else reselect ?b ?i ?ids m) (\<lambda>m1.
                 bindR (change_mapping (revised_row input r) ?ids (Some (trim (rmReason input))) (rmActor input) m1) (\<lambda>m2.
                 Inr (True, Revised (mpVersion (revised_row input r)) (mpStatus (revised_row input r)), m2)))
               = Inr (True, res, m')"
    unfolding revise_work_def
    by (cases "find_mapping m ?b ?i") (auto simp: readForUpdate_def Let_def split: if_splits)
  from rest obtain ids m1 where res: "res = Revised (mpVersion (revised_row input r)) (mpStatus (revised_row input r))"
    and ids: "ids = ?ids"
    and m1: "(if rmLocations input = None then Inr m else reselect ?b ?i ids m) = (Inr m1 :: exn + market)"
    and ch: "change_mapping (revised_row input r) ids (Some (trim (rmReason input))) (rmActor input) m1 = Inr m'"
    unfolding bindR_Inr by blast
  note row = find_mapping_Some [OF r(1)]
  have sel: "mkMappings m1 = mkMappings m \<and> mkVersions m1 = mkVersions m \<and> mkStock m1 = mkStock m \<and> mkItems m1 = mkItems m
      \<and> selected_for m1 (rmMapping input) = ids \<and> (\<forall>i. i \<noteq> rmMapping input \<longrightarrow> selected_for m1 i = selected_for m i)
      \<and> mlMapping ` set (mkSelected m1) \<subseteq> insert (rmMapping input) (mlMapping ` set (mkSelected m))"
  proof (cases "rmLocations input")
    case None
    with m1 ids show ?thesis by auto
  next
    case (Some chosen)
    with m1 have "reselect (rmBusiness input) (rmMapping input) ids m = Inr m1" by simp
    from selectLocations_Inr [OF this [unfolded reselect_def]]
    have m1: "m1 = m\<lparr>mkSelected := filter (\<lambda>r. mlMapping r \<noteq> ?i) (mkSelected m)
        @ map (\<lambda>l. \<lparr>mlBusiness = ?b, mlMapping = ?i, mlLocation = l\<rparr>) ids\<rparr>" by (simp add: delete_selected_def)
    have keep: "filter (\<lambda>r. mlMapping r = i) (filter (\<lambda>r. mlMapping r \<noteq> ?i) rows) = filter (\<lambda>r. mlMapping r = i) rows"
      if "i \<noteq> ?i" for i rows using that by (induction rows) auto
    have "selected_for m1 ?i = ids" by (simp add: selected_for_def m1 o_def)
    moreover have "selected_for m1 i = selected_for m i" if "i \<noteq> ?i" for i
      using that by (simp add: selected_for_def m1 o_def keep [OF that] del: filter_filter)
    ultimately show ?thesis by (auto simp: m1)
  qed
  have same: "mpId (revised_row input r) = mpId r" "mpBusiness (revised_row input r) = mpBusiness r"
    "mpVersion (revised_row input r) = mpVersion r + 1" by (simp_all add: revised_row_def Let_def)
  have rw: "rewritten m1 r (revised_row input r) m'"
    using sel row by (intro change_rewritten [OF _ same ch]) auto
  then have "mlMapping ` set (mkSelected m') \<subseteq> insert ?i (mlMapping ` set (mkSelected m1))"
    using row(3) by (simp add: rewritten_def)
  with sel have "mlMapping ` set (mkSelected m') \<subseteq> insert ?i (mlMapping ` set (mkSelected m))" by blast
  with rw have "rewritten m r (revised_row input r) m'"
    using sel row(3) by (auto simp: rewritten_def)
  with r res same(3) show thesis by (intro that) auto
qed

lemma propose_effect:
  assumes "proposeMapping input m = Inr (res, m')" "m' \<noteq> m"
  obtains i ls where "i = next_id m" "res = Proposed i"
    "mkMappings m' = mkMappings m @ [proposed_row input i (dbClock (mkStock m))]"
    "mapping_check (proposed_row input i (dbClock (mkStock m))) = Inr ()"
    "Some (prProviderItem input) \<notin> live_entity ` set (mkMappings m)"
    "mkSelected m' = mkSelected m @ map (\<lambda>l. \<lparr>mlBusiness = prBusiness input, mlMapping = i, mlLocation = l\<rparr>) ls"
    "\<exists>v. mkVersions m' = mkVersions m @ [v] \<and> describes v (proposed_row input i (dbClock (mkStock m))) ls"
    "next_id m' = Suc i" "ls = set_of (prLocations input)"
proof -
  let ?i = "dbNextUuid (mkStock m)" and ?ls = "set_of (prLocations input)"
  let ?r = "proposed_row input ?i (dbClock (mkStock m))"
  let ?m = "m\<lparr>mkStock := (mkStock m)\<lparr>dbNextUuid := Suc ?i\<rparr>\<rparr>"
  from assms have "propose_work input ?ls m = Inr (res, m')"
    unfolding proposeMapping_def by (auto split: option.splits if_splits sum.splits)
  with assms(2) obtain m1 m2 where res: "res = Proposed ?i" and m1: "insert_mapping ?r ?m = Inr m1"
    and m2: "selectLocations (prBusiness input) ?i ?ls m1 = Inr m2"
    and m': "recordVersion ?r ?ls (prReason input) (prBy input) m2 = Inr m'"
    unfolding propose_work_def Let_def take_uuid_def by (auto simp: result_simps split: if_splits)
  from m1 have m1': "m1 = ?m\<lparr>mkMappings := mkMappings m @ [?r]\<rparr>" "mapping_check ?r = Inr ()"
    "Some (prProviderItem input) \<notin> live_entity ` set (mkMappings m)"
    by (auto simp: insert_mapping_Inr live_entity_def proposed_row_def)
  note m2' = selectLocations_Inr [OF m2]
  from m' have v: "\<exists>v. m' = m2\<lparr>mkVersions := mkVersions m2 @ [v]\<rparr> \<and> describes v ?r ?ls"
    by (auto simp: recordVersion_def insert_version_Inr describes_def)
  show thesis
    by (rule that [of ?i ?ls]) (use res m1' m2' v in \<open>auto simp: next_id_def\<close>)
qed

lemma propose_good:
  assumes "proposeMapping input m = Inr (res, m')" "market_good m"
  shows "market_good m'"
proof (cases "m' = m")
  case False
  from propose_effect [OF assms(1) False] obtain i ls where e: "i = next_id m"
    "mkMappings m' = mkMappings m @ [proposed_row input i (dbClock (mkStock m))]"
    "mapping_check (proposed_row input i (dbClock (mkStock m))) = Inr ()"
    "Some (prProviderItem input) \<notin> live_entity ` set (mkMappings m)"
    "mkSelected m' = mkSelected m @ map (\<lambda>l. \<lparr>mlBusiness = prBusiness input, mlMapping = i, mlLocation = l\<rparr>) ls"
    "\<exists>v. mkVersions m' = mkVersions m @ [v] \<and> describes v (proposed_row input i (dbClock (mkStock m))) ls"
    "next_id m' = Suc i" by metis
  let ?r = "proposed_row input i (dbClock (mkStock m))"
  note good = assms(2) [unfolded market_good_def]
  have r: "mpId ?r = i" "mpVersion ?r = 1" "live_entity ?r = Some (prProviderItem input)"
    by (simp_all add: proposed_row_def live_entity_def)
  have fresh: "i \<notin> mpId ` set (mkMappings m)" "history_of m i = []" "selected_for m i = []"
  proof -
    have "j < i" if "j \<in> mpId ` set (mkMappings m) \<union> hvMapping ` set (mkVersions m) \<union> mlMapping ` set (mkSelected m)" for j
      using good e(1) that by blast
    from this [of i] have "i \<notin> mpId ` set (mkMappings m)" "i \<notin> hvMapping ` set (mkVersions m)" "i \<notin> mlMapping ` set (mkSelected m)"
      by auto
    then show "i \<notin> mpId ` set (mkMappings m)" "history_of m i = []" "selected_for m i = []"
      by (auto simp: history_of_def selected_for_def filter_empty_conv image_iff)
  qed
  from e(6) obtain v where v: "mkVersions m' = mkVersions m @ [v]" "describes v ?r ls" by blast
  have hv: "hvMapping v = i" using v(2) r by (simp add: describes_def)
  have past: "history_of m' j = (if j = i then history_of m j @ [v] else history_of m j)" for j
    using hv by (simp add: history_of_def v(1))
  have sel: "selected_for m' j = selected_for m j @ (if j = i then ls else [])" for j
    by (simp add: selected_for_def e(5) o_def)
  have "chronicled m' ?r" using fresh v(2) r by (simp add: chronicled_def past sel describes_def)
  moreover have "chronicled m' s" if "s \<in> set (mkMappings m)" for s
  proof -
    have "mpId s \<noteq> i" using fresh(1) that by blast
    moreover have "chronicled m s" using good that by blast
    ultimately show ?thesis by (simp add: chronicled_def past sel)
  qed
  ultimately have "\<forall>s \<in> set (mkMappings m'). mapping_check s = Inr () \<and> chronicled m' s"
    using e(2,3) good by auto
  moreover have "\<forall>j \<in> mpId ` set (mkMappings m') \<union> hvMapping ` set (mkVersions m') \<union> mlMapping ` set (mkSelected m'). j < next_id m'"
  proof -
    have "j = i \<or> j \<in> mpId ` set (mkMappings m) \<union> hvMapping ` set (mkVersions m) \<union> mlMapping ` set (mkSelected m)"
      if "j \<in> mpId ` set (mkMappings m') \<union> hvMapping ` set (mkVersions m') \<union> mlMapping ` set (mkSelected m')" for j
      using that hv r(1) by (auto simp: e(2,5) v(1))
    then show ?thesis using good e(1,7) by (metis less_Suc_eq)
  qed
  moreover have "distinct (map mpId (mkMappings m'))" using good fresh(1) r(1) by (simp add: e(2))
  moreover have "unique_on live_entity (mkMappings m')"
    unfolding e(2) unique_on_append using good e(4) r(3) by simp
  ultimately show ?thesis unfolding market_good_def by (intro conjI)
qed (use assms(2) in simp)


lemma market_good_stock:
  assumes "market_good m" "next_id m \<le> dbNextUuid d"
  shows "market_good (m\<lparr>mkStock := d\<rparr>)"
proof -
  have same: "history_of (m\<lparr>mkStock := d\<rparr>) = history_of m" "selected_for (m\<lparr>mkStock := d\<rparr>) = selected_for m"
    by (simp_all add: history_of_def selected_for_def fun_eq_iff)
  have "i < dbNextUuid d" if "i < next_id m" for i using that assms(2) by simp
  with assms(1) show ?thesis by (auto simp: market_good_def chronicled_def same next_id_def)
qed

lemma market_good_items: "market_good (m\<lparr>mkItems := es\<rparr>) = market_good m"
  by (simp add: market_good_def chronicled_def history_of_def selected_for_def next_id_def)

lemma adopt_apart:
  assumes "adopt b item shelves quantity location actor from d = Inr (x, d')"
  shows "apart d d'" and "x = Some f \<Longrightarrow> \<exists>reason. f = ActivationInvalid reason"
proof -
  have "apart d d' \<and> (\<forall>f. x = Some f \<longrightarrow> (\<exists>reason. f = ActivationInvalid reason))"
    using assms unfolding adopt_def Let_def
    by (auto simp: result_simps intro: posting_apart split: if_splits option.splits list.splits posting_result.splits)
  then show "apart d d'" and "x = Some f \<Longrightarrow> \<exists>reason. f = ActivationInvalid reason" by blast+
qed

lemma adoption_apart:
  assumes "adoption input pv d = Inr (x, d')"
  shows "apart d d'" and "x = Some f \<Longrightarrow> \<exists>reason. f = ActivationInvalid reason"
  using assms unfolding adoption_def
  by (auto dest: adopt_apart split: option.splits initialization.splits)

lemma adoption_items: "adoption input pv d = Inr (x, d') \<Longrightarrow> dbItems d' = dbItems d"
proof -
  have post: "dbItems d' = dbItems d" if "postMovements po d = Inr (res, d')" for po res d'
    using that by (cases rule: postMovements_cases)
      (auto simp: posted_effect_def Let_def same_but_stock_fields dest: ensured_fields(1))
  have "dbItems d' = dbItems d" if "adopt b item shelves quantity location actor from d = Inr (x, d')"
      for b item shelves quantity location actor "from"
    using that unfolding adopt_def Let_def
    by (auto simp: result_simps dest: post split: if_splits option.splits list.splits)
  then show "adoption input pv d = Inr (x, d') \<Longrightarrow> dbItems d' = dbItems d"
    by (auto simp: adoption_def split: option.splits initialization.splits)
qed

definition live_row :: "activate_input \<Rightarrow> mapping \<Rightarrow> mapping" where
  "live_row input r = r\<lparr>mpStatus := MappingActive, mpVersion := mpVersion r + 1, mpPauseReason := None,
     mpActivatedAt := Some (avNow input)\<rparr>"

lemma activate_effect:
  assumes "activateMapping input m = Inr (res, m')" "m' \<noteq> m \<or> res = Activated n" "market_good m"
  obtains pv d r after where
    "previewActivation (avBusiness input) (avMapping input) (avInitialization input) m = Inr (ActivationPreviewed pv)"
    "pvStatus pv \<in> {MappingApproved, MappingPaused}" "pvBlockers pv = []"
    "adoption input pv (mkStock m) = Inr (None, d)"
    "find_mapping m (avBusiness input) (avMapping input) = Some r"
    "rewritten (m\<lparr>mkStock := d\<rparr>) r (live_row input r) m'" "mkSelected m' = mkSelected m"
    "previewActivation (avBusiness input) (avMapping input) (Some FromCanonical) m' = Inr after"
    "res = Activated (case after of ActivationPreviewed p \<Rightarrow> pvTarget p | ActivationPreviewNotFound \<Rightarrow> 0)"
proof -
  let ?b = "avBusiness input" and ?i = "avMapping input"
  from assms(1) obtain keep m2 where m2: "m' = (if keep then m2 else m)"
    and work: "bindR (previewActivation ?b ?i (avInitialization input) m) (\<lambda>previewed.
     case previewed of
       ActivationPreviewNotFound \<Rightarrow> Inr (False, ActivationNotFound, m)
     | ActivationPreviewed pv \<Rightarrow>
         if pvStatus pv \<noteq> MappingApproved \<and> pvStatus pv \<noteq> MappingPaused
         then Inr (False, NotApproved (pvStatus pv), m)
         else if pvBlockers pv \<noteq> [] then Inr (False, Blocked (pvBlockers pv), m)
         else bindR (adoption input pv (mkStock m)) (\<lambda>(adopted, d).
           case adopted of
             Some failure \<Rightarrow> Inr (False, failure, m)
           | None \<Rightarrow>
               bindR (bumpVersion ?b ?i MappingActive
                        (Some (activation_reason (avInitialization input))) (avActor input) (m\<lparr>mkStock := d\<rparr>)) (\<lambda>(version, m1).
               bindR (update_mappings (\<lambda>r. mpId r = ?i)
                        (\<lambda>r. r\<lparr>mpStatus := MappingActive, mpPauseReason := None, mpActivatedAt := Some (avNow input),
                              mpVersion := version\<rparr>) m1) (\<lambda>m2.
               bindR (previewActivation ?b ?i (Some FromCanonical) m2) (\<lambda>after.
               Inr (True, Activated (case after of ActivationPreviewed p \<Rightarrow> pvTarget p | ActivationPreviewNotFound \<Rightarrow> 0), m2)))))) = Inr (keep, res, m2)"
    unfolding activateMapping_def market_transaction_Inr by blast
  from work obtain previewed where pre: "previewActivation ?b ?i (avInitialization input) m = Inr previewed"
    by (auto simp: bindR_Inr)
  show thesis
  proof (cases previewed)
    case ActivationPreviewNotFound
    with work pre m2 assms(2) show thesis by auto
  next
    case (ActivationPreviewed pv)
    from work pre m2 assms(2) ActivationPreviewed have st: "pvStatus pv \<in> {MappingApproved, MappingPaused}" "pvBlockers pv = []"
      by (auto split: if_splits)
    with work pre ActivationPreviewed obtain adopted d where ad: "adoption input pv (mkStock m) = Inr (adopted, d)"
      by (cases "adoption input pv (mkStock m)") auto
    have none: "adopted = None"
    proof (rule ccontr)
      assume "adopted \<noteq> None"
      then obtain f where f: "adopted = Some f" by auto
      with adoption_apart(2) [OF ad] obtain reason where "f = ActivationInvalid reason" by blast
      with work pre ActivationPreviewed st ad f m2 assms(2) show False by auto
    qed
    with work pre ActivationPreviewed st ad obtain version m1 after where
      bump: "bumpVersion ?b ?i MappingActive (Some (activation_reason (avInitialization input))) (avActor input)
        (m\<lparr>mkStock := d\<rparr>) = Inr (version, m1)"
      and upd: "update_mappings (\<lambda>r. mpId r = ?i) (\<lambda>r. r\<lparr>mpStatus := MappingActive, mpPauseReason := None,
        mpActivatedAt := Some (avNow input), mpVersion := version\<rparr>) m1 = Inr m2"
      and after: "previewActivation ?b ?i (Some FromCanonical) m2 = Inr after"
      and res: "keep" "res = Activated (case after of ActivationPreviewed p \<Rightarrow> pvTarget p | ActivationPreviewNotFound \<Rightarrow> 0)"
      by (auto simp: result_simps)
    have good: "market_good (m\<lparr>mkStock := d\<rparr>)"
      using market_good_stock [OF assms(3)] adoption_apart(1) [OF ad] by (simp add: apart_def next_id_def)
    have same: "find_mapping (m\<lparr>mkStock := d\<rparr>) = find_mapping m" by (simp add: find_mapping_def fun_eq_iff)
    show thesis
    proof (rule bump_rewritten [OF good bump upd,
          where change = "\<lambda>r. r\<lparr>mpPauseReason := None, mpActivatedAt := Some (avNow input)\<rparr>"])
      fix r
      assume r: "find_mapping (m\<lparr>mkStock := d\<rparr>) ?b ?i = Some r" "version = mpVersion r + 1"
        "rewritten (m\<lparr>mkStock := d\<rparr>) r (r\<lparr>mpStatus := MappingActive, mpVersion := version,
            mpPauseReason := None, mpActivatedAt := Some (avNow input)\<rparr>) m2" "mkSelected m2 = mkSelected (m\<lparr>mkStock := d\<rparr>)"
      show thesis
        by (rule that [OF pre [unfolded ActivationPreviewed] st ad [unfolded none] r(1) [unfolded same]])
          (use r after res m2 in \<open>simp_all add: live_row_def\<close>)
    qed simp_all
  qed
qed

section \<open>Runs\<close>

inductive market_step :: "market \<Rightarrow> market \<Rightarrow> bool" where
  proposes: "proposeMapping pr m = Inr (r, m') \<Longrightarrow> market_step m m'"
| approves: "approveMapping am m = Inr (r, m') \<Longrightarrow> market_step m m'"
| revises: "reviseMapping rm m = Inr (r, m') \<Longrightarrow> market_step m m'"
| archives: "archiveMapping ac m = Inr (r, m') \<Longrightarrow> market_step m m'"
| activates: "activateMapping av m = Inr (r, m') \<Longrightarrow> market_step m m'"
| pauses: "pauseMapping b i reason actor m = Inr (r, m') \<Longrightarrow> market_step m m'"
| pauses_listings: "pauseIncompleteVariationListings b c m = (r, m') \<Longrightarrow> market_step m m'"
| restocked: "next_id m \<le> dbNextUuid d \<Longrightarrow> market_step m (m\<lparr>mkStock := d\<rparr>)"
| scanned: "market_step m (m\<lparr>mkItems := es\<rparr>)"

lemma market_step_good:
  assumes "market_step m m'" "market_good m"
  shows "market_good m'"
  using assms
proof (cases rule: market_step.cases)
  case (proposes pr r)
  with assms(2) show ?thesis using propose_good by blast
next
  case (approves am r)
  with assms(2) show ?thesis by (cases "m' = m") (auto elim: approve_effect dest: rewrite_keeps_market)
next
  case (revises rm r)
  with assms(2) show ?thesis by (cases "m' = m") (auto elim: revise_effect dest: rewrite_keeps_market)
next
  case (archives ac r)
  with assms(2) show ?thesis by (cases "m' = m") (auto elim: archive_effect dest: rewrite_keeps_market)
next
  case (activates av r)
  show ?thesis
  proof (cases "m' = m")
    case False
    with activates assms(2) obtain pv d r' where "adoption av pv (mkStock m) = Inr (None, d)"
      and "rewritten (m\<lparr>mkStock := d\<rparr>) r' (live_row av r') m'" by (metis activate_effect)
    moreover from this(1) have "market_good (m\<lparr>mkStock := d\<rparr>)"
      using market_good_stock [OF assms(2)] adoption_apart(1) by (simp add: apart_def next_id_def)
    ultimately show ?thesis using rewrite_keeps_market by blast
  qed (use assms(2) in simp)
next
  case (pauses b i reason actor r)
  with assms(2) show ?thesis using pause_rewrites rewrites_row_good by blast
next
  case (pauses_listings b c r)
  with assms(2) show ?thesis by (auto simp: pauseIncompleteVariationListings_def dest: pause_listings_good)
qed (use assms(2) market_good_stock market_good_items in auto)

lemma market_run_good: "market_step\<^sup>*\<^sup>* m m' \<Longrightarrow> market_good m \<Longrightarrow> market_good m'"
  by (induction rule: rtranclp_induct) (auto intro: market_step_good)


section \<open>What a mapping's history and status promise\<close>

definition no_mappings :: "market \<Rightarrow> bool" where
  "no_mappings m \<longleftrightarrow> mkMappings m = [] \<and> mkSelected m = [] \<and> mkVersions m = []"

lemma no_mappings_good: "no_mappings m \<Longrightarrow> market_good m"
  by (simp add: no_mappings_def market_good_def unique_on_def)

lemma market_run_from_none: "market_step\<^sup>*\<^sup>* m m' \<Longrightarrow> no_mappings m \<Longrightarrow> market_good m'"
  by (blast intro: market_run_good no_mappings_good)

lemma sorted_upt: "sorted_wrt newer_version (rev vs)" if "map hvVersion vs = map int [a..<b]" for vs
proof -
  have "sorted_wrt (\<lambda>x y. hvVersion x \<le> hvVersion y) vs"
  proof -
    have "sorted (map hvVersion vs)" by (simp add: that sorted_map)
    then show ?thesis by (simp add: sorted_map)
  qed
  then show ?thesis by (simp add: sorted_wrt_rev newer_version_def)
qed

text \<open>
  C29: Every change of a mapping is on record: its history, newest first, counts down from the
  current version to 1 without a gap, and the newest entry describes the mapping as it stands, the
  locations it draws on included.
\<close>

theorem mapping_history_is_complete:
  assumes "market_step\<^sup>*\<^sup>* m m'" and "no_mappings m" and "find_mapping m' b i = Some r"
  shows "map hvVersion (readMappingHistory b i m') = map int (rev [1..<Suc (nat (mpVersion r))])
    \<and> 1 \<le> mpVersion r \<and> describes (hd (readMappingHistory b i m')) r (selected_for m' i)"
proof -
  note row = find_mapping_Some [OF assms(3)]
  have good: "market_good m'" using market_run_from_none assms(1,2) by blast
  with row have c: "chronicled m' r" "mapping_check r = Inr ()" by (auto simp: market_good_def)
  let ?h = "history_of m' i"
  have vs: "map hvVersion ?h = map int [1..<Suc (nat (mpVersion r))]" and ne: "?h \<noteq> []"
    and d: "describes (last ?h) r (selected_for m' i)" and b: "list_all (\<lambda>v. hvBusiness v = b) ?h"
    using c(1) row by (simp_all add: chronicled_def)
  have "filter (\<lambda>v. hvBusiness v = b \<and> hvMapping v = i) (mkVersions m') = ?h"
    using b by (auto simp: history_of_def list_all_iff intro: filter_cong)
  then have read: "readMappingHistory b i m' = sort_by newer_version ?h" by (simp add: readMappingHistory_def)
  have dist: "distinct (map hvVersion ?h)" by (simp add: vs distinct_map)
  have "sort_by newer_version ?h = rev ?h"
  proof (rule sorted_wrt_unique)
    show "sorted_wrt newer_version (sort_by newer_version ?h)" by (rule version_order.sorted_sort_by)
    show "sorted_wrt newer_version (rev ?h)" by (rule sorted_upt [OF vs])
    show "mset (sort_by newer_version ?h) = mset (rev ?h)" by simp
    show "\<And>x y. x \<in> set (sort_by newer_version ?h) \<Longrightarrow> y \<in> set (sort_by newer_version ?h) \<Longrightarrow>
      newer_version x y \<Longrightarrow> newer_version y x \<Longrightarrow> x = y"
      using same_row [OF dist] by (simp add: newer_version_def)
  qed
  with read have "readMappingHistory b i m' = rev ?h" by simp
  moreover from vs have "map hvVersion (rev ?h) = map int (rev [1..<Suc (nat (mpVersion r))])" by (metis rev_map)
  moreover have "hd (rev ?h) = last ?h" using ne by (simp add: hd_rev)
  ultimately show ?thesis using d mapping_check_version [OF c(2)] by simp
qed

lemma resolve_Writable:
  "resolveWriteTarget m b i = Writable t \<longleftrightarrow>
     (\<exists>r e. find_mapping m b i = Some r \<and> provider_item_of m r = Some e \<and> mpStatus r = MappingActive
       \<and> piEligible e \<and> piMissing e = None
       \<and> t = \<lparr>wtMapping = i, wtConnection = mpConnection r, wtProviderItem = mpProviderItem r,
               wtExternal = piExternal e, wtItem = mpItem r, wtBuffer = mpBuffer r, wtCap = mpCap r,
               wtLocations = selected_for m i\<rparr>)"
  unfolding resolveWriteTarget_def by (auto split: option.splits)

text \<open>
  C27: Whatever was proposed, revised, activated or archived, a mapping the gate lets write has its
  approval and its activation on record, and no other mapping is let write to the same channel
  entity, in any business.
\<close>

theorem one_writer_per_entity:
  assumes "market_step\<^sup>*\<^sup>* m m'" and "no_mappings m" and "resolveWriteTarget m' b i = Writable t"
  shows "(\<exists>r. find_mapping m' b i = Some r \<and> mpApprovedAt r \<noteq> None \<and> mpActivatedAt r \<noteq> None)
    \<and> (\<forall>b' j t'. resolveWriteTarget m' b' j = Writable t' \<and> wtProviderItem t' = wtProviderItem t \<longrightarrow> b' = b \<and> j = i)"
proof -
  have good: "market_good m'" using market_run_from_none assms(1,2) by blast
  then have u: "unique_on live_entity (mkMappings m')" by (simp add: market_good_def)
  from assms(3) obtain r where r: "find_mapping m' b i = Some r" "mpStatus r = MappingActive"
    "wtProviderItem t = mpProviderItem r" by (auto simp: resolve_Writable)
  note row = find_mapping_Some [OF r(1)]
  have "mapping_check r = Inr ()" using good row by (auto simp: market_good_def)
  with r(2) have "mpApprovedAt r \<noteq> None" "mpActivatedAt r \<noteq> None" by (simp_all add: mapping_check_def)
  moreover have "b' = b \<and> j = i" if "resolveWriteTarget m' b' j = Writable t'" "wtProviderItem t' = wtProviderItem t" for b' j t'
  proof -
    from that(1) obtain s where s: "find_mapping m' b' j = Some s" "mpStatus s = MappingActive"
      "wtProviderItem t' = mpProviderItem s" by (auto simp: resolve_Writable)
    note row' = find_mapping_Some [OF s(1)]
    have "s = r"
      by (rule unique_on_row [OF u row'(1) row(1), of "mpProviderItem r"])
        (use r(2,3) s(2,3) that(2) in \<open>simp_all add: live_entity_def\<close>)
    with row row' show ?thesis by simp
  qed
  ultimately show ?thesis using r(1) by blast
qed

text \<open>
  A mapping pointed at a different canonical item may not be written until it is activated
  again, whatever its status was.
\<close>

theorem repointing_stops_writing:
  assumes "market_step\<^sup>*\<^sup>* m0 m" and "no_mappings m0" and "reviseMapping input m = Inr (Revised n s, m')"
    and "find_mapping m (rmBusiness input) (rmMapping input) = Some r" and "rmItem input = Some k" and "k \<noteq> mpItem r"
  shows "mpItem r \<noteq> k \<and> map_option mpItem (find_mapping m' (rmBusiness input) (rmMapping input)) = Some k
    \<and> (\<nexists>t. resolveWriteTarget m' (rmBusiness input) (rmMapping input) = Writable t)"
proof -
  have good: "market_good m" using market_run_from_none assms(1,2) by blast
  let ?b = "rmBusiness input" and ?i = "rmMapping input"
  note row = find_mapping_Some [OF assms(4)]
  from revise_effect [OF assms(3)] assms(4) have rw: "rewritten m r (revised_row input r) m'" by auto
  have "mpStatus (revised_row input r) \<noteq> MappingActive" "mpItem (revised_row input r) = k"
    using assms(5,6) by (simp_all add: revised_row_def revised_status_def Let_def given_def)
  moreover have "find_mapping m' ?b ?i = Some (revised_row input r)" by (rule rewritten_found [OF rw assms(4)])
  ultimately show ?thesis using assms(6) by (auto simp: resolve_Writable)
qed


lemma channelTarget_within:
  assumes "channelTarget available rules = Inr n"
  shows "0 \<le> n" "n \<le> max 0 (available - channelBuffer rules)" "channelCap rules = Some c \<Longrightarrow> n \<le> c"
  using assms by (auto simp: channelTarget_def result_simps Let_def split: option.splits)

text \<open>
  C30: Activating a mapping opens the gate it was closed behind: the mapping may be written, it draws
  on at least one location, and the figure answered is the target recomputed from the ledger after
  any starting quantity was adopted, never negative and never above the channel's cap.
\<close>

theorem activation_opens_the_gate:
  assumes "market_step\<^sup>*\<^sup>* m0 m" and "no_mappings m0" and "activateMapping input m = Inr (Activated n, m')"
  shows "\<exists>t p. resolveWriteTarget m' (avBusiness input) (avMapping input) = Writable t \<and> wtLocations t \<noteq> []
    \<and> previewActivation (avBusiness input) (avMapping input) (Some FromCanonical) m' = Inr (ActivationPreviewed p)
    \<and> pvTarget p = n \<and> 0 \<le> n \<and> (\<forall>c. wtCap t = Some c \<longrightarrow> n \<le> c)"
proof -
  have good: "market_good m" using market_run_from_none assms(1,2) by blast
  let ?b = "avBusiness input" and ?i = "avMapping input"
  obtain pv d r after where pre: "previewActivation ?b ?i (avInitialization input) m = Inr (ActivationPreviewed pv)"
    and free: "pvBlockers pv = []" and r: "find_mapping m ?b ?i = Some r"
    and rw: "rewritten (m\<lparr>mkStock := d\<rparr>) r (live_row input r) m'" and sel: "mkSelected m' = mkSelected m"
    and after: "previewActivation ?b ?i (Some FromCanonical) m' = Inr after"
    and n: "Activated n = Activated (case after of ActivationPreviewed p \<Rightarrow> pvTarget p | ActivationPreviewNotFound \<Rightarrow> 0)"
    and ad: "adoption input pv (mkStock m) = Inr (None, d)"
    using activate_effect [OF assms(3) disjI2 good] by metis
  from pre r obtain item e where item: "item_of (mkStock m) (mpItem r) = Some item" and e: "provider_item_of m r = Some e"
    by (auto simp: previewActivation_def split: option.splits)
  have seen: "piEligible e" "piMissing e = None" "selected_shelves m r \<noteq> []"
    using pre r item e free
    by (auto simp: previewActivation_def result_simps Let_def blockers_of_def split: if_splits)
  have found: "find_mapping m' ?b ?i = Some (live_row input r)"
    using rewritten_found [OF rw] r by (simp add: find_mapping_def)
  have e': "provider_item_of m' (live_row input r) = Some e"
    using rw e by (simp add: rewritten_def provider_item_of_def live_row_def)
  have "selected_for m ?i \<noteq> []"
    using seen(3) find_mapping_Some(3) [OF r] by (auto simp: selected_shelves_def selected_for_def)
  then have ls: "selected_for m' ?i \<noteq> []" using sel by (simp add: selected_for_def)
  have items: "dbItems d = dbItems (mkStock m)"
    using adoption_items [OF ad] by simp
  have stock: "mkStock m' = d" using rw by (simp add: rewritten_def)
  have item': "item_of (mkStock m') (mpItem (live_row input r)) = Some item"
    using item items by (simp add: item_of_def stock live_row_def)
  from after found item' e' obtain p available where p: "after = ActivationPreviewed p"
    "channelTarget available (rules_of (live_row input r)) = Inr (pvTarget p)"
    by (auto simp: previewActivation_def result_simps Let_def)
  have "resolveWriteTarget m' ?b ?i = Writable \<lparr>wtMapping = ?i, wtConnection = mpConnection r,
      wtProviderItem = mpProviderItem r, wtExternal = piExternal e, wtItem = mpItem r, wtBuffer = mpBuffer r,
      wtCap = mpCap r, wtLocations = selected_for m' ?i\<rparr>"
    using found e' seen by (auto simp: resolve_Writable live_row_def)
  with channelTarget_within [OF p(2)] n p(1) after ls show ?thesis by (auto simp: rules_of_def live_row_def)
qed


section \<open>A concrete mapping\<close>

text \<open>The channel lists entity 501 of connection 61 with eight units; item 21 is proposed for it.\<close>

definition stall :: market where
  "stall = \<lparr>mkStock = shop, mkProvider = (\<lambda>c. Ebay),
     mkItems = [\<lparr>piId = 501, piBusiness = 1, piConnection = 61, piExternal = ''e1'', piParent = None, piSku = None,
       piQuantity = Some 8, piBackorders = False, piEligible = True, piIneligible = None, piMissing = None\<rparr>],
     mkMappings = [], mkSelected = [], mkVersions = []\<rparr>"

definition taken :: "exn + 'v \<times> market \<Rightarrow> market \<Rightarrow> market" where
  "taken result m = (case result of Inr (v, m') \<Rightarrow> m' | Inl e \<Rightarrow> m)"

lemma taken_runs:
  "market_step\<^sup>*\<^sup>* m (taken (proposeMapping pr m) m)" "market_step\<^sup>*\<^sup>* m (taken (approveMapping am m) m)"
  "market_step\<^sup>*\<^sup>* m (taken (activateMapping av m) m)"
  unfolding taken_def by (auto split: sum.splits prod.splits intro: market_step.intros)

definition proposal :: propose_input where
  "proposal = \<lparr>prBusiness = 1, prConnection = 61, prProviderItem = 501, prItem = 21, prLocations = [41, 42],
     prBuffer = Some 1, prCap = Some 7, prBy = Some 9, prReason = None\<rparr>"

definition drafted_stall :: market where
  "drafted_stall = taken (proposeMapping proposal stall) stall"

definition approved_stall :: market where
  "approved_stall = taken (approveMapping \<lparr>amBusiness = 1, amMapping = 1000, amBy = Some 9, amReason = None, amNow = 5\<rparr>
     drafted_stall) drafted_stall"

definition go_live :: activate_input where
  "go_live = \<lparr>avBusiness = 1, avMapping = 1000, avInitialization = Some (FromExplicit 2 (Some 42)), avActor = Some 9, avNow = 6\<rparr>"

definition live_stall :: market where
  "live_stall = taken (activateMapping go_live approved_stall) approved_stall"

lemma stall_empty: "no_mappings stall"
  by (simp add: no_mappings_def stall_def)

lemma approved_stall_run: "market_step\<^sup>*\<^sup>* stall approved_stall"
  unfolding approved_stall_def drafted_stall_def by (blast intro: rtranclp_trans taken_runs)

lemma live_stall_run: "market_step\<^sup>*\<^sup>* stall live_stall"
  unfolding live_stall_def by (blast intro: rtranclp_trans approved_stall_run taken_runs)

theorem mapping_history_is_complete_witness:
  "\<exists>r. find_mapping live_stall 1 1000 = Some r \<and> mpVersion r = 3
    \<and> map hvVersion (readMappingHistory 1 1000 live_stall) = [3, 2, 1]
    \<and> describes (hd (readMappingHistory 1 1000 live_stall)) r (selected_for live_stall 1000)"
proof -
  have "map_option mpVersion (find_mapping live_stall 1 1000) = Some 3" by code_simp
  then obtain r where r: "find_mapping live_stall 1 1000 = Some r" "mpVersion r = 3" by auto
  from mapping_history_is_complete [OF live_stall_run stall_empty r(1)] r show ?thesis by (auto simp: upt_rec)
qed

theorem one_writer_per_entity_witness:
  "(\<exists>t. resolveWriteTarget live_stall 1 1000 = Writable t)
    \<and> (\<exists>r. find_mapping live_stall 1 1000 = Some r \<and> mpApprovedAt r \<noteq> None \<and> mpActivatedAt r \<noteq> None)"
proof -
  have "case resolveWriteTarget live_stall 1 1000 of Writable t \<Rightarrow> True | _ \<Rightarrow> False" by code_simp
  then obtain t where t: "resolveWriteTarget live_stall 1 1000 = Writable t" by (auto split: write_target_result.splits)
  from one_writer_per_entity [OF live_stall_run stall_empty t] t show ?thesis by blast
qed

definition repoint :: revise_input where
  "repoint = \<lparr>rmBusiness = 1, rmMapping = 1000, rmBuffer = None, rmCap = None, rmLocations = None, rmItem = Some 22,
     rmReason = ''wrong item'', rmActor = Some 9\<rparr>"

theorem repointing_stops_writing_witness:
  "(\<exists>t. resolveWriteTarget live_stall 1 1000 = Writable t)
    \<and> (\<nexists>t. resolveWriteTarget (taken (reviseMapping repoint live_stall) live_stall) 1 1000 = Writable t)"
proof -
  have w: "case resolveWriteTarget live_stall 1 1000 of Writable t \<Rightarrow> True | _ \<Rightarrow> False" by code_simp
  have "case reviseMapping repoint live_stall of Inr (Revised n s, m') \<Rightarrow> True | _ \<Rightarrow> False" by code_simp
  then obtain n s m' where rev: "reviseMapping repoint live_stall = Inr (Revised n s, m')"
    by (auto split: sum.splits revise_result.splits)
  have "map_option mpItem (find_mapping live_stall 1 1000) = Some 21" by code_simp
  then obtain r where r: "find_mapping live_stall 1 1000 = Some r" "mpItem r = 21" by auto
  have k: "rmBusiness repoint = 1" "rmMapping repoint = 1000" "rmItem repoint = Some 22" by (simp_all add: repoint_def)
  have "\<nexists>t. resolveWriteTarget m' 1 1000 = Writable t"
    using repointing_stops_writing [OF live_stall_run stall_empty rev _ k(3)] r k by simp
  with w rev show ?thesis by (auto simp: taken_def split: write_target_result.splits)
qed

theorem activation_opens_the_gate_witness:
  "\<exists>n m'. activateMapping go_live approved_stall = Inr (Activated n, m') \<and> n = 7
    \<and> (\<exists>t. resolveWriteTarget m' 1 1000 = Writable t)"
proof -
  have "case activateMapping go_live approved_stall of Inr (Activated n, m') \<Rightarrow> n = 7 | _ \<Rightarrow> False" by code_simp
  then obtain m' where a: "activateMapping go_live approved_stall = Inr (Activated 7, m')"
    by (auto split: sum.splits activation_result.splits)
  have k: "avBusiness go_live = 1" "avMapping go_live = 1000" by (simp_all add: go_live_def)
  from activation_opens_the_gate [OF approved_stall_run stall_empty a] a k show ?thesis by auto
qed

end
