(* ===== verification/Forecast.thy ===== *)
theory Forecast
  imports Selling
begin

text \<open>
  What the dry run of \<^verbatim>\<open>projection.ts\<close> promises: its writable flag is the gate's answer, its targets
  stay within the stock of the selected locations, and the figures it projects for a hypothetical
  movement are the figures it reads after that movement has been posted.
\<close>

section \<open>Reading a projection\<close>

lemma projectItem_parts:
  assumes "projectItem m b i changes = Inr (Some p)"
  obtains item where "find_live_item (mkStock m) b i = Some item" "ipIsKit p = itIsKit item"
    "mapR (project_location (readSettings (mkStock m) b) (itSafetyOverride item) (deltas_of changes))
       (projected_rows (mkStock m) b i) = Inr (ipLocations p)"
    "mapR (project_channel m b item (ipLocations p))
       (filter (\<lambda>(r, e). mpStatus r \<noteq> MappingArchived) (mapped_entities m b i)) = Inr (ipChannels p)"
    "availableToSellAcrossLocations (asBalances (ipLocations p) False) = Inr (ipAvailable p)"
    "availableToSellAcrossLocations (asBalances (ipLocations p) True) = Inr (ipProjectedAvailable p)"
    "projectKits (mkStock m) b i (itIsKit item) = Inr (ipAffectedKits p)"
proof -
  from assms obtain item where item: "find_live_item (mkStock m) b i = Some item"
    by (auto simp: projectItem_def Let_def split: option.splits)
  with assms show thesis
    by (intro that [OF item]) (auto simp: projectItem_def Let_def bindR_Inr)
qed

lemma mapR_member:
  assumes "mapR f xs = Inr ys" "y \<in> set ys"
  shows "\<exists>x \<in> set xs. f x = Inr y"
  using assms by (induction xs arbitrary: ys) (auto simp: result_simps)

lemma mapR_map:
  assumes "mapR f xs = Inr ys" "\<And>x y. x \<in> set xs \<Longrightarrow> f x = Inr y \<Longrightarrow> f' (h x) = Inr (g y)"
  shows "mapR f' (map h xs) = Inr (map g ys)"
  using assms by (induction xs arbitrary: ys) (auto simp: result_simps)

lemma projected_channel:
  assumes "projectItem m b i changes = Inr (Some p)" "c \<in> set (ipChannels p)"
  obtains item r e where "find_live_item (mkStock m) b i = Some item" "ipIsKit p = itIsKit item"
    "r \<in> set (mkMappings m)" "mpBusiness r = b" "mpItem r = i" "provider_item_of m r = Some e"
    "project_channel m b item (ipLocations p) (r, e) = Inr c"
proof -
  from projectItem_parts [OF assms(1)] obtain item where item: "find_live_item (mkStock m) b i = Some item"
      "ipIsKit p = itIsKit item"
    and ch: "mapR (project_channel m b item (ipLocations p))
       (filter (\<lambda>(r, e). mpStatus r \<noteq> MappingArchived) (mapped_entities m b i)) = Inr (ipChannels p)" by metis
  from mapR_member [OF ch assms(2)] obtain x where x: "x \<in> set (mapped_entities m b i)"
    "project_channel m b item (ipLocations p) x = Inr c" by auto
  then obtain r e where "x = (r, e)" "r \<in> set (mkMappings m)" "mpBusiness r = b" "mpItem r = i" "provider_item_of m r = Some e"
    by (auto simp: mapped_entities_def split: option.splits)
  with item x(2) show thesis by (intro that) auto
qed

lemma project_channel_fields:
  assumes "project_channel m b item ps (r, e) = Inr c"
  shows "cpMapping c = mpId r" "cpBuffer c = mpBuffer r" "cpCap c = mpCap r"
    "cpWritable c = (mpStatus r = MappingActive \<and> piEligible e \<and> piMissing e = None)" "cpBecause c = whyNot r e"
  using assms by (auto simp: project_channel_def Let_def bindR_Inr)

lemma found_of_row:
  assumes "distinct (map mpId (mkMappings m))" "r \<in> set (mkMappings m)"
  shows "find_mapping m (mpBusiness r) (mpId r) = Some r"
proof -
  have "List.find (\<lambda>s. mpBusiness s = mpBusiness r \<and> mpId s = mpId r) rows = Some r"
    if "distinct (map mpId rows)" "r \<in> set rows" for rows
    using that by (induction rows) (auto simp: image_iff)
  with assms show ?thesis by (simp add: find_mapping_def)
qed

text \<open>
  C31: What the screen says is what the gate does: a channel of a projection is shown as writable
  exactly when the write gate lets its mapping write, and a reason is shown exactly when it does not.
\<close>

theorem screen_agrees_with_the_gate:
  assumes "market_step\<^sup>*\<^sup>* m0 m" and "no_mappings m0"
    and "projectItem m b i changes = Inr (Some p)" and "c \<in> set (ipChannels p)"
  shows "cpWritable c = (\<exists>t. resolveWriteTarget m b (cpMapping c) = Writable t) \<and> (cpBecause c = None) = cpWritable c"
proof -
  from projected_channel [OF assms(3,4)] obtain item r e where r: "r \<in> set (mkMappings m)" "mpBusiness r = b"
    and e: "provider_item_of m r = Some e" and c: "project_channel m b item (ipLocations p) (r, e) = Inr c" by metis
  have "distinct (map mpId (mkMappings m))" using market_run_from_none [OF assms(1,2)] by (simp add: market_good_def)
  with r have "find_mapping m b (mpId r) = Some r" using found_of_row by auto
  with e show ?thesis
    by (auto simp: project_channel_fields [OF c] resolve_Writable whyNot_def split: mapping_status.splits)
qed

section \<open>Targets stay within the stock\<close>

lemma channel_current:
  assumes "project_channel m b item ps (r, e) = Inr c" "\<not> itIsKit item"
  defines "chosen \<equiv> filter (\<lambda>p. lpLocation p \<in> set (selected_for m (mpId r))) ps"
  obtains a a' where "availableToSellAcrossLocations (asBalances chosen False) = Inr a"
    "channelTarget a (rules_of r) = Inr (cpCurrent c)"
    "availableToSellAcrossLocations (asBalances chosen True) = Inr a'"
    "channelTarget a' (rules_of r) = Inr (cpProjected c)"
  using assms by (auto simp: project_channel_def Let_def bindR_Inr)

text \<open>The balances a mapping draws on: the item's, at its selected locations that are not deleted.\<close>

definition location_live :: "db \<Rightarrow> uuid \<Rightarrow> bool" where
  "location_live d l = (case List.find (\<lambda>x. loId x = l) (dbLocations d) of None \<Rightarrow> False | Some x \<Rightarrow> loDeletedAt x = None)"

definition drawn_rows :: "market \<Rightarrow> uuid \<Rightarrow> uuid \<Rightarrow> uuid \<Rightarrow> balance_row list" where
  "drawn_rows m b i mapping = filter (\<lambda>r. baBusiness r = b \<and> baItem r = i \<and> location_live (mkStock m) (baLocation r)
     \<and> baLocation r \<in> set (selected_for m mapping)) (dbBalances (mkStock m))"

definition change_at :: "hypothetical \<Rightarrow> uuid \<Rightarrow> int" where
  "change_at changes l = sum_list (map snd (filter (\<lambda>x. fst x = l) changes))"

text \<open>Units less the channel's buffer, within its cap.\<close>

definition rationed :: "mapping \<Rightarrow> int \<Rightarrow> int" where
  "rationed r units = (let n = max 0 (units - mpBuffer r) in case mpCap r of None \<Rightarrow> n | Some k \<Rightarrow> min n k)"

lemma deltas_of_change: "given (map_of (deltas_of changes) l) 0 = change_at changes l"
proof -
  have "given (map_of (fold (\<lambda>(l, n) m. alist_put l (given (map_of m l) 0 + n) m) changes m) l) 0
      = given (map_of m l) 0 + change_at changes l" for m
    by (induction changes arbitrary: m) (auto simp: given_def change_at_def)
  then show ?thesis by (simp add: deltas_of_def given_def)
qed

definition shelf_view :: "inventory_settings \<Rightarrow> int option \<Rightarrow> hypothetical \<Rightarrow> location_row \<times> balance_row \<Rightarrow> location_projection" where
  "shelf_view settings override changes x =
     (let r = snd x; safety = level_of (levels_at settings override r);
          moved = max 0 (baOnHand r + change_at changes (baLocation r))
      in \<lparr>lpLocation = baLocation r, lpCode = loCode (fst x), lpOnHand = baOnHand r, lpReserved = baReserved r,
          lpSafety = safety, lpAvailable = max 0 (baOnHand r - baReserved r - safety),
          lpProjectedOnHand = moved, lpProjectedAvailable = max 0 (moved - baReserved r - safety)\<rparr>)"

lemma locations_viewed:
  assumes "mapR (project_location settings override (deltas_of changes)) xs = Inr ps"
  shows "ps = map (shelf_view settings override changes) xs"
proof -
  have "project_location settings override (deltas_of changes) x = Inr y \<Longrightarrow> y = shelf_view settings override changes x" for x y
    by (auto simp: project_location_def bindR_Inr effectiveSafetyStock_Inr Let_def shelf_view_def levels_at_def deltas_of_change)
  with assms show ?thesis by (induction xs arbitrary: ps) (auto simp: result_simps)
qed

lemma drawn_sum:
  "sum_list (map (\<lambda>x. f (snd x)) (filter (\<lambda>x. baLocation (snd x) \<in> S) (projected_rows d b i)))
    = sum_list (map f (filter (\<lambda>r. baBusiness r = b \<and> baItem r = i \<and> location_live d (baLocation r) \<and> baLocation r \<in> S) (dbBalances d)))"
  for f :: "balance_row \<Rightarrow> int"
proof -
  let ?here = "\<lambda>r. case List.find (\<lambda>l. loId l = baLocation r) (dbLocations d) of
    None \<Rightarrow> [] | Some l \<Rightarrow> if loDeletedAt l = None then [(l, r)] else []"
  have sorted: "sum_list (map g (filter P (sort_by le xs))) = sum_list (map g (filter P xs))"
    for g :: "location_row \<times> balance_row \<Rightarrow> int" and P le xs
    by (simp flip: sum_mset_sum_list)
  have "sum_list (map (\<lambda>x. f (snd x)) (filter (\<lambda>x. baLocation (snd x) \<in> S)
        (concat (map ?here (filter (\<lambda>r. baBusiness r = b \<and> baItem r = i) rows)))))
      = sum_list (map f (filter (\<lambda>r. baBusiness r = b \<and> baItem r = i \<and> location_live d (baLocation r) \<and> baLocation r \<in> S) rows))" for rows
    by (induction rows) (auto simp: location_live_def split: option.split)
  then show ?thesis unfolding projected_rows_def sorted .
qed

text \<open>
  C32: The figure a channel of an ordinary item would advertise is exactly what its mapping leaves of the
  shelves. Over the item's balances at the live locations the mapping has selected, the units on hand
  beyond those reserved and the safety stock that applies there (the shelf's, else the item's, else the
  business's) are added up, no shelf counting below nothing; the mapping's buffer is taken off and its
  cap applied. The projected figure is the same over the units each shelf would have after the
  hypothetical changes. So neither is ever negative, above the cap, or more than the shelves hold.
\<close>

theorem advertised_within_the_shelves:
  assumes "projectItem m b i changes = Inr (Some p)" and "c \<in> set (ipChannels p)" and "\<not> ipIsKit p"
  shows "\<exists>item r. find_live_item (mkStock m) b i = Some item
    \<and> r \<in> set (mkMappings m) \<and> mpId r = cpMapping c \<and> mpBusiness r = b \<and> mpItem r = i
    \<and> cpCurrent c = rationed r (\<Sum>s \<leftarrow> drawn_rows m b i (cpMapping c). max 0 (baOnHand s - baReserved s
        - level_of (levels_at (readSettings (mkStock m) b) (itSafetyOverride item) s)))
    \<and> cpProjected c = rationed r (\<Sum>s \<leftarrow> drawn_rows m b i (cpMapping c).
        max 0 (max 0 (baOnHand s + change_at changes (baLocation s)) - baReserved s
        - level_of (levels_at (readSettings (mkStock m) b) (itSafetyOverride item) s)))
    \<and> 0 \<le> cpCurrent c \<and> 0 \<le> cpProjected c \<and> (\<forall>k. mpCap r = Some k \<longrightarrow> cpCurrent c \<le> k \<and> cpProjected c \<le> k)"
proof -
  from projected_channel [OF assms(1,2)] obtain r e where r: "r \<in> set (mkMappings m)" "mpBusiness r = b" "mpItem r = i"
    and item0: "\<exists>item. find_live_item (mkStock m) b i = Some item \<and> ipIsKit p = itIsKit item
      \<and> project_channel m b item (ipLocations p) (r, e) = Inr c" by metis
  then obtain item where item: "find_live_item (mkStock m) b i = Some item" "\<not> itIsKit item"
    and c: "project_channel m b item (ipLocations p) (r, e) = Inr c" using assms(3) by blast
  note f = project_channel_fields [OF c]
  let ?settings = "readSettings (mkStock m) b" and ?S = "set (selected_for m (mpId r))"
  let ?held = "\<lambda>s. level_of (levels_at ?settings (itSafetyOverride item) s)"
  let ?chosen = "filter (\<lambda>p. lpLocation p \<in> ?S) (ipLocations p)"
  from projectItem_parts [OF assms(1)] item(1) have "mapR (project_location ?settings (itSafetyOverride item) (deltas_of changes))
      (projected_rows (mkStock m) b i) = Inr (ipLocations p)" by (metis option.inject)
  then have ps: "ipLocations p = map (shelf_view ?settings (itSafetyOverride item) changes) (projected_rows (mkStock m) b i)"
    by (rule locations_viewed)
  from channel_current [OF c item(2)] obtain a a' where a: "availableToSellAcrossLocations (asBalances ?chosen False) = Inr a"
    and t: "channelTarget a (rules_of r) = Inr (cpCurrent c)"
    and a': "availableToSellAcrossLocations (asBalances ?chosen True) = Inr a'"
    and t': "channelTarget a' (rules_of r) = Inr (cpProjected c)" by metis
  have "a = sum_list (map (\<lambda>x. max 0 (lpOnHand x - lpReserved x - lpSafety x)) ?chosen)"
    "a' = sum_list (map (\<lambda>x. max 0 (lpProjectedOnHand x - lpReserved x - lpSafety x)) ?chosen)"
    using a a' by (simp_all add: across_Inr asBalances_def sellable_def o_def)
  then have sums: "a = (\<Sum>s \<leftarrow> drawn_rows m b i (mpId r). max 0 (baOnHand s - baReserved s - ?held s))"
    "a' = (\<Sum>s \<leftarrow> drawn_rows m b i (mpId r). max 0 (max 0 (baOnHand s + change_at changes (baLocation s)) - baReserved s - ?held s))"
    unfolding drawn_rows_def drawn_sum [symmetric] by (simp_all add: ps shelf_view_def Let_def filter_map o_def)
  have "cpCurrent c = rationed r a" "cpProjected c = rationed r a'"
    using t t' by (auto simp: channelTarget_def rules_of_def rationed_def result_simps Let_def split: option.splits)
  moreover note channelTarget_within [OF t] channelTarget_within [OF t']
  ultimately show ?thesis using item(1) r f(1) sums by (intro exI [of _ item] exI [of _ r]) (simp add: rules_of_def)
qed


section \<open>The dry run\<close>

text \<open>A posting whose targets all have a balance rewrites on-hand figures in place.\<close>

definition blank :: "balance_row \<Rightarrow> balance_row" where
  "blank r = r\<lparr>baOnHand := 0\<rparr>"

lemma set_on_hand_blank:
  assumes "set_on_hand b rb d = Inr d'"
  shows "map blank (dbBalances d') = map blank (dbBalances d)"
  using assms
  by (auto simp: set_on_hand_def update_balance_def update_balances_def result_simps update_checked_Inr
      blank_def intro!: map_update_where)

lemma ensure_present:
  assumes "foldR (ensure_balance b) ts d = Inr d'" "\<forall>t \<in> set ts. find_balance d (key_in b t) \<noteq> None"
  shows "d' = d"
  using assms by (induction ts) (auto simp: result_simps ensure_balance_def split: option.splits)

lemma posted_blank:
  assumes "postMovements input d = Inr (Posted ids bals, d')"
    and "\<forall>t \<in> set (targets input). find_balance d (key_in (poBusiness input) t) \<noteq> None"
  shows "map blank (dbBalances d') = map blank (dbBalances d)"
proof -
  let ?ts = "targets input" and ?b = "poBusiness input"
  from assms(1) obtain d1 where ens: "foldR (ensure_balance ?b) ?ts d = Inr d1"
    and main: "(case scan_targets (lockBalances d1 ?b ?ts) (net_by_key (poMovements input)) ?ts [] [] of
        Inl reason \<Rightarrow> Inr (Invalid reason, d1)
      | Inr (shortfalls, resulting) \<Rightarrow>
          if shortfalls \<noteq> [] then Inr (Insufficient shortfalls, d1)
          else bindR (foldR (post_entry input) (poMovements input) ([], d1)) (\<lambda>(ids, d2).
               bindR (foldR (set_on_hand ?b) resulting d2) (\<lambda>d3. Inr (Posted ids resulting, d3))))
      = (Inr (Posted ids bals, d') :: exn + posting_result \<times> db)"
    by (auto simp: postMovements_def result_simps Let_def split: if_splits option.splits)
  from main obtain d2 where entries: "foldR (post_entry input) (poMovements input) ([], d1) = Inr (ids, d2)"
    and set: "foldR (set_on_hand ?b) bals d2 = Inr d'"
    by (cases "scan_targets (lockBalances d1 ?b ?ts) (net_by_key (poMovements input)) ?ts [] []")
      (auto simp: result_simps split: if_splits prod.splits)
  have "map blank (dbBalances d') = map blank (dbBalances d2)"
    by (rule foldR_frame [OF set, where g = "\<lambda>d. map blank (dbBalances d)"]) (rule set_on_hand_blank)
  then show ?thesis using post_entries [OF entries] ensure_present [OF ens assms(2)] by simp
qed

lemma on_hand_of_row:
  "balances_ok d \<Longrightarrow> r \<in> set (dbBalances d) \<Longrightarrow> on_hand_at d (balance_key r) = baOnHand r"
  by (simp add: balances_ok_def on_hand_at_def find_balance_def balances.lookup_member)

definition moved :: "uuid \<Rightarrow> movement list \<Rightarrow> balance_row \<Rightarrow> balance_row" where
  "moved b ms r = r\<lparr>baOnHand := baOnHand r + net_at b ms (balance_key r)\<rparr>"

lemma posted_rows:
  assumes "postMovements input d = Inr (Posted ids bals, d')" and "balances_ok d"
    and "\<forall>t \<in> set (targets input). find_balance d (key_in (poBusiness input) t) \<noteq> None"
  shows "dbBalances d' = map (moved (poBusiness input) (poMovements input)) (dbBalances d)"
proof (rule nth_equalityI)
  note blank = posted_blank [OF assms(1,3)]
  note eff = postMovements_posted [OF assms(1), unfolded posted_effect_def Let_def]
  have ok': "balances_ok d'" using eff assms(2) by blast
  from blank show len: "length (dbBalances d') = length (map (moved (poBusiness input) (poMovements input)) (dbBalances d))"
    by (metis length_map)
  fix n
  assume n: "n < length (dbBalances d')"
  with len have n': "n < length (dbBalances d)" by simp
  let ?r = "dbBalances d ! n" and ?r' = "dbBalances d' ! n"
  from blank n n' have b: "blank ?r' = blank ?r" by (metis nth_map)
  then have key: "balance_key ?r' = balance_key ?r" by (cases ?r; cases ?r') (simp add: blank_def balance_key_def)
  have "baOnHand ?r' = on_hand_at d' (balance_key ?r)"
    using on_hand_of_row [OF ok' nth_mem [OF n]] key by simp
  also have "\<dots> = baOnHand ?r + net_at (poBusiness input) (poMovements input) (balance_key ?r)"
    using eff on_hand_of_row [OF assms(2) nth_mem [OF n']] by simp
  finally show "?r' = map (moved (poBusiness input) (poMovements input)) (dbBalances d) ! n"
    using b n' by (cases ?r; cases ?r') (simp add: blank_def moved_def)
qed

lemma deltas_of_net:
  assumes "list_all (\<lambda>v. mvItem v = i) ms"
  shows "given (map_of (deltas_of (map (\<lambda>v. (mvLocation v, mvDelta v)) ms)) l) 0 = net_of ms (BalanceTarget i l)"
proof -
  have "given (map_of (fold (\<lambda>(l, n) m. alist_put l (given (map_of m l) 0 + n) m)
      (map (\<lambda>v. (mvLocation v, mvDelta v)) ms) m) l) 0 = given (map_of m l) 0 + net_of ms (BalanceTarget i l)" for m
    using assms by (induction ms arbitrary: m) (auto simp: given_def net_of_def target_of_def)
  then show ?thesis by (simp add: deltas_of_def given_def)
qed


lemma sort_by_map:
  assumes "\<And>x y. le (h x) (h y) = le x y"
  shows "sort_by le (map h xs) = map h (sort_by le xs)"
proof -
  have "insert_by le (h x) (map h ys) = map h (insert_by le x ys)" for x ys
    by (induction ys) (simp_all add: assms)
  then show ?thesis by (induction xs) simp_all
qed

definition after_move :: "uuid \<Rightarrow> movement list \<Rightarrow> location_row \<times> balance_row \<Rightarrow> location_row \<times> balance_row" where
  "after_move b ms x = (fst x, moved b ms (snd x))"

lemma moved_fields [simp]:
  "baBusiness (moved b ms r) = baBusiness r" "baItem (moved b ms r) = baItem r"
  "baLocation (moved b ms r) = baLocation r" "baReserved (moved b ms r) = baReserved r"
  "baSafetyStock (moved b ms r) = baSafetyStock r"
  "baOnHand (moved b ms r) = baOnHand r + net_at b ms (balance_key r)"
  by (simp_all add: moved_def)

lemma projected_rows_moved:
  assumes "dbLocations d' = dbLocations d" "dbBalances d' = map (moved b' ms) (dbBalances d)"
  shows "projected_rows d' b i = map (after_move b' ms) (projected_rows d b i)"
proof -
  let ?here = "\<lambda>d r. case List.find (\<lambda>l. loId l = baLocation r) (dbLocations d) of
    None \<Rightarrow> [] | Some l \<Rightarrow> if loDeletedAt l = None then [(l, r)] else []"
  have "?here d' (moved b' ms r) = map (after_move b' ms) (?here d r)" for r
    by (simp add: assms(1) after_move_def split: option.split)
  then have "concat (map (?here d') (filter (\<lambda>r. baBusiness r = b \<and> baItem r = i) (map (moved b' ms) rows)))
      = map (after_move b' ms) (concat (map (?here d) (filter (\<lambda>r. baBusiness r = b \<and> baItem r = i) rows)))" for rows
    by (induction rows) auto
  from this [of "dbBalances d"] show ?thesis unfolding projected_rows_def assms(2)
    by (simp add: sort_by_map [where h = "after_move b' ms"] after_move_def)
qed

definition settled_location :: "location_projection \<Rightarrow> location_projection" where
  "settled_location p = p\<lparr>lpOnHand := lpProjectedOnHand p, lpAvailable := lpProjectedAvailable p\<rparr>"

definition settled_channel :: "channel_projection \<Rightarrow> channel_projection" where
  "settled_channel c = c\<lparr>cpCurrent := cpProjected c\<rparr>"

lemma project_location_settled:
  assumes "project_location settings override deltas x = Inr p"
    and "given (map_of deltas (baLocation (snd x))) 0 = net_at b ms (balance_key (snd x))"
    and "0 \<le> baOnHand (snd x) + net_at b ms (balance_key (snd x))"
  shows "project_location settings override [] (after_move b ms x) = Inr (settled_location p)"
  using assms by (auto simp: project_location_def result_simps Let_def after_move_def settled_location_def given_def [of None])

lemma settled_balances:
  "asBalances (map settled_location ps) False = asBalances ps True"
  "asBalances (map settled_location ps) True = asBalances ps True"
  by (simp_all add: asBalances_def settled_location_def o_def)

lemma settled_filter:
  "filter (\<lambda>p. lpLocation p \<in> S) (map settled_location ps) = map settled_location (filter (\<lambda>p. lpLocation p \<in> S) ps)"
  by (induction ps) (simp_all add: settled_location_def)

lemma project_channel_settled:
  assumes "project_channel m b item ps x = Inr c" "\<not> itIsKit item"
  shows "project_channel (m\<lparr>mkStock := d\<rparr>) b item (map settled_location ps) x = Inr (settled_channel c)"
proof -
  have sel: "selected_for (m\<lparr>mkStock := d\<rparr>) = selected_for m" by (simp add: selected_for_def fun_eq_iff)
  show ?thesis using assms
    by (cases "mkProvider m (mpConnection (fst x)) = WooCommerce")
      (auto simp: project_channel_def Let_def bindR_Inr sel settled_filter settled_balances settled_channel_def)
qed

lemma posted_row_net:
  assumes "postMovements po d = Inr (Posted ids bals, d')" and "balances_ok d" and "poBusiness po = b"
    and "dbBalances d' = map (moved b (poMovements po)) (dbBalances d)"
    and "list_all (\<lambda>v. mvItem v = i) (poMovements po)" and "(l, r) \<in> set (projected_rows d b i)"
  shows "given (map_of (deltas_of (map (\<lambda>v. (mvLocation v, mvDelta v)) (poMovements po))) (baLocation r)) 0
      = net_at b (poMovements po) (balance_key r)
    \<and> 0 \<le> baOnHand r + net_at b (poMovements po) (balance_key r)"
proof -
  from assms(6) have r: "r \<in> set (dbBalances d)" "balance_key r = key_in b (BalanceTarget i (baLocation r))"
    by (auto simp: projected_rows_def balance_key_def key_in_def split: option.splits if_splits)
  have "balances_ok d'" using postMovements_posted [OF assms(1)] assms(2) by (simp add: posted_effect_def Let_def)
  moreover have "moved b (poMovements po) r \<in> set (dbBalances d')" using r(1) by (simp add: assms(4))
  ultimately have "0 \<le> baOnHand (moved b (poMovements po) r)" by (auto simp: balances_ok_def balance_check_Inr)
  with deltas_of_net [OF assms(5)] r(2) show ?thesis by simp
qed

text \<open>
  C28: The dry run is what posting does. For an ordinary item, if every movement is at a location
  where the item has a balance, then the on-hand and available figures, the total and the channel
  targets projected for the movements are exactly those read back once they have been posted.
\<close>

theorem dry_run_is_what_posting_does:
  assumes "projectItem m b i (map (\<lambda>v. (mvLocation v, mvDelta v)) (poMovements po)) = Inr (Some p)" and "\<not> ipIsKit p"
    and "poBusiness po = b" and "list_all (\<lambda>v. mvItem v = i \<and> find_balance (mkStock m) (b, i, mvLocation v) \<noteq> None) (poMovements po)"
    and "balances_ok (mkStock m)" and "postMovements po (mkStock m) = Inr (Posted ids bals, d')"
    and "projectItem (m\<lparr>mkStock := d'\<rparr>) b i [] = Inr (Some p')"
  shows "ipLocations p' = map settled_location (ipLocations p) \<and> ipAvailable p' = ipProjectedAvailable p
    \<and> ipChannels p' = map settled_channel (ipChannels p)"
proof -
  let ?d = "mkStock m" and ?ms = "poMovements po"
  let ?deltas = "deltas_of (map (\<lambda>v. (mvLocation v, mvDelta v)) ?ms)"
  note eff = postMovements_posted [OF assms(6), unfolded posted_effect_def Let_def assms(3)]
  note same = same_but_stock_fields [of ?d d']
  have "\<forall>t \<in> set (targets po). find_balance ?d (key_in b t) \<noteq> None"
    using assms(4) by (auto simp: lockOrder_facts list_all_iff target_of_def key_in_def)
  with posted_rows [OF assms(6,5)] assms(3) have rows: "dbBalances d' = map (moved b ?ms) (dbBalances ?d)" by simp
  obtain item where item: "find_live_item ?d b i = Some item" "ipIsKit p = itIsKit item"
    and ls: "mapR (project_location (readSettings ?d b) (itSafetyOverride item) ?deltas) (projected_rows ?d b i) = Inr (ipLocations p)"
    and cs: "mapR (project_channel m b item (ipLocations p))
       (filter (\<lambda>(r, e). mpStatus r \<noteq> MappingArchived) (mapped_entities m b i)) = Inr (ipChannels p)"
    and av: "availableToSellAcrossLocations (asBalances (ipLocations p) True) = Inr (ipProjectedAvailable p)"
    by (rule projectItem_parts [OF assms(1)]) (rule that; assumption)
  obtain item' where item'0: "find_live_item (mkStock (m\<lparr>mkStock := d'\<rparr>)) b i = Some item'"
    and ls'0: "mapR (project_location (readSettings (mkStock (m\<lparr>mkStock := d'\<rparr>)) b) (itSafetyOverride item') (deltas_of []))
       (projected_rows (mkStock (m\<lparr>mkStock := d'\<rparr>)) b i) = Inr (ipLocations p')"
    and cs': "mapR (project_channel (m\<lparr>mkStock := d'\<rparr>) b item' (ipLocations p'))
       (filter (\<lambda>(r, e). mpStatus r \<noteq> MappingArchived) (mapped_entities (m\<lparr>mkStock := d'\<rparr>) b i)) = Inr (ipChannels p')"
    and av': "availableToSellAcrossLocations (asBalances (ipLocations p') False) = Inr (ipAvailable p')"
    by (rule projectItem_parts [OF assms(7)]) (rule that; assumption)
  have "deltas_of [] = []" by (simp add: deltas_of_def)
  with item'0 ls'0 have item': "find_live_item d' b i = Some item'"
    and ls': "mapR (project_location (readSettings d' b) (itSafetyOverride item') []) (projected_rows d' b i) = Inr (ipLocations p')"
    by simp_all
  have items: "item' = item" "readSettings d' b = readSettings ?d b" "dbLocations d' = dbLocations ?d"
    using item item' eff same by (simp_all add: find_live_item_def readSettings_def)
  note here = posted_row_net [OF assms(6,5,3) rows]
  have local: "list_all (\<lambda>v. mvItem v = i) ?ms" using assms(4) by (simp add: list_all_iff)
  have "ipLocations p' = map settled_location (ipLocations p)"
  proof -
    have "mapR (project_location (readSettings ?d b) (itSafetyOverride item) []) (map (after_move b ?ms) (projected_rows ?d b i))
        = Inr (map settled_location (ipLocations p))"
    proof (rule mapR_map [OF ls])
      fix x y
      assume x: "x \<in> set (projected_rows ?d b i)"
        and y: "project_location (readSettings ?d b) (itSafetyOverride item) ?deltas x = Inr y"
      from here [OF local, of "fst x" "snd x"] x
      have "given (map_of ?deltas (baLocation (snd x))) 0 = net_at b ?ms (balance_key (snd x))"
        "0 \<le> baOnHand (snd x) + net_at b ?ms (balance_key (snd x))" by simp_all
      then show "project_location (readSettings ?d b) (itSafetyOverride item) [] (after_move b ?ms x) = Inr (settled_location y)"
        by (rule project_location_settled [OF y])
    qed
    with ls' items show ?thesis by (simp add: projected_rows_moved [OF items(3) rows])
  qed
  moreover from this av av' have "ipAvailable p' = ipProjectedAvailable p" by (simp add: settled_balances)
  moreover have "ipChannels p' = map settled_channel (ipChannels p)"
  proof -
    have ent: "mapped_entities (m\<lparr>mkStock := d'\<rparr>) b i = mapped_entities m b i"
      by (simp add: mapped_entities_def provider_item_of_def)
    have "mapR (project_channel (m\<lparr>mkStock := d'\<rparr>) b item (map settled_location (ipLocations p)))
        (map id (filter (\<lambda>(r, e). mpStatus r \<noteq> MappingArchived) (mapped_entities m b i))) = Inr (map settled_channel (ipChannels p))"
      by (rule mapR_map [OF cs]) (use project_channel_settled assms(2) item(2) in simp)
    with cs' items calculation(1) ent show ?thesis by simp
  qed
  ultimately show ?thesis by blast
qed


section \<open>On a live mapping\<close>

definition live_mapping :: "uuid \<Rightarrow> uuid \<Rightarrow> uuid \<Rightarrow> mapping" where
  "live_mapping i c e = \<lparr>mpId = i, mpBusiness = 1, mpConnection = c, mpProviderItem = e, mpItem = 21,
     mpStatus = MappingActive, mpPauseReason = None, mpBuffer = 0, mpCap = None, mpVersion = 3, mpCreatedBy = None,
     mpApprovedBy = None, mpApprovedAt = Some 1, mpActivatedAt = Some 2, mpArchivedAt = None, mpCreatedAt = 0\<rparr>"

text \<open>The stall with item 21 live on entity 501, one unit of buffer and a cap of seven.\<close>

definition open_stall :: market where
  "open_stall = stall\<lparr>mkMappings := [(live_mapping 900 61 501)\<lparr>mpBuffer := 1, mpCap := Some 7\<rparr>],
     mkSelected := [\<lparr>mlBusiness = 1, mlMapping = 900, mlLocation = 41\<rparr>, \<lparr>mlBusiness = 1, mlMapping = 900, mlLocation = 42\<rparr>]\<rparr>"

definition sale_of_three :: posting_input where
  "sale_of_three = posting [move 21 41 Shipment (-3)]"

definition stock_after :: "posting_input \<Rightarrow> market \<Rightarrow> market" where
  "stock_after po m = (case postMovements po (mkStock m) of Inr (Posted ids bals, d) \<Rightarrow> m\<lparr>mkStock := d\<rparr> | _ \<Rightarrow> m)"

definition the_projection :: "exn + item_projection option \<Rightarrow> item_projection" where
  "the_projection x = (case x of Inr (Some p) \<Rightarrow> p | _ \<Rightarrow> \<lparr>ipItem = 0, ipSku = [], ipName = [], ipIsKit = False,
     ipLocations = [], ipAvailable = 0, ipProjectedAvailable = 0, ipKitCapacity = None, ipChannels = [], ipAffectedKits = []\<rparr>)"

definition is_projection :: "exn + item_projection option \<Rightarrow> bool" where
  "is_projection x = (case x of Inr (Some p) \<Rightarrow> True | _ \<Rightarrow> False)"

lemma the_projection: "is_projection x \<Longrightarrow> x = Inr (Some (the_projection x))"
  by (auto simp: is_projection_def the_projection_def split: sum.splits option.splits)

abbreviation forecast :: item_projection where
  "forecast \<equiv> the_projection (projectItem open_stall 1 21 [(41, -3)])"

abbreviation actual :: item_projection where
  "actual \<equiv> the_projection (projectItem (stock_after sale_of_three open_stall) 1 21 [])"

lemma forecast: "projectItem open_stall 1 21 [(41, -3)] = Inr (Some forecast)"
  by (rule the_projection) code_simp

lemma forecast_channel:
  "map (\<lambda>c. (cpMapping c, cpCurrent c, cpProjected c, cpWritable c)) (ipChannels forecast) = [(900, 7, 6, True)]"
  "ipIsKit forecast = False" by code_simp+

theorem screen_agrees_with_the_gate_witness:
  "is_projection (projectItem drafted_stall 1 21 []) \<and> map cpWritable (ipChannels (the_projection (projectItem drafted_stall 1 21 []))) = [False]
    \<and> (\<nexists>t. resolveWriteTarget drafted_stall 1 1000 = Writable t)"
proof -
  let ?p = "the_projection (projectItem drafted_stall 1 21 [])"
  have ok: "is_projection (projectItem drafted_stall 1 21 [])"
    and one: "map (\<lambda>c. (cpMapping c, cpWritable c)) (ipChannels ?p) = [(1000, False)]" by code_simp+
  from one obtain c where c: "ipChannels ?p = [c]" "cpMapping c = 1000" "\<not> cpWritable c" by (auto simp: map_eq_Cons_conv)
  then have "c \<in> set (ipChannels ?p)" by simp
  moreover have "market_step\<^sup>*\<^sup>* stall drafted_stall" unfolding drafted_stall_def by (rule taken_runs)
  ultimately show ?thesis
    using screen_agrees_with_the_gate [OF _ stall_empty the_projection [OF ok]] c ok by auto
qed

theorem advertised_within_the_shelves_witness:
  "\<exists>c. \<exists>r \<in> set (mkMappings open_stall). ipChannels forecast = [c] \<and> cpProjected c = 6 \<and> mpId r = cpMapping c
    \<and> mpCap r = Some 7 \<and> cpProjected c \<le> 7"
proof -
  obtain c where c: "ipChannels forecast = [c]" "cpProjected c = 6" "cpMapping c = 900"
    using forecast_channel(1) by (auto simp: map_eq_Cons_conv)
  then have "c \<in> set (ipChannels forecast)" by simp
  from advertised_within_the_shelves [OF forecast this] forecast_channel(2) c
  obtain r where "r \<in> set (mkMappings open_stall)" "mpId r = 900" "\<forall>k. mpCap r = Some k \<longrightarrow> cpProjected c \<le> k" by auto
  moreover from this(1) have "mpCap r = Some 7" by (simp add: open_stall_def)
  ultimately show ?thesis using c by (intro exI [of _ c] bexI [of _ r]) simp_all
qed

theorem dry_run_is_what_posting_does_witness:
  "ipChannels actual = map settled_channel (ipChannels forecast) \<and> map cpCurrent (ipChannels actual) = [6]"
proof -
  have post: "case postMovements sale_of_three (mkStock open_stall) of Inr (Posted ids bals, d) \<Rightarrow> True | _ \<Rightarrow> False" by code_simp
  then obtain ids bals d where p: "postMovements sale_of_three (mkStock open_stall) = Inr (Posted ids bals, d)"
    by (auto split: sum.splits posting_result.splits)
  then have after: "stock_after sale_of_three open_stall = open_stall\<lparr>mkStock := d\<rparr>" by (simp add: stock_after_def)
  have "is_projection (projectItem (stock_after sale_of_three open_stall) 1 21 [])" by code_simp
  from the_projection [OF this] have read: "projectItem (open_stall\<lparr>mkStock := d\<rparr>) 1 21 [] = Inr (Some actual)"
    by (simp add: after)
  have f: "projectItem open_stall 1 21 (map (\<lambda>v. (mvLocation v, mvDelta v)) (poMovements sale_of_three)) = Inr (Some forecast)"
    using forecast by (simp add: sale_of_three_def posting_def move_def)
  have b: "poBusiness sale_of_three = 1" by (simp add: sale_of_three_def posting_def)
  have l: "list_all (\<lambda>v. mvItem v = 21 \<and> find_balance (mkStock open_stall) (1, 21, mvLocation v) \<noteq> None) (poMovements sale_of_three)"
    by code_simp
  have ok: "balances_ok (mkStock open_stall)"
    unfolding balances_ok_def by code_simp
  from dry_run_is_what_posting_does [OF f _ b l ok p read] forecast_channel show ?thesis
    by (auto simp: settled_channel_def map_eq_Cons_conv)
qed

section \<open>Where the dry run and the preview differ from what happens\<close>

text \<open>
  The dry run shows every kit an item is part of with the capacity it has now: shipping two
  nuts leaves one set of three, and the projection for that shipment still says three.
\<close>

theorem dry_run_leaves_kits_alone:
  "map (\<lambda>k. (keKit k, keCurrent k, keProjected k)) (ipAffectedKits (the_projection (projectItem stall 1 22 [(41, -2)]))) = [(31, 3, 3)]
    \<and> map (\<lambda>k. (keKit k, keCurrent k)) (ipAffectedKits (the_projection
        (projectItem (stock_after (posting [move 22 41 Shipment (-2)]) stall) 1 22 []))) = [(31, 1)]"
  by (rule conjI; code_simp)

text \<open>
  A hypothetical movement at a location where the item has no balance yet is left out of the
  dry run: receiving five nuts at the back is projected to change nothing, and adds five.
\<close>

theorem dry_run_misses_a_new_shelf:
  "ipProjectedAvailable (the_projection (projectItem stall 1 22 [(42, 5)])) = 3
    \<and> ipAvailable (the_projection (projectItem (stock_after (posting [move 22 42 Receipt 5]) stall) 1 22 [])) = 8"
  by (rule conjI; code_simp)


definition kit_proposal :: propose_input where
  "kit_proposal = proposal\<lparr>prItem := 31, prLocations := [41], prBuffer := None, prCap := None\<rparr>"

definition kit_stall :: market where
  "kit_stall = taken (proposeMapping kit_proposal stall) stall"

text \<open>
  The activation preview of a kit adds up the kit's own balances, which a kit never has: it
  announces a target of zero where the projection, which the writes follow, computes three.
\<close>

theorem kit_preview_announces_nothing:
  "(case previewActivation 1 1000 (Some FromCanonical) kit_stall of Inr (ActivationPreviewed p) \<Rightarrow> pvTarget p = 0 | _ \<Rightarrow> False)
    \<and> map cpCurrent (ipChannels (the_projection (projectItem kit_stall 1 31 []))) = [3]"
  by (rule conjI; code_simp)

text \<open>
  Two connections with a listing of the same parent id: 61 with a variation that is not mapped,
  62 complete and live.
\<close>

definition variation :: "uuid \<Rightarrow> uuid \<Rightarrow> provider_item" where
  "variation i c = \<lparr>piId = i, piBusiness = 1, piConnection = c, piExternal = ''v'', piParent = Some ''p'', piSku = None,
     piQuantity = None, piBackorders = False, piEligible = True, piIneligible = None, piMissing = None\<rparr>"

definition two_stores :: market where
  "two_stores = \<lparr>mkStock = shop\<lparr>dbConnections := [(1, 61), (1, 62)]\<rparr>, mkProvider = (\<lambda>c. if c = 61 then Ebay else WooCommerce),
     mkItems = [variation 501 61, variation 502 61, variation 503 62],
     mkMappings = [live_mapping 901 61 501, live_mapping 902 62 503],
     mkSelected = [\<lparr>mlBusiness = 1, mlMapping = 901, mlLocation = 41\<rparr>, \<lparr>mlBusiness = 1, mlMapping = 902, mlLocation = 42\<rparr>],
     mkVersions = []\<rparr>"

text \<open>
  Pausing the incomplete variation listings of one connection also pauses the mappings of
  another connection whose listing is complete, when its parent id happens to be the same: the
  query of the mappings to pause names the parent but not the connection.
\<close>

theorem incomplete_listing_pauses_another_store:
  "vcUnmapped (assessVariationCompleteness two_stores 1 62 ''p'') = []
    \<and> fst (pauseIncompleteVariationListings 1 61 two_stores) = Inr [901, 902]
    \<and> map (\<lambda>r. (mpId r, mpConnection r, mpStatus r)) (mkMappings (snd (pauseIncompleteVariationListings 1 61 two_stores)))
      = [(901, 61, MappingPaused), (902, 62, MappingPaused)]"
  by (intro conjI; code_simp)

end
