(* ===== verification/Pilot.thy ===== *)
theory Pilot
  imports Schema
begin

text \<open>
  \<^verbatim>\<open>packages/pilot/src/stages.ts\<close> and \<^verbatim>\<open>samples.ts\<close>: the staged-connection gate every provider write
  passes, and the clock of each change until it reaches its channel. The tables and their
  constraints are migrations 0031 and 0032. \<open>setStage\<close> reads the enrolment and writes the stage in
  two statements without a lock between them, so the table it read is an argument of its own.
\<close>

section \<open>Tables\<close>

datatype pilot_stage = Observe | Single | Cohort | Full

record stage_row =
  sgBusiness :: uuid
  sgStage :: pilot_stage
  sgLimit :: "int option"
  sgStarted :: "instant option"
  sgEntered :: instant
  sgBy :: "uuid option"
  sgNote :: "string option"

record withheld_row =
  whBusiness :: uuid
  whMapping :: uuid
  whConnection :: uuid
  whIntended :: int
  whObserved :: "int option"
  whStage :: pilot_stage
  whReason :: string

datatype origin_kind = OriginOrder | OriginRestock | OriginAdjustment | OriginMappingChange | OriginManual
  | OriginReconciliation | OriginImport | OriginActivation

datatype sample_outcome = SamplePending | SampleConverged | SampleSuperseded | SampleAbandoned

record sample_row =
  smBusiness :: uuid
  smMapping :: uuid
  smConnection :: uuid
  smVersion :: int
  smQuantity :: int
  smOrigin :: origin_kind
  smNoticed :: instant
  smComputed :: instant
  smOutcome :: sample_outcome
  smConverged :: "instant option"
  smExcluded :: "string option"

record pilot =
  plNow :: instant
  plBusinesses :: "uuid list"
  plStages :: "stage_row list"
  plEnrolled :: "(uuid \<times> uuid) list"
  plWithheld :: "withheld_row list"
  plSamples :: "sample_row list"

definition stage_check :: "stage_row \<Rightarrow> exn + unit" where
  "stage_check r = check_all [
     (case sgLimit r of None \<Rightarrow> True | Some n \<Rightarrow> int4 n, NumericValueOutOfRange),
     ((sgStage r = Cohort) = (sgLimit r \<noteq> None), CheckViolation ''business_pilot_stages_cohort_has_a_limit''),
     (case sgLimit r of None \<Rightarrow> True | Some n \<Rightarrow> 0 < n, CheckViolation ''business_pilot_stages_cohort_limit_positive''),
     (sgStage r = Observe \<or> sgStarted r \<noteq> None, CheckViolation ''business_pilot_stages_started_when_writing'')]"

definition sample_check :: "sample_row \<Rightarrow> exn + unit" where
  "sample_check r = check_all [
     (int4 (smQuantity r), NumericValueOutOfRange),
     ((smOutcome r = SampleConverged) = (smConverged r \<noteq> None),
        CheckViolation ''convergence_samples_converged_has_a_time''),
     (case smConverged r of None \<Rightarrow> True | Some t \<Rightarrow> smNoticed r \<le> t,
        CheckViolation ''convergence_samples_time_moves_forward'')]"

section \<open>Stages\<close>

definition stageCeiling :: "pilot_stage \<Rightarrow> int option \<Rightarrow> int option" where
  "stageCeiling stage cohortLimit = (case stage of Observe \<Rightarrow> Some 0 | Single \<Rightarrow> Some 1 | Cohort \<Rightarrow> cohortLimit | Full \<Rightarrow> None)"

text \<open>The number of a ceiling there is.\<close>

definition given_ceiling :: "int option \<Rightarrow> int" where
  "given_ceiling c = (case c of None \<Rightarrow> 0 | Some n \<Rightarrow> n)"

definition stageWrites :: "pilot_stage \<Rightarrow> bool" where
  "stageWrites stage \<longleftrightarrow> stage \<noteq> Observe"

record stage_view =
  svStage :: pilot_stage
  svLimit :: "int option"
  svStarted :: "instant option"
  svEntered :: instant
  svNote :: "string option"
  svEnrolled :: int

definition stage_of :: "uuid \<Rightarrow> pilot \<Rightarrow> stage_row option" where
  "stage_of b p = lookup_by sgBusiness b (plStages p)"

definition enrolled_in :: "uuid \<Rightarrow> pilot \<Rightarrow> uuid list" where
  "enrolled_in b p = map snd (filter (\<lambda>e. fst e = b) (plEnrolled p))"

definition readStage :: "uuid \<Rightarrow> pilot \<Rightarrow> stage_view" where
  "readStage b p =
     (case stage_of b p of
        None \<Rightarrow> \<lparr>svStage = Full, svLimit = None, svStarted = None, svEntered = 0, svNote = None, svEnrolled = 0\<rparr>
      | Some r \<Rightarrow> \<lparr>svStage = sgStage r, svLimit = sgLimit r, svStarted = sgStarted r, svEntered = sgEntered r,
                   svNote = sgNote r, svEnrolled = int (length (enrolled_in b p))\<rparr>)"

datatype write_decision = Allowed | Withheld pilot_stage string

definition mayWrite :: "uuid \<Rightarrow> uuid \<Rightarrow> pilot \<Rightarrow> write_decision" where
  "mayWrite b mapping p =
     (case stage_of b p of
        None \<Rightarrow> Allowed
      | Some r \<Rightarrow>
          if sgStage r = Full then Allowed
          else if sgStage r = Observe
          then Withheld Observe ''this business is observing: targets are computed but nothing is sent''
          else if mapping \<in> set (enrolled_in b p) then Allowed
          else Withheld (sgStage r) ''this mapping is not enrolled in the pilot'')"

definition recordWithheld :: "withheld_row \<Rightarrow> pilot \<Rightarrow> exn + pilot" where
  "recordWithheld r p =
     bindR (check_all [
       (int4 (whIntended r), NumericValueOutOfRange),
       (whStage r \<noteq> Full, CheckViolation ''pilot_withheld_writes_stage_known''),
       (whBusiness r \<in> set (plBusinesses p), ForeignKeyViolation ''pilot_withheld_writes_business_id_fkey'')]) (\<lambda>_.
     Inr (p\<lparr>plWithheld := plWithheld p @ [r]\<rparr>))"

record stage_input =
  siBusiness :: uuid
  siStage :: pilot_stage
  siLimit :: "int option"
  siActor :: uuid
  siNote :: "string option"

datatype stage_change = StageChanged stage_view | StageRefused string

definition put_stage :: "stage_row \<Rightarrow> pilot \<Rightarrow> exn + pilot" where
  "put_stage r p =
     bindR (stage_check r) (\<lambda>_.
     if list_ex (\<lambda>s. sgBusiness s = sgBusiness r) (plStages p)
     then bindR (update_checked (\<lambda>s. sgBusiness s = sgBusiness r)
            (\<lambda>s. r\<lparr>sgStarted := (if sgStage r = Observe then sgStarted s
                               else case sgStarted s of None \<Rightarrow> Some (plNow p) | Some t \<Rightarrow> Some t)\<rparr>) stage_check (plStages p)) (\<lambda>rows.
          Inr (p\<lparr>plStages := rows\<rparr>))
     else if sgBusiness r \<in> set (plBusinesses p) then Inr (p\<lparr>plStages := plStages p @ [r]\<rparr>)
     else Inl (ForeignKeyViolation ''business_pilot_stages_business_id_fkey''))"

text \<open>\<open>seen\<close> is the pilot the first statement read; \<open>p\<close> the one the second writes.\<close>

definition setStage :: "stage_input \<Rightarrow> pilot \<Rightarrow> pilot \<Rightarrow> exn + stage_change \<times> pilot" where
  "setStage input seen p =
     (let limit = (if siStage input = Cohort then siLimit input else None);
          enrolled = svEnrolled (readStage (siBusiness input) seen);
          ceiling = stageCeiling (siStage input) limit
      in if siStage input = Cohort \<and> (case limit of None \<Rightarrow> True | Some n \<Rightarrow> n < 1)
         then Inr (StageRefused ''a cohort needs a ceiling of at least one mapping'', p)
         else if (case ceiling of None \<Rightarrow> False | Some n \<Rightarrow> n < enrolled)
         then Inr (StageRefused (number_text enrolled @ '' mappings are enrolled and this stage permits ''
                @ number_text (given_ceiling ceiling) @ ''; remove the ones you do not want written first''), p)
         else bindR (put_stage \<lparr>sgBusiness = siBusiness input, sgStage = siStage input, sgLimit = limit,
                      sgStarted = (if siStage input = Observe then None else Some (plNow p)),
                      sgEntered = plNow p, sgBy = Some (siActor input), sgNote = siNote input\<rparr> p) (\<lambda>p1.
              Inr (StageChanged (readStage (siBusiness input) p1), p1)))"

datatype enrollment_change = Enrolled int | EnrollmentRefused string

text \<open>One transaction under the lock of the stage row.\<close>

definition enroll :: "uuid \<Rightarrow> uuid \<Rightarrow> pilot \<Rightarrow> enrollment_change \<times> pilot" where
  "enroll b mapping p =
     (case stage_of b p of
        None \<Rightarrow> (EnrollmentRefused ''this business writes to every mapping already'', p)
      | Some r \<Rightarrow>
          if sgStage r = Full then (EnrollmentRefused ''this business writes to every mapping already'', p)
          else let ceiling = stageCeiling (sgStage r) (sgLimit r);
                   total = int (length (enrolled_in b p))
               in if mapping \<in> set (enrolled_in b p) then (Enrolled total, p)
                  else if (case ceiling of None \<Rightarrow> False | Some n \<Rightarrow> n \<le> total)
                  then (EnrollmentRefused (if ceiling = Some 0
                          then ''this business is observing; move it to a writing stage first''
                          else ''this stage permits '' @ number_text (given_ceiling ceiling) @ '' enrolled mapping''
                               @ (if ceiling = Some 1 then [] else ''s'')), p)
                  else (Enrolled (total + 1), p\<lparr>plEnrolled := plEnrolled p @ [(b, mapping)]\<rparr>))"

definition unenroll :: "uuid \<Rightarrow> uuid \<Rightarrow> pilot \<Rightarrow> bool \<times> pilot" where
  "unenroll b mapping p =
     ((b, mapping) \<in> set (plEnrolled p), p\<lparr>plEnrolled := filter (\<lambda>e. e \<noteq> (b, mapping)) (plEnrolled p)\<rparr>)"

section \<open>Samples\<close>

record change_origin =
  coKind :: origin_kind
  coNoticed :: instant

definition operatorOrigin :: "origin_kind \<Rightarrow> instant \<Rightarrow> change_origin" where
  "operatorOrigin kind now = \<lparr>coKind = kind, coNoticed = now\<rparr>"

record sample_input =
  spBusiness :: uuid
  spMapping :: uuid
  spConnection :: uuid
  spVersion :: int
  spQuantity :: int
  spOrigin :: change_origin

definition is_sample :: "uuid \<Rightarrow> int \<Rightarrow> sample_row \<Rightarrow> bool" where
  "is_sample mapping version r \<longleftrightarrow> smMapping r = mapping \<and> smVersion r = version"

definition openSample :: "sample_input \<Rightarrow> pilot \<Rightarrow> exn + pilot" where
  "openSample input p =
     (let r = \<lparr>smBusiness = spBusiness input, smMapping = spMapping input, smConnection = spConnection input,
               smVersion = spVersion input, smQuantity = spQuantity input, smOrigin = coKind (spOrigin input),
               smNoticed = coNoticed (spOrigin input), smComputed = plNow p, smOutcome = SamplePending,
               smConverged = None, smExcluded = None\<rparr>
      in bindR (sample_check r) (\<lambda>_.
         if list_ex (is_sample (spMapping input) (spVersion input)) (plSamples p) then Inr p
         else if spBusiness input \<in> set (plBusinesses p) then Inr (p\<lparr>plSamples := plSamples p @ [r]\<rparr>)
         else Inl (ForeignKeyViolation ''convergence_samples_business_id_fkey'')))"

definition pending_sample :: "uuid \<Rightarrow> int \<Rightarrow> sample_row \<Rightarrow> bool" where
  "pending_sample mapping version r \<longleftrightarrow> is_sample mapping version r \<and> smOutcome r = SamplePending"

text \<open>
  These updates cannot be refused: the converged time is clamped to the noticed time, and the
  other columns carry no check the row could newly break.
\<close>

definition markConverged :: "uuid \<Rightarrow> int \<Rightarrow> pilot \<Rightarrow> pilot" where
  "markConverged mapping version p = p\<lparr>plSamples := update_where (pending_sample mapping version)
     (\<lambda>r. r\<lparr>smOutcome := SampleConverged, smConverged := Some (max (plNow p) (smNoticed r))\<rparr>) (plSamples p)\<rparr>"

definition markSuperseded :: "uuid \<Rightarrow> int \<Rightarrow> pilot \<Rightarrow> pilot" where
  "markSuperseded mapping version p = p\<lparr>plSamples := update_where (pending_sample mapping version)
     (\<lambda>r. r\<lparr>smOutcome := SampleSuperseded\<rparr>) (plSamples p)\<rparr>"

definition excludeSample :: "uuid \<Rightarrow> int \<Rightarrow> string \<Rightarrow> pilot \<Rightarrow> pilot" where
  "excludeSample mapping version reason p = p\<lparr>plSamples := update_where
     (\<lambda>r. is_sample mapping version r \<and> smExcluded r = None) (\<lambda>r. r\<lparr>smExcluded := Some reason\<rparr>) (plSamples p)\<rparr>"

definition ABANDON_AFTER_MS :: int where
  "ABANDON_AFTER_MS = 24 * 60 * 60 * 1000"

definition abandonStaleSamples :: "instant option \<Rightarrow> instant \<Rightarrow> pilot \<Rightarrow> nat \<times> pilot" where
  "abandonStaleSamples olderThan now p =
     (let cutoff = (case olderThan of None \<Rightarrow> now - ABANDON_AFTER_MS | Some t \<Rightarrow> t);
          stale = (\<lambda>r. smOutcome r = SamplePending \<and> smComputed r < cutoff)
      in (length (filter stale (plSamples p)),
          p\<lparr>plSamples := update_where stale (\<lambda>r. r\<lparr>smOutcome := SampleAbandoned\<rparr>) (plSamples p)\<rparr>))"

section \<open>The ceiling\<close>

text \<open>
  One call on the pilot tables. A change of stage writes over whatever the table is by then: what it
  counted before (\<open>seen\<close>) need not be what it writes to, since it holds no lock between its two
  statements.
\<close>

inductive pilot_step :: "pilot \<Rightarrow> pilot \<Rightarrow> bool" where
  staged: "setStage input seen p = Inr (r, p') \<Longrightarrow> pilot_step p p'"
| enrolled: "enroll b mapping p = (r, p') \<Longrightarrow> pilot_step p p'"
| unenrolled: "unenroll b mapping p = (r, p') \<Longrightarrow> pilot_step p p'"
| withheld: "recordWithheld row p = Inr p' \<Longrightarrow> pilot_step p p'"
| opened: "openSample s p = Inr p' \<Longrightarrow> pilot_step p p'"
| converged: "pilot_step p (markConverged mapping version p)"
| superseded: "pilot_step p (markSuperseded mapping version p)"
| excluded: "pilot_step p (excludeSample mapping version reason p)"
| abandoned: "abandonStaleSamples t now p = (n, p') \<Longrightarrow> pilot_step p p'"
| elsewhere: "set (plBusinesses p) \<subseteq> set bs \<Longrightarrow> pilot_step p (p\<lparr>plNow := t, plBusinesses := bs\<rparr>)"

inductive_cases pilot_stepE: "pilot_step p p'"

interpretation stages: row_table sgBusiness
  by unfold_locales

definition under_ceiling :: "uuid \<Rightarrow> pilot \<Rightarrow> bool" where
  "under_ceiling b p = (case stage_of b p of
     None \<Rightarrow> enrolled_in b p = []
   | Some r \<Rightarrow> (case stageCeiling (sgStage r) (sgLimit r) of None \<Rightarrow> True | Some n \<Rightarrow> int (length (enrolled_in b p)) \<le> n))"

definition pilot_good :: "uuid \<Rightarrow> pilot \<Rightarrow> bool" where
  "pilot_good b p \<longleftrightarrow> distinct (map sgBusiness (plStages p)) \<and> under_ceiling b p"

lemma under_ceiling_cong:
  "stage_of b p' = stage_of b p \<Longrightarrow> enrolled_in b p' = enrolled_in b p \<Longrightarrow> under_ceiling b p' = under_ceiling b p"
  by (simp only: under_ceiling_def)

lemma under_ceiling_Some:
  "stage_of b p = Some s \<Longrightarrow> under_ceiling b p \<longleftrightarrow>
    (\<forall>n. stageCeiling (sgStage s) (sgLimit s) = Some n \<longrightarrow> int (length (enrolled_in b p)) \<le> n)"
  by (simp add: under_ceiling_def split: option.splits)

lemma under_ceiling_same:
  assumes "plStages p' = plStages p" "plEnrolled p' = plEnrolled p"
  shows "under_ceiling b p' = under_ceiling b p" "pilot_good b p' = pilot_good b p"
proof -
  have "enrolled_in c p' = enrolled_in c p" "stage_of c p' = stage_of c p" for c
    using assms by (simp_all add: enrolled_in_def stage_of_def)
  then have "under_ceiling c p' = under_ceiling c p" for c by (simp only: under_ceiling_def)
  then show "under_ceiling b p' = under_ceiling b p" "pilot_good b p' = pilot_good b p"
    using assms(1) by (simp_all add: pilot_good_def)
qed

lemma lookup_replace:
  assumes "\<And>s. key s = k \<Longrightarrow> key (f s) = k"
  shows "lookup_by key b (update_where (\<lambda>s. key s = k) f rows) =
    (if b = k then map_option f (lookup_by key b rows) else lookup_by key b rows)"
  using assms by (induction rows) force+

lemma put_stage_Inr:
  assumes "put_stage r p = Inr p'" "distinct (map sgBusiness (plStages p))"
  shows "distinct (map sgBusiness (plStages p'))" "plEnrolled p' = plEnrolled p"
    "\<exists>r'. stage_of (sgBusiness r) p' = Some r' \<and> sgStage r' = sgStage r \<and> sgLimit r' = sgLimit r"
    "\<And>b. b \<noteq> sgBusiness r \<Longrightarrow> stage_of b p' = stage_of b p"
proof -
  let ?f = "\<lambda>s. r\<lparr>sgStarted := (if sgStage r = Observe then sgStarted s
    else case sgStarted s of None \<Rightarrow> Some (plNow p) | Some t \<Rightarrow> Some t)\<rparr>"
  have "distinct (map sgBusiness (plStages p')) \<and> plEnrolled p' = plEnrolled p
    \<and> (\<exists>r'. stage_of (sgBusiness r) p' = Some r' \<and> sgStage r' = sgStage r \<and> sgLimit r' = sgLimit r)
    \<and> (\<forall>b. b \<noteq> sgBusiness r \<longrightarrow> stage_of b p' = stage_of b p)"
  proof (cases "list_ex (\<lambda>s. sgBusiness s = sgBusiness r) (plStages p)")
    case True
    with assms(1) have p': "p' = p\<lparr>plStages := update_where (\<lambda>s. sgBusiness s = sgBusiness r) ?f (plStages p)\<rparr>"
      by (auto simp: put_stage_def result_simps update_checked_Inr)
    have keys: "map sgBusiness (plStages p') = map sgBusiness (plStages p)"
      by (simp add: p') (rule map_update_where, simp)
    have look: "lookup_by sgBusiness b (plStages p') =
        (if b = sgBusiness r then map_option ?f (lookup_by sgBusiness b (plStages p)) else lookup_by sgBusiness b (plStages p))" for b
      unfolding p' by (simp add: lookup_replace)
    from True obtain s0 where "s0 \<in> set (plStages p)" "sgBusiness s0 = sgBusiness r" unfolding list_ex_iff by blast
    then have "sgBusiness r \<in> sgBusiness ` set (plStages p)" by (simp add: image_iff) metis
    then obtain s where "lookup_by sgBusiness (sgBusiness r) (plStages p) = Some s"
      using stages.lookup_None [of "sgBusiness r" "plStages p"] by auto
    with look [of "sgBusiness r"] have "stage_of (sgBusiness r) p' = Some (?f s)" by (simp add: stage_of_def)
    then have "\<exists>r'. stage_of (sgBusiness r) p' = Some r' \<and> sgStage r' = sgStage r \<and> sgLimit r' = sgLimit r" by simp
    moreover have "stage_of b p' = stage_of b p" if "b \<noteq> sgBusiness r" for b
      using look [of b] that by (simp add: stage_of_def)
    moreover have "distinct (map sgBusiness (plStages p'))" using keys assms(2) by simp
    moreover have "plEnrolled p' = plEnrolled p" by (simp add: p')
    ultimately show ?thesis by blast
  next
    case False
    with assms(1) have "p' = p\<lparr>plStages := plStages p @ [r]\<rparr>"
      by (auto simp: put_stage_def result_simps split: if_splits)
    moreover from False have "sgBusiness r \<notin> sgBusiness ` set (plStages p)" by (force simp: list_ex_iff)
    then have "lookup_by sgBusiness (sgBusiness r) (plStages p) = None" by (simp add: stages.lookup_None)
    ultimately show ?thesis using assms(2) False
      by (auto simp: stage_of_def stages.lookup_append list_ex_iff split: option.splits)
  qed
  then show "distinct (map sgBusiness (plStages p'))" "plEnrolled p' = plEnrolled p"
    "\<exists>r'. stage_of (sgBusiness r) p' = Some r' \<and> sgStage r' = sgStage r \<and> sgLimit r' = sgLimit r"
    "\<And>b. b \<noteq> sgBusiness r \<Longrightarrow> stage_of b p' = stage_of b p" by blast+
qed

lemma enrolled_count:
  assumes "under_ceiling b p"
  shows "svEnrolled (readStage b p) = int (length (enrolled_in b p))"
  using assms by (simp add: readStage_def under_ceiling_def split: option.splits)

text \<open>A change of stage keeps the ceiling of a business if it counted no fewer mappings than the table has.\<close>

lemma setStage_good:
  assumes "setStage input seen p = Inr (r, p')" "pilot_good b p"
    and "siBusiness input = b \<Longrightarrow> int (length (enrolled_in b p)) \<le> svEnrolled (readStage b seen)"
  shows "pilot_good b p'"
proof -
  let ?b = "siBusiness input" and ?limit = "if siStage input = Cohort then siLimit input else None"
  let ?row = "\<lparr>sgBusiness = siBusiness input, sgStage = siStage input, sgLimit = ?limit,
    sgStarted = (if siStage input = Observe then None else Some (plNow p)),
    sgEntered = plNow p, sgBy = Some (siActor input), sgNote = siNote input\<rparr>"
  have d: "distinct (map sgBusiness (plStages p))" and u: "under_ceiling b p" using assms(2) by (auto simp: pilot_good_def)
  from assms(1) have "p' = p \<or> put_stage ?row p = Inr p'
      \<and> (case stageCeiling (siStage input) ?limit of None \<Rightarrow> True | Some n \<Rightarrow> svEnrolled (readStage ?b seen) \<le> n)"
    unfolding setStage_def Let_def by (simp add: result_simps split: if_splits option.splits)
  then show ?thesis
  proof
    assume w: "put_stage ?row p = Inr p'
      \<and> (case stageCeiling (siStage input) ?limit of None \<Rightarrow> True | Some n \<Rightarrow> svEnrolled (readStage ?b seen) \<le> n)"
    note put = put_stage_Inr [OF conjunct1 [OF w] d]
    have same: "enrolled_in b p' = enrolled_in b p" by (simp add: enrolled_in_def put(2))
    have "under_ceiling b p'"
    proof (cases "b = ?b")
      case True
      with put(3) w assms(3) same show ?thesis by (fastforce simp: under_ceiling_def split: option.splits)
    next
      case False
      then have "stage_of b p' = stage_of b p" by (rule put(4) [simplified])
      with same u show ?thesis using under_ceiling_cong [of b p' p] by blast
    qed
    with put(1) show ?thesis by (simp add: pilot_good_def)
  qed (use assms(2) in simp)
qed

lemma enroll_good:
  assumes "enroll b mapping p = (r, p')" "pilot_good c p"
  shows "pilot_good c p'"
proof (cases "p' = p")
  case False
  with assms(1) obtain s where s: "stage_of b p = Some s" and p': "p' = p\<lparr>plEnrolled := plEnrolled p @ [(b, mapping)]\<rparr>"
    and below: "\<not> (case stageCeiling (sgStage s) (sgLimit s) of None \<Rightarrow> False | Some n \<Rightarrow> n \<le> int (length (enrolled_in b p)))"
    unfolding enroll_def Let_def by (auto split: option.splits if_splits)
  have stages: "stage_of c p' = stage_of c p" for c by (simp add: p' stage_of_def)
  have "under_ceiling c p'"
  proof (cases "c = b")
    case True
    with s stages have "stage_of b p' = Some s" by simp
    with True below show ?thesis by (auto simp: under_ceiling_Some) (simp add: p' enrolled_in_def)
  next
    case False
    then have "enrolled_in c p' = enrolled_in c p" by (simp add: p' enrolled_in_def)
    moreover have "under_ceiling c p" using assms(2) by (simp add: pilot_good_def)
    ultimately show ?thesis by (simp only: under_ceiling_def stages)
  qed
  then show ?thesis using assms(2) by (simp add: pilot_good_def p')
qed (use assms(2) in simp)

lemma unenroll_good:
  assumes "unenroll b mapping p = (r, p')" "pilot_good c p"
  shows "pilot_good c p'"
proof -
  have p': "p' = p\<lparr>plEnrolled := filter (\<lambda>e. e \<noteq> (b, mapping)) (plEnrolled p)\<rparr>" using assms(1) by (simp add: unenroll_def)
  have "filter (\<lambda>e. fst e = c) (plEnrolled p') = filter (\<lambda>e. e \<noteq> (b, mapping)) (filter (\<lambda>e. fst e = c) (plEnrolled p))"
    by (simp add: p' conj_commute)
  moreover have "length (filter P (filter Q xs)) \<le> length (filter Q xs)" for P Q and xs :: "(uuid \<times> uuid) list"
    by (rule length_filter_le)
  ultimately have shorter: "length (enrolled_in c p') \<le> length (enrolled_in c p)" unfolding enrolled_in_def length_map by metis
  have stages: "stage_of c p' = stage_of c p" by (simp add: p' stage_of_def)
  have u: "under_ceiling c p" using assms(2) by (simp add: pilot_good_def)
  have "under_ceiling c p'"
  proof (cases "stage_of c p")
    case None
    with u shorter show ?thesis by (simp add: under_ceiling_def stages)
  next
    case (Some s)
    with u shorter show ?thesis
      by (cases "stageCeiling (sgStage s) (sgLimit s)") (auto simp: under_ceiling_def stages)
  qed
  then show ?thesis using assms(2) by (simp add: pilot_good_def p')
qed

text \<open>
  The steps of the pilot with one proviso: a change of stage of business \<open>b\<close> counted at least
  the mappings the table has when it writes. \<open>setStage\<close> is the one operation that touches the
  stages, so every other operation is a step here as it is.
\<close>

inductive counted_step :: "uuid \<Rightarrow> pilot \<Rightarrow> pilot \<Rightarrow> bool" where
  restaged: "setStage input seen p = Inr (r, p') \<Longrightarrow>
    siBusiness input = b \<longrightarrow> int (length (enrolled_in b p)) \<le> svEnrolled (readStage b seen) \<Longrightarrow> counted_step b p p'"
| beside: "pilot_step p p' \<Longrightarrow> plStages p' = plStages p \<Longrightarrow> counted_step b p p'"

lemma counted_step_is_step: "counted_step b p p' \<Longrightarrow> pilot_step p p'"
  by (auto elim: counted_step.cases intro: pilot_step.staged)

lemma setStage_enrolled: "setStage input seen p = Inr (answer, p') \<Longrightarrow> plEnrolled p' = plEnrolled p"
  unfolding setStage_def Let_def by (auto simp: put_stage_def result_simps split: if_splits)

lemma pilot_step_good:
  assumes "pilot_step p p'" "plStages p' = plStages p" "pilot_good b p"
  shows "pilot_good b p'"
  using assms(1)
proof (cases rule: pilot_step.cases)
  case (staged input seen r)
  with assms(2,3) show ?thesis using under_ceiling_same(2) setStage_enrolled by blast
next
  case (enrolled r c mapping)
  then show ?thesis by (rule enroll_good [OF _ assms(3)])
next
  case (unenrolled r c mapping)
  then show ?thesis by (intro unenroll_good [OF _ assms(3)])
next
  case (withheld row)
  then have "plStages p' = plStages p" "plEnrolled p' = plEnrolled p" by (auto simp: recordWithheld_def result_simps)
  then show ?thesis using assms(3) under_ceiling_same(2) by blast
next
  case (opened s)
  then have "plStages p' = plStages p" "plEnrolled p' = plEnrolled p"
    by (auto simp: openSample_def Let_def result_simps split: if_splits)
  then show ?thesis using assms(3) under_ceiling_same(2) by blast
next
  case (converged mapping version)
  then show ?thesis using assms(3) under_ceiling_same(2) [of p' p] by (simp add: markConverged_def)
next
  case (superseded mapping version)
  then show ?thesis using assms(3) under_ceiling_same(2) [of p' p] by (simp add: markSuperseded_def)
next
  case (excluded mapping version reason)
  then show ?thesis using assms(3) under_ceiling_same(2) [of p' p] by (simp add: excludeSample_def)
next
  case (abandoned t now n)
  then have "plStages p' = plStages p" "plEnrolled p' = plEnrolled p" by (auto simp: abandonStaleSamples_def Let_def)
  then show ?thesis using assms(3) under_ceiling_same(2) by blast
next
  case (elsewhere bs t)
  then show ?thesis using assms(3) under_ceiling_same(2) [of p' p] by simp
qed

lemma counted_step_good:
  assumes "counted_step b p p'" "pilot_good b p"
  shows "pilot_good b p'"
  using assms(1)
proof (cases rule: counted_step.cases)
  case (restaged input seen r)
  with assms(2) show ?thesis by (intro setStage_good [of input seen p r p' b]) simp_all
qed (use assms(2) pilot_step_good in simp)

lemma counted_run_good: "(counted_step b)\<^sup>*\<^sup>* p p' \<Longrightarrow> pilot_good b p \<Longrightarrow> pilot_good b p'"
  by (induction rule: rtranclp_induct) (auto dest: counted_step_good)

text \<open>
  C33: As long as every change of a business's stage has counted at least the mappings enrolled when it
  writes, the number of mappings that business may write to in a limited stage never passes the stage's
  ceiling, however stages are changed, mappings enrolled and taken out, and samples recorded. The
  proviso is not the code's to keep: \<open>setStage\<close> holds no lock between its count and its write, and
  \<open>stale_count_breaks_the_ceiling\<close> shows the bound broken when an enrolment lands there.
\<close>

theorem writes_stay_under_the_ceiling:
  assumes "(counted_step b)\<^sup>*\<^sup>* p p'" and "plStages p = []" and "plEnrolled p = []"
    and "stage_of b p' = Some r" and "stageCeiling (sgStage r) (sgLimit r) = Some n"
    and "distinct ms" and "list_all (\<lambda>i. mayWrite b i p' = Allowed) ms"
  shows "int (length ms) \<le> n"
proof (cases "sgStage r = Observe")
  case True
  with assms(4,5,7) show ?thesis by (cases ms) (auto simp: mayWrite_def stageCeiling_def)
next
  case False
  from assms(5) have "sgStage r \<noteq> Full" by (auto simp: stageCeiling_def)
  with False assms(4,7) have "set ms \<subseteq> set (enrolled_in b p')"
    by (auto simp: mayWrite_def list_all_iff split: if_splits)
  then have "card (set ms) \<le> length (enrolled_in b p')"
    by (meson card_length card_mono List.finite_set order_trans)
  moreover have "pilot_good b p"
    using assms(2,3) by (simp add: pilot_good_def under_ceiling_def stage_of_def enrolled_in_def)
  then have "under_ceiling b p'" using counted_run_good [OF assms(1)] by (simp add: pilot_good_def)
  ultimately show ?thesis using assms(4,5,6) by (simp add: under_ceiling_Some distinct_card)
qed

section \<open>The start of the thirty days, and settled samples\<close>

lemma put_stage_started:
  assumes "put_stage r p = Inr p'" "stage_of b p = Some s" "sgStarted s = Some t"
  shows "\<exists>s'. stage_of b p' = Some s' \<and> sgStarted s' = Some t"
proof (cases "list_ex (\<lambda>s. sgBusiness s = sgBusiness r) (plStages p)")
  case True
  with assms(1) obtain f where "p' = p\<lparr>plStages := update_where (\<lambda>s. sgBusiness s = sgBusiness r) f (plStages p)\<rparr>"
      and f: "f = (\<lambda>s. r\<lparr>sgStarted := (if sgStage r = Observe then sgStarted s
        else case sgStarted s of None \<Rightarrow> Some (plNow p) | Some t \<Rightarrow> Some t)\<rparr>)"
    by (auto simp: put_stage_def result_simps update_checked_Inr)
  moreover have "sgBusiness (f s) = sgBusiness r" for s by (simp add: f)
  ultimately have "stage_of b p' = (if b = sgBusiness r then map_option f (stage_of b p) else stage_of b p)"
    by (simp add: stage_of_def lookup_replace)
  moreover have "sgStarted (f s) = Some t" using assms(3) by (simp add: f)
  ultimately show ?thesis using assms(2,3) by (cases "b = sgBusiness r") auto
next
  case False
  with assms show ?thesis
    by (auto simp: put_stage_def result_simps stage_of_def stages.lookup_append split: if_splits)
qed

text \<open>Even a stage written over a table it did not read keeps the start.\<close>

lemma setStage_started:
  assumes "setStage input seen p = Inr (r, p')" "stage_of b p = Some s" "sgStarted s = Some t"
  shows "\<exists>s'. stage_of b p' = Some s' \<and> sgStarted s' = Some t"
  using assms unfolding setStage_def Let_def
  by (auto simp: result_simps dest: put_stage_started split: if_splits)

lemma pilot_step_started:
  assumes "pilot_step p p'" "stage_of b p = Some s" "sgStarted s = Some t"
  shows "\<exists>s'. stage_of b p' = Some s' \<and> sgStarted s' = Some t"
  using assms(1)
proof (cases rule: pilot_step.cases)
  case (staged input seen r)
  then show ?thesis using assms(2,3) setStage_started by blast
qed (use assms(2,3) in \<open>auto simp: stage_of_def enroll_def unenroll_def recordWithheld_def openSample_def markConverged_def
  markSuperseded_def excludeSample_def abandonStaleSamples_def Let_def result_simps split: option.splits if_splits\<close>)

text \<open>
  The moment a business first left observation is stamped once: no later change of stage, back
  to observation included, moves it.
\<close>

theorem pilot_start_is_stamped_once:
  assumes "pilot_step\<^sup>*\<^sup>* p p'" and "map_option sgStarted (stage_of b p) = Some (Some t)"
  shows "map_option sgStarted (stage_of b p') = Some (Some t)"
  using assms
proof (induction rule: rtranclp_induct)
  case (step q q')
  then obtain s where "stage_of b q = Some s" "sgStarted s = Some t" by auto
  with step.hyps(2) pilot_step_started obtain s' where "stage_of b q' = Some s'" "sgStarted s' = Some t" by blast
  then show ?case by simp
qed

definition settled_as :: "sample_row \<Rightarrow> sample_row \<Rightarrow> bool" where
  "settled_as s s' \<longleftrightarrow> s' = s\<lparr>smExcluded := smExcluded s'\<rparr> \<and> (smExcluded s \<noteq> None \<longrightarrow> s' = s)"

lemma settled_in_update:
  assumes "s \<in> set rows" "\<not> p s \<or> settled_as s (f s)"
  shows "\<exists>s' \<in> set (update_where p f rows). settled_as s s'"
proof -
  have "(if p s then f s else s) \<in> set (update_where p f rows)" using assms(1) by (auto simp: set_update_where)
  moreover have "settled_as s s" by (simp add: settled_as_def)
  with assms(2) have "settled_as s (if p s then f s else s)" by simp
  ultimately show ?thesis by blast
qed

lemma pilot_step_settled:
  assumes "pilot_step p p'" "s \<in> set (plSamples p)" "smOutcome s \<noteq> SamplePending"
  shows "\<exists>s' \<in> set (plSamples p'). settled_as s s'"
proof -
  have same: "\<exists>s' \<in> set rows. settled_as s s'" if "s \<in> set rows" for rows
    using that by (intro bexI [of _ s]) (simp_all add: settled_as_def)
  from assms(1) show ?thesis
  proof (cases rule: pilot_step.cases)
    case (staged input seen r)
    then have "plSamples p' = plSamples p"
      unfolding setStage_def Let_def by (auto simp: put_stage_def result_simps split: if_splits)
    with same assms(2) show ?thesis by simp
  next
    case (excluded mapping version reason)
    then show ?thesis unfolding excludeSample_def pilot.simps
      by simp (rule settled_in_update [OF assms(2)], auto simp: settled_as_def)
  next
    case (opened r)
    then have "set (plSamples p) \<subseteq> set (plSamples p')"
      by (auto simp: openSample_def Let_def result_simps split: if_splits)
    with same assms(2) show ?thesis by auto
  qed (use assms(2,3) same in \<open>auto simp: enroll_def unenroll_def recordWithheld_def markConverged_def
     markSuperseded_def abandonStaleSamples_def pending_sample_def Let_def result_simps
     intro!: settled_in_update split: option.splits if_splits\<close>)
qed

text \<open>
  A convergence sample is settled once: after it has converged, been superseded or been
  abandoned nothing changes it, save that it may still be excluded once from the figures.
\<close>

theorem settled_sample_is_final:
  assumes "pilot_step\<^sup>*\<^sup>* p p'" and "s \<in> set (plSamples p)" and "smOutcome s \<noteq> SamplePending"
  shows "\<exists>s' \<in> set (plSamples p'). settled_as s s'"
  using assms
proof (induction rule: rtranclp_induct)
  case base
  then show ?case by (intro bexI [of _ s]) (simp_all add: settled_as_def)
next
  case (step q q')
  then obtain s1 where "s1 \<in> set (plSamples q)" "settled_as s s1" by blast
  moreover from this step.prems(2) have "smOutcome s1 \<noteq> SamplePending"
    unfolding settled_as_def by (metis sample_row.select_convs(9) sample_row.surjective sample_row.update_convs(11))
  ultimately obtain s2 where "s2 \<in> set (plSamples q')" "settled_as s1 s2" using pilot_step_settled [OF step.hyps(2)] by blast
  with \<open>settled_as s s1\<close> show ?case
    by (intro bexI [of _ s2]) (auto simp: settled_as_def)
qed


section \<open>Concrete runs\<close>

definition first_pilot :: pilot where
  "first_pilot = \<lparr>plNow = 1000, plBusinesses = [1], plStages = [], plEnrolled = [], plWithheld = [], plSamples = []\<rparr>"

definition stage_request :: "pilot_stage \<Rightarrow> int option \<Rightarrow> stage_input" where
  "stage_request stage limit = \<lparr>siBusiness = 1, siStage = stage, siLimit = limit, siActor = 7, siNote = None\<rparr>"

definition staged_pilot :: "pilot_stage \<Rightarrow> int option \<Rightarrow> pilot \<Rightarrow> pilot \<Rightarrow> pilot" where
  "staged_pilot stage limit seen p = (case setStage (stage_request stage limit) seen p of Inr (r, p') \<Rightarrow> p' | Inl e \<Rightarrow> p)"

lemma staged_pilot_step: "pilot_step\<^sup>*\<^sup>* p (staged_pilot stage limit p p)"
  unfolding staged_pilot_def by (auto split: sum.splits prod.splits intro: pilot_step.staged)

lemma enrolled_pilot_step: "pilot_step\<^sup>*\<^sup>* p (snd (enroll b i p))"
  by (intro r_into_rtranclp pilot_step.enrolled) (rule prod.collapse [symmetric])

definition cohort_pilot :: pilot where
  "cohort_pilot = snd (enroll 1 10 (staged_pilot Cohort (Some 2) first_pilot first_pilot))"

definition two_written :: pilot where
  "two_written = snd (enroll 1 11 cohort_pilot)"

lemma cohort_pilot_run: "pilot_step\<^sup>*\<^sup>* first_pilot cohort_pilot"
  unfolding cohort_pilot_def by (blast intro: rtranclp_trans staged_pilot_step enrolled_pilot_step)

lemma enroll_counted: "counted_step b p (snd (enroll b i p))"
  by (rule counted_step.beside [OF pilot_step.enrolled [OF prod.collapse [symmetric]]])
    (auto simp: enroll_def Let_def split: option.splits if_splits)

lemma two_written_run: "(counted_step 1)\<^sup>*\<^sup>* first_pilot two_written"
proof -
  have "counted_step 1 first_pilot (staged_pilot Cohort (Some 2) first_pilot first_pilot)"
  proof (cases "setStage (stage_request Cohort (Some 2)) first_pilot first_pilot")
    case (Inr a)
    then show ?thesis
      by (cases a) (auto simp: staged_pilot_def readStage_def enrolled_in_def first_pilot_def intro!: counted_step.restaged split: option.splits)
  next
    case (Inl e)
    have "case setStage (stage_request Cohort (Some 2)) first_pilot first_pilot of Inr a \<Rightarrow> True | Inl e \<Rightarrow> False" by code_simp
    with Inl show ?thesis by simp
  qed
  then have "(counted_step 1)\<^sup>*\<^sup>* first_pilot (staged_pilot Cohort (Some 2) first_pilot first_pilot)" by blast
  moreover have "counted_step 1 (staged_pilot Cohort (Some 2) first_pilot first_pilot) cohort_pilot"
    unfolding cohort_pilot_def by (rule enroll_counted)
  moreover have "counted_step 1 cohort_pilot two_written" unfolding two_written_def by (rule enroll_counted)
  ultimately show ?thesis by (rule rtranclp.rtrancl_into_rtrancl [OF rtranclp.rtrancl_into_rtrancl])
qed

theorem writes_stay_under_the_ceiling_witness:
  "map_option sgLimit (stage_of 1 two_written) = Some (Some 2) \<and> mayWrite 1 10 two_written = Allowed
    \<and> mayWrite 1 11 two_written = Allowed \<and> int (length [10, 11 :: uuid]) \<le> 2"
proof -
  have r: "map_option sgLimit (stage_of 1 two_written) = Some (Some 2)"
    "map_option sgStage (stage_of 1 two_written) = Some Cohort"
    "list_all (\<lambda>i. mayWrite 1 i two_written = Allowed) [10, 11]"
    "plStages first_pilot = []" "plEnrolled first_pilot = []" by code_simp+
  then obtain s where s: "stage_of 1 two_written = Some s" "stageCeiling (sgStage s) (sgLimit s) = Some 2"
    by (auto simp: stageCeiling_def)
  have "int (length [10, 11 :: uuid]) \<le> 2"
    by (rule writes_stay_under_the_ceiling [OF two_written_run r(4,5) s _ r(3)]) simp
  with r show ?thesis by simp
qed

theorem pilot_start_is_stamped_once_witness:
  "map_option sgStarted (stage_of 1 cohort_pilot) = Some (Some 1000)
    \<and> map_option sgStarted (stage_of 1 (staged_pilot Full None cohort_pilot (cohort_pilot\<lparr>plNow := 5000\<rparr>))) = Some (Some 1000)"
proof -
  have start: "map_option sgStarted (stage_of 1 cohort_pilot) = Some (Some 1000)" by code_simp
  have "pilot_step cohort_pilot (cohort_pilot\<lparr>plNow := 5000\<rparr>)"
    using pilot_step.elsewhere [of cohort_pilot "plBusinesses cohort_pilot" 5000] by simp
  moreover have "staged_pilot Full None cohort_pilot (cohort_pilot\<lparr>plNow := 5000\<rparr>)
      = staged_pilot Full None (cohort_pilot\<lparr>plNow := 5000\<rparr>) (cohort_pilot\<lparr>plNow := 5000\<rparr>)" by code_simp
  ultimately have "pilot_step\<^sup>*\<^sup>* cohort_pilot (staged_pilot Full None cohort_pilot (cohort_pilot\<lparr>plNow := 5000\<rparr>))"
    by (metis converse_rtranclp_into_rtranclp staged_pilot_step)
  then show ?thesis using pilot_start_is_stamped_once start by blast
qed

definition sample_request :: sample_input where
  "sample_request = \<lparr>spBusiness = 1, spMapping = 10, spConnection = 3, spVersion = 1, spQuantity = 5,
     spOrigin = operatorOrigin OriginManual 900\<rparr>"

definition sampled_pilot :: pilot where
  "sampled_pilot = markConverged 10 1 (case openSample sample_request first_pilot of Inr p \<Rightarrow> p | Inl e \<Rightarrow> first_pilot)"

theorem settled_sample_is_final_witness:
  "map smOutcome (plSamples sampled_pilot) = [SampleConverged]
    \<and> settled_as (hd (plSamples sampled_pilot)) (hd (plSamples (markSuperseded 10 1 sampled_pilot)))"
proof -
  let ?s = "hd (plSamples sampled_pilot)"
  have out: "map smOutcome (plSamples sampled_pilot) = [SampleConverged]" by code_simp
  then have s: "?s \<in> set (plSamples sampled_pilot)" "smOutcome ?s \<noteq> SamplePending" by auto
  have "\<exists>s' \<in> set (plSamples (markSuperseded 10 1 sampled_pilot)). settled_as ?s s'"
    by (rule settled_sample_is_final [OF r_into_rtranclp s]) (rule pilot_step.superseded)
  moreover have "map smOutcome (plSamples (markSuperseded 10 1 sampled_pilot)) = [SampleConverged]" by code_simp
  then have "plSamples (markSuperseded 10 1 sampled_pilot) = [hd (plSamples (markSuperseded 10 1 sampled_pilot))]"
    by (cases "plSamples (markSuperseded 10 1 sampled_pilot)") auto
  ultimately have "settled_as ?s (hd (plSamples (markSuperseded 10 1 sampled_pilot)))" by (metis list.set_intros(1) list.sel(1) set_ConsD empty_iff list.set(1))
  with out show ?thesis by simp
qed

text \<open>
  \<open>setStage\<close> counts the enrolments before it writes and holds no lock in between, so an
  enrolment that lands there leaves a business in the single stage with two mappings enrolled,
  and both may be written.
\<close>

theorem stale_count_breaks_the_ceiling:
  "\<exists>seen p'. pilot_step\<^sup>*\<^sup>* first_pilot seen \<and> length (enrolled_in 1 seen) = 1
     \<and> p' = staged_pilot Single None seen (snd (enroll 1 11 seen))
     \<and> map_option sgStage (stage_of 1 p') = Some Single
     \<and> mayWrite 1 10 p' = Allowed \<and> mayWrite 1 11 p' = Allowed"
proof (intro exI conjI)
  show "pilot_step\<^sup>*\<^sup>* first_pilot cohort_pilot" by (rule cohort_pilot_run)
qed code_simp+

end
