(* ===== verification/Alerts.thy ===== *)
theory Alerts
  imports Payload Schema
begin

text \<open>
  \<^verbatim>\<open>packages/notifications/src/alerts.ts\<close>: the life of an operator alert, over the table
  \<open>operator_alerts\<close> as migrations 0020 and 0025 leave it. Its state at a moment is computed from its
  timestamps (\<open>alertStateAt\<close>). The generated columns \<open>scope\<close> and \<open>severity_rank\<close> are functions of the
  row.
\<close>

section \<open>The table\<close>

datatype alert_kind = Oversold | MappingBlocked | JobDeadLettered | ConnectionUnhealthy | RestockPending
  | ReconciliationConflict | ChannelStockout | UnsafeDrift | CredentialRevoked | SyncFailing | QuotaExhausted
  | WorkerUnavailable | SchedulerUnavailable | QueueStalled | SmtpFailing | DatabaseUnready | BackupFailed
  | MigrationMismatch | DiskPressure | ConfigurationInvalid

definition isInstallationAlertKind :: "alert_kind \<Rightarrow> bool" where
  "isInstallationAlertKind k \<longleftrightarrow> k \<in> {WorkerUnavailable, SchedulerUnavailable, QueueStalled, SmtpFailing,
     DatabaseUnready, BackupFailed, MigrationMismatch, DiskPressure, ConfigurationInvalid}"

datatype severity = InfoSeverity | WarningSeverity | ErrorSeverity | CriticalSeverity

fun severity_rank :: "severity \<Rightarrow> int" where
  "severity_rank InfoSeverity = 1"
| "severity_rank WarningSeverity = 2"
| "severity_rank ErrorSeverity = 3"
| "severity_rank CriticalSeverity = 4"

record alert =
  oaId :: uuid
  oaBusiness :: "uuid option"
  oaKind :: alert_kind
  oaSeverity :: severity
  oaSubject :: string
  oaVersion :: string
  oaSummary :: string
  oaDetail :: json_object
  oaAction :: "string option"
  oaMapping :: "uuid option"
  oaItem :: "uuid option"
  oaConnection :: "uuid option"
  oaConflict :: "uuid option"
  oaJob :: "uuid option"
  oaOccurrences :: int
  oaFirstSeen :: instant
  oaLastSeen :: instant
  oaAcknowledged :: "instant option"
  oaAcknowledgedBy :: "uuid option"
  oaNote :: "string option"
  oaSnoozedUntil :: "instant option"
  oaSnoozedBy :: "uuid option"
  oaResolved :: "instant option"
  oaEvidence :: "json_object option"
  oaNotified :: "instant option"
  oaNotifiedRank :: "int option"
  oaReminders :: int
  oaNextReminder :: "instant option"

record alerts =
  asNow :: instant
  asNext :: uuid
  asBusinesses :: "uuid list"
  asRows :: "alert list"

definition alert_check :: "alert \<Rightarrow> exn + unit" where
  "alert_check r = check_all [
     (int4 (oaOccurrences r) \<and> int4 (oaReminders r), NumericValueOutOfRange),
     (1 \<le> oaOccurrences r, CheckViolation ''operator_alerts_occurrences_positive''),
     ((oaBusiness r = None) = isInstallationAlertKind (oaKind r), CheckViolation ''operator_alerts_scope_matches_kind''),
     ((oaResolved r = None) = (oaEvidence r = None), CheckViolation ''operator_alerts_resolution_has_evidence''),
     (0 \<le> oaReminders r, CheckViolation ''operator_alerts_reminders_not_negative''),
     (oaResolved r = None \<or> oaNextReminder r = None, CheckViolation ''operator_alerts_resolved_alerts_are_quiet'')]"

text \<open>\<open>operator_alerts_one_unresolved_per_subject\<close>, whose nulls are not distinct.\<close>

definition unresolved_subject :: "alert \<Rightarrow> (uuid option \<times> alert_kind \<times> string \<times> string) option" where
  "unresolved_subject r =
     (if oaResolved r = None then Some (oaBusiness r, oaKind r, oaSubject r, oaVersion r) else None)"

definition update_alerts :: "(alert \<Rightarrow> bool) \<Rightarrow> (alert \<Rightarrow> alert) \<Rightarrow> alerts \<Rightarrow> exn + alerts" where
  "update_alerts p f s = bindR (update_checked p f alert_check (asRows s)) (\<lambda>rows. Inr (s\<lparr>asRows := rows\<rparr>))"

datatype alert_state = AlertOpen | AlertAcknowledged | AlertSnoozed | AlertResolved

definition alertStateAt :: "alert \<Rightarrow> instant \<Rightarrow> alert_state" where
  "alertStateAt r now =
     (if oaResolved r \<noteq> None then AlertResolved
      else if (case oaSnoozedUntil r of None \<Rightarrow> False | Some t \<Rightarrow> now < t) then AlertSnoozed
      else if oaAcknowledged r = None then AlertOpen else AlertAcknowledged)"

section \<open>Raising\<close>

definition MINUTE :: int where "MINUTE = 60000"
definition HOUR :: int where "HOUR = 60 * MINUTE"

definition REMINDER_GAPS_MS :: "int list" where
  "REMINDER_GAPS_MS = [15 * MINUTE, 45 * MINUTE, 3 * HOUR]"

definition REPEAT_REMINDER_GAP_MS :: int where
  "REPEAT_REMINDER_GAP_MS = 24 * HOUR"

definition REMINDABLE_SEVERITY_RANK :: int where
  "REMINDABLE_SEVERITY_RANK = 3"

definition nextReminderAt :: "nat \<Rightarrow> instant \<Rightarrow> instant" where
  "nextReminderAt sent notifiedAt =
     notifiedAt + (if sent < length REMINDER_GAPS_MS then REMINDER_GAPS_MS ! sent else REPEAT_REMINDER_GAP_MS)"

record raise_input =
  raBusiness :: "uuid option"
  raKind :: alert_kind
  raSeverity :: "severity option"
  raSubject :: string
  raVersion :: "string option"
  raSummary :: string
  raAction :: "string option"
  raDetail :: json_object
  raMapping :: "uuid option"
  raItem :: "uuid option"
  raConnection :: "uuid option"
  raConflict :: "uuid option"
  raJob :: "uuid option"

record raised_alert =
  reAlert :: uuid
  reOccurrences :: int
  reIsNew :: bool
  reEscalated :: bool

definition text_or :: "string \<Rightarrow> string option \<Rightarrow> string" where
  "text_or x y = (case y of None \<Rightarrow> x | Some v \<Rightarrow> v)"

definition raised_row :: "raise_input \<Rightarrow> alerts \<Rightarrow> alert" where
  "raised_row input s = \<lparr>oaId = asNext s, oaBusiness = raBusiness input, oaKind = raKind input,
     oaSeverity = (case raSeverity input of None \<Rightarrow> WarningSeverity | Some v \<Rightarrow> v), oaSubject = raSubject input,
     oaVersion = text_or [] (raVersion input), oaSummary = raSummary input, oaDetail = raDetail input,
     oaAction = raAction input, oaMapping = raMapping input, oaItem = raItem input,
     oaConnection = raConnection input, oaConflict = raConflict input, oaJob = raJob input,
     oaOccurrences = 1, oaFirstSeen = asNow s, oaLastSeen = asNow s, oaAcknowledged = None,
     oaAcknowledgedBy = None, oaNote = None, oaSnoozedUntil = None, oaSnoozedBy = None, oaResolved = None,
     oaEvidence = None, oaNotified = None, oaNotifiedRank = None, oaReminders = 0, oaNextReminder = None\<rparr>"

definition merged_severity :: "severity \<Rightarrow> severity \<Rightarrow> severity" where
  "merged_severity a b =
     (if CriticalSeverity \<in> {a, b} then CriticalSeverity
      else if ErrorSeverity \<in> {a, b} then ErrorSeverity
      else if WarningSeverity \<in> {a, b} then WarningSeverity
      else InfoSeverity)"

definition repeated :: "alert \<Rightarrow> instant \<Rightarrow> alert \<Rightarrow> alert" where
  "repeated excluded now r = r\<lparr>oaOccurrences := oaOccurrences r + 1, oaLastSeen := now,
     oaSummary := oaSummary excluded, oaDetail := oaDetail excluded, oaAction := oaAction excluded,
     oaSeverity := merged_severity (oaSeverity r) (oaSeverity excluded)\<rparr>"

text \<open>The upsert, and the row it returns.\<close>

definition upsert_alert :: "raise_input \<Rightarrow> alerts \<Rightarrow> exn + alert \<times> alerts" where
  "upsert_alert input s =
     (let e = raised_row input s
      in bindR (alert_check e) (\<lambda>_.
         case List.find (\<lambda>r. unresolved_subject r = unresolved_subject e) (asRows s) of
           Some r \<Rightarrow>
             bindR (update_alerts (\<lambda>x. oaId x = oaId r) (repeated e (asNow s)) s) (\<lambda>s1.
             Inr (repeated e (asNow s) r, s1))
         | None \<Rightarrow>
             if opt_in (oaBusiness e) (asBusinesses s)
             then Inr (e, s\<lparr>asNext := Suc (asNext s), asRows := asRows s @ [e]\<rparr>)
             else Inl (ForeignKeyViolation ''operator_alerts_business_id_fkey'')))"

definition raiseAlert :: "raise_input \<Rightarrow> alerts \<Rightarrow> exn + raised_alert \<times> alerts" where
  "raiseAlert input s =
     bindR (upsert_alert input s) (\<lambda>(r, s1).
     let escalated = (oaNotified r \<noteq> None
           \<and> (case oaNotifiedRank r of None \<Rightarrow> 0 | Some n \<Rightarrow> n) < severity_rank (oaSeverity r))
     in bindR (if escalated
               then update_alerts (\<lambda>x. oaId x = oaId r \<and> oaResolved x = None) (\<lambda>x. x\<lparr>oaNextReminder := Some (asNow s1)\<rparr>) s1
               else Inr s1) (\<lambda>s2.
        Inr (\<lparr>reAlert = oaId r, reOccurrences = oaOccurrences r, reIsNew = (oaOccurrences r = 1),
              reEscalated = escalated\<rparr>, s2)))"

section \<open>What a person and a check can do\<close>

text \<open>\<open>scopedTo\<close>: no business is the installation.\<close>

definition scopedTo :: "uuid option \<Rightarrow> alert \<Rightarrow> bool" where
  "scopedTo b r \<longleftrightarrow> oaBusiness r = b"

definition unresolved_in :: "uuid option \<Rightarrow> uuid \<Rightarrow> alert \<Rightarrow> bool" where
  "unresolved_in b i r \<longleftrightarrow> scopedTo b r \<and> oaId r = i \<and> oaResolved r = None"

definition acknowledgeAlert :: "uuid option \<Rightarrow> uuid \<Rightarrow> uuid \<Rightarrow> string option \<Rightarrow> alerts \<Rightarrow> exn + bool \<times> alerts" where
  "acknowledgeAlert b i actor note s =
     bindR (update_alerts (unresolved_in b i) (\<lambda>r. r\<lparr>oaAcknowledged := Some (asNow s), oaAcknowledgedBy := Some actor,
              oaNextReminder := None, oaNote := (case note of None \<Rightarrow> oaNote r | Some n \<Rightarrow> Some n)\<rparr>) s) (\<lambda>s1.
     Inr (length (filter (unresolved_in b i) (asRows s)) = 1, s1))"

definition snoozeAlert :: "uuid option \<Rightarrow> uuid \<Rightarrow> uuid \<Rightarrow> instant \<Rightarrow> instant option \<Rightarrow> alerts \<Rightarrow> exn + bool \<times> alerts" where
  "snoozeAlert b i actor until now s =
     (if until \<le> (case now of None \<Rightarrow> asNow s | Some t \<Rightarrow> t) then Inr (False, s)
      else bindR (update_alerts (unresolved_in b i) (\<lambda>r. r\<lparr>oaSnoozedUntil := Some until, oaSnoozedBy := Some actor\<rparr>) s) (\<lambda>s1.
           Inr (length (filter (unresolved_in b i) (asRows s)) = 1, s1)))"

definition resolved_row :: "instant \<Rightarrow> json_object \<Rightarrow> alert \<Rightarrow> alert" where
  "resolved_row now evidence r = r\<lparr>oaResolved := Some now, oaEvidence := Some evidence, oaNextReminder := None\<rparr>"

definition resolveAlert :: "uuid option \<Rightarrow> uuid \<Rightarrow> json_object \<Rightarrow> alerts \<Rightarrow> exn + bool \<times> alerts" where
  "resolveAlert b i evidence s =
     bindR (update_alerts (unresolved_in b i) (resolved_row (asNow s) evidence) s) (\<lambda>s1.
     Inr (length (filter (unresolved_in b i) (asRows s)) = 1, s1))"

definition about :: "uuid option \<Rightarrow> alert_kind \<Rightarrow> string \<Rightarrow> alert \<Rightarrow> bool" where
  "about b kind subject r \<longleftrightarrow> scopedTo b r \<and> oaKind r = kind \<and> oaSubject r = subject \<and> oaResolved r = None"

definition resolveAlertsAbout :: "uuid option \<Rightarrow> alert_kind \<Rightarrow> string \<Rightarrow> json_object \<Rightarrow> alerts \<Rightarrow> exn + nat \<times> alerts" where
  "resolveAlertsAbout b kind subject evidence s =
     bindR (update_alerts (about b kind subject) (resolved_row (asNow s) evidence) s) (\<lambda>s1.
     Inr (length (filter (about b kind subject) (asRows s)), s1))"

section \<open>Lists and reminders\<close>

definition worse_alert :: "alert \<Rightarrow> alert \<Rightarrow> bool" where
  "worse_alert a b \<longleftrightarrow> severity_rank (oaSeverity b) < severity_rank (oaSeverity a)
     \<or> severity_rank (oaSeverity a) = severity_rank (oaSeverity b) \<and> oaLastSeen b \<le> oaLastSeen a"

definition openAlerts :: "uuid \<Rightarrow> nat \<Rightarrow> alerts \<Rightarrow> alert list" where
  "openAlerts b n s = take n (sort_by worse_alert (filter (\<lambda>r. oaBusiness r = Some b \<and> oaResolved r = None) (asRows s)))"

definition openInstallationAlerts :: "nat \<Rightarrow> alerts \<Rightarrow> alert list" where
  "openInstallationAlerts n s = take n (sort_by worse_alert (filter (\<lambda>r. oaBusiness r = None \<and> oaResolved r = None) (asRows s)))"

definition due :: "instant \<Rightarrow> alert \<Rightarrow> bool" where
  "due now r \<longleftrightarrow> oaResolved r = None \<and> (case oaNextReminder r of None \<Rightarrow> False | Some t \<Rightarrow> t \<le> now)
     \<and> (case oaSnoozedUntil r of None \<Rightarrow> True | Some t \<Rightarrow> t \<le> now)"

definition sooner_due :: "alert \<Rightarrow> alert \<Rightarrow> bool" where
  "sooner_due a b \<longleftrightarrow> (case (oaNextReminder a, oaNextReminder b) of (Some x, Some y) \<Rightarrow> x \<le> y | (None, Some y) \<Rightarrow> False | _ \<Rightarrow> True)"

definition alertsDueForReminder :: "instant \<Rightarrow> nat \<Rightarrow> alerts \<Rightarrow> alert list" where
  "alertsDueForReminder now n s = take n (sort_by sooner_due (filter (due now) (asRows s)))"

text \<open>An element of a PostgreSQL array, which is one-based and null outside its bounds.\<close>

definition pg_element :: "'a list \<Rightarrow> int \<Rightarrow> 'a option" where
  "pg_element xs n = (if 1 \<le> n \<and> n \<le> int (length xs) then Some (xs ! nat (n - 1)) else None)"

definition reminders_after :: "alert \<Rightarrow> int" where
  "reminders_after r = (if oaNotified r = None then 0 else oaReminders r + 1)"

definition notified_row :: "instant \<Rightarrow> alert \<Rightarrow> alert" where
  "notified_row at r = r\<lparr>oaNotified := Some at, oaNotifiedRank := Some (severity_rank (oaSeverity r)),
     oaReminders := reminders_after r,
     oaNextReminder := (if oaAcknowledged r \<noteq> None then None
       else if severity_rank (oaSeverity r) < REMINDABLE_SEVERITY_RANK then None
       else Some (at + (case pg_element REMINDER_GAPS_MS (reminders_after r + 1) of
               None \<Rightarrow> REPEAT_REMINDER_GAP_MS | Some gap \<Rightarrow> gap)))\<rparr>"

definition recordNotified :: "uuid \<Rightarrow> instant \<Rightarrow> alerts \<Rightarrow> exn + alerts" where
  "recordNotified i at = update_alerts (\<lambda>r. oaId r = i \<and> oaResolved r = None) (notified_row at)"

interpretation alert_order: row_order worse_alert
  by unfold_locales (auto simp: worse_alert_def)

interpretation due_order: row_order sooner_due
  by unfold_locales (auto simp: sooner_due_def split: option.splits)

end
