(* ===== verification/Alarm.thy ===== *)
theory Alarm
  imports Alerts
begin

text \<open>
  What the alerts promise: one unresolved alert per subject, nothing but a proven recovery ends
  one, its severity never falls meanwhile, and the reminders follow the schedule.
\<close>

section \<open>Steps\<close>

inductive alert_step :: "alerts \<Rightarrow> alerts \<Rightarrow> bool" where
  raised: "raiseAlert input s = Inr (r, s') \<Longrightarrow> alert_step s s'"
| acknowledged: "acknowledgeAlert b i actor note s = Inr (r, s') \<Longrightarrow> alert_step s s'"
| snoozed: "snoozeAlert b i actor until now s = Inr (r, s') \<Longrightarrow> alert_step s s'"
| resolved: "resolveAlert b i evidence s = Inr (r, s') \<Longrightarrow> alert_step s s'"
| resolved_about: "resolveAlertsAbout b kind subject evidence s = Inr (n, s') \<Longrightarrow> alert_step s s'"
| notified: "recordNotified i at s = Inr s' \<Longrightarrow> alert_step s s'"
| passes: "alert_step s (s\<lparr>asNow := t, asBusinesses := bs\<rparr>)"

definition alerts_good :: "alerts \<Rightarrow> bool" where
  "alerts_good s \<longleftrightarrow> distinct (map oaId (asRows s)) \<and> (\<forall>r \<in> set (asRows s). oaId r < asNext s \<and> alert_check r = Inr ())
     \<and> unique_on unresolved_subject (asRows s)"

text \<open>How an alert may change: it is the same problem, no less severe, and final once resolved.\<close>

definition carried :: "alert \<Rightarrow> alert \<Rightarrow> bool" where
  "carried r r' \<longleftrightarrow> oaId r' = oaId r \<and> oaBusiness r' = oaBusiness r \<and> oaKind r' = oaKind r
     \<and> oaSubject r' = oaSubject r \<and> oaVersion r' = oaVersion r
     \<and> severity_rank (oaSeverity r) \<le> severity_rank (oaSeverity r') \<and> oaOccurrences r \<le> oaOccurrences r'
     \<and> (oaNotified r \<noteq> None \<longrightarrow> oaNotified r' \<noteq> None) \<and> (oaResolved r \<noteq> None \<longrightarrow> r' = r)"

lemma carried_refl [simp]: "carried r r"
  by (simp add: carried_def)

lemma carried_trans: "carried r r1 \<Longrightarrow> carried r1 r2 \<Longrightarrow> carried r r2"
  by (auto simp: carried_def)

text \<open>Every operation but a first alert is an update whose rows are carried.\<close>

definition carries :: "alerts \<Rightarrow> alerts \<Rightarrow> bool" where
  "carries s s' \<longleftrightarrow> asNext s' = asNext s \<and> (\<exists>p f. asRows s' = update_where p f (asRows s)
     \<and> (\<forall>r \<in> set (asRows s). p r \<longrightarrow> carried r (f r) \<and> alert_check (f r) = Inr ()
          \<and> (unresolved_subject (f r) = unresolved_subject r \<or> unresolved_subject (f r) = None)))"

lemma carries_good:
  assumes "carries s s'" "alerts_good s"
  shows "alerts_good s'"
proof -
  from assms(1) obtain p f where rows: "asRows s' = update_where p f (asRows s)" and nxt: "asNext s' = asNext s"
    and f: "\<And>r. r \<in> set (asRows s) \<Longrightarrow> p r \<Longrightarrow> carried r (f r) \<and> alert_check (f r) = Inr ()
      \<and> (unresolved_subject (f r) = unresolved_subject r \<or> unresolved_subject (f r) = None)"
    by (auto simp: carries_def)
  have "map oaId (asRows s') = map oaId (asRows s)"
    unfolding rows by (rule map_update_where) (use f in \<open>auto simp: carried_def\<close>)
  moreover have "unique_on unresolved_subject (asRows s')"
    unfolding rows by (rule unique_on_update) (use assms(2) f in \<open>auto simp: alerts_good_def\<close>)
  moreover have "\<forall>r \<in> set (asRows s'). oaId r < asNext s' \<and> alert_check r = Inr ()"
    unfolding rows set_update_where nxt using assms(2) f by (auto simp: alerts_good_def carried_def)
  ultimately show ?thesis using assms(2) by (simp add: alerts_good_def)
qed

lemma carries_row:
  assumes "carries s s'" "r \<in> set (asRows s)"
  shows "\<exists>r' \<in> set (asRows s'). carried r r'"
proof -
  from assms(1) obtain p f where rows: "asRows s' = update_where p f (asRows s)"
    and f: "\<And>r. r \<in> set (asRows s) \<Longrightarrow> p r \<Longrightarrow> carried r (f r)" by (auto simp: carries_def)
  have "(if p r then f r else r) \<in> set (asRows s')" using assms(2) by (auto simp: rows set_update_where)
  moreover have "carried r (if p r then f r else r)" using f assms(2) by simp
  ultimately show ?thesis by blast
qed

lemma carries_refl [simp]: "carries s s"
  unfolding carries_def by (intro conjI refl exI [of _ "\<lambda>r. False"] exI [of _ id]) (simp_all add: update_where_def)

lemma carriesI:
  assumes "asRows s' = update_where p f (asRows s)" "asNext s' = asNext s"
    and "\<And>r. r \<in> set (asRows s) \<Longrightarrow> p r \<Longrightarrow> alert_check (f r) = Inr ()"
    and "\<And>r. r \<in> set (asRows s) \<Longrightarrow> p r \<Longrightarrow> carried r (f r)
      \<and> (unresolved_subject (f r) = unresolved_subject r \<or> unresolved_subject (f r) = None)"
  shows "carries s s'"
  unfolding carries_def
  by (intro conjI exI [of _ p] exI [of _ f] ballI impI) (use assms in simp_all)

lemma updated_carries:
  assumes "update_alerts p f s = Inr s'"
    and "\<And>r. p r \<Longrightarrow> carried r (f r) \<and> (unresolved_subject (f r) = unresolved_subject r \<or> unresolved_subject (f r) = None)"
  shows "carries s s'"
proof (rule carriesI [where p = p and f = f])
  have "s' = s\<lparr>asRows := update_where p f (asRows s)\<rparr>" and "\<forall>r \<in> set (asRows s). p r \<longrightarrow> alert_check (f r) = Inr ()"
    using assms(1) by (auto simp: update_alerts_def result_simps update_checked_Inr)
  then show "asRows s' = update_where p f (asRows s)" "asNext s' = asNext s"
    "\<And>r. r \<in> set (asRows s) \<Longrightarrow> p r \<Longrightarrow> alert_check (f r) = Inr ()" by simp_all
qed (rule assms(2))

lemma merged_severity_rank:
  "severity_rank (merged_severity a b) = max (severity_rank a) (severity_rank b)"
  by (cases a; cases b) (simp_all add: merged_severity_def)

lemma repeated_carried: "oaResolved r = None \<Longrightarrow> carried r (repeated e now r) \<and> unresolved_subject (repeated e now r) = unresolved_subject r"
  by (simp add: carried_def repeated_def merged_severity_rank unresolved_subject_def)

lemma notified_carried: "oaResolved r = None \<Longrightarrow> carried r (notified_row at r) \<and> unresolved_subject (notified_row at r) = unresolved_subject r"
  by (simp add: carried_def notified_row_def unresolved_subject_def)

text \<open>Raising: a repeat is carried, a first alert joins the table.\<close>

lemma upsert_cases:
  assumes "upsert_alert input s = Inr (r, s')" "alerts_good s"
  obtains (again) x where "carries s s'" "r \<in> set (asRows s')" "oaResolved r = None" "asNow s' = asNow s"
      "x \<in> set (asRows s)" "unresolved_subject x = unresolved_subject (raised_row input s)"
      "r = repeated (raised_row input s) (asNow s) x" "length (asRows s') = length (asRows s)"
  | (first) "s' = s\<lparr>asNext := Suc (asNext s), asRows := asRows s @ [r]\<rparr>" "r = raised_row input s"
      "alert_check r = Inr ()" "unresolved_subject r \<notin> unresolved_subject ` set (asRows s)"
proof -
  let ?e = "raised_row input s"
  let ?found = "List.find (\<lambda>r. unresolved_subject r = unresolved_subject ?e) (asRows s)"
  have res: "unresolved_subject ?e \<noteq> None" by (simp add: raised_row_def unresolved_subject_def)
  show thesis
  proof (cases ?found)
    case None
    with assms(1) have "s' = s\<lparr>asNext := Suc (asNext s), asRows := asRows s @ [?e]\<rparr>" "r = ?e" "alert_check ?e = Inr ()"
      by (auto simp: upsert_alert_def Let_def result_simps split: if_splits)
    moreover have "unresolved_subject ?e \<notin> unresolved_subject ` set (asRows s)"
      using None by (auto simp: find_None_iff image_iff)
    ultimately show thesis using first by blast
  next
    case (Some x)
    then have x: "x \<in> set (asRows s)" "unresolved_subject x = unresolved_subject ?e" by (auto simp: find_Some_iff)
    with res have open_x: "oaResolved x = None" by (auto simp: unresolved_subject_def split: if_splits)
    from assms(1) Some have upd: "update_alerts (\<lambda>y. oaId y = oaId x) (repeated ?e (asNow s)) s = Inr s'"
      and r: "r = repeated ?e (asNow s) x"
      by (auto simp: upsert_alert_def Let_def result_simps)
    from upd have rows: "s' = s\<lparr>asRows := update_where (\<lambda>y. oaId y = oaId x) (repeated ?e (asNow s)) (asRows s)\<rparr>"
      and chk: "\<forall>y \<in> set (asRows s). oaId y = oaId x \<longrightarrow> alert_check (repeated ?e (asNow s) y) = Inr ()"
      by (auto simp: update_alerts_def result_simps update_checked_Inr)
    have same: "y = x" if "y \<in> set (asRows s)" "oaId y = oaId x" for y
      using same_row [of oaId "asRows s" y x] assms(2) that x(1) by (simp add: alerts_good_def)
    have "carries s s'"
    proof (rule carriesI [where p = "\<lambda>y. oaId y = oaId x" and f = "repeated ?e (asNow s)"])
      fix y
      assume "y \<in> set (asRows s)" "oaId y = oaId x"
      then have "oaResolved y = None" using same open_x by blast
      then show "carried y (repeated ?e (asNow s) y)
          \<and> (unresolved_subject (repeated ?e (asNow s) y) = unresolved_subject y
            \<or> unresolved_subject (repeated ?e (asNow s) y) = None)"
        using repeated_carried by blast
    qed (use rows chk in simp_all)
    moreover have "r \<in> set (asRows s')" using x(1) by (auto simp: rows r set_update_where)
    ultimately show thesis by (rule again [OF _ _ _ _ x r]) (simp_all add: r repeated_def rows open_x)
  qed
qed

lemma raise_cases:
  assumes "raiseAlert input s = Inr (res, s')" "alerts_good s"
  obtains r s1 where "upsert_alert input s = Inr (r, s1)" "carries s1 s'" "reAlert res = oaId r"
    "reEscalated res = (oaNotified r \<noteq> None \<and> (case oaNotifiedRank r of None \<Rightarrow> 0 | Some n \<Rightarrow> n) < severity_rank (oaSeverity r))"
    "reOccurrences res = oaOccurrences r"
    "reEscalated res \<Longrightarrow> update_alerts (\<lambda>x. oaId x = oaId r \<and> oaResolved x = None) (\<lambda>x. x\<lparr>oaNextReminder := Some (asNow s1)\<rparr>) s1 = Inr s'"
    "\<not> reEscalated res \<Longrightarrow> s' = s1"
proof -
  from assms(1) obtain r s1 where u: "upsert_alert input s = Inr (r, s1)"
    and res: "reAlert res = oaId r" "reOccurrences res = oaOccurrences r"
      "reEscalated res = (oaNotified r \<noteq> None \<and> (case oaNotifiedRank r of None \<Rightarrow> 0 | Some n \<Rightarrow> n) < severity_rank (oaSeverity r))"
    and e: "(if reEscalated res
       then update_alerts (\<lambda>x. oaId x = oaId r \<and> oaResolved x = None) (\<lambda>x. x\<lparr>oaNextReminder := Some (asNow s1)\<rparr>) s1
       else Inr s1) = (Inr s' :: exn + alerts)"
    by (auto simp: raiseAlert_def Let_def result_simps)
  have "carries s1 s'"
  proof (cases "reEscalated res")
    case True
    with e have "update_alerts (\<lambda>x. oaId x = oaId r \<and> oaResolved x = None) (\<lambda>x. x\<lparr>oaNextReminder := Some (asNow s1)\<rparr>) s1 = Inr s'" by simp
    then show ?thesis by (rule updated_carries) (simp add: carried_def unresolved_subject_def)
  qed (use e in simp)
  moreover have "reEscalated res \<Longrightarrow> update_alerts (\<lambda>x. oaId x = oaId r \<and> oaResolved x = None)
      (\<lambda>x. x\<lparr>oaNextReminder := Some (asNow s1)\<rparr>) s1 = Inr s'" and "\<not> reEscalated res \<Longrightarrow> s' = s1"
    using e by simp_all
  ultimately show thesis using that [OF u _ res(1,3,2)] by blast
qed

lemma carries_trans:
  assumes "carries a b" "carries b c" "alerts_good a"
  shows "alerts_good c \<and> (\<forall>r \<in> set (asRows a). \<exists>r' \<in> set (asRows c). carried r r')"
proof (intro conjI ballI)
  show "alerts_good c" using assms carries_good by blast
  fix r
  assume "r \<in> set (asRows a)"
  with carries_row [OF assms(1)] obtain r1 where "r1 \<in> set (asRows b)" "carried r r1" by blast
  moreover with carries_row [OF assms(2)] obtain r2 where "r2 \<in> set (asRows c)" "carried r1 r2" by blast
  ultimately show "\<exists>r' \<in> set (asRows c). carried r r'" using carried_trans by blast
qed

lemma quiet_updates:
  "acknowledgeAlert b i actor note s = Inr (x, s') \<Longrightarrow> carries s s'"
  "snoozeAlert b i actor until now s = Inr (x, s') \<Longrightarrow> carries s s'"
  "resolveAlert b i evidence s = Inr (x, s') \<Longrightarrow> carries s s'"
  "resolveAlertsAbout b kind subject evidence s = Inr (n, s') \<Longrightarrow> carries s s'"
  "recordNotified i at s = Inr s' \<Longrightarrow> carries s s'"
proof -
  show "carries s s'" if "acknowledgeAlert b i actor note s = Inr (x, s')"
    using that unfolding acknowledgeAlert_def bindR_Inr
    by (auto simp: carried_def unresolved_in_def unresolved_subject_def intro: updated_carries)
  show "carries s s'" if "snoozeAlert b i actor until now s = Inr (x, s')"
    using that unfolding snoozeAlert_def bindR_Inr
    by (auto simp: bindR_Inr carried_def unresolved_in_def unresolved_subject_def intro: updated_carries split: if_splits)
  show "carries s s'" if "resolveAlert b i evidence s = Inr (x, s')"
    using that unfolding resolveAlert_def bindR_Inr
    by (auto simp: resolved_row_def carried_def unresolved_in_def unresolved_subject_def intro: updated_carries)
  show "carries s s'" if "resolveAlertsAbout b kind subject evidence s = Inr (n, s')"
    using that unfolding resolveAlertsAbout_def bindR_Inr
    by (auto simp: resolved_row_def about_def carried_def unresolved_subject_def intro: updated_carries)
  show "carries s s'" if "recordNotified i at s = Inr s'"
    using that notified_carried unfolding recordNotified_def by (auto intro: updated_carries)
qed

text \<open>A step keeps the table sound and carries every alert on.\<close>

lemma alert_step_keeps:
  assumes "alert_step s s'" "alerts_good s"
  shows "alerts_good s' \<and> (\<forall>r \<in> set (asRows s). \<exists>r' \<in> set (asRows s'). carried r r')"
proof -
  have one: ?thesis if "carries s s'" using that assms(2) carries_good carries_row by blast
  from assms(1) show ?thesis
  proof (cases rule: alert_step.cases)
    case (raised input res)
    then obtain r s1 where up: "upsert_alert input s = Inr (r, s1)" and rest: "carries s1 s'"
      by (rule raise_cases [OF _ assms(2)])
    from up assms(2) show ?thesis
    proof (cases rule: upsert_cases)
      case (again x)
      then show ?thesis using rest assms(2) carries_trans by blast
    next
      case first
      have "alerts_good s1"
        using assms(2) first unfolding alerts_good_def
        by (auto simp: unique_on_append raised_row_def less_Suc_eq)
      moreover have "set (asRows s) \<subseteq> set (asRows s1)" using first by auto
      ultimately show ?thesis using rest carries_good carries_row by blast
    qed
  next
    case (passes t bs)
    then show ?thesis using assms(2) by (auto simp: alerts_good_def intro!: bexI)
  next
    case (acknowledged b i actor n x)
    then show ?thesis by (intro one) (rule quiet_updates(1))
  next
    case (snoozed b i actor until now x)
    then show ?thesis by (intro one) (rule quiet_updates(2))
  next
    case (resolved b i evidence x)
    then show ?thesis by (intro one) (rule quiet_updates(3))
  next
    case (resolved_about b kind subject evidence n)
    then show ?thesis by (intro one) (rule quiet_updates(4))
  next
    case (notified i at)
    then show ?thesis by (intro one) (rule quiet_updates(5))
  qed
qed

lemma alert_run_keeps:
  assumes "alert_step\<^sup>*\<^sup>* s s'" "alerts_good s"
  shows "alerts_good s' \<and> (\<forall>r \<in> set (asRows s). \<exists>r' \<in> set (asRows s'). carried r r')"
  using assms(1)
proof (induction rule: rtranclp_induct)
  case base
  then show ?case using assms(2) carried_refl by blast
next
  case (step t u)
  with alert_step_keeps [OF step.hyps(2)] show ?case by (meson carried_trans)
qed

text \<open>What the row of a raised alert says, and that a second one about the same subject joins it.\<close>

lemma raised_once_more:
  assumes "raiseAlert input s = Inr (res, s')" "alerts_good s"
  shows "alerts_good s'"
    and "\<exists>r \<in> set (asRows s'). oaId r = reAlert res \<and> oaOccurrences r = reOccurrences res
      \<and> unresolved_subject r = unresolved_subject (raised_row input s)"
    and "\<lbrakk>x \<in> set (asRows s); unresolved_subject x = unresolved_subject (raised_row input s)\<rbrakk> \<Longrightarrow>
      reAlert res = oaId x \<and> reOccurrences res = oaOccurrences x + 1 \<and> length (asRows s') = length (asRows s)"
proof -
  show "alerts_good s'" using alert_step_keeps [OF alert_step.raised [OF assms(1)] assms(2)] by blast
  from assms have "(\<exists>r \<in> set (asRows s'). oaId r = reAlert res \<and> oaOccurrences r = reOccurrences res
      \<and> unresolved_subject r = unresolved_subject (raised_row input s))
    \<and> (\<forall>x \<in> set (asRows s). unresolved_subject x = unresolved_subject (raised_row input s) \<longrightarrow>
      reAlert res = oaId x \<and> reOccurrences res = oaOccurrences x + 1 \<and> length (asRows s') = length (asRows s))"
  proof (cases rule: raise_cases)
    case (1 r s1)
    have len: "length (asRows s') = length (asRows s1)" using 1(2) by (auto simp: carries_def)
    have next_row: "\<exists>r' \<in> set (asRows s'). oaId r' = oaId r \<and> oaOccurrences r' = oaOccurrences r
        \<and> unresolved_subject r' = unresolved_subject r" if "r \<in> set (asRows s1)"
    proof (cases "reEscalated res")
      case True
      from 1(6) [OF True] have rows: "asRows s' = update_where (\<lambda>x. oaId x = oaId r \<and> oaResolved x = None)
          (\<lambda>x. x\<lparr>oaNextReminder := Some (asNow s1)\<rparr>) (asRows s1)"
        by (auto simp: update_alerts_def result_simps update_checked_Inr)
      let ?r = "if oaId r = oaId r \<and> oaResolved r = None then r\<lparr>oaNextReminder := Some (asNow s1)\<rparr> else r"
      have "?r \<in> set (asRows s')" unfolding rows set_update_where using that by (rule imageI)
      then show ?thesis by (intro bexI [of _ ?r]) (auto simp: unresolved_subject_def)
    next
      case False
      with 1(7) that show ?thesis by auto
    qed
    from 1(1) assms(2) show ?thesis
    proof (cases rule: upsert_cases)
      case (again x)
      have "y = x" if "y \<in> set (asRows s)" "unresolved_subject y = unresolved_subject (raised_row input s)" for y
        using unique_on_row [of unresolved_subject "asRows s" y x] again(5,6) that assms(2)
        by (auto simp: alerts_good_def raised_row_def unresolved_subject_def split: if_splits)
      moreover have "unresolved_subject r = unresolved_subject (raised_row input s)"
        using again(3,6,7) by (simp add: repeated_def unresolved_subject_def split: if_splits)
      moreover have "oaId r = oaId x" "oaOccurrences r = oaOccurrences x + 1" using again(7) by (simp_all add: repeated_def)
      ultimately show ?thesis using next_row [OF again(2)] 1(3,5) len again(8) by auto
    next
      case first
      then have "r \<in> set (asRows s1)" by simp
      with next_row 1(3,5) first show ?thesis by (auto simp: image_iff)
    qed
  qed
  then show "\<exists>r \<in> set (asRows s'). oaId r = reAlert res \<and> oaOccurrences r = reOccurrences res
      \<and> unresolved_subject r = unresolved_subject (raised_row input s)"
    and "\<lbrakk>x \<in> set (asRows s); unresolved_subject x = unresolved_subject (raised_row input s)\<rbrakk> \<Longrightarrow>
      reAlert res = oaId x \<and> reOccurrences res = oaOccurrences x + 1 \<and> length (asRows s') = length (asRows s)" by blast+
qed

section \<open>Promises\<close>

text \<open>
  C18: However alerts are raised, acknowledged, snoozed, resolved and notified, there is never more
  than one unresolved alert about the same subject in the same state version, and a resolved alert
  carries the evidence that resolved it and is never due for a reminder.
\<close>

theorem one_unresolved_alert_per_subject:
  assumes "alert_step\<^sup>*\<^sup>* s s'" and "asRows s = []"
  shows "(\<forall>a \<in> set (asRows s'). \<forall>b \<in> set (asRows s'). unresolved_subject a \<noteq> None \<longrightarrow> unresolved_subject a = unresolved_subject b \<longrightarrow> a = b)
    \<and> (\<forall>a \<in> set (asRows s'). alertStateAt a now = AlertResolved \<longrightarrow> oaEvidence a \<noteq> None \<and> \<not> due now a)"
proof -
  have "alerts_good s" using assms(2) by (simp add: alerts_good_def unique_on_def)
  with alert_run_keeps [OF assms(1)] have good: "alerts_good s'" by blast
  then have u: "unique_on unresolved_subject (asRows s')" and c: "\<forall>a \<in> set (asRows s'). alert_check a = Inr ()"
    by (simp_all add: alerts_good_def)
  have "a = b" if "a \<in> set (asRows s')" "b \<in> set (asRows s')" "unresolved_subject a \<noteq> None"
      "unresolved_subject a = unresolved_subject b" for a b
    using unique_on_row [OF u that(1,2)] that(3,4) by auto
  moreover have "oaEvidence a \<noteq> None \<and> \<not> due now a" if "a \<in> set (asRows s')" "alertStateAt a now = AlertResolved" for a
    using c that by (auto simp: alert_check_def alertStateAt_def due_def split: if_splits)
  ultimately show ?thesis by blast
qed

text \<open>
  C19: An alert stays the same problem: what it is about never changes, it never becomes less
  severe, its occurrences only grow, and once resolved nothing about it changes.
\<close>

theorem alert_only_worsens_until_resolved:
  assumes "alert_step\<^sup>*\<^sup>* s s'" and "alerts_good s" and "r \<in> set (asRows s)"
  shows "\<exists>r' \<in> set (asRows s'). carried r r'"
  using alert_run_keeps [OF assms(1,2)] assms(3) by blast

text \<open>An alert reminded each time it falls due, and the times that gives.\<close>

fun reminded :: "nat \<Rightarrow> instant \<Rightarrow> alert \<Rightarrow> alert" where
  "reminded 0 at r = notified_row at r"
| "reminded (Suc n) at r = (let a = reminded n at r in notified_row (case oaNextReminder a of None \<Rightarrow> at | Some t \<Rightarrow> t) a)"

definition schedule :: "nat \<Rightarrow> int" where
  "schedule n = (if n = 0 then 15 * MINUTE else if n = 1 then HOUR else if n = 2 then 4 * HOUR
     else 4 * HOUR + (int n - 2) * (24 * HOUR))"

lemma pg_gap:
  "0 \<le> n \<Longrightarrow> (case pg_element REMINDER_GAPS_MS (n + 1) of None \<Rightarrow> REPEAT_REMINDER_GAP_MS | Some gap \<Rightarrow> gap)
    = nextReminderAt (nat n) 0"
  by (auto simp: pg_element_def nextReminderAt_def)

lemma nextReminderAt_shift: "nextReminderAt n at = at + nextReminderAt n 0"
  by (simp add: nextReminderAt_def)

lemma reminded_facts:
  assumes "oaNotified r = None" "oaAcknowledged r = None" "REMINDABLE_SEVERITY_RANK \<le> severity_rank (oaSeverity r)"
  shows "oaNotified (reminded n at r) \<noteq> None \<and> oaAcknowledged (reminded n at r) = None
    \<and> oaSeverity (reminded n at r) = oaSeverity r \<and> oaReminders (reminded n at r) = int n
    \<and> oaNextReminder (reminded n at r) = Some (at + schedule n)"
proof (induction n)
  case 0
  then show ?case using assms pg_gap [of 0]
    by (simp add: notified_row_def reminders_after_def nextReminderAt_def REMINDER_GAPS_MS_def schedule_def)
next
  case (Suc n)
  have gap: "schedule n + nextReminderAt (nat (int n + 1)) 0 = schedule (Suc n)"
    by (cases n; cases "n - 1"; cases "n - 2")
      (auto simp: schedule_def nextReminderAt_def REMINDER_GAPS_MS_def REPEAT_REMINDER_GAP_MS_def MINUTE_def HOUR_def
        nat_add_distrib nth_Cons' algebra_simps)
  from Suc assms(3) pg_gap [of "int n + 1"] gap show ?case
    by (auto simp: Let_def notified_row_def reminders_after_def)
qed

text \<open>
  What the statement of \<open>recordNotified\<close> computes from its array of gaps is what
  \<open>nextReminderAt\<close> says, for every alert that is reminded about at all; and reminding an alert
  each time it falls due gives notifications 15 minutes, one hour and four hours after the first,
  and then one every day.
\<close>

theorem reminders_follow_the_schedule:
  assumes "recordNotified i at s = Inr s'" and "alerts_good s" and "r \<in> set (asRows s)" and "oaId r = i"
    and "oaResolved r = None" and "oaAcknowledged r = None" and "REMINDABLE_SEVERITY_RANK \<le> severity_rank (oaSeverity r)"
  shows "notified_row at r \<in> set (asRows s')
    \<and> oaNextReminder (notified_row at r) = Some (nextReminderAt (nat (oaReminders (notified_row at r))) at)
    \<and> (oaNotified r = None \<longrightarrow> (\<forall>n. oaNextReminder (reminded n at r) = Some (at + schedule n)))"
proof -
  from assms(1) have rows: "asRows s' = update_where (\<lambda>x. oaId x = i \<and> oaResolved x = None) (notified_row at) (asRows s)"
    by (auto simp: recordNotified_def update_alerts_def result_simps update_checked_Inr)
  have "0 \<le> oaReminders r" using assms(2,3) by (auto simp: alerts_good_def alert_check_def)
  then have "0 \<le> reminders_after r" by (simp add: reminders_after_def)
  from pg_gap [OF this] assms(6,7)
  have "oaNextReminder (notified_row at r) = Some (nextReminderAt (nat (oaReminders (notified_row at r))) at)"
    by (simp add: notified_row_def nextReminderAt_shift [of _ at])
  moreover have "notified_row at r \<in> set (asRows s')"
    unfolding rows set_update_where using assms(3,4,5) by force
  ultimately show ?thesis using reminded_facts assms(6,7) by blast
qed

text \<open>
  An alert that has been notified and becomes more severe is due at once, acknowledged or not,
  unless it is snoozed.
\<close>

theorem escalation_is_due_at_once:
  assumes "raiseAlert input s = Inr (res, s')" and "alerts_good s" and "reEscalated res"
  shows "\<exists>r \<in> set (asRows s'). oaId r = reAlert res \<and> oaNextReminder r = Some (asNow s)
    \<and> (oaSnoozedUntil r = None \<longrightarrow> due (asNow s) r)"
proof -
  show ?thesis
  proof (cases rule: raise_cases [OF assms(1,2)])
    case (1 r s1)
    note up = 1(1) and i = 1(3) and upd = 1(6) [OF assms(3)]
    have esc: "oaNotified r \<noteq> None" using 1(4) assms(3) by simp
  from up assms(2) show ?thesis
  proof (cases rule: upsert_cases)
    case (again x)
    from upd have "asRows s' = update_where (\<lambda>x. oaId x = oaId r \<and> oaResolved x = None) (\<lambda>x. x\<lparr>oaNextReminder := Some (asNow s1)\<rparr>) (asRows s1)"
      by (auto simp: update_alerts_def result_simps update_checked_Inr)
    with again have "r\<lparr>oaNextReminder := Some (asNow s)\<rparr> \<in> set (asRows s')" by (force simp: set_update_where)
    moreover have "due (asNow s) (r\<lparr>oaNextReminder := Some (asNow s)\<rparr>)" if "oaSnoozedUntil r = None"
      using that again(3) by (simp add: due_def)
    ultimately show ?thesis using i by (intro bexI [of _ "r\<lparr>oaNextReminder := Some (asNow s)\<rparr>"]) simp_all
  next
    case first
    with esc show ?thesis by (simp add: raised_row_def)
  qed
  qed
qed


section \<open>A concrete alert\<close>

definition quiet :: alerts where
  "quiet = \<lparr>asNow = 100, asNext = 1, asBusinesses = [1], asRows = []\<rparr>"

definition drift :: "severity \<Rightarrow> raise_input" where
  "drift v = \<lparr>raBusiness = Some 1, raKind = UnsafeDrift, raSeverity = Some v, raSubject = ''mapping'', raVersion = None,
     raSummary = ''drift'', raAction = None, raDetail = [], raMapping = None, raItem = None, raConnection = None,
     raConflict = None, raJob = None\<rparr>"

definition alerts_of :: "exn + 'v \<times> alerts \<Rightarrow> alerts" where
  "alerts_of x = (case x of Inr (v, s) \<Rightarrow> s | Inl e \<Rightarrow> quiet)"

definition noticed :: alerts where
  "noticed = alerts_of (raiseAlert (drift ErrorSeverity) quiet)"

definition told :: alerts where
  "told = (case recordNotified 1 100 noticed of Inr s \<Rightarrow> s | Inl e \<Rightarrow> quiet)"

definition acknowledged_once :: alerts where
  "acknowledged_once = alerts_of (acknowledgeAlert (Some 1) 1 9 None told)"

lemma quiet_good: "alerts_good quiet"
  by (simp add: alerts_good_def quiet_def unique_on_def)

lemma noticed_run: "alert_step\<^sup>*\<^sup>* quiet noticed"
proof -
  have "case raiseAlert (drift ErrorSeverity) quiet of Inr (r, s) \<Rightarrow> True | Inl e \<Rightarrow> False" by code_simp
  then show ?thesis unfolding noticed_def alerts_of_def
    by (auto split: sum.splits prod.splits intro: alert_step.raised)
qed

lemma acknowledged_once_run: "alert_step\<^sup>*\<^sup>* noticed acknowledged_once"
proof -
  have "case recordNotified 1 100 noticed of Inr s \<Rightarrow> True | Inl e \<Rightarrow> False" by code_simp
  then have "alert_step noticed told" unfolding told_def by (auto split: sum.splits intro: alert_step.notified)
  moreover have "case acknowledgeAlert (Some 1) 1 9 None told of Inr (r, s) \<Rightarrow> True | Inl e \<Rightarrow> False" by code_simp
  then have "alert_step told acknowledged_once" unfolding acknowledged_once_def alerts_of_def
    by (auto split: sum.splits prod.splits intro: alert_step.acknowledged)
  ultimately show ?thesis by simp
qed

lemma runs_good: "alerts_good noticed" "alerts_good acknowledged_once"
  using alert_run_keeps [OF noticed_run quiet_good] alert_run_keeps [OF acknowledged_once_run] by blast+

theorem one_unresolved_alert_per_subject_witness:
  "\<exists>a. asRows acknowledged_once = [a] \<and> unresolved_subject a \<noteq> None
    \<and> (alertStateAt a 200 = AlertResolved \<longrightarrow> oaEvidence a \<noteq> None)"
proof -
  have "map unresolved_subject (asRows acknowledged_once) = [Some (Some 1, UnsafeDrift, ''mapping'', [])]" by code_simp
  then obtain a where a: "asRows acknowledged_once = [a]" "unresolved_subject a \<noteq> None" by (auto simp: map_eq_Cons_conv)
  have "asRows quiet = []" by (simp add: quiet_def)
  from one_unresolved_alert_per_subject [OF rtranclp_trans [OF noticed_run acknowledged_once_run] this, of 200] a
  show ?thesis by simp
qed

theorem alert_only_worsens_until_resolved_witness:
  "list_all (\<lambda>r. \<exists>r' \<in> set (asRows acknowledged_once). carried r r') (asRows noticed) \<and> length (asRows noticed) = 1"
proof -
  have "length (asRows noticed) = 1" by code_simp
  with alert_only_worsens_until_resolved [OF acknowledged_once_run runs_good(1)] show ?thesis
    by (simp add: list_all_iff)
qed

theorem reminders_follow_the_schedule_witness:
  "\<exists>r. asRows noticed = [r] \<and> oaNextReminder (notified_row 100 r) = Some (100 + 900000)
    \<and> oaNextReminder (reminded 3 100 r) = Some (100 + 28 * HOUR)"
proof -
  have facts: "map (\<lambda>r. (oaId r, oaResolved r, oaAcknowledged r, oaNotified r, oaSeverity r)) (asRows noticed)
      = [(1, None, None, None, ErrorSeverity)]" by code_simp
  then obtain r where r: "asRows noticed = [r]" "oaId r = 1" "oaResolved r = None" "oaAcknowledged r = None"
    "oaNotified r = None" "oaSeverity r = ErrorSeverity" by (auto simp: map_eq_Cons_conv)
  have "case recordNotified 1 100 noticed of Inr s \<Rightarrow> True | Inl e \<Rightarrow> False" by code_simp
  then obtain s where s: "recordNotified 1 100 noticed = Inr s" by (auto split: sum.splits)
  from reminders_follow_the_schedule [OF s runs_good(1) _ r(2-4)] r
  have "\<forall>n. oaNextReminder (reminded n 100 r) = Some (100 + schedule n)"
    by (simp add: REMINDABLE_SEVERITY_RANK_def)
  then have "oaNextReminder (reminded 0 100 r) = Some (100 + schedule 0)"
    "oaNextReminder (reminded 3 100 r) = Some (100 + schedule 3)" by blast+
  with r(1) show ?thesis by (simp add: schedule_def MINUTE_def HOUR_def)
qed

theorem escalation_is_due_at_once_witness:
  "\<exists>res s'. raiseAlert (drift CriticalSeverity) acknowledged_once = Inr (res, s') \<and> reEscalated res
    \<and> (\<exists>r \<in> set (asRows s'). oaNextReminder r = Some (asNow acknowledged_once))"
proof -
  have "case raiseAlert (drift CriticalSeverity) acknowledged_once of Inr (res, s') \<Rightarrow> reEscalated res | Inl e \<Rightarrow> False"
    by code_simp
  then obtain res s' where r: "raiseAlert (drift CriticalSeverity) acknowledged_once = Inr (res, s')" "reEscalated res"
    by (auto split: sum.splits)
  from escalation_is_due_at_once [OF r(1) runs_good(2) r(2)] r show ?thesis by blast
qed

end
