(* ===== verification/Incidents.thy ===== *)
theory Incidents
  imports Alarm
begin

text \<open>
  \<^verbatim>\<open>packages/pilot/src/incidents.ts\<close>: incidents and drills, the pilot evidence a person closes
  (tables of migration 0033), and \<^verbatim>\<open>packages/sync/src/alerts.ts\<close>: the alerts of the synchronization
  core, the first of which files an incident.
\<close>

section \<open>Incidents\<close>

datatype incident_kind = Oversale | Drift | DataLoss | MissedObjective | OtherIncident

datatype classification = Unreviewed | Defect | NotADefect | ExternalCause

record incident =
  icId :: uuid
  icBusiness :: uuid
  icKind :: incident_kind
  icDetected :: instant
  icSummary :: string
  icAlert :: "uuid option"
  icClassification :: classification
  icBy :: "uuid option"
  icAt :: "instant option"
  icFinding :: "string option"
  icResolution :: "string option"

datatype drill_kind = OutageRecovery | CleanInstall | ServerMigration

record drill =
  drId :: uuid
  drKind :: drill_kind
  drPerformed :: instant
  drSucceeded :: bool
  drSummary :: string
  drEvidence :: "string option"
  drBy :: "uuid option"

record evidence =
  evNow :: instant
  evNext :: uuid
  evBusinesses :: "uuid list"
  evIncidents :: "incident list"
  evDrills :: "drill list"

definition incident_check :: "incident \<Rightarrow> exn + unit" where
  "incident_check r = guardR
     ((icClassification r = Unreviewed) = (icBy r = None \<and> icAt r = None \<and> icFinding r = None))
     (CheckViolation ''pilot_incidents_review_is_attributed'')"

definition fileIncident ::
    "uuid \<Rightarrow> incident_kind \<Rightarrow> string \<Rightarrow> uuid option \<Rightarrow> instant option \<Rightarrow> evidence \<Rightarrow> exn + evidence" where
  "fileIncident b kind summary alert detected v =
     (if alert \<noteq> None \<and> list_ex (\<lambda>r. icAlert r = alert) (evIncidents v) then Inr v
      else if b \<notin> set (evBusinesses v) then Inl (ForeignKeyViolation ''pilot_incidents_business_id_fkey'')
      else Inr (v\<lparr>evNext := Suc (evNext v), evIncidents := evIncidents v @
             [\<lparr>icId = evNext v, icBusiness = b, icKind = kind,
               icDetected = (case detected of None \<Rightarrow> evNow v | Some t \<Rightarrow> t), icSummary = summary, icAlert = alert,
               icClassification = Unreviewed, icBy = None, icAt = None, icFinding = None, icResolution = None\<rparr>]\<rparr>))"

datatype classification_result = Classified | NotClassified string

definition classifyIncident ::
    "uuid \<Rightarrow> uuid \<Rightarrow> classification \<Rightarrow> string \<Rightarrow> string option \<Rightarrow> uuid \<Rightarrow> evidence \<Rightarrow> exn + classification_result \<times> evidence" where
  "classifyIncident b i verdict finding resolution actor v =
     (if trim finding = [] then Inr (NotClassified ''say what you found; a classification alone is an opinion'', v)
      else bindR (update_checked (\<lambda>r. icId r = i \<and> icBusiness r = b)
             (\<lambda>r. r\<lparr>icClassification := verdict, icBy := Some actor, icAt := Some (evNow v), icFinding := Some finding,
                    icResolution := resolution\<rparr>) incident_check (evIncidents v)) (\<lambda>rows.
           Inr (if list_ex (\<lambda>r. icId r = i \<and> icBusiness r = b) (evIncidents v) then Classified
                else NotClassified ''no such incident in this business'', v\<lparr>evIncidents := rows\<rparr>)))"

definition unreviewed_first :: "incident \<Rightarrow> incident \<Rightarrow> bool" where
  "unreviewed_first a b \<longleftrightarrow>
     (if (icClassification a = Unreviewed) = (icClassification b = Unreviewed) then icDetected b \<le> icDetected a
      else icClassification a = Unreviewed)"

interpretation incident_order: row_order unreviewed_first
  by unfold_locales (auto simp: unreviewed_first_def split: if_splits)

definition listIncidents :: "uuid \<Rightarrow> nat option \<Rightarrow> evidence \<Rightarrow> incident list" where
  "listIncidents b n v = take (case n of None \<Rightarrow> 50 | Some k \<Rightarrow> k)
     (sort_by unreviewed_first (filter (\<lambda>r. icBusiness r = b) (evIncidents v)))"

definition recordDrill :: "drill_kind \<Rightarrow> bool \<Rightarrow> string \<Rightarrow> string option \<Rightarrow> uuid \<Rightarrow> evidence \<Rightarrow> evidence" where
  "recordDrill kind ok summary ref actor v = v\<lparr>evNext := Suc (evNext v), evDrills := evDrills v @
     [\<lparr>drId = evNext v, drKind = kind, drPerformed = evNow v, drSucceeded = ok, drSummary = summary,
       drEvidence = ref, drBy = Some actor\<rparr>]\<rparr>"

definition newer_drill :: "drill \<Rightarrow> drill \<Rightarrow> bool" where
  "newer_drill a b \<longleftrightarrow> drPerformed b \<le> drPerformed a"

interpretation drill_order: row_order newer_drill
  by unfold_locales (auto simp: newer_drill_def)

definition listDrills :: "nat option \<Rightarrow> evidence \<Rightarrow> drill list" where
  "listDrills n v = take (case n of None \<Rightarrow> 25 | Some k \<Rightarrow> k) (sort_by newer_drill (evDrills v))"

section \<open>Alerts of the synchronization core\<close>

definition business_alert :: "uuid \<Rightarrow> alert_kind \<Rightarrow> severity \<Rightarrow> string \<Rightarrow> string \<Rightarrow> string \<Rightarrow> json_object \<Rightarrow> raise_input" where
  "business_alert b kind level subject summary action detail =
     \<lparr>raBusiness = Some b, raKind = kind, raSeverity = Some level, raSubject = subject, raVersion = None,
      raSummary = summary, raAction = Some action, raDetail = detail, raMapping = None, raItem = None,
      raConnection = None, raConflict = None, raJob = None\<rparr>"

definition alertOversold ::
    "uuid \<Rightarrow> uuid \<Rightarrow> string \<Rightarrow> int \<Rightarrow> alerts \<Rightarrow> evidence \<Rightarrow> (exn + raised_alert) \<times> alerts \<times> evidence" where
  "alertOversold b item order shortage s v =
     (case raiseAlert ((business_alert b Oversold CriticalSeverity (''item:'' @ uuid_text item)
         (''an order could not be filled in full: '' @ number_text shortage @ '' units short'')
         ''Check the item for stock that has not been counted, then adjust or cancel the affected order lines.''
         [(''externalOrderId'', JsonText order), (''shortage'', JsonNumber shortage)])\<lparr>raItem := Some item\<rparr>) s of
        Inl e \<Rightarrow> (Inl e, s, v)
      | Inr (raised, s1) \<Rightarrow>
          (case fileIncident b Oversale (number_text shortage @ '' units short on order '' @ order) (Some (reAlert raised)) None v of
             Inl e \<Rightarrow> (Inl e, s1, v)
           | Inr v1 \<Rightarrow> (Inr raised, s1, v1)))"

definition alertMappingBlocked :: "uuid \<Rightarrow> uuid \<Rightarrow> string \<Rightarrow> alerts \<Rightarrow> exn + raised_alert \<times> alerts" where
  "alertMappingBlocked b mapping reason = raiseAlert ((business_alert b MappingBlocked CriticalSeverity
     (''mapping:'' @ uuid_text mapping) (''this channel mapping has stopped synchronizing: '' @ reason)
     ''Open the mapping and clear the reason it is blocked, then retry the write.''
     [(''reason'', JsonText reason)])\<lparr>raMapping := Some mapping\<rparr>)"

definition alertJobDeadLettered :: "uuid \<Rightarrow> uuid \<Rightarrow> string \<Rightarrow> string \<Rightarrow> alerts \<Rightarrow> exn + raised_alert \<times> alerts" where
  "alertJobDeadLettered b job kind reason = raiseAlert ((business_alert b JobDeadLettered WarningSeverity
     (''job:'' @ uuid_text job) (kind @ '' gave up after repeated failures: '' @ reason)
     ''Deal with the cause, then replay the job from the dead-letter list.''
     [(''jobKind'', JsonText kind), (''reason'', JsonText reason)])\<lparr>raJob := Some job\<rparr>)"

definition alertConflict :: "uuid \<Rightarrow> uuid \<Rightarrow> uuid option \<Rightarrow> string \<Rightarrow> alerts \<Rightarrow> exn + raised_alert \<times> alerts" where
  "alertConflict b conflict mapping summary = raiseAlert ((business_alert b ReconciliationConflict CriticalSeverity
     (''conflict:'' @ uuid_text conflict) summary
     ''Open the conflict and choose which side of the disagreement is correct.'' [])
     \<lparr>raConflict := Some conflict, raMapping := mapping\<rparr>)"

lemma alertOversold_parts:
  assumes "alertOversold b item order n s v = (Inr res, s', v')"
  obtains input where "raiseAlert input s = Inr (res, s')"
    "\<And>s. unresolved_subject (raised_row input s) = Some (Some b, Oversold, ''item:'' @ uuid_text item, [])"
    "fileIncident b Oversale (number_text n @ '' units short on order '' @ order) (Some (reAlert res)) None v = Inr v'"
proof -
  let ?input = "(business_alert b Oversold CriticalSeverity (''item:'' @ uuid_text item)
         (''an order could not be filled in full: '' @ number_text n @ '' units short'')
         ''Check the item for stock that has not been counted, then adjust or cancel the affected order lines.''
         [(''externalOrderId'', JsonText order), (''shortage'', JsonNumber n)])\<lparr>raItem := Some item\<rparr>"
  have "unresolved_subject (raised_row ?input s) = Some (Some b, Oversold, ''item:'' @ uuid_text item, [])" for s
    by (simp add: unresolved_subject_def raised_row_def business_alert_def text_or_def)
  with assms show thesis unfolding alertOversold_def
    by (intro that [of ?input]) (simp_all split: sum.splits prod.splits)
qed

text \<open>
  Every shortage of one item is one thing to look at: while its alert is unresolved, another
  oversold order of the item joins the alert and files no second incident.
\<close>

theorem repeated_oversale_is_one_incident:
  assumes "alerts_good s" and "alertOversold b item order1 n1 s v = (Inr r1, s1, v1)"
    and "alertOversold b item order2 n2 s1 v1 = (Inr r2, s2, v2)"
  shows "reAlert r2 = reAlert r1 \<and> reOccurrences r2 = reOccurrences r1 + 1 \<and> length (asRows s2) = length (asRows s1)
    \<and> list_ex (\<lambda>i. icAlert i = Some (reAlert r1)) (evIncidents v1) \<and> evIncidents v2 = evIncidents v1"
proof -
  obtain i1 where 1: "raiseAlert i1 s = Inr (r1, s1)"
      "\<And>s. unresolved_subject (raised_row i1 s) = Some (Some b, Oversold, ''item:'' @ uuid_text item, [])"
      "fileIncident b Oversale (number_text n1 @ '' units short on order '' @ order1) (Some (reAlert r1)) None v = Inr v1"
    by (rule alertOversold_parts [OF assms(2)]) (rule that; assumption)
  obtain i2 where 2: "raiseAlert i2 s1 = Inr (r2, s2)"
      "\<And>s. unresolved_subject (raised_row i2 s) = Some (Some b, Oversold, ''item:'' @ uuid_text item, [])"
      "fileIncident b Oversale (number_text n2 @ '' units short on order '' @ order2) (Some (reAlert r2)) None v1 = Inr v2"
    by (rule alertOversold_parts [OF assms(3)]) (rule that; assumption)
  note first = raised_once_more [OF 1(1) assms(1)]
  from first(2) obtain x where x: "x \<in> set (asRows s1)" "oaId x = reAlert r1" "oaOccurrences x = reOccurrences r1"
    "unresolved_subject x = unresolved_subject (raised_row i1 s)" by blast
  have "unresolved_subject x = unresolved_subject (raised_row i2 s1)" using x(4) 1(2) 2(2) by simp
  with raised_once_more(3) [OF 2(1) first(1) x(1)] x
  have same: "reAlert r2 = reAlert r1" "reOccurrences r2 = reOccurrences r1 + 1" "length (asRows s2) = length (asRows s1)" by simp_all
  have "list_ex (\<lambda>i. icAlert i = Some (reAlert r1)) (evIncidents v1)"
    using 1(3) by (auto simp: fileIncident_def split: if_splits)
  with same 2(3) show ?thesis by (auto simp: fileIncident_def)
qed

definition no_evidence :: evidence where
  "no_evidence = \<lparr>evNow = 100, evNext = 1, evBusinesses = [1], evIncidents = [], evDrills = []\<rparr>"

theorem repeated_oversale_is_one_incident_witness:
  "\<exists>r1 s1 v1 r2 s2 v2. alertOversold 1 21 ''o1'' 2 quiet no_evidence = (Inr r1, s1, v1)
    \<and> alertOversold 1 21 ''o2'' 5 s1 v1 = (Inr r2, s2, v2) \<and> reAlert r2 = reAlert r1 \<and> evIncidents v2 = evIncidents v1"
proof -
  obtain o1 s1 v1 where a: "alertOversold 1 21 ''o1'' 2 quiet no_evidence = (o1, s1, v1)" by (metis prod_cases3)
  obtain o2 s2 v2 where b: "alertOversold 1 21 ''o2'' 5 s1 v1 = (o2, s2, v2)" by (metis prod_cases3)
  have "case alertOversold 1 21 ''o1'' 2 quiet no_evidence of (o1, s1, v1) \<Rightarrow>
      (case alertOversold 1 21 ''o2'' 5 s1 v1 of (o2, s2, v2) \<Rightarrow> isl o1 = False \<and> isl o2 = False)" by code_simp
  with a b obtain r1 r2 where "o1 = Inr r1" "o2 = Inr r2" by (cases o1; cases o2) auto
  with a b have "alertOversold 1 21 ''o1'' 2 quiet no_evidence = (Inr r1, s1, v1)"
    "alertOversold 1 21 ''o2'' 5 s1 v1 = (Inr r2, s2, v2)" by simp_all
  moreover from repeated_oversale_is_one_incident [OF quiet_good this] have "reAlert r2 = reAlert r1" "evIncidents v2 = evIncidents v1" by simp_all
  ultimately show ?thesis by blast
qed

end
