(* ===== verification/Outcomes.thy ===== *)
theory Outcomes
  imports Payload
begin

text \<open>
  \<^verbatim>\<open>packages/providers/src/outcomes.ts\<close> and the part of \<^verbatim>\<open>adapter.ts\<close> the synchronization core
  calls: how a provider call reports what happened. A \<open>ProviderResult\<close> is a success or one of six
  failures. An adapter is a function of the world it is called in: \<open>'w\<close> is that world, so a call
  may take time in which everything else moves, and a thrown exception is \<open>Inl\<close>.
\<close>

section \<open>Outcomes\<close>

datatype provider_failure =
    RateLimited int "int option"
  | Unauthorized bool string
  | NotFound string
  | Conflict string "string option"
  | Rejected string "string option"
  | Unavailable string "int option"

datatype 'a provider_result = Success 'a | Failure provider_failure

definition isSuccess :: "'a provider_result \<Rightarrow> bool" where
  "isSuccess r \<longleftrightarrow> (case r of Success _ \<Rightarrow> True | Failure _ \<Rightarrow> False)"

fun isRetryable :: "'a provider_result \<Rightarrow> bool" where
  "isRetryable (Failure (RateLimited ms left)) = True"
| "isRetryable (Failure (Unavailable m code)) = True"
| "isRetryable (Success v) = False"
| "isRetryable (Failure (Unauthorized revoked m)) = False"
| "isRetryable (Failure (NotFound m)) = False"
| "isRetryable (Failure (Rejected m code)) = False"
| "isRetryable (Failure (Conflict m version)) = False"

text \<open>\<open>failure.status\<close>\<close>

fun failure_status :: "provider_failure \<Rightarrow> string" where
  "failure_status (RateLimited ms left) = ''rate_limited''"
| "failure_status (Unauthorized revoked m) = ''unauthorized''"
| "failure_status (NotFound m) = ''not_found''"
| "failure_status (Conflict m version) = ''conflict''"
| "failure_status (Rejected m code) = ''rejected''"
| "failure_status (Unavailable m code) = ''unavailable''"

fun describeFailure :: "provider_failure \<Rightarrow> string" where
  "describeFailure (RateLimited ms left) = ''rate limited, retry after '' @ number_text ms @ ''ms''"
| "describeFailure (Unauthorized revoked m) =
     (if revoked then ''authorization revoked; the connection must be reauthorized'' else ''credentials rejected'')"
| "describeFailure (NotFound m) = ''the provider no longer has this entity''"
| "describeFailure (Conflict m version) = ''the provider state changed during the write''"
| "describeFailure (Rejected m code) = ''the provider rejected the request''
     @ (case code of None \<Rightarrow> [] | Some c \<Rightarrow> '' ('' @ c @ '')'')"
| "describeFailure (Unavailable m code) = ''the provider is unavailable''"

section \<open>The adapter\<close>

record entity_ref =
  enExternal :: string
  enVariation :: "string option"

record quantity_write =
  qwEntity :: entity_ref
  qwQuantity :: int
  qwExpected :: "string option"
  qwKey :: string

record acknowledgement =
  akEntity :: entity_ref
  akVersion :: "string option"
  akUnchanged :: bool

record quantity_read =
  qrEntity :: entity_ref
  qrQuantity :: int
  qrVersion :: "string option"
  qrBackorders :: "bool option"

record 'w adapter =
  adWrite :: "quantity_write list \<Rightarrow> 'w \<Rightarrow> (exn + acknowledgement provider_result list provider_result) \<times> 'w"
  adRead :: "entity_ref list \<Rightarrow> 'w \<Rightarrow> (exn + quantity_read list provider_result) \<times> 'w"

text \<open>\<open>ChannelAdapterFactory\<close>: decrypting a credential may throw.\<close>

type_synonym 'w adapter_factory = "uuid \<Rightarrow> 'w \<Rightarrow> (exn + 'w adapter) \<times> 'w"

end
