(* ===== verification/Targets.thy ===== *)
theory Targets
  imports Projection Pilot Queue
begin

text \<open>
  \<^verbatim>\<open>packages/sync/src/targets.ts\<close>: what each channel should advertise, and how a change reaches it.
  The tables are those of migration 0015. A target row holds the newest desired quantity under a
  version that only increases; a write job carries the version it was queued for. A \<open>hub\<close> joins the
  tables a ledger movement reaches: the stock and its mappings, the queue, the pilot and the targets.
\<close>

section \<open>Tables\<close>

datatype target_state = TargetPending | TargetConverged | TargetDegraded | TargetBlocked

datatype write_outcome = WriteSent | WriteAcknowledged | WriteUnchanged | WriteFailed | WriteSuperseded

record target =
  ctBusiness :: uuid
  ctMapping :: uuid
  ctVersion :: int
  ctDesired :: int
  ctReason :: "string option"
  ctWritten :: "int option"
  ctWrittenQuantity :: "int option"
  ctObserved :: "int option"
  ctObservedVersion :: "string option"
  ctBackorders :: "bool option"
  ctState :: target_state
  ctStateReason :: "string option"
  ctFailures :: int

record write_attempt =
  waId :: uuid
  waBusiness :: uuid
  waMapping :: uuid
  waJob :: "uuid option"
  waVersion :: int
  waQuantity :: int
  waKey :: string
  waOutcome :: "write_outcome option"
  waFailure :: "string option"
  waDetail :: "string option"
  waVerified :: "int option"
  waFinished :: "instant option"

record targets =
  tgNow :: instant
  tgNext :: uuid
  tgMappings :: "(uuid \<times> uuid) list"
  tgJobs :: "uuid list"
  tgRows :: "target list"
  tgAttempts :: "write_attempt list"

definition opt_int4 :: "int option \<Rightarrow> bool" where
  "opt_int4 n = (case n of None \<Rightarrow> True | Some k \<Rightarrow> int4 k)"

definition target_check :: "target \<Rightarrow> exn + unit" where
  "target_check r = check_all [
     (int4 (ctDesired r) \<and> opt_int4 (ctWrittenQuantity r) \<and> opt_int4 (ctObserved r) \<and> int4 (ctFailures r),
        NumericValueOutOfRange),
     (0 \<le> ctDesired r, CheckViolation ''channel_targets_quantity_not_negative''),
     (case ctWritten r of None \<Rightarrow> True | Some w \<Rightarrow> w \<le> ctVersion r, CheckViolation ''channel_targets_written_not_ahead'')]"

definition update_targets :: "(target \<Rightarrow> bool) \<Rightarrow> (target \<Rightarrow> target) \<Rightarrow> targets \<Rightarrow> exn + targets" where
  "update_targets p f t = bindR (update_checked p f target_check (tgRows t)) (\<lambda>rows. Inr (t\<lparr>tgRows := rows\<rparr>))"

definition update_attempts_of :: "uuid \<Rightarrow> (write_attempt \<Rightarrow> write_attempt) \<Rightarrow> targets \<Rightarrow> targets" where
  "update_attempts_of i f t = t\<lparr>tgAttempts := update_where (\<lambda>a. waId a = i) f (tgAttempts t)\<rparr>"

section \<open>Desired targets\<close>

definition CHANNEL_WRITE_JOB :: string where
  "CHANNEL_WRITE_JOB = ''channel.write''"

definition mappingSerializationKey :: "uuid \<Rightarrow> string" where
  "mappingSerializationKey mapping = ''mapping:'' @ uuid_text mapping"

record desired_input =
  diBusiness :: uuid
  diMapping :: uuid
  diConnection :: uuid
  diQuantity :: int
  diReason :: string

record desired_result =
  ddVersion :: int
  ddQuantity :: int
  ddChanged :: bool

definition written_or :: "target \<Rightarrow> int" where
  "written_or r = (case ctWritten r of None \<Rightarrow> - 1 | Some w \<Rightarrow> w)"

definition desired_row :: "desired_input \<Rightarrow> target" where
  "desired_row input = \<lparr>ctBusiness = diBusiness input, ctMapping = diMapping input, ctVersion = 1,
     ctDesired = diQuantity input, ctReason = Some (diReason input), ctWritten = None, ctWrittenQuantity = None,
     ctObserved = None, ctObservedVersion = None, ctBackorders = None, ctState = TargetPending,
     ctStateReason = None, ctFailures = 0\<rparr>"

definition redesired :: "desired_input \<Rightarrow> target \<Rightarrow> target" where
  "redesired input r =
     (let moved = (ctDesired r \<noteq> diQuantity input)
      in r\<lparr>ctDesired := diQuantity input, ctReason := Some (diReason input),
           ctVersion := ctVersion r + (if moved then 1 else 0),
           ctState := (if moved then TargetPending else ctState r)\<rparr>)"

definition readTarget :: "uuid \<Rightarrow> targets \<Rightarrow> target option" where
  "readTarget mapping t = lookup_by ctMapping mapping (tgRows t)"

definition recordDesiredTarget :: "desired_input \<Rightarrow> targets \<Rightarrow> exn + desired_result \<times> targets" where
  "recordDesiredTarget input t =
     bindR (target_check (desired_row input)) (\<lambda>_.
     bindR (case readTarget (diMapping input) t of
              Some r \<Rightarrow> bindR (update_targets (\<lambda>x. ctMapping x = diMapping input) (redesired input) t) (\<lambda>t1.
                        Inr (redesired input r, t1))
            | None \<Rightarrow>
                if (diBusiness input, diMapping input) \<in> set (tgMappings t)
                then Inr (desired_row input, t\<lparr>tgRows := tgRows t @ [desired_row input]\<rparr>)
                else Inl (ForeignKeyViolation ''channel_targets_mapping_fkey'')) (\<lambda>(r, t1).
     Inr (\<lparr>ddVersion = ctVersion r, ddQuantity = ctDesired r, ddChanged = (written_or r < ctVersion r)\<rparr>, t1)))"

section \<open>Write attempts\<close>

definition idempotency_key :: "uuid \<Rightarrow> int \<Rightarrow> string" where
  "idempotency_key mapping version = uuid_text mapping @ '':'' @ number_text version"

record attempt_input =
  wiBusiness :: uuid
  wiMapping :: uuid
  wiJob :: uuid
  wiVersion :: int
  wiQuantity :: int

definition begun_attempt :: "attempt_input \<Rightarrow> uuid \<Rightarrow> write_attempt" where
  "begun_attempt input i = \<lparr>waId = i, waBusiness = wiBusiness input, waMapping = wiMapping input,
     waJob = Some (wiJob input), waVersion = wiVersion input, waQuantity = wiQuantity input,
     waKey = idempotency_key (wiMapping input) (wiVersion input), waOutcome = Some WriteSent, waFailure = None,
     waDetail = None, waVerified = None, waFinished = None\<rparr>"

definition same_attempt :: "uuid \<Rightarrow> string \<Rightarrow> write_attempt \<Rightarrow> bool" where
  "same_attempt mapping key a \<longleftrightarrow> waMapping a = mapping \<and> waKey a = key"

definition beginWriteAttempt :: "attempt_input \<Rightarrow> targets \<Rightarrow> exn + (uuid \<times> string) \<times> targets" where
  "beginWriteAttempt input t =
     (let key = idempotency_key (wiMapping input) (wiVersion input)
      in if \<not> int4 (wiQuantity input) then Inl NumericValueOutOfRange
         else case List.find (same_attempt (wiMapping input) key) (tgAttempts t) of
           Some a \<Rightarrow> Inr ((waId a, key),
             update_attempts_of (waId a) (\<lambda>x. x\<lparr>waOutcome := Some WriteSent, waFinished := None\<rparr>) t)
         | None \<Rightarrow>
             if (wiBusiness input, wiMapping input) \<notin> set (tgMappings t)
             then Inl (ForeignKeyViolation ''channel_write_attempts_mapping_fkey'')
             else if wiJob input \<notin> set (tgJobs t)
             then Inl (ForeignKeyViolation ''channel_write_attempts_job_id_fkey'')
             else Inr ((tgNext t, key), t\<lparr>tgNext := Suc (tgNext t),
                    tgAttempts := tgAttempts t @ [begun_attempt input (tgNext t)]\<rparr>))"

datatype write_settlement =
    Acknowledged "string option"
  | Unchanged "string option"
  | FailedWrite string string
  | SupersededWrite string

definition settled_attempt :: "write_settlement \<Rightarrow> instant \<Rightarrow> write_attempt \<Rightarrow> write_attempt" where
  "settled_attempt s now a = a\<lparr>
     waOutcome := Some (case s of Acknowledged _ \<Rightarrow> WriteAcknowledged | Unchanged _ \<Rightarrow> WriteUnchanged
                        | FailedWrite _ _ \<Rightarrow> WriteFailed | SupersededWrite _ \<Rightarrow> WriteSuperseded),
     waFailure := (case s of FailedWrite kind _ \<Rightarrow> Some kind | _ \<Rightarrow> None),
     waDetail := (case s of FailedWrite _ detail \<Rightarrow> Some detail | SupersededWrite detail \<Rightarrow> Some detail | _ \<Rightarrow> None),
     waFinished := Some now\<rparr>"

definition written_row :: "int \<Rightarrow> int \<Rightarrow> string option \<Rightarrow> target \<Rightarrow> target" where
  "written_row version quantity observed r = r\<lparr>ctWritten := Some version, ctWrittenQuantity := Some quantity,
     ctObservedVersion := (case observed of None \<Rightarrow> ctObservedVersion r | Some v \<Rightarrow> Some v), ctFailures := 0,
     ctState := (if ctVersion r = version then TargetConverged else TargetPending), ctStateReason := None\<rparr>"

text \<open>
  The attempt is settled by a statement of its own, so it stays settled when the target's update
  is refused.
\<close>

definition settleWriteAttempt ::
    "uuid \<Rightarrow> uuid \<Rightarrow> int \<Rightarrow> int \<Rightarrow> write_settlement \<Rightarrow> targets \<Rightarrow> (exn + unit) \<times> targets" where
  "settleWriteAttempt attempt mapping version quantity s t =
     (let t1 = update_attempts_of attempt (settled_attempt s (tgNow t)) t;
          finish = (\<lambda>p f. case update_targets p f t1 of Inl e \<Rightarrow> (Inl e, t1) | Inr t2 \<Rightarrow> (Inr (), t2));
          written = (\<lambda>observed. finish (\<lambda>r. ctMapping r = mapping \<and> written_or r < version) (written_row version quantity observed))
      in case s of
           SupersededWrite _ \<Rightarrow> (Inr (), t1)
         | FailedWrite _ detail \<Rightarrow> finish (\<lambda>r. ctMapping r = mapping)
             (\<lambda>r. r\<lparr>ctState := TargetDegraded, ctStateReason := Some detail, ctFailures := ctFailures r + 1\<rparr>)
         | Acknowledged observed \<Rightarrow> written observed
         | Unchanged observed \<Rightarrow> written observed)"

record observation =
  obMapping :: uuid
  obQuantity :: int
  obVersion :: "string option"
  obBackorders :: "bool option"
  obAttempt :: "uuid option"

definition recordObservation :: "observation \<Rightarrow> targets \<Rightarrow> exn + targets" where
  "recordObservation ob t =
     bindR (update_targets (\<lambda>r. ctMapping r = obMapping ob)
        (\<lambda>r. r\<lparr>ctObserved := Some (obQuantity ob),
               ctObservedVersion := (case obVersion ob of None \<Rightarrow> ctObservedVersion r | Some v \<Rightarrow> Some v),
               ctBackorders := (case obBackorders ob of None \<Rightarrow> ctBackorders r | Some v \<Rightarrow> Some v)\<rparr>) t) (\<lambda>t1.
     Inr (case obAttempt ob of None \<Rightarrow> t1
          | Some a \<Rightarrow> update_attempts_of a (\<lambda>x. x\<lparr>waVerified := Some (obQuantity ob)\<rparr>) t1))"

definition blockTarget :: "uuid \<Rightarrow> string \<Rightarrow> targets \<Rightarrow> exn + targets" where
  "blockTarget mapping reason = update_targets (\<lambda>r. ctMapping r = mapping)
     (\<lambda>r. r\<lparr>ctState := TargetBlocked, ctStateReason := Some reason\<rparr>)"

text \<open>The comparison at the end of a verification read.\<close>

definition verified_row :: "bool \<Rightarrow> string \<Rightarrow> target \<Rightarrow> target" where
  "verified_row agrees reason r = r\<lparr>
     ctState := (if agrees \<and> ctWritten r = Some (ctVersion r) then TargetConverged
                 else if agrees then TargetPending else TargetDegraded),
     ctStateReason := (if agrees then None else Some reason)\<rparr>"

section \<open>From the ledger to the queue\<close>

record hub =
  hbMarket :: market
  hbQueue :: queue
  hbPilot :: pilot
  hbTargets :: targets

text \<open>The tables the targets refer to.\<close>

definition targets_of :: "hub \<Rightarrow> targets" where
  "targets_of h = (hbTargets h)\<lparr>tgMappings := map (\<lambda>r. (mpBusiness r, mpId r)) (mkMappings (hbMarket h)),
     tgJobs := map jbId (quJobs (hbQueue h))\<rparr>"

definition write_job :: "uuid \<Rightarrow> uuid \<Rightarrow> uuid \<Rightarrow> int \<Rightarrow> bool \<Rightarrow> enqueue_input" where
  "write_job b connection mapping version protective =
     \<lparr>eqKind = CHANNEL_WRITE_JOB, eqBusiness = Some b, eqConnection = Some connection,
      eqPriority = Some (if protective then priority_protectiveWrite else priority_inventoryWrite),
      eqSerialization = Some (mappingSerializationKey mapping), eqDedupe = None,
      eqPayload = Some [(''mappingId'', JsonId mapping), (''targetVersion'', JsonNumber version)],
      eqRunAt = None, eqMaxAttempts = None, eqWindow = None\<rparr>"

definition enqueueChannelWrite :: "uuid \<Rightarrow> uuid \<Rightarrow> uuid \<Rightarrow> int \<Rightarrow> bool \<Rightarrow> queue \<Rightarrow> exn + queue" where
  "enqueueChannelWrite b connection mapping version protective q =
     bindR (enqueue (write_job b connection mapping version protective) id q) (\<lambda>(j, q1). Inr q1)"

definition protective :: "channel_projection \<Rightarrow> bool" where
  "protective c = (case cpQuantity c of None \<Rightarrow> False | Some n \<Rightarrow> cpCurrent c < n)"

definition refresh_channel ::
    "uuid \<Rightarrow> string \<Rightarrow> change_origin \<Rightarrow> channel_projection \<Rightarrow> desired_result list \<times> hub \<Rightarrow> exn + desired_result list \<times> hub" where
  "refresh_channel b reason origin c acc =
     (let results = fst acc; h = snd acc
      in if \<not> cpWritable c \<or> cpSuppressed c then Inr acc
         else bindR (recordDesiredTarget \<lparr>diBusiness = b, diMapping = cpMapping c, diConnection = cpConnection c,
                       diQuantity = cpCurrent c, diReason = reason\<rparr> (targets_of h)) (\<lambda>(d, t).
              let h1 = h\<lparr>hbTargets := t\<rparr>
              in if \<not> ddChanged d then Inr (results @ [d], h1)
                 else bindR (openSample \<lparr>spBusiness = b, spMapping = cpMapping c, spConnection = cpConnection c,
                               spVersion = ddVersion d, spQuantity = ddQuantity d, spOrigin = origin\<rparr> (hbPilot h1)) (\<lambda>p.
                      bindR (enqueueChannelWrite b (cpConnection c) (cpMapping c) (ddVersion d) (protective c) (hbQueue h1)) (\<lambda>q.
                      Inr (results @ [d], h1\<lparr>hbPilot := p, hbQueue := q\<rparr>)))))"

definition refreshTargetsForItem ::
    "uuid \<Rightarrow> uuid \<Rightarrow> string \<Rightarrow> change_origin \<Rightarrow> hub \<Rightarrow> exn + desired_result list \<times> hub" where
  "refreshTargetsForItem b item reason origin h =
     bindR (projectItem (hbMarket h) b item []) (\<lambda>p.
     case p of
       None \<Rightarrow> Inr ([], h)
     | Some projection \<Rightarrow> foldR (refresh_channel b reason origin) (ipChannels projection) ([], h))"

end
