(* ===== verification/Delivery.thy ===== *)
theory Delivery
  imports Targets
begin

text \<open>
  The life of channel targets under any interleaving. A worker reads a target, calls the provider
  and writes what happened back later, when the target may have moved on; the second component of
  the state is what has been read so far, and attempts and settlements carry something from it.
\<close>

section \<open>Steps\<close>

type_synonym reading = "uuid \<times> int \<times> int"

inductive target_step :: "targets \<times> reading set \<Rightarrow> targets \<times> reading set \<Rightarrow> bool" where
  desired: "recordDesiredTarget input t = Inr (d, t') \<Longrightarrow> target_step (t, S) (t', S)"
| read: "readTarget m t = Some r \<Longrightarrow> target_step (t, S) (t, insert (m, ctVersion r, ctDesired r) S)"
| begun: "(wiMapping i, wiVersion i, wiQuantity i) \<in> S \<Longrightarrow> beginWriteAttempt i t = Inr (a, t') \<Longrightarrow> target_step (t, S) (t', S)"
| settled: "(m, v, q) \<in> S \<Longrightarrow> settleWriteAttempt a m v q s t = (x, t') \<Longrightarrow> target_step (t, S) (t', S)"
| observed: "recordObservation ob t = Inr t' \<Longrightarrow> target_step (t, S) (t', S)"
| blocked: "blockTarget m reason t = Inr t' \<Longrightarrow> target_step (t, S) (t', S)"
| verified: "update_targets (\<lambda>r. ctMapping r = m) (verified_row agrees reason) t = Inr t' \<Longrightarrow> target_step (t, S) (t', S)"
| elsewhere: "target_step (t, S) (t\<lparr>tgNow := now, tgMappings := ms, tgJobs := js\<rparr>, S)"

inductive_cases target_stepE: "target_step (t, S) (t', S')"

section \<open>The invariant\<close>

interpretation target_table: row_table ctMapping
  by unfold_locales

definition row_ok :: "reading set \<Rightarrow> target \<Rightarrow> bool" where
  "row_ok S r \<longleftrightarrow> 1 \<le> ctVersion r
     \<and> (\<forall>w. ctWritten r = Some w \<longrightarrow> 1 \<le> w \<and> (\<exists>q. ctWrittenQuantity r = Some q \<and> (ctMapping r, w, q) \<in> S))
     \<and> (ctState r = TargetConverged \<longrightarrow> ctWritten r = Some (ctVersion r))"

definition kept_by :: "target list \<Rightarrow> reading \<Rightarrow> bool" where
  "kept_by rows x \<longleftrightarrow> (case x of (m, v, q) \<Rightarrow> 1 \<le> v \<and> (\<exists>r \<in> set rows. ctMapping r = m \<and> v \<le> ctVersion r \<and> (v = ctVersion r \<longrightarrow> q = ctDesired r)))"

definition attempt_ok :: "reading set \<Rightarrow> write_attempt \<Rightarrow> bool" where
  "attempt_ok S a \<longleftrightarrow> (waMapping a, waVersion a, waQuantity a) \<in> S \<and> waKey a = idempotency_key (waMapping a) (waVersion a)"

definition targets_good :: "targets \<times> reading set \<Rightarrow> bool" where
  "targets_good x \<longleftrightarrow> (case x of (t, S) \<Rightarrow> distinct (map ctMapping (tgRows t)) \<and> (\<forall>r \<in> set (tgRows t). row_ok S r)
     \<and> (\<forall>y \<in> S. kept_by (tgRows t) y) \<and> (\<forall>a \<in> set (tgAttempts t). attempt_ok S a)
     \<and> (\<forall>m v q q'. (m, v, q) \<in> S \<longrightarrow> (m, v, q') \<in> S \<longrightarrow> q = q'))"

text \<open>How a target may change: its version and what was written only go forward.\<close>

definition advanced :: "target \<Rightarrow> target \<Rightarrow> bool" where
  "advanced r r' \<longleftrightarrow> ctMapping r' = ctMapping r \<and> ctVersion r \<le> ctVersion r' \<and> written_or r \<le> written_or r'
     \<and> (ctVersion r' = ctVersion r \<longrightarrow> ctDesired r' = ctDesired r)"

lemma advanced_refl [simp]: "advanced r r"
  by (simp add: advanced_def)

lemma advanced_trans: "advanced r r1 \<Longrightarrow> advanced r1 r2 \<Longrightarrow> advanced r r2"
  by (auto simp: advanced_def)

definition advances :: "targets \<Rightarrow> targets \<Rightarrow> bool" where
  "advances t t' \<longleftrightarrow> (\<forall>r \<in> set (tgRows t). \<exists>r' \<in> set (tgRows t'). advanced r r')"

lemma kept_by_advances: "advances t t' \<Longrightarrow> kept_by (tgRows t) y \<Longrightarrow> kept_by (tgRows t') y"
proof -
  assume a: "advances t t'" and k: "kept_by (tgRows t) y"
  obtain m v q where y: "y = (m, v, q)" by (cases y)
  with k obtain r where v: "1 \<le> v" and r: "r \<in> set (tgRows t)" "ctMapping r = m" "v \<le> ctVersion r"
    "v = ctVersion r \<longrightarrow> q = ctDesired r" by (auto simp: kept_by_def)
  from a r(1) obtain r' where r': "r' \<in> set (tgRows t')" "advanced r r'" by (auto simp: advances_def)
  then have "ctMapping r' = m" "v \<le> ctVersion r'" "v = ctVersion r' \<longrightarrow> q = ctDesired r'"
    using r by (auto simp: advanced_def)
  with v y r'(1) show "kept_by (tgRows t') y" by (auto simp: kept_by_def)
qed

text \<open>An update of the rows that advances each of them keeps the invariant.\<close>

lemma rows_good:
  assumes "targets_good (t, S)" and "tgRows t' = update_where p f (tgRows t)" and "tgAttempts t' = tgAttempts t"
    and "\<And>r. r \<in> set (tgRows t) \<Longrightarrow> p r \<Longrightarrow> row_ok S r \<Longrightarrow> advanced r (f r) \<and> row_ok S (f r)"
  shows "targets_good (t', S) \<and> advances t t'"
proof -
  note good = assms(1) [unfolded targets_good_def, simplified]
  have f: "r \<in> set (tgRows t) \<Longrightarrow> p r \<Longrightarrow> advanced r (f r) \<and> row_ok S (f r)" for r using assms(4) good by blast
  have adv: "advances t t'"
    unfolding advances_def
  proof
    fix r
    assume r: "r \<in> set (tgRows t)"
    then have "(if p r then f r else r) \<in> set (tgRows t')" by (auto simp: assms(2) set_update_where)
    moreover have "advanced r (if p r then f r else r)" using f [OF r] by simp
    ultimately show "\<exists>r' \<in> set (tgRows t'). advanced r r'" by blast
  qed
  have "map ctMapping (tgRows t') = map ctMapping (tgRows t)"
    unfolding assms(2) by (rule map_update_where) (use f in \<open>auto simp: advanced_def\<close>)
  moreover have "\<forall>r \<in> set (tgRows t'). row_ok S r"
    unfolding assms(2) set_update_where using good f by auto
  ultimately show ?thesis using good adv kept_by_advances [OF adv] assms(3) by (simp add: targets_good_def)
qed

lemma update_targets_Inr:
  "update_targets p f t = Inr t' \<Longrightarrow> t' = t\<lparr>tgRows := update_where p f (tgRows t)\<rparr>"
  by (auto simp: update_targets_def result_simps update_checked_Inr)

lemma updated_good:
  assumes "update_targets p f t = Inr t'" "targets_good (t, S)"
    and "\<And>r. r \<in> set (tgRows t) \<Longrightarrow> p r \<Longrightarrow> row_ok S r \<Longrightarrow> advanced r (f r) \<and> row_ok S (f r)"
  shows "targets_good (t', S) \<and> advances t t'"
proof (rule rows_good [OF assms(2)])
  show "tgRows t' = update_where p f (tgRows t)" "tgAttempts t' = tgAttempts t"
    using update_targets_Inr [OF assms(1)] by simp_all
qed (rule assms(3))

lemma advances_rows: "set (tgRows t) \<subseteq> set (tgRows t') \<Longrightarrow> advances t t'"
  unfolding advances_def using advanced_refl by blast

lemma advances_refl [simp]: "advances t t"
  by (rule advances_rows) simp

lemma attempts_good:
  assumes "targets_good (t, S)" "tgRows t' = tgRows t" "\<And>a. a \<in> set (tgAttempts t') \<Longrightarrow> attempt_ok S a"
  shows "targets_good (t', S) \<and> advances t t'"
proof
  show "targets_good (t', S)" using assms by (auto simp: targets_good_def)
  show "advances t t'" using assms(2) by (intro advances_rows) simp
qed

lemma update_attempts_good:
  assumes "targets_good (t, S)"
    and "\<And>a. waMapping (f a) = waMapping a \<and> waVersion (f a) = waVersion a \<and> waQuantity (f a) = waQuantity a \<and> waKey (f a) = waKey a"
  shows "targets_good (update_attempts_of i f t, S) \<and> advances t (update_attempts_of i f t)"
proof (rule attempts_good [OF assms(1)])
  show "\<And>a. a \<in> set (tgAttempts (update_attempts_of i f t)) \<Longrightarrow> attempt_ok S a"
    using assms by (auto simp: update_attempts_of_def set_update_where targets_good_def attempt_ok_def)
qed (simp add: update_attempts_of_def)

lemma desired_good:
  assumes "recordDesiredTarget input t = Inr (d, t')" "targets_good (t, S)"
  shows "targets_good (t', S) \<and> advances t t'"
proof (cases "readTarget (diMapping input) t")
  case None
  with assms(1) have t': "t' = t\<lparr>tgRows := tgRows t @ [desired_row input]\<rparr>"
    by (auto simp: recordDesiredTarget_def result_simps split: if_splits)
  have "diMapping input \<notin> ctMapping ` set (tgRows t)" using None by (simp add: readTarget_def target_table.lookup_None)
  moreover have "row_ok S (desired_row input)" "ctMapping (desired_row input) = diMapping input"
    by (simp_all add: row_ok_def desired_row_def)
  moreover have adv: "advances t t'" by (rule advances_rows) (auto simp: t')
  ultimately show ?thesis using assms(2) kept_by_advances [OF adv]
    by (auto simp: targets_good_def t')
next
  case (Some r)
  with assms(1) have "update_targets (\<lambda>x. ctMapping x = diMapping input) (redesired input) t = Inr t'"
    by (auto simp: recordDesiredTarget_def result_simps)
  then show ?thesis
    by (rule updated_good [OF _ assms(2)])
      (auto simp: redesired_def Let_def advanced_def row_ok_def written_or_def split: option.splits)
qed

lemma begin_good:
  assumes "beginWriteAttempt i t = Inr (a, t')" "targets_good (t, S)" "(wiMapping i, wiVersion i, wiQuantity i) \<in> S"
  shows "targets_good (t', S) \<and> advances t t'"
proof (cases "List.find (same_attempt (wiMapping i) (idempotency_key (wiMapping i) (wiVersion i))) (tgAttempts t)")
  case None
  with assms(1) have "t' = t\<lparr>tgNext := Suc (tgNext t), tgAttempts := tgAttempts t @ [begun_attempt i (tgNext t)]\<rparr>"
    by (auto simp: beginWriteAttempt_def Let_def split: if_splits)
  then show ?thesis using assms(2,3)
    by (intro attempts_good) (auto simp: targets_good_def attempt_ok_def begun_attempt_def)
next
  case (Some x)
  with assms(1) have "t' = update_attempts_of (waId x) (\<lambda>y. y\<lparr>waOutcome := Some WriteSent, waFinished := None\<rparr>) t"
    by (auto simp: beginWriteAttempt_def Let_def split: if_splits)
  then show ?thesis using update_attempts_good [OF assms(2)] by simp
qed

lemma settle_good:
  assumes "settleWriteAttempt a m v q s t = (x, t')" "targets_good (t, S)" "(m, v, q) \<in> S"
  shows "targets_good (t', S) \<and> advances t t'"
proof -
  let ?t1 = "update_attempts_of a (settled_attempt s (tgNow t)) t"
  have one: "targets_good (?t1, S)" and rows: "tgRows ?t1 = tgRows t"
    using update_attempts_good [OF assms(2)] by (simp_all add: settled_attempt_def update_attempts_of_def)
  have v: "1 \<le> v" using assms(2,3) by (auto simp: targets_good_def kept_by_def)
  have same: "targets_good (t', S) \<and> advances ?t1 t'" if "t' = ?t1" using that one by simp
  have moved: "targets_good (t', S) \<and> advances ?t1 t'"
    if "(case update_targets p f ?t1 of Inl e \<Rightarrow> (Inl e, ?t1) | Inr t2 \<Rightarrow> (Inr (), t2)) = (x, t')"
      and "\<And>r. p r \<Longrightarrow> row_ok S r \<Longrightarrow> advanced r (f r) \<and> row_ok S (f r)" for p f
    using that(1) same by (auto split: sum.splits dest: updated_good [OF _ one that(2)])
  have written: "advanced r (written_row v q ob r) \<and> row_ok S (written_row v q ob r)"
    if "ctMapping r = m \<and> written_or r < v" "row_ok S r" for r ob
    using that assms(3) v by (auto simp: advanced_def row_ok_def written_row_def written_or_def split: option.splits)
  have "targets_good (t', S) \<and> advances ?t1 t'"
  proof (cases s)
    case (SupersededWrite detail)
    then show ?thesis using assms(1) same by (simp add: settleWriteAttempt_def Let_def)
  next
    case (FailedWrite kind detail)
    let ?f = "\<lambda>r. r\<lparr>ctState := TargetDegraded, ctStateReason := Some detail, ctFailures := ctFailures r + 1\<rparr>"
    show ?thesis
    proof (rule moved)
      show "(case update_targets (\<lambda>r. ctMapping r = m) ?f ?t1 of Inl e \<Rightarrow> (Inl e, ?t1) | Inr t2 \<Rightarrow> (Inr (), t2)) = (x, t')"
        unfolding FailedWrite using assms(1) [unfolded FailedWrite] by (simp add: settleWriteAttempt_def Let_def)
    qed (auto simp: advanced_def row_ok_def written_or_def)
  next
    case (Acknowledged ob)
    show ?thesis
    proof (rule moved [OF _ written])
      show "(case update_targets (\<lambda>r. ctMapping r = m \<and> written_or r < v) (written_row v q ob) ?t1 of
          Inl e \<Rightarrow> (Inl e, ?t1) | Inr t2 \<Rightarrow> (Inr (), t2)) = (x, t')"
        unfolding Acknowledged using assms(1) [unfolded Acknowledged] by (simp add: settleWriteAttempt_def Let_def)
    qed simp_all
  next
    case (Unchanged ob)
    show ?thesis
    proof (rule moved [OF _ written])
      show "(case update_targets (\<lambda>r. ctMapping r = m \<and> written_or r < v) (written_row v q ob) ?t1 of
          Inl e \<Rightarrow> (Inl e, ?t1) | Inr t2 \<Rightarrow> (Inr (), t2)) = (x, t')"
        unfolding Unchanged using assms(1) [unfolded Unchanged] by (simp add: settleWriteAttempt_def Let_def)
    qed simp_all
  qed
  then show ?thesis by (simp add: advances_def rows)
qed


lemma target_step_good:
  assumes "target_step x y" "targets_good x"
  shows "targets_good y \<and> advances (fst x) (fst y) \<and> snd x \<subseteq> snd y"
  using assms
proof (cases rule: target_step.cases)
  case (desired input t d t' S)
  then show ?thesis using desired_good assms(2) by auto
next
  case (read m t r S)
  then have r: "r \<in> set (tgRows t)" "ctMapping r = m"
    using target_table.lookup_key by (auto simp: readTarget_def)
  have good: "targets_good (t, S)" using read assms(2) by simp
  then have kept: "kept_by (tgRows t) (m, ctVersion r, ctDesired r)"
    using r by (auto simp: kept_by_def targets_good_def row_ok_def)
  have same: "q = ctDesired r" if "(m, ctVersion r, q) \<in> S" for q
  proof -
    from good that obtain r' where "r' \<in> set (tgRows t)" "ctMapping r' = m" "ctVersion r = ctVersion r' \<longrightarrow> q = ctDesired r'"
      by (fastforce simp: targets_good_def kept_by_def)
    moreover from this r good have "r' = r" using same_row [of ctMapping "tgRows t" r' r] by (simp add: targets_good_def)
    ultimately show ?thesis by simp
  qed
  have "row_ok S r \<Longrightarrow> row_ok (insert z S) r" for r z by (auto simp: row_ok_def)
  moreover have "attempt_ok S a \<Longrightarrow> attempt_ok (insert z S) a" for a z by (auto simp: attempt_ok_def)
  ultimately have "targets_good (t, insert (m, ctVersion r, ctDesired r) S)"
    using good kept same by (auto simp: targets_good_def)
  then show ?thesis using read by auto
next
  case (begun i S t a t')
  then show ?thesis using begin_good assms(2) by auto
next
  case (settled m v q S a t s x t')
  then show ?thesis using settle_good assms(2) by auto
next
  case (observed ob t t' S)
  then obtain t1 where u: "update_targets (\<lambda>r. ctMapping r = obMapping ob)
        (\<lambda>r. r\<lparr>ctObserved := Some (obQuantity ob),
               ctObservedVersion := (case obVersion ob of None \<Rightarrow> ctObservedVersion r | Some v \<Rightarrow> Some v),
               ctBackorders := (case obBackorders ob of None \<Rightarrow> ctBackorders r | Some v \<Rightarrow> Some v)\<rparr>) t = Inr t1"
    and t': "t' = (case obAttempt ob of None \<Rightarrow> t1 | Some a \<Rightarrow> update_attempts_of a (\<lambda>x. x\<lparr>waVerified := Some (obQuantity ob)\<rparr>) t1)"
    by (auto simp: recordObservation_def result_simps)
  have one: "targets_good (t1, S) \<and> advances t t1"
    by (rule updated_good [OF u]) (use observed assms(2) in \<open>auto simp: advanced_def row_ok_def written_or_def\<close>)
  have "targets_good (t', S) \<and> tgRows t' = tgRows t1"
    using one update_attempts_good [of t1 S "\<lambda>x. x\<lparr>waVerified := Some (obQuantity ob)\<rparr>"]
    by (auto simp: t' update_attempts_of_def split: option.splits)
  with one observed show ?thesis by (auto simp: advances_def)
next
  case (blocked m reason t t' S)
  then have "update_targets (\<lambda>r. ctMapping r = m) (\<lambda>r. r\<lparr>ctState := TargetBlocked, ctStateReason := Some reason\<rparr>) t = Inr t'"
    by (simp add: blockTarget_def)
  from updated_good [OF this] have "targets_good (t', S) \<and> advances t t'"
    using blocked assms(2) by (auto simp: advanced_def row_ok_def written_or_def)
  then show ?thesis using blocked by simp
next
  case (verified m agrees reason t t' S)
  from updated_good [OF verified(3)] have "targets_good (t', S) \<and> advances t t'"
    using verified assms(2) by (auto simp: advanced_def row_ok_def written_or_def verified_row_def)
  then show ?thesis using verified by simp
next
  case (elsewhere t S now ms js)
  then show ?thesis using assms(2) by (auto simp: targets_good_def advances_def intro!: bexI)
qed

lemma target_run_good:
  assumes "target_step\<^sup>*\<^sup>* x y" "targets_good x"
  shows "targets_good y \<and> advances (fst x) (fst y)"
  using assms(1)
proof (induction rule: rtranclp_induct)
  case base
  then show ?case using assms(2) by simp
next
  case (step y z)
  with target_step_good [OF step.hyps(2)] have "targets_good z" "advances (fst y) (fst z)" by auto
  with step.IH show ?case unfolding advances_def by (meson advanced_trans)
qed

definition untouched :: "targets \<Rightarrow> bool" where
  "untouched t \<longleftrightarrow> tgRows t = [] \<and> tgAttempts t = []"

lemma untouched_good: "untouched t \<Longrightarrow> targets_good (t, {})"
  by (simp add: untouched_def targets_good_def)

section \<open>A delivery\<close>

text \<open>One target recorded, read by a worker, attempted and acknowledged.\<close>

definition bay :: targets where
  "bay = \<lparr>tgNow = 100, tgNext = 30, tgMappings = [(1, 5)], tgJobs = [9], tgRows = [], tgAttempts = []\<rparr>"

definition bay_wish :: desired_input where
  "bay_wish = \<lparr>diBusiness = 1, diMapping = 5, diConnection = 2, diQuantity = 4, diReason = ''receipt''\<rparr>"

definition bay_input :: attempt_input where
  "bay_input = \<lparr>wiBusiness = 1, wiMapping = 5, wiJob = 9, wiVersion = 1, wiQuantity = 4\<rparr>"

definition wished_bay :: targets where
  "wished_bay = bay\<lparr>tgRows := [desired_row bay_wish]\<rparr>"

definition begun_bay :: targets where
  "begun_bay = wished_bay\<lparr>tgNext := 31, tgAttempts := [begun_attempt bay_input 30]\<rparr>"

definition delivered_row :: target where
  "delivered_row = written_row 1 4 None (desired_row bay_wish)"

definition delivered_bay :: targets where
  "delivered_bay = begun_bay\<lparr>tgRows := [delivered_row],
     tgAttempts := [settled_attempt (Acknowledged None) 100 (begun_attempt bay_input 30)]\<rparr>"

lemma bay_untouched: "untouched bay"
  by (simp add: untouched_def bay_def)

lemma bay_desired: "recordDesiredTarget bay_wish bay = Inr (\<lparr>ddVersion = 1, ddQuantity = 4, ddChanged = True\<rparr>, wished_bay)"
  by code_simp

lemma bay_read: "readTarget 5 wished_bay = Some (desired_row bay_wish)"
  by code_simp

lemma bay_begun: "beginWriteAttempt bay_input wished_bay = Inr ((30, idempotency_key 5 1), begun_bay)"
  by code_simp

lemma bay_settled: "settleWriteAttempt 30 5 1 4 (Acknowledged None) begun_bay = (Inr (), delivered_bay)"
  by code_simp

lemma bay_started: "target_step\<^sup>*\<^sup>* (bay, {}) (begun_bay, {(5, 1, 4)})"
proof -
  have "target_step (bay, {}) (wished_bay, {})" by (rule target_step.desired [OF bay_desired])
  moreover have "target_step (wished_bay, {}) (wished_bay, {(5, 1, 4)})"
    using target_step.read [OF bay_read, of "{}"] by (simp add: desired_row_def bay_wish_def)
  moreover have "target_step (wished_bay, {(5, 1, 4)}) (begun_bay, {(5, 1, 4)})"
    by (rule target_step.begun [OF _ bay_begun]) (simp add: bay_input_def)
  ultimately show ?thesis by (meson converse_rtranclp_into_rtranclp rtranclp.rtrancl_refl)
qed

lemma bay_finished: "target_step\<^sup>*\<^sup>* (begun_bay, {(5, 1, 4)}) (delivered_bay, {(5, 1, 4)})"
  by (rule r_into_rtranclp, rule target_step.settled [OF _ bay_settled]) simp

lemma bay_delivered: "target_step\<^sup>*\<^sup>* (bay, {}) (delivered_bay, {(5, 1, 4)})"
  using bay_started bay_finished by (rule rtranclp_trans)

lemma bay_rows: "set (tgRows delivered_bay) = {delivered_row}" "set (tgRows begun_bay) = {desired_row bay_wish}"
    "set (tgAttempts delivered_bay) = {settled_attempt (Acknowledged None) 100 (begun_attempt bay_input 30)}"
  by (simp_all add: delivered_bay_def begun_bay_def wished_bay_def)

lemma bay_values: "ctState delivered_row = TargetConverged" "ctVersion delivered_row = 1" "ctDesired delivered_row = 4"
    "ctMapping (desired_row bay_wish) = 5"
  by code_simp+

section \<open>Promises\<close>

text \<open>
  C13: A channel is shown as converged only when it is: however ledger changes, workers, provider
  answers, blocks and verification reads interleave, a converged target has been written, at its
  newest version, with exactly the quantity that is desired.
\<close>

theorem converged_means_delivered:
  assumes "target_step\<^sup>*\<^sup>* (t, {}) (t', S)" and "untouched t" and "r \<in> set (tgRows t')" and "ctState r = TargetConverged"
  shows "ctWritten r = Some (ctVersion r) \<and> ctWrittenQuantity r = Some (ctDesired r)"
proof -
  have good: "targets_good (t', S)" using target_run_good [OF assms(1)] untouched_good [OF assms(2)] by simp
  then have ok: "row_ok S r" using assms(3) by (simp add: targets_good_def)
  with assms(4) have w: "ctWritten r = Some (ctVersion r)" by (simp add: row_ok_def)
  with ok obtain q where q: "ctWrittenQuantity r = Some q" "(ctMapping r, ctVersion r, q) \<in> S" by (auto simp: row_ok_def)
  with good have "kept_by (tgRows t') (ctMapping r, ctVersion r, q)" by (auto simp: targets_good_def)
  then obtain r' where r': "r' \<in> set (tgRows t')" "ctMapping r' = ctMapping r" "ctVersion r = ctVersion r' \<longrightarrow> q = ctDesired r'"
    by (auto simp: kept_by_def)
  have "r' = r" using same_row [of ctMapping "tgRows t'" r' r] good r'(1,2) assms(3) by (simp add: targets_good_def)
  with r' w q show ?thesis by simp
qed

theorem converged_means_delivered_witness: "ctWritten delivered_row = Some 1 \<and> ctWrittenQuantity delivered_row = Some 4"
  using converged_means_delivered [OF bay_delivered bay_untouched, of delivered_row] by (simp add: bay_rows bay_values)



text \<open>
  C15: An older target never overwrites a newer one: from any moment on, the version of a target and
  the version last written to its channel only go forward, and a desired quantity changes only
  under a new version.
\<close>

theorem versions_only_go_forward:
  assumes "target_step\<^sup>*\<^sup>* (t0, {}) (t, S)" and "untouched t0" and "target_step\<^sup>*\<^sup>* (t, S) (t', S')" and "r \<in> set (tgRows t)"
  shows "\<exists>r' \<in> set (tgRows t'). ctMapping r' = ctMapping r \<and> ctVersion r \<le> ctVersion r' \<and> written_or r \<le> written_or r'
    \<and> written_or r' \<le> ctVersion r' \<and> (ctVersion r' = ctVersion r \<longrightarrow> ctDesired r' = ctDesired r)"
proof -
  have good: "targets_good (t, S)" using target_run_good [OF assms(1)] untouched_good [OF assms(2)] by simp
  from target_run_good [OF assms(3) this] have good': "targets_good (t', S')" and "advances t t'" by auto
  with assms(4) obtain r' where r': "r' \<in> set (tgRows t')" "advanced r r'" by (auto simp: advances_def)
  have ok: "row_ok S' r'" using good' r'(1) by (simp add: targets_good_def)
  have "written_or r' \<le> ctVersion r'"
  proof (cases "ctWritten r'")
    case None
    with ok show ?thesis by (simp add: written_or_def row_ok_def)
  next
    case (Some w)
    with ok obtain q where "(ctMapping r', w, q) \<in> S'" by (auto simp: row_ok_def)
    with good' have "kept_by (tgRows t') (ctMapping r', w, q)" by (auto simp: targets_good_def)
    then obtain r2 where "r2 \<in> set (tgRows t')" "ctMapping r2 = ctMapping r'" "w \<le> ctVersion r2" by (auto simp: kept_by_def)
    moreover from this have "r2 = r'" using same_row [of ctMapping "tgRows t'" r2 r'] good' r'(1) by (simp add: targets_good_def)
    ultimately show ?thesis using Some by (simp add: written_or_def)
  qed
  with r' show ?thesis by (auto simp: advanced_def)
qed

theorem versions_only_go_forward_witness:
  "\<exists>r' \<in> set (tgRows delivered_bay). ctMapping r' = 5 \<and> 1 \<le> ctVersion r' \<and> written_or r' \<le> ctVersion r'"
  using versions_only_go_forward [OF bay_started bay_untouched bay_finished, of "desired_row bay_wish"]
  by (auto simp: bay_rows bay_values desired_row_def bay_wish_def)


section \<open>Blocked targets\<close>

text \<open>
  A block does not outlast the next change of the desired quantity: the target is pending again
  under a new version, and its change is reported as one to write.
\<close>

lemma a_movement_lifts_a_block:
  assumes "readTarget (diMapping input) t = Some r" and "ctState r = TargetBlocked" and "ctDesired r \<noteq> diQuantity input"
    and "written_or r \<le> ctVersion r" and "recordDesiredTarget input t = Inr (d, t')"
  shows "ddChanged d \<and> (\<exists>r' \<in> set (tgRows t'). ctMapping r' = diMapping input \<and> ctState r' = TargetPending)"
proof -
  have d: "d = \<lparr>ddVersion = ctVersion r + 1, ddQuantity = diQuantity input, ddChanged = (written_or r < ctVersion r + 1)\<rparr>"
    and "update_targets (\<lambda>x. ctMapping x = diMapping input) (redesired input) t = Inr t'"
    using assms(1,3,5) by (auto simp: recordDesiredTarget_def result_simps redesired_def written_or_def Let_def)
  from update_targets_Inr [OF this(2)] have "tgRows t' = update_where (\<lambda>x. ctMapping x = diMapping input) (redesired input) (tgRows t)"
    by simp
  moreover have r: "r \<in> set (tgRows t)" "ctMapping r = diMapping input"
    using assms(1) target_table.lookup_key by (auto simp: readTarget_def)
  ultimately have "redesired input r \<in> set (tgRows t')" by (auto simp: set_update_where)
  with r assms(3) have "\<exists>r' \<in> set (tgRows t'). ctMapping r' = diMapping input \<and> ctState r' = TargetPending"
    by (intro bexI [of _ "redesired input r"]) (simp_all add: redesired_def Let_def)
  with d assms(4) show ?thesis by simp
qed

end
