(* ===== verification/Dispatch.thy ===== *)
theory Dispatch
  imports Delivery Incidents Outcomes Runner
begin

text \<open>
  \<^verbatim>\<open>packages/sync/src/dispatch.ts\<close> and \<^verbatim>\<open>failures.ts\<close>: carrying a desired quantity to a provider and
  reading back what happened. The handlers are not transactional, so what was written before an
  exception stays: an action answers an exception or a value, and the desk it leaves. \<open>dkSent\<close>
  lists the quantity writes handed to an adapter, which the code keeps nowhere; the properties
  speak of it. The office is every table the handlers reach; an adapter call moves it, since
  everything else goes on while the provider is asked.
\<close>

section \<open>Actions\<close>

record office =
  ofHub :: hub
  ofAlerts :: alerts

record desk =
  dkOffice :: office
  dkSent :: "(uuid \<times> quantity_write) list"

type_synonym ('s, 'a) action = "'s \<Rightarrow> (exn + 'a) \<times> 's"

type_synonym 'a act = "(desk, 'a) action"

definition answer :: "'a \<Rightarrow> ('s, 'a) action" where
  "answer x d = (Inr x, d)"

definition andthen :: "('s, 'a) action \<Rightarrow> ('a \<Rightarrow> ('s, 'b) action) \<Rightarrow> ('s, 'b) action" where
  "andthen m f d = (case m d of (Inl e, d1) \<Rightarrow> (Inl e, d1) | (Inr x, d1) \<Rightarrow> f x d1)"

text \<open>A statement on one of the tables: refused, it changes nothing.\<close>

definition on_hub :: "(hub \<Rightarrow> hub) \<Rightarrow> desk \<Rightarrow> desk" where
  "on_hub f d = d\<lparr>dkOffice := (dkOffice d)\<lparr>ofHub := f (ofHub (dkOffice d))\<rparr>\<rparr>"

definition hub_at :: "desk \<Rightarrow> hub" where
  "hub_at d = ofHub (dkOffice d)"

definition targets_at :: "desk \<Rightarrow> targets" where
  "targets_at d = targets_of (hub_at d)"

definition on_targets :: "(targets \<Rightarrow> (exn + 'a) \<times> targets) \<Rightarrow> 'a act" where
  "on_targets f d = (case f (targets_at d) of (x, t) \<Rightarrow> (x, on_hub (hbTargets_update (\<lambda>_. t)) d))"

definition statement :: "('s \<Rightarrow> exn + 'a \<times> 's) \<Rightarrow> 's \<Rightarrow> (exn + 'a) \<times> 's" where
  "statement f s = (case f s of Inl e \<Rightarrow> (Inl e, s) | Inr (x, s1) \<Rightarrow> (Inr x, s1))"

definition command :: "('s \<Rightarrow> exn + 's) \<Rightarrow> 's \<Rightarrow> (exn + unit) \<times> 's" where
  "command f s = (case f s of Inl e \<Rightarrow> (Inl e, s) | Inr s1 \<Rightarrow> (Inr (), s1))"

definition on_pilot :: "(pilot \<Rightarrow> exn + pilot) \<Rightarrow> unit act" where
  "on_pilot f d = (case f (hbPilot (hub_at d)) of Inl e \<Rightarrow> (Inl e, d) | Inr p \<Rightarrow> (Inr (), on_hub (hbPilot_update (\<lambda>_. p)) d))"

definition on_queue :: "(queue \<Rightarrow> exn + 'a \<times> queue) \<Rightarrow> 'a act" where
  "on_queue f d = (case f (hbQueue (hub_at d)) of Inl e \<Rightarrow> (Inl e, d) | Inr (x, q) \<Rightarrow> (Inr x, on_hub (hbQueue_update (\<lambda>_. q)) d))"

definition on_alerts :: "(alerts \<Rightarrow> exn + 'a \<times> alerts) \<Rightarrow> 'a act" where
  "on_alerts f d = (case f (ofAlerts (dkOffice d)) of Inl e \<Rightarrow> (Inl e, d)
     | Inr (x, s) \<Rightarrow> (Inr x, d\<lparr>dkOffice := (dkOffice d)\<lparr>ofAlerts := s\<rparr>\<rparr>))"

text \<open>A call of the world outside, and a quantity write handed to an adapter.\<close>

definition outside :: "(office \<Rightarrow> (exn + 'a) \<times> office) \<Rightarrow> 'a act" where
  "outside f d = (case f (dkOffice d) of (x, w) \<Rightarrow> (x, d\<lparr>dkOffice := w\<rparr>))"

definition send :: "office adapter \<Rightarrow> uuid \<Rightarrow> quantity_write \<Rightarrow> acknowledgement provider_result list provider_result act" where
  "send adapter connection w d = outside (adWrite adapter [w]) (d\<lparr>dkSent := dkSent d @ [(connection, w)]\<rparr>)"

section \<open>Failures\<close>

fun toJobFailure :: "provider_failure \<Rightarrow> job_result" where
  "toJobFailure (RateLimited ms left) = Failed ''rate_limited'' (describeFailure (RateLimited ms left)) True (Some ms)"
| "toJobFailure (Unavailable m code) = Failed ''unavailable'' (describeFailure (Unavailable m code)) True None"
| "toJobFailure (Conflict m version) = Failed ''conflict'' (describeFailure (Conflict m version)) True None"
| "toJobFailure (Unauthorized revoked m) = Failed ''unauthorized'' (describeFailure (Unauthorized revoked m)) False None"
| "toJobFailure (NotFound m) = Failed ''not_found'' (describeFailure (NotFound m)) False None"
| "toJobFailure (Rejected m code) = Failed ''rejected'' (describeFailure (Rejected m code)) False None"

fun mapping_status_text :: "mapping_status \<Rightarrow> string" where
  "mapping_status_text MappingDraft = ''draft''"
| "mapping_status_text MappingApproved = ''approved''"
| "mapping_status_text MappingActive = ''active''"
| "mapping_status_text MappingPaused = ''paused''"
| "mapping_status_text MappingArchived = ''archived''"

fun whyNotWritable :: "write_target_result \<Rightarrow> string" where
  "whyNotWritable (Writable wt) = []"
| "whyNotWritable NoMapping = ''this mapping no longer exists''"
| "whyNotWritable (MappingNotActive status reason) =
     (case reason of Some r \<Rightarrow> r | None \<Rightarrow> ''this mapping is '' @ mapping_status_text status)"
| "whyNotWritable (Ineligible reason) = reason"
| "whyNotWritable MissingEntity = ''the last complete catalog scan did not find this entity''"

definition blocking_failure :: "provider_failure \<Rightarrow> bool" where
  "blocking_failure f \<longleftrightarrow> (case f of Unauthorized _ _ \<Rightarrow> True | NotFound _ \<Rightarrow> True | _ \<Rightarrow> False)"

definition excluding_reason :: "provider_failure \<Rightarrow> string option" where
  "excluding_reason f = (case f of RateLimited _ _ \<Rightarrow> Some ''the provider was throttling''
     | Unavailable _ _ \<Rightarrow> Some ''the provider was unavailable'' | _ \<Rightarrow> None)"

definition failWrite :: "uuid \<Rightarrow> uuid \<Rightarrow> int \<Rightarrow> int \<Rightarrow> provider_failure \<Rightarrow> job_result act" where
  "failWrite attempt mapping version quantity failure =
     andthen (on_targets (settleWriteAttempt attempt mapping version quantity
                (FailedWrite (failure_status failure) (describeFailure failure)))) (\<lambda>_.
     andthen (if blocking_failure failure
              then on_targets (command (blockTarget mapping (describeFailure failure))) else answer ()) (\<lambda>_.
     andthen (case excluding_reason failure of None \<Rightarrow> answer ()
              | Some reason \<Rightarrow> on_pilot (\<lambda>p. Inr (excludeSample mapping version reason p))) (\<lambda>_.
     answer (toJobFailure failure))))"

section \<open>Writing\<close>

definition CHANNEL_VERIFY_JOB :: string where
  "CHANNEL_VERIFY_JOB = ''channel.verify''"

definition verify_job :: "uuid \<Rightarrow> uuid \<Rightarrow> uuid \<Rightarrow> int \<Rightarrow> uuid \<Rightarrow> enqueue_input" where
  "verify_job b connection mapping version attempt =
     \<lparr>eqKind = CHANNEL_VERIFY_JOB, eqBusiness = Some b, eqConnection = Some connection,
      eqPriority = Some priority_verification, eqSerialization = Some (mappingSerializationKey mapping), eqDedupe = None,
      eqPayload = Some [(''mappingId'', JsonId mapping), (''targetVersion'', JsonNumber version), (''attemptId'', JsonId attempt)],
      eqRunAt = None, eqMaxAttempts = None, eqWindow = None\<rparr>"

definition write_request :: "write_target \<Rightarrow> target \<Rightarrow> string \<Rightarrow> quantity_write" where
  "write_request wt r key = \<lparr>qwEntity = \<lparr>enExternal = wtExternal wt, enVariation = None\<rparr>,
     qwQuantity = ctDesired r, qwExpected = ctObservedVersion r, qwKey = key\<rparr>"

text \<open>What the adapter answered about the one entity.\<close>

definition per_entity :: "acknowledgement provider_result list provider_result \<Rightarrow> acknowledgement provider_result" where
  "per_entity written = (case written of
     Failure f \<Rightarrow> Failure f
   | Success [] \<Rightarrow> Failure (Unavailable ''the provider acknowledged no entity'' None)
   | Success (a # _) \<Rightarrow> a)"

definition settlement_of :: "acknowledgement \<Rightarrow> write_settlement" where
  "settlement_of a = (if akUnchanged a then Unchanged (akVersion a) else Acknowledged (akVersion a))"

definition conclude_write ::
    "uuid \<Rightarrow> uuid \<Rightarrow> target \<Rightarrow> uuid \<Rightarrow> acknowledgement provider_result \<Rightarrow> uuid \<Rightarrow> job_result act" where
  "conclude_write b mapping r connection outcome attempt =
     (case outcome of
        Failure f \<Rightarrow> failWrite attempt mapping (ctVersion r) (ctDesired r) f
      | Success a \<Rightarrow>
          andthen (on_targets (settleWriteAttempt attempt mapping (ctVersion r) (ctDesired r) (settlement_of a))) (\<lambda>_.
          andthen (on_pilot (\<lambda>p. Inr (markConverged mapping (ctVersion r) p))) (\<lambda>_.
          andthen (on_queue (enqueue (verify_job b connection mapping (ctVersion r) attempt) id)) (\<lambda>_.
          answer Finished))))"

definition send_write :: "office adapter_factory \<Rightarrow> claimed_job \<Rightarrow> uuid \<Rightarrow> uuid \<Rightarrow> target \<Rightarrow> write_target \<Rightarrow> job_result act" where
  "send_write adapterFor job b mapping r wt =
     andthen (outside (adapterFor (wtConnection wt))) (\<lambda>adapter.
     andthen (on_targets (statement (beginWriteAttempt \<lparr>wiBusiness = b, wiMapping = mapping, wiJob = jbId (cjJob job),
                wiVersion = ctVersion r, wiQuantity = ctDesired r\<rparr>))) (\<lambda>(attempt, key).
     andthen (send adapter (wtConnection wt) (write_request wt r key)) (\<lambda>written.
     conclude_write b mapping r (wtConnection wt) (per_entity written) attempt)))"

definition handleChannelWrite :: "office adapter_factory \<Rightarrow> claimed_job \<Rightarrow> job_result act" where
  "handleChannelWrite adapterFor job d =
     (let payload = jbPayload (cjJob job)
      in case (json_id payload ''mappingId'', jbBusiness (cjJob job)) of
        (Some mapping, Some b) \<Rightarrow>
          (case readTarget mapping (targets_at d) of
             None \<Rightarrow> answer (Superseded ''this mapping no longer has a desired target'') d
           | Some r \<Rightarrow>
               let enqueued = json_number payload ''targetVersion'';
                   exclude = (\<lambda>reason. on_pilot (\<lambda>p. Inr (excludeSample mapping (ctVersion r) reason p)))
               in if (case enqueued of None \<Rightarrow> False | Some v \<Rightarrow> v < ctVersion r)
                  then andthen (on_pilot (\<lambda>p. Inr (markSuperseded mapping (given_ceiling enqueued) p))) (\<lambda>_.
                       answer (Superseded (''version '' @ number_text (given_ceiling enqueued) @ '' was overtaken by ''
                         @ number_text (ctVersion r)))) d
                  else if ctState r = TargetBlocked
                  then andthen (exclude ''the mapping was blocked before this change could be sent'') (\<lambda>_.
                       answer (Superseded (given_or ''writing to this mapping is blocked'' (ctStateReason r)))) d
                  else if (case ctWritten r of None \<Rightarrow> False | Some w \<Rightarrow> ctVersion r \<le> w)
                  then andthen (on_pilot (\<lambda>p. Inr (markConverged mapping (ctVersion r) p))) (\<lambda>_.
                       answer (Superseded ''this target has already been written'')) d
                  else case resolveWriteTarget (hbMarket (hub_at d)) b mapping of
                    Writable wt \<Rightarrow>
                      (case mayWrite b mapping (hbPilot (hub_at d)) of
                         Withheld stage reason \<Rightarrow>
                           andthen (on_pilot (recordWithheld \<lparr>whBusiness = b, whMapping = mapping, whConnection = wtConnection wt,
                              whIntended = ctDesired r, whObserved = ctObserved r, whStage = stage, whReason = reason\<rparr>)) (\<lambda>_.
                           andthen (exclude ''withheld by the pilot stage'') (\<lambda>_.
                           answer (Superseded reason))) d
                       | Allowed \<Rightarrow> send_write adapterFor job b mapping r wt d)
                  | refused \<Rightarrow>
                      andthen (on_targets (command (blockTarget mapping (whyNotWritable refused)))) (\<lambda>_.
                      andthen (on_alerts (alertMappingBlocked b mapping (whyNotWritable refused))) (\<lambda>_.
                      andthen (exclude ''the mapping stopped being writable before this change was sent'') (\<lambda>_.
                      answer (Superseded (whyNotWritable refused))))) d)
      | _ \<Rightarrow> answer (Failed ''malformed_job'' ''this write job names no mapping'' False None) d)"

section \<open>Verifying\<close>

definition disagreement :: "int \<Rightarrow> int \<Rightarrow> string" where
  "disagreement seen written = ''the channel reports '' @ number_text seen @ '' where '' @ number_text written @ '' was written''"

definition compare_observation :: "uuid \<Rightarrow> int \<Rightarrow> job_result act" where
  "compare_observation mapping quantity d =
     (case readTarget mapping (targets_at d) of
        None \<Rightarrow> answer Finished d
      | Some r \<Rightarrow>
          (case ctWrittenQuantity r of
             None \<Rightarrow> answer Finished d
           | Some q \<Rightarrow> andthen (on_targets (command (update_targets (\<lambda>x. ctMapping x = mapping)
                         (verified_row (quantity = q) (disagreement quantity q))))) (\<lambda>_. answer Finished) d))"

definition handleChannelVerify :: "office adapter_factory \<Rightarrow> claimed_job \<Rightarrow> job_result act" where
  "handleChannelVerify adapterFor job d =
     (let payload = jbPayload (cjJob job)
      in case (json_id payload ''mappingId'', jbBusiness (cjJob job)) of
        (Some mapping, Some b) \<Rightarrow>
          (case resolveWriteTarget (hbMarket (hub_at d)) b mapping of
             Writable wt \<Rightarrow>
               andthen (outside (adapterFor (wtConnection wt))) (\<lambda>adapter.
               andthen (outside (adRead adapter [\<lparr>enExternal = wtExternal wt, enVariation = None\<rparr>])) (\<lambda>got.
               (case got of
                  Failure f \<Rightarrow> answer (toJobFailure f)
                | Success [] \<Rightarrow> answer (Failed ''not_found'' ''the provider reported no quantity for this entity'' False None)
                | Success (ob # _) \<Rightarrow>
                    andthen (on_targets (command (recordObservation \<lparr>obMapping = mapping, obQuantity = qrQuantity ob,
                       obVersion = qrVersion ob, obBackorders = qrBackorders ob,
                       obAttempt = json_id payload ''attemptId''\<rparr>))) (\<lambda>_.
                    compare_observation mapping (qrQuantity ob))))) d
           | refused \<Rightarrow> answer (Superseded (whyNotWritable refused)) d)
      | _ \<Rightarrow> answer (Failed ''malformed_job'' ''this verification job names no mapping'' False None) d)"

end
