(* ===== verification/Sends.thy ===== *)
theory Sends
  imports Dispatch Selling
begin

text \<open>
  What the dispatch handlers promise: when a provider is asked and for what, that everything they
  do to the targets is a step of the targets' life (\<open>Delivery\<close>), and what each answer leaves behind.
\<close>

section \<open>Actions\<close>

lemma andthen_cases:
  assumes "andthen m f d = (x, d')"
  obtains e where "m d = (Inl e, d')" "x = Inl e" | y d1 where "m d = (Inr y, d1)" "f y d1 = (x, d')"
  using assms by (auto simp: andthen_def split: prod.splits sum.splits)

lemma andthen_Inr: "andthen m f d = (Inr x, d') \<longleftrightarrow> (\<exists>y d1. m d = (Inr y, d1) \<and> f y d1 = (Inr x, d'))"
  by (auto simp: andthen_def split: prod.splits sum.splits)

lemma hub_at_on_hub [simp]: "hub_at (on_hub f d) = f (hub_at d)"
  by (simp add: on_hub_def hub_at_def)

lemma on_hub_sent [simp]: "dkSent (on_hub f d) = dkSent d"
  by (simp add: on_hub_def)

text \<open>Actions that hand nothing to an adapter.\<close>

definition silent :: "'a act \<Rightarrow> bool" where
  "silent m \<longleftrightarrow> (\<forall>d. dkSent (snd (m d)) = dkSent d)"

lemma silentD: "silent m \<Longrightarrow> m d = (x, d') \<Longrightarrow> dkSent d' = dkSent d"
  unfolding silent_def by (metis snd_conv)

named_theorems silences

lemma silent_answer [silences]: "silent (answer x)"
  by (simp add: silent_def answer_def)

lemma silent_andthen [silences]: "silent m \<Longrightarrow> (\<And>x. silent (f x)) \<Longrightarrow> silent (andthen m f)"
  by (auto simp: silent_def andthen_def split: prod.splits sum.splits) (metis snd_conv)+

lemma silent_on_targets [silences]: "silent (on_targets f)"
  by (auto simp: silent_def on_targets_def split: prod.splits)

lemma silent_on_pilot [silences]: "silent (on_pilot f)"
  by (auto simp: silent_def on_pilot_def split: sum.splits)

lemma silent_on_queue [silences]: "silent (on_queue f)"
  by (auto simp: silent_def on_queue_def split: sum.splits)

lemma silent_on_alerts [silences]: "silent (on_alerts f)"
  by (auto simp: silent_def on_alerts_def split: sum.splits)

lemma silent_outside [silences]: "silent (outside f)"
  by (auto simp: silent_def outside_def split: prod.splits)

lemma silent_failWrite [silences]: "silent (failWrite a m v q f)"
  unfolding failWrite_def by (intro silences) (auto intro!: silences split: option.splits)

lemma silent_conclude [silences]: "silent (conclude_write b m r c outcome a)"
  unfolding conclude_write_def by (cases outcome) (auto intro!: silences)

lemma send_sent: "send adapter c w d = (x, d') \<Longrightarrow> dkSent d' = dkSent d @ [(c, w)]"
  using silent_outside [of "adWrite adapter [w]"] by (auto simp: send_def dest: silentD)

lemma beginWriteAttempt_key:
  "beginWriteAttempt i t = Inr ((a, key), t') \<Longrightarrow> key = idempotency_key (wiMapping i) (wiVersion i)"
  by (auto simp: beginWriteAttempt_def Let_def split: if_splits option.splits)

lemma send_write_sent:
  assumes "send_write adapterFor job b mapping r wt d = (x, d')"
  shows "dkSent d' = dkSent d \<or> dkSent d' = dkSent d @ [(wtConnection wt, write_request wt r (idempotency_key mapping (ctVersion r)))]"
  using assms unfolding send_write_def
proof (cases rule: andthen_cases)
  case (1 e)
  with silentD [OF silent_outside 1(1)] show ?thesis by simp
next
  case (2 adapter d1)
  note one = 2(1)
  from 2(2) show ?thesis
  proof (cases rule: andthen_cases)
    case (1 e)
    with silentD [OF silent_outside one] silentD [OF silent_on_targets 1(1)] show ?thesis by simp
  next
    case (2 y d2)
    obtain a key where y: "y = (a, key)" by (cases y)
    have key: "key = idempotency_key mapping (ctVersion r)"
      using 2(1) by (auto simp: y on_targets_def statement_def split: sum.splits prod.splits dest!: beginWriteAttempt_key)
    have before: "dkSent d2 = dkSent d" using silentD [OF silent_outside one] silentD [OF silent_on_targets 2(1)] by simp
    from 2(2) have "andthen (send adapter (wtConnection wt) (write_request wt r key))
        (\<lambda>written. conclude_write b mapping r (wtConnection wt) (per_entity written) a) d2 = (x, d')" by (simp add: y)
    then show ?thesis
    proof (cases rule: andthen_cases)
      case (1 e)
      with before key show ?thesis by (simp add: send_sent [OF 1(1)])
    next
      case (2 written d3)
      with before key show ?thesis by (simp add: send_sent [OF 2(1)] silentD [OF silent_conclude 2(2)])
    qed
  qed
qed

section \<open>Which write is sent\<close>

definition named_mapping :: "claimed_job \<Rightarrow> uuid option" where
  "named_mapping job = json_id (jbPayload (cjJob job)) ''mappingId''"

text \<open>The conditions under which a write job reaches the adapter.\<close>

definition sendable :: "claimed_job \<Rightarrow> desk \<Rightarrow> uuid \<Rightarrow> uuid \<Rightarrow> target \<Rightarrow> write_target \<Rightarrow> bool" where
  "sendable job d b mapping r wt \<longleftrightarrow> named_mapping job = Some mapping \<and> jbBusiness (cjJob job) = Some b
     \<and> readTarget mapping (targets_at d) = Some r
     \<and> (case json_number (jbPayload (cjJob job)) ''targetVersion'' of None \<Rightarrow> True | Some v \<Rightarrow> ctVersion r \<le> v)
     \<and> ctState r \<noteq> TargetBlocked \<and> (case ctWritten r of None \<Rightarrow> True | Some w \<Rightarrow> w < ctVersion r)
     \<and> resolveWriteTarget (hbMarket (hub_at d)) b mapping = Writable wt
     \<and> mayWrite b mapping (hbPilot (hub_at d)) = Allowed"

lemma handle_sendable:
  assumes "sendable job d b mapping r wt"
  shows "handleChannelWrite adapterFor job d = send_write adapterFor job b mapping r wt d"
  using assms unfolding sendable_def handleChannelWrite_def named_mapping_def Let_def
  by (auto split: option.splits)

text \<open>
  Otherwise it is an action built of answers and of statements on the pilot, the alerts and the
  block of the target.
\<close>

lemma handle_otherwise:
  assumes no: "\<And>b mapping r wt. \<not> sendable job d b mapping r wt"
    and P_answer: "\<And>res. res \<noteq> Finished \<Longrightarrow> P (answer res)"
    and P_pilot: "\<And>f k. (\<And>x. P (k x)) \<Longrightarrow> P (andthen (on_pilot f) k)"
    and P_alerts: "\<And>b m reason k. (\<And>x. P (k x)) \<Longrightarrow> P (andthen (on_alerts (alertMappingBlocked b m reason)) k)"
    and P_block: "\<And>m reason k. (\<And>x. P (k x)) \<Longrightarrow> P (andthen (on_targets (command (blockTarget m reason))) k)"
  shows "\<exists>n. handleChannelWrite adapterFor job d = n d \<and> P n"
proof -
  have some: "P n \<Longrightarrow> \<exists>k. n d = k d \<and> P k" for n by blast
  consider (unnamed) "named_mapping job = None" | (nobody) "jbBusiness (cjJob job) = None"
    | (gone) m b where "named_mapping job = Some m" "jbBusiness (cjJob job) = Some b" "readTarget m (targets_at d) = None"
    | (there) m b r where "named_mapping job = Some m" "jbBusiness (cjJob job) = Some b" "readTarget m (targets_at d) = Some r"
    by (cases "named_mapping job"; cases "jbBusiness (cjJob job)"; cases "readTarget (the (named_mapping job)) (targets_at d)") auto
  then show ?thesis
  proof cases
    case (there m b r)
    have "\<forall>wt. \<not> sendable job d b m r wt" using no by simp
    with there show ?thesis
      unfolding handleChannelWrite_def sendable_def named_mapping_def Let_def
      by (auto simp del: json_simps intro!: some P_answer P_pilot P_alerts P_block
          split: option.splits write_target_result.splits write_decision.splits)
  qed (auto simp: handleChannelWrite_def named_mapping_def Let_def simp del: json_simps intro!: some P_answer split: option.splits)
qed

lemma handle_unsendable:
  assumes "\<And>b mapping r wt. \<not> sendable job d b mapping r wt"
  shows "dkSent (snd (handleChannelWrite adapterFor job d)) = dkSent d"
    and "fst (handleChannelWrite adapterFor job d) \<noteq> Inr Finished"
proof -
  let ?P = "\<lambda>n :: job_result act. silent n \<and> (\<forall>d. fst (n d) \<noteq> Inr Finished)"
  have "\<exists>n. handleChannelWrite adapterFor job d = n d \<and> ?P n"
    by (rule handle_otherwise [OF assms])
      (auto intro!: silences simp: answer_def andthen_def split: prod.splits sum.splits)
  then show "dkSent (snd (handleChannelWrite adapterFor job d)) = dkSent d"
    "fst (handleChannelWrite adapterFor job d) \<noteq> Inr Finished" by (auto simp: silent_def)
qed

text \<open>
  C11: A provider is asked to change a quantity only when everything allows it: the job carries the
  newest version of the target, the target is neither blocked nor written already, the mapping may
  be written to and the pilot stage lets it through. One request is then sent at most, on the
  mapping's own connection and entity, for the quantity that is desired, under the key of that
  mapping and version, and conditioned on the version last observed.
\<close>

theorem provider_asked_only_when_allowed:
  assumes "handleChannelWrite adapterFor job d = (x, d')" and "dkSent d' \<noteq> dkSent d"
  shows "\<exists>b mapping r wt. named_mapping job = Some mapping \<and> jbBusiness (cjJob job) = Some b
     \<and> readTarget mapping (targets_at d) = Some r
     \<and> (case json_number (jbPayload (cjJob job)) ''targetVersion'' of None \<Rightarrow> True | Some v \<Rightarrow> ctVersion r \<le> v)
     \<and> ctState r \<noteq> TargetBlocked \<and> (case ctWritten r of None \<Rightarrow> True | Some w \<Rightarrow> w < ctVersion r)
     \<and> resolveWriteTarget (hbMarket (hub_at d)) b mapping = Writable wt
     \<and> mayWrite b mapping (hbPilot (hub_at d)) = Allowed
     \<and> dkSent d' = dkSent d @ [(wtConnection wt,
         \<lparr>qwEntity = \<lparr>enExternal = wtExternal wt, enVariation = None\<rparr>, qwQuantity = ctDesired r,
          qwExpected = ctObservedVersion r, qwKey = idempotency_key mapping (ctVersion r)\<rparr>)]"
proof -
  obtain b mapping r wt where s: "sendable job d b mapping r wt"
    using handle_unsendable(1) [of job d adapterFor] assms by fastforce
  with assms(1) have "send_write adapterFor job b mapping r wt d = (x, d')" by (simp add: handle_sendable)
  from send_write_sent [OF this] assms(2)
  have "dkSent d' = dkSent d @ [(wtConnection wt, write_request wt r (idempotency_key mapping (ctVersion r)))]" by simp
  with s show ?thesis unfolding sendable_def write_request_def by blast
qed


section \<open>The handlers as steps of the targets' life\<close>

text \<open>
  The targets of one office lead to those of another, from what has been read: a run of the steps
  of \<open>Delivery\<close>, in which more may have been read meanwhile.
\<close>

definition leads :: "reading set \<Rightarrow> targets \<Rightarrow> reading set \<Rightarrow> targets \<Rightarrow> bool" where
  "leads S t S' t' \<longleftrightarrow> target_step\<^sup>*\<^sup>* (t, S) (t', S')"

definition office_targets :: "office \<Rightarrow> targets" where
  "office_targets w = targets_of (ofHub w)"

text \<open>A call of the outside world during which the targets only take such steps.\<close>

definition lawful :: "(office \<Rightarrow> (exn + 'a) \<times> office) \<Rightarrow> bool" where
  "lawful f \<longleftrightarrow> (\<forall>w x w' S. f w = (x, w') \<longrightarrow> (\<exists>S'. leads S (office_targets w) S' (office_targets w')))"

definition lawful_factory :: "office adapter_factory \<Rightarrow> bool" where
  "lawful_factory adapterFor \<longleftrightarrow> (\<forall>c. lawful (adapterFor c)
     \<and> (\<forall>w adapter w'. adapterFor c w = (Inr adapter, w') \<longrightarrow>
          (\<forall>ws. lawful (adWrite adapter ws)) \<and> (\<forall>es. lawful (adRead adapter es))))"

lemma leads_refl [simp]: "leads S t S t"
  by (simp add: leads_def)

lemma leads_trans: "leads S t S1 t1 \<Longrightarrow> leads S1 t1 S2 t2 \<Longrightarrow> leads S t S2 t2"
  unfolding leads_def by (rule rtranclp_trans)

lemma leads_step: "target_step (t, S) (t', S') \<Longrightarrow> leads S t S' t'"
  by (simp add: leads_def r_into_rtranclp)

lemma leads_elsewhere: "tgNext t' = tgNext t \<Longrightarrow> tgRows t' = tgRows t \<Longrightarrow> tgAttempts t' = tgAttempts t \<Longrightarrow> leads S t S t'"
proof (rule leads_step)
  assume "tgNext t' = tgNext t" "tgRows t' = tgRows t" "tgAttempts t' = tgAttempts t"
  then have "t' = t\<lparr>tgNow := tgNow t', tgMappings := tgMappings t', tgJobs := tgJobs t'\<rparr>" by simp
  moreover have "target_step (t, S) (t\<lparr>tgNow := tgNow t', tgMappings := tgMappings t', tgJobs := tgJobs t'\<rparr>, S)"
    by (rule target_step.elsewhere)
  ultimately show "target_step (t, S) (t', S)" by simp
qed

lemma target_step_reads: "target_step (t, S) (t', S') \<Longrightarrow> S \<subseteq> S'"
  by (auto elim: target_stepE)

lemma leads_reads: "leads S t S' t' \<Longrightarrow> S \<subseteq> S'"
  unfolding leads_def
proof (induction rule: rtranclp_induct2)
  case (step t1 S1 t2 S2)
  from target_step_reads [OF step.hyps(2)] step.IH show ?case by simp
qed simp

text \<open>Actions whose targets are led on, given what has been read.\<close>

definition leading :: "reading set \<Rightarrow> 'a act \<Rightarrow> bool" where
  "leading S m \<longleftrightarrow> (\<forall>d x d' S0. S \<subseteq> S0 \<longrightarrow> m d = (x, d') \<longrightarrow> (\<exists>S'. leads S0 (targets_at d) S' (targets_at d')))"

lemma leadingD: "leading S m \<Longrightarrow> m d = (x, d') \<Longrightarrow> S \<subseteq> S0 \<Longrightarrow> \<exists>S'. leads S0 (targets_at d) S' (targets_at d')"
  unfolding leading_def by blast

named_theorems leadings

lemma leading_answer [leadings]: "leading S (answer x)"
  by (auto simp: leading_def answer_def intro: leads_refl)

lemma leading_andthen_from:
  assumes "leading S m" "\<And>d x d1. m d = (Inr x, d1) \<Longrightarrow> leading S (f x)"
  shows "leading S (andthen m f)"
  unfolding leading_def
proof (intro allI impI)
  fix d x d' S0
  assume S: "S \<subseteq> S0" and run: "andthen m f d = (x, d')"
  from run show "\<exists>S'. leads S0 (targets_at d) S' (targets_at d')"
  proof (cases rule: andthen_cases)
    case (1 e)
    from leadingD [OF assms(1) 1(1) S] show ?thesis .
  next
    case (2 y d1)
    from leadingD [OF assms(1) 2(1) S] obtain S1 where 1: "leads S0 (targets_at d) S1 (targets_at d1)" by blast
    with S have "S \<subseteq> S1" using leads_reads by blast
    from leadingD [OF assms(2) [OF 2(1)] 2(2) this] 1 show ?thesis using leads_trans by blast
  qed
qed

lemma leading_andthen [leadings]: "leading S m \<Longrightarrow> (\<And>x. leading S (f x)) \<Longrightarrow> leading S (andthen m f)"
  by (rule leading_andthen_from)

lemma targets_at_same: "hbTargets (hub_at d') = hbTargets (hub_at d) \<Longrightarrow> leads S (targets_at d) S (targets_at d')"
  by (rule leads_elsewhere) (simp_all add: targets_at_def targets_of_def)

lemma leading_on_pilot [leadings]: "leading S (on_pilot f)"
  unfolding leading_def on_pilot_def by (force split: sum.splits intro: targets_at_same)

lemma leading_on_queue [leadings]: "leading S (on_queue f)"
  unfolding leading_def on_queue_def by (force split: sum.splits intro: targets_at_same)

lemma leading_on_alerts [leadings]: "leading S (on_alerts f)"
  unfolding leading_def on_alerts_def by (force split: sum.splits intro: targets_at_same simp: hub_at_def)

lemma leading_outside [leadings]: "lawful f \<Longrightarrow> leading S (outside f)"
  by (force simp: leading_def lawful_def outside_def targets_at_def hub_at_def office_targets_def split: prod.splits)

lemma leading_send [leadings]: "(\<And>ws. lawful (adWrite adapter ws)) \<Longrightarrow> leading S (send adapter c w)"
  by (force simp: leading_def lawful_def send_def outside_def targets_at_def hub_at_def office_targets_def split: prod.splits)

text \<open>A statement on the targets that is a step, or changes nothing.\<close>

lemma leading_on_targets:
  assumes "\<And>t x t' S0. S \<subseteq> S0 \<Longrightarrow> f t = (x, t') \<Longrightarrow> t' = t \<or> target_step (t, S0) (t', S0)"
  shows "leading S (on_targets f)"
  unfolding leading_def
proof (intro allI impI)
  fix d x d' S0
  assume S: "S \<subseteq> S0" and run: "on_targets f d = (x, d')"
  obtain y t where f: "f (targets_at d) = (y, t)" by (cases "f (targets_at d)")
  with run have d': "d' = on_hub (hbTargets_update (\<lambda>_. t)) d" by (simp add: on_targets_def)
  from assms [OF S f] have "leads S0 (targets_at d) S0 t" by (auto intro: leads_step)
  moreover have "leads S0 t S0 (targets_at d')"
    by (rule leads_elsewhere) (simp_all add: d' targets_at_def targets_of_def)
  ultimately show "\<exists>S'. leads S0 (targets_at d) S' (targets_at d')" using leads_trans by blast
qed

lemma leading_settle [leadings]: "(m, v, q) \<in> S \<Longrightarrow> leading S (on_targets (settleWriteAttempt a m v q s))"
  by (rule leading_on_targets) (auto intro: target_step.settled)

lemma leading_begin [leadings]:
  "(wiMapping i, wiVersion i, wiQuantity i) \<in> S \<Longrightarrow> leading S (on_targets (statement (beginWriteAttempt i)))"
  by (rule leading_on_targets) (auto simp: statement_def split: sum.splits intro: target_step.begun)

lemma leading_block [leadings]: "leading S (on_targets (command (blockTarget m reason)))"
  by (rule leading_on_targets) (auto simp: command_def split: sum.splits intro: target_step.blocked)

lemma leading_observe [leadings]: "leading S (on_targets (command (recordObservation ob)))"
  by (rule leading_on_targets) (auto simp: command_def split: sum.splits intro: target_step.observed)

lemma leading_verified [leadings]:
  "leading S (on_targets (command (update_targets (\<lambda>r. ctMapping r = m) (verified_row agrees reason))))"
  by (rule leading_on_targets) (auto simp: command_def split: sum.splits intro: target_step.verified)

lemma leading_failWrite [leadings]: "(m, v, q) \<in> S \<Longrightarrow> leading S (failWrite a m v q f)"
  unfolding failWrite_def by (intro leadings) (auto intro!: leadings split: option.splits)

lemma leading_conclude [leadings]:
  "(m, ctVersion r, ctDesired r) \<in> S \<Longrightarrow> leading S (conclude_write b m r c outcome a)"
  unfolding conclude_write_def by (cases outcome) (auto intro!: leadings)

lemma leading_compare [leadings]: "leading S (compare_observation m q)"
  unfolding leading_def
proof (intro allI impI)
  fix d x d' S0
  assume S: "S \<subseteq> S0" and run: "compare_observation m q d = (x, d')"
  have "\<exists>n :: job_result act. leading S n \<and> n d = (x, d')"
    using run unfolding compare_observation_def by (fastforce intro: leadings split: option.splits)
  then show "\<exists>S'. leads S0 (targets_at d) S' (targets_at d')" using leadingD S by blast
qed


lemma lawful_adapter:
  assumes "lawful_factory adapterFor" "outside (adapterFor c) d = (Inr adapter, d1)"
  shows "lawful (adWrite adapter ws)" "lawful (adRead adapter es)"
proof -
  from assms(2) obtain w where "adapterFor c (dkOffice d) = (Inr adapter, w)"
    by (auto simp: outside_def split: prod.splits)
  with assms(1) show "lawful (adWrite adapter ws)" "lawful (adRead adapter es)"
    unfolding lawful_factory_def by blast+
qed

lemma lawful_building: "lawful_factory adapterFor \<Longrightarrow> lawful (adapterFor c)"
  by (simp add: lawful_factory_def)

lemma leading_send_write:
  assumes "lawful_factory adapterFor" "(mapping, ctVersion r, ctDesired r) \<in> S"
  shows "leading S (send_write adapterFor job b mapping r wt)"
  unfolding send_write_def
proof (rule leading_andthen_from)
  show "leading S (outside (adapterFor (wtConnection wt)))"
    by (intro leadings lawful_building assms)
  fix d adapter d1
  assume "outside (adapterFor (wtConnection wt)) d = (Inr adapter, d1)"
  note lawful = lawful_adapter [OF assms(1) this]
  show "leading S (andthen (on_targets (statement (beginWriteAttempt \<lparr>wiBusiness = b, wiMapping = mapping,
      wiJob = jbId (cjJob job), wiVersion = ctVersion r, wiQuantity = ctDesired r\<rparr>))) (\<lambda>(attempt, key).
     andthen (send adapter (wtConnection wt) (write_request wt r key)) (\<lambda>written.
     conclude_write b mapping r (wtConnection wt) (per_entity written) attempt)))"
    using assms(2) by (auto intro!: leadings lawful)
qed

lemma read_leads:
  assumes "readTarget mapping (targets_at d) = Some r"
  shows "leads S (targets_at d) (insert (mapping, ctVersion r, ctDesired r) S) (targets_at d)"
  by (rule leads_step, rule target_step.read [OF assms])

lemma handle_write_leads:
  assumes "lawful_factory adapterFor" "handleChannelWrite adapterFor job d = (x, d')"
  shows "\<exists>S'. leads S (targets_at d) S' (targets_at d')"
proof (cases "\<exists>b mapping r wt. sendable job d b mapping r wt")
  case True
  then obtain b mapping r wt where s: "sendable job d b mapping r wt" by blast
  then have "readTarget mapping (targets_at d) = Some r" by (simp add: sendable_def)
  note read = read_leads [OF this, of S]
  from assms(2) s have "send_write adapterFor job b mapping r wt d = (x, d')" by (simp add: handle_sendable)
  with leadingD [OF leading_send_write [OF assms(1)], of mapping r "insert (mapping, ctVersion r, ctDesired r) S"]
  obtain S' where "leads (insert (mapping, ctVersion r, ctDesired r) S) (targets_at d) S' (targets_at d')" by blast
  with read show ?thesis using leads_trans by blast
next
  case False
  then have "\<exists>n. handleChannelWrite adapterFor job d = n d \<and> leading S n"
    by (intro handle_otherwise) (auto intro!: leadings)
  with assms(2) obtain n where "n d = (x, d')" "leading S n" by metis
  then show ?thesis using leadingD by blast
qed

lemma handle_verify_leads:
  assumes "lawful_factory adapterFor" "handleChannelVerify adapterFor job d = (x, d')"
  shows "\<exists>S'. leads S (targets_at d) S' (targets_at d')"
proof -
  have verify: "leading S (andthen (outside (adapterFor c)) (\<lambda>adapter.
      andthen (outside (adRead adapter es)) (\<lambda>got.
      case got of
        Failure f \<Rightarrow> answer (toJobFailure f)
      | Success [] \<Rightarrow> answer (Failed k m False None)
      | Success (ob # _) \<Rightarrow> andthen (on_targets (command (recordObservation (input ob)))) (\<lambda>_.
          compare_observation mapping (qrQuantity ob)))))" for c es k m input mapping
  proof (rule leading_andthen_from)
    show "leading S (outside (adapterFor c))" by (intro leadings lawful_building assms)
    fix d adapter d1
    assume "outside (adapterFor c) d = (Inr adapter, d1)"
    note lawful = lawful_adapter [OF assms(1) this]
    show "leading S (andthen (outside (adRead adapter es)) (\<lambda>got.
      case got of
        Failure f \<Rightarrow> answer (toJobFailure f)
      | Success [] \<Rightarrow> answer (Failed k m False None)
      | Success (ob # _) \<Rightarrow> andthen (on_targets (command (recordObservation (input ob)))) (\<lambda>_.
          compare_observation mapping (qrQuantity ob))))"
      by (auto intro!: leadings lawful split: provider_result.splits list.splits)
  qed
  have some: "leading S n \<Longrightarrow> \<exists>k. n d = k d \<and> leading S k" for n :: "job_result act" by blast
  have "\<exists>n. handleChannelVerify adapterFor job d = n d \<and> leading S n"
    unfolding handleChannelVerify_def Let_def
    by (auto simp del: json_simps intro!: some leadings verify split: option.splits write_target_result.splits)
  with assms(2) obtain n where "n d = (x, d')" "leading S n" by metis
  then show ?thesis using leadingD by blast
qed


section \<open>Promises of the handlers\<close>

text \<open>
  C12: Whatever the providers answer and however long they take, everything a write or a verification
  job does to the channel targets is a run of the steps of \<open>Delivery\<close>; so a target it leaves
  converged is delivered, no key carries two quantities and no version goes back, as proved there.
\<close>

theorem dispatch_follows_the_protocol:
  assumes "lawful_factory adapterFor" and "handler = handleChannelWrite \<or> handler = handleChannelVerify"
    and "handler adapterFor job d = (x, d')"
  shows "\<exists>S'. S \<subseteq> S' \<and> target_step\<^sup>*\<^sup>* (targets_at d, S) (targets_at d', S')"
proof -
  have "\<exists>S'. leads S (targets_at d) S' (targets_at d')"
    using assms(2)
  proof
    assume "handler = handleChannelWrite"
    with assms(3) have "handleChannelWrite adapterFor job d = (x, d')" by simp
    then show ?thesis by (rule handle_write_leads [OF assms(1)])
  next
    assume "handler = handleChannelVerify"
    with assms(3) have "handleChannelVerify adapterFor job d = (x, d')" by simp
    then show ?thesis by (rule handle_verify_leads [OF assms(1)])
  qed
  then obtain S' where l: "leads S (targets_at d) S' (targets_at d')" by blast
  with leads_reads [OF l] show ?thesis by (auto simp: leads_def)
qed

lemma settled_written:
  assumes "settleWriteAttempt a m v q (settlement_of k) t = (Inr u, t')" "r \<in> set (tgRows t)" "ctMapping r = m"
  shows "\<exists>r' \<in> set (tgRows t'). ctMapping r' = m \<and> v \<le> written_or r'"
proof -
  obtain observed where u: "update_targets (\<lambda>x. ctMapping x = m \<and> written_or x < v) (written_row v q observed)
      (update_attempts_of a (settled_attempt (settlement_of k) (tgNow t)) t) = Inr t'"
    using assms(1) by (auto simp: settleWriteAttempt_def settlement_of_def Let_def split: sum.splits if_splits)
  have rows: "tgRows t' = update_where (\<lambda>x. ctMapping x = m \<and> written_or x < v) (written_row v q observed) (tgRows t)"
    using update_targets_Inr [OF u] by (simp add: update_attempts_of_def)
  let ?r = "if written_or r < v then written_row v q observed r else r"
  have "?r \<in> set (tgRows t')" unfolding rows set_update_where using assms(2,3) by auto
  moreover have "ctMapping ?r = m" "v \<le> written_or ?r" using assms(3) by (auto simp: written_row_def written_or_def)
  ultimately show ?thesis by blast
qed

lemma insert_job_undeduped:
  assumes "insert_job input q = Inr (inserted, q')" "eqDedupe input = None"
  shows "inserted = Some (new_job input (quNow q) (quNextUuid q)) \<and> new_job input (quNow q) (quNextUuid q) \<in> set (quJobs q')"
proof -
  have "pending_key (new_job input (quNow q) (quNextUuid q)) = None"
    using assms(2) by (simp add: pending_key_def new_job_def Let_def)
  with assms(1) show ?thesis by (auto simp: insert_job_def Let_def result_simps)
qed

lemma enqueue_verify:
  assumes "enqueue (verify_job b c m v a) id q = Inr (y, q')"
  shows "\<exists>j \<in> set (quJobs q'). jbKind j = CHANNEL_VERIFY_JOB
    \<and> jbPayload j = [(''mappingId'', JsonId m), (''targetVersion'', JsonNumber v), (''attemptId'', JsonId a)]"
proof -
  let ?i = "verify_job b c m v a" and ?j = "new_job (verify_job b c m v a) (quNow q) (quNextUuid q)"
  obtain inserted q1 where i: "insert_job ?i q = Inr (inserted, q1)"
    using assms by (auto simp: enqueue_def result_simps)
  have "eqDedupe ?i = None" by (simp add: verify_job_def)
  note new = insert_job_undeduped [OF i this]
  with assms i have "q' = q1" by (simp add: enqueue_def)
  with new have "?j \<in> set (quJobs q')" by simp
  moreover have "jbKind ?j = CHANNEL_VERIFY_JOB"
    "jbPayload ?j = [(''mappingId'', JsonId m), (''targetVersion'', JsonNumber v), (''attemptId'', JsonId a)]"
    by (simp_all add: new_job_def verify_job_def given_or_def Let_def)
  ultimately show ?thesis by blast
qed

lemma conclude_finished:
  assumes "conclude_write b m r c outcome a d = (Inr Finished, d')" "x \<in> set (tgRows (targets_at d))" "ctMapping x = m"
  shows "(\<exists>r' \<in> set (tgRows (targets_at d')). ctMapping r' = m \<and> ctVersion r \<le> written_or r')
    \<and> (\<exists>j \<in> set (quJobs (hbQueue (hub_at d'))). jbKind j = CHANNEL_VERIFY_JOB
         \<and> jbPayload j = [(''mappingId'', JsonId m), (''targetVersion'', JsonNumber (ctVersion r)), (''attemptId'', JsonId a)])"
proof (cases outcome)
  case (Failure f)
  have "failWrite a m (ctVersion r) (ctDesired r) f d = (Inr Finished, d')" using assms(1) Failure by (simp add: conclude_write_def)
  then show ?thesis by (cases f) (auto simp: failWrite_def andthen_Inr answer_def)
next
  case (Success k)
  with assms(1) obtain u d1 d2 where settled: "on_targets (settleWriteAttempt a m (ctVersion r) (ctDesired r) (settlement_of k)) d = (Inr u, d1)"
    and marked: "on_pilot (\<lambda>p. Inr (markConverged m (ctVersion r) p)) d1 = (Inr (), d2)"
    and queued: "\<exists>y. on_queue (enqueue (verify_job b c m (ctVersion r) a) id) d2 = (Inr y, d')"
    by (auto simp: conclude_write_def andthen_Inr answer_def)
  from settled obtain t where t: "settleWriteAttempt a m (ctVersion r) (ctDesired r) (settlement_of k) (targets_at d) = (Inr u, t)"
    and d1: "d1 = on_hub (hbTargets_update (\<lambda>_. t)) d" by (auto simp: on_targets_def split: prod.splits)
  have "tgRows (targets_at d1) = tgRows t" by (simp add: d1 targets_at_def targets_of_def)
  moreover have "tgRows (targets_at d2) = tgRows (targets_at d1)" using marked by (auto simp: on_pilot_def targets_at_def targets_of_def)
  moreover from queued obtain y q where q: "enqueue (verify_job b c m (ctVersion r) a) id (hbQueue (hub_at d2)) = Inr (y, q)"
    and d': "d' = on_hub (hbQueue_update (\<lambda>_. q)) d2" by (auto simp: on_queue_def split: sum.splits)
  moreover have "tgRows (targets_at d') = tgRows (targets_at d2)" by (simp add: d' targets_at_def targets_of_def)
  ultimately have rows: "tgRows (targets_at d') = tgRows t" by simp
  from enqueue_verify [OF q] have "\<exists>j \<in> set (quJobs (hbQueue (hub_at d'))). jbKind j = CHANNEL_VERIFY_JOB
     \<and> jbPayload j = [(''mappingId'', JsonId m), (''targetVersion'', JsonNumber (ctVersion r)), (''attemptId'', JsonId a)]"
    by (auto simp: d')
  with settled_written [OF t assms(2,3)] show ?thesis by (simp add: rows)
qed

lemma leads_keeps_rows:
  assumes "leads S t S' t'" "targets_good (t, S)" "r \<in> set (tgRows t)"
  shows "\<exists>r' \<in> set (tgRows t'). ctMapping r' = ctMapping r"
  using target_run_good [of "(t, S)" "(t', S')"] assms by (auto simp: leads_def advances_def advanced_def)

text \<open>
  C14: A write job that finishes has delivered: its channel is on record as written with the version
  the job read or a newer one, exactly one request went out, and a verification read of that
  mapping and version waits in the queue.
\<close>

theorem finished_write_is_delivered:
  assumes "lawful_factory adapterFor" and "target_step\<^sup>*\<^sup>* (t0, {}) (targets_at d, S)" and "untouched t0"
    and "handleChannelWrite adapterFor job d = (Inr Finished, d')"
  shows "\<exists>mapping r r' w j a. named_mapping job = Some mapping \<and> readTarget mapping (targets_at d) = Some r
    \<and> dkSent d' = dkSent d @ [w] \<and> r' \<in> set (tgRows (targets_at d')) \<and> ctMapping r' = mapping \<and> ctVersion r \<le> written_or r'
    \<and> j \<in> set (quJobs (hbQueue (hub_at d'))) \<and> jbKind j = CHANNEL_VERIFY_JOB
    \<and> jbPayload j = [(''mappingId'', JsonId mapping), (''targetVersion'', JsonNumber (ctVersion r)), (''attemptId'', JsonId a)]"
proof (cases "\<exists>b mapping r wt. sendable job d b mapping r wt")
  case True
  then obtain b mapping r wt where s: "sendable job d b mapping r wt" by blast
  let ?S = "insert (mapping, ctVersion r, ctDesired r) S"
  from s have read: "readTarget mapping (targets_at d) = Some r" by (simp add: sendable_def)
  then have r: "r \<in> set (tgRows (targets_at d))" "ctMapping r = mapping"
    using target_table.lookup_key by (auto simp: readTarget_def)
  have good: "targets_good (targets_at d, S)" using target_run_good [OF assms(2)] untouched_good [OF assms(3)] by simp
  with target_step_good [OF target_step.read [OF read, of S]] have good': "targets_good (targets_at d, ?S)" by simp
  from assms(4) s have "send_write adapterFor job b mapping r wt d = (Inr Finished, d')" by (simp add: handle_sendable)
  then obtain adapter d1 a key d2 written d3 where
      built: "outside (adapterFor (wtConnection wt)) d = (Inr adapter, d1)"
    and begun: "on_targets (statement (beginWriteAttempt \<lparr>wiBusiness = b, wiMapping = mapping, wiJob = jbId (cjJob job),
                wiVersion = ctVersion r, wiQuantity = ctDesired r\<rparr>)) d1 = (Inr (a, key), d2)"
    and sent: "send adapter (wtConnection wt) (write_request wt r key) d2 = (Inr written, d3)"
    and concluded: "conclude_write b mapping r (wtConnection wt) (per_entity written) a d3 = (Inr Finished, d')"
    by (auto simp: send_write_def andthen_Inr split: prod.splits)
  have "leading ?S (outside (adapterFor (wtConnection wt)))" by (intro leadings lawful_building assms)
  from leadingD [OF this built subset_refl] obtain S1 where l1: "leads ?S (targets_at d) S1 (targets_at d1)" by blast
  from leads_reads [OF this] have S1: "?S \<subseteq> S1" .
  have "leading ?S (on_targets (statement (beginWriteAttempt \<lparr>wiBusiness = b, wiMapping = mapping, wiJob = jbId (cjJob job),
                wiVersion = ctVersion r, wiQuantity = ctDesired r\<rparr>)))" by (intro leadings) simp
  from leadingD [OF this begun S1] obtain S2 where l2: "leads S1 (targets_at d1) S2 (targets_at d2)" by blast
  have "leading {} (send adapter (wtConnection wt) (write_request wt r key))"
    by (intro leadings) (rule lawful_adapter [OF assms(1) built])
  from leadingD [OF this sent] obtain S3 where "leads S2 (targets_at d2) S3 (targets_at d3)" by blast
  with l1 l2 have "leads ?S (targets_at d) S3 (targets_at d3)" using leads_trans by blast
  from leads_keeps_rows [OF this good' r(1)] r(2) obtain x where "x \<in> set (tgRows (targets_at d3))" "ctMapping x = mapping" by blast
  note finished = conclude_finished [OF concluded this]
  have "dkSent d2 = dkSent d" using silentD [OF silent_outside built] silentD [OF silent_on_targets begun] by simp
  with send_sent [OF sent] silentD [OF silent_conclude concluded]
  have "dkSent d' = dkSent d @ [(wtConnection wt, write_request wt r key)]" by simp
  with finished read s show ?thesis unfolding sendable_def by blast
next
  case False
  with handle_unsendable(2) [of job d adapterFor] assms(4) show ?thesis by auto
qed


section \<open>Failures\<close>

lemma on_targets_Inr:
  "on_targets f d = (Inr x, d') \<longleftrightarrow> (\<exists>t. f (targets_at d) = (Inr x, t) \<and> d' = on_hub (hbTargets_update (\<lambda>_. t)) d)"
  by (auto simp: on_targets_def split: prod.splits)

lemma targets_at_put [simp]: "tgRows (targets_at (on_hub (hbTargets_update (\<lambda>_. t)) d)) = tgRows t"
  "hbPilot (hub_at (on_hub (hbTargets_update (\<lambda>_. t)) d)) = hbPilot (hub_at d)"
  "hbMarket (hub_at (on_hub (hbTargets_update (\<lambda>_. t)) d)) = hbMarket (hub_at d)"
  by (simp_all add: targets_at_def targets_of_def)

lemma command_Inr: "command f s = (Inr u, s') \<longleftrightarrow> f s = Inr s'"
  by (auto simp: command_def split: sum.splits)

text \<open>The row a failed write leaves.\<close>

definition failed_row :: "provider_failure \<Rightarrow> target \<Rightarrow> target" where
  "failed_row f r = r\<lparr>ctState := (if blocking_failure f then TargetBlocked else TargetDegraded),
     ctStateReason := Some (describeFailure f), ctFailures := ctFailures r + 1\<rparr>"

lemma update_where_twice:
  "(\<And>r. p (f r) = p r) \<Longrightarrow> update_where p g (update_where p f rows) = update_where p (\<lambda>r. g (f r)) rows"
  by (induction rows) auto

lemma failWrite_Inr:
  assumes "failWrite a m v q f d = (Inr res, d')"
  shows "res = toJobFailure f"
    and "tgRows (targets_at d') = update_where (\<lambda>r. ctMapping r = m) (failed_row f) (tgRows (targets_at d))"
    and "hbPilot (hub_at d') = (case excluding_reason f of None \<Rightarrow> hbPilot (hub_at d)
           | Some reason \<Rightarrow> excludeSample m v reason (hbPilot (hub_at d)))"
    and "hbMarket (hub_at d') = hbMarket (hub_at d)"
proof -
  let ?degraded = "\<lambda>r. r\<lparr>ctState := TargetDegraded, ctStateReason := Some (describeFailure f), ctFailures := ctFailures r + 1\<rparr>"
  obtain u1 d1 u2 d2 u3 where 1: "on_targets (settleWriteAttempt a m v q (FailedWrite (failure_status f) (describeFailure f))) d = (Inr u1, d1)"
    and 2: "(if blocking_failure f then on_targets (command (blockTarget m (describeFailure f))) else answer ()) d1 = (Inr u2, d2)"
    and 3: "(case excluding_reason f of None \<Rightarrow> answer () | Some reason \<Rightarrow> on_pilot (\<lambda>p. Inr (excludeSample m v reason p))) d2 = (Inr u3, d')"
    and res: "res = toJobFailure f"
    using assms by (auto simp: failWrite_def andthen_Inr answer_def)
  then show "res = toJobFailure f" by simp
  from 1 obtain t where t: "settleWriteAttempt a m v q (FailedWrite (failure_status f) (describeFailure f)) (targets_at d) = (Inr u1, t)"
    and d1: "d1 = on_hub (hbTargets_update (\<lambda>_. t)) d" by (auto simp: on_targets_Inr)
  have "update_targets (\<lambda>r. ctMapping r = m) ?degraded
      (update_attempts_of a (settled_attempt (FailedWrite (failure_status f) (describeFailure f)) (tgNow (targets_at d))) (targets_at d)) = Inr t"
    using t by (auto simp: settleWriteAttempt_def Let_def split: sum.splits)
  from update_targets_Inr [OF this] have rows1: "tgRows (targets_at d1) = update_where (\<lambda>r. ctMapping r = m) ?degraded (tgRows (targets_at d))"
    by (simp add: d1 update_attempts_of_def)
  have two: "tgRows (targets_at d2) = update_where (\<lambda>r. ctMapping r = m) (failed_row f) (tgRows (targets_at d))
    \<and> hbPilot (hub_at d2) = hbPilot (hub_at d) \<and> hbMarket (hub_at d2) = hbMarket (hub_at d)"
  proof (cases "blocking_failure f")
    case True
    with 2 obtain t2 where b: "blockTarget m (describeFailure f) (targets_at d1) = Inr t2"
      and d2: "d2 = on_hub (hbTargets_update (\<lambda>_. t2)) d1" by (auto simp: on_targets_Inr command_Inr)
    have "(\<lambda>r. r\<lparr>ctFailures := ctFailures r + 1, ctState := TargetBlocked, ctStateReason := Some (describeFailure f)\<rparr>) = failed_row f"
      by (simp add: fun_eq_iff failed_row_def True)
    with update_targets_Inr [OF b [unfolded blockTarget_def]] rows1
    have "tgRows (targets_at d2) = update_where (\<lambda>r. ctMapping r = m) (failed_row f) (tgRows (targets_at d))"
      by (simp add: d2 update_where_twice)
    then show ?thesis by (simp add: d2 d1)
  next
    case False
    have "failed_row f = ?degraded" by (simp add: failed_row_def False fun_eq_iff)
    moreover from 2 False have "d2 = d1" by (simp add: answer_def)
    ultimately show ?thesis using rows1 by (simp add: d1)
  qed
  have three: "tgRows (targets_at d') = tgRows (targets_at d2) \<and> hbMarket (hub_at d') = hbMarket (hub_at d2)
    \<and> hbPilot (hub_at d') = (case excluding_reason f of None \<Rightarrow> hbPilot (hub_at d2)
        | Some reason \<Rightarrow> excludeSample m v reason (hbPilot (hub_at d2)))"
    using 3 by (auto simp: answer_def on_pilot_def targets_at_def targets_of_def split: option.splits)
  from two three show "tgRows (targets_at d') = update_where (\<lambda>r. ctMapping r = m) (failed_row f) (tgRows (targets_at d))"
    "hbMarket (hub_at d') = hbMarket (hub_at d)" by simp_all
  show "hbPilot (hub_at d') = (case excluding_reason f of None \<Rightarrow> hbPilot (hub_at d)
      | Some reason \<Rightarrow> excludeSample m v reason (hbPilot (hub_at d)))"
    using two three by (simp split: option.splits)
qed

text \<open>
  C17: A failed write is filed by its kind: the target is blocked when the credential is refused or
  the entity is gone and degraded otherwise; the queue is told to try again exactly when the same
  call is worth repeating or the write raced, after the provider's own interval when it gave one;
  and only throttling and unavailability take the change out of the measured ones.
\<close>

theorem failed_write_is_filed:
  assumes "failWrite a m v q f d = (Inr res, d')" and "r \<in> set (tgRows (targets_at d))" and "ctMapping r = m"
  shows "res = Failed (failure_status f) (describeFailure f)
      (isRetryable (Failure f) \<or> failure_status f = ''conflict'') (case f of RateLimited ms left \<Rightarrow> Some ms | _ \<Rightarrow> None)
    \<and> r\<lparr>ctState := (case f of Unauthorized _ _ \<Rightarrow> TargetBlocked | NotFound _ \<Rightarrow> TargetBlocked | _ \<Rightarrow> TargetDegraded),
        ctStateReason := Some (describeFailure f), ctFailures := ctFailures r + 1\<rparr> \<in> set (tgRows (targets_at d'))
    \<and> (hbPilot (hub_at d') = hbPilot (hub_at d) \<or> failure_status f \<in> {''rate_limited'', ''unavailable''})"
proof -
  note filed = failWrite_Inr [OF assms(1)]
  have "failed_row f r \<in> set (tgRows (targets_at d'))"
    unfolding filed(2) set_update_where using assms(2,3) by auto
  moreover have "failed_row f r = r\<lparr>ctState := (case f of Unauthorized _ _ \<Rightarrow> TargetBlocked | NotFound _ \<Rightarrow> TargetBlocked | _ \<Rightarrow> TargetDegraded),
        ctStateReason := Some (describeFailure f), ctFailures := ctFailures r + 1\<rparr>"
    by (cases f) (simp_all add: failed_row_def blocking_failure_def)
  ultimately show ?thesis using filed(1,3) by (cases f) (simp_all add: excluding_reason_def)
qed

text \<open>
  A write that raced is retried as it was: nothing about the target the request is made from
  changes, so while the rest stands still a retry hands the adapter the same request, conditioned
  on the same stale version.
\<close>

lemma a_conflict_is_sent_again:
  assumes "sendable job d b mapping r wt"
    and "failWrite a mapping (ctVersion r) (ctDesired r) (Conflict m version) d = (Inr res, d')"
    and "handleChannelWrite adapterFor job d' = (x, d2)" and "dkSent d2 \<noteq> dkSent d'"
  shows "dkSent d2 = dkSent d' @ [(wtConnection wt, write_request wt r (idempotency_key mapping (ctVersion r)))]"
proof -
  let ?f = "Conflict m version" and ?r = "failed_row (Conflict m version) r"
  note filed = failWrite_Inr [OF assms(2)]
  note s = assms(1) [unfolded sendable_def]
  have "readTarget mapping (targets_at d') = Some ?r"
    unfolding readTarget_def filed(2) using s
    by (subst lookup_replace) (auto simp: readTarget_def failed_row_def)
  then have "sendable job d' b mapping ?r wt"
    using s filed(3,4)
    by (auto simp: sendable_def failed_row_def blocking_failure_def excluding_reason_def simp del: json_simps split: option.splits)
  with assms(3) have "send_write adapterFor job b mapping ?r wt d' = (x, d2)" by (simp add: handle_sendable)
  from send_write_sent [OF this] assms(4) show ?thesis
    by (simp add: failed_row_def write_request_def)
qed


section \<open>A write and its answers\<close>

text \<open>
  The live mapping of \<open>Selling\<close> with a new target, its write job claimed, and a channel that answers
  at once and moves nothing.
\<close>

definition starting :: desired_input where
  "starting = \<lparr>diBusiness = 1, diMapping = 1000, diConnection = 61, diQuantity = 7, diReason = ''activation''\<rparr>"

definition bare_shelf :: targets where
  "bare_shelf = \<lparr>tgNow = 100, tgNext = 30, tgMappings = [(1, 1000)], tgJobs = [], tgRows = [], tgAttempts = []\<rparr>"

definition opened_shelf :: targets where
  "opened_shelf = bare_shelf\<lparr>tgRows := [desired_row starting]\<rparr>"

definition opened_counter :: hub where
  "opened_counter = \<lparr>hbMarket = live_stall,
     hbQueue = \<lparr>quNow = 100, quNextUuid = 71, quBusinesses = [1], quConnections = [(1, 61)],
       quJobs = [new_job (write_job 1 61 1000 1 False) 100 70], quAttempts = []\<rparr>,
     hbPilot = \<lparr>plNow = 100, plBusinesses = [1], plStages = [], plEnrolled = [], plWithheld = [], plSamples = []\<rparr>,
     hbTargets = opened_shelf\<rparr>"

definition opened_desk :: desk where
  "opened_desk = \<lparr>dkOffice = \<lparr>ofHub = opened_counter, ofAlerts = quiet\<rparr>, dkSent = []\<rparr>"

definition opened_job :: claimed_job where
  "opened_job = \<lparr>cjJob = (new_job (write_job 1 61 1000 1 False) 100 70), cjAttempt = 80, cjWorker = 90\<rparr>"

definition still_channel :: "acknowledgement provider_result \<Rightarrow> office adapter_factory" where
  "still_channel a c w = (Inr \<lparr>adWrite = (\<lambda>ws w. (Inr (Success [a]), w)), adRead = (\<lambda>es w. (Inr (Success []), w))\<rparr>, w)"

definition taken_well :: "acknowledgement provider_result" where
  "taken_well = Success \<lparr>akEntity = \<lparr>enExternal = ''e1'', enVariation = None\<rparr>, akVersion = Some ''v1'', akUnchanged = False\<rparr>"

lemma still_channel_lawful: "lawful_factory (still_channel a)"
  by (auto simp: lawful_factory_def lawful_def still_channel_def intro: leads_refl)

lemma opened_run: "target_step\<^sup>*\<^sup>* (bare_shelf, {}) (targets_at opened_desk, {})" "untouched bare_shelf"
proof -
  have "recordDesiredTarget starting bare_shelf = Inr (\<lparr>ddVersion = 1, ddQuantity = 7, ddChanged = True\<rparr>, opened_shelf)"
    by code_simp
  then have "leads {} bare_shelf {} opened_shelf" by (intro leads_step target_step.desired)
  moreover have "leads {} opened_shelf {} (targets_at opened_desk)"
    by (rule leads_elsewhere) (simp_all add: targets_at_def targets_of_def hub_at_def opened_desk_def opened_counter_def)
  ultimately show "target_step\<^sup>*\<^sup>* (bare_shelf, {}) (targets_at opened_desk, {})"
    unfolding leads_def by (rule rtranclp_trans)
  show "untouched bare_shelf" by (simp add: untouched_def bare_shelf_def)
qed

definition opened_run_result :: "(exn + job_result) \<times> desk" where
  "opened_run_result = handleChannelWrite (still_channel taken_well) opened_job opened_desk"

lemma opened_finished:
  "handleChannelWrite (still_channel taken_well) opened_job opened_desk = (Inr Finished, snd opened_run_result)"
proof -
  have "fst opened_run_result = Inr Finished" by code_simp
  then show ?thesis unfolding opened_run_result_def by (metis prod.collapse)
qed

lemma opened_row: "readTarget 1000 (targets_at opened_desk) = Some (desired_row starting)"
  by (simp add: readTarget_def targets_at_def targets_of_def hub_at_def opened_desk_def opened_counter_def
      opened_shelf_def desired_row_def starting_def)

theorem provider_asked_only_when_allowed_witness:
  "dkSent (snd opened_run_result) = [(61, \<lparr>qwEntity = \<lparr>enExternal = ''e1'', enVariation = None\<rparr>, qwQuantity = 7,
      qwExpected = None, qwKey = ''00000000-0000-0000-0000-0000000003e8:1''\<rparr>)]
   \<and> (\<exists>wt. resolveWriteTarget (hbMarket (hub_at opened_desk)) 1 1000 = Writable wt)"
proof -
  have sent: "dkSent (snd opened_run_result) = [(61, \<lparr>qwEntity = \<lparr>enExternal = ''e1'', enVariation = None\<rparr>, qwQuantity = 7,
      qwExpected = None, qwKey = ''00000000-0000-0000-0000-0000000003e8:1''\<rparr>)]" by code_simp
  then have "dkSent (snd opened_run_result) \<noteq> dkSent opened_desk" by (simp add: opened_desk_def)
  from provider_asked_only_when_allowed [OF opened_finished this] sent show ?thesis
    by (auto simp: named_mapping_def opened_job_def new_job_def write_job_def given_or_def Let_def)
qed

theorem dispatch_follows_the_protocol_witness:
  "\<exists>S'. target_step\<^sup>*\<^sup>* (targets_at opened_desk, {}) (targets_at (snd opened_run_result), S')"
  using dispatch_follows_the_protocol [where handler = handleChannelWrite, OF still_channel_lawful disjI1 [OF refl] opened_finished, of "{}"]
  by auto

theorem finished_write_is_delivered_witness:
  "\<exists>r'. r' \<in> set (tgRows (targets_at (snd opened_run_result))) \<and> ctMapping r' = 1000 \<and> 1 \<le> written_or r'"
proof -
  have "named_mapping opened_job = Some 1000"
    by (simp add: named_mapping_def opened_job_def new_job_def write_job_def given_or_def Let_def)
  moreover have "ctVersion (desired_row starting) = 1" by (simp add: desired_row_def)
  ultimately show ?thesis
    using finished_write_is_delivered [OF still_channel_lawful opened_run opened_finished] opened_row by auto
qed

theorem failed_write_is_filed_witness:
  "\<exists>d'. failWrite 30 1000 1 7 (NotFound ''gone'') opened_desk = (Inr (Failed ''not_found'' ''the provider no longer has this entity'' False None), d')
    \<and> (\<exists>r \<in> set (tgRows (targets_at d')). ctState r = TargetBlocked \<and> ctFailures r = 1)"
proof -
  have "\<not> isl (fst (failWrite 30 1000 1 7 (NotFound ''gone'') opened_desk))" by code_simp
  then obtain res d' where run: "failWrite 30 1000 1 7 (NotFound ''gone'') opened_desk = (Inr res, d')"
    by (metis prod.collapse sum.collapse(2))
  have "desired_row starting \<in> set (tgRows (targets_at opened_desk))"
    by (simp add: targets_at_def targets_of_def hub_at_def opened_desk_def opened_counter_def opened_shelf_def)
  moreover have "ctMapping (desired_row starting) = 1000" "ctFailures (desired_row starting) = 0"
    by (simp_all add: desired_row_def starting_def)
  ultimately show ?thesis
    using failed_write_is_filed [OF run, of "desired_row starting"] run by force
qed

end
