(* ===== verification/Events.thy ===== *)
theory Events
  imports Payload Schema
begin

text \<open>
  \<^verbatim>\<open>packages/sync/src/events.ts\<close>: deduplication of inbound signals over the table
  \<open>processed_events\<close> of migration 0016. What an event produced is of the caller's type \<open>'o\<close>. The hash
  of \<^verbatim>\<open>node:crypto\<close> is the argument \<open>sha256\<close>; a payload is a JSON tree whose numbers are whole.
\<close>

section \<open>Fingerprints\<close>

datatype payload =
    PayNull
  | PayAbsent
  | PayBool bool
  | PayNumber int
  | PayText string
  | PayList "payload list"
  | PayObject "(string \<times> payload) list"

text \<open>\<open>JSON.stringify\<close> of a string.\<close>

definition escape_char :: "char \<Rightarrow> string" where
  "escape_char c =
     (let n = (of_char c :: nat)
      in if n = 34 then [char_of (92 :: nat), c] else if n = 92 then [c, c]
         else if n = 8 then [char_of (92 :: nat), CHR ''b''] else if n = 9 then [char_of (92 :: nat), CHR ''t'']
         else if n = 10 then [char_of (92 :: nat), CHR ''n''] else if n = 12 then [char_of (92 :: nat), CHR ''f'']
         else if n = 13 then [char_of (92 :: nat), CHR ''r'']
         else if n < 32 then char_of (92 :: nat) # ''u00'' @ [hex_char (n div 16), hex_char n] else [c])"

definition json_quote :: "string \<Rightarrow> string" where
  "json_quote s = char_of (34 :: nat) # concat (map escape_char s) @ [char_of (34 :: nat)]"

fun commas :: "string list \<Rightarrow> string" where
  "commas [] = []"
| "commas [s] = s"
| "commas (s # t # ss) = s @ '','' @ commas (t # ss)"

definition absent :: "payload \<Rightarrow> bool" where
  "absent p \<longleftrightarrow> p = PayAbsent"

definition key_le :: "string \<times> 'a \<Rightarrow> string \<times> 'a \<Rightarrow> bool" where
  "key_le a b \<longleftrightarrow> str_le (fst a) (fst b)"

lemma str_le_antisym: "str_le s t \<Longrightarrow> str_le t s \<Longrightarrow> s = t"
proof (induction s t rule: str_le.induct)
  case (1 t)
  then show ?case by (cases t) simp_all
qed (auto split: if_splits)

interpretation entry_order: row_order key_le
  by unfold_locales (auto simp: key_le_def str_le_total intro: str_le_trans)

text \<open>
  Stringifying the entries before sorting them by key gives the same text as the code's sorting
  first, and lets the recursion follow the tree.
\<close>

fun stableStringify :: "payload \<Rightarrow> string" where
  "stableStringify PayNull = ''null''"
| "stableStringify PayAbsent = ''null''"
| "stableStringify (PayBool b) = (if b then ''true'' else ''false'')"
| "stableStringify (PayNumber n) = number_text n"
| "stableStringify (PayText s) = json_quote s"
| "stableStringify (PayList ps) = ''['' @ commas (map stableStringify ps) @ '']''"
| "stableStringify (PayObject es) = ''{'' @ commas (map (\<lambda>(k, s). json_quote k @ '':'' @ s)
     (sort_by key_le (map (\<lambda>(k, p). (k, stableStringify p)) (filter (\<lambda>(k, p). \<not> absent p) es)))) @ ''}''"

definition fingerprintOf :: "(string \<Rightarrow> string) \<Rightarrow> payload \<Rightarrow> string" where
  "fingerprintOf sha256 p = sha256 (stableStringify p)"

section \<open>The table\<close>

datatype event_source = ViaWebhook | ViaPoll | ViaVerification | ViaManual | ViaReconciliation

record identity =
  iyConnection :: uuid
  iyBusiness :: "uuid option"
  iyProvider :: string
  iySource :: event_source
  iyType :: string
  iyResourceType :: "string option"
  iyResource :: "string option"
  iyExternal :: "string option"
  iyRevision :: "string option"
  iyPayload :: payload

record 'o event_row =
  erId :: uuid
  erConnection :: uuid
  erBusiness :: "uuid option"
  erProvider :: string
  erSource :: event_source
  erType :: string
  erResourceType :: "string option"
  erResource :: "string option"
  erExternal :: "string option"
  erRevision :: "string option"
  erFingerprint :: "string option"
  erOutcome :: "'o option"
  erProcessed :: instant

record 'o events =
  esNow :: instant
  esNext :: uuid
  esConnections :: "uuid list"
  esRows :: "'o event_row list"

text \<open>The two partial unique indexes; a null resource is distinct from every other.\<close>

definition by_event_id :: "'o event_row \<Rightarrow> (uuid \<times> string \<times> string) option" where
  "by_event_id r = map_option (\<lambda>x. (erConnection r, erType r, x)) (erExternal r)"

definition by_fingerprint :: "'o event_row \<Rightarrow> (uuid \<times> string \<times> string \<times> string) option" where
  "by_fingerprint r = (case (erExternal r, erResource r, erFingerprint r) of
     (None, Some x, Some f) \<Rightarrow> Some (erConnection r, erType r, x, f) | _ \<Rightarrow> None)"

definition claimed_row :: "(string \<Rightarrow> string) \<Rightarrow> identity \<Rightarrow> instant \<Rightarrow> uuid \<Rightarrow> 'o event_row" where
  "claimed_row sha256 y now i = \<lparr>erId = i, erConnection = iyConnection y, erBusiness = iyBusiness y,
     erProvider = iyProvider y, erSource = iySource y, erType = iyType y, erResourceType = iyResourceType y,
     erResource = iyResource y, erExternal = iyExternal y, erRevision = iyRevision y,
     erFingerprint = (if iyExternal y = None then Some (fingerprintOf sha256 (iyPayload y)) else None),
     erOutcome = None, erProcessed = now\<rparr>"

definition event_conflict :: "'o event_row \<Rightarrow> 'o event_row \<Rightarrow> bool" where
  "event_conflict r s \<longleftrightarrow> (by_event_id r \<noteq> None \<and> by_event_id s = by_event_id r)
     \<or> (by_fingerprint r \<noteq> None \<and> by_fingerprint s = by_fingerprint r)"

definition same_event :: "'o event_row \<Rightarrow> 'o event_row \<Rightarrow> bool" where
  "same_event r s \<longleftrightarrow> erConnection s = erConnection r \<and> erType s = erType r
     \<and> (if erExternal r = None
        then erResource s = erResource r \<and> erFingerprint s = erFingerprint r \<and> erExternal s = None
        else erExternal s = erExternal r)"

datatype 'o event_claim = EventClaimed uuid | EventProcessed uuid "'o option"

text \<open>
  The retry of the code, for a conflicting row that has gone by the second statement, is the call
  again; in one state it is never needed (\<open>claim_finds_its_row\<close>).
\<close>

definition claimEvent :: "(string \<Rightarrow> string) \<Rightarrow> identity \<Rightarrow> 'o events \<Rightarrow> exn + 'o event_claim \<times> 'o events" where
  "claimEvent sha256 y s =
     (let r = claimed_row sha256 y (esNow s) (esNext s)
      in if \<not> list_ex (event_conflict r) (esRows s)
         then if iyConnection y \<in> set (esConnections s)
              then Inr (EventClaimed (esNext s), s\<lparr>esNext := Suc (esNext s), esRows := esRows s @ [r]\<rparr>)
              else Inl (ForeignKeyViolation ''processed_events_connection_fkey'')
         else case List.find (same_event r) (esRows s) of
                Some prior \<Rightarrow> Inr (EventProcessed (erId prior) (erOutcome prior), s)
              | None \<Rightarrow> Inl (PlainError ''unreachable''))"

definition completeEvent :: "uuid \<Rightarrow> 'o \<Rightarrow> 'o events \<Rightarrow> 'o events" where
  "completeEvent i outcome s = s\<lparr>esRows := update_where (\<lambda>r. erId r = i)
     (\<lambda>r. r\<lparr>erOutcome := Some outcome, erProcessed := esNow s\<rparr>) (esRows s)\<rparr>"

definition pruneProcessedEvents :: "int \<Rightarrow> 'o events \<Rightarrow> nat \<times> 'o events" where
  "pruneProcessedEvents olderThanMs s =
     (let stale = (\<lambda>r. erProcessed r < esNow s - olderThanMs)
      in (length (filter stale (esRows s)), s\<lparr>esRows := filter (\<lambda>r. \<not> stale r) (esRows s)\<rparr>))"

section \<open>Deduplication\<close>

lemma event_conflict_same: "event_conflict (claimed_row sha256 y now i) s \<Longrightarrow> same_event (claimed_row sha256 y now i) s"
  by (auto simp: event_conflict_def same_event_def by_event_id_def by_fingerprint_def claimed_row_def
      split: option.splits if_splits)

lemma claim_finds_its_row: "claimEvent sha256 y s \<noteq> Inl (PlainError ''unreachable'')"
proof -
  let ?r = "claimed_row sha256 y (esNow s) (esNext s)"
  have "List.find (same_event ?r) (esRows s) \<noteq> None" if conflict: "list_ex (event_conflict ?r) (esRows s)"
  proof -
    from conflict obtain x where x: "x \<in> set (esRows s)" "event_conflict ?r x" unfolding list_ex_iff by blast
    from event_conflict_same [OF x(2)] x(1) show ?thesis unfolding find_None_iff by blast
  qed
  then show ?thesis by (auto simp: claimEvent_def Let_def)
qed

lemma completeEvent_rows: "map erId (esRows (completeEvent i x s)) = map erId (esRows s)"
  by (simp add: completeEvent_def) (rule map_update_where, simp)

text \<open>
  A signal with neither an event identifier nor a resource is never recognised: its index value is
  null, so the insert never conflicts, though the second statement would compare resources that are
  both null as equal.
\<close>

lemma unidentified_signals_are_never_deduplicated:
  fixes s :: "'o events"
  assumes "iyExternal y = None" and "iyResource y = None" and "iyConnection y \<in> set (esConnections s)"
  shows "\<exists>s'. claimEvent sha256 y s = Inr (EventClaimed (esNext s), s')"
proof -
  have "\<not> event_conflict (claimed_row sha256 y now i) r" for now i and r :: "'o event_row"
    using assms(1,2) by (simp add: event_conflict_def by_event_id_def by_fingerprint_def claimed_row_def)
  then have "\<not> list_ex (event_conflict (claimed_row sha256 y (esNow s) (esNext s))) (esRows s)" by (simp add: list_ex_iff)
  with assms(3) show ?thesis by (simp add: claimEvent_def Let_def)
qed

text \<open>
  C10: The order of the keys of an object makes no difference to its fingerprint, whatever the hash,
  and neither do fields that are absent.
\<close>

theorem fingerprint_ignores_key_order:
  assumes "distinct (map fst es)" and "mset (filter (\<lambda>(k, p). \<not> absent p) es) = mset (filter (\<lambda>(k, p). \<not> absent p) es')"
  shows "fingerprintOf sha256 (PayObject es) = fingerprintOf sha256 (PayObject es')"
proof -
  let ?f = "\<lambda>(k, p). (k, stableStringify p)" and ?keep = "\<lambda>es. filter (\<lambda>(k, p). \<not> absent p) es"
  let ?xs = "map ?f (?keep es)" and ?ys = "map ?f (?keep es')"
  have m: "mset ?xs = mset ?ys" using assms(2) by (simp only: mset_map)
  have "map fst ?xs = map fst (?keep es)" by (simp add: case_prod_beta)
  moreover have "distinct (map fst (?keep es))" using assms(1) by (simp add: distinct_map_filter)
  ultimately have d: "distinct (map fst ?xs)" by metis
  have "sort_by key_le ?xs = sort_by key_le ?ys"
  proof (rule sorted_wrt_unique)
    show "sorted_wrt key_le (sort_by key_le ?xs)" "sorted_wrt key_le (sort_by key_le ?ys)"
      by (rule entry_order.sorted_sort_by)+
    show "mset (sort_by key_le ?xs) = mset (sort_by key_le ?ys)" using m by simp
    show "\<And>x y. x \<in> set (sort_by key_le ?xs) \<Longrightarrow> y \<in> set (sort_by key_le ?xs) \<Longrightarrow> key_le x y \<Longrightarrow> key_le y x \<Longrightarrow> x = y"
      using same_row [OF d] str_le_antisym unfolding key_le_def set_sort_by by blast
  qed
  then show ?thesis by (simp add: fingerprintOf_def)
qed

theorem fingerprint_ignores_key_order_witness:
  "fingerprintOf rev (PayObject [(''b'', PayNumber 2), (''a'', PayText ''x''), (''c'', PayAbsent)])
    = fingerprintOf rev (PayObject [(''a'', PayText ''x''), (''b'', PayNumber 2)])"
  by (rule fingerprint_ignores_key_order) (simp_all add: absent_def)

end
