(* ===== verification/Orders.thy ===== *)
theory Orders
  imports Events Targets Incidents Reservations
begin

text \<open>
  \<^verbatim>\<open>packages/sync/src/orders.ts\<close>: turning what a channel sold into what the ledger owes. The tables
  are those of migration 0016 and the mirrored orders of 0022. A \<open>house\<close> joins every table one
  ingest writes; a call is one transaction of its caller, so an exception leaves nothing behind.
\<close>

section \<open>What an adapter reports\<close>

datatype demand_state = Awaiting | CommittedDemand | FulfilledDemand | CancelledDemand | RefundedDemand

record provider_line =
  nlLine :: string
  nlItem :: string
  nlVariation :: "string option"
  nlSku :: "string option"
  nlTitle :: "string option"
  nlQuantity :: int
  nlCancelled :: "int option"
  nlShipped :: "int option"
  nlRefunded :: "int option"

record provider_order =
  noOrder :: string
  noStatus :: "string option"
  noDemand :: demand_state
  noPlaced :: "instant option"
  noRevision :: "string option"
  noSequence :: "int option"
  noCurrency :: "string option"
  noTotal :: "string option"
  noBuyer :: "string option"
  noLines :: "provider_line list"

section \<open>Tables\<close>

datatype line_treatment = Untreated | ReservedLine | ConsumedLine | UnmappedLine | IneligibleLine | ReleasedLine

record order_row =
  orId :: uuid
  orBusiness :: uuid
  orConnection :: uuid
  orExternal :: string
  orStatus :: "string option"
  orDemand :: demand_state
  orPlaced :: "instant option"
  orCommitted :: "instant option"
  orRevision :: "string option"
  orSequence :: "int option"
  orCurrency :: "string option"
  orTotal :: "string option"
  orBuyer :: "string option"

record order_line =
  olId :: uuid
  olBusiness :: uuid
  olOrder :: uuid
  olLine :: string
  olExternalItem :: "string option"
  olVariation :: "string option"
  olSku :: "string option"
  olTitle :: "string option"
  olQuantity :: int
  olCancelled :: int
  olShipped :: int
  olRefunded :: int
  olTreatment :: line_treatment
  olReason :: "string option"
  olMapping :: "uuid option"
  olItem :: "uuid option"
  olReservation :: "uuid option"
  olShortage :: int

record mirrored_order =
  moSource :: string
  moConnection :: uuid
  moOrder :: "string option"

record line_outcome =
  loExternalLine :: string
  loTreatment :: line_treatment
  loReason :: "string option"
  loItem :: "uuid option"
  loUnits :: int
  loShortage :: int

record ingested =
  inOrder :: uuid
  inCommitted :: bool
  inMirrorOf :: "string option"
  inLines :: "line_outcome list"
  inAttention :: "line_outcome list"
  inShortages :: int

datatype line_effect_kind = EffectReleased | EffectFulfilled | EffectKept | EffectRestock | EffectNothing

record line_effect =
  leLine :: string
  leEffect :: line_effect_kind
  leWhy :: "string option"
  leUnits :: int

record lifecycle_applied =
  laOrder :: uuid
  laLines :: "line_effect list"
  laCandidates :: "uuid list"

text \<open>What \<open>completeEvent\<close> stores of an ingest or of a lifecycle event.\<close>

datatype stored_outcome =
    StoredIngest ingested
  | StoredSuperseded uuid
  | StoredLifecycle lifecycle_applied
  | StoredUnknownOrder

record orders =
  osNow :: instant
  osNext :: uuid
  osOrders :: "order_row list"
  osLines :: "order_line list"
  osMirrors :: "mirrored_order list"

record house =
  hoHub :: hub
  hoAlerts :: alerts
  hoEvidence :: evidence
  hoOrders :: orders
  hoEvents :: "stored_outcome events"

definition order_key :: "order_row \<Rightarrow> uuid \<times> string" where
  "order_key r = (orConnection r, orExternal r)"

definition line_key :: "order_line \<Rightarrow> uuid \<times> string" where
  "line_key r = (olOrder r, olLine r)"

definition line_check :: "order_line \<Rightarrow> exn + unit" where
  "line_check r = check_all [
     (int4 (olQuantity r) \<and> int4 (olCancelled r) \<and> int4 (olShipped r) \<and> int4 (olRefunded r) \<and> int4 (olShortage r),
        NumericValueOutOfRange),
     (1 \<le> olQuantity r, CheckViolation ''channel_order_lines_quantity_positive''),
     (0 \<le> olShortage r \<and> olShortage r \<le> olQuantity r, CheckViolation ''channel_order_lines_shortage_bounded'')]"

definition update_lines :: "(order_line \<Rightarrow> bool) \<Rightarrow> (order_line \<Rightarrow> order_line) \<Rightarrow> orders \<Rightarrow> exn + orders" where
  "update_lines p f s = bindR (update_checked p f line_check (osLines s)) (\<lambda>rows. Inr (s\<lparr>osLines := rows\<rparr>))"

section \<open>The parts of a house\<close>

definition in_orders :: "(orders \<Rightarrow> exn + orders) \<Rightarrow> house \<Rightarrow> exn + house" where
  "in_orders f h = bindR (f (hoOrders h)) (\<lambda>s. Inr (h\<lparr>hoOrders := s\<rparr>))"

definition in_stock :: "(db \<Rightarrow> exn + 'v \<times> db) \<Rightarrow> house \<Rightarrow> exn + 'v \<times> house" where
  "in_stock f h = bindR (f (mkStock (hbMarket (hoHub h)))) (\<lambda>(v, d).
     Inr (v, h\<lparr>hoHub := (hoHub h)\<lparr>hbMarket := (hbMarket (hoHub h))\<lparr>mkStock := d\<rparr>\<rparr>\<rparr>))"

definition refresh_item :: "uuid \<Rightarrow> string \<Rightarrow> change_origin \<Rightarrow> uuid \<Rightarrow> house \<Rightarrow> exn + house" where
  "refresh_item b reason origin item h =
     bindR (refreshTargetsForItem b item reason origin (hoHub h)) (\<lambda>(ds, hub). Inr (h\<lparr>hoHub := hub\<rparr>))"

definition complete :: "uuid \<Rightarrow> stored_outcome \<Rightarrow> house \<Rightarrow> house" where
  "complete i x h = h\<lparr>hoEvents := completeEvent i x (hoEvents h)\<rparr>"

section \<open>Storing the order\<close>

record ingest_input =
  igBusiness :: uuid
  igConnection :: uuid
  igOrder :: provider_order
  igEvent :: identity
  igActor :: "uuid option"
  igNow :: "instant option"
  igOrigin :: change_origin

definition or_else :: "'a option \<Rightarrow> 'a option \<Rightarrow> 'a option" where
  "or_else x y = (case x of Some v \<Rightarrow> Some v | None \<Rightarrow> y)"

definition greatest_of :: "int option \<Rightarrow> int option \<Rightarrow> int option" where
  "greatest_of x y = (case (x, y) of (Some a, Some b) \<Rightarrow> Some (max a b) | _ \<Rightarrow> or_else x y)"

definition fresh_order :: "ingest_input \<Rightarrow> uuid \<Rightarrow> order_row" where
  "fresh_order input i = \<lparr>orId = i, orBusiness = igBusiness input, orConnection = igConnection input,
     orExternal = noOrder (igOrder input), orStatus = None, orDemand = Awaiting, orPlaced = None, orCommitted = None,
     orRevision = None, orSequence = None, orCurrency = None, orTotal = None, orBuyer = None\<rparr>"

definition updated_order :: "provider_order \<Rightarrow> instant \<Rightarrow> order_row \<Rightarrow> order_row" where
  "updated_order x now r = r\<lparr>orStatus := or_else (noStatus x) (orStatus r), orDemand := noDemand x,
     orPlaced := or_else (noPlaced x) (orPlaced r), orRevision := or_else (noRevision x) (orRevision r),
     orSequence := greatest_of (or_else (orSequence r) (noSequence x)) (noSequence x),
     orCurrency := or_else (noCurrency x) (orCurrency r), orTotal := or_else (noTotal x) (orTotal r),
     orBuyer := or_else (noBuyer x) (orBuyer r),
     orCommitted := (if noDemand x = CommittedDemand then or_else (orCommitted r) (Some now) else orCommitted r)\<rparr>"

record stored_order =
  soOrder :: uuid
  soSuperseded :: bool
  soAlready :: bool

definition insert_order :: "ingest_input \<Rightarrow> house \<Rightarrow> exn + house" where
  "insert_order input h =
     (let s = hoOrders h; r = fresh_order input (osNext s)
      in if list_ex (\<lambda>x. order_key x = order_key r) (osOrders s) then Inr h
         else if (igBusiness input, igConnection input) \<in> set (quConnections (hbQueue (hoHub h)))
         then Inr (h\<lparr>hoOrders := s\<lparr>osNext := Suc (osNext s), osOrders := osOrders s @ [r]\<rparr>\<rparr>)
         else Inl (ForeignKeyViolation ''channel_orders_connection_fkey''))"

definition find_order :: "uuid \<Rightarrow> string \<Rightarrow> orders \<Rightarrow> order_row option" where
  "find_order c external s = lookup_by order_key (c, external) (osOrders s)"

definition upsertOrder :: "ingest_input \<Rightarrow> house \<Rightarrow> exn + stored_order \<times> house" where
  "upsertOrder input h =
     bindR (insert_order input h) (\<lambda>h1.
     case find_order (igConnection input) (noOrder (igOrder input)) (hoOrders h1) of
       None \<Rightarrow> Inl (PlainError ''storing a channel order returned nothing'')
     | Some r \<Rightarrow>
         let stale = (case (noSequence (igOrder input), orSequence r) of (Some n, Some m) \<Rightarrow> n < m | _ \<Rightarrow> False);
             answer = \<lparr>soOrder = orId r, soSuperseded = stale, soAlready = (orCommitted r \<noteq> None)\<rparr>
         in if stale then Inr (answer, h1)
            else Inr (answer, h1\<lparr>hoOrders := (hoOrders h1)\<lparr>osOrders := update_where (\<lambda>x. orId x = orId r)
                   (updated_order (igOrder input) (osNow (hoOrders h1))) (osOrders (hoOrders h1))\<rparr>\<rparr>))"

definition zero_or :: "int option \<Rightarrow> int" where
  "zero_or n = (case n of None \<Rightarrow> 0 | Some k \<Rightarrow> k)"

definition fresh_line :: "uuid \<Rightarrow> uuid \<Rightarrow> provider_line \<Rightarrow> uuid \<Rightarrow> order_line" where
  "fresh_line b order l i = \<lparr>olId = i, olBusiness = b, olOrder = order, olLine = nlLine l, olExternalItem = Some (nlItem l),
     olVariation = nlVariation l, olSku = nlSku l, olTitle = nlTitle l, olQuantity = nlQuantity l,
     olCancelled = zero_or (nlCancelled l), olShipped = zero_or (nlShipped l), olRefunded = zero_or (nlRefunded l),
     olTreatment = Untreated, olReason = None, olMapping = None, olItem = None, olReservation = None, olShortage = 0\<rparr>"

definition merged_line :: "provider_line \<Rightarrow> order_line \<Rightarrow> order_line" where
  "merged_line l r = r\<lparr>olQuantity := nlQuantity l, olSku := or_else (nlSku l) (olSku r), olTitle := or_else (nlTitle l) (olTitle r),
     olCancelled := max (olCancelled r) (zero_or (nlCancelled l)), olShipped := max (olShipped r) (zero_or (nlShipped l)),
     olRefunded := max (olRefunded r) (zero_or (nlRefunded l))\<rparr>"

definition upsert_line :: "uuid \<Rightarrow> uuid \<Rightarrow> provider_line \<Rightarrow> orders \<Rightarrow> exn + orders" where
  "upsert_line b order l s =
     bindR (line_check (fresh_line b order l (osNext s))) (\<lambda>_.
     if list_ex (\<lambda>r. line_key r = (order, nlLine l)) (osLines s)
     then update_lines (\<lambda>r. line_key r = (order, nlLine l)) (merged_line l) s
     else if list_ex (\<lambda>r. orId r = order \<and> orBusiness r = b) (osOrders s)
     then Inr (s\<lparr>osNext := Suc (osNext s), osLines := osLines s @ [fresh_line b order l (osNext s)]\<rparr>)
     else Inl (ForeignKeyViolation ''channel_order_lines_order_fkey''))"

definition upsertLines :: "uuid \<Rightarrow> uuid \<Rightarrow> provider_line list \<Rightarrow> orders \<Rightarrow> exn + orders" where
  "upsertLines b order = foldR (upsert_line b order)"

definition mirrorSourceOf :: "uuid \<Rightarrow> string \<Rightarrow> orders \<Rightarrow> string option" where
  "mirrorSourceOf c external s =
     map_option moSource (List.find (\<lambda>r. moConnection r = c \<and> moOrder r = Some external) (osMirrors s))"

definition line_le :: "order_line \<Rightarrow> order_line \<Rightarrow> bool" where
  "line_le a b \<longleftrightarrow> str_le (olLine a) (olLine b)"

interpretation line_order: row_order line_le
  by unfold_locales (auto simp: line_le_def str_le_total intro: str_le_trans)

definition readLines :: "uuid \<Rightarrow> orders \<Rightarrow> order_line list" where
  "readLines order s = sort_by line_le (filter (\<lambda>r. olOrder r = order) (osLines s))"

definition describe_line :: "order_line \<Rightarrow> line_outcome" where
  "describe_line r = \<lparr>loExternalLine = olLine r, loTreatment = olTreatment r, loReason = olReason r, loItem = olItem r,
     loUnits = olQuantity r, loShortage = olShortage r\<rparr>"

definition describeUntreated :: "uuid \<Rightarrow> orders \<Rightarrow> line_outcome list" where
  "describeUntreated order s = map describe_line (readLines order s)"

section \<open>Treating its lines\<close>

record line_update =
  luTreatment :: line_treatment
  luReason :: "string option"
  luItem :: "uuid option"
  luMapping :: "uuid option"
  luReservation :: "uuid option"
  luShortage :: int

definition marked_line :: "line_update \<Rightarrow> order_line \<Rightarrow> order_line" where
  "marked_line u r = r\<lparr>olTreatment := luTreatment u, olReason := luReason u, olItem := luItem u, olMapping := luMapping u,
     olReservation := luReservation u, olShortage := luShortage u\<rparr>"

definition markLine :: "order_line \<Rightarrow> line_update \<Rightarrow> house \<Rightarrow> exn + line_outcome \<times> house" where
  "markLine l u h =
     bindR (in_orders (update_lines (\<lambda>r. olId r = olId l) (marked_line u)) h) (\<lambda>h1.
     Inr (\<lparr>loExternalLine = olLine l, loTreatment = luTreatment u, loReason = luReason u, loItem = luItem u,
           loUnits = olQuantity l, loShortage = luShortage u\<rparr>, h1))"

record resolved_mapping =
  fmMapping :: uuid
  fmItem :: uuid
  fmLocations :: "uuid list"
  fmReason :: "string option"

definition whyIneligible :: "mapping \<Rightarrow> provider_item \<Rightarrow> string option" where
  "whyIneligible r e =
     (if \<not> piEligible e then Some (given (piIneligible e) ''this channel entity cannot be synchronized in version 1'')
      else if piMissing e \<noteq> None then Some ''the last complete catalog scan did not find this entity''
      else if mpStatus r = MappingPaused then Some (given (mpPauseReason r) ''this mapping is paused'')
      else if mpStatus r \<noteq> MappingActive then Some ''this mapping has not been activated''
      else None)"

text \<open>Where several mappings qualify, the query's one row is the first of the table.\<close>

definition sells_as :: "market \<Rightarrow> uuid \<Rightarrow> uuid \<Rightarrow> string \<Rightarrow> mapping \<Rightarrow> bool" where
  "sells_as m b c external r \<longleftrightarrow> mpBusiness r = b \<and> mpConnection r = c \<and> mpStatus r \<noteq> MappingArchived
     \<and> (case provider_item_of m r of None \<Rightarrow> False | Some e \<Rightarrow> piExternal e = external)"

definition resolveMapping :: "market \<Rightarrow> uuid \<Rightarrow> uuid \<Rightarrow> string option \<Rightarrow> string option \<Rightarrow> resolved_mapping option" where
  "resolveMapping m b c item variation =
     (case item of
        None \<Rightarrow> None
      | Some external \<Rightarrow>
          (case List.find (sells_as m b c (given variation external)) (mkMappings m) of
             None \<Rightarrow> None
           | Some r \<Rightarrow>
               (case provider_item_of m r of
                  None \<Rightarrow> None
                | Some e \<Rightarrow> Some \<lparr>fmMapping = mpId r, fmItem = mpItem r, fmLocations = selected_for m (mpId r),
                              fmReason = whyIneligible r e\<rparr>)))"

definition plain_mark :: "line_treatment \<Rightarrow> string option \<Rightarrow> line_update" where
  "plain_mark t reason = \<lparr>luTreatment = t, luReason = reason, luItem = None, luMapping = None, luReservation = None,
     luShortage = 0\<rparr>"

definition reserve_line :: "ingest_input \<Rightarrow> order_line \<Rightarrow> resolved_mapping \<Rightarrow> reserve_input" where
  "reserve_line input l m = \<lparr>rqBusiness = igBusiness input, rqConnection = igConnection input,
     rqOrder = noOrder (igOrder input), rqLine = olLine l, rqItem = fmItem m, rqQuantity = olQuantity l,
     rqLocationIds = Some (fmLocations m), rqActor = igActor input, rqNow = igNow input\<rparr>"

definition treatment_of :: "reservation_view \<Rightarrow> line_treatment" where
  "treatment_of v = (if vwMode v = ConsumeImmediately then ConsumedLine else ReservedLine)"

definition commit_line ::
    "ingest_input \<Rightarrow> order_line \<Rightarrow> resolved_mapping \<Rightarrow> reservation_view \<Rightarrow> line_outcome list \<times> uuid list \<times> house
      \<Rightarrow> exn + line_outcome list \<times> uuid list \<times> house" where
  "commit_line input l m v acc = (case acc of (outcomes, touched, h) \<Rightarrow>
     bindR (markLine l \<lparr>luTreatment = treatment_of v, luReason = None, luItem = Some (fmItem m), luMapping = Some (fmMapping m),
              luReservation = Some (vwReservation v), luShortage = vwShortage v\<rparr> h) (\<lambda>(x, h1).
     bindR (if 0 < vwShortage v
            then (case alertOversold (igBusiness input) (fmItem m) (noOrder (igOrder input)) (vwShortage v) (hoAlerts h1) (hoEvidence h1) of
                    (Inl e, _) \<Rightarrow> Inl e
                  | (Inr _, alerts, evidence) \<Rightarrow> Inr (h1\<lparr>hoAlerts := alerts, hoEvidence := evidence\<rparr>))
            else Inr h1) (\<lambda>h2.
     Inr (outcomes @ [x], set_add (fmItem m) touched, h2))))"

definition treat_line ::
    "ingest_input \<Rightarrow> order_line \<Rightarrow> line_outcome list \<times> uuid list \<times> house \<Rightarrow> exn + line_outcome list \<times> uuid list \<times> house" where
  "treat_line input l acc = (case acc of (outcomes, touched, h) \<Rightarrow>
     (let plain = (\<lambda>t reason h. bindR (markLine l (plain_mark t (Some reason)) h) (\<lambda>(x, h1). Inr (outcomes @ [x], touched, h1)))
      in case resolveMapping (hbMarket (hoHub h)) (igBusiness input) (igConnection input) (olExternalItem l) (olVariation l) of
           None \<Rightarrow> plain UnmappedLine ''no mapping exists for this channel entity'' h
         | Some m \<Rightarrow>
             (case fmReason m of
                Some reason \<Rightarrow> plain IneligibleLine reason h
              | None \<Rightarrow>
                  bindR (in_stock (reserve (reserve_line input l m)) h) (\<lambda>(reservation, h1).
                  case reservation of
                    ReserveNotFound \<Rightarrow> plain IneligibleLine ''the canonical item this line maps to no longer exists'' h1
                  | ReserveInvalid reason \<Rightarrow> plain IneligibleLine reason h1
                  | Reserved v \<Rightarrow> commit_line input l m v (outcomes, touched, h1)
                  | AlreadyRecorded v \<Rightarrow> commit_line input l m v (outcomes, touched, h1)))))"

definition treatLines :: "ingest_input \<Rightarrow> uuid \<Rightarrow> house \<Rightarrow> exn + line_outcome list \<times> house" where
  "treatLines input order h =
     bindR (foldR (treat_line input) (readLines order (hoOrders h)) ([], [], h)) (\<lambda>(outcomes, touched, h1).
     bindR (foldR (refresh_item (igBusiness input) (''order '' @ noOrder (igOrder input)) (igOrigin input)) touched h1) (\<lambda>h2.
     Inr (outcomes, h2)))"

section \<open>Ingesting\<close>

datatype ingest_result = Ingested ingested | AlreadyProcessed "stored_outcome option" | SupersededDelivery uuid

definition needs_attention :: "line_outcome \<Rightarrow> bool" where
  "needs_attention l \<longleftrightarrow> loTreatment l = UnmappedLine \<or> loTreatment l = IneligibleLine"

definition ingestOrder :: "(string \<Rightarrow> string) \<Rightarrow> ingest_input \<Rightarrow> house \<Rightarrow> exn + ingest_result \<times> house" where
  "ingestOrder sha256 input h0 =
     bindR (claimEvent sha256 (igEvent input) (hoEvents h0)) (\<lambda>(claim, es).
     case claim of
       EventProcessed i prior \<Rightarrow> Inr (AlreadyProcessed prior, h0\<lparr>hoEvents := es\<rparr>)
     | EventClaimed i \<Rightarrow>
         bindR (upsertOrder input (h0\<lparr>hoEvents := es\<rparr>)) (\<lambda>(stored, h1).
         if soSuperseded stored
         then Inr (SupersededDelivery (soOrder stored), complete i (StoredSuperseded (soOrder stored)) h1)
         else bindR (in_orders (upsertLines (igBusiness input) (soOrder stored) (noLines (igOrder input))) h1) (\<lambda>h2.
           let mirrorOf = mirrorSourceOf (igConnection input) (noOrder (igOrder input)) (hoOrders h2);
               shouldCommit = (noDemand (igOrder input) = CommittedDemand \<and> \<not> soAlready stored \<and> mirrorOf = None)
           in bindR (if shouldCommit then treatLines input (soOrder stored) h2
                     else Inr (describeUntreated (soOrder stored) (hoOrders h2), h2)) (\<lambda>(lines, h3).
              let result = \<lparr>inOrder = soOrder stored, inCommitted = shouldCommit, inMirrorOf = mirrorOf, inLines = lines,
                            inAttention = filter needs_attention lines, inShortages = sum_list (map loShortage lines)\<rparr>
              in Inr (Ingested result, complete i (StoredIngest result) h3)))))"

end
