(* ===== verification/Lifecycle.thy ===== *)
theory Lifecycle
  imports Orders
begin

text \<open>
  \<^verbatim>\<open>packages/sync/src/lifecycle.ts\<close>: what happens to committed demand afterwards, over the restock
  candidates of migration 0017. Each call is one transaction of its caller. The candidates join the
  house as a second component, a \<open>yard\<close>.
\<close>

section \<open>Restock candidates\<close>

datatype restock_origin = FromRefund | FromReturn | FromDispute | FromCancellation

datatype candidate_status = CandidatePending | CandidateConfirmed | CandidateDeclined | CandidateSuperseded

record candidate =
  rkId :: uuid
  rkBusiness :: uuid
  rkConnection :: uuid
  rkOrder :: "uuid option"
  rkOrderLine :: "uuid option"
  rkExternalOrder :: string
  rkExternalLine :: "string option"
  rkItem :: "uuid option"
  rkOrigin :: restock_origin
  rkClaimed :: int
  rkStatus :: candidate_status
  rkConfirmed :: "int option"
  rkLocation :: "uuid option"
  rkBy :: "uuid option"
  rkAt :: "instant option"
  rkEntry :: "uuid option"
  rkReason :: "string option"

record yard =
  ydHouse :: house
  ydNext :: uuid
  ydCandidates :: "candidate list"

definition candidate_key :: "candidate \<Rightarrow> uuid \<times> string \<times> string option \<times> restock_origin" where
  "candidate_key r = (rkConnection r, rkExternalOrder r, rkExternalLine r, rkOrigin r)"

definition candidate_check :: "candidate \<Rightarrow> exn + unit" where
  "candidate_check r = check_all [
     (int4 (rkClaimed r) \<and> opt_int4 (rkConfirmed r), NumericValueOutOfRange),
     (1 \<le> rkClaimed r, CheckViolation ''restock_candidates_claim_positive''),
     (case rkConfirmed r of None \<Rightarrow> True | Some n \<Rightarrow> 0 \<le> n, CheckViolation ''restock_candidates_confirmed_not_negative''),
     (rkStatus r \<noteq> CandidateConfirmed \<or> (rkConfirmed r \<noteq> None \<and> rkLocation r \<noteq> None),
        CheckViolation ''restock_candidates_confirmation_complete'')]"

definition stock_of :: "yard \<Rightarrow> db" where
  "stock_of y = mkStock (hbMarket (hoHub (ydHouse y)))"

definition candidate_refs :: "db \<Rightarrow> candidate \<Rightarrow> exn + unit" where
  "candidate_refs d r = check_all [
     (case rkLocation r of None \<Rightarrow> True | Some l \<Rightarrow> location_in d (rkBusiness r) l,
        ForeignKeyViolation ''restock_candidates_location_fkey''),
     (opt_in (rkBy r) (dbUsers d), ForeignKeyViolation ''restock_candidates_confirmed_by_user_id_fkey'')]"

definition in_house :: "(house \<Rightarrow> exn + 'v \<times> house) \<Rightarrow> yard \<Rightarrow> exn + 'v \<times> yard" where
  "in_house f y = bindR (f (ydHouse y)) (\<lambda>(v, h). Inr (v, y\<lparr>ydHouse := h\<rparr>))"

definition put_in_house :: "(house \<Rightarrow> exn + house) \<Rightarrow> yard \<Rightarrow> exn + yard" where
  "put_in_house f y = bindR (f (ydHouse y)) (\<lambda>h. Inr (y\<lparr>ydHouse := h\<rparr>))"

definition update_candidates :: "(candidate \<Rightarrow> bool) \<Rightarrow> (candidate \<Rightarrow> candidate) \<Rightarrow> yard \<Rightarrow> exn + yard" where
  "update_candidates p f y = bindR (update_checked p f
     (\<lambda>r. bindR (candidate_check r) (\<lambda>_. candidate_refs (stock_of y) r)) (ydCandidates y)) (\<lambda>rows. Inr (y\<lparr>ydCandidates := rows\<rparr>))"

section \<open>The shared spine\<close>

record lifecycle_input =
  lfBusiness :: uuid
  lfConnection :: uuid
  lfOrder :: string
  lfEvent :: identity
  lfLines :: "string list option"
  lfReason :: string
  lfActor :: "uuid option"
  lfNow :: "instant option"
  lfOrigin :: change_origin

record line_decision =
  ldEffect :: line_effect
  ldTouched :: "uuid option"
  ldCandidate :: "uuid option"

datatype lifecycle_result = LifecycleApplied lifecycle_applied | LifecycleProcessed "stored_outcome option" | OrderUnknown

definition raiseRestockCandidate ::
    "lifecycle_input \<Rightarrow> uuid \<Rightarrow> order_line \<Rightarrow> restock_origin \<Rightarrow> int \<Rightarrow> yard \<Rightarrow> exn + uuid \<times> yard" where
  "raiseRestockCandidate input order l origin quantity y =
     (case List.find (\<lambda>o'. orId o' = order) (osOrders (hoOrders (ydHouse y))) of
        None \<Rightarrow> Inl (PlainError ''raising a restock candidate returned nothing'')
      | Some row \<Rightarrow>
          let r = \<lparr>rkId = ydNext y, rkBusiness = lfBusiness input, rkConnection = lfConnection input, rkOrder = Some order,
                   rkOrderLine = Some (olId l), rkExternalOrder = orExternal row, rkExternalLine = Some (olLine l),
                   rkItem = olItem l, rkOrigin = origin, rkClaimed = quantity, rkStatus = CandidatePending,
                   rkConfirmed = None, rkLocation = None, rkBy = None, rkAt = None, rkEntry = None, rkReason = Some (lfReason input)\<rparr>
          in bindR (candidate_check r) (\<lambda>_.
             case List.find (\<lambda>x. candidate_key x = candidate_key r) (ydCandidates y) of
               Some x \<Rightarrow> bindR (update_candidates (\<lambda>z. rkId z = rkId x) (\<lambda>z. z\<lparr>rkClaimed := max (rkClaimed z) quantity\<rparr>) y)
                           (\<lambda>y1. Inr (rkId x, y1))
             | None \<Rightarrow> Inr (ydNext y, y\<lparr>ydNext := Suc (ydNext y), ydCandidates := ydCandidates y @ [r]\<rparr>)))"

definition read_order_lines :: "uuid \<Rightarrow> string list option \<Rightarrow> orders \<Rightarrow> order_line list" where
  "read_order_lines order only s = filter (\<lambda>r. case only of None \<Rightarrow> True | Some ls \<Rightarrow> olLine r \<in> set ls) (readLines order s)"

definition decide_line ::
    "(order_line \<Rightarrow> uuid \<Rightarrow> yard \<Rightarrow> exn + line_decision \<times> yard) \<Rightarrow> uuid \<Rightarrow> order_line
      \<Rightarrow> line_effect list \<times> uuid list \<times> uuid list \<times> yard \<Rightarrow> exn + line_effect list \<times> uuid list \<times> uuid list \<times> yard" where
  "decide_line decide order l acc = (case acc of (effects, candidates, touched, y) \<Rightarrow>
     bindR (decide l order y) (\<lambda>(d, y1).
     Inr (effects @ [ldEffect d],
          (case ldCandidate d of None \<Rightarrow> candidates | Some c \<Rightarrow> candidates @ [c]),
          (case ldTouched d of None \<Rightarrow> touched | Some i \<Rightarrow> set_add i touched), y1)))"

definition applyLifecycle ::
    "(string \<Rightarrow> string) \<Rightarrow> lifecycle_input \<Rightarrow> (order_line \<Rightarrow> uuid \<Rightarrow> yard \<Rightarrow> exn + line_decision \<times> yard)
      \<Rightarrow> yard \<Rightarrow> exn + lifecycle_result \<times> yard" where
  "applyLifecycle sha256 input decide y0 =
     bindR (claimEvent sha256 (lfEvent input) (hoEvents (ydHouse y0))) (\<lambda>(claim, es).
     let y1 = y0\<lparr>ydHouse := (ydHouse y0)\<lparr>hoEvents := es\<rparr>\<rparr>;
         finish = (\<lambda>i x y. y\<lparr>ydHouse := complete i x (ydHouse y)\<rparr>)
     in case claim of
          EventProcessed i prior \<Rightarrow> Inr (LifecycleProcessed prior, y1)
        | EventClaimed i \<Rightarrow>
            (case find_order (lfConnection input) (lfOrder input) (hoOrders (ydHouse y1)) of
               None \<Rightarrow> Inr (OrderUnknown, finish i StoredUnknownOrder y1)
             | Some order \<Rightarrow>
                 bindR (foldR (decide_line decide (orId order)) (read_order_lines (orId order) (lfLines input) (hoOrders (ydHouse y1)))
                          ([], [], [], y1)) (\<lambda>(effects, candidates, touched, y2).
                 bindR (foldR (\<lambda>item. put_in_house (refresh_item (lfBusiness input) (lfReason input) (lfOrigin input) item)) touched y2) (\<lambda>y3.
                 let result = \<lparr>laOrder = orId order, laLines = effects, laCandidates = candidates\<rparr>
                 in Inr (LifecycleApplied result, finish i (StoredLifecycle result) y3)))))"

section \<open>The transitions\<close>

definition resolve_line :: "lifecycle_input \<Rightarrow> uuid \<Rightarrow> resolve_input" where
  "resolve_line input reservation = \<lparr>rzBusiness = lfBusiness input, rzReservation = reservation, rzReason = lfReason input,
     rzActor = lfActor input, rzNow = lfNow input\<rparr>"

definition plain_decision :: "order_line \<Rightarrow> line_effect_kind \<Rightarrow> string option \<Rightarrow> int \<Rightarrow> line_decision" where
  "plain_decision l kind reason n = \<lparr>ldEffect = \<lparr>leLine = olLine l, leEffect = kind, leWhy = reason, leUnits = n\<rparr>,
     ldTouched = None, ldCandidate = None\<rparr>"

definition set_line :: "uuid \<Rightarrow> (order_line \<Rightarrow> order_line) \<Rightarrow> yard \<Rightarrow> exn + yard" where
  "set_line i f = put_in_house (in_orders (update_lines (\<lambda>r. olId r = i) f))"

fun reservation_status_text :: "reservation_status \<Rightarrow> string" where
  "reservation_status_text ReservationOpen = ''open''"
| "reservation_status_text ReservationConsumed = ''consumed''"
| "reservation_status_text ReservationReleased = ''released''"

definition cancel_line :: "lifecycle_input \<Rightarrow> order_line \<Rightarrow> uuid \<Rightarrow> yard \<Rightarrow> exn + line_decision \<times> yard" where
  "cancel_line input l order y =
     (if 0 < olShipped l
      then bindR (raiseRestockCandidate input order l FromCancellation (olShipped l) y) (\<lambda>(c, y1).
           Inr ((plain_decision l EffectRestock (Some ''these units have already shipped'') (olShipped l))\<lparr>ldCandidate := Some c\<rparr>, y1))
      else case olReservation l of
        None \<Rightarrow> Inr (plain_decision l EffectNothing (Some ''this line never committed any inventory'') 0, y)
      | Some reservation \<Rightarrow>
          bindR (in_house (in_stock (releaseReservation (resolve_line input reservation))) y) (\<lambda>(released, y1).
          case released of
            Released n \<Rightarrow> bindR (set_line (olId l) (\<lambda>r. r\<lparr>olTreatment := ReleasedLine, olReason := Some (lfReason input), olShortage := 0\<rparr>) y1) (\<lambda>y2.
              Inr ((plain_decision l EffectReleased None n)\<lparr>ldTouched := olItem l\<rparr>, y2))
          | ReleaseAlreadyResolved status \<Rightarrow>
              Inr (plain_decision l EffectKept (Some (''this reservation is already '' @ reservation_status_text status)) 0, y1)
          | _ \<Rightarrow> Inr (plain_decision l EffectKept (Some ''this reservation could not be released'') 0, y1)))"

definition applyCancellation :: "(string \<Rightarrow> string) \<Rightarrow> lifecycle_input \<Rightarrow> yard \<Rightarrow> exn + lifecycle_result \<times> yard" where
  "applyCancellation sha256 input = applyLifecycle sha256 input (cancel_line input)"

definition fulfill_line :: "lifecycle_input \<Rightarrow> (string \<times> int) list \<Rightarrow> order_line \<Rightarrow> uuid \<Rightarrow> yard \<Rightarrow> exn + line_decision \<times> yard" where
  "fulfill_line input quantities l order y =
     (let shipped = given (map_of quantities (olLine l)) (olQuantity l)
      in bindR (set_line (olId l) (\<lambda>r. r\<lparr>olShipped := max (olShipped r) shipped\<rparr>) y) (\<lambda>y1.
         case olReservation l of
           None \<Rightarrow> Inr (plain_decision l EffectNothing (Some ''this line never committed any inventory'') shipped, y1)
         | Some reservation \<Rightarrow>
             bindR (in_house (in_stock (fulfillReservation (resolve_line input reservation))) y1) (\<lambda>(fulfilled, y2).
             Inr (if fulfilled = Fulfilled then (plain_decision l EffectFulfilled None shipped)\<lparr>ldTouched := olItem l\<rparr>
                  else plain_decision l EffectKept (Some ''this reservation was already resolved'') shipped, y2))))"

definition applyFulfillment :: "(string \<Rightarrow> string) \<Rightarrow> lifecycle_input \<Rightarrow> (string \<times> int) list \<Rightarrow> yard \<Rightarrow> exn + lifecycle_result \<times> yard" where
  "applyFulfillment sha256 input quantities = applyLifecycle sha256 input (fulfill_line input quantities)"

definition refund_line :: "lifecycle_input \<Rightarrow> restock_origin \<Rightarrow> order_line \<Rightarrow> uuid \<Rightarrow> yard \<Rightarrow> exn + line_decision \<times> yard" where
  "refund_line input origin l order y =
     bindR (raiseRestockCandidate input order l origin (olQuantity l) y) (\<lambda>(c, y1).
     Inr ((plain_decision l EffectRestock (Some ''a refund says nothing about where the goods are'') (olQuantity l))\<lparr>ldCandidate := Some c\<rparr>, y1))"

definition applyRefund :: "(string \<Rightarrow> string) \<Rightarrow> lifecycle_input \<Rightarrow> restock_origin option \<Rightarrow> yard \<Rightarrow> exn + lifecycle_result \<times> yard" where
  "applyRefund sha256 input origin = applyLifecycle sha256 input (refund_line input (given origin FromRefund))"

section \<open>Confirming a restock\<close>

record confirm_input =
  cfBusiness :: uuid
  cfCandidate :: uuid
  cfQuantity :: int
  cfLocation :: uuid
  cfActor :: uuid
  cfReason :: "string option"

datatype confirm_result = Restocked int | ConfirmNotFound | ConfirmResolved candidate_status | ConfirmInvalid string

definition restock_posting :: "confirm_input \<Rightarrow> uuid \<Rightarrow> posting_input" where
  "restock_posting input item = posting_of (cfBusiness input) (Some (cfActor input)) None
     [\<lparr>mvItem = item, mvLocation = cfLocation input, mvKind = Receipt, mvDelta = cfQuantity input,
       mvReason = Some (given (cfReason input) ''confirmed restock from a returned order''), mvReversalOf = None\<rparr>]"

definition confirmed_candidate :: "confirm_input \<Rightarrow> instant \<Rightarrow> uuid option \<Rightarrow> candidate \<Rightarrow> candidate" where
  "confirmed_candidate input now entry r = r\<lparr>rkStatus := CandidateConfirmed, rkConfirmed := Some (cfQuantity input),
     rkLocation := Some (cfLocation input), rkBy := Some (cfActor input), rkAt := Some now, rkEntry := entry,
     rkReason := or_else (cfReason input) (rkReason r)\<rparr>"

definition first_of :: "'a list \<Rightarrow> 'a option" where
  "first_of xs = (case xs of [] \<Rightarrow> None | x # _ \<Rightarrow> Some x)"

definition finish_restock :: "confirm_input \<Rightarrow> instant \<Rightarrow> uuid \<Rightarrow> uuid option \<Rightarrow> yard \<Rightarrow> exn + confirm_result \<times> yard" where
  "finish_restock input now item entry y =
     bindR (update_candidates (\<lambda>r. rkId r = cfCandidate input) (confirmed_candidate input now entry) y) (\<lambda>y1.
     bindR (if 0 < cfQuantity input
            then put_in_house (refresh_item (cfBusiness input) ''confirmed restock'' (operatorOrigin OriginRestock now) item) y1
            else Inr y1) (\<lambda>y2.
     Inr (Restocked (cfQuantity input), y2)))"

definition confirmRestock :: "confirm_input \<Rightarrow> instant \<Rightarrow> yard \<Rightarrow> exn + confirm_result \<times> yard" where
  "confirmRestock input now y =
     (if cfQuantity input < 0 then Inr (ConfirmInvalid ''a restock cannot be negative'', y)
      else case List.find (\<lambda>r. rkBusiness r = cfBusiness input \<and> rkId r = cfCandidate input) (ydCandidates y) of
        None \<Rightarrow> Inr (ConfirmNotFound, y)
      | Some r \<Rightarrow>
          if rkStatus r \<noteq> CandidatePending then Inr (ConfirmResolved (rkStatus r), y)
          else case rkItem r of
            None \<Rightarrow> Inr (ConfirmInvalid ''this candidate is not linked to a canonical item, so there is nowhere to restock it'', y)
          | Some item \<Rightarrow>
              if 0 < cfQuantity input
              then bindR (in_house (in_stock (postMovements (restock_posting input item))) y) (\<lambda>(posted, y1).
                   case posted of
                     Posted ids bals \<Rightarrow> finish_restock input now item (first_of ids) y1
                   | _ \<Rightarrow> Inr (ConfirmInvalid ''the restock movement was refused'', y1))
              else finish_restock input now item None y)"

definition declineRestock :: "uuid \<Rightarrow> uuid \<Rightarrow> string \<Rightarrow> uuid \<Rightarrow> instant \<Rightarrow> yard \<Rightarrow> exn + bool \<times> yard" where
  "declineRestock b c reason actor now y =
     (let p = (\<lambda>r. rkBusiness r = b \<and> rkId r = c \<and> rkStatus r = CandidatePending)
      in bindR (update_candidates p (\<lambda>r. r\<lparr>rkStatus := CandidateDeclined, rkReason := Some reason, rkBy := Some actor,
                  rkAt := Some now\<rparr>) y) (\<lambda>y1.
         Inr (list_ex p (ydCandidates y), y1)))"

end
