(* ===== verification/Pipeline.thy ===== *)
theory Pipeline
  imports Lifecycle Dispatch
begin

text \<open>
  \<^verbatim>\<open>packages/sync/src/pipeline.ts\<close>: one path in, whatever woke us up. A trigger names an order; the
  worker fetches it and its current state decides. The import and the transition it calls for are
  one transaction; the poll is a series of statements around calls of the adapter, and may not end
  when the provider never stops handing out cursors. A timestamp in a payload is the instant it
  denotes.
\<close>

section \<open>Requests\<close>

definition ORDER_SYNC_JOB :: string where
  "ORDER_SYNC_JOB = ''order.sync''"

definition ORDER_POLL_JOB :: string where
  "ORDER_POLL_JOB = ''order.poll''"

definition ORDER_STREAM :: string where
  "ORDER_STREAM = ''orders''"

definition POLL_OVERLAP_MS :: int where
  "POLL_OVERLAP_MS = 15 * 60 * 1000"

fun source_text :: "event_source \<Rightarrow> string" where
  "source_text ViaWebhook = ''webhook''"
| "source_text ViaPoll = ''poll''"
| "source_text ViaVerification = ''verification''"
| "source_text ViaManual = ''manual''"
| "source_text ViaReconciliation = ''reconciliation''"

definition order_scope :: "uuid \<Rightarrow> string \<Rightarrow> string" where
  "order_scope c external = ''order:'' @ uuid_text c @ '':'' @ external"

record sync_request =
  sqBusiness :: uuid
  sqConnection :: uuid
  sqOrder :: string
  sqSource :: event_source
  sqEvent :: "string option"
  sqNoticed :: "instant option"

definition sync_job :: "sync_request \<Rightarrow> instant \<Rightarrow> enqueue_input" where
  "sync_job input now =
     \<lparr>eqKind = ORDER_SYNC_JOB, eqBusiness = Some (sqBusiness input), eqConnection = Some (sqConnection input),
      eqPriority = Some priority_orderIngestion, eqSerialization = Some (order_scope (sqConnection input) (sqOrder input)),
      eqDedupe = Some (order_scope (sqConnection input) (sqOrder input)),
      eqPayload = Some ([(''externalOrderId'', JsonText (sqOrder input)), (''source'', JsonText (source_text (sqSource input))),
        (''noticedAt'', JsonNumber (given (sqNoticed input) now))]
        @ (case sqEvent input of None \<Rightarrow> [] | Some e \<Rightarrow> [(''externalEventId'', JsonText e)])),
      eqRunAt = None, eqMaxAttempts = None, eqWindow = None\<rparr>"

definition requestOrderSync :: "sync_request \<Rightarrow> instant \<Rightarrow> queue \<Rightarrow> exn + queue" where
  "requestOrderSync input now q = bindR (enqueue (sync_job input now) id q) (\<lambda>(j, q1). Inr q1)"

section \<open>The order as an event\<close>

fun demand_text :: "demand_state \<Rightarrow> string" where
  "demand_text Awaiting = ''awaiting''"
| "demand_text CommittedDemand = ''committed''"
| "demand_text FulfilledDemand = ''fulfilled''"
| "demand_text CancelledDemand = ''cancelled''"
| "demand_text RefundedDemand = ''refunded''"

definition pay_text :: "string option \<Rightarrow> payload" where
  "pay_text x = (case x of None \<Rightarrow> PayAbsent | Some s \<Rightarrow> PayText s)"

definition pay_number :: "int option \<Rightarrow> payload" where
  "pay_number x = (case x of None \<Rightarrow> PayAbsent | Some n \<Rightarrow> PayNumber n)"

definition line_payload :: "provider_line \<Rightarrow> payload" where
  "line_payload l = PayObject [(''externalLineId'', PayText (nlLine l)), (''externalItemId'', PayText (nlItem l)),
     (''variationId'', pay_text (nlVariation l)), (''sku'', pay_text (nlSku l)), (''title'', pay_text (nlTitle l)),
     (''quantity'', PayNumber (nlQuantity l)), (''cancelledQuantity'', pay_number (nlCancelled l)),
     (''shippedQuantity'', pay_number (nlShipped l)), (''refundedQuantity'', pay_number (nlRefunded l))]"

text \<open>A date has no entries of its own, so it is stringified as an empty object.\<close>

definition order_payload :: "provider_order \<Rightarrow> payload" where
  "order_payload x = PayObject [(''externalOrderId'', PayText (noOrder x)), (''providerStatus'', pay_text (noStatus x)),
     (''demandState'', PayText (demand_text (noDemand x))),
     (''placedAt'', if noPlaced x = None then PayAbsent else PayObject []),
     (''providerRevision'', pay_text (noRevision x)), (''providerSequence'', pay_number (noSequence x)),
     (''currency'', pay_text (noCurrency x)), (''totalAmount'', pay_text (noTotal x)), (''buyerReference'', pay_text (noBuyer x)),
     (''lines'', PayList (map line_payload (noLines x)))]"

definition order_event :: "string \<Rightarrow> uuid \<Rightarrow> uuid \<Rightarrow> event_source \<Rightarrow> string \<Rightarrow> provider_order \<Rightarrow> string \<Rightarrow> identity" where
  "order_event provider b c source external x kind =
     \<lparr>iyConnection = c, iyBusiness = Some b, iyProvider = provider, iySource = source, iyType = kind,
      iyResourceType = Some ''order'', iyResource = Some external, iyExternal = None, iyRevision = None,
      iyPayload = order_payload x\<rparr>"

section \<open>One order\<close>

definition json_text :: "json_object \<Rightarrow> string \<Rightarrow> string option" where
  "json_text p k = (case map_of p k of Some (JsonText s) \<Rightarrow> Some s | _ \<Rightarrow> None)"

definition all_sources :: "event_source list" where
  "all_sources = [ViaWebhook, ViaPoll, ViaVerification, ViaManual, ViaReconciliation]"

definition asSource :: "string option \<Rightarrow> event_source" where
  "asSource value = given (List.find (\<lambda>s. Some (source_text s) = value) all_sources) ViaPoll"

definition orderOrigin :: "int option \<Rightarrow> instant \<Rightarrow> change_origin" where
  "orderOrigin value now = \<lparr>coKind = OriginOrder, coNoticed = given value now\<rparr>"

definition shippedQuantities :: "provider_order \<Rightarrow> (string \<times> int) list" where
  "shippedQuantities x = fold (\<lambda>l m. case nlShipped l of None \<Rightarrow> m | Some n \<Rightarrow> if 0 < n then alist_put (nlLine l) n m else m)
     (noLines x) []"

definition orderFetchFailure :: "provider_failure \<Rightarrow> job_result" where
  "orderFetchFailure f = (case f of NotFound _ \<Rightarrow> Superseded (describeFailure f) | _ \<Rightarrow> toJobFailure f)"

record changed_page =
  cgOrders :: "string list"
  cgNext :: "string option"

record 'w order_adapter =
  oaProvider :: string
  oaFetch :: "string \<Rightarrow> ('w, provider_order provider_result) action"
  oaChanged :: "instant \<Rightarrow> string option \<Rightarrow> ('w, changed_page provider_result) action"

definition lifecycle_of :: "uuid \<Rightarrow> uuid \<Rightarrow> string \<Rightarrow> identity \<Rightarrow> string \<Rightarrow> change_origin \<Rightarrow> lifecycle_input" where
  "lifecycle_of b c external event reason origin =
     \<lparr>lfBusiness = b, lfConnection = c, lfOrder = external, lfEvent = event, lfLines = None, lfReason = reason,
      lfActor = None, lfNow = None, lfOrigin = origin\<rparr>"

definition apply_state ::
    "(string \<Rightarrow> string) \<Rightarrow> uuid \<Rightarrow> uuid \<Rightarrow> string \<Rightarrow> (string \<Rightarrow> identity) \<Rightarrow> change_origin \<Rightarrow> provider_order \<Rightarrow> yard \<Rightarrow> exn + yard" where
  "apply_state sha256 b c external event origin x y =
     (let reason = (\<lambda>word. ''the channel reports this order as '' @ word);
          input = (\<lambda>kind word. lifecycle_of b c external (event kind) (reason word) origin);
          drop = (\<lambda>m. bindR m (\<lambda>(r, y1). Inr y1))
      in case noDemand x of
           FulfilledDemand \<Rightarrow> drop (applyFulfillment sha256 (input ''order.fulfilled'' ''fulfilled'') (shippedQuantities x) y)
         | CancelledDemand \<Rightarrow> drop (applyCancellation sha256 (input ''order.cancelled'' ''cancelled'') y)
         | RefundedDemand \<Rightarrow> drop (applyRefund sha256 (input ''order.refunded'' ''refunded'') None y)
         | Awaiting \<Rightarrow> Inr y
         | CommittedDemand \<Rightarrow> Inr y)"

definition sync_transaction ::
    "(string \<Rightarrow> string) \<Rightarrow> uuid \<Rightarrow> uuid \<Rightarrow> string \<Rightarrow> (string \<Rightarrow> identity) \<Rightarrow> change_origin \<Rightarrow> provider_order \<Rightarrow> yard \<Rightarrow> exn + yard" where
  "sync_transaction sha256 b c external event origin x y =
     bindR (in_house (ingestOrder sha256 \<lparr>igBusiness = b, igConnection = c, igOrder = x, igEvent = event ''order.state'',
              igActor = None, igNow = None, igOrigin = origin\<rparr>) y) (\<lambda>(ingested, y1).
     case ingested of
       AlreadyProcessed prior \<Rightarrow> Inr y1
     | _ \<Rightarrow> apply_state sha256 b c external event origin x y1)"

definition transaction :: "('s \<Rightarrow> exn + 's) \<Rightarrow> ('s, unit) action" where
  "transaction f s = (case f s of Inl e \<Rightarrow> (Inl e, s) | Inr s1 \<Rightarrow> (Inr (), s1))"

type_synonym order_factory = "uuid \<Rightarrow> (yard, yard order_adapter) action"

definition handleOrderSync :: "(string \<Rightarrow> string) \<Rightarrow> order_factory \<Rightarrow> instant \<Rightarrow> claimed_job \<Rightarrow> (yard, job_result) action" where
  "handleOrderSync sha256 adapterFor now job =
     (let payload = jbPayload (cjJob job);
          source = asSource (json_text payload ''source'');
          origin = orderOrigin (json_number payload ''noticedAt'') now
      in case (json_text payload ''externalOrderId'', jbBusiness (cjJob job), jbConnection (cjJob job)) of
           (Some external, Some b, Some c) \<Rightarrow>
             andthen (adapterFor c) (\<lambda>adapter.
             andthen (oaFetch adapter external) (\<lambda>fetched.
             case fetched of
               Failure f \<Rightarrow> answer (orderFetchFailure f)
             | Success x \<Rightarrow>
                 andthen (transaction (sync_transaction sha256 b c external
                   (order_event (oaProvider adapter) b c source external x) origin x)) (\<lambda>_.
                 answer Finished)))
         | _ \<Rightarrow> answer (Failed ''malformed_job'' ''this order job names no order'' False None))"

section \<open>The poll\<close>

record cursor_row =
  crConnection :: uuid
  crStream :: string
  crValue :: "instant option"
  crSeen :: nat
  crComplete :: "instant option"

record lot =
  ltYard :: yard
  ltCursors :: "cursor_row list"

definition readWatermark :: "uuid \<Rightarrow> instant \<Rightarrow> cursor_row list \<Rightarrow> instant" where
  "readWatermark c now rows =
     (case List.find (\<lambda>r. crConnection r = c \<and> crStream r = ORDER_STREAM) rows of
        None \<Rightarrow> now - POLL_OVERLAP_MS
      | Some r \<Rightarrow> given (crValue r) (now - POLL_OVERLAP_MS))"

definition writeWatermark :: "uuid \<Rightarrow> instant \<Rightarrow> nat \<Rightarrow> cursor_row list \<Rightarrow> cursor_row list" where
  "writeWatermark c at seen rows =
     (let f = (\<lambda>r. r\<lparr>crValue := Some at, crSeen := seen, crComplete := Some at\<rparr>);
          p = (\<lambda>r. crConnection r = c \<and> crStream r = ORDER_STREAM)
      in if list_ex p rows then update_where p f rows
         else rows @ [\<lparr>crConnection = c, crStream = ORDER_STREAM, crValue = Some at, crSeen = seen, crComplete = Some at\<rparr>])"

definition queue_at :: "lot \<Rightarrow> queue" where
  "queue_at s = hbQueue (hoHub (ydHouse (ltYard s)))"

definition put_queue :: "queue \<Rightarrow> lot \<Rightarrow> lot" where
  "put_queue q s = s\<lparr>ltYard := (ltYard s)\<lparr>ydHouse := (ydHouse (ltYard s))\<lparr>hoHub := (hoHub (ydHouse (ltYard s)))\<lparr>hbQueue := q\<rparr>\<rparr>\<rparr>\<rparr>"

definition request_action :: "sync_request \<Rightarrow> instant \<Rightarrow> (lot, unit) action" where
  "request_action input now s = (case requestOrderSync input now (queue_at s) of
     Inl e \<Rightarrow> (Inl e, s) | Inr q \<Rightarrow> (Inr (), put_queue q s))"

text \<open>
  The handler reads its clock many times: in \<open>readWatermark\<close>, when the sweep starts, and for every
  order it queues. \<open>requested k\<close> is the reading for the order after \<open>k\<close> others.
\<close>

fun request_all :: "uuid \<Rightarrow> uuid \<Rightarrow> (nat \<Rightarrow> instant) \<Rightarrow> nat \<Rightarrow> string list \<Rightarrow> (lot, unit) action" where
  "request_all b c requested k [] = answer ()"
| "request_all b c requested k (x # xs) = andthen (request_action \<lparr>sqBusiness = b, sqConnection = c, sqOrder = x,
     sqSource = ViaPoll, sqEvent = None, sqNoticed = None\<rparr> (requested k)) (\<lambda>_. request_all b c requested (Suc k) xs)"

text \<open>The pages from a cursor on: what went wrong, or how many orders were seen.\<close>

partial_function (option) poll_pages ::
    "lot order_adapter \<Rightarrow> uuid \<Rightarrow> uuid \<Rightarrow> instant \<Rightarrow> (nat \<Rightarrow> instant) \<Rightarrow> string option \<Rightarrow> nat \<Rightarrow> lot
      \<Rightarrow> ((exn + (provider_failure + nat)) \<times> lot) option" where
  "poll_pages adapter b c since requested cursor seen s =
     (case oaChanged adapter since cursor s of
        (Inl e, s1) \<Rightarrow> Some (Inl e, s1)
      | (Inr (Failure f), s1) \<Rightarrow> Some (Inr (Inl f), s1)
      | (Inr (Success page), s1) \<Rightarrow>
          (case request_all b c requested seen (cgOrders page) s1 of
             (Inl e, s2) \<Rightarrow> Some (Inl e, s2)
           | (Inr _, s2) \<Rightarrow>
               (case cgNext page of
                  None \<Rightarrow> Some (Inr (Inr (seen + length (cgOrders page))), s2)
                | Some next \<Rightarrow> poll_pages adapter b c since requested (Some next) (seen + length (cgOrders page)) s2)))"

text \<open>
  The readings of the handler's clock in the order it takes them: \<open>clock 0\<close> is \<open>readWatermark\<close>'s
  \<open>Date.now()\<close> (used when there is no watermark), \<open>clock 1\<close> is \<open>startedAt\<close>, taken before the first page
  is asked for, and \<open>clock (k + 2)\<close> is the one for the order queued after \<open>k\<close> others.
\<close>

definition handleOrderPoll ::
    "(uuid \<Rightarrow> (lot, lot order_adapter) action) \<Rightarrow> (nat \<Rightarrow> instant) \<Rightarrow> claimed_job \<Rightarrow> lot \<Rightarrow> ((exn + job_result) \<times> lot) option" where
  "handleOrderPoll adapterFor clock job s =
     (case (jbBusiness (cjJob job), jbConnection (cjJob job)) of
        (Some b, Some c) \<Rightarrow>
          (let since = readWatermark c (clock 0) (ltCursors s) - POLL_OVERLAP_MS
           in case adapterFor c s of
                (Inl e, s1) \<Rightarrow> Some (Inl e, s1)
              | (Inr adapter, s1) \<Rightarrow>
                  (case poll_pages adapter b c since (\<lambda>k. clock (k + 2)) None 0 s1 of
                     None \<Rightarrow> None
                   | Some (Inl e, s2) \<Rightarrow> Some (Inl e, s2)
                   | Some (Inr (Inl f), s2) \<Rightarrow> Some (Inr (toJobFailure f), s2)
                   | Some (Inr (Inr seen), s2) \<Rightarrow>
                       Some (Inr Finished, s2\<lparr>ltCursors := writeWatermark c (clock 1) seen (ltCursors s2)\<rparr>)))
      | _ \<Rightarrow> Some (Inr (Failed ''malformed_job'' ''this poll job names no connection'' False None), s))"

end
