(* ===== verification/Intake.thy ===== *)
theory Intake
  imports Pipeline Demand Sends
begin

text \<open>
  What the order stream promises: an order commits stock once, a copy and a replay move none, and
  everything it does to the stock is a run of the operations of the inventory package.
\<close>

section \<open>Work on a house\<close>

definition stock_in :: "house \<Rightarrow> db" where
  "stock_in h = mkStock (hbMarket (hoHub h))"

text \<open>
  Work that leaves the order table and the events alone, and whose effect on the stock is a run of
  inventory operations.
\<close>

definition worked :: "house \<Rightarrow> house \<Rightarrow> bool" where
  "worked h h' \<longleftrightarrow> osOrders (hoOrders h') = osOrders (hoOrders h) \<and> osMirrors (hoOrders h') = osMirrors (hoOrders h)
     \<and> hoEvents h' = hoEvents h \<and> inventory_step\<^sup>*\<^sup>* (stock_in h) (stock_in h')"

lemma worked_refl [simp]: "worked h h"
  by (simp add: worked_def)

lemma worked_trans [trans]: "worked h h1 \<Longrightarrow> worked h1 h2 \<Longrightarrow> worked h h2"
  unfolding worked_def by (auto intro: rtranclp_trans)

lemma foldR_worked:
  assumes "foldR f xs s = Inr s'" and "\<And>x s s'. f x s = Inr s' \<Longrightarrow> worked (get s) (get s')"
  shows "worked (get s) (get s')"
  using assms(1)
proof (induction xs arbitrary: s)
  case (Cons x xs)
  then obtain s1 where "f x s = Inr s1" "foldR f xs s1 = Inr s'" by (auto simp: result_simps)
  with assms(2) Cons.IH show ?case using worked_trans by blast
qed simp

lemma refresh_channel_market: "refresh_channel b reason origin c acc = Inr acc' \<Longrightarrow> hbMarket (snd acc') = hbMarket (snd acc)"
  by (auto simp: refresh_channel_def Let_def result_simps split: if_splits)

lemma refresh_market: "refreshTargetsForItem b item reason origin h = Inr (ds, h') \<Longrightarrow> hbMarket h' = hbMarket h"
  unfolding refreshTargetsForItem_def
  by (auto simp: result_simps split: option.splits
      dest!: foldR_frame [where g = "\<lambda>acc. hbMarket (snd acc)", OF _ refresh_channel_market])

named_theorems works \<open>pieces of an ingest or a transition that are work on the house\<close>

lemma refresh_item_worked [works]: "refresh_item b reason origin item h = Inr h' \<Longrightarrow> worked h h'"
  by (auto simp: refresh_item_def result_simps worked_def stock_in_def dest!: refresh_market)

lemma in_stock_worked:
  assumes "in_stock f h = Inr (v, h')" and "\<And>d v d'. f d = Inr (v, d') \<Longrightarrow> inventory_step\<^sup>*\<^sup>* d d'"
  shows "worked h h'"
  using assms by (auto simp: in_stock_def result_simps worked_def stock_in_def)

lemma reserve_worked [works]: "in_stock (reserve i) h = Inr (v, h') \<Longrightarrow> worked h h'"
  by (erule in_stock_worked) (auto intro: inventory_step.intros)

lemma release_worked [works]: "in_stock (releaseReservation i) h = Inr (v, h') \<Longrightarrow> worked h h'"
  by (erule in_stock_worked) (auto intro: inventory_step.intros)

lemma fulfill_worked [works]: "in_stock (fulfillReservation i) h = Inr (v, h') \<Longrightarrow> worked h h'"
  by (erule in_stock_worked) (auto intro: inventory_step.intros)

lemma post_worked [works]: "in_stock (postMovements i) h = Inr (v, h') \<Longrightarrow> worked h h'"
  by (erule in_stock_worked) (auto intro: inventory_step.intros)

lemma update_lines_worked [works]: "in_orders (update_lines p f) h = Inr h' \<Longrightarrow> worked h h'"
  by (auto simp: in_orders_def update_lines_def result_simps worked_def stock_in_def)

lemma upsert_line_tables: "upsert_line b order l s = Inr s' \<Longrightarrow> osOrders s' = osOrders s \<and> osMirrors s' = osMirrors s"
  by (auto simp: upsert_line_def update_lines_def result_simps split: if_splits)

lemma upsertLines_worked [works]:
  assumes "in_orders (upsertLines b order ls) h = Inr h'"
  shows "worked h h' \<and> hoHub h' = hoHub h"
proof -
  obtain s where s: "foldR (upsert_line b order) ls (hoOrders h) = Inr s" and h': "h' = h\<lparr>hoOrders := s\<rparr>"
    using assms by (auto simp: in_orders_def upsertLines_def result_simps)
  from foldR_frame [OF s, of "\<lambda>s. (osOrders s, osMirrors s)"] upsert_line_tables
  show ?thesis by (simp add: h' worked_def stock_in_def)
qed

lemma markLine_worked [works]: "markLine l u h = Inr (x, h') \<Longrightarrow> worked h h'"
  unfolding markLine_def by (auto simp: result_simps dest: update_lines_worked)

lemma alerts_worked: "worked h (h\<lparr>hoAlerts := a, hoEvidence := v\<rparr>)"
  by (simp add: worked_def stock_in_def)

lemma commit_line_worked [works]:
  assumes "commit_line input l m v (outcomes, touched, h) = Inr (o', t', h')"
  shows "worked h h'"
proof -
  obtain x h1 where m: "markLine l \<lparr>luTreatment = treatment_of v, luReason = None, luItem = Some (fmItem m), luMapping = Some (fmMapping m),
      luReservation = Some (vwReservation v), luShortage = vwShortage v\<rparr> h = Inr (x, h1)"
    and h': "h' = h1 \<or> (\<exists>a e. h' = h1\<lparr>hoAlerts := a, hoEvidence := e\<rparr>)"
    using assms by (auto simp: commit_line_def result_simps split: if_splits sum.splits prod.splits)
  from h' have "worked h1 h'" using alerts_worked by auto
  with markLine_worked [OF m] show ?thesis by (rule worked_trans)
qed

lemma treat_line_worked [works]:
  assumes "treat_line input l acc = Inr acc'"
  shows "worked (snd (snd acc)) (snd (snd acc'))"
proof -
  obtain outcomes touched h where acc: "acc = (outcomes, touched, h)" by (cases acc)
  have plain: "markLine l u h1 = Inr (x, h2) \<Longrightarrow> worked h h1 \<Longrightarrow> worked h h2" for u x h1 h2
    using markLine_worked worked_trans by blast
  have commit: "commit_line input l m v (outcomes, touched, h1) = Inr (o', t', h2) \<Longrightarrow> worked h h1 \<Longrightarrow> worked h h2" for m v h1 o' t' h2
    using commit_line_worked worked_trans by blast
  show ?thesis
  proof (cases "resolveMapping (hbMarket (hoHub h)) (igBusiness input) (igConnection input) (olExternalItem l) (olVariation l)")
    case None
    with assms show ?thesis by (auto simp: treat_line_def acc Let_def result_simps intro: plain)
  next
    case (Some m)
    show ?thesis
    proof (cases "fmReason m")
      case None
      then have run: "treat_line input l (outcomes, touched, h) = bindR (in_stock (reserve (reserve_line input l m)) h) (\<lambda>(res, h1).
          case res of Reserved v \<Rightarrow> commit_line input l m v (outcomes, touched, h1)
          | AlreadyRecorded v \<Rightarrow> commit_line input l m v (outcomes, touched, h1)
          | ReserveNotFound \<Rightarrow> bindR (markLine l (plain_mark IneligibleLine (Some ''the canonical item this line maps to no longer exists'')) h1)
              (\<lambda>(x, h2). Inr (outcomes @ [x], touched, h2))
          | ReserveInvalid reason \<Rightarrow> bindR (markLine l (plain_mark IneligibleLine (Some reason)) h1)
              (\<lambda>(x, h2). Inr (outcomes @ [x], touched, h2)))"
        using \<open>resolveMapping _ _ _ _ _ = Some m\<close> by (simp add: treat_line_def)
      with assms obtain res h1 where r: "in_stock (reserve (reserve_line input l m)) h = Inr (res, h1)"
        by (auto simp: acc result_simps)
      note w = reserve_worked [OF r]
      with assms run r show ?thesis by (cases res; cases acc') (auto simp: acc result_simps intro: plain commit)
    next
      case (Some reason)
      with assms \<open>resolveMapping _ _ _ _ _ = Some m\<close> show ?thesis
        by (auto simp: treat_line_def acc Let_def result_simps intro: plain)
    qed
  qed
qed

lemma treatLines_worked [works]:
  assumes "treatLines input order h = Inr (ls, h')"
  shows "worked h h'"
proof -
  obtain touched h1 where a: "foldR (treat_line input) (readLines order (hoOrders h)) ([], [], h) = Inr (ls, touched, h1)"
    and b: "foldR (refresh_item (igBusiness input) (''order '' @ noOrder (igOrder input)) (igOrigin input)) touched h1 = Inr h'"
    using assms by (auto simp: treatLines_def result_simps)
  from foldR_worked [OF a, of "\<lambda>acc. snd (snd acc)"] treat_line_worked have "worked h h1" by simp
  moreover from foldR_worked [OF b, of id] refresh_item_worked have "worked h1 h'" by simp
  ultimately show ?thesis by (rule worked_trans)
qed


section \<open>Storing an order\<close>

interpretation order_table: row_table order_key
  by unfold_locales

lemma lookup_update_any:
  assumes "\<And>r. key (f r) = key r"
  shows "lookup_by key k (update_where p f rows) = map_option (\<lambda>r. if p r then f r else r) (lookup_by key k rows)"
  by (induction rows) (auto simp: assms)

lemma updated_order_key [simp]: "order_key (updated_order x now r) = order_key r" "orId (updated_order x now r) = orId r"
  by (simp_all add: updated_order_def order_key_def)

lemma updated_order_committed:
  "orCommitted r \<noteq> None \<Longrightarrow> orCommitted (updated_order x now r) \<noteq> None"
  "noDemand x = CommittedDemand \<Longrightarrow> orCommitted (updated_order x now r) \<noteq> None"
  by (auto simp: updated_order_def or_else_def split: option.splits)

definition committed_order :: "uuid \<Rightarrow> string \<Rightarrow> house \<Rightarrow> bool" where
  "committed_order c external h \<longleftrightarrow> (\<exists>r. find_order c external (hoOrders h) = Some r \<and> orCommitted r \<noteq> None)"

lemma insert_order_Inr:
  assumes "insert_order input h = Inr h1"
  shows "h1 = h \<or> h1 = h\<lparr>hoOrders := (hoOrders h)\<lparr>osNext := Suc (osNext (hoOrders h)),
      osOrders := osOrders (hoOrders h) @ [fresh_order input (osNext (hoOrders h))]\<rparr>\<rparr>
      \<and> find_order (igConnection input) (noOrder (igOrder input)) (hoOrders h) = None"
  using assms unfolding insert_order_def Let_def find_order_def order_table.lookup_None
  by (auto simp: list_ex_iff fresh_order_def order_key_def split: if_splits)

lemma insert_order_committed:
  assumes "insert_order input h = Inr h1"
  shows "committed_order c x h1 = committed_order c x h"
proof (cases "h1 = h")
  case False
  with insert_order_Inr [OF assms] show ?thesis
    by (auto simp: committed_order_def find_order_def order_table.lookup_append fresh_order_def order_key_def split: option.splits)
qed simp

lemma upsertOrder_Inr:
  assumes "upsertOrder input h = Inr (st, h1)"
  shows "hoHub h1 = hoHub h" "hoAlerts h1 = hoAlerts h" "hoEvidence h1 = hoEvidence h" "hoEvents h1 = hoEvents h"
    "osMirrors (hoOrders h1) = osMirrors (hoOrders h)" "osLines (hoOrders h1) = osLines (hoOrders h)"
    "soAlready st = committed_order (igConnection input) (noOrder (igOrder input)) h"
    "committed_order c x h \<Longrightarrow> committed_order c x h1"
    "\<not> soSuperseded st \<Longrightarrow> noDemand (igOrder input) = CommittedDemand
       \<Longrightarrow> committed_order (igConnection input) (noOrder (igOrder input)) h1"
proof -
  let ?c = "igConnection input" and ?x = "noOrder (igOrder input)"
  obtain h0 where i: "insert_order input h = Inr h0"
    using assms by (auto simp: upsertOrder_def result_simps)
  from assms i obtain r where r: "find_order ?c ?x (hoOrders h0) = Some r"
    by (cases "find_order ?c ?x (hoOrders h0)") (simp_all add: upsertOrder_def)
  have st: "soAlready st = (orCommitted r \<noteq> None)"
    and h1: "if soSuperseded st then h1 = h0 else h1 = h0\<lparr>hoOrders := (hoOrders h0)\<lparr>osOrders := update_where (\<lambda>z. orId z = orId r)
               (updated_order (igOrder input) (osNow (hoOrders h0))) (osOrders (hoOrders h0))\<rparr>\<rparr>"
    using assms i r by (simp_all add: upsertOrder_def Let_def split: if_splits) auto
  have "hoHub h0 = hoHub h \<and> hoAlerts h0 = hoAlerts h \<and> hoEvidence h0 = hoEvidence h \<and> hoEvents h0 = hoEvents h
    \<and> osMirrors (hoOrders h0) = osMirrors (hoOrders h) \<and> osLines (hoOrders h0) = osLines (hoOrders h)"
    using insert_order_Inr [OF i] by auto
  with h1 show "hoHub h1 = hoHub h" "hoAlerts h1 = hoAlerts h" "hoEvidence h1 = hoEvidence h" "hoEvents h1 = hoEvents h"
    "osMirrors (hoOrders h1) = osMirrors (hoOrders h)" "osLines (hoOrders h1) = osLines (hoOrders h)"
    by (auto split: if_splits)
  show "soAlready st = committed_order ?c ?x h"
    using st r insert_order_committed [OF i, of ?c ?x] by (simp add: committed_order_def)
  have find: "find_order c x (hoOrders h1) = map_option (\<lambda>z. if orId z = orId r then updated_order (igOrder input) (osNow (hoOrders h0)) z else z)
      (find_order c x (hoOrders h0))" if "\<not> soSuperseded st" for c x
    using h1 that by (simp add: find_order_def lookup_update_any)
  show "committed_order c x h \<Longrightarrow> committed_order c x h1"
  proof -
    assume "committed_order c x h"
    then have c: "committed_order c x h0" by (simp add: insert_order_committed [OF i])
    show "committed_order c x h1"
    proof (cases "soSuperseded st")
      case True
      with h1 c show ?thesis by simp
    next
      case False
      from c obtain z where "find_order c x (hoOrders h0) = Some z" "orCommitted z \<noteq> None" by (auto simp: committed_order_def)
      with find [OF False, of c x] updated_order_committed(1) show ?thesis by (simp add: committed_order_def)
    qed
  qed
  show "\<not> soSuperseded st \<Longrightarrow> noDemand (igOrder input) = CommittedDemand \<Longrightarrow> committed_order ?c ?x h1"
    using find [of ?c ?x] r updated_order_committed(2) by (simp add: committed_order_def)
qed

lemma worked_committed: "worked h h' \<Longrightarrow> committed_order c x h' = committed_order c x h"
  by (simp add: worked_def committed_order_def find_order_def)

lemma complete_parts [simp]: "hoHub (complete i o' h) = hoHub h" "hoOrders (complete i o' h) = hoOrders h"
    "hoAlerts (complete i o' h) = hoAlerts h" "hoEvents (complete i o' h) = completeEvent i o' (hoEvents h)"
    "committed_order c x (complete i o' h) = committed_order c x h" "stock_in (complete i o' h) = stock_in h"
  by (simp_all add: complete_def committed_order_def stock_in_def)

lemma claimEvent_cases:
  assumes "claimEvent sha256 y s = Inr (got, s')"
  obtains (again) r where "got = EventProcessed (erId r) (erOutcome r)" "s' = s" "r \<in> set (esRows s)"
      "same_event (claimed_row sha256 y (esNow s) (esNext s)) r"
      "list_ex (event_conflict (claimed_row sha256 y (esNow s) (esNext s))) (esRows s)"
  | (first) "got = EventClaimed (esNext s)"
      "s' = s\<lparr>esNext := Suc (esNext s), esRows := esRows s @ [claimed_row sha256 y (esNow s) (esNext s)]\<rparr>"
      "\<not> list_ex (event_conflict (claimed_row sha256 y (esNow s) (esNext s))) (esRows s)"
  using assms unfolding claimEvent_def Let_def
  by (auto split: if_splits option.splits simp: find_Some_iff)

text \<open>The three ways an ingest ends.\<close>

lemma ingest_cases:
  assumes "ingestOrder sha256 input h = Inr (res, h')"
  obtains (again) i prior where "claimEvent sha256 (igEvent input) (hoEvents h) = Inr (EventProcessed i prior, hoEvents h)"
      "res = AlreadyProcessed prior" "h' = h"
  | (stale) i es st h1 where "claimEvent sha256 (igEvent input) (hoEvents h) = Inr (EventClaimed i, es)"
      "upsertOrder input (h\<lparr>hoEvents := es\<rparr>) = Inr (st, h1)" "soSuperseded st" "res = SupersededDelivery (soOrder st)"
      "h' = complete i (StoredSuperseded (soOrder st)) h1"
  | (stored) i es st h1 h2 h3 r where "claimEvent sha256 (igEvent input) (hoEvents h) = Inr (EventClaimed i, es)"
      "upsertOrder input (h\<lparr>hoEvents := es\<rparr>) = Inr (st, h1)" "\<not> soSuperseded st"
      "in_orders (upsertLines (igBusiness input) (soOrder st) (noLines (igOrder input))) h1 = Inr h2"
      "inCommitted r = (noDemand (igOrder input) = CommittedDemand \<and> \<not> soAlready st
          \<and> mirrorSourceOf (igConnection input) (noOrder (igOrder input)) (hoOrders h2) = None)"
      "if inCommitted r then treatLines input (soOrder st) h2 = Inr (inLines r, h3) else h3 = h2"
      "res = Ingested r" "h' = complete i (StoredIngest r) h3"
proof -
  obtain got es where c: "claimEvent sha256 (igEvent input) (hoEvents h) = Inr (got, es)"
    using assms by (auto simp: ingestOrder_def result_simps)
  from c show thesis
  proof (cases rule: claimEvent_cases)
    case (again r)
    with assms c have "res = AlreadyProcessed (erOutcome r)" "h' = h" by (auto simp: ingestOrder_def)
    with again c show thesis by (intro that(1)) auto
  next
    case first
    let ?i = "esNext (hoEvents h)"
    from assms c first(1) obtain st h1 where u: "upsertOrder input (h\<lparr>hoEvents := es\<rparr>) = Inr (st, h1)"
      by (auto simp: ingestOrder_def result_simps)
    show thesis
    proof (cases "soSuperseded st")
      case True
      with assms c first(1) u have "res = SupersededDelivery (soOrder st)" "h' = complete ?i (StoredSuperseded (soOrder st)) h1"
        by (auto simp: ingestOrder_def)
      with that(2) c first(1) u True show thesis by blast
    next
      case False
      with assms c first(1) u obtain h2 where l: "in_orders (upsertLines (igBusiness input) (soOrder st) (noLines (igOrder input))) h1 = Inr h2"
        by (auto simp: ingestOrder_def result_simps)
      let ?commit = "noDemand (igOrder input) = CommittedDemand \<and> \<not> soAlready st
          \<and> mirrorSourceOf (igConnection input) (noOrder (igOrder input)) (hoOrders h2) = None"
      from assms c first(1) u False l obtain lines h3 where
        t: "(if ?commit then treatLines input (soOrder st) h2 else Inr (describeUntreated (soOrder st) (hoOrders h2), h2)) = Inr (lines, h3)"
        and r: "res = Ingested \<lparr>inOrder = soOrder st, inCommitted = ?commit,
              inMirrorOf = mirrorSourceOf (igConnection input) (noOrder (igOrder input)) (hoOrders h2), inLines = lines,
              inAttention = filter needs_attention lines, inShortages = sum_list (map loShortage lines)\<rparr>"
        and h': "h' = complete ?i (case res of Ingested r \<Rightarrow> StoredIngest r | _ \<Rightarrow> StoredUnknownOrder) h3"
        by (auto simp: ingestOrder_def result_simps Let_def split del: if_split)
      show thesis
        by (rule that(3) [OF _ u False l _ _ r]) (use c first(1) t h' r in \<open>auto split: if_splits\<close>)
    qed
  qed
qed


section \<open>Steps\<close>

inductive yard_step :: "(string \<Rightarrow> string) \<Rightarrow> yard \<Rightarrow> yard \<Rightarrow> bool" for sha256 where
  ingests: "in_house (ingestOrder sha256 ig) y = Inr (r, y') \<Longrightarrow> yard_step sha256 y y'"
| cancels: "applyCancellation sha256 lf y = Inr (r', y') \<Longrightarrow> yard_step sha256 y y'"
| fulfils: "applyFulfillment sha256 lf qs y = Inr (r', y') \<Longrightarrow> yard_step sha256 y y'"
| refunds: "applyRefund sha256 lf origin y = Inr (r', y') \<Longrightarrow> yard_step sha256 y y'"
| confirms: "confirmRestock cf now y = Inr (x, y') \<Longrightarrow> yard_step sha256 y y'"
| declines: "declineRestock b c reason actor now y = Inr (z, y') \<Longrightarrow> yard_step sha256 y y'"
| prunes: "pruneProcessedEvents olderThanMs (hoEvents (ydHouse y)) = (n, es) \<Longrightarrow>
    yard_step sha256 y (y\<lparr>ydHouse := (ydHouse y)\<lparr>hoEvents := es\<rparr>\<rparr>)"
| elsewhere: "inventory_step\<^sup>*\<^sup>* (stock_in (ydHouse y)) (mkStock (hbMarket hub)) \<Longrightarrow> yard_step sha256 y
    (y\<lparr>ydHouse := \<lparr>hoHub = hub, hoAlerts = a, hoEvidence = v, hoOrders = (hoOrders (ydHouse y))\<lparr>osNow := t, osMirrors := ms\<rparr>,
       hoEvents = (hoEvents (ydHouse y))\<lparr>esNow := n, esConnections := cs\<rparr>\<rparr>\<rparr>)"

text \<open>What an event row is found by, and that finding it is unambiguous.\<close>

definition identified :: "identity \<Rightarrow> bool" where
  "identified y \<longleftrightarrow> iyExternal y \<noteq> None \<or> iyResource y \<noteq> None"

definition events_good :: "'o events \<Rightarrow> bool" where
  "events_good s \<longleftrightarrow> distinct (map erId (esRows s)) \<and> (\<forall>r \<in> set (esRows s). erId r < esNext s)
     \<and> unique_on by_event_id (esRows s) \<and> unique_on by_fingerprint (esRows s)"

text \<open>A finished event whose number is taken: while its row is there, it says what it said.\<close>

definition remembered :: "'o event_row \<Rightarrow> 'o events \<Rightarrow> bool" where
  "remembered r s \<longleftrightarrow> erOutcome r \<noteq> None \<and> erId r < esNext s
     \<and> (\<forall>x \<in> set (esRows s). erId x = erId r \<longrightarrow> x\<lparr>erProcessed := erProcessed r\<rparr> = r)"

text \<open>What a signal is recognised by: its provider's identifier, or else its resource and fingerprint.\<close>

definition same_signal :: "(string \<Rightarrow> string) \<Rightarrow> identity \<Rightarrow> identity \<Rightarrow> bool" where
  "same_signal sha256 a b \<longleftrightarrow> iyConnection b = iyConnection a \<and> iyType b = iyType a \<and> iyExternal b = iyExternal a
     \<and> (iyExternal a = None \<longrightarrow> iyResource b = iyResource a
          \<and> fingerprintOf sha256 (iyPayload b) = fingerprintOf sha256 (iyPayload a))"

lemma same_signal_claims:
  assumes "same_signal sha256 a b"
  shows "same_event (claimed_row sha256 b n i) r = same_event (claimed_row sha256 a n i) r"
    "event_conflict (claimed_row sha256 b n i) r = event_conflict (claimed_row sha256 a n i) r"
    "identified b = identified a"
  using assms
  by (auto simp: same_signal_def same_event_def event_conflict_def by_event_id_def by_fingerprint_def claimed_row_def
      identified_def split: option.splits)

lemma no_conflict:
  assumes "\<not> list_ex (event_conflict r) rows"
  shows "by_event_id r \<noteq> None \<longrightarrow> by_event_id r \<notin> by_event_id ` set rows"
    "by_fingerprint r \<noteq> None \<longrightarrow> by_fingerprint r \<notin> by_fingerprint ` set rows"
proof -
  have "\<not> event_conflict r x" if "x \<in> set rows" for x using assms that unfolding list_ex_iff by blast
  then show "by_event_id r \<noteq> None \<longrightarrow> by_event_id r \<notin> by_event_id ` set rows"
    "by_fingerprint r \<noteq> None \<longrightarrow> by_fingerprint r \<notin> by_fingerprint ` set rows"
    by (force simp: event_conflict_def)+
qed

lemma claim_good:
  fixes s :: "'o events"
  assumes "claimEvent sha256 y s = Inr (got, s')" "events_good s"
  shows "events_good s' \<and> (\<forall>r. remembered r s \<longrightarrow> remembered r s')"
  using assms(1)
proof (cases rule: claimEvent_cases)
  case (again r)
  with assms(2) show ?thesis by simp
next
  case first
  let ?r = "claimed_row sha256 y (esNow s) (esNext s) :: 'o event_row"
  have no: "by_event_id ?r \<noteq> None \<longrightarrow> by_event_id ?r \<notin> by_event_id ` set (esRows s)"
    "by_fingerprint ?r \<noteq> None \<longrightarrow> by_fingerprint ?r \<notin> by_fingerprint ` set (esRows s)"
    by (rule no_conflict [OF first(3)])+
  have fresh: "erId ?r = esNext s" by (simp add: claimed_row_def)
  have "unique_on by_event_id (esRows s @ [?r])" "unique_on by_fingerprint (esRows s @ [?r])"
    using assms(2) no unfolding unique_on_append by (simp_all add: events_good_def)
  moreover have "distinct (map erId (esRows s @ [?r]))" "\<forall>r \<in> set (esRows s @ [?r]). erId r < Suc (esNext s)"
    using assms(2) fresh by (auto simp: events_good_def less_Suc_eq)
  ultimately have "events_good s'" using first(2) by (simp add: events_good_def)
  moreover have "remembered r s'" if "remembered r s" for r
    using that fresh unfolding remembered_def first(2) by (auto simp: less_Suc_eq)
  ultimately show ?thesis by blast
qed

text \<open>Completing an event whose outcome is not yet stored.\<close>

definition unfinished :: "uuid \<Rightarrow> 'o events \<Rightarrow> bool" where
  "unfinished i s \<longleftrightarrow> (\<forall>r \<in> set (esRows s). erId r = i \<longrightarrow> erOutcome r = None)"

lemma complete_good:
  assumes "events_good s" "unfinished i s"
  shows "events_good (completeEvent i x s) \<and> (\<forall>r. remembered r s \<longrightarrow> remembered r (completeEvent i x s))"
proof -
  let ?f = "\<lambda>r. r\<lparr>erOutcome := Some x, erProcessed := esNow s\<rparr>"
  have keys: "by_event_id (?f r) = by_event_id r" "by_fingerprint (?f r) = by_fingerprint r" for r
    by (simp_all add: by_event_id_def by_fingerprint_def split: option.splits)
  have "unique_on by_event_id (esRows s)" "unique_on by_fingerprint (esRows s)" using assms(1) by (simp_all add: events_good_def)
  then have "unique_on by_event_id (update_where (\<lambda>r. erId r = i) ?f (esRows s))"
    "unique_on by_fingerprint (update_where (\<lambda>r. erId r = i) ?f (esRows s))"
    using unique_on_update [where f = ?f] keys by blast+
  moreover have "map erId (update_where (\<lambda>r. erId r = i) ?f (esRows s)) = map erId (esRows s)"
    by (rule map_update_where) simp
  ultimately have "events_good (completeEvent i x s)"
    using assms(1) by (auto simp: events_good_def completeEvent_def set_update_where)
  moreover have "remembered r (completeEvent i x s)" if "remembered r s" for r
  proof -
    have "z\<lparr>erProcessed := erProcessed r\<rparr> = r" if z: "z \<in> set (esRows (completeEvent i x s))" "erId z = erId r" for z
    proof -
      from z(1) obtain w where w: "w \<in> set (esRows s)" "z = (if erId w = i then ?f w else w)"
        by (auto simp: completeEvent_def set_update_where)
      then have "erId w = erId r" using z(2) by (auto split: if_splits)
      with \<open>remembered r s\<close> w(1) have r: "w\<lparr>erProcessed := erProcessed r\<rparr> = r" "erOutcome r \<noteq> None" by (auto simp: remembered_def)
      have "erOutcome w = erOutcome r" using arg_cong [OF r(1), of erOutcome] by simp
      with assms(2) w(1) r(2) have "erId w \<noteq> i" by (auto simp: unfinished_def)
      with w(2) r(1) show ?thesis by simp
    qed
    with that show ?thesis by (simp add: remembered_def completeEvent_def)
  qed
  ultimately show ?thesis by blast
qed

lemma claim_unfinished:
  assumes "claimEvent sha256 y s = Inr (EventClaimed i, s')" "events_good s"
  shows "i = esNext s \<and> unfinished i s' \<and> (\<exists>r \<in> set (esRows s'). erId r = i \<and> same_event (claimed_row sha256 y n j) r
    \<and> (identified y \<longrightarrow> event_conflict (claimed_row sha256 y n j) r))"
  using assms(1)
proof (cases rule: claimEvent_cases)
  case first
  let ?r = "claimed_row sha256 y (esNow s) (esNext s)"
  have i: "i = esNext s" using first(1) by simp
  have "unfinished i s'" using assms(2) first(2) i by (auto simp: unfinished_def claimed_row_def events_good_def)
  moreover have "same_event (claimed_row sha256 y n j) ?r" "erId ?r = i" by (simp_all add: same_event_def claimed_row_def i)
  moreover have "identified y \<Longrightarrow> event_conflict (claimed_row sha256 y n j) ?r"
    by (auto simp: event_conflict_def identified_def by_event_id_def by_fingerprint_def claimed_row_def split: option.splits)
  moreover have "?r \<in> set (esRows s')" using first(2) by simp
  ultimately show ?thesis using i by blast
qed simp

text \<open>What every step keeps.\<close>

definition progress :: "house \<Rightarrow> house \<Rightarrow> bool" where
  "progress h h' \<longleftrightarrow> (\<forall>c x. committed_order c x h \<longrightarrow> committed_order c x h')
     \<and> inventory_step\<^sup>*\<^sup>* (stock_in h) (stock_in h')
     \<and> (events_good (hoEvents h) \<longrightarrow> events_good (hoEvents h') \<and> (\<forall>r. remembered r (hoEvents h) \<longrightarrow> remembered r (hoEvents h')))"

lemma progress_refl [simp]: "progress h h"
  by (simp add: progress_def)

lemma progress_trans: "progress h h1 \<Longrightarrow> progress h1 h2 \<Longrightarrow> progress h h2"
  unfolding progress_def by (auto intro: rtranclp_trans)

lemma worked_progress: "worked h h' \<Longrightarrow> progress h h'"
  using worked_committed by (auto simp: progress_def worked_def)

lemma claim_progress:
  "claimEvent sha256 y (hoEvents h) = Inr (got, es) \<Longrightarrow> progress h (h\<lparr>hoEvents := es\<rparr>)"
  using claim_good [of sha256 y "hoEvents h" got es]
  by (simp add: progress_def committed_order_def stock_in_def)

text \<open>A claimed event, work that leaves the events alone, and its completion.\<close>

lemma completed_progress:
  assumes "claimEvent sha256 y (hoEvents h) = Inr (EventClaimed i, es)"
    and "progress (h\<lparr>hoEvents := es\<rparr>) h1" and "hoEvents h1 = es"
  shows "progress h (complete i x h1)"
proof -
  have "progress h h1" using claim_progress [OF assms(1)] assms(2) by (rule progress_trans)
  moreover have "events_good (hoEvents h) \<Longrightarrow> unfinished i (hoEvents h1)"
    using claim_unfinished [OF assms(1)] assms(3) by blast
  ultimately show ?thesis using complete_good [of "hoEvents h1" i x] by (auto simp: progress_def)
qed

lemma upsert_progress:
  assumes "upsertOrder input h = Inr (st, h1)"
  shows "progress h h1"
  using upsertOrder_Inr [OF assms] by (auto simp: progress_def stock_in_def)

lemma ingest_progress:
  assumes "ingestOrder sha256 input h = Inr (res, h')"
  shows "progress h h'"
  using assms
proof (cases rule: ingest_cases)
  case (again i prior)
  then show ?thesis by simp
next
  case (stale i es st h1)
  have "hoEvents h1 = es" using upsertOrder_Inr(4) [OF stale(2)] by simp
  with completed_progress [OF stale(1) upsert_progress [OF stale(2)]] stale(5) show ?thesis by simp
next
  case (stored i es st h1 h2 h3 r)
  have w: "worked h1 h2" using upsertLines_worked [OF stored(4)] by simp
  have "worked h2 h3" using stored(6) by (auto split: if_splits dest: treatLines_worked)
  with w have w3: "worked h1 h3" by (rule worked_trans)
  have "hoEvents h3 = es" using upsertOrder_Inr(4) [OF stored(2)] w3 by (simp add: worked_def)
  with completed_progress [OF stored(1) progress_trans [OF upsert_progress [OF stored(2)] worked_progress [OF w3]]] stored(8)
  show ?thesis by simp
qed

lemma put_in_house_Inr: "put_in_house f y = Inr y' \<longleftrightarrow> (\<exists>h. f (ydHouse y) = Inr h \<and> y' = y\<lparr>ydHouse := h\<rparr>)"
  by (auto simp: put_in_house_def result_simps)

lemma in_house_Inr: "in_house f y = Inr (v, y') \<longleftrightarrow> (\<exists>h. f (ydHouse y) = Inr (v, h) \<and> y' = y\<lparr>ydHouse := h\<rparr>)"
  by (auto simp: in_house_def result_simps)

lemma update_candidates_house: "update_candidates p f y = Inr y' \<Longrightarrow> ydHouse y' = ydHouse y"
  by (auto simp: update_candidates_def result_simps)

lemma raise_candidate_house: "raiseRestockCandidate input order l origin q y = Inr (c, y') \<Longrightarrow> ydHouse y' = ydHouse y"
  by (auto simp: raiseRestockCandidate_def Let_def result_simps split: option.splits dest: update_candidates_house)

lemma set_line_worked: "set_line i f y = Inr y' \<Longrightarrow> worked (ydHouse y) (ydHouse y')"
  by (auto simp: set_line_def put_in_house_Inr dest: update_lines_worked)

lemma cancel_line_worked:
  assumes "cancel_line input l order y = Inr (d, y')"
  shows "worked (ydHouse y) (ydHouse y')"
proof (cases "0 < olShipped l")
  case True
  with assms show ?thesis by (auto simp: cancel_line_def result_simps dest!: raise_candidate_house)
next
  case False
  show ?thesis
  proof (cases "olReservation l")
    case None
    with assms False show ?thesis by (simp add: cancel_line_def)
  next
    case (Some reservation)
    with assms False obtain released y1 where
      r: "in_house (in_stock (releaseReservation (resolve_line input reservation))) y = Inr (released, y1)"
      by (auto simp: cancel_line_def result_simps)
    then have w: "worked (ydHouse y) (ydHouse y1)" by (auto simp: in_house_Inr dest: release_worked)
    have "worked (ydHouse y1) (ydHouse y')"
      using assms False Some r by (cases released) (auto simp: cancel_line_def result_simps dest: set_line_worked)
    with w show ?thesis by (rule worked_trans)
  qed
qed

lemma fulfill_line_worked:
  assumes "fulfill_line input qs l order y = Inr (d, y')"
  shows "worked (ydHouse y) (ydHouse y')"
proof -
  obtain y1 where one: "worked (ydHouse y) (ydHouse y1)"
    and rest: "y' = y1 \<or> (\<exists>i f. in_house (in_stock (fulfillReservation i)) y1 = Inr (f, y'))"
    using assms set_line_worked by (fastforce simp: fulfill_line_def Let_def result_simps split: option.splits)
  from rest have "worked (ydHouse y1) (ydHouse y')" by (auto simp: in_house_Inr dest: fulfill_worked)
  with one show ?thesis by (rule worked_trans)
qed

lemma refund_line_worked: "refund_line input origin l order y = Inr (d, y') \<Longrightarrow> worked (ydHouse y) (ydHouse y')"
  by (auto simp: refund_line_def result_simps dest!: raise_candidate_house)

lemma lifecycle_progress:
  assumes "applyLifecycle sha256 input decide y = Inr (res, y')"
    and "\<And>l order y d y'. decide l order y = Inr (d, y') \<Longrightarrow> worked (ydHouse y) (ydHouse y')"
  shows "progress (ydHouse y) (ydHouse y')"
proof -
  obtain got es where c: "claimEvent sha256 (lfEvent input) (hoEvents (ydHouse y)) = Inr (got, es)"
    using assms(1) by (auto simp: applyLifecycle_def result_simps)
  let ?h = "(ydHouse y)\<lparr>hoEvents := es\<rparr>"
  show ?thesis
  proof (cases got)
    case (EventProcessed i prior)
    with assms(1) c have "ydHouse y' = ?h" by (auto simp: applyLifecycle_def Let_def)
    with claim_progress [OF c] show ?thesis by simp
  next
    case (EventClaimed i)
    show ?thesis
    proof (cases "find_order (lfConnection input) (lfOrder input) (hoOrders (ydHouse y))")
      case None
      with assms(1) c EventClaimed have "ydHouse y' = complete i StoredUnknownOrder ?h"
        by (auto simp: applyLifecycle_def Let_def)
      with completed_progress [OF c [unfolded EventClaimed], of ?h] show ?thesis by simp
    next
      case (Some order)
      with assms(1) c EventClaimed obtain effects candidates touched y2 y3 x where
        d: "foldR (decide_line decide (orId order)) (read_order_lines (orId order) (lfLines input) (hoOrders (ydHouse y)))
              ([], [], [], y\<lparr>ydHouse := ?h\<rparr>) = Inr (effects, candidates, touched, y2)"
        and f: "foldR (\<lambda>item. put_in_house (refresh_item (lfBusiness input) (lfReason input) (lfOrigin input) item)) touched y2 = Inr y3"
        and y': "ydHouse y' = complete i x (ydHouse y3)"
        by (auto simp: applyLifecycle_def Let_def result_simps)
      have "worked (ydHouse (snd (snd (snd acc)))) (ydHouse (snd (snd (snd acc'))))"
        if "decide_line decide order l acc = Inr acc'" for order l acc acc'
        using that assms(2) by (cases acc) (auto simp: decide_line_def result_simps)
      from foldR_worked [OF d, of "\<lambda>acc. ydHouse (snd (snd (snd acc)))", OF this] have "worked ?h (ydHouse y2)" by simp
      moreover have "worked (ydHouse y2) (ydHouse y3)"
        by (rule foldR_worked [OF f, of ydHouse]) (auto simp: put_in_house_Inr dest: refresh_item_worked)
      ultimately have w: "worked ?h (ydHouse y3)" by (rule worked_trans)
      then have "hoEvents (ydHouse y3) = es" by (simp add: worked_def)
      with completed_progress [OF c [unfolded EventClaimed] worked_progress [OF w]] y' show ?thesis by simp
    qed
  qed
qed

lemma confirm_progress:
  assumes "confirmRestock cf now y = Inr (x, y')"
  shows "progress (ydHouse y) (ydHouse y')"
proof -
  have finish: "worked (ydHouse y1) (ydHouse y2)" if "finish_restock cf now item entry y1 = Inr (x, y2)" for item entry y1 y2
    using that by (auto simp: finish_restock_def result_simps put_in_house_Inr split: if_splits
        dest!: update_candidates_house refresh_item_worked)
  have post: "worked (ydHouse y1) (ydHouse y2)" if "in_house (in_stock (postMovements i)) y1 = Inr (p, y2)" for i p y1 y2
    using that by (auto simp: in_house_Inr dest: post_worked)
  have posted: "worked (ydHouse y) (ydHouse y')"
    if "bindR (in_house (in_stock (postMovements i)) y) (\<lambda>(p, y1). case p of
          Posted ids bals \<Rightarrow> finish_restock cf now item (first_of ids) y1
        | _ \<Rightarrow> Inr (ConfirmInvalid m, y1)) = Inr (x, y')" for i item m
  proof -
    from that obtain p y1 where p: "in_house (in_stock (postMovements i)) y = Inr (p, y1)"
      and rest: "(case p of Posted ids bals \<Rightarrow> finish_restock cf now item (first_of ids) y1
        | _ \<Rightarrow> Inr (ConfirmInvalid m, y1)) = Inr (x, y')" by (auto simp: result_simps)
    have "worked (ydHouse y1) (ydHouse y')" using rest finish by (cases p) auto
    with post [OF p] show ?thesis by (rule worked_trans)
  qed
  have "worked (ydHouse y) (ydHouse y')"
    using assms unfolding confirmRestock_def by (auto split: if_splits option.splits intro: finish posted)
  then show ?thesis by (rule worked_progress)
qed

lemma unique_on_filter: "unique_on key rows \<Longrightarrow> unique_on key (filter p rows)"
proof -
  have "set (index_values key (filter p rows)) \<subseteq> set (index_values key rows)" for rows
    unfolding subset_iff set_index_values by auto
  then show "unique_on key rows \<Longrightarrow> unique_on key (filter p rows)"
    unfolding unique_on_def by (induction rows) (auto split: option.splits)
qed

lemma yard_step_progress: "yard_step sha256 y y' \<Longrightarrow> progress (ydHouse y) (ydHouse y')"
proof (induction rule: yard_step.induct)
  case (ingests ig y r y')
  then show ?case by (auto simp: in_house_Inr dest: ingest_progress)
next
  case (cancels lf y r' y')
  then show ?case unfolding applyCancellation_def by (rule lifecycle_progress) (rule cancel_line_worked)
next
  case (fulfils lf qs y r' y')
  then show ?case unfolding applyFulfillment_def by (rule lifecycle_progress) (rule fulfill_line_worked)
next
  case (refunds lf origin y r' y')
  then show ?case unfolding applyRefund_def by (rule lifecycle_progress) (rule refund_line_worked)
next
  case (confirms cf now y x y')
  then show ?case by (rule confirm_progress)
next
  case (declines b c reason actor now y z y')
  then show ?case by (auto simp: declineRestock_def Let_def result_simps dest!: update_candidates_house)
next
  case (prunes olderThanMs y n es)
  let ?s = "hoEvents (ydHouse y)"
  obtain p where es: "es = ?s\<lparr>esRows := filter p (esRows ?s)\<rparr>"
    using prunes by (auto simp: pruneProcessedEvents_def Let_def)
  have "events_good es" if "events_good ?s"
    using that unfolding es by (simp add: events_good_def distinct_map_filter unique_on_filter)
  moreover have "remembered r es" if "remembered r ?s" for r using that by (auto simp: es remembered_def)
  ultimately show ?case by (simp add: progress_def committed_order_def stock_in_def)
next
  case (elsewhere y hub a v t ms n cs)
  then show ?case
    by (auto simp: progress_def committed_order_def find_order_def stock_in_def events_good_def remembered_def)
qed

lemma yard_run_progress: "(yard_step sha256)\<^sup>*\<^sup>* y y' \<Longrightarrow> progress (ydHouse y) (ydHouse y')"
  by (induction rule: rtranclp_induct) (auto intro: progress_trans yard_step_progress)


section \<open>Promises\<close>

text \<open>
  C1: An order commits stock once. After an ingest has committed an order, no later delivery of it
  commits it again or moves any stock, queue or target, whatever deliveries, cancellations,
  shipments, refunds and other work come in between.
\<close>

theorem order_commits_once:
  assumes "in_house (ingestOrder sha256 i1) y = Inr (Ingested r1, y1)" and "inCommitted r1"
    and "(yard_step sha256)\<^sup>*\<^sup>* y1 y2" and "in_house (ingestOrder sha256 i2) y2 = Inr (Ingested r2, y3)"
    and "igConnection i2 = igConnection i1" and "noOrder (igOrder i2) = noOrder (igOrder i1)"
  shows "\<not> inCommitted r2 \<and> hoHub (ydHouse y3) = hoHub (ydHouse y2)"
proof -
  let ?c = "igConnection i1" and ?x = "noOrder (igOrder i1)"
  from assms(1) have "ingestOrder sha256 i1 (ydHouse y) = Inr (Ingested r1, ydHouse y1)" by (auto simp: in_house_Inr)
  then have "committed_order ?c ?x (ydHouse y1)"
  proof (cases rule: ingest_cases)
    case (stored i es st h1 h2 h3 r)
    with assms(2) have "noDemand (igOrder i1) = CommittedDemand" by simp
    with upsertOrder_Inr(9) [OF stored(2,3)] have "committed_order ?c ?x h1" by simp
    moreover have "worked h1 h3" using stored(4,6) upsertLines_worked treatLines_worked worked_trans by (metis)
    ultimately show ?thesis using stored(8) by (simp add: worked_committed)
  qed simp_all
  with yard_run_progress [OF assms(3)] have before: "committed_order ?c ?x (ydHouse y2)" by (simp add: progress_def)
  from assms(4) have "ingestOrder sha256 i2 (ydHouse y2) = Inr (Ingested r2, ydHouse y3)" by (auto simp: in_house_Inr)
  then show ?thesis
  proof (cases rule: ingest_cases)
    case (stored i es st h1 h2 h3 r)
    have "soAlready st" using upsertOrder_Inr(7) [OF stored(2)] before assms(5,6)
      by (simp add: committed_order_def)
    with stored have "\<not> inCommitted r2" "h3 = h2" by auto
    moreover have "hoHub h2 = hoHub h1" using upsertLines_worked [OF stored(4)] by simp
    moreover have "hoHub h1 = hoHub (ydHouse y2)" using upsertOrder_Inr(1) [OF stored(2)] by simp
    ultimately show ?thesis using stored(8) by simp
  qed simp_all
qed

text \<open>
  C3: Nothing but the first qualifying delivery of an order moves stock: when an ingest changes
  stock, queue, pilot or targets, the delivery was new and not stale, it reports committed demand,
  the order had not committed before, and it is not the copy of an order sold elsewhere.
\<close>

theorem only_a_first_commitment_moves_stock:
  assumes "ingestOrder sha256 input h = Inr (res, h')" and "hoHub h' \<noteq> hoHub h"
  shows "(\<exists>r. res = Ingested r \<and> inCommitted r) \<and> noDemand (igOrder input) = CommittedDemand
    \<and> \<not> committed_order (igConnection input) (noOrder (igOrder input)) h
    \<and> mirrorSourceOf (igConnection input) (noOrder (igOrder input)) (hoOrders h) = None"
  using assms(1)
proof (cases rule: ingest_cases)
  case (again i prior)
  with assms(2) show ?thesis by simp
next
  case (stale i es st h1)
  with assms(2) upsertOrder_Inr(1) [OF stale(2)] show ?thesis by simp
next
  case (stored i es st h1 h2 h3 r)
  have hub: "hoHub h2 = hoHub h" using upsertLines_worked [OF stored(4)] upsertOrder_Inr(1) [OF stored(2)] by simp
  have "inCommitted r"
  proof (rule ccontr)
    assume "\<not> inCommitted r"
    with stored(6,8) hub assms(2) show False by simp
  qed
  moreover have "osMirrors (hoOrders h2) = osMirrors (hoOrders h)"
    using upsertLines_worked [OF stored(4)] upsertOrder_Inr(5) [OF stored(2)] by (simp add: worked_def)
  moreover have "soAlready st = committed_order (igConnection input) (noOrder (igOrder input)) h"
    using upsertOrder_Inr(7) [OF stored(2)] by (simp add: committed_order_def)
  ultimately show ?thesis using stored(5,7) by (simp add: mirrorSourceOf_def)
qed

text \<open>
  A delivery older than what is stored is recorded as superseded, and the state it carries is applied
  all the same: an overtaken cancellation gives the units back.
\<close>

lemma stale_cancellation_is_applied:
  assumes "in_house (ingestOrder sha256 \<lparr>igBusiness = b, igConnection = c, igOrder = x, igEvent = event ''order.state'',
      igActor = None, igNow = None, igOrigin = origin\<rparr>) y = Inr (SupersededDelivery i, y1)"
    and "noDemand x = CancelledDemand"
    and "applyCancellation sha256 (lifecycle_of b c external (event ''order.cancelled'')
      ''the channel reports this order as cancelled'' origin) y1 = Inr (r, y2)"
  shows "sync_transaction sha256 b c external event origin x y = Inr y2"
  using assms by (simp add: sync_transaction_def apply_state_def)

text \<open>What an ingest stores of its own result.\<close>

fun stored_result :: "ingest_result \<Rightarrow> stored_outcome option" where
  "stored_result (Ingested r) = Some (StoredIngest r)"
| "stored_result (SupersededDelivery i) = Some (StoredSuperseded i)"
| "stored_result (AlreadyProcessed prior) = None"

lemma ingest_remembers:
  assumes "ingestOrder sha256 input h = Inr (res, h')" "stored_result res = Some x" "events_good (hoEvents h)"
  shows "\<exists>r. remembered r (hoEvents h') \<and> erId r = esNext (hoEvents h) \<and> erOutcome r = Some x \<and> same_event (claimed_row sha256 (igEvent input) n j) r
    \<and> (identified (igEvent input) \<longrightarrow> event_conflict (claimed_row sha256 (igEvent input) n j) r)"
proof -
  have finished: "\<exists>r. remembered r (completeEvent i x es) \<and> erId r = esNext (hoEvents h) \<and> erOutcome r = Some x \<and> same_event (claimed_row sha256 (igEvent input) n j) r
      \<and> (identified (igEvent input) \<longrightarrow> event_conflict (claimed_row sha256 (igEvent input) n j) r)"
    if c: "claimEvent sha256 (igEvent input) (hoEvents h) = Inr (EventClaimed i, es)" for i es
  proof -
    from claim_unfinished [OF c assms(3), of n j] obtain r where r: "r \<in> set (esRows es)" "erId r = i"
      "i = esNext (hoEvents h)"
      "same_event (claimed_row sha256 (igEvent input) n j) r"
      "identified (igEvent input) \<longrightarrow> event_conflict (claimed_row sha256 (igEvent input) n j) r" by blast
    let ?r = "r\<lparr>erOutcome := Some x, erProcessed := esNow es\<rparr>"
    have good: "events_good es" using claim_good [OF c assms(3)] by simp
    have "z = r" if "z \<in> set (esRows es)" "erId z = i" for z
      using that r(1,2) good by (auto simp: events_good_def distinct_map dest: inj_onD)
    then have "z = ?r" if "z \<in> set (esRows (completeEvent i x es))" "erId z = i" for z
      using that by (auto simp: completeEvent_def set_update_where split: if_splits)
    then have "z\<lparr>erProcessed := erProcessed ?r\<rparr> = ?r" if "z \<in> set (esRows (completeEvent i x es))" "erId z = erId ?r" for z
      using that r(2) by simp
    moreover have "erId ?r < esNext (completeEvent i x es)" using r(1) good by (simp add: events_good_def completeEvent_def)
    ultimately have "remembered ?r (completeEvent i x es)" unfolding remembered_def by simp
    moreover have "same_event (claimed_row sha256 (igEvent input) n j) ?r" using r(4) by (simp add: same_event_def)
    moreover have "by_event_id ?r = by_event_id r" "by_fingerprint ?r = by_fingerprint r"
      by (simp_all add: by_event_id_def by_fingerprint_def split: option.splits)
    then have "event_conflict (claimed_row sha256 (igEvent input) n j) ?r = event_conflict (claimed_row sha256 (igEvent input) n j) r"
      unfolding event_conflict_def by (simp only:)
    ultimately show ?thesis using r(2,3,5) by (intro exI [of _ ?r]) simp
  qed
  from assms(1) show ?thesis
  proof (cases rule: ingest_cases)
    case (again i prior)
    with assms(2) show ?thesis by simp
  next
    case (stale i es st h1)
    have "hoEvents h1 = es" using upsertOrder_Inr(4) [OF stale(2)] by simp
    with finished [OF stale(1)] stale(4,5) assms(2) show ?thesis by simp
  next
    case (stored i es st h1 h2 h3 r)
    have "worked h1 h3" using stored(4,6) upsertLines_worked treatLines_worked worked_trans by metis
    then have "hoEvents h3 = es" using upsertOrder_Inr(4) [OF stored(2)] by (simp add: worked_def)
    with finished [OF stored(1)] stored(7,8) assms(2) show ?thesis by simp
  qed
qed

lemma remembered_claim:
  fixes s :: "'o events"
  assumes "remembered r s" "erId r \<in> erId ` set (esRows s)" "events_good s" "same_event (claimed_row sha256 y (esNow s) (esNext s)) r"
    "event_conflict (claimed_row sha256 y (esNow s) (esNext s)) r" "identified y"
  shows "\<exists>i. claimEvent sha256 y s = Inr (EventProcessed i (erOutcome r), s)"
proof -
  let ?n = "claimed_row sha256 y (esNow s) (esNext s) :: 'o event_row"
  from assms(1,2) obtain x where x: "x \<in> set (esRows s)" "x\<lparr>erProcessed := erProcessed r\<rparr> = r" by (auto simp: remembered_def)
  have keys: "by_event_id x = by_event_id r" "by_fingerprint x = by_fingerprint r" "erOutcome x = erOutcome r"
    using arg_cong [OF x(2), of by_event_id] arg_cong [OF x(2), of by_fingerprint] arg_cong [OF x(2), of erOutcome]
    by (simp_all add: by_event_id_def by_fingerprint_def split: option.splits)
  have "event_conflict ?n x" using assms(5) keys by (simp add: event_conflict_def)
  then have "list_ex (event_conflict ?n) (esRows s)" using x(1) by (auto simp: list_ex_iff)
  moreover from event_conflict_same [OF \<open>event_conflict ?n x\<close>] x(1) obtain z where
    z: "List.find (same_event ?n) (esRows s) = Some z" by (cases "List.find (same_event ?n) (esRows s)") (auto simp: find_None_iff)
  moreover have "z = x"
  proof -
    from z have zs: "z \<in> set (esRows s)" "same_event ?n z" by (auto simp: find_Some_iff)
    have "same_event ?n w \<Longrightarrow> (iyExternal y \<noteq> None \<longrightarrow> by_event_id w = by_event_id ?n)
        \<and> (iyExternal y = None \<longrightarrow> by_fingerprint w = by_fingerprint ?n)" for w
      by (auto simp: same_event_def by_event_id_def by_fingerprint_def claimed_row_def split: option.splits)
    note k = this [OF zs(2)] this [OF event_conflict_same [OF \<open>event_conflict ?n x\<close>]]
    show ?thesis
    proof (cases "iyExternal y")
      case None
      with assms(6) have "by_fingerprint ?n \<noteq> None" by (auto simp: identified_def by_fingerprint_def claimed_row_def)
      with k None assms(3) zs(1) x(1) show ?thesis by (auto simp: events_good_def intro: unique_on_row)
    next
      case (Some e)
      then have "by_event_id ?n \<noteq> None" by (simp add: by_event_id_def claimed_row_def)
      with k Some assms(3) zs(1) x(1) show ?thesis by (auto simp: events_good_def intro: unique_on_row)
    qed
  qed
  ultimately show ?thesis using keys(3) by (auto simp: claimEvent_def Let_def)
qed

text \<open>
  C2: A replayed signal returns what it produced the first time and changes nothing, whatever deliveries,
  lifecycle steps, restocks and prunings happened in between, as long as its row has not been pruned.
  A replay is a signal of the same connection and type with the same identifier of the provider's, or
  with none on both sides and the same resource and fingerprint: its source, business, provider,
  revision, resource type, the order it carries and, when it has an identifier, its payload may all be
  different. Signals with neither an identifier nor a resource are left out; they are never recognised
  (\<open>unidentified_signals_are_never_deduplicated\<close>).
\<close>

theorem replayed_signal_changes_nothing:
  assumes "in_house (ingestOrder sha256 i1) y = Inr (res, y1)" and "stored_result res = Some x"
    and "events_good (hoEvents (ydHouse y))" and "identified (igEvent i1)"
    and "(yard_step sha256)\<^sup>*\<^sup>* y1 y2" and "same_signal sha256 (igEvent i1) (igEvent i2)"
    and "esNext (hoEvents (ydHouse y)) \<in> erId ` set (esRows (hoEvents (ydHouse y2)))"
  shows "in_house (ingestOrder sha256 i2) y2 = Inr (AlreadyProcessed (Some x), y2)"
proof -
  from assms(1) have run: "ingestOrder sha256 i1 (ydHouse y) = Inr (res, ydHouse y1)" by (auto simp: in_house_Inr)
  let ?s = "hoEvents (ydHouse y2)"
  from ingest_remembers [OF run assms(2,3), of "esNow ?s" "esNext ?s"] assms(4) obtain r where
    r: "remembered r (hoEvents (ydHouse y1))" "erId r = esNext (hoEvents (ydHouse y))" "erOutcome r = Some x"
      "same_event (claimed_row sha256 (igEvent i1) (esNow ?s) (esNext ?s)) r"
      "event_conflict (claimed_row sha256 (igEvent i1) (esNow ?s) (esNext ?s)) r" by blast
  have "events_good (hoEvents (ydHouse y1))" using ingest_progress [OF run] assms(3) by (simp add: progress_def)
  with yard_run_progress [OF assms(5)] r(1) have "events_good ?s" "remembered r ?s" by (auto simp: progress_def)
  then have "\<exists>i. claimEvent sha256 (igEvent i2) ?s = Inr (EventProcessed i (erOutcome r), ?s)"
    using assms(4,7) r(2,4,5) by (intro remembered_claim) (simp_all add: same_signal_claims [OF assms(6)])
  then show ?thesis by (auto simp: in_house_def ingestOrder_def r(3))
qed

text \<open>
  C4: The order stream never unbalances the books: whatever is delivered, cancelled, shipped,
  refunded and restocked, every balance equals the sum of its ledger entries and holds exactly
  what the open reservations committed, between nothing and what is on hand.
\<close>

theorem order_stream_keeps_the_books:
  assumes "(yard_step sha256)\<^sup>*\<^sup>* y y'" and "books (stock_in (ydHouse y))"
  shows "on_hand_at (stock_in (ydHouse y')) k = ledger_sum (dbLedger (stock_in (ydHouse y'))) k
    \<and> reserved_at (stock_in (ydHouse y')) k = committed (stock_in (ydHouse y')) k
    \<and> 0 \<le> reserved_at (stock_in (ydHouse y')) k
    \<and> reserved_at (stock_in (ydHouse y')) k \<le> on_hand_at (stock_in (ydHouse y')) k"
proof -
  have "inventory_step\<^sup>*\<^sup>* (stock_in (ydHouse y)) (stock_in (ydHouse y'))"
    using yard_run_progress [OF assms(1)] by (simp add: progress_def)
  then have b: "books (stock_in (ydHouse y'))" using assms(2) by (rule reachable_books)
  then have "stock_good (stock_in (ydHouse y'))" by (simp add: books_def)
  with reserved_within_on_hand [of "stock_in (ydHouse y')" k] b show ?thesis
    by (simp add: books_def stock_good_def explained_def)
qed


section \<open>A small shop\<close>

text \<open>One channel, one mapping for the bolts of \<open>shop\<close>, no orders yet.\<close>

definition bolt_market :: market where
  "bolt_market = \<lparr>mkStock = shop, mkProvider = (\<lambda>c. Ebay),
     mkItems = [\<lparr>piId = 501, piBusiness = 1, piConnection = 61, piExternal = ''e1'', piParent = None, piSku = None,
       piQuantity = Some 8, piBackorders = False, piEligible = True, piIneligible = None, piMissing = None\<rparr>],
     mkMappings = [\<lparr>mpId = 1000, mpBusiness = 1, mpConnection = 61, mpProviderItem = 501, mpItem = 21, mpStatus = MappingActive,
       mpPauseReason = None, mpBuffer = 1, mpCap = Some 7, mpVersion = 3, mpCreatedBy = Some 9, mpApprovedBy = Some 9,
       mpApprovedAt = Some 5, mpActivatedAt = Some 6, mpArchivedAt = None, mpCreatedAt = 0\<rparr>],
     mkSelected = [\<lparr>mlBusiness = 1, mlMapping = 1000, mlLocation = 41\<rparr>, \<lparr>mlBusiness = 1, mlMapping = 1000, mlLocation = 42\<rparr>],
     mkVersions = []\<rparr>"

definition bolt_hub :: hub where
  "bolt_hub = \<lparr>hbMarket = bolt_market,
     hbQueue = \<lparr>quNow = 100, quNextUuid = 71, quBusinesses = [1], quConnections = [(1, 61)], quJobs = [], quAttempts = []\<rparr>,
     hbPilot = \<lparr>plNow = 100, plBusinesses = [1], plStages = [], plEnrolled = [], plWithheld = [], plSamples = []\<rparr>,
     hbTargets = bare_shelf\<rparr>"

definition bolt_house :: house where
  "bolt_house = \<lparr>hoHub = bolt_hub, hoAlerts = quiet, hoEvidence = no_evidence,
     hoOrders = \<lparr>osNow = 100, osNext = 200, osOrders = [], osLines = [], osMirrors = []\<rparr>,
     hoEvents = \<lparr>esNow = 100, esNext = 300, esConnections = [61], esRows = []\<rparr>\<rparr>"

definition bolt_yard :: yard where
  "bolt_yard = \<lparr>ydHouse = bolt_house, ydNext = 400, ydCandidates = []\<rparr>"

text \<open>An order of two units of one entity, the notice it came by, and its delivery.\<close>

definition bought :: "string \<Rightarrow> int \<Rightarrow> provider_order" where
  "bought entity n =
     \<lparr>noOrder = ''o1'', noStatus = None, noDemand = CommittedDemand, noPlaced = None, noRevision = None, noSequence = Some n,
      noCurrency = None, noTotal = None, noBuyer = None,
      noLines = [\<lparr>nlLine = ''l1'', nlItem = entity, nlVariation = None, nlSku = None, nlTitle = None, nlQuantity = 2,
        nlCancelled = None, nlShipped = None, nlRefunded = None\<rparr>]\<rparr>"

definition notice :: "string \<Rightarrow> identity" where
  "notice n = \<lparr>iyConnection = 61, iyBusiness = Some 1, iyProvider = ''ebay'', iySource = ViaWebhook, iyType = ''order.state'',
     iyResourceType = Some ''order'', iyResource = Some ''o1'', iyExternal = Some n, iyRevision = None, iyPayload = PayNull\<rparr>"

definition delivery_of :: "string \<Rightarrow> provider_order \<Rightarrow> ingest_input" where
  "delivery_of n x = \<lparr>igBusiness = 1, igConnection = 61, igOrder = x, igEvent = notice n, igActor = None, igNow = None,
     igOrigin = \<lparr>coKind = OriginOrder, coNoticed = 90\<rparr>\<rparr>"

lemma yard_literals:
  "hoEvents bolt_house = \<lparr>esNow = 100, esNext = 300, esConnections = [61], esRows = []\<rparr>"
  "hoOrders bolt_house = \<lparr>osNow = 100, osNext = 200, osOrders = [], osLines = [], osMirrors = []\<rparr>"
  "hoHub bolt_house = bolt_hub" "hoAlerts bolt_house = quiet" "hoEvidence bolt_house = no_evidence" "ydHouse bolt_yard = bolt_house"
  "stock_in bolt_house = shop"
  by (simp_all add: bolt_house_def bolt_yard_def stock_in_def bolt_hub_def bolt_market_def)

text \<open>The yard after a first delivery.\<close>

definition after :: "exn + 'v \<times> 's \<Rightarrow> 's \<Rightarrow> 's" where
  "after result s = (case result of Inr (v, s') \<Rightarrow> s' | Inl e \<Rightarrow> s)"

lemmas delivering = in_house_def ingestOrder_def claimEvent_def claimed_row_def delivery_of_def notice_def upsertOrder_def
  insert_order_def find_order_def order_key_def lookup_by_def fresh_order_def updated_order_def or_else_def greatest_of_def upsertLines_def
  upsert_line_def fresh_line_def merged_line_def line_check_def line_key_def zero_or_def mirrorSourceOf_def treatLines_def treat_line_def
  resolveMapping_def sells_as_def readLines_def describeUntreated_def markLine_def marked_line_def plain_mark_def complete_def
  completeEvent_def event_conflict_def by_event_id_def by_fingerprint_def needs_attention_def in_orders_def update_lines_def update_where_def
  int4_def given_def Let_def


text \<open>Reading the outcome of a run off its evaluation.\<close>

lemma ran:
  "(case m of Inl e \<Rightarrow> False | Inr (v, s) \<Rightarrow> P v s) \<longleftrightarrow> (\<exists>v s. m = Inr (v, s) \<and> P v s)"
  "(case r of Ingested x \<Rightarrow> Q x | AlreadyProcessed p \<Rightarrow> False | SupersededDelivery i \<Rightarrow> False) \<longleftrightarrow> (\<exists>x. r = Ingested x \<and> Q x)"
  "(case z of Reserved w \<Rightarrow> R w | AlreadyRecorded w \<Rightarrow> False | ReserveNotFound \<Rightarrow> False | ReserveInvalid reason \<Rightarrow> False)
     \<longleftrightarrow> (\<exists>w. z = Reserved w \<and> R w)"
  by (auto split: sum.splits ingest_result.splits reserve_result.splits)

lemma unmapped_delivery:
  "\<exists>r y1. in_house (ingestOrder id (delivery_of ''n1'' (bought ''e9'' 5))) bolt_yard = Inr (Ingested r, y1) \<and> inCommitted r
     \<and> (\<exists>r2 y2. in_house (ingestOrder id (delivery_of ''n2'' (bought ''e9'' 6))) y1 = Inr (Ingested r2, y2)
         \<and> map erId (esRows (hoEvents (ydHouse y2))) = [300, 301])"
proof -
  have "case in_house (ingestOrder id (delivery_of ''n1'' (bought ''e9'' 5))) bolt_yard of
     Inr (Ingested r, y) \<Rightarrow> inCommitted r \<and> (case in_house (ingestOrder id (delivery_of ''n2'' (bought ''e9'' 6))) y of
       Inr (Ingested r2, y2) \<Rightarrow> map erId (esRows (hoEvents (ydHouse y2))) = [300, 301] | _ \<Rightarrow> False) | _ \<Rightarrow> False"
    by (simp add: delivering bought_def bolt_house_def bolt_yard_def bolt_hub_def bolt_market_def provider_item_of_def)
  then show ?thesis by (auto simp: ran)
qed

text \<open>A delivery whose item is mapped reserves its units and gives every channel of the item a new target.\<close>

definition bolt_line :: reserve_input where
  "bolt_line = \<lparr>rqBusiness = 1, rqConnection = 61, rqOrder = ''o1'', rqLine = ''l1'', rqItem = 21, rqQuantity = 2,
     rqLocationIds = Some [41, 42], rqActor = None, rqNow = None\<rparr>"

lemma bolts_sold:
  "\<exists>v d hub ds. reserve bolt_line shop = Inr (Reserved v, d) \<and> vwShortage v = 0
     \<and> refreshTargetsForItem 1 21 ''order o1'' \<lparr>coKind = OriginOrder, coNoticed = 90\<rparr> (bolt_hub\<lparr>hbMarket := bolt_market\<lparr>mkStock := d\<rparr>\<rparr>) = Inr (ds, hub)
     \<and> quJobs (hbQueue hub) \<noteq> []"
proof -
  have "case reserve bolt_line shop of Inr (Reserved v, d) \<Rightarrow> vwShortage v = 0
     \<and> (case refreshTargetsForItem 1 21 ''order o1'' \<lparr>coKind = OriginOrder, coNoticed = 90\<rparr> (bolt_hub\<lparr>hbMarket := bolt_market\<lparr>mkStock := d\<rparr>\<rparr>) of
          Inr (ds, hub) \<Rightarrow> quJobs (hbQueue hub) \<noteq> [] | _ \<Rightarrow> False) | _ \<Rightarrow> False"
    by code_simp
  then show ?thesis by (auto simp: ran)
qed

lemma mapped_delivery:
  "\<exists>r h. ingestOrder id (delivery_of ''n1'' (bought ''e1'' 5)) bolt_house = Inr (Ingested r, h) \<and> hoHub h \<noteq> bolt_hub"
proof -
  obtain v d hub ds where r: "reserve bolt_line shop = Inr (Reserved v, d)" "vwShortage v = 0"
    and f: "refreshTargetsForItem 1 21 ''order o1'' \<lparr>coKind = OriginOrder, coNoticed = 90\<rparr> (bolt_hub\<lparr>hbMarket := bolt_market\<lparr>mkStock := d\<rparr>\<rparr>) = Inr (ds, hub)"
    "quJobs (hbQueue hub) \<noteq> []"
    using bolts_sold by blast
  have "case ingestOrder id (delivery_of ''n1'' (bought ''e1'' 5)) bolt_house of Inr (Ingested r, h) \<Rightarrow> hoHub h = hub | _ \<Rightarrow> False"
    using r f by (simp add: delivering bought_def bolt_house_def bolt_hub_def bolt_market_def provider_item_of_def whyIneligible_def
      selected_for_def in_stock_def reserve_line_def bolt_line_def commit_line_def refresh_item_def set_add_def)
  moreover have "hub \<noteq> bolt_hub" using f(2) by (auto simp: bolt_hub_def)
  ultimately show ?thesis by (auto simp: ran)
qed

theorem order_commits_once_witness:
  "\<exists>r1 y1 r2 y2. in_house (ingestOrder id (delivery_of ''n1'' (bought ''e9'' 5))) bolt_yard = Inr (Ingested r1, y1) \<and> inCommitted r1
     \<and> in_house (ingestOrder id (delivery_of ''n2'' (bought ''e9'' 6))) y1 = Inr (Ingested r2, y2) \<and> \<not> inCommitted r2"
proof -
  obtain r1 y1 r2 y2 where a: "in_house (ingestOrder id (delivery_of ''n1'' (bought ''e9'' 5))) bolt_yard = Inr (Ingested r1, y1)" "inCommitted r1"
    and b: "in_house (ingestOrder id (delivery_of ''n2'' (bought ''e9'' 6))) y1 = Inr (Ingested r2, y2)"
    using unmapped_delivery by blast
  have "\<not> inCommitted r2" using order_commits_once [OF a rtranclp.rtrancl_refl b] by (simp add: delivery_of_def bought_def)
  with a b show ?thesis by blast
qed

theorem only_a_first_commitment_moves_stock_witness:
  "\<exists>r h. ingestOrder id (delivery_of ''n1'' (bought ''e1'' 5)) bolt_house = Inr (Ingested r, h) \<and> hoHub h \<noteq> hoHub bolt_house \<and> inCommitted r"
proof -
  obtain r h where a: "ingestOrder id (delivery_of ''n1'' (bought ''e1'' 5)) bolt_house = Inr (Ingested r, h)" "hoHub h \<noteq> hoHub bolt_house"
    using mapped_delivery by (auto simp: yard_literals)
  with only_a_first_commitment_moves_stock [OF a] show ?thesis by auto
qed

theorem replayed_signal_changes_nothing_witness:
  "\<exists>r1 y1 r2 y2. in_house (ingestOrder id (delivery_of ''n1'' (bought ''e9'' 5))) bolt_yard = Inr (Ingested r1, y1)
     \<and> in_house (ingestOrder id (delivery_of ''n2'' (bought ''e9'' 6))) y1 = Inr (Ingested r2, y2)
     \<and> in_house (ingestOrder id ((delivery_of ''n1'' (bought ''e9'' 7))\<lparr>igEvent := (notice ''n1'')\<lparr>iySource := ViaPoll, iyPayload := PayBool True\<rparr>\<rparr>)) y2
         = Inr (AlreadyProcessed (Some (StoredIngest r1)), y2)"
proof -
  obtain r1 y1 r2 y2 where a: "in_house (ingestOrder id (delivery_of ''n1'' (bought ''e9'' 5))) bolt_yard = Inr (Ingested r1, y1)"
    and b: "in_house (ingestOrder id (delivery_of ''n2'' (bought ''e9'' 6))) y1 = Inr (Ingested r2, y2)"
    and rows: "map erId (esRows (hoEvents (ydHouse y2))) = [300, 301]"
    using unmapped_delivery by (elim exE conjE) (rule that)
  let ?i = "(delivery_of ''n1'' (bought ''e9'' 7))\<lparr>igEvent := (notice ''n1'')\<lparr>iySource := ViaPoll, iyPayload := PayBool True\<rparr>\<rparr>"
  have good: "events_good (hoEvents (ydHouse bolt_yard))" by (simp add: yard_literals events_good_def unique_on_def)
  have run: "(yard_step id)\<^sup>*\<^sup>* y1 y2" using b by (blast intro: yard_step.ingests)
  have same: "same_signal id (igEvent (delivery_of ''n1'' (bought ''e9'' 5))) (igEvent ?i)"
    "identified (igEvent (delivery_of ''n1'' (bought ''e9'' 5)))"
    by (simp_all add: same_signal_def identified_def delivery_of_def notice_def)
  have "(300 :: uuid) \<in> set (map erId (esRows (hoEvents (ydHouse y2))))" unfolding rows by simp
  then have row: "esNext (hoEvents (ydHouse bolt_yard)) \<in> erId ` set (esRows (hoEvents (ydHouse y2)))" by (simp add: yard_literals)
  have "in_house (ingestOrder id ?i) y2 = Inr (AlreadyProcessed (Some (StoredIngest r1)), y2)"
    by (rule replayed_signal_changes_nothing [OF a _ good same(2) run same(1) row]) simp
  with a b show ?thesis by blast
qed

theorem order_stream_keeps_the_books_witness:
  "\<exists>r h. ingestOrder id (delivery_of ''n1'' (bought ''e1'' 5)) bolt_house = Inr (Ingested r, h) \<and> books shop
     \<and> reserved_at (stock_in h) (1, 21, 41) = committed (stock_in h) (1, 21, 41)
     \<and> reserved_at (stock_in h) (1, 21, 41) \<le> on_hand_at (stock_in h) (1, 21, 41)"
proof -
  obtain r h where a: "ingestOrder id (delivery_of ''n1'' (bought ''e1'' 5)) bolt_house = Inr (Ingested r, h)"
    using mapped_delivery by blast
  then have "in_house (ingestOrder id (delivery_of ''n1'' (bought ''e1'' 5))) bolt_yard = Inr (Ingested r, bolt_yard\<lparr>ydHouse := h\<rparr>)"
    by (simp add: in_house_def yard_literals)
  then have "(yard_step id)\<^sup>*\<^sup>* bolt_yard (bolt_yard\<lparr>ydHouse := h\<rparr>)" by (blast intro: yard_step.ingests)
  with order_stream_keeps_the_books [OF this, of "(1, 21, 41)"] a shop_books show ?thesis by (simp add: yard_literals)
qed

end
