(* ===== verification/Orderbook.thy ===== *)
theory Orderbook
  imports Intake
begin

text \<open>
  What the order stream keeps of its own tables: orders and lines stay well formed and refer to each
  other, a refund moves nothing, and a returned unit enters the stock by one confirmation only.
\<close>

section \<open>What every transition of a line keeps\<close>

text \<open>
  A relation between yards that no bookkeeping of events disturbs and that a refreshed target keeps;
  what each line's decision keeps, the whole transition keeps.
\<close>

locale yard_relation =
  fixes kept :: "yard \<Rightarrow> yard \<Rightarrow> bool"
  assumes kept_refl: "kept y y"
    and kept_trans: "kept y y1 \<Longrightarrow> kept y1 y2 \<Longrightarrow> kept y y2"
    and kept_events: "kept y (y\<lparr>ydHouse := (ydHouse y)\<lparr>hoEvents := es\<rparr>\<rparr>)"
    and kept_refresh: "put_in_house (refresh_item b reason origin item) y = Inr y' \<Longrightarrow> kept y y'"
begin

lemma fold_kept:
  assumes "foldR f xs s = Inr s'" and "\<And>x s s'. f x s = Inr s' \<Longrightarrow> kept (g s) (g s')"
  shows "kept (g s) (g s')"
  using assms(1)
proof (induction xs arbitrary: s)
  case Nil
  then show ?case by (simp add: kept_refl)
next
  case (Cons x xs)
  then obtain s1 where "f x s = Inr s1" "foldR f xs s1 = Inr s'" by (auto simp: result_simps)
  with assms(2) Cons.IH show ?case using kept_trans by blast
qed

lemma completed_kept: "kept y y1 \<Longrightarrow> kept y (y1\<lparr>ydHouse := complete i x (ydHouse y1)\<rparr>)"
  unfolding complete_def using kept_events kept_trans by blast

lemma lifecycle_kept:
  assumes "applyLifecycle sha256 input decide y = Inr (res, y')"
    and "\<And>l order y d y'. decide l order y = Inr (d, y') \<Longrightarrow> kept y y'"
  shows "kept y y'"
proof -
  obtain got es where c: "claimEvent sha256 (lfEvent input) (hoEvents (ydHouse y)) = Inr (got, es)"
    using assms(1) by (auto simp: applyLifecycle_def result_simps)
  let ?y = "y\<lparr>ydHouse := (ydHouse y)\<lparr>hoEvents := es\<rparr>\<rparr>"
  note first = kept_events [of y es]
  show ?thesis
  proof (cases got)
    case (EventProcessed i prior)
    with assms(1) c first show ?thesis by (auto simp: applyLifecycle_def Let_def)
  next
    case (EventClaimed i)
    show ?thesis
    proof (cases "find_order (lfConnection input) (lfOrder input) (hoOrders (ydHouse y))")
      case None
      with assms(1) c EventClaimed have "y' = ?y\<lparr>ydHouse := complete i StoredUnknownOrder (ydHouse ?y)\<rparr>"
        by (auto simp: applyLifecycle_def Let_def)
      with completed_kept [OF first] show ?thesis by blast
    next
      case (Some order)
      with assms(1) c EventClaimed obtain effects candidates touched y2 y3 x where
        d: "foldR (decide_line decide (orId order)) (read_order_lines (orId order) (lfLines input) (hoOrders (ydHouse y)))
              ([], [], [], ?y) = Inr (effects, candidates, touched, y2)"
        and f: "foldR (\<lambda>item. put_in_house (refresh_item (lfBusiness input) (lfReason input) (lfOrigin input) item)) touched y2 = Inr y3"
        and y': "y' = y3\<lparr>ydHouse := complete i x (ydHouse y3)\<rparr>"
        by (auto simp: applyLifecycle_def Let_def result_simps)
      have "kept (snd (snd (snd acc))) (snd (snd (snd acc')))" if "decide_line decide order l acc = Inr acc'" for order l acc acc'
        using that assms(2) by (cases acc) (auto simp: decide_line_def result_simps)
      from fold_kept [OF d, of "\<lambda>acc. snd (snd (snd acc))", OF this] have "kept ?y y2" by simp
      moreover have "kept y2 y3" by (rule fold_kept [OF f, of id, simplified]) (rule kept_refresh)
      ultimately have "kept y y3" using first kept_trans by blast
      with y' show ?thesis by (simp add: completed_kept)
    qed
  qed
qed

end

section \<open>Order tables\<close>

definition orders_typed :: "orders \<Rightarrow> bool" where
  "orders_typed s \<longleftrightarrow> distinct (map order_key (osOrders s)) \<and> distinct (map orId (osOrders s)) \<and> distinct (map line_key (osLines s))
     \<and> distinct (map olId (osLines s))
     \<and> (\<forall>r \<in> set (osOrders s). orId r < osNext s \<and> (orDemand r = CommittedDemand \<longrightarrow> orCommitted r \<noteq> None))
     \<and> (\<forall>l \<in> set (osLines s). olId l < osNext s \<and> line_check l = Inr () \<and> (olOrder l, olBusiness l) \<in> (\<lambda>r. (orId r, orBusiness r)) ` set (osOrders s))"

lemma update_lines_typed:
  assumes "update_lines p f s = Inr s'" and "orders_typed s"
    and "\<And>r. olId (f r) = olId r \<and> line_key (f r) = line_key r \<and> olOrder (f r) = olOrder r \<and> olBusiness (f r) = olBusiness r"
  shows "orders_typed s'"
proof -
  have s': "s' = s\<lparr>osLines := update_where p f (osLines s)\<rparr>" and c: "\<forall>r \<in> set (osLines s). p r \<longrightarrow> line_check (f r) = Inr ()"
    using assms(1) by (auto simp: update_lines_def result_simps update_checked_Inr)
  have "map line_key (update_where p f (osLines s)) = map line_key (osLines s)" "map olId (update_where p f (osLines s)) = map olId (osLines s)"
    by (rule map_update_where; simp add: assms(3))+
  with c assms(2,3) show ?thesis by (auto simp: orders_typed_def s' set_update_where)
qed

lemma upsert_line_typed:
  assumes "upsert_line b order l s = Inr s'" and "orders_typed s"
  shows "orders_typed s'"
proof (cases "list_ex (\<lambda>r. line_key r = (order, nlLine l)) (osLines s)")
  case True
  with assms show ?thesis
    by (auto simp: upsert_line_def result_simps merged_line_def line_key_def elim!: update_lines_typed)
next
  case False
  with assms(1) have c: "line_check (fresh_line b order l (osNext s)) = Inr ()"
    and o': "\<exists>r \<in> set (osOrders s). orId r = order \<and> orBusiness r = b"
    and s': "s' = s\<lparr>osNext := Suc (osNext s), osLines := osLines s @ [fresh_line b order l (osNext s)]\<rparr>"
    by (auto simp: upsert_line_def result_simps list_ex_iff split: if_splits)
  from False have "(order, nlLine l) \<notin> line_key ` set (osLines s)" by (auto simp: list_ex_iff)
  moreover have "osNext s \<notin> olId ` set (osLines s)" using assms(2) by (auto simp: orders_typed_def)
  ultimately show ?thesis using assms(2) c o'
    by (auto simp: orders_typed_def s' fresh_line_def line_key_def less_Suc_eq)
qed

lemma upsertOrder_typed:
  assumes "upsertOrder input h = Inr (st, h')" and "orders_typed (hoOrders h)"
  shows "orders_typed (hoOrders h')"
proof -
  obtain h0 where i: "insert_order input h = Inr h0" using assms(1) by (auto simp: upsertOrder_def result_simps)
  have t: "orders_typed (hoOrders h0)"
  proof (cases "h0 = h")
    case False
    with insert_order_Inr [OF i] have h0: "h0 = h\<lparr>hoOrders := (hoOrders h)\<lparr>osNext := Suc (osNext (hoOrders h)),
      osOrders := osOrders (hoOrders h) @ [fresh_order input (osNext (hoOrders h))]\<rparr>\<rparr>"
      and new: "(igConnection input, noOrder (igOrder input)) \<notin> order_key ` set (osOrders (hoOrders h))"
      by (auto simp: find_order_def order_table.lookup_None)
    then show ?thesis using assms(2)
      by (auto simp: orders_typed_def fresh_order_def order_key_def less_Suc_eq)
  qed (use assms(2) in simp)
  from assms(1) i obtain r where r: "find_order (igConnection input) (noOrder (igOrder input)) (hoOrders h0) = Some r"
    by (cases "find_order (igConnection input) (noOrder (igOrder input)) (hoOrders h0)") (simp_all add: upsertOrder_def)
  from assms(1) i r have "h' = h0 \<or> h' = h0\<lparr>hoOrders := (hoOrders h0)\<lparr>osOrders := update_where (\<lambda>z. orId z = orId r)
               (updated_order (igOrder input) (osNow (hoOrders h0))) (osOrders (hoOrders h0))\<rparr>\<rparr>"
    by (auto simp: upsertOrder_def Let_def split: if_splits)
  then show ?thesis
  proof
    let ?f = "updated_order (igOrder input) (osNow (hoOrders h0))" and ?p = "\<lambda>z. orId z = orId r"
    assume h': "h' = h0\<lparr>hoOrders := (hoOrders h0)\<lparr>osOrders := update_where ?p ?f (osOrders (hoOrders h0))\<rparr>\<rparr>"
    have m: "map order_key (update_where ?p ?f rows) = map order_key rows" "map orId (update_where ?p ?f rows) = map orId rows" for rows
      by (rule map_update_where; simp)+
    have d: "orDemand (?f z) = CommittedDemand \<Longrightarrow> orCommitted (?f z) \<noteq> None" "orBusiness (?f z) = orBusiness z" for z
      by (auto simp: updated_order_def or_else_def split: option.splits)
    have "(\<lambda>r. (orId r, orBusiness r)) ` set (update_where ?p ?f rows) = (\<lambda>r. (orId r, orBusiness r)) ` set rows" for rows
      by (induction rows) (auto simp: d)
    with t d m show ?thesis by (auto simp: orders_typed_def h' set_update_where)
  qed (simp add: t)
qed

lemma in_stock_orders: "in_stock f h = Inr (v, h') \<Longrightarrow> hoOrders h' = hoOrders h"
  by (auto simp: in_stock_def result_simps)

lemma refresh_item_orders: "refresh_item b reason origin item h = Inr h' \<Longrightarrow> hoOrders h' = hoOrders h"
  by (auto simp: refresh_item_def result_simps)

lemma markLine_typed:
  "markLine l u h = Inr (x, h') \<Longrightarrow> orders_typed (hoOrders h) \<Longrightarrow> orders_typed (hoOrders h')"
  by (auto simp: markLine_def in_orders_def result_simps marked_line_def line_key_def elim!: update_lines_typed)

lemma commit_line_typed:
  assumes "commit_line input l m v (outcomes, touched, h) = Inr (o', t', h')" and "orders_typed (hoOrders h)"
  shows "orders_typed (hoOrders h')"
proof -
  obtain x h1 where m: "markLine l \<lparr>luTreatment = treatment_of v, luReason = None, luItem = Some (fmItem m), luMapping = Some (fmMapping m),
      luReservation = Some (vwReservation v), luShortage = vwShortage v\<rparr> h = Inr (x, h1)"
    and h': "h' = h1 \<or> (\<exists>a e. h' = h1\<lparr>hoAlerts := a, hoEvidence := e\<rparr>)"
    using assms(1) by (auto simp: commit_line_def result_simps split: if_splits sum.splits prod.splits)
  from markLine_typed [OF m assms(2)] h' show ?thesis by auto
qed

lemma treat_line_typed:
  assumes "treat_line input l acc = Inr acc'" and "orders_typed (hoOrders (snd (snd acc)))"
  shows "orders_typed (hoOrders (snd (snd acc')))"
proof -
  obtain outcomes touched h where acc: "acc = (outcomes, touched, h)" by (cases acc)
  note typed = assms(2) [unfolded acc, simplified]
  show ?thesis
  proof (cases "resolveMapping (hbMarket (hoHub h)) (igBusiness input) (igConnection input) (olExternalItem l) (olVariation l)")
    case None
    with assms(1) typed show ?thesis by (auto simp: treat_line_def acc Let_def result_simps intro: markLine_typed)
  next
    case (Some m)
    show ?thesis
    proof (cases "fmReason m")
      case (Some reason)
      with assms(1) \<open>resolveMapping _ _ _ _ _ = Some m\<close> typed show ?thesis
        by (auto simp: treat_line_def acc Let_def result_simps intro: markLine_typed)
    next
      case None
      with assms(1) \<open>resolveMapping _ _ _ _ _ = Some m\<close> obtain res h1 where
        r: "in_stock (reserve (reserve_line input l m)) h = Inr (res, h1)"
        by (auto simp: treat_line_def acc result_simps)
      have "orders_typed (hoOrders h1)" using typed in_stock_orders [OF r] by simp
      with assms(1) None r \<open>resolveMapping _ _ _ _ _ = Some m\<close> show ?thesis
        by (cases res; cases acc')
          (auto simp: treat_line_def acc Let_def result_simps intro: markLine_typed commit_line_typed)
    qed
  qed
qed

lemma ingest_typed:
  assumes "ingestOrder sha256 input h = Inr (res, h')" and "orders_typed (hoOrders h)"
  shows "orders_typed (hoOrders h')"
  using assms(1)
proof (cases rule: ingest_cases)
  case (again i prior)
  with assms(2) show ?thesis by simp
next
  case (stale i es st h1)
  with upsertOrder_typed [OF stale(2)] assms(2) show ?thesis by simp
next
  case (stored i es st h1 h2 h3 r)
  have "orders_typed (hoOrders h1)" using upsertOrder_typed [OF stored(2)] assms(2) by simp
  moreover obtain s2 where s2: "foldR (upsert_line (igBusiness input) (soOrder st)) (noLines (igOrder input)) (hoOrders h1) = Inr s2"
    and h2: "h2 = h1\<lparr>hoOrders := s2\<rparr>"
    using stored(4) by (auto simp: in_orders_def upsertLines_def result_simps)
  ultimately have t2: "orders_typed (hoOrders h2)" using foldR_invariant [OF s2, of orders_typed] upsert_line_typed by simp
  have "orders_typed (hoOrders h3)"
  proof (cases "inCommitted r")
    case False
    with stored(6) t2 show ?thesis by simp
  next
    case True
    with stored(6) obtain touched ha where
      a: "foldR (treat_line input) (readLines (soOrder st) (hoOrders h2)) ([], [], h2) = Inr (inLines r, touched, ha)"
      and b: "foldR (refresh_item (igBusiness input) (''order '' @ noOrder (igOrder input)) (igOrigin input)) touched ha = Inr h3"
      by (auto simp: treatLines_def result_simps)
    from foldR_invariant [OF a, of "\<lambda>acc. orders_typed (hoOrders (snd (snd acc)))"] treat_line_typed t2
    have "orders_typed (hoOrders ha)" by simp
    moreover have "hoOrders h3 = hoOrders ha" by (rule foldR_frame [OF b]) (rule refresh_item_orders)
    ultimately show ?thesis by simp
  qed
  with stored(8) show ?thesis by simp
qed

definition typed_on :: "yard \<Rightarrow> yard \<Rightarrow> bool" where
  "typed_on y y' \<longleftrightarrow> (orders_typed (hoOrders (ydHouse y)) \<longrightarrow> orders_typed (hoOrders (ydHouse y')))"

interpretation typed: yard_relation typed_on
  by unfold_locales (auto simp: typed_on_def put_in_house_Inr dest: refresh_item_orders)

lemma set_line_typed:
  assumes "set_line i f y = Inr y'" "\<And>r. olId (f r) = olId r \<and> line_key (f r) = line_key r \<and> olOrder (f r) = olOrder r \<and> olBusiness (f r) = olBusiness r"
  shows "typed_on y y'"
  using assms(1) update_lines_typed [OF _ _ assms(2)]
  by (auto simp: set_line_def put_in_house_Inr in_orders_def result_simps typed_on_def)

lemma resolve_typed: "in_house (in_stock f) y = Inr (v, y') \<Longrightarrow> typed_on y y'"
  by (auto simp: in_house_Inr typed_on_def dest: in_stock_orders)

lemma same_house_typed: "ydHouse y' = ydHouse y \<Longrightarrow> typed_on y y'"
  by (simp add: typed_on_def)

lemma cancel_line_typed:
  assumes "cancel_line input l order y = Inr (d, y')"
  shows "typed_on y y'"
proof (cases "0 < olShipped l \<or> olReservation l = None")
  case True
  with assms show ?thesis
    by (auto simp: cancel_line_def result_simps typed.kept_refl intro: same_house_typed dest: raise_candidate_house split: if_splits)
next
  case False
  then obtain reservation where r: "olReservation l = Some reservation" "\<not> 0 < olShipped l" by blast
  with assms obtain released y1 where
    a: "in_house (in_stock (releaseReservation (resolve_line input reservation))) y = Inr (released, y1)"
    by (auto simp: cancel_line_def result_simps)
  have "typed_on y1 y'"
    using assms r a by (cases released) (auto simp: cancel_line_def result_simps line_key_def typed.kept_refl elim!: set_line_typed)
  with resolve_typed [OF a] show ?thesis by (rule typed.kept_trans)
qed

lemma fulfill_line_typed:
  assumes "fulfill_line input qs l order y = Inr (d, y')"
  shows "typed_on y y'"
proof -
  obtain y1 where one: "set_line (olId l) (\<lambda>r. r\<lparr>olShipped := max (olShipped r) (given (map_of qs (olLine l)) (olQuantity l))\<rparr>) y = Inr y1"
    and rest: "y' = y1 \<or> (\<exists>i f. in_house (in_stock (fulfillReservation i)) y1 = Inr (f, y'))"
    using assms by (fastforce simp: fulfill_line_def Let_def result_simps split: option.splits)
  have "typed_on y y1" by (rule set_line_typed [OF one]) (simp add: line_key_def)
  moreover from rest have "typed_on y1 y'" by (auto simp: typed.kept_refl dest: resolve_typed)
  ultimately show ?thesis by (rule typed.kept_trans)
qed

lemma refund_line_house: "refund_line input origin l order y = Inr (d, y') \<Longrightarrow> ydHouse y' = ydHouse y"
  by (auto simp: refund_line_def result_simps dest!: raise_candidate_house)

lemma confirm_orders:
  assumes "confirmRestock cf now y = Inr (x, y')"
  shows "hoOrders (ydHouse y') = hoOrders (ydHouse y)"
proof -
  have finish: "hoOrders (ydHouse y2) = hoOrders (ydHouse y1)" if "finish_restock cf now item entry y1 = Inr (x, y2)" for item entry y1 y2
    using that by (auto simp: finish_restock_def result_simps put_in_house_Inr split: if_splits
        dest!: update_candidates_house refresh_item_orders)
  have "hoOrders (ydHouse y') = hoOrders (ydHouse y)"
    if "bindR (in_house (in_stock (postMovements i)) y) (\<lambda>(p, y1). case p of
          Posted ids bals \<Rightarrow> finish_restock cf now item (first_of ids) y1
        | _ \<Rightarrow> Inr (ConfirmInvalid m, y1)) = Inr (x, y')" for i item m
  proof -
    from that obtain p y1 where p: "in_house (in_stock (postMovements i)) y = Inr (p, y1)"
      and rest: "(case p of Posted ids bals \<Rightarrow> finish_restock cf now item (first_of ids) y1
        | _ \<Rightarrow> Inr (ConfirmInvalid m, y1)) = Inr (x, y')" by (auto simp: result_simps)
    have "hoOrders (ydHouse y1) = hoOrders (ydHouse y)" using p by (auto simp: in_house_Inr dest: in_stock_orders)
    with rest finish show ?thesis by (cases p) auto
  qed
  with assms show ?thesis unfolding confirmRestock_def by (auto split: if_splits option.splits intro: finish)
qed

lemma yard_step_typed: "yard_step sha256 y y' \<Longrightarrow> typed_on y y'"
proof (induction rule: yard_step.induct)
  case (ingests ig y r y')
  then show ?case by (auto simp: in_house_Inr typed_on_def dest: ingest_typed)
next
  case (cancels lf y r' y')
  then show ?case unfolding applyCancellation_def by (rule typed.lifecycle_kept) (rule cancel_line_typed)
next
  case (fulfils lf qs y r' y')
  then show ?case unfolding applyFulfillment_def by (rule typed.lifecycle_kept) (rule fulfill_line_typed)
next
  case (refunds lf origin y r' y')
  then show ?case unfolding applyRefund_def by (rule typed.lifecycle_kept) (rule same_house_typed, rule refund_line_house)
next
  case (confirms cf now y x y')
  then show ?case by (simp add: typed_on_def confirm_orders)
next
  case (declines b c reason actor now y z y')
  then show ?case by (auto simp: declineRestock_def Let_def result_simps typed_on_def dest!: update_candidates_house)
next
  case (prunes olderThanMs y n es)
  show ?case by (rule typed.kept_events)
next
  case (elsewhere y hub a v t ms n cs)
  then show ?case by (simp add: typed_on_def orders_typed_def)
qed

text \<open>
  C7: The order tables stay well formed through everything that happens: one row per order of a
  connection and per line of an order, every line belongs to an order of its business, counts at
  least one unit and is short of no more than it counts, and an order in the committed state carries
  the stamp of its commitment.
\<close>

theorem order_tables_stay_typed:
  assumes "(yard_step sha256)\<^sup>*\<^sup>* y y'" and "orders_typed (hoOrders (ydHouse y))"
  defines "s \<equiv> hoOrders (ydHouse y')"
  shows "distinct (map order_key (osOrders s)) \<and> distinct (map line_key (osLines s))
    \<and> (\<forall>l \<in> set (osLines s). (\<exists>r \<in> set (osOrders s). orId r = olOrder l \<and> orBusiness r = olBusiness l)
         \<and> 1 \<le> olQuantity l \<and> int4 (olQuantity l) \<and> 0 \<le> olShortage l \<and> olShortage l \<le> olQuantity l)
    \<and> (\<forall>r \<in> set (osOrders s). orDemand r = CommittedDemand \<longrightarrow> orCommitted r \<noteq> None)"
proof -
  have "typed_on y y'" using assms(1)
    by (induction rule: rtranclp_induct) (auto intro: typed.kept_refl typed.kept_trans yard_step_typed)
  with assms(2) have t: "orders_typed s" by (simp add: typed_on_def s_def)
  have "line_check l = Inr () \<Longrightarrow> 1 \<le> olQuantity l \<and> int4 (olQuantity l) \<and> 0 \<le> olShortage l \<and> olShortage l \<le> olQuantity l" for l
    by (auto simp: line_check_def result_simps split: if_splits)
  moreover have "\<exists>r \<in> set (osOrders s). orId r = olOrder l \<and> orBusiness r = olBusiness l" if "l \<in> set (osLines s)" for l
    using t that by (fastforce simp: orders_typed_def)
  ultimately show ?thesis using t unfolding orders_typed_def by blast
qed

section \<open>Refunds\<close>

definition one_per_return :: "yard \<Rightarrow> bool" where
  "one_per_return y \<longleftrightarrow> distinct (map candidate_key (ydCandidates y))"

lemma raise_candidate_cases:
  assumes "raiseRestockCandidate input order l origin q y = Inr (c, y')"
  obtains (again) x where "x \<in> set (ydCandidates y)" "c = rkId x"
      "y' = y\<lparr>ydCandidates := update_where (\<lambda>z. rkId z = rkId x) (\<lambda>z. z\<lparr>rkClaimed := max (rkClaimed z) q\<rparr>) (ydCandidates y)\<rparr>"
  | (new) r where "c = ydNext y" "rkId r = c" "rkStatus r = CandidatePending" "candidate_key r \<notin> candidate_key ` set (ydCandidates y)"
      "y' = y\<lparr>ydNext := Suc (ydNext y), ydCandidates := ydCandidates y @ [r]\<rparr>"
proof -
  obtain row where row: "List.find (\<lambda>z. orId z = order) (osOrders (hoOrders (ydHouse y))) = Some row"
    using assms by (auto simp: raiseRestockCandidate_def split: option.splits)
  let ?r = "\<lparr>rkId = ydNext y, rkBusiness = lfBusiness input, rkConnection = lfConnection input, rkOrder = Some order,
                   rkOrderLine = Some (olId l), rkExternalOrder = orExternal row, rkExternalLine = Some (olLine l),
                   rkItem = olItem l, rkOrigin = origin, rkClaimed = q, rkStatus = CandidatePending,
                   rkConfirmed = None, rkLocation = None, rkBy = None, rkAt = None, rkEntry = None, rkReason = Some (lfReason input)\<rparr>"
  show thesis
  proof (cases "List.find (\<lambda>x. candidate_key x = candidate_key ?r) (ydCandidates y)")
    case None
    with assms row have "c = ydNext y" "y' = y\<lparr>ydNext := Suc (ydNext y), ydCandidates := ydCandidates y @ [?r]\<rparr>"
      by (auto simp: raiseRestockCandidate_def Let_def result_simps)
    moreover have "candidate_key ?r \<notin> candidate_key ` set (ydCandidates y)" using None by (auto simp: find_None_iff)
    ultimately show thesis by (intro new [of ?r]) simp_all
  next
    case (Some x)
    with assms row have "c = rkId x" "update_candidates (\<lambda>z. rkId z = rkId x) (\<lambda>z. z\<lparr>rkClaimed := max (rkClaimed z) q\<rparr>) y = Inr y'"
      by (auto simp: raiseRestockCandidate_def Let_def result_simps)
    moreover have "x \<in> set (ydCandidates y)" using Some by (auto simp: find_Some_iff)
    ultimately show thesis by (intro again [of x]) (auto simp: update_candidates_def result_simps update_checked_Inr)
  qed
qed

lemma raise_candidate_keeps:
  assumes "raiseRestockCandidate input order l origin q y = Inr (c, y')"
  shows "one_per_return y \<Longrightarrow> one_per_return y'" "rkId ` set (ydCandidates y) \<subseteq> rkId ` set (ydCandidates y')"
    "c \<in> rkId ` set (ydCandidates y')"
proof -
  have m: "map candidate_key (update_where p (\<lambda>z. z\<lparr>rkClaimed := max (rkClaimed z) q\<rparr>) rows) = map candidate_key rows"
    "rkId ` set (update_where p (\<lambda>z. z\<lparr>rkClaimed := max (rkClaimed z) q\<rparr>) rows) = rkId ` set rows" for p rows
    by (rule map_update_where, simp add: candidate_key_def) (induction rows; simp)
  from assms show "one_per_return y \<Longrightarrow> one_per_return y'" "rkId ` set (ydCandidates y) \<subseteq> rkId ` set (ydCandidates y')"
    "c \<in> rkId ` set (ydCandidates y')"
    by (cases rule: raise_candidate_cases; auto simp: one_per_return_def m)+
qed

text \<open>
  How the candidates may grow: those already there keep everything but the claim, which only rises,
  and those added wait for a person.
\<close>

definition candidates_grow :: "candidate list \<Rightarrow> candidate list \<Rightarrow> bool" where
  "candidates_grow xs ys \<longleftrightarrow> length xs \<le> length ys
     \<and> (\<forall>n < length xs. ys ! n = (xs ! n)\<lparr>rkClaimed := rkClaimed (ys ! n)\<rparr> \<and> rkClaimed (xs ! n) \<le> rkClaimed (ys ! n))
     \<and> (\<forall>n < length ys. length xs \<le> n \<longrightarrow> rkStatus (ys ! n) = CandidatePending \<and> rkConfirmed (ys ! n) = None
          \<and> rkLocation (ys ! n) = None)"

text \<open>A candidate stands for a line of an order: its connection, order, line and origin, and at least its units.\<close>

definition answers_line :: "orders \<Rightarrow> uuid \<Rightarrow> uuid \<Rightarrow> restock_origin \<Rightarrow> candidate list \<Rightarrow> order_line \<Rightarrow> uuid \<Rightarrow> bool" where
  "answers_line s connection order origin rows l c \<longleftrightarrow> (\<exists>r \<in> set rows. rkId r = c \<and> olQuantity l \<le> rkClaimed r
     \<and> (\<exists>row \<in> set (osOrders s). orId row = order \<and> candidate_key r = (connection, orExternal row, Some (olLine l), origin)))"

lemma candidates_grow_refl: "candidates_grow xs xs"
  by (simp add: candidates_grow_def)

lemma candidates_grow_trans:
  assumes "candidates_grow xs ys" "candidates_grow ys zs"
  shows "candidates_grow xs zs"
  unfolding candidates_grow_def
proof (intro conjI allI impI)
  show "length xs \<le> length zs" using assms by (simp add: candidates_grow_def)
  fix n
  { assume n: "n < length xs"
    then have y: "ys ! n = (xs ! n)\<lparr>rkClaimed := rkClaimed (ys ! n)\<rparr>" "rkClaimed (xs ! n) \<le> rkClaimed (ys ! n)" "n < length ys"
      using assms(1) by (auto simp: candidates_grow_def)
    then have z: "zs ! n = (ys ! n)\<lparr>rkClaimed := rkClaimed (zs ! n)\<rparr>" "rkClaimed (ys ! n) \<le> rkClaimed (zs ! n)"
      using assms(2) by (auto simp: candidates_grow_def)
    have "(ys ! n)\<lparr>rkClaimed := c\<rparr> = (xs ! n)\<lparr>rkClaimed := c\<rparr>" for c by (subst y(1)) simp
    with z(1) show "zs ! n = (xs ! n)\<lparr>rkClaimed := rkClaimed (zs ! n)\<rparr>" by metis
    show "rkClaimed (xs ! n) \<le> rkClaimed (zs ! n)" using y(2) z(2) by simp }
  assume n: "n < length zs" "length xs \<le> n"
  show "rkStatus (zs ! n) = CandidatePending" "rkConfirmed (zs ! n) = None" "rkLocation (zs ! n) = None"
  proof -
    have "rkStatus (zs ! n) = CandidatePending \<and> rkConfirmed (zs ! n) = None \<and> rkLocation (zs ! n) = None"
    proof (cases "n < length ys")
      case True
      then have z: "zs ! n = (ys ! n)\<lparr>rkClaimed := rkClaimed (zs ! n)\<rparr>" using assms(2) by (simp add: candidates_grow_def)
      have "rkStatus (ys ! n) = CandidatePending \<and> rkConfirmed (ys ! n) = None \<and> rkLocation (ys ! n) = None"
        using True n(2) assms(1) by (simp add: candidates_grow_def)
      then show ?thesis by (subst z, subst z, subst z) simp
    next
      case False
      with n(1) assms(2) show ?thesis by (simp add: candidates_grow_def)
    qed
    then show "rkStatus (zs ! n) = CandidatePending" "rkConfirmed (zs ! n) = None" "rkLocation (zs ! n) = None" by simp_all
  qed
qed

lemma answers_grow:
  assumes "answers_line s connection order origin xs l c" "candidates_grow xs ys"
  shows "answers_line s connection order origin ys l c"
proof -
  from assms(1) obtain r row where r: "r \<in> set xs" "rkId r = c" "olQuantity l \<le> rkClaimed r" "row \<in> set (osOrders s)" "orId row = order"
    "candidate_key r = (connection, orExternal row, Some (olLine l), origin)" by (auto simp: answers_line_def)
  then obtain n where n: "n < length xs" "r = xs ! n" by (auto simp: in_set_conv_nth)
  with assms(2) have "ys ! n = r\<lparr>rkClaimed := rkClaimed (ys ! n)\<rparr>" "rkClaimed r \<le> rkClaimed (ys ! n)" "ys ! n \<in> set ys"
    by (auto simp: candidates_grow_def)
  moreover have "rkId (r\<lparr>rkClaimed := k\<rparr>) = c" "candidate_key (r\<lparr>rkClaimed := k\<rparr>) = candidate_key r" for k
    by (simp_all add: r(2) candidate_key_def)
  ultimately show ?thesis using r unfolding answers_line_def by (metis order_trans)
qed

lemma raise_candidate_answers:
  assumes "raiseRestockCandidate input order l origin (olQuantity l) y = Inr (c, y')"
  shows "candidates_grow (ydCandidates y) (ydCandidates y')"
    "answers_line (hoOrders (ydHouse y)) (lfConnection input) order origin (ydCandidates y') l c"
proof -
  obtain row where row: "List.find (\<lambda>z. orId z = order) (osOrders (hoOrders (ydHouse y))) = Some row"
    using assms by (auto simp: raiseRestockCandidate_def split: option.splits)
  then have o': "row \<in> set (osOrders (hoOrders (ydHouse y)))" "orId row = order" by (auto simp: find_Some_iff)
  let ?r = "\<lparr>rkId = ydNext y, rkBusiness = lfBusiness input, rkConnection = lfConnection input, rkOrder = Some order,
                   rkOrderLine = Some (olId l), rkExternalOrder = orExternal row, rkExternalLine = Some (olLine l),
                   rkItem = olItem l, rkOrigin = origin, rkClaimed = olQuantity l, rkStatus = CandidatePending,
                   rkConfirmed = None, rkLocation = None, rkBy = None, rkAt = None, rkEntry = None, rkReason = Some (lfReason input)\<rparr>"
  have key: "candidate_key ?r = (lfConnection input, orExternal row, Some (olLine l), origin)" by (simp add: candidate_key_def)
  have "candidates_grow (ydCandidates y) (ydCandidates y')
    \<and> answers_line (hoOrders (ydHouse y)) (lfConnection input) order origin (ydCandidates y') l c"
  proof (cases "List.find (\<lambda>x. candidate_key x = candidate_key ?r) (ydCandidates y)")
    case None
    with assms row have y': "c = ydNext y" "ydCandidates y' = ydCandidates y @ [?r]"
      by (auto simp: raiseRestockCandidate_def Let_def result_simps)
    moreover have "candidates_grow xs (xs @ [?r])" for xs by (auto simp: candidates_grow_def nth_append)
    moreover have "answers_line (hoOrders (ydHouse y)) (lfConnection input) order origin (ydCandidates y @ [?r]) l (ydNext y)"
      unfolding answers_line_def using o' key by (intro bexI [of _ ?r]) auto
    ultimately show ?thesis by simp
  next
    case (Some x)
    let ?f = "\<lambda>z. z\<lparr>rkClaimed := max (rkClaimed z) (olQuantity l)\<rparr>"
    from Some assms row have "c = rkId x" "update_candidates (\<lambda>z. rkId z = rkId x) ?f y = Inr y'"
      by (auto simp: raiseRestockCandidate_def Let_def result_simps)
    then have y': "c = rkId x" "ydCandidates y' = update_where (\<lambda>z. rkId z = rkId x) ?f (ydCandidates y)"
      by (auto simp: update_candidates_def result_simps update_checked_Inr)
    have x: "x \<in> set (ydCandidates y)" "candidate_key x = candidate_key ?r" using Some by (auto simp: find_Some_iff)
    have "candidates_grow xs (update_where p ?f xs)" for p xs by (auto simp: candidates_grow_def update_where_def)
    moreover have "?f x \<in> set (ydCandidates y')" using x(1) by (force simp: y'(2) set_update_where)
    then have "answers_line (hoOrders (ydHouse y)) (lfConnection input) order origin (ydCandidates y') l c"
      unfolding answers_line_def using o' x(2) key y'(1) by (intro bexI [of _ "?f x"]) (auto simp: candidate_key_def)
    ultimately show ?thesis by (simp add: y'(2))
  qed
  then show "candidates_grow (ydCandidates y) (ydCandidates y')"
    "answers_line (hoOrders (ydHouse y)) (lfConnection input) order origin (ydCandidates y') l c" by blast+
qed

text \<open>What the lines of a refund do, one after the other.\<close>

lemma refund_lines:
  assumes "foldR (decide_line (refund_line input origin) order) ls (es, cs, ts, y) = Inr (es', cs', ts', y')"
  shows "ts' = ts \<and> ydHouse y' = ydHouse y \<and> length es' = length es + length ls \<and> candidates_grow (ydCandidates y) (ydCandidates y')
    \<and> (one_per_return y \<longrightarrow> one_per_return y')
    \<and> (\<exists>new. cs' = cs @ new \<and> list_all2 (answers_line (hoOrders (ydHouse y)) (lfConnection input) order origin (ydCandidates y')) ls new)"
  using assms
proof (induction ls arbitrary: es cs ts y)
  case Nil
  then show ?case by (simp add: candidates_grow_refl)
next
  case (Cons l ls)
  then obtain acc where first: "decide_line (refund_line input origin) order l (es, cs, ts, y) = Inr acc"
    and rest0: "foldR (decide_line (refund_line input origin) order) ls acc = Inr (es', cs', ts', y')"
    by (auto simp: result_simps)
  from first obtain d y1 where d: "refund_line input origin l order y = Inr (d, y1)"
    and acc: "acc = (es @ [ldEffect d], (case ldCandidate d of None \<Rightarrow> cs | Some c \<Rightarrow> cs @ [c]),
        (case ldTouched d of None \<Rightarrow> ts | Some i \<Rightarrow> set_add i ts), y1)"
    by (auto simp: decide_line_def result_simps)
  note rest = rest0 [unfolded acc]
  from d obtain c where r: "raiseRestockCandidate input order l origin (olQuantity l) y = Inr (c, y1)"
    and dc: "ldCandidate d = Some c" "ldTouched d = None" by (auto simp: refund_line_def plain_decision_def result_simps)
  note house = raise_candidate_house [OF r]
  note ih = Cons.IH [OF rest]
  from ih obtain new where new: "cs' = cs @ c # new"
    "list_all2 (answers_line (hoOrders (ydHouse y)) (lfConnection input) order origin (ydCandidates y')) ls new"
    by (auto simp: dc house)
  have grow: "candidates_grow (ydCandidates y1) (ydCandidates y')" using ih by blast
  have "answers_line (hoOrders (ydHouse y)) (lfConnection input) order origin (ydCandidates y') l c"
    using raise_candidate_answers(2) [OF r] grow by (rule answers_grow)
  with new have "\<exists>new. cs' = cs @ new
      \<and> list_all2 (answers_line (hoOrders (ydHouse y)) (lfConnection input) order origin (ydCandidates y')) (l # ls) new"
    by (intro exI [of _ "c # new"]) simp
  moreover have "candidates_grow (ydCandidates y) (ydCandidates y')"
    using raise_candidate_answers(1) [OF r] grow by (rule candidates_grow_trans)
  ultimately show ?case using ih house dc raise_candidate_keeps(1) [OF r] by auto
qed

text \<open>
  C6: A refund, a return or a dispute says nothing about where the goods are, and the code takes it
  so: stock, targets, queue, alerts and orders stay as they were. An applied refund answers each of the
  order's lines it names, in order, with one candidate of that line and origin that claims at least the
  line's units. A candidate raised for it is pending and waits for a person; one that was there already,
  waiting or resolved, keeps everything but its claim, which only rises. However often the refund is
  announced, no line gets two candidates of one origin.
\<close>

theorem refund_restores_nothing:
  assumes "applyRefund sha256 lf origin y = Inr (res, y')"
  shows "hoHub (ydHouse y') = hoHub (ydHouse y) \<and> hoOrders (ydHouse y') = hoOrders (ydHouse y)
    \<and> hoAlerts (ydHouse y') = hoAlerts (ydHouse y)
    \<and> candidates_grow (ydCandidates y) (ydCandidates y')
    \<and> (distinct (map candidate_key (ydCandidates y)) \<longrightarrow> distinct (map candidate_key (ydCandidates y')))
    \<and> (\<forall>applied. res = LifecycleApplied applied \<longrightarrow>
        (let lines = read_order_lines (laOrder applied) (lfLines lf) (hoOrders (ydHouse y)) in
         length (laLines applied) = length lines
         \<and> list_all2 (answers_line (hoOrders (ydHouse y)) (lfConnection lf) (laOrder applied) (given origin FromRefund) (ydCandidates y'))
             lines (laCandidates applied)))"
proof -
  let ?decide = "refund_line lf (given origin FromRefund)"
  obtain got es where c: "claimEvent sha256 (lfEvent lf) (hoEvents (ydHouse y)) = Inr (got, es)"
    using assms by (auto simp: applyRefund_def applyLifecycle_def result_simps)
  let ?y = "y\<lparr>ydHouse := (ydHouse y)\<lparr>hoEvents := es\<rparr>\<rparr>"
  show ?thesis
  proof (cases got)
    case (EventProcessed i prior)
    with assms c show ?thesis by (auto simp: applyRefund_def applyLifecycle_def Let_def candidates_grow_refl)
  next
    case (EventClaimed i)
    show ?thesis
    proof (cases "find_order (lfConnection lf) (lfOrder lf) (hoOrders (ydHouse y))")
      case None
      with assms c EventClaimed show ?thesis
        by (auto simp: applyRefund_def applyLifecycle_def Let_def candidates_grow_refl)
    next
      case (Some order)
      with assms c EventClaimed obtain effects candidates touched y2 y3 x where
        d: "foldR (decide_line ?decide (orId order)) (read_order_lines (orId order) (lfLines lf) (hoOrders (ydHouse y)))
              ([], [], [], ?y) = Inr (effects, candidates, touched, y2)"
        and f: "foldR (\<lambda>item. put_in_house (refresh_item (lfBusiness lf) (lfReason lf) (lfOrigin lf) item)) touched y2 = Inr y3"
        and res: "res = LifecycleApplied \<lparr>laOrder = orId order, laLines = effects, laCandidates = candidates\<rparr>"
        and y': "y' = y3\<lparr>ydHouse := complete i x (ydHouse y3)\<rparr>"
        by (auto simp: applyRefund_def applyLifecycle_def Let_def result_simps)
      note r = refund_lines [OF d]
      then have "y3 = y2" using f by simp
      with r res y' show ?thesis by (simp add: one_per_return_def)
    qed
  qed
qed

section \<open>Confirmations\<close>

definition settled :: "uuid \<Rightarrow> yard \<Rightarrow> bool" where
  "settled c y \<longleftrightarrow> c < ydNext y \<and> (\<forall>r \<in> set (ydCandidates y). rkId r = c \<longrightarrow> rkStatus r \<noteq> CandidatePending)"

definition settles :: "yard \<Rightarrow> yard \<Rightarrow> bool" where
  "settles y y' \<longleftrightarrow> (\<forall>c. settled c y \<longrightarrow> settled c y')"

lemma same_candidates_settles: "ydNext y' = ydNext y \<Longrightarrow> ydCandidates y' = ydCandidates y \<Longrightarrow> settles y y'"
  by (simp add: settles_def settled_def)

interpretation settles: yard_relation settles
proof unfold_locales
  show "settles y y1 \<Longrightarrow> settles y1 y2 \<Longrightarrow> settles y y2" for y y1 y2 by (simp add: settles_def)
qed (auto simp: put_in_house_Inr intro: same_candidates_settles)

lemma raise_candidate_settles:
  assumes "raiseRestockCandidate input order l origin q y = Inr (c, y')"
  shows "settles y y'"
  using assms by (cases rule: raise_candidate_cases) (auto simp: settles_def settled_def set_update_where)

lemma in_house_settles: "in_house f y = Inr (v, y') \<Longrightarrow> settles y y'"
  by (auto simp: in_house_Inr intro: same_candidates_settles)

lemma set_line_settles: "set_line i f y = Inr y' \<Longrightarrow> settles y y'"
  by (auto simp: set_line_def put_in_house_Inr intro: same_candidates_settles)

lemma cancel_line_settles:
  assumes "cancel_line input l order y = Inr (d, y')"
  shows "settles y y'"
proof (cases "0 < olShipped l \<or> olReservation l = None")
  case True
  with assms show ?thesis
    by (auto simp: cancel_line_def result_simps settles.kept_refl dest: raise_candidate_settles split: if_splits)
next
  case False
  then obtain reservation where r: "olReservation l = Some reservation" "\<not> 0 < olShipped l" by blast
  with assms obtain released y1 where
    a: "in_house (in_stock (releaseReservation (resolve_line input reservation))) y = Inr (released, y1)"
    by (auto simp: cancel_line_def result_simps)
  have "settles y1 y'"
    using assms r a by (cases released) (auto simp: cancel_line_def result_simps settles.kept_refl dest: set_line_settles)
  with in_house_settles [OF a] show ?thesis by (rule settles.kept_trans)
qed

lemma fulfill_line_settles:
  assumes "fulfill_line input qs l order y = Inr (d, y')"
  shows "settles y y'"
proof -
  obtain y1 where one: "settles y y1" and rest: "y' = y1 \<or> (\<exists>i f. in_house (in_stock (fulfillReservation i)) y1 = Inr (f, y'))"
    using assms set_line_settles by (fastforce simp: fulfill_line_def Let_def result_simps split: option.splits)
  from rest have "settles y1 y'" by (auto simp: settles.kept_refl dest: in_house_settles)
  with one show ?thesis by (rule settles.kept_trans)
qed

lemma update_candidates_Inr:
  "update_candidates p f y = Inr y' \<Longrightarrow> y' = y\<lparr>ydCandidates := update_where p f (ydCandidates y)\<rparr>"
  by (auto simp: update_candidates_def result_simps update_checked_Inr)

text \<open>The house is as it was, but for the hub, and of the hub's market only the stock can differ.\<close>

definition same_but_hub :: "yard \<Rightarrow> yard \<Rightarrow> bool" where
  "same_but_hub y y' \<longleftrightarrow> ydHouse y' = (ydHouse y)\<lparr>hoHub := hoHub (ydHouse y')\<rparr>
     \<and> hbMarket (hoHub (ydHouse y')) = (hbMarket (hoHub (ydHouse y)))\<lparr>mkStock := stock_in (ydHouse y')\<rparr>"

lemma same_but_hub_trans:
  assumes "same_but_hub y y1" "same_but_hub y1 y2"
  shows "same_but_hub y y2"
proof -
  have "(ydHouse y1)\<lparr>hoHub := hub\<rparr> = (ydHouse y)\<lparr>hoHub := hub\<rparr>" for hub
    using assms(1) unfolding same_but_hub_def by (metis house.surjective house.update_convs(1))
  moreover have "(hbMarket (hoHub (ydHouse y1)))\<lparr>mkStock := d\<rparr> = (hbMarket (hoHub (ydHouse y)))\<lparr>mkStock := d\<rparr>" for d
    using assms(1) unfolding same_but_hub_def by (metis market.surjective market.update_convs(1))
  ultimately show ?thesis using assms(2) unfolding same_but_hub_def by metis
qed

lemma refresh_item_house:
  "refresh_item b reason origin item h = Inr h' \<Longrightarrow> h' = h\<lparr>hoHub := hoHub h'\<rparr> \<and> hbMarket (hoHub h') = hbMarket (hoHub h)"
  by (auto simp: refresh_item_def result_simps dest!: refresh_market)

lemma finish_restock_Inr:
  assumes "finish_restock cf now item entry y = Inr (x, y')"
  shows "x = Restocked (cfQuantity cf)" "stock_in (ydHouse y') = stock_in (ydHouse y)" "ydNext y' = ydNext y"
    "ydCandidates y' = update_where (\<lambda>r. rkId r = cfCandidate cf) (confirmed_candidate cf now entry) (ydCandidates y)"
    "same_but_hub y y'"
proof -
  obtain y1 where a: "update_candidates (\<lambda>r. rkId r = cfCandidate cf) (confirmed_candidate cf now entry) y = Inr y1"
    and b: "y' = y1 \<or> put_in_house (refresh_item (cfBusiness cf) ''confirmed restock'' (operatorOrigin OriginRestock now) item) y1 = Inr y'"
    and x: "x = Restocked (cfQuantity cf)"
    using assms by (auto simp: finish_restock_def result_simps split: if_splits)
  have same: "ydHouse y1 = ydHouse y" using update_candidates_house [OF a] .
  from b have h: "ydHouse y' = (ydHouse y1)\<lparr>hoHub := hoHub (ydHouse y')\<rparr>" "hbMarket (hoHub (ydHouse y')) = hbMarket (hoHub (ydHouse y1))"
    "ydCandidates y' = ydCandidates y1" "ydNext y' = ydNext y1"
    by (auto simp: put_in_house_Inr dest: refresh_item_house)
  then show "stock_in (ydHouse y') = stock_in (ydHouse y)" by (simp add: stock_in_def same)
  with h same show "same_but_hub y y'" by (simp add: same_but_hub_def stock_in_def)
  show "x = Restocked (cfQuantity cf)" "ydNext y' = ydNext y"
    "ydCandidates y' = update_where (\<lambda>r. rkId r = cfCandidate cf) (confirmed_candidate cf now entry) (ydCandidates y)"
    using x h update_candidates_Inr [OF a] by simp_all
qed

text \<open>The candidate a confirmation is about: of its business, still pending, and linked to an item.\<close>

definition awaiting :: "confirm_input \<Rightarrow> uuid \<Rightarrow> yard \<Rightarrow> bool" where
  "awaiting cf item y \<longleftrightarrow> (\<exists>r \<in> set (ydCandidates y). rkId r = cfCandidate cf \<and> rkBusiness r = cfBusiness cf
     \<and> rkStatus r = CandidatePending \<and> rkItem r = Some item)"

lemma confirm_cases:
  assumes "confirmRestock cf now y = Inr (x, y')"
  obtains (none) "\<forall>n. x \<noteq> Restocked n" "ydNext y' = ydNext y" "ydCandidates y' = ydCandidates y"
  | (plain) item where "awaiting cf item y" "cfQuantity cf = 0" "finish_restock cf now item None y = Inr (x, y')"
  | (posted) item ids bals d y1 where "awaiting cf item y" "0 < cfQuantity cf"
      "postMovements (restock_posting cf item) (stock_in (ydHouse y)) = Inr (Posted ids bals, d)"
      "stock_in (ydHouse y1) = d" "ydNext y1 = ydNext y" "ydCandidates y1 = ydCandidates y" "same_but_hub y y1"
      "finish_restock cf now item (first_of ids) y1 = Inr (x, y')"
proof (cases "cfQuantity cf < 0 \<or> (case List.find (\<lambda>r. rkBusiness r = cfBusiness cf \<and> rkId r = cfCandidate cf) (ydCandidates y) of
      None \<Rightarrow> True | Some r \<Rightarrow> rkStatus r \<noteq> CandidatePending \<or> rkItem r = None)")
  case True
  with assms have "\<forall>n. x \<noteq> Restocked n" "y' = y" by (auto simp: confirmRestock_def split: option.splits if_splits)
  with none show thesis by simp
next
  case False
  then obtain r item where r: "List.find (\<lambda>r. rkBusiness r = cfBusiness cf \<and> rkId r = cfCandidate cf) (ydCandidates y) = Some r"
    "rkStatus r = CandidatePending" "rkItem r = Some item" "0 \<le> cfQuantity cf" by (auto split: option.splits)
  then have found: "awaiting cf item y" unfolding awaiting_def find_Some_iff by (metis nth_mem)
  show thesis
  proof (cases "0 < cfQuantity cf")
    case False
    with assms r have "finish_restock cf now item None y = Inr (x, y')" by (simp add: confirmRestock_def)
    with False r(4) found show thesis by (intro plain) auto
  next
    case True
    with assms r obtain p y1 where p: "in_house (in_stock (postMovements (restock_posting cf item))) y = Inr (p, y1)"
      and rest: "(case p of Posted ids bals \<Rightarrow> finish_restock cf now item (first_of ids) y1
        | _ \<Rightarrow> Inr (ConfirmInvalid ''the restock movement was refused'', y1)) = Inr (x, y')"
      by (auto simp: confirmRestock_def result_simps)
    from p obtain d where d: "postMovements (restock_posting cf item) (stock_in (ydHouse y)) = Inr (p, d)" "stock_in (ydHouse y1) = d"
      "ydNext y1 = ydNext y" "ydCandidates y1 = ydCandidates y" "same_but_hub y y1"
      by (auto simp: in_house_Inr in_stock_def result_simps stock_in_def same_but_hub_def)
    show thesis
    proof (cases "\<exists>ids bals. p = Posted ids bals")
      case True
      then obtain ids bals where "p = Posted ids bals" by blast
      with d rest found \<open>0 < cfQuantity cf\<close> show thesis by (intro posted [of item ids bals d y1]) auto
    next
      case False
      with rest have "x = ConfirmInvalid ''the restock movement was refused'' \<and> y' = y1" by (cases p) auto
      with d none show thesis by simp
    qed
  qed
qed

lemma confirm_settles:
  assumes "confirmRestock cf now y = Inr (x, y')"
  shows "settles y y'"
proof -
  have f: "settles y1 y'" if "finish_restock cf now item entry y1 = Inr (x, y')" for item entry y1
    using finish_restock_Inr(3,4) [OF that] by (auto simp: settles_def settled_def set_update_where confirmed_candidate_def)
  have s: "settles y y1" if "ydNext y1 = ydNext y" "ydCandidates y1 = ydCandidates y" for y1
    using same_candidates_settles that by simp
  from assms show ?thesis
  proof (cases rule: confirm_cases)
    case none
    with s show ?thesis by simp
  next
    case (plain item)
    with f show ?thesis by blast
  next
    case (posted item ids bals d y1)
    with f [of item "first_of ids" y1] s [of y1] settles.kept_trans show ?thesis by blast
  qed
qed

lemma yard_step_settles: "yard_step sha256 y y' \<Longrightarrow> settles y y'"
proof (induction rule: yard_step.induct)
  case (ingests ig y r y')
  then show ?case by (rule in_house_settles)
next
  case (cancels lf y r' y')
  then show ?case unfolding applyCancellation_def by (rule settles.lifecycle_kept) (rule cancel_line_settles)
next
  case (fulfils lf qs y r' y')
  then show ?case unfolding applyFulfillment_def by (rule settles.lifecycle_kept) (rule fulfill_line_settles)
next
  case (refunds lf origin y r' y')
  have "settles y1 y2" if "refund_line lf k l order y1 = Inr (d, y2)" for k l order y1 d y2
    using that by (auto simp: refund_line_def result_simps dest: raise_candidate_settles)
  with refunds show ?case unfolding applyRefund_def by (blast intro: settles.lifecycle_kept)
next
  case (confirms cf now y x y')
  then show ?case by (rule confirm_settles)
next
  case (declines b c reason actor now y z y')
  then show ?case
    by (auto simp: declineRestock_def Let_def result_simps settles_def settled_def set_update_where dest!: update_candidates_Inr)
next
  case (prunes olderThanMs y n es)
  show ?case by (rule settles.kept_events)
next
  case (elsewhere y hub a v t ms n cs)
  then show ?case by (auto intro: same_candidates_settles)
qed

text \<open>
  C5: What comes back is put on the shelf once, by the person who looked at it. A confirmed restock
  answers the confirmed quantity; its candidate was pending, of that business and linked to an item;
  that item's stock at the confirmed location rises by exactly that quantity, by one receipt in the
  ledger, and no other figure of the stock, reserved ones included, and no order, alert or event
  changes. The candidate is confirmed with the quantity, the location, the person and the entry, the
  other candidates stay as they are, and beside that only the hub's queue, pilot and targets can move
  (the channels of the item are given new targets). Whatever happens afterwards, confirming the same
  candidate again restocks nothing.
\<close>

theorem return_is_restocked_once:
  assumes "confirmRestock cf now y = Inr (Restocked n, y1)" and "\<forall>r \<in> set (ydCandidates y). rkId r < ydNext y"
    and "(yard_step sha256)\<^sup>*\<^sup>* y1 y2" and "confirmRestock cf' now' y2 = Inr (x, y3)" and "cfCandidate cf' = cfCandidate cf"
  shows "n = cfQuantity cf \<and> (\<exists>r item new. r \<in> set (ydCandidates y) \<and> rkId r = cfCandidate cf \<and> rkBusiness r = cfBusiness cf
      \<and> rkStatus r = CandidatePending \<and> rkItem r = Some item
      \<and> (\<forall>b i l. on_hand_at (stock_in (ydHouse y1)) (b, i, l) = on_hand_at (stock_in (ydHouse y)) (b, i, l)
          + (if (b, i, l) = (cfBusiness cf, item, cfLocation cf) then n else 0))
      \<and> dbLedger (stock_in (ydHouse y1)) = dbLedger (stock_in (ydHouse y)) @ new
      \<and> map (\<lambda>e. (leBusiness e, leItem e, leLocation e, leKind e, leDelta e)) new
          = (if 0 < n then [(cfBusiness cf, item, cfLocation cf, Receipt, n)] else [])
      \<and> ydCandidates y1 = map (\<lambda>z. if rkId z = cfCandidate cf then z\<lparr>rkStatus := CandidateConfirmed, rkConfirmed := Some n,
            rkLocation := Some (cfLocation cf), rkBy := Some (cfActor cf), rkAt := Some now, rkEntry := first_of (map leId new),
            rkReason := or_else (cfReason cf) (rkReason z)\<rparr> else z) (ydCandidates y))
    \<and> reserved_at (stock_in (ydHouse y1)) = reserved_at (stock_in (ydHouse y))
    \<and> same_but_stock (stock_in (ydHouse y)) (stock_in (ydHouse y1)) \<and> same_but_hub y y1
    \<and> (\<forall>m. x \<noteq> Restocked m) \<and> y3 = y2"
proof -
  obtain item new where first: "awaiting cf item y" "n = cfQuantity cf" "ydNext y1 = ydNext y"
    and cand: "ydCandidates y1 = update_where (\<lambda>r. rkId r = cfCandidate cf) (confirmed_candidate cf now (first_of (map leId new))) (ydCandidates y)"
    and hand: "on_hand_at (stock_in (ydHouse y1)) (b, i, l) = on_hand_at (stock_in (ydHouse y)) (b, i, l)
        + (if (b, i, l) = (cfBusiness cf, item, cfLocation cf) then n else 0)"
    and ledger: "dbLedger (stock_in (ydHouse y1)) = dbLedger (stock_in (ydHouse y)) @ new"
      "map (\<lambda>e. (leBusiness e, leItem e, leLocation e, leKind e, leDelta e)) new
        = (if 0 < n then [(cfBusiness cf, item, cfLocation cf, Receipt, n)] else [])"
    and rest: "reserved_at (stock_in (ydHouse y1)) = reserved_at (stock_in (ydHouse y))"
      "same_but_stock (stock_in (ydHouse y)) (stock_in (ydHouse y1))" "same_but_hub y y1" for b i l
    using assms(1)
  proof (cases rule: confirm_cases)
    case none
    then show thesis by simp
  next
    case (plain item)
    note f = finish_restock_Inr [OF plain(3)]
    from plain f show thesis by (intro that [of item "[]"]) (simp_all add: first_of_def)
  next
    case (posted item ids bals d ya)
    note f = finish_restock_Inr [OF posted(8)]
    let ?d = "stock_in (ydHouse y)" and ?po = "restock_posting cf item"
    let ?new = "entries_from ?po (poMovements ?po) (dbNextUuid ?d) (dbClock ?d)"
    note p = postMovements_posted [OF posted(3), unfolded posted_effect_def Let_def]
    have one: "poMovements ?po = [\<lparr>mvItem = item, mvLocation = cfLocation cf, mvKind = Receipt, mvDelta = cfQuantity cf,
       mvReason = Some (given (cfReason cf) ''confirmed restock from a returned order''), mvReversalOf = None\<rparr>]"
      "poBusiness ?po = cfBusiness cf" by (simp_all add: restock_posting_def posting_of_def)
    have new: "map leId ?new = ids" "map (\<lambda>e. (leBusiness e, leItem e, leLocation e, leKind e, leDelta e)) ?new
        = [(cfBusiness cf, item, cfLocation cf, Receipt, cfQuantity cf)]"
      using p by (simp_all add: one entry_of_def)
    have stock: "stock_in (ydHouse y1) = d" using f(2) posted(4) by simp
    have hand: "on_hand_at d (b, i, l) = on_hand_at ?d (b, i, l)
        + (if (b, i, l) = (cfBusiness cf, item, cfLocation cf) then n else 0)" for b i l
      using p f(1) by (auto simp: one net_at_def net_of_def target_of_def)
    show thesis
      by (rule that [of item ?new])
        (use posted f p new hand same_but_hub_trans [OF posted(7) f(5)] in \<open>simp_all add: stock\<close>)
  qed
  have conf: "confirmed_candidate cf now e z = z\<lparr>rkStatus := CandidateConfirmed, rkConfirmed := Some n,
      rkLocation := Some (cfLocation cf), rkBy := Some (cfActor cf), rkAt := Some now, rkEntry := e,
      rkReason := or_else (cfReason cf) (rkReason z)\<rparr>" for e z by (simp add: confirmed_candidate_def first(2))
  obtain r where r: "r \<in> set (ydCandidates y)" "rkId r = cfCandidate cf" "rkBusiness r = cfBusiness cf"
    "rkStatus r = CandidatePending" "rkItem r = Some item" using first(1) by (auto simp: awaiting_def)
  then have "settled (cfCandidate cf) y1"
    using first(3) cand assms(2) by (auto simp: settled_def set_update_where conf)
  moreover have "settles y1 y2" using assms(3)
    by (induction rule: rtranclp_induct) (auto intro: settles.kept_refl settles.kept_trans yard_step_settles)
  ultimately have "settled (cfCandidate cf') y2" by (simp add: settles_def assms(5))
  then have again: "(\<forall>m. x \<noteq> Restocked m) \<and> y3 = y2"
    using assms(4) by (auto simp: confirmRestock_def settled_def find_Some_iff split: if_splits option.splits)
  have cand': "ydCandidates y1 = map (\<lambda>z. if rkId z = cfCandidate cf then z\<lparr>rkStatus := CandidateConfirmed, rkConfirmed := Some n,
      rkLocation := Some (cfLocation cf), rkBy := Some (cfActor cf), rkAt := Some now, rkEntry := first_of (map leId new),
      rkReason := or_else (cfReason cf) (rkReason z)\<rparr> else z) (ydCandidates y)"
    unfolding cand update_where_def conf ..
  show ?thesis
    using first(2) rest again
    by (intro conjI exI [of _ r] exI [of _ item] exI [of _ new] r hand allI ledger cand') simp_all
qed


section \<open>A returned order\<close>

text \<open>The order of \<open>Intake\<close> whose entity is not mapped, and the same order of bolts, returned.\<close>

definition returning :: "string \<Rightarrow> lifecycle_input" where
  "returning n = \<lparr>lfBusiness = 1, lfConnection = 61, lfOrder = ''o1'', lfEvent = notice n, lfLines = None,
     lfReason = ''changed mind'', lfActor = None, lfNow = None, lfOrigin = \<lparr>coKind = OriginOrder, coNoticed = 90\<rparr>\<rparr>"

definition sold_yard :: yard where
  "sold_yard = bolt_yard\<lparr>ydHouse := bolt_house\<lparr>hoOrders :=
     \<lparr>osNow = 100, osNext = 202,
      osOrders = [(fresh_order (delivery_of ''n1'' (bought ''e1'' 5)) 200)\<lparr>orDemand := CommittedDemand, orCommitted := Some 100\<rparr>],
      osLines = [(fresh_line 1 200 (hd (noLines (bought ''e1'' 5))) 201)\<lparr>olItem := Some 21\<rparr>], osMirrors = []\<rparr>\<rparr>\<rparr>"

lemmas returning_defs = returning_def notice_def delivery_of_def bought_def sold_yard_def bolt_yard_def bolt_house_def
  fresh_order_def fresh_line_def zero_or_def

lemma returned_run:
  "\<exists>r y. applyRefund id (returning ''n3'') None sold_yard = Inr (LifecycleApplied r, y) \<and> laCandidates r = [400]"
proof -
  have "case applyRefund id (returning ''n3'') None sold_yard of Inr (LifecycleApplied r, y) \<Rightarrow> laCandidates r = [400] | _ \<Rightarrow> False"
    by (simp add: applyRefund_def applyLifecycle_def claimEvent_def claimed_row_def find_order_def lookup_by_def order_key_def
        returning_defs read_order_lines_def readLines_def decide_line_def refund_line_def raiseRestockCandidate_def candidate_check_def
        given_def int4_def plain_decision_def opt_int4_def Let_def)
  then show ?thesis by (auto split: sum.splits prod.splits lifecycle_result.splits)
qed

theorem refund_restores_nothing_witness:
  "\<exists>r y. applyRefund id (returning ''n3'') None sold_yard = Inr (LifecycleApplied r, y) \<and> hoHub (ydHouse y) = bolt_hub
     \<and> length (laLines r) = 1 \<and> (\<exists>c \<in> set (ydCandidates y). rkId c = 400 \<and> rkStatus c = CandidatePending \<and> 2 \<le> rkClaimed c)"
proof -
  obtain r y where a: "applyRefund id (returning ''n3'') None sold_yard = Inr (LifecycleApplied r, y)" "laCandidates r = [400]"
    using returned_run by blast
  note p = refund_restores_nothing [OF a(1)]
  let ?lines = "read_order_lines (laOrder r) (lfLines (returning ''n3'')) (hoOrders (ydHouse sold_yard))"
  from p a(2) have l: "length (laLines r) = length ?lines" and all: "list_all2 (answers_line (hoOrders (ydHouse sold_yard))
      (lfConnection (returning ''n3'')) (laOrder r) (given None FromRefund) (ydCandidates y)) ?lines [400]"
    by (simp_all add: Let_def)
  then obtain line where line: "?lines = [line]" "answers_line (hoOrders (ydHouse sold_yard))
      (lfConnection (returning ''n3'')) (laOrder r) (given None FromRefund) (ydCandidates y) line 400"
    by (auto simp: list_all2_Cons2)
  have "line \<in> set ?lines" using line(1) by simp
  then have "olQuantity line = 2" by (simp add: read_order_lines_def readLines_def returning_defs split: if_splits)
  with line(2) obtain c where c: "c \<in> set (ydCandidates y)" "rkId c = 400" "2 \<le> rkClaimed c" by (auto simp: answers_line_def)
  then obtain n where n: "n < length (ydCandidates y)" "c = ydCandidates y ! n" by (auto simp: in_set_conv_nth)
  have "ydCandidates sold_yard = []" by (simp add: sold_yard_def bolt_yard_def)
  with p n have "rkStatus c = CandidatePending" by (simp add: candidates_grow_def)
  moreover have "hoHub (ydHouse y) = bolt_hub" using p by (simp add: sold_yard_def yard_literals)
  ultimately show ?thesis using a(1) c l line(1) by (intro exI [of _ r] exI [of _ y]) auto
qed

theorem order_tables_stay_typed_witness:
  "\<exists>r y. in_house (ingestOrder id (delivery_of ''n1'' (bought ''e9'' 5))) bolt_yard = Inr (Ingested r, y)
     \<and> distinct (map order_key (osOrders (hoOrders (ydHouse y))))"
proof -
  obtain r y where a: "in_house (ingestOrder id (delivery_of ''n1'' (bought ''e9'' 5))) bolt_yard = Inr (Ingested r, y)"
    using unmapped_delivery by blast
  then have "(yard_step id)\<^sup>*\<^sup>* bolt_yard y" by (blast intro: yard_step.ingests)
  from order_tables_stay_typed [OF this] a show ?thesis by (simp add: yard_literals orders_typed_def)
qed

text \<open>A candidate for the bolts, confirmed with one unit at the front.\<close>

definition pending_return :: candidate where
  "pending_return = \<lparr>rkId = 399, rkBusiness = 1, rkConnection = 61, rkOrder = None, rkOrderLine = None, rkExternalOrder = ''o1'',
     rkExternalLine = Some ''l1'', rkItem = Some 21, rkOrigin = FromRefund, rkClaimed = 2, rkStatus = CandidatePending,
     rkConfirmed = None, rkLocation = None, rkBy = None, rkAt = None, rkEntry = None, rkReason = None\<rparr>"

definition returned_yard :: yard where
  "returned_yard = bolt_yard\<lparr>ydCandidates := [pending_return]\<rparr>"

definition looked_at :: confirm_input where
  "looked_at = \<lparr>cfBusiness = 1, cfCandidate = 399, cfQuantity = 1, cfLocation = 41, cfActor = 9, cfReason = None\<rparr>"

lemma ran_confirm:
  "(case r of Restocked n \<Rightarrow> P n | ConfirmNotFound \<Rightarrow> False | ConfirmResolved s \<Rightarrow> False | ConfirmInvalid w \<Rightarrow> False)
     \<longleftrightarrow> (\<exists>n. r = Restocked n \<and> P n)"
  by (cases r) auto

lemma confirmed_run:
  "\<exists>y1. confirmRestock looked_at 100 returned_yard = Inr (Restocked 1, y1) \<and> settled 399 y1"
proof -
  have "case confirmRestock looked_at 100 returned_yard of Inl e \<Rightarrow> False | Inr (r, y1) \<Rightarrow>
      (case r of Restocked n \<Rightarrow> n = 1 \<and> ydNext y1 = 400 \<and> map rkStatus (ydCandidates y1) = [CandidateConfirmed]
       | ConfirmNotFound \<Rightarrow> False | ConfirmResolved s \<Rightarrow> False | ConfirmInvalid w \<Rightarrow> False)"
    by code_simp
  then show ?thesis by (auto simp: ran ran_confirm settled_def)
qed

lemma settled_confirm: "settled (cfCandidate cf) y \<Longrightarrow> \<exists>x. confirmRestock cf now y = Inr (x, y)"
  by (auto simp: confirmRestock_def settled_def find_Some_iff split: option.splits)

theorem return_is_restocked_once_witness:
  "\<exists>y1 x. confirmRestock looked_at 100 returned_yard = Inr (Restocked 1, y1) \<and> confirmRestock looked_at 101 y1 = Inr (x, y1)
     \<and> x \<noteq> Restocked 1
     \<and> on_hand_at (stock_in (ydHouse y1)) (1, 21, 41) = on_hand_at (stock_in (ydHouse returned_yard)) (1, 21, 41) + 1"
proof -
  obtain y1 where a: "confirmRestock looked_at 100 returned_yard = Inr (Restocked 1, y1)" "settled 399 y1"
    using confirmed_run by blast
  then obtain x where b: "confirmRestock looked_at 101 y1 = Inr (x, y1)"
    using settled_confirm [of looked_at y1 101] by (auto simp: looked_at_def)
  have "\<forall>r \<in> set (ydCandidates returned_yard). rkId r < ydNext returned_yard"
    by (simp add: returned_yard_def bolt_yard_def pending_return_def)
  note p = return_is_restocked_once [OF a(1) this rtranclp.rtrancl_refl b refl]
  from p obtain r item where r: "r \<in> set (ydCandidates returned_yard)" "rkItem r = Some item"
    and hand: "\<forall>b i l. on_hand_at (stock_in (ydHouse y1)) (b, i, l) = on_hand_at (stock_in (ydHouse returned_yard)) (b, i, l)
      + (if (b, i, l) = (cfBusiness looked_at, item, cfLocation looked_at) then 1 else 0)" by blast
  from r have "item = 21" by (simp add: returned_yard_def pending_return_def)
  with hand have "on_hand_at (stock_in (ydHouse y1)) (1, 21, 41) = on_hand_at (stock_in (ydHouse returned_yard)) (1, 21, 41) + 1"
    by (simp add: looked_at_def)
  with p a b show ?thesis by auto
qed

end
