(* ===== verification/Polling.thy ===== *)
theory Polling
  imports Intake Work
begin

text \<open>
  The incremental poll: a finished sweep has queued every order it was told of and the next sweep
  starts before this one did; and the poll returns unless the provider names a next page for ever.
\<close>

section \<open>Requests\<close>

definition order_waiting :: "uuid \<Rightarrow> string \<Rightarrow> queue \<Rightarrow> bool" where
  "order_waiting c x q \<longleftrightarrow> (\<exists>j \<in> set (quJobs q). jbStatus j = JobReady \<and> jbDedupe j = Some (order_scope c x))"

lemma request_waits:
  assumes "requestOrderSync input now q = Inr q'"
  shows "order_waiting (sqConnection input) (sqOrder input) q' \<and> set (quJobs q) \<subseteq> set (quJobs q')"
proof -
  let ?i = "sync_job input now"
  obtain r q1 where i: "insert_job ?i q = Inr (r, q1)"
    using assms by (auto simp: requestOrderSync_def enqueue_def result_simps)
  have key: "eqDedupe ?i = Some (order_scope (sqConnection input) (sqOrder input))" by (simp add: sync_job_def)
  note p = insert_job_pending [OF i]
  show ?thesis
  proof (cases r)
    case (Some j)
    with assms i have "q' = q1" by (auto simp: requestOrderSync_def enqueue_def)
    with p Some key show ?thesis by (auto simp: order_waiting_def new_job_def Let_def)
  next
    case None
    with p obtain winner where w: "pending_job (eqDedupe ?i) q = Some winner" and "q1 = q" by auto
    with None assms i have "q' = q" by (auto simp: requestOrderSync_def enqueue_def)
    with pending_job_Some [OF w] key show ?thesis by (auto simp: order_waiting_def)
  qed
qed

lemma request_all_waits:
  assumes "request_all b c requested k xs s = (Inr r, s')"
  shows "(\<forall>x \<in> set xs. order_waiting c x (queue_at s')) \<and> set (quJobs (queue_at s)) \<subseteq> set (quJobs (queue_at s'))"
  using assms
proof (induction xs arbitrary: s k)
  case Nil
  then show ?case by (simp add: answer_def)
next
  case (Cons x xs)
  let ?i = "\<lparr>sqBusiness = b, sqConnection = c, sqOrder = x, sqSource = ViaPoll, sqEvent = None, sqNoticed = None\<rparr>"
  from Cons.prems obtain q where q: "requestOrderSync ?i (requested k) (queue_at s) = Inr q" and rest: "request_all b c requested (Suc k) xs (put_queue q s) = (Inr r, s')"
    by (auto simp: andthen_def request_action_def split: sum.splits)
  have "queue_at (put_queue q s) = q" by (simp add: queue_at_def put_queue_def)
  with Cons.IH [OF rest] request_waits [OF q] show ?case by (fastforce simp: order_waiting_def)
qed

section \<open>The sweep\<close>

text \<open>A sweep page by page: what each page listed, and the world right after it was queued.\<close>

inductive swept :: "lot order_adapter \<Rightarrow> uuid \<Rightarrow> uuid \<Rightarrow> instant \<Rightarrow> (nat \<Rightarrow> instant) \<Rightarrow> string option \<Rightarrow> nat \<Rightarrow> lot \<Rightarrow> (string list \<times> lot) list \<Rightarrow> lot \<Rightarrow> bool"
  for adapter b c since requested where
  last_page: "oaChanged adapter since cursor s = (Inr (Success page), s1) \<Longrightarrow> request_all b c requested seen (cgOrders page) s1 = (Inr r, s2)
    \<Longrightarrow> cgNext page = None \<Longrightarrow> swept adapter b c since requested cursor seen s [(cgOrders page, s2)] s2"
| next_page: "oaChanged adapter since cursor s = (Inr (Success page), s1) \<Longrightarrow> request_all b c requested seen (cgOrders page) s1 = (Inr r, s2)
    \<Longrightarrow> cgNext page = Some following \<Longrightarrow> swept adapter b c since requested (Some following) (seen + length (cgOrders page)) s2 pages s'
    \<Longrightarrow> swept adapter b c since requested cursor seen s ((cgOrders page, s2) # pages) s'"

lemma swept_waits: "swept adapter b c since requested cursor seen s pages s' \<Longrightarrow> (xs, at) \<in> set pages \<Longrightarrow> x \<in> set xs \<Longrightarrow> order_waiting c x (queue_at at)"
  by (induction rule: swept.induct) (auto dest: request_all_waits)

definition sweep_counted :: "lot order_adapter \<Rightarrow> uuid \<Rightarrow> uuid \<Rightarrow> instant \<Rightarrow> (nat \<Rightarrow> instant) \<Rightarrow> string option \<Rightarrow> nat \<Rightarrow> lot
    \<Rightarrow> (exn + (provider_failure + nat)) \<times> lot \<Rightarrow> bool" where
  "sweep_counted adapter b c since requested cursor seen s y \<longleftrightarrow> (\<forall>n s'. y = (Inr (Inr n), s') \<longrightarrow>
     (\<exists>pages. swept adapter b c since requested cursor seen s pages s' \<and> n = seen + (\<Sum>(xs, at) \<leftarrow> pages. length xs)))"

lemma poll_counted:
  assumes "poll_pages adapter b c since requested cursor seen s = Some y"
  shows "sweep_counted adapter b c since requested cursor seen s y"
proof (rule poll_pages.raw_induct [where P = sweep_counted, OF _ assms])
  fix f adapter b c since requested cursor seen s y
  assume hyps: "\<And>adapter b c since requested cursor seen s y. f adapter b c since requested cursor seen s = Some y \<Longrightarrow> sweep_counted adapter b c since requested cursor seen s y"
    and body: "(case oaChanged adapter since cursor s of
        (Inl e, s1) \<Rightarrow> Some (Inl e, s1)
      | (Inr (Success page), s1) \<Rightarrow>
          (case request_all b c requested seen (cgOrders page) s1 of
             (Inl e, s2) \<Rightarrow> Some (Inl e, s2)
           | (Inr x, s2) \<Rightarrow>
               (case cgNext page of
                  None \<Rightarrow> Some (Inr (Inr (seen + length (cgOrders page))), s2)
                | Some following \<Rightarrow> f adapter b c since requested (Some following) (seen + length (cgOrders page)) s2))
      | (Inr (Failure e), s1) \<Rightarrow> Some (Inr (Inl e), s1)) = Some y"
  show "sweep_counted adapter b c since requested cursor seen s y"
    unfolding sweep_counted_def
  proof (intro allI impI)
    fix n s' assume y: "y = (Inr (Inr n), s')"
    obtain z s1 where z: "oaChanged adapter since cursor s = (z, s1)" by (cases "oaChanged adapter since cursor s")
    with body y obtain page where o': "oaChanged adapter since cursor s = (Inr (Success page), s1)"
      by (cases z) (auto split: provider_result.splits)
    obtain w s2 where "request_all b c requested seen (cgOrders page) s1 = (w, s2)" by (cases "request_all b c requested seen (cgOrders page) s1")
    with body y o' obtain r where a: "request_all b c requested seen (cgOrders page) s1 = (Inr r, s2)" by (cases w) auto
    show "\<exists>pages. swept adapter b c since requested cursor seen s pages s' \<and> n = seen + (\<Sum>(xs, at) \<leftarrow> pages. length xs)"
    proof (cases "cgNext page")
      case None
      with body o' a y have "s' = s2" "n = seen + length (cgOrders page)" by auto
      with swept.last_page [OF o' a None] show ?thesis by (intro exI [of _ "[(cgOrders page, s2)]"]) simp
    next
      case (Some following)
      with body o' a have "f adapter b c since requested (Some following) (seen + length (cgOrders page)) s2 = Some y" by simp
      from hyps [OF this] y obtain pages where p: "swept adapter b c since requested (Some following) (seen + length (cgOrders page)) s2 pages s'"
        "n = seen + length (cgOrders page) + (\<Sum>(xs, at) \<leftarrow> pages. length xs)" by (auto simp: sweep_counted_def)
      from swept.next_page [OF o' a Some p(1)] p(2) show ?thesis
        by (intro exI [of _ "(cgOrders page, s2) # pages"]) simp
    qed
  qed
qed

lemma watermark_written: "readWatermark c t (writeWatermark c at seen rows) = at"
proof (cases "list_ex (\<lambda>r. crConnection r = c \<and> crStream r = ORDER_STREAM) rows")
  case True
  then have "\<exists>r. List.find (\<lambda>r. crConnection r = c \<and> crStream r = ORDER_STREAM)
      (update_where (\<lambda>r. crConnection r = c \<and> crStream r = ORDER_STREAM) (\<lambda>r. r\<lparr>crValue := Some at, crSeen := seen, crComplete := Some at\<rparr>) rows)
      = Some r \<and> crValue r = Some at"
    by (induction rows) auto
  with True show ?thesis by (auto simp: readWatermark_def writeWatermark_def Let_def given_def)
next
  case False
  then have "List.find (\<lambda>r. crConnection r = c \<and> crStream r = ORDER_STREAM) rows = None"
    by (auto simp: find_None_iff list_ex_iff)
  then have "List.find (\<lambda>r. crConnection r = c \<and> crStream r = ORDER_STREAM) (rows @ [z])
      = (if crConnection z = c \<and> crStream z = ORDER_STREAM then Some z else None)" for z
    by (induction rows) (auto split: if_splits)
  with False show ?thesis by (simp add: readWatermark_def writeWatermark_def given_def)
qed

lemma failure_is_not_finished: "toJobFailure f \<noteq> Finished"
  by (cases f) auto

text \<open>
  C8: A finished sweep has missed nothing it was told of. It asks for everything since one window
  before the stored watermark; page after page, every order the provider listed had a waiting job when
  the page was done; and the watermark it leaves is \<open>clock 1\<close>, the reading taken before the first page
  was asked for and not one taken later, with the number of orders seen beside it. So the next sweep
  starts one window before this one did.
\<close>

theorem sweep_misses_nothing:
  assumes "handleOrderPoll adapterFor clock job s = Some (Inr Finished, s')"
  shows "\<exists>b c adapter s1 pages s2. jbBusiness (cjJob job) = Some b \<and> jbConnection (cjJob job) = Some c \<and> adapterFor c s = (Inr adapter, s1)
    \<and> swept adapter b c (readWatermark c (clock 0) (ltCursors s) - POLL_OVERLAP_MS) (\<lambda>k. clock (k + 2)) None 0 s1 pages s2
    \<and> (\<forall>(xs, at) \<in> set pages. \<forall>x \<in> set xs. order_waiting c x (queue_at at))
    \<and> s' = s2\<lparr>ltCursors := writeWatermark c (clock 1) (\<Sum>(xs, at) \<leftarrow> pages. length xs) (ltCursors s2)\<rparr>
    \<and> readWatermark c t (ltCursors s') = clock 1"
proof -
  from assms obtain b c where j: "jbBusiness (cjJob job) = Some b" "jbConnection (cjJob job) = Some c"
    by (auto simp: handleOrderPoll_def split: option.splits)
  obtain z s1 where "adapterFor c s = (z, s1)" by (cases "adapterFor c s")
  with assms j obtain adapter where a: "adapterFor c s = (Inr adapter, s1)" by (cases z) (auto simp: handleOrderPoll_def Let_def)
  let ?since = "readWatermark c (clock 0) (ltCursors s) - POLL_OVERLAP_MS" and ?requested = "\<lambda>k. clock (k + 2)"
  from assms j a obtain n s2 where p: "poll_pages adapter b c ?since ?requested None 0 s1 = Some (Inr (Inr n), s2)"
    and s': "s' = s2\<lparr>ltCursors := writeWatermark c (clock 1) n (ltCursors s2)\<rparr>"
    by (auto simp: handleOrderPoll_def Let_def failure_is_not_finished failure_is_not_finished [symmetric]
        split: option.splits prod.splits sum.splits)
  from poll_counted [OF p] obtain pages where "swept adapter b c ?since ?requested None 0 s1 pages s2"
    "n = (\<Sum>(xs, at) \<leftarrow> pages. length xs)" by (auto simp: sweep_counted_def)
  with swept_waits [OF this(1)] j a s' watermark_written show ?thesis
    by (intro exI [of _ b] exI [of _ c] exI [of _ adapter] exI [of _ s1] exI [of _ pages] exI [of _ s2]) auto
qed

text \<open>
  A first sweep has no watermark to start from: it reaches back two windows, since the window is
  taken off the watermark that already stands one window back.
\<close>

lemma first_sweep_reaches_back_twice:
  assumes "\<forall>r \<in> set (ltCursors s). \<not> (crConnection r = c \<and> crStream r = ORDER_STREAM)"
  shows "readWatermark c (clock 0) (ltCursors s) - POLL_OVERLAP_MS = clock 0 - 2 * POLL_OVERLAP_MS"
proof -
  have "List.find (\<lambda>r. crConnection r = c \<and> crStream r = ORDER_STREAM) (ltCursors s) = None"
    using assms by (auto simp: find_None_iff)
  then show ?thesis by (simp add: readWatermark_def)
qed

section \<open>The sweep ends\<close>

text \<open>From one page to the next: the cursor, the orders seen and the world, if the page names a next one.\<close>

definition next_page :: "lot order_adapter \<Rightarrow> uuid \<Rightarrow> uuid \<Rightarrow> instant \<Rightarrow> (nat \<Rightarrow> instant) \<Rightarrow> string option \<times> nat \<times> lot
    \<Rightarrow> (string option \<times> nat \<times> lot) option" where
  "next_page adapter b c since requested x = (case x of (cursor, seen, s) \<Rightarrow>
     (case oaChanged adapter since cursor s of
        (Inr (Success page), s1) \<Rightarrow>
          (case request_all b c requested seen (cgOrders page) s1 of
             (Inr _, s2) \<Rightarrow> map_option (\<lambda>following. (Some following, seen + length (cgOrders page), s2)) (cgNext page)
           | _ \<Rightarrow> None)
      | _ \<Rightarrow> None))"

fun after_pages :: "lot order_adapter \<Rightarrow> uuid \<Rightarrow> uuid \<Rightarrow> instant \<Rightarrow> (nat \<Rightarrow> instant) \<Rightarrow> nat \<Rightarrow> string option \<times> nat \<times> lot
    \<Rightarrow> (string option \<times> nat \<times> lot) option" where
  "after_pages adapter b c since requested 0 x = Some x"
| "after_pages adapter b c since requested (Suc n) x =
     (case next_page adapter b c since requested x of None \<Rightarrow> None | Some y \<Rightarrow> after_pages adapter b c since requested n y)"

text \<open>One round of the loop: it is over, or it goes on from the next page.\<close>

lemma poll_round:
  "poll_pages adapter b c since requested cursor seen s = (case next_page adapter b c since requested (cursor, seen, s) of
      Some (cursor', seen', s') \<Rightarrow> poll_pages adapter b c since requested cursor' seen' s'
    | None \<Rightarrow> poll_pages adapter b c since requested cursor seen s)"
  "next_page adapter b c since requested (cursor, seen, s) = None \<Longrightarrow> \<exists>y. poll_pages adapter b c since requested cursor seen s = Some y"
  unfolding next_page_def
  by (subst poll_pages.simps; auto split: sum.splits prod.splits provider_result.splits option.splits)+

lemma pages_end:
  "after_pages adapter b c since requested n (cursor, seen, s) = None
    \<Longrightarrow> \<exists>y. poll_pages adapter b c since requested cursor seen s = Some y"
proof (induction n arbitrary: cursor seen s)
  case (Suc n)
  show ?case
  proof (cases "next_page adapter b c since requested (cursor, seen, s)")
    case None
    then show ?thesis by (rule poll_round(2))
  next
    case (Some x)
    then show ?thesis using Suc poll_round(1) [of adapter b c since requested cursor seen s] by (cases x) auto
  qed
qed simp

definition paging_ends :: "lot order_adapter \<Rightarrow> uuid \<Rightarrow> uuid \<Rightarrow> instant \<Rightarrow> (nat \<Rightarrow> instant) \<Rightarrow> string option \<Rightarrow> nat \<Rightarrow> lot \<Rightarrow> 'x \<Rightarrow> bool" where
  "paging_ends adapter b c since requested cursor seen s y \<longleftrightarrow> (\<exists>n. after_pages adapter b c since requested n (cursor, seen, s) = None)"

lemma returned_pages_end:
  assumes "poll_pages adapter b c since requested cursor seen s = Some y"
  shows "paging_ends adapter b c since requested cursor seen s y"
proof (rule poll_pages.raw_induct [where P = paging_ends, OF _ assms])
  fix f adapter b c since requested cursor seen s y
  assume hyps: "\<And>adapter b c since requested cursor seen s y. f adapter b c since requested cursor seen s = Some y
      \<Longrightarrow> paging_ends adapter b c since requested cursor seen s y"
    and body: "(case oaChanged adapter since cursor s of
        (Inl e, s1) \<Rightarrow> Some (Inl e, s1)
      | (Inr (Success page), s1) \<Rightarrow>
          (case request_all b c requested seen (cgOrders page) s1 of
             (Inl e, s2) \<Rightarrow> Some (Inl e, s2)
           | (Inr x, s2) \<Rightarrow>
               (case cgNext page of
                  None \<Rightarrow> Some (Inr (Inr (seen + length (cgOrders page))), s2)
                | Some following \<Rightarrow> f adapter b c since requested (Some following) (seen + length (cgOrders page)) s2))
      | (Inr (Failure e), s1) \<Rightarrow> Some (Inr (Inl e), s1)) = Some y"
  show "paging_ends adapter b c since requested cursor seen s y"
  proof (cases "next_page adapter b c since requested (cursor, seen, s)")
    case None
    then show ?thesis unfolding paging_ends_def by (intro exI [of _ 1]) simp
  next
    case (Some x)
    obtain cursor' seen' s' where x: "x = (cursor', seen', s')" by (cases x)
    with Some body have "f adapter b c since requested cursor' seen' s' = Some y"
      by (auto simp: next_page_def split: sum.splits prod.splits provider_result.splits option.splits)
    from hyps [OF this] obtain n where "after_pages adapter b c since requested n (cursor', seen', s') = None"
      by (auto simp: paging_ends_def)
    with Some x show ?thesis unfolding paging_ends_def by (intro exI [of _ "Suc n"]) simp
  qed
qed

text \<open>
  C9: The poll returns, with an answer or an exception, in every case but one: its job names a business
  and a connection, the adapter was made, and however many pages have been read the next one is read,
  all its orders are queued and it names another. Nothing in the handler bounds the pages or compares
  cursors, so a provider that never stops naming a next page holds the job for ever, and nothing else does.
\<close>

theorem poll_returns_unless_pages_never_end:
  "handleOrderPoll adapterFor clock job s = None \<longleftrightarrow>
    (\<exists>b c adapter s1. jbBusiness (cjJob job) = Some b \<and> jbConnection (cjJob job) = Some c \<and> adapterFor c s = (Inr adapter, s1)
      \<and> (\<forall>n. after_pages adapter b c (readWatermark c (clock 0) (ltCursors s) - POLL_OVERLAP_MS) (\<lambda>k. clock (k + 2)) n (None, 0, s1) \<noteq> None))"
proof (cases "jbBusiness (cjJob job) = None \<or> jbConnection (cjJob job) = None")
  case True
  then show ?thesis by (auto simp: handleOrderPoll_def split: option.splits)
next
  case False
  then obtain b c where j: "jbBusiness (cjJob job) = Some b" "jbConnection (cjJob job) = Some c" by auto
  obtain z s1 where z: "adapterFor c s = (z, s1)" by (cases "adapterFor c s")
  show ?thesis
  proof (cases z)
    case (Inl e)
    with j z show ?thesis by (simp add: handleOrderPoll_def Let_def)
  next
    case (Inr adapter)
    let ?since = "readWatermark c (clock 0) (ltCursors s) - POLL_OVERLAP_MS" and ?requested = "\<lambda>k. clock (k + 2)"
    have "handleOrderPoll adapterFor clock job s = None \<longleftrightarrow> poll_pages adapter b c ?since ?requested None 0 s1 = None"
      using j z Inr by (auto simp: handleOrderPoll_def Let_def split: option.splits sum.splits)
    also have "\<dots> \<longleftrightarrow> (\<forall>n. after_pages adapter b c ?since ?requested n (None, 0, s1) \<noteq> None)"
      using pages_end returned_pages_end unfolding paging_ends_def by (metis option.exhaust option.distinct(1))
    finally show ?thesis using j z Inr by simp
  qed
qed


section \<open>A sweep of two pages\<close>

definition two_pages :: "lot order_adapter" where
  "two_pages = \<lparr>oaProvider = ''ebay'', oaFetch = (\<lambda>external s. (Inr (Failure (NotFound ''no such order'')), s)),
     oaChanged = (\<lambda>since cursor s. (Inr (Success (case cursor of
       None \<Rightarrow> \<lparr>cgOrders = [''o1'', ''o2''], cgNext = Some ''p2''\<rparr> | Some p \<Rightarrow> \<lparr>cgOrders = [''o1''], cgNext = None\<rparr>)), s))\<rparr>"

definition listing :: "uuid \<Rightarrow> (lot, lot order_adapter) action" where
  "listing c s = (Inr two_pages, s)"

definition poll_input :: enqueue_input where
  "poll_input = \<lparr>eqKind = ORDER_POLL_JOB, eqBusiness = Some 1, eqConnection = Some 61, eqPriority = None, eqSerialization = None,
     eqDedupe = None, eqPayload = None, eqRunAt = None, eqMaxAttempts = None, eqWindow = None\<rparr>"

definition poll_job :: claimed_job where
  "poll_job = \<lparr>cjJob = new_job poll_input 100 70, cjAttempt = 1, cjWorker = 7\<rparr>"

definition opened_lot :: lot where
  "opened_lot = \<lparr>ltYard = bolt_yard, ltCursors = []\<rparr>"

definition ticking :: "nat \<Rightarrow> instant" where
  "ticking k = 1000000 + int k"

text \<open>A provider that answers every request with the same cursor and no orders.\<close>

definition stuck_pages :: "lot order_adapter" where
  "stuck_pages = two_pages\<lparr>oaChanged := (\<lambda>since cursor s. (Inr (Success \<lparr>cgOrders = [], cgNext = Some ''p''\<rparr>), s))\<rparr>"

lemma requests_run:
  "\<exists>s1 s2. request_all 1 61 (\<lambda>k. ticking (k + 2)) 0 [''o1'', ''o2''] opened_lot = (Inr (), s1)
    \<and> request_all 1 61 (\<lambda>k. ticking (k + 2)) 2 [''o1''] s1 = (Inr (), s2)"
proof -
  have "case request_all 1 61 (\<lambda>k. ticking (k + 2)) 0 [''o1'', ''o2''] opened_lot of (u, s1) \<Rightarrow> \<not> isl u
      \<and> (case request_all 1 61 (\<lambda>k. ticking (k + 2)) 2 [''o1''] s1 of (v, s2) \<Rightarrow> \<not> isl v)"
    by code_simp
  moreover have "\<not> isl u \<longleftrightarrow> u = Inr ()" for u :: "exn + unit" by (cases u) auto
  ultimately show ?thesis by (auto split: prod.splits)
qed

lemma page_two: "poll_pages two_pages b c since requested (Some p) seen s = (case request_all b c requested seen [''o1''] s of
     (Inl e, s2) \<Rightarrow> Some (Inl e, s2) | (Inr _, s2) \<Rightarrow> Some (Inr (Inr (seen + 1)), s2))"
  by (subst poll_pages.simps) (simp add: two_pages_def del: request_all.simps split: sum.splits prod.splits)

lemma page_one: "poll_pages two_pages b c since requested None seen s = (case request_all b c requested seen [''o1'', ''o2''] s of
     (Inl e, s2) \<Rightarrow> Some (Inl e, s2) | (Inr _, s2) \<Rightarrow> poll_pages two_pages b c since requested (Some ''p2'') (seen + 2) s2)"
  by (subst poll_pages.simps) (simp add: two_pages_def del: request_all.simps split: sum.splits prod.splits)

lemma poll_job_names: "jbBusiness (cjJob poll_job) = Some 1" "jbConnection (cjJob poll_job) = Some 61"
  by (simp_all add: poll_job_def poll_input_def new_job_def Let_def)

lemma two_pages_run: "\<exists>s'. handleOrderPoll listing ticking poll_job opened_lot = Some (Inr Finished, s')"
  using requests_run poll_job_names
  by (auto simp: handleOrderPoll_def listing_def page_one page_two numeral_2_eq_2 simp del: request_all.simps)

theorem sweep_misses_nothing_witness:
  "\<exists>s'. handleOrderPoll listing ticking poll_job opened_lot = Some (Inr Finished, s') \<and> readWatermark 61 2000000 (ltCursors s') = 1000001"
proof -
  obtain s' where a: "handleOrderPoll listing ticking poll_job opened_lot = Some (Inr Finished, s')"
    using two_pages_run by blast
  from sweep_misses_nothing [OF a, of 2000000] have "readWatermark 61 2000000 (ltCursors s') = ticking 1"
    using poll_job_names by auto
  with a show ?thesis by (auto simp: ticking_def)
qed

theorem poll_returns_unless_pages_never_end_witness:
  "handleOrderPoll listing ticking poll_job opened_lot \<noteq> None
    \<and> handleOrderPoll (\<lambda>c s. (Inr stuck_pages, s)) ticking poll_job opened_lot = None"
proof -
  have "after_pages stuck_pages b c since requested n (cursor, 0, s) \<noteq> None" for b c since requested n cursor s
    by (induction n arbitrary: cursor) (simp_all add: next_page_def stuck_pages_def answer_def)
  then have "handleOrderPoll (\<lambda>c s. (Inr stuck_pages, s)) ticking poll_job opened_lot = None"
    using poll_returns_unless_pages_never_end [of "\<lambda>c s. (Inr stuck_pages, s)" ticking poll_job opened_lot] poll_job_names by auto
  with two_pages_run show ?thesis by auto
qed

end
