(* ===== verification/Spec2Isabelle.thy ===== *)
theory Spec2Isabelle
  imports Availability Allocation Schema Ledger Adjustments Settings Locations Items Kits
    Reservations Books Steps Resolved Demand
    Retry Queue Jobs Runner Work Leases Scheduler
    Market Mappings Activation Projection Selling Forecast Pilot
    Payload Alerts Alarm Incidents Outcomes Targets Delivery Dispatch Sends Events Orders Lifecycle Pipeline Intake Orderbook Polling
begin

text \<open>
  A model of the eCommerce Inventory Manager from the stock ledger to the channels it sells on, with
  the theorems that make it correct.

  \<^bold>\<open>The program.\<close> One canonical stock ledger per business, from which the eBay and WooCommerce
  channels are told what to display. \<^verbatim>\<open>packages/domain\<close> holds the arithmetic (availability, safety
  stock, kit capacity, allocation) as pure functions; \<^verbatim>\<open>packages/inventory\<close> holds the services
  that read and write the PostgreSQL tables of \<^verbatim>\<open>packages/db/src/schema\<close> and call the arithmetic.
  Every service that moves stock goes through \<open>postMovements\<close> of \<^verbatim>\<open>ledger.ts\<close>, inside a
  transaction that \<open>transactionally\<close> keeps or discards. A movement gives every mapped channel of the
  item a target (\<^verbatim>\<open>sync/src/targets.ts\<close>) and queues a write (\<^verbatim>\<open>packages/jobs\<close>); a worker claims
  the job, asks the gates (\<open>resolveWriteTarget\<close>, \<open>mayWrite\<close>), calls the provider's adapter and
  settles what it answered (\<^verbatim>\<open>sync/src/dispatch.ts\<close>). In the other direction a webhook or the poll
  queues the fetch of one order (\<^verbatim>\<open>sync/src/pipeline.ts\<close>), which is recorded and reserved once
  (\<^verbatim>\<open>orders.ts\<close>) and later cancelled, shipped or refunded (\<^verbatim>\<open>lifecycle.ts\<close>).

  \<^bold>\<open>How the model is built.\<close> A JavaScript number that counts units is an \<open>int\<close>, with the
  guards \<open>Number.isSafeInteger\<close> and the range of the \<open>integer\<close> columns written out where they
  decide an outcome; an instant is its milliseconds, also where the code passes an ISO string.
  A table is the list of its rows; the tables a component works on are a record (\<open>db\<close> of \<open>Schema\<close>,
  \<open>market\<close>, \<open>queue\<close>, \<open>pilot\<close>, \<open>targets\<close>, \<open>alerts\<close>, \<open>orders\<close>, \<open>events\<close>), and the records nest as
  the components call each other: \<open>hub\<close> is market, queue, pilot and targets, \<open>house\<close> adds alerts,
  orders and events, \<open>yard\<close> the restock candidates, \<open>lot\<close> the cursors of the poll. A service is a
  function from its input and its tables to \<open>exn + result * tables\<close>: \<open>Inl\<close> is a raised error, the
  result is the union type of the service with one constructor per outcome, and the second component
  is what is committed. Constraints the services rely on (checks, unique indexes, foreign keys) are
  evaluated by the \<open>insert_\<close> and \<open>update_\<close> functions and raise the named violation, as PostgreSQL
  does. Code that runs outside a transaction is an \<open>action\<close> (\<open>Dispatch\<close>), which keeps what it did
  before an error. A loop is a recursive function or \<open>foldR\<close>, both total; only the poll, whose
  number of pages the provider decides, is a \<open>partial_function (option)\<close>.

  \<^bold>\<open>The theories.\<close>
  \<^item> \<open>Prelude\<close>: identifiers, errors as values, insertion-ordered maps, strings, sorting; the
    locales \<open>row_order\<close> (the laws of an \<open>order by\<close>) and \<open>row_table\<close> (a table with a key).
  \<^item> \<open>Availability\<close>, \<open>Allocation\<close>: \<^verbatim>\<open>domain/src\<close>. Kit capacity with pooling is the greatest
    feasible number of kits and the per-location figure is never above it; a plan accounts for
    every ordered unit and takes only what is available.
  \<^item> \<open>Schema\<close>: \<^verbatim>\<open>db/src/schema/{tenancy,inventory,kits,reservations}.ts\<close>, the constraints, and a
    sample business \<open>shop\<close> on which the witnesses are evaluated.
  \<^item> \<open>Ledger\<close>: \<^verbatim>\<open>inventory/src/ledger.ts\<close>. What a posting does on every branch, that on-hand
    figures stay the sum of the ledger, that the lock order rules out deadlock.
  \<^item> \<open>Adjustments\<close>, \<open>Settings\<close>, \<open>Locations\<close>, \<open>Items\<close>, \<open>Kits\<close>: the files of the same name.
  \<^item> \<open>Reservations\<close>: \<^verbatim>\<open>inventory/src/reservations.ts\<close>; \<open>Books\<close>: the invariant that what a balance
    has reserved is what open reservations hold, kept by each of its operations; \<open>Steps\<close>: the
    step relation over all operations of the package and that it keeps the books; \<open>Resolved\<close>: a
    resolved reservation stays resolved and what is recorded of a reservation stays recorded; \<open>Demand\<close>: what the reservation operations promise and
    where they break the promise.
  \<^item> \<open>Retry\<close>, \<open>Queue\<close>, \<open>Jobs\<close>, \<open>Runner\<close>: \<^verbatim>\<open>jobs/src\<close>; \<open>Work\<close>: the queue stays sound, claims are
    bounded and fair, one pass of the runner is a run of the queue's own steps. \<open>Leases\<close>,
    \<open>Scheduler\<close>: \<^verbatim>\<open>db/src/leases.ts\<close> and the worker's scheduler; the process that ticks holds the lease, and a
    lease nobody renews is taken over.
  \<^item> \<open>Market\<close>, \<open>Mappings\<close>, \<open>Activation\<close>, \<open>Projection\<close>: \<^verbatim>\<open>mappings.ts\<close>, \<^verbatim>\<open>activation.ts\<close> and
    \<^verbatim>\<open>projection.ts\<close> of the inventory package; \<open>Selling\<close>: one writer per channel entity and a complete
    history; \<open>Forecast\<close>: a dry run is what posting the movements does.
  \<^item> \<open>Pilot\<close>, \<open>Incidents\<close>: stages, samples, incidents and drills of \<^verbatim>\<open>packages/pilot\<close>; \<open>Alerts\<close>,
    \<open>Alarm\<close>: \<^verbatim>\<open>notifications/src/alerts.ts\<close> and that a subject has one unresolved alert that only
    worsens.
  \<^item> \<open>Payload\<close>, \<open>Outcomes\<close>, \<open>Targets\<close>, \<open>Dispatch\<close>: job payloads, \<^verbatim>\<open>providers/src/outcomes.ts\<close>,
    \<^verbatim>\<open>sync/src/targets.ts\<close>, \<^verbatim>\<open>dispatch.ts\<close> and \<^verbatim>\<open>failures.ts\<close>; \<open>Delivery\<close>: the protocol of target
    versions as a step relation, a converged target was acknowledged at its version, one key is one
    quantity; \<open>Sends\<close>: both handlers are runs of that protocol, and the provider is asked only when
    the gates allow it.
  \<^item> \<open>Events\<close>, \<open>Orders\<close>, \<open>Lifecycle\<close>, \<open>Pipeline\<close>: the files of \<^verbatim>\<open>sync/src\<close> of the same name;
    \<open>Intake\<close>: the step relation over everything that happens to orders, an order commits once, a
    replayed signal changes nothing, the books stay balanced. \<open>Orderbook\<close>: the order tables stay
    well formed, a refund moves nothing and only a confirmation restocks. \<open>Polling\<close>: a finished
    sweep has queued every order it was told of and moves the watermark to its own start, and when
    the poll does not return.

  \<^bold>\<open>Concurrency.\<close> A transaction of the program is one step of the model: every balance row a
  posting reads is locked first, and locks are taken in one order, which \<open>Ledger\<close> shows to be
  free of deadlock. Where the code reads before it locks, or across transactions, what it read is
  passed on explicitly so that a stale read can be expressed: \<open>readForResolution\<close>, the rows a claim
  of the queue saw, the count \<open>setStage\<close> read, the target a worker read before it writes. A call of
  an adapter or a handler may move everything else, so it is a function on the whole state.

  \<^bold>\<open>Parameters.\<close> The hash (\<open>sha256\<close>), \<open>localeCompare\<close> on names, the jitter draw of a retry, the
  clock, and the adapters of the providers are arguments. Theorems about handlers hold for every
  adapter; those that need one to behave name what it does as a hypothesis.

  \<^bold>\<open>Bounds.\<close> There is no fuel. The poll returns unless the provider names a next page for ever, and
  \<open>poll_returns_unless_pages_never_end\<close> is that equivalence, without a hypothesis on the provider.

  \<^bold>\<open>Clocks.\<close> A statement runs at the database's clock. A process reads its own: the scheduler's
  processes each have one that need not agree with the database's, and \<open>ticks_hold_the_lease\<close> names
  what it asks of the one that ticks; the poll's readings are a sequence in the order it takes them.

  \<^bold>\<open>Not modelled.\<close> Identity, review, listings, shipping, health reports, retention and the other
  packages listed in the manifest as not modelled, and the deletions of the retention sweep save the
  pruning of processed events, which is a step of \<open>yard_step\<close>: a replayed signal is recognised while
  its row is there. Rows of other tables that an alert names can be deleted, which sets its reference
  to null; this is not a step of the alerts, nor is the deletion of old alerts. The connection and the
  item of a restock candidate are taken to exist, as the order and the line they come from have them.
  The web and worker applications, the provider HTTP clients, cryptography, mail and logging are input and output
  around libraries.
\<close>

end
